(* ===== verification/Prelude.thy ===== *)
theory Prelude
  imports Main "HOL-Library.Word" "HOL-Library.Sublist"
begin

text \<open>
  The shared base of the development: names for the machine types of the Rust sources, the
  \<open>Result\<close> convention, Rust strings as lists of Unicode scalar values, the arithmetic of the
  standard library that the sources rely on (saturating, checked and truncating operations),
  generic list lemmas, and two interface locales used by several components:
  \<open>invariant_machine\<close> (an invariant kept by every step holds in every reachable state) and
  \<open>evicting_log\<close> (a bounded log that may forget its oldest entries and nothing else).
\<close>

section \<open>Machine types and results\<close>

type_synonym u8 = "8 word"
type_synonym u16 = "16 word"
type_synonym u32 = "32 word"
type_synonym u64 = "64 word"
type_synonym bytes = "u8 list"

text \<open>
  A Rust \<open>Result<T, E>\<close> is a sum with the error on the left.
\<close>

abbreviation Ok :: "'a \<Rightarrow> 'e + 'a" where
  "Ok \<equiv> Inr"

abbreviation Err :: "'e \<Rightarrow> 'e + 'a" where
  "Err \<equiv> Inl"

definition is_ok :: "'e + 'a \<Rightarrow> bool" where
  "is_ok r = (case r of Inl _ \<Rightarrow> False | Inr _ \<Rightarrow> True)"

lemma is_ok_simps [simp]: "is_ok (Ok x)" "\<not> is_ok (Err e)"
  by (simp_all add: is_ok_def)

section \<open>Strings\<close>

text \<open>
  A Rust \<open>char\<close> is a Unicode scalar value, here its code point; a \<open>String\<close> is the list of
  its characters. \<open>len\<close> counts the bytes of the UTF-8 encoding, as \<open>str::len\<close> does.
  \<open>lit\<close> turns an ASCII literal of the sources into such a string.
\<close>

type_synonym rchar = nat
type_synonym rstring = "rchar list"

definition lit :: "string \<Rightarrow> rstring" where
  "lit s = map of_char s"

definition len_utf8 :: "rchar \<Rightarrow> nat" where
  "len_utf8 c = (if c < 0x80 then 1 else if c < 0x800 then 2 else if c < 0x10000 then 3 else 4)"

definition len :: "rstring \<Rightarrow> nat" where
  "len s = sum_list (map len_utf8 s)"

text \<open>A Unicode scalar value: a code point that is not a surrogate.\<close>

definition is_scalar :: "rchar \<Rightarrow> bool" where
  "is_scalar c \<longleftrightarrow> c < 0xD800 \<or> (0xE000 \<le> c \<and> c < 0x110000)"

definition is_ascii_digit :: "rchar \<Rightarrow> bool" where
  "is_ascii_digit c \<longleftrightarrow> 48 \<le> c \<and> c \<le> 57"

definition is_ascii_alphanumeric :: "rchar \<Rightarrow> bool" where
  "is_ascii_alphanumeric c \<longleftrightarrow>
     is_ascii_digit c \<or> (65 \<le> c \<and> c \<le> 90) \<or> (97 \<le> c \<and> c \<le> 122)"

lemma len_utf8_bounds: "1 \<le> len_utf8 c" "len_utf8 c \<le> 4"
  by (simp_all add: len_utf8_def)

lemma len_simps [simp]: "len [] = 0" "len (c # s) = len_utf8 c + len s" "len (s @ t) = len s + len t"
  by (simp_all add: len_def)

lemma length_le_len: "length s \<le> len s"
proof (induction s)
  case (Cons c s)
  then show ?case using len_utf8_bounds(1) [of c] by simp
qed simp

lemma len_ascii: "(\<And>c. c \<in> set s \<Longrightarrow> c < 0x80) \<Longrightarrow> len s = length s"
  by (induction s) (auto simp: len_utf8_def)

lemma ascii_alphanumeric_less: "is_ascii_alphanumeric c \<Longrightarrow> c < 0x80"
  by (auto simp: is_ascii_alphanumeric_def is_ascii_digit_def)

lemma u8_unat_less: "unat (b :: u8) < 256"
  using unsigned_less [of b] by simp

section \<open>Casts and saturating arithmetic\<close>

text \<open>\<open>n as u32\<close> and \<open>n as u16\<close> keep the low bits of an unsigned value.\<close>

definition as_u32 :: "nat \<Rightarrow> nat" where
  "as_u32 n = n mod 2 ^ 32"

definition as_u16 :: "nat \<Rightarrow> nat" where
  "as_u16 n = n mod 2 ^ 16"

lemma as_u32_id: "n < 2 ^ 32 \<Longrightarrow> as_u32 n = n"
  by (simp add: as_u32_def)

lemma as_u32_less [simp]: "as_u32 n < 4294967296"
  by (simp add: as_u32_def)

lemma as_u16_less [simp]: "as_u16 n < 65536"
  by (simp add: as_u16_def)

definition i64_max :: int where
  "i64_max = 2 ^ 63 - 1"

definition i64_min :: int where
  "i64_min = - (2 ^ 63)"

definition clamp_i64 :: "int \<Rightarrow> int" where
  "clamp_i64 x = max i64_min (min i64_max x)"

definition saturating_add_i64 :: "int \<Rightarrow> int \<Rightarrow> int" where
  "saturating_add_i64 a b = clamp_i64 (a + b)"

definition saturating_sub_i64 :: "int \<Rightarrow> int \<Rightarrow> int" where
  "saturating_sub_i64 a b = clamp_i64 (a - b)"

section \<open>Invariants of step machines\<close>

text \<open>
  The contract behind every stateful component: an initial state that satisfies the
  invariant and a step function that keeps it. Runs are event lists, folded left to right.
\<close>

locale invariant_machine =
  fixes step :: "'s \<Rightarrow> 'e \<Rightarrow> 's"
    and inv :: "'s \<Rightarrow> bool"
  assumes step_inv: "inv s \<Longrightarrow> inv (step s e)"
begin

lemma run_inv: "inv s \<Longrightarrow> inv (foldl step s es)"
  by (induction es arbitrary: s) (auto intro: step_inv)

lemma run_inv_prefix: "inv s \<Longrightarrow> prefix es fs \<Longrightarrow> inv (foldl step s es)"
  by (rule run_inv)

end

section \<open>Logs that evict their oldest entries\<close>

text \<open>
  Three bounded containers of the daemon (the scrollback ring, the ring of superseded token
  hashes and the audit ring) share one contract: appending keeps the new entry, keeps the
  order, and forgets entries at the old end only. The consequences for whole histories of
  appends are proved here once.
\<close>

locale evicting_log =
  fixes entries :: "'s \<Rightarrow> 'a list"
    and append :: "'s \<Rightarrow> 'a \<Rightarrow> 's"
    and valid :: "'s \<Rightarrow> bool"
  assumes append_valid: "valid s \<Longrightarrow> valid (append s x)"
    and append_entries:
      "valid s \<Longrightarrow> \<exists>k \<le> length (entries s). entries (append s x) = drop k (entries s @ [x])"
begin

lemma append_all_valid: "valid s \<Longrightarrow> valid (foldl append s xs)"
  by (induction xs arbitrary: s) (auto intro: append_valid)

lemma append_suffix: "valid s \<Longrightarrow> suffix (entries (append s x)) (entries s @ [x])"
  using append_entries [of s x] by (metis suffix_drop)

lemma append_last: "valid s \<Longrightarrow> entries (append s x) \<noteq> [] \<and> last (entries (append s x)) = x"
  using append_entries [of s x] by auto

lemma append_all_suffix: "valid s \<Longrightarrow> suffix (entries (foldl append s xs)) (entries s @ xs)"
proof (induction xs rule: rev_induct)
  case Nil
  then show ?case by simp
next
  case (snoc x xs)
  let ?t = "foldl append s xs"
  have "suffix (entries (append ?t x)) (entries ?t @ [x])"
    by (rule append_suffix) (rule append_all_valid [OF snoc.prems])
  moreover have "suffix (entries ?t @ [x]) ((entries s @ xs) @ [x])"
    using snoc by (simp add: suffix_def)
  ultimately have "suffix (entries (append ?t x)) ((entries s @ xs) @ [x])"
    by (rule suffix_order.trans)
  then show ?case by simp
qed

lemma append_all_last:
  "valid s \<Longrightarrow> xs \<noteq> [] \<Longrightarrow>
     entries (foldl append s xs) \<noteq> [] \<and> last (entries (foldl append s xs)) = last xs"
  by (induction xs rule: rev_induct) (auto simp: append_last append_all_valid)

end

section \<open>List lemmas\<close>

lemma apfst_append_Nil [simp]: "apfst ((@) []) p = p"
  by (cases p) simp

lemma apfst_append_append [simp]: "apfst ((@) a) (apfst ((@) b) p) = apfst ((@) (a @ b)) p"
  by (cases p) simp

lemma nth_drop_shift: "k \<le> i \<Longrightarrow> i < length xs \<Longrightarrow> drop k xs ! (i - k) = xs ! i"
  by simp

lemma sum_list_drop_le: "sum_list (drop k xs) \<le> sum_list (xs :: nat list)"
  by (metis add.commute append_take_drop_id le_add1 sum_list_append)

lemma take_Suc_drop_nth: "i < n \<Longrightarrow> n \<le> length xs \<Longrightarrow> drop i (take n xs) = xs ! i # drop (Suc i) (take n xs)"
  by (metis Cons_nth_drop_Suc length_take min.absorb2 nth_take)

section \<open>Hash maps as association lists\<close>

text \<open>
  A \<open>HashMap\<close> is an association list with distinct keys, so that its length and its values
  are executable; the order stands for the unspecified iteration order. \<open>assoc_upd\<close> is a
  mutation in place, \<open>assoc_put\<close> is \<open>insert\<close> and \<open>assoc_del\<close> is \<open>remove\<close>.
\<close>

definition keys :: "('k \<times> 'v) list \<Rightarrow> 'k list" where
  "keys xs = map fst xs"

definition assoc_upd :: "'k \<Rightarrow> ('v \<Rightarrow> 'v) \<Rightarrow> ('k \<times> 'v) list \<Rightarrow> ('k \<times> 'v) list" where
  "assoc_upd k f xs = map (\<lambda>(k', v). (k', if k' = k then f v else v)) xs"

definition assoc_put :: "'k \<Rightarrow> 'v \<Rightarrow> ('k \<times> 'v) list \<Rightarrow> ('k \<times> 'v) list" where
  "assoc_put k v xs = (if k \<in> set (keys xs) then assoc_upd k (\<lambda>_. v) xs else xs @ [(k, v)])"

definition assoc_del :: "'k \<Rightarrow> ('k \<times> 'v) list \<Rightarrow> ('k \<times> 'v) list" where
  "assoc_del k xs = filter (\<lambda>(k', v). k' \<noteq> k) xs"

lemma keys_assoc [simp]:
  "keys [] = []" "keys (x # xs) = fst x # keys xs" "keys (xs @ ys) = keys xs @ keys ys"
  "keys (assoc_upd k f xs) = keys xs"
  by (auto simp: keys_def assoc_upd_def)

lemma map_of_assoc_upd [simp]:
  "map_of (assoc_upd k f xs) k' = (if k' = k then map_option f (map_of xs k) else map_of xs k')"
  by (induction xs) (auto simp: assoc_upd_def)

lemma map_of_assoc_put [simp]: "map_of (assoc_put k v xs) k' = (if k' = k then Some v else map_of xs k')"
proof (cases "k \<in> set (keys xs)")
  case True
  then obtain w where "map_of xs k = Some w"
    by (metis keys_def map_of_eq_None_iff not_None_eq set_map)
  then show ?thesis using True by (simp add: assoc_put_def)
next
  case False
  then have "map_of xs k = None" by (auto simp: keys_def map_of_eq_None_iff)
  then show ?thesis using False by (auto simp: assoc_put_def map_add_def split: option.splits)
qed

lemma map_of_assoc_del [simp]: "map_of (assoc_del k xs) k' = (if k' = k then None else map_of xs k')"
  by (induction xs) (auto simp: assoc_del_def)

lemma distinct_assoc_put [simp]: "distinct (keys xs) \<Longrightarrow> distinct (keys (assoc_put k v xs))"
  by (auto simp: assoc_put_def)

lemma keys_assoc_del: "keys (assoc_del k xs) = filter (\<lambda>k'. k' \<noteq> k) (keys xs)"
  by (induction xs) (auto simp: assoc_del_def)

lemma distinct_assoc_del [simp]: "distinct (keys xs) \<Longrightarrow> distinct (keys (assoc_del k xs))"
  by (simp add: keys_assoc_del)

lemma in_assoc_upd:
  "(a, v) \<in> set (assoc_upd k f xs) \<longleftrightarrow> (\<exists>w. (a, w) \<in> set xs \<and> v = (if a = k then f w else w))"
  by (force simp: assoc_upd_def)

lemma set_keys_del: "set (keys (assoc_del k xs)) = set (keys xs) - {k}"
  by (auto simp: keys_assoc_del)

lemma set_assoc_del: "set (assoc_del k xs) \<subseteq> set xs"
  by (auto simp: assoc_del_def)

lemma length_assoc_upd [simp]: "length (assoc_upd k f xs) = length xs"
  by (simp add: assoc_upd_def)

lemma length_assoc_del: "length (assoc_del k xs) \<le> length xs"
  by (simp add: assoc_del_def)

lemma map_of_None_keys: "map_of xs k = None \<longleftrightarrow> k \<notin> set (keys xs)"
  by (simp add: keys_def map_of_eq_None_iff)

lemma map_of_in_set: "distinct (keys xs) \<Longrightarrow> map_of xs k = Some v \<longleftrightarrow> (k, v) \<in> set xs"
  by (simp add: keys_def)

end
