(* ===== verification/History.thy ===== *)
theory History
  imports Prelude
begin

text \<open>
  The scrollback ring of \<open>crates/terminal-model/src/history.rs\<close>: a bounded queue of lines with
  stable line IDs. IDs are 1-based (0 is the reserved "none"), they are modelled as natural
  numbers (a \<open>u64\<close> counter that only \<open>push\<close> increments). The lemmas show that eviction never
  renumbers a line, that both bounds hold after every push, and that a range read returns
  exactly the wanted slice, so that paging backwards enumerates the retained history.
\<close>

section \<open>State and operations\<close>

record history_ring =
  hr_lines :: "rstring list"
  hr_first_id :: nat
  hr_next_id :: nat
  hr_bytes :: nat
  hr_max_lines :: nat
  hr_max_bytes :: nat

record history_range =
  first_line_id :: nat
  range_lines :: "rstring list"
  truncated_by_eviction :: bool

definition history_new :: "nat \<Rightarrow> nat \<Rightarrow> history_ring" where
  "history_new max_lines max_bytes =
     \<lparr>hr_lines = [], hr_first_id = 1, hr_next_id = 1, hr_bytes = 0,
      hr_max_lines = max max_lines 1, hr_max_bytes = max max_bytes 1\<rparr>"

definition over_bounds :: "history_ring \<Rightarrow> bool" where
  "over_bounds r \<longleftrightarrow> length (hr_lines r) > hr_max_lines r \<or> hr_bytes r > hr_max_bytes r"

text \<open>
  The eviction loop of \<open>push\<close>. \<open>pop_front\<close> on the empty queue is the source's
  \<open>expect("non-empty")\<close>; \<open>push\<close> has just appended a line, so that branch is never taken.
\<close>

function evict_loop :: "history_ring \<Rightarrow> history_ring" where
  "evict_loop r =
     (if over_bounds r then
        (if length (hr_lines r) = 1 then r
         else (case hr_lines r of
                 [] \<Rightarrow> r
               | evicted # rest \<Rightarrow>
                   evict_loop (r\<lparr>hr_lines := rest, hr_bytes := hr_bytes r - len evicted,
                                 hr_first_id := hr_first_id r + 1\<rparr>)))
      else r)"
  by pat_completeness auto
termination
  by (relation "measure (\<lambda>r. length (hr_lines r))") auto

declare evict_loop.simps [simp del]

definition history_push :: "history_ring \<Rightarrow> rstring \<Rightarrow> history_ring" where
  "history_push r line =
     evict_loop (r\<lparr>hr_bytes := hr_bytes r + len line, hr_lines := hr_lines r @ [line],
                   hr_next_id := hr_next_id r + 1\<rparr>)"

definition oldest_id :: "history_ring \<Rightarrow> nat" where
  "oldest_id r = (if hr_lines r = [] then 0 else hr_first_id r)"

definition newest_id :: "history_ring \<Rightarrow> nat" where
  "newest_id r = hr_next_id r - 1"

text \<open>
  The collecting loop of \<open>range\<close>, newest line first. \<open>None\<close> is the panic of an index out of
  range; \<open>collected.len() as u32\<close> is the truncating cast.
\<close>

function range_loop ::
  "history_ring \<Rightarrow> nat \<Rightarrow> nat \<Rightarrow> nat \<Rightarrow> nat \<Rightarrow> rstring list \<Rightarrow> rstring list option" where
  "range_loop r maximum_lines maximum_bytes i nbytes collected =
     (if i < hr_first_id r \<or> length (hr_lines r) \<le> i - hr_first_id r then None
      else let line = hr_lines r ! (i - hr_first_id r) in
        if collected \<noteq> [] \<and> (as_u32 (length collected) \<ge> maximum_lines
             \<or> nbytes + len line > maximum_bytes)
        then Some collected
        else let collected' = collected @ [line] in
          if i = hr_first_id r \<or> as_u32 (length collected') \<ge> maximum_lines
          then Some collected'
          else range_loop r maximum_lines maximum_bytes (i - 1) (nbytes + len line) collected')"
  by pat_completeness auto
termination
  by (relation "measure (\<lambda>(r, ml, mb, i, n, c). i - hr_first_id r)") auto

declare range_loop.simps [simp del]

definition range_upper :: "history_ring \<Rightarrow> nat \<Rightarrow> nat" where
  "range_upper r before_line_id =
     (if before_line_id = 0 then newest_id r else min (before_line_id - 1) (newest_id r))"

definition history_range :: "history_ring \<Rightarrow> nat \<Rightarrow> nat \<Rightarrow> nat \<Rightarrow> history_range option" where
  "history_range r before_line_id maximum_lines maximum_bytes =
     (let upper = range_upper r before_line_id in
      if hr_lines r = [] \<or> upper = 0 \<or> upper < hr_first_id r
      then Some \<lparr>first_line_id = 0, range_lines = [],
                 truncated_by_eviction =
                   (upper \<noteq> 0 \<and> newest_id r \<noteq> 0 \<and> upper < hr_first_id r)\<rparr>
      else (case range_loop r maximum_lines maximum_bytes upper 0 [] of
              None \<Rightarrow> None
            | Some collected \<Rightarrow>
                let first = upper + 1 - length collected in
                Some \<lparr>first_line_id = first, range_lines = rev collected,
                      truncated_by_eviction = (first = hr_first_id r \<and> hr_first_id r > 1)\<rparr>))"

section \<open>Invariant\<close>

definition total_bytes :: "rstring list \<Rightarrow> nat" where
  "total_bytes ls = sum_list (map len ls)"

definition ring_inv :: "history_ring \<Rightarrow> bool" where
  "ring_inv r \<longleftrightarrow>
     hr_first_id r \<ge> 1 \<and> hr_next_id r = hr_first_id r + length (hr_lines r)
     \<and> hr_bytes r = total_bytes (hr_lines r)
     \<and> hr_max_lines r \<ge> 1 \<and> hr_max_bytes r \<ge> 1
     \<and> (hr_lines r = [] \<longrightarrow> hr_first_id r = 1)"

definition within_bounds :: "history_ring \<Rightarrow> bool" where
  "within_bounds r \<longleftrightarrow>
     length (hr_lines r) \<le> hr_max_lines r
     \<and> (hr_bytes r \<le> hr_max_bytes r \<or> length (hr_lines r) = 1)"

text \<open>The line with a given ID, if it is retained.\<close>

definition line_at :: "history_ring \<Rightarrow> nat \<Rightarrow> rstring option" where
  "line_at r i =
     (if hr_first_id r \<le> i \<and> i < hr_next_id r then Some (hr_lines r ! (i - hr_first_id r)) else None)"

lemma total_bytes_simps [simp]:
  "total_bytes [] = 0" "total_bytes (l # ls) = len l + total_bytes ls"
  "total_bytes (ls @ ms) = total_bytes ls + total_bytes ms"
  by (simp_all add: total_bytes_def)

text \<open>
  What the eviction loop does, in closed form: it drops a number of lines from the front, and
  that number is the least that restores the bounds (keeping at least one line).
\<close>

lemma evict_loop_spec:
  assumes "hr_lines r \<noteq> []" and "hr_bytes r = total_bytes (hr_lines r)"
  shows "\<exists>k < length (hr_lines r).
      evict_loop r = r\<lparr>hr_lines := drop k (hr_lines r),
                       hr_bytes := total_bytes (drop k (hr_lines r)),
                       hr_first_id := hr_first_id r + k\<rparr>
      \<and> (\<not> over_bounds (evict_loop r) \<or> length (hr_lines (evict_loop r)) = 1)
      \<and> (\<forall>j < k. length (drop j (hr_lines r)) > hr_max_lines r
                  \<or> total_bytes (drop j (hr_lines r)) > hr_max_bytes r)"
  using assms
proof (induction r rule: evict_loop.induct)
  case (1 r)
  show ?case
  proof (cases "over_bounds r \<and> length (hr_lines r) \<noteq> 1")
    case False
    then have "evict_loop r = r" using 1 by (subst evict_loop.simps) (auto split: list.splits)
    with False 1 show ?thesis by (intro exI [of _ 0]) auto
  next
    case True
    then obtain l rest where ls: "hr_lines r = l # rest" using 1 by (cases "hr_lines r") auto
    with True have ne: "rest \<noteq> []" by auto
    let ?r = "r\<lparr>hr_lines := rest, hr_bytes := hr_bytes r - len l, hr_first_id := hr_first_id r + 1\<rparr>"
    have eq: "evict_loop r = evict_loop ?r" using True ls by (subst evict_loop.simps) simp
    have "hr_bytes ?r = total_bytes (hr_lines ?r)" using 1 ls by simp
    then obtain k where k: "k < length rest"
      and e: "evict_loop ?r = ?r\<lparr>hr_lines := drop k rest, hr_bytes := total_bytes (drop k rest),
                       hr_first_id := hr_first_id r + 1 + k\<rparr>"
      and b: "\<not> over_bounds (evict_loop ?r) \<or> length (hr_lines (evict_loop ?r)) = 1"
      and m: "\<forall>j < k. length (drop j rest) > hr_max_lines r \<or> total_bytes (drop j rest) > hr_max_bytes r"
      using "1.IH" [of l rest] True ls ne by auto
    have "length (drop j (hr_lines r)) > hr_max_lines r
                  \<or> total_bytes (drop j (hr_lines r)) > hr_max_bytes r" if "j < Suc k" for j
      using that m True 1 ls by (cases j) (auto simp: over_bounds_def)
    then show ?thesis using k e b eq ls by (intro exI [of _ "Suc k"]) auto
  qed
qed

lemma history_push_spec:
  assumes "ring_inv r"
  shows "\<exists>k \<le> length (hr_lines r).
      history_push r l = r\<lparr>hr_lines := drop k (hr_lines r @ [l]),
           hr_bytes := total_bytes (drop k (hr_lines r @ [l])),
           hr_first_id := hr_first_id r + k, hr_next_id := hr_next_id r + 1\<rparr>
      \<and> (\<not> over_bounds (history_push r l) \<or> length (hr_lines (history_push r l)) = 1)
      \<and> (\<forall>j < k. length (drop j (hr_lines r @ [l])) > hr_max_lines r
                  \<or> total_bytes (drop j (hr_lines r @ [l])) > hr_max_bytes r)"
proof -
  let ?r = "r\<lparr>hr_bytes := hr_bytes r + len l, hr_lines := hr_lines r @ [l],
                   hr_next_id := hr_next_id r + 1\<rparr>"
  have "hr_lines ?r \<noteq> []" and "hr_bytes ?r = total_bytes (hr_lines ?r)"
    using assms by (simp_all add: ring_inv_def)
  from evict_loop_spec [OF this] obtain k where k: "k < length (hr_lines ?r)"
    and e: "evict_loop ?r = ?r\<lparr>hr_lines := drop k (hr_lines ?r),
                       hr_bytes := total_bytes (drop k (hr_lines ?r)),
                       hr_first_id := hr_first_id ?r + k\<rparr>"
    and b: "\<not> over_bounds (evict_loop ?r) \<or> length (hr_lines (evict_loop ?r)) = 1"
    and m: "\<forall>j < k. length (drop j (hr_lines ?r)) > hr_max_lines ?r
                  \<or> total_bytes (drop j (hr_lines ?r)) > hr_max_bytes ?r"
    by blast
  have "evict_loop ?r = r\<lparr>hr_lines := drop k (hr_lines r @ [l]),
           hr_bytes := total_bytes (drop k (hr_lines r @ [l])),
           hr_first_id := hr_first_id r + k, hr_next_id := hr_next_id r + 1\<rparr>"
    unfolding e by simp
  moreover have "k \<le> length (hr_lines r)" using k by simp
  moreover have "\<forall>j < k. length (drop j (hr_lines r @ [l])) > hr_max_lines r
                  \<or> total_bytes (drop j (hr_lines r @ [l])) > hr_max_bytes r"
    using m by simp
  ultimately show ?thesis using b unfolding history_push_def by blast
qed

lemma ring_inv_new: "ring_inv (history_new ml mb)"
  by (simp add: ring_inv_def history_new_def)

lemma ring_inv_push: "ring_inv r \<Longrightarrow> ring_inv (history_push r l)"
  using history_push_spec [of r l] by (auto simp: ring_inv_def)

lemma history_push_next_id [simp]: "ring_inv r \<Longrightarrow> hr_next_id (history_push r l) = hr_next_id r + 1"
  using history_push_spec [of r l] by auto

lemma history_push_limits [simp]:
  "ring_inv r \<Longrightarrow> hr_max_lines (history_push r l) = hr_max_lines r"
  "ring_inv r \<Longrightarrow> hr_max_bytes (history_push r l) = hr_max_bytes r"
  using history_push_spec [of r l] by auto

interpretation scrollback: evicting_log hr_lines history_push ring_inv
proof unfold_locales
  fix r l assume "ring_inv r"
  then show "\<exists>k \<le> length (hr_lines r). hr_lines (history_push r l) = drop k (hr_lines r @ [l])"
    using history_push_spec [of r l] by auto
qed (rule ring_inv_push)

section \<open>Range reads\<close>

text \<open>
  The collecting loop takes a prefix of the retained lines read backwards from \<open>upper\<close>:
  never more than \<open>maximum_lines\<close>, never more than \<open>maximum_bytes\<close> (both except for the one
  line that is always returned), and as long as both limits allow.
\<close>

definition page_ok :: "nat \<Rightarrow> nat \<Rightarrow> nat \<Rightarrow> nat \<Rightarrow> rstring list \<Rightarrow> nat \<Rightarrow> bool" where
  "page_ok ml mb c n older k \<longleftrightarrow>
     k \<le> length older \<and> (c = 0 \<longrightarrow> 1 \<le> k) \<and> (k = 0 \<or> c + k \<le> max 1 ml)
     \<and> (k = 0 \<or> n + total_bytes (take k older) \<le> mb \<or> (c = 0 \<and> k = 1))
     \<and> (k = length older \<or> ml \<le> c + k \<or> n + total_bytes (take (Suc k) older) > mb)"

lemma range_loop_spec:
  assumes "idx < length (hr_lines r)" and "i = hr_first_id r + idx"
    and "ml < 2 ^ 32" and "length c < max 1 ml"
  shows "\<exists>k. page_ok ml mb (length c) n (rev (take (Suc idx) (hr_lines r))) k
       \<and> range_loop r ml mb i n c = Some (c @ take k (rev (take (Suc idx) (hr_lines r))))"
  using assms
proof (induction idx arbitrary: i n c)
  case (0 i n c)
  let ?line = "hr_lines r ! 0"
  have t: "rev (take (Suc 0) (hr_lines r)) = [?line]" using 0 by (simp add: take_Suc_conv_app_nth)
  show ?case
  proof (cases "c \<noteq> [] \<and> (ml \<le> length c \<or> mb < n + len ?line)")
    case True
    with 0 have "range_loop r ml mb i n c = Some c"
      by (subst range_loop.simps) (auto simp: Let_def as_u32_id)
    with True show ?thesis unfolding t by (intro exI [of _ 0]) (auto simp: page_ok_def)
  next
    case False
    with 0 have "range_loop r ml mb i n c = Some (c @ [?line])"
      by (subst range_loop.simps) (auto simp: Let_def as_u32_id)
    with False 0 show ?thesis unfolding t by (intro exI [of _ 1]) (auto simp: page_ok_def)
  qed
next
  case (Suc idx i n c)
  let ?line = "hr_lines r ! Suc idx" and ?older = "rev (take (Suc idx) (hr_lines r))"
  have t: "rev (take (Suc (Suc idx)) (hr_lines r)) = ?line # ?older"
    using Suc.prems by (simp add: take_Suc_conv_app_nth)
  have u: "as_u32 (length c) = length c" "as_u32 (Suc (length c)) = Suc (length c)"
    using Suc.prems by (auto simp: as_u32_id)
  show ?case
  proof (cases "c \<noteq> [] \<and> (ml \<le> length c \<or> mb < n + len ?line)")
    case True
    with Suc.prems u have "range_loop r ml mb i n c = Some c"
      by (subst range_loop.simps) (auto simp: Let_def)
    with True show ?thesis unfolding t by (intro exI [of _ 0]) (auto simp: page_ok_def)
  next
    case keep: False
    show ?thesis
    proof (cases "ml \<le> Suc (length c)")
      case True
      with Suc.prems u keep have "range_loop r ml mb i n c = Some (c @ [?line])"
        by (subst range_loop.simps) (auto simp: Let_def)
      with keep True Suc.prems show ?thesis unfolding t
        by (intro exI [of _ 1]) (auto simp: page_ok_def)
    next
      case False
      have step: "range_loop r ml mb i n c = range_loop r ml mb (i - 1) (n + len ?line) (c @ [?line])"
        using Suc.prems u keep False by (subst range_loop.simps) (auto simp: Let_def)
      obtain k where k: "page_ok ml mb (length (c @ [?line])) (n + len ?line) ?older k"
        and l: "range_loop r ml mb (i - 1) (n + len ?line) (c @ [?line]) = Some ((c @ [?line]) @ take k ?older)"
        using Suc.IH [of "i - 1" "c @ [?line]" "n + len ?line"] Suc.prems False by auto
      have "page_ok ml mb (length c) n (?line # ?older) (Suc k)"
        using k keep False by (auto simp: page_ok_def add.assoc)
      then show ?thesis unfolding t using step l by (intro exI [of _ "Suc k"]) simp
    qed
  qed
qed

lemma history_range_nonempty:
  assumes inv: "ring_inv r" and ml: "ml < 2 ^ 32"
    and up: "range_upper r b = hr_first_id r + idx" and idx: "idx < length (hr_lines r)"
  obtains k where "page_ok ml mb 0 0 (rev (take (Suc idx) (hr_lines r))) k"
    and "history_range r b ml mb =
      Some \<lparr>first_line_id = hr_first_id r + Suc idx - k,
            range_lines = drop (Suc idx - k) (take (Suc idx) (hr_lines r)),
            truncated_by_eviction = (k = Suc idx \<and> hr_first_id r > 1)\<rparr>"
proof -
  let ?older = "rev (take (Suc idx) (hr_lines r))"
  obtain k where k: "page_ok ml mb 0 0 ?older k"
    and l: "range_loop r ml mb (range_upper r b) 0 [] = Some (take k ?older)"
    using range_loop_spec [of idx r "range_upper r b" ml "[]" mb 0] ml up idx
    by (auto simp: less_max_iff_disj)
  have kle: "k \<le> Suc idx" "length (take k ?older) = k" using k idx by (auto simp: page_ok_def)
  have rv: "rev (take k ?older) = drop (Suc idx - k) (take (Suc idx) (hr_lines r))"
    using idx by (subst rev_take) simp
  have "hr_lines r \<noteq> []" "range_upper r b \<noteq> 0" using inv up idx by (auto simp: ring_inv_def)
  then have "history_range r b ml mb =
      Some \<lparr>first_line_id = hr_first_id r + Suc idx - k,
            range_lines = drop (Suc idx - k) (take (Suc idx) (hr_lines r)),
            truncated_by_eviction = (k = Suc idx \<and> hr_first_id r > 1)\<rparr>"
    using l up kle rv by (auto simp: history_range_def Let_def)
  with k show ?thesis by (rule that)
qed

text \<open>A request below the retained lines, or on an empty ring, returns the empty page.\<close>

lemma history_range_empty:
  assumes "hr_lines r = [] \<or> range_upper r b < hr_first_id r"
  shows "\<exists>hr. history_range r b ml mb = Some hr \<and> range_lines hr = []"
  using assms by (auto simp: history_range_def Let_def)

lemma range_upper_cases:
  assumes "ring_inv r"
  obtains (below) "hr_lines r = [] \<or> range_upper r b < hr_first_id r"
  | (inside) idx where "idx < length (hr_lines r)" "range_upper r b = hr_first_id r + idx"
proof (cases "hr_lines r = [] \<or> range_upper r b < hr_first_id r")
  case True
  then show ?thesis by (rule below)
next
  case False
  moreover have "range_upper r b < hr_first_id r + length (hr_lines r)"
    using False assms by (auto simp: range_upper_def newest_id_def ring_inv_def min_def)
  ultimately show ?thesis
    by (intro inside [of "range_upper r b - hr_first_id r"]) auto
qed

lemma line_at_inside: "ring_inv r \<Longrightarrow> j < length (hr_lines r) \<Longrightarrow> line_at r (hr_first_id r + j) = Some (hr_lines r ! j)"
  by (auto simp: line_at_def ring_inv_def)

text \<open>
  A client that walks backwards asks first for the newest page and then, each time, for the
  lines before the first line it got; \<open>fuel\<close> bounds the number of requests.
\<close>

fun page_back :: "history_ring \<Rightarrow> nat \<Rightarrow> nat \<Rightarrow> nat \<Rightarrow> nat \<Rightarrow> rstring list" where
  "page_back r ml mb 0 b = []"
| "page_back r ml mb (Suc fuel) b =
     (case history_range r b ml mb of
        None \<Rightarrow> []
      | Some hr \<Rightarrow>
          if range_lines hr = [] then []
          else page_back r ml mb fuel (first_line_id hr) @ range_lines hr)"

lemma page_back_below:
  assumes "ring_inv r" and "hr_lines r = [] \<or> range_upper r b < hr_first_id r"
  shows "page_back r ml mb fuel b = []"
  using history_range_empty [OF assms(2), of ml mb] by (cases fuel) auto

lemma page_back_inside:
  assumes "ring_inv r" and "ml < 2 ^ 32" and "idx < length (hr_lines r)"
    and "range_upper r b = hr_first_id r + idx" and "idx < fuel"
  shows "page_back r ml mb fuel b = take (Suc idx) (hr_lines r)"
  using assms
proof (induction fuel arbitrary: idx b)
  case (Suc fuel)
  obtain k where k: "page_ok ml mb 0 0 (rev (take (Suc idx) (hr_lines r))) k"
    and hr: "history_range r b ml mb =
      Some \<lparr>first_line_id = hr_first_id r + Suc idx - k,
            range_lines = drop (Suc idx - k) (take (Suc idx) (hr_lines r)),
            truncated_by_eviction = (k = Suc idx \<and> hr_first_id r > 1)\<rparr>"
    using history_range_nonempty [OF Suc.prems(1,2,4,3)] by metis
  have k1: "1 \<le> k" "k \<le> Suc idx" using k Suc.prems by (auto simp: page_ok_def)
  let ?b = "hr_first_id r + Suc idx - k"
  have "page_back r ml mb fuel ?b = take (Suc idx - k) (hr_lines r)"
  proof (cases "k = Suc idx")
    case True
    then have "range_upper r ?b < hr_first_id r"
      using Suc.prems(1) by (auto simp: range_upper_def ring_inv_def newest_id_def)
    then show ?thesis using True page_back_below [OF Suc.prems(1)] by simp
  next
    case False
    have "range_upper r ?b = hr_first_id r + (idx - k)"
      using False k1 Suc.prems by (auto simp: range_upper_def ring_inv_def newest_id_def min_def)
    then show ?thesis using Suc.IH [of "idx - k" ?b] Suc.prems False k1
      by (simp add: Suc_diff_le)
  qed
  moreover have "take (Suc idx - k) (hr_lines r) @ drop (Suc idx - k) (take (Suc idx) (hr_lines r))
      = take (Suc idx) (hr_lines r)"
    by (metis append_take_drop_id diff_le_self min.absorb1 take_take)
  ultimately show ?case using hr k1 Suc.prems by auto
qed simp

section \<open>Runs of pushes\<close>

lemma push_all_inv: "ring_inv (foldl history_push (history_new ml mb) ls)"
  by (rule scrollback.append_all_valid) (rule ring_inv_new)

lemma push_all_limits:
  "ring_inv r \<Longrightarrow> hr_max_lines (foldl history_push r ls) = hr_max_lines r
     \<and> hr_max_bytes (foldl history_push r ls) = hr_max_bytes r"
  by (induction ls arbitrary: r) (auto simp: ring_inv_push)

lemma push_all_next_id: "ring_inv r \<Longrightarrow> hr_next_id (foldl history_push r ls) = hr_next_id r + length ls"
  by (induction ls arbitrary: r) (auto simp: ring_inv_push)

lemma push_within_bounds: "ring_inv r \<Longrightarrow> within_bounds (history_push r l)"
  using history_push_spec [of r l] ring_inv_push [of r l]
  by (auto simp: over_bounds_def within_bounds_def ring_inv_def)

lemma push_all_within_bounds: "within_bounds (foldl history_push (history_new ml mb) ls)"
  by (induction ls rule: rev_induct)
    (auto simp: push_within_bounds push_all_inv, simp add: within_bounds_def history_new_def)

lemma push_all_lines:
  "\<exists>k. hr_lines (foldl history_push (history_new ml mb) ls) = drop k ls
     \<and> (ls \<noteq> [] \<longrightarrow> k < length ls)"
proof -
  let ?r = "foldl history_push (history_new ml mb) ls"
  have "suffix (hr_lines ?r) ls"
    using scrollback.append_all_suffix [OF ring_inv_new, of ml mb ls] by (simp add: history_new_def)
  then obtain k where k: "hr_lines ?r = drop k ls" by (metis suffix_def append_eq_conv_conj)
  moreover have "ls \<noteq> [] \<Longrightarrow> hr_lines ?r \<noteq> []"
    using scrollback.append_all_last [OF ring_inv_new, of ls ml mb] by simp
  ultimately show ?thesis by (intro exI [of _ k]) auto
qed

section \<open>Properties\<close>

text \<open>
  Stable line IDs and bounds. After any sequence of pushes into a new ring, line ID \<open>i\<close>
  is, for as long as it is retained, the \<open>i\<close>-th line ever committed: eviction never reuses or
  renumbers an ID. The newest ID is the number of lines committed, the retained IDs are the
  interval from the oldest to the newest, and both configured bounds hold (a single line may
  exceed the byte bound).
\<close>

theorem history_ring_run:
  "let r = foldl history_push (history_new ml mb) ls in
     newest_id r = length ls
     \<and> oldest_id r \<le> newest_id r \<and> (oldest_id r = 0) = (ls = [])
     \<and> length (hr_lines r) \<le> max ml 1
     \<and> (total_bytes (hr_lines r) \<le> max mb 1 \<or> length (hr_lines r) = 1)
     \<and> (\<forall>i. line_at r i =
            (if ls \<noteq> [] \<and> oldest_id r \<le> i \<and> i \<le> newest_id r then Some (ls ! (i - 1)) else None))"
proof -
  let ?r = "foldl history_push (history_new ml mb) ls"
  obtain k where k: "hr_lines ?r = drop k ls" "ls \<noteq> [] \<longrightarrow> k < length ls"
    using push_all_lines [of ml mb ls] by auto
  have inv: "ring_inv ?r" by (rule push_all_inv)
  have nid: "hr_next_id ?r = Suc (length ls)"
    using push_all_next_id [OF ring_inv_new, of ml mb ls] by (simp add: history_new_def)
  have first: "hr_first_id ?r = Suc k" if "ls \<noteq> []"
    using inv k nid that unfolding ring_inv_def by auto
  have empty: "hr_lines ?r = []" if "ls = []" using k that by simp
  have lim: "hr_max_lines ?r = max ml 1" "hr_max_bytes ?r = max mb 1" "hr_bytes ?r = total_bytes (hr_lines ?r)"
    using push_all_limits [OF ring_inv_new, of ml mb ls] inv by (auto simp: history_new_def ring_inv_def)
  have "within_bounds ?r" by (rule push_all_within_bounds)
  then have "length (hr_lines ?r) \<le> max ml 1"
    and "total_bytes (hr_lines ?r) \<le> max mb 1 \<or> length (hr_lines ?r) = 1"
    unfolding within_bounds_def lim by auto
  moreover have "line_at ?r i =
            (if ls \<noteq> [] \<and> oldest_id ?r \<le> i \<and> i \<le> newest_id ?r then Some (ls ! (i - 1)) else None)" for i
  proof (cases "ls = []")
    case True
    then show ?thesis by (simp add: line_at_def history_new_def)
  next
    case False
    then show ?thesis using k nid first by (auto simp: line_at_def oldest_id_def newest_id_def)
  qed
  moreover have "newest_id ?r = length ls" using nid by (simp add: newest_id_def)
  moreover have "oldest_id ?r \<le> length ls \<and> (oldest_id ?r = 0) = (ls = [])"
    using k first empty by (cases "ls = []") (simp_all add: oldest_id_def)
  ultimately show ?thesis by (simp add: Let_def)
qed

text \<open>
  Eviction is minimal: a push appends the line under the next ID, and each line it evicts
  had to go, since keeping it would have left the ring over the line bound or the byte bound.
\<close>

theorem history_push_minimal:
  assumes "ring_inv r"
  shows "\<exists>k \<le> length (hr_lines r).
     hr_lines (history_push r l) = drop k (hr_lines r @ [l])
     \<and> hr_first_id (history_push r l) = hr_first_id r + k
     \<and> (\<forall>j < k. length (drop j (hr_lines r @ [l])) > hr_max_lines r
               \<or> total_bytes (drop j (hr_lines r @ [l])) > hr_max_bytes r)"
  using history_push_spec [OF assms, of l] by auto

theorem history_push_minimal_witness:
  "ring_inv (history_new 1 10) \<and>
   (\<exists>k \<le> length (hr_lines (history_push (history_new 1 10) [97])).
     hr_lines (history_push (history_push (history_new 1 10) [97]) [98])
       = drop k (hr_lines (history_push (history_new 1 10) [97]) @ [[98]]))"
  using history_push_minimal [OF ring_inv_push [OF ring_inv_new], of 1 10 "[97]" "[98]"] ring_inv_new
  by blast

text \<open>
  A range read never panics and is exact: when a line at or below the requested upper end
  is retained it returns a non-empty run of consecutive lines ending at that upper end, each
  under its own ID, within both limits (a single line may exceed the byte limit), extended as
  far as the limits and the retained history allow; the truncation flag is set exactly when
  the page reaches the oldest retained line and earlier lines were evicted. Otherwise it
  returns the empty page.
\<close>

theorem history_range_exact:
  assumes "ring_inv r" and "ml < 2 ^ 32"
  shows "\<exists>hr. history_range r b ml mb = Some hr \<and>
     (if hr_lines r = [] \<or> range_upper r b < hr_first_id r then range_lines hr = []
      else range_lines hr \<noteq> []
        \<and> first_line_id hr + length (range_lines hr) = range_upper r b + 1
        \<and> hr_first_id r \<le> first_line_id hr
        \<and> (\<forall>j < length (range_lines hr). line_at r (first_line_id hr + j) = Some (range_lines hr ! j))
        \<and> length (range_lines hr) \<le> max 1 ml
        \<and> (total_bytes (range_lines hr) \<le> mb \<or> length (range_lines hr) = 1)
        \<and> (first_line_id hr = hr_first_id r \<or> ml \<le> length (range_lines hr)
            \<or> total_bytes (range_lines hr) + len (the (line_at r (first_line_id hr - 1))) > mb)
        \<and> (truncated_by_eviction hr \<longleftrightarrow> first_line_id hr = hr_first_id r \<and> hr_first_id r > 1))"
proof (rule range_upper_cases [OF assms(1), of b])
  assume "hr_lines r = [] \<or> range_upper r b < hr_first_id r"
  with history_range_empty [OF this, of ml mb] show ?thesis by auto
next
  fix idx assume idx: "idx < length (hr_lines r)" and up: "range_upper r b = hr_first_id r + idx"
  let ?t = "take (Suc idx) (hr_lines r)"
  from history_range_nonempty [OF assms up idx, of mb] obtain k where k: "page_ok ml mb 0 0 (rev ?t) k"
    and hr: "history_range r b ml mb =
      Some \<lparr>first_line_id = hr_first_id r + Suc idx - k, range_lines = drop (Suc idx - k) ?t,
            truncated_by_eviction = (k = Suc idx \<and> hr_first_id r > 1)\<rparr>" by metis
  have k1: "1 \<le> k" "k \<le> Suc idx" using k idx by (auto simp: page_ok_def)
  have tk: "total_bytes (take j (rev ?t)) = total_bytes (drop (Suc idx - j) ?t)" if "j \<le> Suc idx" for j
  proof -
    have "take j (rev ?t) = rev (drop (Suc idx - j) ?t)" using idx that by (subst take_rev) simp
    then show ?thesis by (metis rev_map sum_list_rev total_bytes_def)
  qed
  have older: "total_bytes (drop (Suc idx - k) ?t) + len (hr_lines r ! (idx - k)) > mb"
    if "k < Suc idx" "\<not> ml \<le> k"
  proof -
    have "drop (Suc idx - Suc k) ?t = hr_lines r ! (idx - k) # drop (Suc idx - k) ?t"
      using that idx take_Suc_drop_nth [of "idx - k" "Suc idx" "hr_lines r"]
      by (simp add: Suc_diff_le)
    then show ?thesis using k that tk [of "Suc k"] idx by (auto simp: page_ok_def)
  qed
  have lines: "line_at r (hr_first_id r + Suc idx - k + j) = Some (drop (Suc idx - k) ?t ! j)"
    if "j < k" for j
  proof -
    have "hr_first_id r + Suc idx - k + j = hr_first_id r + (Suc idx - k + j)"
      and "Suc idx - k + j < length (hr_lines r)" using that k1 idx by auto
    then show ?thesis using that k1 idx line_at_inside [OF assms(1), of "Suc idx - k + j"] by simp
  qed
  have prev: "line_at r (hr_first_id r + Suc idx - k - 1) = Some (hr_lines r ! (idx - k))" if "k < Suc idx"
    using that k1 idx line_at_inside [OF assms(1), of "idx - k"] by (simp add: Suc_diff_le)
  have "length (drop (Suc idx - k) ?t) = k" using k1 idx by simp
  moreover have "k \<le> max 1 ml" "total_bytes (drop (Suc idx - k) ?t) \<le> mb \<or> k = 1"
    using k k1 tk [of k] by (auto simp: page_ok_def)
  ultimately show ?thesis using hr k1 up idx lines prev older assms(1)
    by (cases "k < Suc idx") (auto simp: ring_inv_def)
qed

theorem history_range_exact_witness:
  "\<exists>hr. history_range (foldl history_push (history_new 2 100) [[97], [98], [99]]) 0 1 100 = Some hr
     \<and> range_lines hr \<noteq> []"
proof -
  let ?r = "foldl history_push (history_new 2 100) [[97], [98], [99]]"
  have "hr_lines ?r = [[98], [99]]" "hr_first_id ?r = 2" "range_upper ?r 0 = 3" by code_simp+
  then show ?thesis using history_range_exact [OF push_all_inv, of 1 2 100 "[[97], [98], [99]]" 0 100]
    by (auto simp del: foldl.simps)
qed

text \<open>
  Progress of paging: whatever limits a client uses, asking for the newest page and then
  repeatedly for the lines before the first line received enumerates the whole retained
  history, in order and without gaps or repetitions, within one request per retained line.
\<close>

theorem history_paging_complete:
  assumes "ring_inv r" and "ml < 2 ^ 32"
  shows "page_back r ml mb (length (hr_lines r)) 0 = hr_lines r"
proof (cases "hr_lines r = []")
  case True
  then show ?thesis by simp
next
  case False
  then have "range_upper r 0 = hr_first_id r + (length (hr_lines r) - 1)"
    using assms(1) by (cases "hr_lines r") (auto simp: range_upper_def newest_id_def ring_inv_def)
  then show ?thesis using page_back_inside [OF assms, of "length (hr_lines r) - 1" 0] False by simp
qed

theorem history_paging_complete_witness:
  "page_back (foldl history_push (history_new 2 100) [[97], [98], [99]]) 1 0 2 0 = [[98], [99]]"
proof -
  let ?r = "foldl history_push (history_new 2 100) [[97], [98], [99]]"
  have "hr_lines ?r = [[98], [99]]" by code_simp
  moreover have "(1::nat) < 2 ^ 32" by simp
  ultimately show ?thesis
    using history_paging_complete [OF push_all_inv, of 1 2 100 "[[97], [98], [99]]" 0]
    by (simp del: foldl.simps page_back.simps add: numeral_2_eq_2)
qed

end
