(* ===== verification/Utf8.thy ===== *)
theory Utf8
  imports Prelude
begin

text \<open>
  UTF-8: what the sources use of \<open>core::str\<close> (\<open>from_utf8\<close> with its error positions,
  \<open>char::encode_utf8\<close>) and the incremental decoder of \<open>crates/terminal-model/src/utf8.rs\<close>,
  which drops invalid sequences and buffers an incomplete tail. The lemmas show that the
  decoder is insensitive to how the byte stream is cut into chunks, that it never panics, that
  it buffers at most three bytes, and that strict decoding inverts encoding.
\<close>

section \<open>The standard library's UTF-8\<close>

definition encode_utf8_raw :: "rchar \<Rightarrow> nat list" where
  "encode_utf8_raw c =
     (if c < 0x80 then [c]
      else if c < 0x800 then [0xC0 + c div 64, 0x80 + c mod 64]
      else if c < 0x10000 then [0xE0 + c div 4096, 0x80 + c div 64 mod 64, 0x80 + c mod 64]
      else [0xF0 + c div 262144, 0x80 + c div 4096 mod 64, 0x80 + c div 64 mod 64, 0x80 + c mod 64])"

definition encode_utf8 :: "rchar \<Rightarrow> bytes" where
  "encode_utf8 c = map of_nat (encode_utf8_raw c)"

definition as_bytes :: "rstring \<Rightarrow> bytes" where
  "as_bytes s = concat (map encode_utf8 s)"

definition is_cont :: "nat \<Rightarrow> bool" where
  "is_cont x \<longleftrightarrow> 0x80 \<le> x \<and> x \<le> 0xBF"

text \<open>
  One step of \<open>run_utf8_validation\<close> at a sequence start: a scalar value and its width, an
  invalid sequence and the length to skip (\<open>error_len() = Some n\<close>), or a sequence cut off by
  the end of input (\<open>error_len() = None\<close>).
\<close>

datatype utf8_step = Scalar rchar nat | Bad nat | Truncated

definition second3 :: "nat \<Rightarrow> nat \<Rightarrow> bool" where
  "second3 x y \<longleftrightarrow>
     (x = 0xE0 \<and> 0xA0 \<le> y \<and> y \<le> 0xBF) \<or> (0xE1 \<le> x \<and> x \<le> 0xEC \<and> is_cont y)
     \<or> (x = 0xED \<and> 0x80 \<le> y \<and> y \<le> 0x9F) \<or> (0xEE \<le> x \<and> x \<le> 0xEF \<and> is_cont y)"

definition second4 :: "nat \<Rightarrow> nat \<Rightarrow> bool" where
  "second4 x y \<longleftrightarrow>
     (x = 0xF0 \<and> 0x90 \<le> y \<and> y \<le> 0xBF) \<or> (0xF1 \<le> x \<and> x \<le> 0xF3 \<and> is_cont y)
     \<or> (x = 0xF4 \<and> 0x80 \<le> y \<and> y \<le> 0x8F)"

fun utf8_next_nat :: "nat list \<Rightarrow> utf8_step" where
  "utf8_next_nat [] = Truncated"
| "utf8_next_nat (x # r) =
     (if x < 0x80 then Scalar x 1
      else if 0xC2 \<le> x \<and> x \<le> 0xDF then
        (case r of [] \<Rightarrow> Truncated
         | y # _ \<Rightarrow> if is_cont y then Scalar ((x - 0xC0) * 64 + (y - 0x80)) 2 else Bad 1)
      else if 0xE0 \<le> x \<and> x \<le> 0xEF then
        (case r of [] \<Rightarrow> Truncated
         | y # r2 \<Rightarrow> if \<not> second3 x y then Bad 1
             else (case r2 of [] \<Rightarrow> Truncated
                   | z # _ \<Rightarrow> if \<not> is_cont z then Bad 2
                       else Scalar ((x - 0xE0) * 4096 + (y - 0x80) * 64 + (z - 0x80)) 3))
      else if 0xF0 \<le> x \<and> x \<le> 0xF4 then
        (case r of [] \<Rightarrow> Truncated
         | y # r2 \<Rightarrow> if \<not> second4 x y then Bad 1
             else (case r2 of [] \<Rightarrow> Truncated
                   | z # r3 \<Rightarrow> if \<not> is_cont z then Bad 2
                       else (case r3 of [] \<Rightarrow> Truncated
                             | w # _ \<Rightarrow> if \<not> is_cont w then Bad 3
                                 else Scalar ((x - 0xF0) * 262144 + (y - 0x80) * 4096
                                              + (z - 0x80) * 64 + (w - 0x80)) 4)))
      else Bad 1)"

definition utf8_next :: "bytes \<Rightarrow> utf8_step" where
  "utf8_next bs = utf8_next_nat (map unat bs)"

text \<open>The step reads at most its own sequence, so appending bytes changes only a cut-off one.\<close>

lemma utf8_next_nat_Scalar:
  "utf8_next_nat xs = Scalar c w \<Longrightarrow>
     1 \<le> w \<and> w \<le> 4 \<and> w \<le> length xs \<and> utf8_next_nat (take w xs @ ys) = Scalar c w"
  by (cases xs rule: utf8_next_nat.cases) (auto split: if_splits list.splits)

lemma utf8_next_nat_Bad:
  "utf8_next_nat xs = Bad n \<Longrightarrow>
     1 \<le> n \<and> n \<le> 3 \<and> n \<le> length xs \<and> utf8_next_nat (xs @ ys) = Bad n"
  by (cases xs rule: utf8_next_nat.cases) (auto split: if_splits list.splits)

lemma utf8_next_nat_Truncated: "utf8_next_nat xs = Truncated \<Longrightarrow> length xs \<le> 3"
  by (cases xs rule: utf8_next_nat.cases) (auto split: if_splits list.splits)

lemma utf8_next_Scalar:
  assumes "utf8_next bs = Scalar c w"
  shows "1 \<le> w" "w \<le> 4" "w \<le> length bs" "utf8_next (take w bs @ ys) = Scalar c w"
    "utf8_next (bs @ ys) = Scalar c w"
proof -
  have *: "1 \<le> w \<and> w \<le> 4 \<and> w \<le> length bs \<and> utf8_next (take w bs @ zs) = Scalar c w" for zs
    using assms utf8_next_nat_Scalar [of "map unat bs" c w "map unat zs"]
    by (simp add: utf8_next_def take_map)
  from * show "1 \<le> w" "w \<le> 4" "w \<le> length bs" "utf8_next (take w bs @ ys) = Scalar c w" by auto
  from * [of "drop w bs @ ys"] show "utf8_next (bs @ ys) = Scalar c w"
    by (metis append.assoc append_take_drop_id)
qed

lemma utf8_next_Bad:
  assumes "utf8_next bs = Bad n"
  shows "1 \<le> n" "n \<le> 3" "n \<le> length bs" "utf8_next (bs @ ys) = Bad n"
  using assms utf8_next_nat_Bad [of "map unat bs" n "map unat ys"]
  by (simp_all add: utf8_next_def)

lemma utf8_next_Truncated: "utf8_next bs = Truncated \<Longrightarrow> length bs \<le> 3"
  using utf8_next_nat_Truncated [of "map unat bs"] by (simp add: utf8_next_def)

text \<open>\<open>str::from_utf8\<close>: the string, or \<open>(valid_up_to, error_len)\<close>.\<close>

function from_utf8 :: "bytes \<Rightarrow> (nat \<times> nat option) + rstring" where
  "from_utf8 bs =
     (if bs = [] then Ok []
      else (case utf8_next bs of
              Scalar c w \<Rightarrow>
                (case from_utf8 (drop w bs) of
                   Inl (v, e) \<Rightarrow> Err (w + v, e)
                 | Inr s \<Rightarrow> Ok (c # s))
            | Bad n \<Rightarrow> Err (0, Some n)
            | Truncated \<Rightarrow> Err (0, None)))"
  by pat_completeness auto
termination
  by (relation "measure length") (auto dest: utf8_next_Scalar(1))

declare from_utf8.simps [simp del]

lemma from_utf8_simps:
  "from_utf8 [] = Ok []"
  "bs \<noteq> [] \<Longrightarrow> utf8_next bs = Scalar c w \<Longrightarrow>
     from_utf8 bs = (case from_utf8 (drop w bs) of Inl (v, e) \<Rightarrow> Err (w + v, e) | Inr s \<Rightarrow> Ok (c # s))"
  "bs \<noteq> [] \<Longrightarrow> utf8_next bs = Bad n \<Longrightarrow> from_utf8 bs = Err (0, Some n)"
  "bs \<noteq> [] \<Longrightarrow> utf8_next bs = Truncated \<Longrightarrow> from_utf8 bs = Err (0, None)"
  by (subst from_utf8.simps, simp)+

section \<open>The incremental decoder\<close>

text \<open>
  The loop of \<open>IncrementalUtf8::push\<close>; the result is the text and the new \<open>pending\<close> buffer,
  \<open>None\<close> the panic of the inner \<open>unwrap\<close>.
\<close>

lemma from_utf8_Bad: "from_utf8 bs = Err (v, Some n) \<Longrightarrow> 1 \<le> n \<and> v + n \<le> length bs"
proof (induction bs arbitrary: v rule: from_utf8.induct)
  case (1 bs)
  have ne: "bs \<noteq> []" using "1.prems" by (auto simp: from_utf8_simps)
  show ?case
  proof (cases "utf8_next bs")
    case (Scalar c w)
    then obtain v' where "from_utf8 (drop w bs) = Err (v', Some n)" "v = w + v'"
      using "1.prems" ne by (auto simp: from_utf8_simps(2) split: sum.splits)
    then show ?thesis using "1.IH" [OF ne Scalar, of v'] utf8_next_Scalar(3) [OF Scalar] by auto
  next
    case (Bad m)
    then show ?thesis using "1.prems" ne utf8_next_Bad(1,3) [OF Bad] by (simp add: from_utf8_simps(3))
  next
    case Truncated
    then show ?thesis using "1.prems" ne by (simp add: from_utf8_simps(4))
  qed
qed

function push_loop :: "bytes \<Rightarrow> rstring \<Rightarrow> (rstring \<times> bytes) option" where
  "push_loop rest out =
     (case from_utf8 rest of
        Inr s \<Rightarrow> Some (out @ s, [])
      | Inl (valid, error_len) \<Rightarrow>
          (case from_utf8 (take valid rest) of
             Inl _ \<Rightarrow> None
           | Inr s \<Rightarrow>
               (case error_len of
                  Some n \<Rightarrow> push_loop (drop (valid + n) rest) (out @ s)
                | None \<Rightarrow> Some (out @ s, drop valid rest))))"
  by pat_completeness auto
termination
  by (relation "measure (\<lambda>(rest, out). length rest)") (auto dest: from_utf8_Bad)

declare push_loop.simps [simp del]

record incremental_utf8 =
  pending :: bytes

definition utf8_new :: incremental_utf8 where
  "utf8_new = \<lparr>pending = []\<rparr>"

definition utf8_push :: "incremental_utf8 \<Rightarrow> bytes \<Rightarrow> (incremental_utf8 \<times> rstring) option" where
  "utf8_push d input =
     map_option (\<lambda>(out, p). (d\<lparr>pending := p\<rparr>, out)) (push_loop (pending d @ input) [])"

section \<open>A one-pass reference decoder\<close>

function utf8_scan :: "bytes \<Rightarrow> rstring \<times> bytes" where
  "utf8_scan bs =
     (if bs = [] then ([], [])
      else (case utf8_next bs of
              Scalar c w \<Rightarrow> apfst (Cons c) (utf8_scan (drop w bs))
            | Bad n \<Rightarrow> utf8_scan (drop n bs)
            | Truncated \<Rightarrow> ([], bs)))"
  by pat_completeness auto
termination
  by (relation "measure length") (auto dest: utf8_next_Scalar(1) utf8_next_Bad(1))

declare utf8_scan.simps [simp del]

lemma utf8_scan_simps:
  "utf8_scan [] = ([], [])"
  "bs \<noteq> [] \<Longrightarrow> utf8_next bs = Scalar c w \<Longrightarrow> utf8_scan bs = apfst (Cons c) (utf8_scan (drop w bs))"
  "bs \<noteq> [] \<Longrightarrow> utf8_next bs = Bad n \<Longrightarrow> utf8_scan bs = utf8_scan (drop n bs)"
  "bs \<noteq> [] \<Longrightarrow> utf8_next bs = Truncated \<Longrightarrow> utf8_scan bs = ([], bs)"
  by (subst utf8_scan.simps, simp)+

text \<open>How the strict decoder's error positions relate to the reference decoder.\<close>

lemma from_utf8_scan:
  "case from_utf8 bs of
     Inr s \<Rightarrow> utf8_scan bs = (s, [])
   | Inl (v, e) \<Rightarrow> \<exists>s. from_utf8 (take v bs) = Ok s \<and>
       (case e of
          Some n \<Rightarrow> utf8_scan bs = apfst ((@) s) (utf8_scan (drop (v + n) bs))
        | None \<Rightarrow> utf8_scan bs = (s, drop v bs))"
proof (induction bs rule: from_utf8.induct)
  case (1 bs)
  show ?case
  proof (cases "bs = []")
    case True
    then show ?thesis by (simp add: from_utf8_simps utf8_scan_simps)
  next
    case ne: False
    show ?thesis
    proof (cases "utf8_next bs")
      case (Scalar c w)
      note IH = "1.IH" [OF ne Scalar]
      note w = utf8_next_Scalar [OF Scalar]
      have take: "from_utf8 (take (w + v) bs) = Ok (c # s)"
        if "from_utf8 (take v (drop w bs)) = Ok s" for v s
      proof -
        have eq: "take (w + v) bs = take w bs @ take v (drop w bs)" by (simp add: take_add)
        have "take (w + v) bs \<noteq> []" using w(1) ne by auto
        moreover have "utf8_next (take (w + v) bs) = Scalar c w" unfolding eq by (rule w(4))
        moreover have "drop w (take (w + v) bs) = take v (drop w bs)" using w(3) unfolding eq by simp
        ultimately show ?thesis using that by (simp add: from_utf8_simps(2))
      qed
      have scan: "utf8_scan bs = apfst (Cons c) (utf8_scan (drop w bs))"
        using ne Scalar by (rule utf8_scan_simps(2))
      show ?thesis
      proof (cases "from_utf8 (drop w bs)")
        case (Inr s)
        then show ?thesis using IH ne Scalar scan by (simp add: from_utf8_simps(2))
      next
        case (Inl a)
        obtain v e where a: "a = (v, e)" by (cases a)
        have f: "from_utf8 bs = Err (w + v, e)" using Inl a ne Scalar by (simp add: from_utf8_simps(2))
        obtain s where s: "from_utf8 (take v (drop w bs)) = Ok s"
          and e: "case e of
              Some n \<Rightarrow> utf8_scan (drop w bs) = apfst ((@) s) (utf8_scan (drop (v + n) (drop w bs)))
            | None \<Rightarrow> utf8_scan (drop w bs) = (s, drop v (drop w bs))"
          using IH Inl a by auto
        have "case e of
              Some n \<Rightarrow> utf8_scan bs = apfst ((@) (c # s)) (utf8_scan (drop (w + v + n) bs))
            | None \<Rightarrow> utf8_scan bs = (c # s, drop (w + v) bs)"
          using e scan
          by (cases e) (simp_all add: apfst_def map_prod_def ac_simps split: prod.splits)
        then show ?thesis unfolding f using take [OF s] by auto
      qed
    qed (use ne in \<open>simp_all add: from_utf8_simps utf8_scan_simps\<close>)
  qed
qed

lemma push_loop_scan: "push_loop rest out = Some (apfst ((@) out) (utf8_scan rest))"
proof (induction rest out rule: push_loop.induct)
  case (1 rest out)
  show ?case
  proof (cases "from_utf8 rest")
    case (Inr s)
    then show ?thesis using from_utf8_scan [of rest] by (subst push_loop.simps) simp
  next
    case (Inl a)
    obtain v e where a: "a = (v, e)" by (cases a)
    obtain s where s: "from_utf8 (take v rest) = Ok s"
      and e: "case e of
          Some n \<Rightarrow> utf8_scan rest = apfst ((@) s) (utf8_scan (drop (v + n) rest))
        | None \<Rightarrow> utf8_scan rest = (s, drop v rest)"
      using from_utf8_scan [of rest] Inl a by auto
    show ?thesis
    proof (cases e)
      case None
      then show ?thesis using Inl a s e by (subst push_loop.simps) simp
    next
      case (Some n)
      then show ?thesis using "1.IH" [of a v e s n] Inl a s e
        by (subst push_loop.simps) (simp add: apfst_def map_prod_def split: prod.splits)
    qed
  qed
qed

lemma utf8_push_scan:
  "utf8_push d input = Some (d\<lparr>pending := snd (utf8_scan (pending d @ input))\<rparr>,
                             fst (utf8_scan (pending d @ input)))"
  by (cases "utf8_scan (pending d @ input)") (simp add: utf8_push_def push_loop_scan)

text \<open>The reference decoder resumes exactly where a cut left it.\<close>

lemma utf8_scan_append:
  "utf8_scan (a @ b) = apfst ((@) (fst (utf8_scan a))) (utf8_scan (snd (utf8_scan a) @ b))"
proof (induction a rule: utf8_scan.induct)
  case (1 a)
  show ?case
  proof (cases "a = []")
    case True
    then show ?thesis by (simp add: utf8_scan_simps apfst_def map_prod_def split: prod.splits)
  next
    case ne: False
    show ?thesis
    proof (cases "utf8_next a")
      case (Scalar c w)
      note w = utf8_next_Scalar [OF Scalar]
      have "utf8_scan (a @ b) = apfst (Cons c) (utf8_scan (drop w a @ b))"
        using ne w(3) utf8_scan_simps(2) [OF _ w(5) [of b]] by simp
      then show ?thesis using "1.IH"(1) [OF ne Scalar] ne Scalar
        by (simp add: utf8_scan_simps(2) apfst_def map_prod_def split: prod.splits)
    next
      case (Bad n)
      note n = utf8_next_Bad [OF Bad]
      have "utf8_scan (a @ b) = utf8_scan (drop n a @ b)"
        using ne n(3) utf8_scan_simps(3) [OF _ n(4) [of b]] by simp
      then show ?thesis using "1.IH"(2) [OF ne Bad] ne Bad by (simp add: utf8_scan_simps(3))
    next
      case Truncated
      then show ?thesis using ne
        by (simp add: utf8_scan_simps(4) apfst_def map_prod_def split: prod.splits)
    qed
  qed
qed

lemma utf8_scan_stable: "utf8_scan (snd (utf8_scan bs)) = ([], snd (utf8_scan bs))"
  using utf8_scan_append [of bs "[]"] by (cases "utf8_scan (snd (utf8_scan bs))") (auto simp: prod_eq_iff)

lemma utf8_scan_pending: "length (snd (utf8_scan bs)) \<le> 3"
proof (induction bs rule: utf8_scan.induct)
  case (1 bs)
  then show ?case
    by (subst utf8_scan.simps) (auto split: utf8_step.splits dest: utf8_next_Truncated)
qed

section \<open>Encoding and strict decoding\<close>

lemma length_encode_utf8 [simp]: "length (encode_utf8 c) = len_utf8 c"
  by (simp add: encode_utf8_def encode_utf8_raw_def len_utf8_def)

lemma length_as_bytes: "length (as_bytes s) = len s"
  by (induction s) (simp_all add: as_bytes_def)

lemma unat_of_nat_u8: "n < 256 \<Longrightarrow> unat (of_nat n :: u8) = n"
  by (simp add: unat_of_nat)

lemma encode_utf8_raw_less: "is_scalar c \<Longrightarrow> x \<in> set (encode_utf8_raw c) \<Longrightarrow> x < 256"
  by (auto simp: encode_utf8_raw_def is_scalar_def split: if_splits)

lemma base64_digit: "d < 64 \<Longrightarrow> (q * 64 + d) div 64 = q" "d < 64 \<Longrightarrow> (q * 64 + d) mod 64 = (d::nat)"
  by simp_all

lemma digits3:
  obtains a b d where "c = a * 4096 + b * 64 + d" "a = c div 4096" "b = c div 64 mod 64" "d = c mod 64"
    "b < 64" "d < (64::nat)"
proof -
  have "c = c div 64 * 64 + c mod 64" "c div 64 = c div 64 div 64 * 64 + c div 64 mod 64" 
    by (simp_all add: div_mult_mod_eq)
  moreover have "c div 64 div 64 = c div 4096" by (simp add: div_mult2_eq [symmetric])
  ultimately have "c = c div 4096 * 4096 + c div 64 mod 64 * 64 + c mod 64" by linarith
  then show ?thesis by (intro that) auto
qed

lemma digits4:
  obtains a b d e where "c = a * 262144 + b * 4096 + d * 64 + e" "a = c div 262144" "b = c div 4096 mod 64"
    "d = c div 64 mod 64" "e = c mod 64" "b < 64" "d < 64" "e < (64::nat)"
proof -
  have "c = c div 64 * 64 + c mod 64" "c div 64 = c div 64 div 64 * 64 + c div 64 mod 64" 
    "c div 64 div 64 = c div 64 div 64 div 64 * 64 + c div 64 div 64 mod 64"
    by (simp_all add: div_mult_mod_eq)
  moreover have "c div 64 div 64 = c div 4096" "c div 64 div 64 div 64 = c div 262144"
    "c div 64 div 64 mod 64 = c div 4096 mod 64"
    by (simp_all add: div_mult2_eq [symmetric])
  ultimately have "c = c div 262144 * 262144 + c div 4096 mod 64 * 4096 + c div 64 mod 64 * 64 + c mod 64"
    by linarith
  then show ?thesis by (intro that) auto
qed

lemma utf8_next_nat_encode:
  assumes sc: "is_scalar c"
  shows "utf8_next_nat (encode_utf8_raw c @ xs) = Scalar c (len_utf8 c)"
proof -
  consider "c < 0x80" | "0x80 \<le> c" "c < 0x800" | "0x800 \<le> c" "c < 0x10000" | "0x10000 \<le> c" by linarith
  then show ?thesis
  proof cases
    case 1
    then show ?thesis by (simp add: encode_utf8_raw_def len_utf8_def)
  next
    case 2
    then have "2 \<le> c div 64" "c div 64 < 32" "c mod 64 < 64" "c div 64 * 64 + c mod 64 = c" by auto
    with 2 show ?thesis
      by (auto simp add: encode_utf8_raw_def len_utf8_def is_cont_def simp del: less_mult_imp_div_less mod_less_divisor)
  next
    case 3
    obtain a b d where c: "c = a * 4096 + b * 64 + d" and eq: "a = c div 4096" "b = c div 64 mod 64" "d = c mod 64"
      and lt: "b < 64" "d < 64" by (rule digits3)
    have "a < 16" "a = 0 \<longrightarrow> 32 \<le> b" "a = 13 \<longrightarrow> b < 32" using 3 c lt sc by (auto simp: is_scalar_def)
    then have "second3 (0xE0 + a) (0x80 + b)" using lt unfolding second3_def is_cont_def by linarith
    moreover have "encode_utf8_raw c = [0xE0 + a, 0x80 + b, 0x80 + d]" "len_utf8 c = 3"
      using 3 unfolding eq by (simp_all add: encode_utf8_raw_def len_utf8_def)
    ultimately show ?thesis using \<open>a < 16\<close> lt c by (simp add: is_cont_def)
  next
    case 4
    obtain a b d e where c: "c = a * 262144 + b * 4096 + d * 64 + e" and eq: "a = c div 262144"
      "b = c div 4096 mod 64" "d = c div 64 mod 64" "e = c mod 64"
      and lt: "b < 64" "d < 64" "e < 64" by (rule digits4)
    have "a < 5" "a = 0 \<longrightarrow> 16 \<le> b" "a = 4 \<longrightarrow> b < 16" using 4 c lt sc by (auto simp: is_scalar_def)
    then have "second4 (0xF0 + a) (0x80 + b)" using lt unfolding second4_def is_cont_def by linarith
    moreover have "encode_utf8_raw c = [0xF0 + a, 0x80 + b, 0x80 + d, 0x80 + e]" "len_utf8 c = 4"
      using 4 unfolding eq by (simp_all add: encode_utf8_raw_def len_utf8_def)
    ultimately show ?thesis using \<open>a < 5\<close> lt c by (simp add: is_cont_def)
  qed
qed

lemma utf8_next_encode:
  assumes "is_scalar c"
  shows "utf8_next (encode_utf8 c @ bs) = Scalar c (len_utf8 c)"
proof -
  have "map (unat \<circ> (of_nat :: nat \<Rightarrow> u8)) (encode_utf8_raw c) = encode_utf8_raw c"
    using encode_utf8_raw_less [OF assms] by (intro map_idI) (simp add: unat_of_nat_u8)
  then show ?thesis using utf8_next_nat_encode [OF assms] by (simp add: utf8_next_def encode_utf8_def)
qed

lemma utf8_next_nat_decode:
  assumes "utf8_next_nat xs = Scalar c w"
  shows "is_scalar c \<and> encode_utf8_raw c = take w xs"
proof -
  from assms obtain x r where xs: "xs = x # r" by (cases xs) auto
  consider "x < 0x80" | "0x80 \<le> x" "x \<le> 0xDF" | "0xE0 \<le> x" "x \<le> 0xEF" | "0xF0 \<le> x" by linarith
  then show ?thesis
  proof cases
    case 1
    then show ?thesis using assms xs by (auto simp: encode_utf8_raw_def is_scalar_def)
  next
    case 2
    then obtain y r2 where y: "r = y # r2" "is_cont y" "0xC2 \<le> x" "c = (x - 0xC0) * 64 + (y - 0x80)" "w = 2"
      using assms xs by (auto split: if_splits list.splits)
    obtain a b where a: "x = 0xC0 + a" and b: "y = 0x80 + b" "b < 64"
      using 2 y that [of "x - 0xC0" "y - 0x80"] by (auto simp: is_cont_def)
    show ?thesis using 2 y a b xs by (auto simp: encode_utf8_raw_def is_scalar_def)
  next
    case 3
    then obtain y z r3 where y: "r = y # z # r3" "is_cont z" "second3 x y"
      "c = (x - 0xE0) * 4096 + (y - 0x80) * 64 + (z - 0x80)" "w = 3"
      using assms xs by (auto split: if_splits list.splits)
    obtain a b d where a: "x = 0xE0 + a" and b: "y = 0x80 + b" "b < 64" and d: "z = 0x80 + d" "d < 64"
      using 3 y that [of "x - 0xE0" "y - 0x80" "z - 0x80"] by (auto simp: is_cont_def second3_def)
    have c: "c = a * 4096 + b * 64 + d" using y a b d by simp
    have s: "a < 16" "a = 0 \<longrightarrow> 32 \<le> b" "a = 13 \<longrightarrow> b < 32"
      using y(3) 3 a b by (auto simp: second3_def is_cont_def)
    have "c = (a * 64 + b) * 64 + d" unfolding c by simp
    then have dm: "c div 64 = a * 64 + b" "c mod 64 = d" using base64_digit [OF d(2)] by metis+
    have "c div 4096 = c div 64 div 64" by (simp add: div_mult2_eq [symmetric])
    then have "c div 4096 = a" "c div 64 mod 64 = b" using base64_digit [OF b(2)] dm by metis+
    note this dm(2)
    moreover have "0x800 \<le> c" "c < 0x10000"
      using s b(2) d(2) unfolding c by linarith+
    moreover have "is_scalar c" using s b(2) d(2) unfolding c is_scalar_def
      by (cases "a < 13"; cases "a = 13"; linarith)
    ultimately show ?thesis using y a b d xs by (simp add: encode_utf8_raw_def)
  next
    case 4
    then obtain y z v r4 where y: "r = y # z # v # r4" "is_cont z" "is_cont v" "second4 x y" "x \<le> 0xF4"
      "c = (x - 0xF0) * 262144 + (y - 0x80) * 4096 + (z - 0x80) * 64 + (v - 0x80)" "w = 4"
      using assms xs by (auto split: if_splits list.splits)
    obtain a b d e where a: "x = 0xF0 + a" and b: "y = 0x80 + b" "b < 64" and d: "z = 0x80 + d" "d < 64"
        and e: "v = 0x80 + e" "e < 64"
      using 4 y that [of "x - 0xF0" "y - 0x80" "z - 0x80" "v - 0x80"] by (auto simp: is_cont_def second4_def)
    have c: "c = a * 262144 + b * 4096 + d * 64 + e" using y a b d e by simp
    have s: "a < 5" "a = 0 \<longrightarrow> 16 \<le> b" "a = 4 \<longrightarrow> b < 16"
      using y(4,5) 4 a b by (auto simp: second4_def is_cont_def)
    have "c = ((a * 64 + b) * 64 + d) * 64 + e" unfolding c by simp
    then have dm: "c div 64 = (a * 64 + b) * 64 + d" "c mod 64 = e"
      using base64_digit [OF e(2)] by metis+
    have "c div 4096 = c div 64 div 64" "c div 262144 = c div 64 div 64 div 64"
      by (simp_all add: div_mult2_eq [symmetric])
    then have "c div 262144 = a" "c div 4096 mod 64 = b" "c div 64 mod 64 = d"
      using base64_digit [OF b(2)] base64_digit [OF d(2)] dm by metis+
    note this dm(2)
    moreover have "0x10000 \<le> c" "is_scalar c"
      using s b(2) d(2) e(2) unfolding c is_scalar_def by linarith+
    ultimately show ?thesis using y a b d e xs by (simp add: encode_utf8_raw_def)
  qed
qed

lemma utf8_next_decode:
  assumes "utf8_next bs = Scalar c w"
  shows "is_scalar c" "encode_utf8 c = take w bs"
proof -
  have "is_scalar c \<and> encode_utf8_raw c = map unat (take w bs)"
    using utf8_next_nat_decode [of "map unat bs" c w] assms by (simp add: utf8_next_def take_map)
  then show "is_scalar c" "encode_utf8 c = take w bs" by (simp_all add: encode_utf8_def comp_def)
qed

lemma from_utf8_encode: "list_all is_scalar s \<Longrightarrow> from_utf8 (as_bytes s) = Ok s"
proof (induction s)
  case (Cons c s)
  have "as_bytes (c # s) = encode_utf8 c @ as_bytes s" by (simp add: as_bytes_def)
  moreover have "encode_utf8 c \<noteq> []" using len_utf8_bounds(1) [of c] by (metis length_encode_utf8 list.size(3) not_one_le_zero)
  ultimately show ?case
    using Cons utf8_next_encode [of c "as_bytes s"] by (simp add: from_utf8_simps(2))
qed (simp add: as_bytes_def from_utf8_simps)

lemma from_utf8_decode: "from_utf8 bs = Ok s \<Longrightarrow> list_all is_scalar s \<and> as_bytes s = bs"
proof (induction bs arbitrary: s rule: from_utf8.induct)
  case (1 bs)
  show ?case
  proof (cases "bs = []")
    case True
    with "1.prems" show ?thesis by (simp add: from_utf8_simps as_bytes_def)
  next
    case ne: False
    show ?thesis
    proof (cases "utf8_next bs")
      case (Scalar c w)
      then obtain s' where "from_utf8 (drop w bs) = Ok s'" "s = c # s'"
        using "1.prems" ne by (auto simp: from_utf8_simps(2) split: sum.splits)
      then show ?thesis using "1.IH" [OF ne Scalar, of s'] utf8_next_decode [OF Scalar]
        by (simp add: as_bytes_def)
    qed (use "1.prems" ne in \<open>simp_all add: from_utf8_simps\<close>)
  qed
qed

lemma utf8_scan_scalar: "list_all is_scalar (fst (utf8_scan bs))"
proof (induction bs rule: utf8_scan.induct)
  case (1 bs)
  then show ?case
    by (subst utf8_scan.simps) (auto split: utf8_step.splits dest: utf8_next_decode(1))
qed

text \<open>A reader that feeds the decoder one chunk after the other.\<close>

fun utf8_push_all :: "incremental_utf8 \<Rightarrow> bytes list \<Rightarrow> (incremental_utf8 \<times> rstring) option" where
  "utf8_push_all d [] = Some (d, [])"
| "utf8_push_all d (c # cs) =
     (case utf8_push d c of
        None \<Rightarrow> None
      | Some (d', out) \<Rightarrow> map_option (apsnd ((@) out)) (utf8_push_all d' cs))"

lemma utf8_push_all_scan:
  "utf8_scan (pending d) = ([], pending d) \<Longrightarrow>
   utf8_push_all d cs =
     Some (d\<lparr>pending := snd (utf8_scan (pending d @ concat cs))\<rparr>, fst (utf8_scan (pending d @ concat cs)))"
proof (induction cs arbitrary: d)
  case (Cons c cs)
  let ?s = "utf8_scan (pending d @ c)"
  have "utf8_scan (snd ?s) = ([], snd ?s)" by (rule utf8_scan_stable)
  with Cons.IH [of "d\<lparr>pending := snd ?s\<rparr>"] show ?case
    using utf8_scan_append [of "pending d @ c" "concat cs"] by (simp add: utf8_push_scan)
qed simp

section \<open>Properties\<close>

text \<open>
  Chunking does not matter. Whatever way the PTY output is cut into reads, the decoder
  produces the same text and the same buffered tail as for the whole output at once; it never
  panics, keeps at most three bytes pending, and only ever emits Unicode scalar values.
\<close>

theorem utf8_chunking:
  "utf8_push_all utf8_new chunks = utf8_push utf8_new (concat chunks)
   \<and> (\<exists>d out. utf8_push_all utf8_new chunks = Some (d, out)
        \<and> length (pending d) \<le> 3 \<and> list_all is_scalar out)"
  using utf8_push_all_scan [of utf8_new chunks]
  by (simp add: utf8_new_def utf8_scan_simps utf8_push_scan utf8_scan_pending utf8_scan_scalar)

text \<open>
  Strict decoding inverts encoding, in both directions: a byte string decodes to \<open>s\<close>
  exactly when \<open>s\<close> consists of scalar values and the bytes are its encoding. So overlong forms,
  surrogates and values beyond U+10FFFF are refused, and no two byte strings decode alike.
\<close>

theorem from_utf8_iff: "from_utf8 bs = Ok s \<longleftrightarrow> list_all is_scalar s \<and> bs = as_bytes s"
  using from_utf8_encode from_utf8_decode by blast

end
