(* ===== verification/Rust_Text.thy ===== *)
theory Rust_Text
  imports Prelude
begin

text \<open>
  Text operations of the Rust standard library that the sources use: decimal printing and
  parsing of unsigned integers, lowercase hexadecimal bytes (\<open>{:02x}\<close>), \<open>from_str_radix\<close> in
  base 16, \<open>str::split\<close> on a character, and \<open>str::trim_end\<close>; with their round trips.
\<close>

section \<open>Decimal numbers\<close>

fun show_nat :: "nat \<Rightarrow> rstring" where
  "show_nat n = (if n < 10 then [48 + n] else show_nat (n div 10) @ [48 + n mod 10])"

declare show_nat.simps [simp del]

fun digits_value :: "nat \<Rightarrow> rstring \<Rightarrow> nat option" where
  "digits_value acc [] = Some acc"
| "digits_value acc (c # s) = (if is_ascii_digit c then digits_value (acc * 10 + (c - 48)) s else None)"

text \<open>
  \<open>str::parse\<close> for an unsigned type with the given maximum: an optional \<open>+\<close>, then at least one
  digit, no overflow.
\<close>

definition strip_plus :: "rstring \<Rightarrow> rstring" where
  "strip_plus s = (case s of [] \<Rightarrow> [] | c # r \<Rightarrow> if c = 43 \<and> r \<noteq> [] then r else s)"

definition parse_unsigned :: "nat \<Rightarrow> rstring \<Rightarrow> nat option" where
  "parse_unsigned maximum s =
     (if s = [] then None
      else (case digits_value 0 (strip_plus s) of
              None \<Rightarrow> None
            | Some n \<Rightarrow> if n \<le> maximum then Some n else None))"

lemma show_nat_digits: "c \<in> set (show_nat n) \<Longrightarrow> is_ascii_digit c"
proof (induction n rule: show_nat.induct)
  case (1 n)
  then show ?case by (subst (asm) (2) show_nat.simps) (auto simp: is_ascii_digit_def split: if_splits)
qed

lemma show_nat_not_Nil [simp]: "show_nat n \<noteq> []"
  by (subst show_nat.simps) simp

lemma length_show_nat: "n < 10 ^ Suc k \<Longrightarrow> length (show_nat n) \<le> Suc k"
proof (induction k arbitrary: n)
  case 0
  then show ?case by (subst show_nat.simps) simp
next
  case (Suc k)
  then have "n div 10 < 10 ^ Suc k" by auto
  from Suc.IH [OF this] show ?case by (subst show_nat.simps) simp
qed

lemma digits_value_append:
  "digits_value acc (s @ t) = (case digits_value acc s of None \<Rightarrow> None | Some n \<Rightarrow> digits_value n t)"
  by (induction s arbitrary: acc) auto

lemma digits_value_show: "digits_value 0 (show_nat n) = Some n"
proof (induction n rule: show_nat.induct)
  case (1 n)
  show ?case
  proof (cases "n < 10")
    case True
    then show ?thesis by (subst show_nat.simps) (simp add: is_ascii_digit_def)
  next
    case False
    then show ?thesis using 1 by (subst show_nat.simps) (simp add: digits_value_append is_ascii_digit_def)
  qed
qed

lemma strip_plus_show [simp]: "strip_plus (show_nat n) = show_nat n"
proof (cases "show_nat n")
  case (Cons c r)
  then have "is_ascii_digit c" using show_nat_digits [of c n] by simp
  then show ?thesis using Cons by (auto simp: strip_plus_def is_ascii_digit_def)
qed simp

lemma parse_show: "n \<le> maximum \<Longrightarrow> parse_unsigned maximum (show_nat n) = Some n"
  by (simp add: parse_unsigned_def digits_value_show)

lemma parse_unsigned_le: "parse_unsigned maximum s = Some n \<Longrightarrow> n \<le> maximum"
  by (auto simp: parse_unsigned_def split: if_splits option.splits)

section \<open>Splitting and joining\<close>

fun split_on :: "'a \<Rightarrow> 'a list \<Rightarrow> 'a list list" where
  "split_on sep [] = [[]]"
| "split_on sep (c # s) =
     (if c = sep then [] # split_on sep s
      else (case split_on sep s of [] \<Rightarrow> [[c]] | p # ps \<Rightarrow> (c # p) # ps))"

fun join_with :: "'a \<Rightarrow> 'a list list \<Rightarrow> 'a list" where
  "join_with sep [] = []"
| "join_with sep [p] = p"
| "join_with sep (p # q # ps) = p @ sep # join_with sep (q # ps)"

lemma split_on_not_Nil [simp]: "split_on sep s \<noteq> []"
  by (cases s) (auto split: list.splits)

lemma split_on_no_sep: "sep \<notin> set s \<Longrightarrow> split_on sep s = [s]"
  by (induction s) auto

lemma split_on_append: "sep \<notin> set p \<Longrightarrow> split_on sep (p @ sep # s) = p # split_on sep s"
  by (induction p) auto

lemma split_join: "ps \<noteq> [] \<Longrightarrow> \<forall>p \<in> set ps. sep \<notin> set p \<Longrightarrow> split_on sep (join_with sep ps) = ps"
  by (induction sep ps rule: join_with.induct) (auto simp: split_on_no_sep split_on_append)

lemma join_split: "join_with sep (split_on sep s) = s"
proof (induction s)
  case (Cons c s)
  obtain p ps where ps: "split_on sep s = p # ps" by (cases "split_on sep s") auto
  then show ?case using Cons by (cases ps) auto
qed simp

lemma split_on_pieces: "p \<in> set (split_on sep s) \<Longrightarrow> sep \<notin> set p"
  by (induction s arbitrary: p) (auto split: if_splits list.splits)

section \<open>Hexadecimal\<close>

definition hex_digit :: "nat \<Rightarrow> rchar" where
  "hex_digit d = (if d < 10 then 48 + d else 87 + d)"

text \<open>\<open>format!("{b:02x}")\<close> for one byte, and for a byte string.\<close>

definition hex_byte :: "u8 \<Rightarrow> rstring" where
  "hex_byte b = [hex_digit (unat b div 16), hex_digit (unat b mod 16)]"

definition hex_string :: "bytes \<Rightarrow> rstring" where
  "hex_string bs = concat (map hex_byte bs)"

text \<open>\<open>char::to_digit(16)\<close>: upper and lower case.\<close>

definition hex_value :: "rchar \<Rightarrow> nat option" where
  "hex_value c =
     (if 48 \<le> c \<and> c \<le> 57 then Some (c - 48)
      else if 97 \<le> c \<and> c \<le> 102 then Some (c - 87)
      else if 65 \<le> c \<and> c \<le> 70 then Some (c - 55)
      else None)"

fun hex_digits_value :: "nat \<Rightarrow> rstring \<Rightarrow> nat option" where
  "hex_digits_value acc [] = Some acc"
| "hex_digits_value acc (c # s) =
     (case hex_value c of None \<Rightarrow> None | Some d \<Rightarrow> hex_digits_value (acc * 16 + d) s)"

text \<open>\<open>u8::from_str_radix(s, 16)\<close>: like \<open>parse\<close>, it accepts a leading \<open>+\<close>.\<close>

definition u8_from_hex :: "rstring \<Rightarrow> u8 option" where
  "u8_from_hex s =
     (if s = [] then None
      else (case hex_digits_value 0 (strip_plus s) of
              None \<Rightarrow> None
            | Some n \<Rightarrow> if n \<le> 255 then Some (of_nat n) else None))"

lemma hex_value_digit: "d < 16 \<Longrightarrow> hex_value (hex_digit d) = Some d"
  by (auto simp: hex_value_def hex_digit_def)

lemma hex_digit_ascii: "d < 16 \<Longrightarrow> hex_digit d < 0x80"
  by (auto simp: hex_digit_def)

lemma unat_u8_div [simp]: "unat (b :: u8) div 16 < 16"
  using u8_unat_less [of b] by simp

lemma u8_from_hex_byte: "u8_from_hex (hex_byte b) = Some b"
proof -
  have "strip_plus (hex_byte b) = hex_byte b"
    by (auto simp: strip_plus_def hex_byte_def hex_digit_def)
  moreover have "hex_digits_value 0 (hex_byte b) = Some (unat b)"
    by (simp add: hex_byte_def hex_value_digit)
  moreover have "unat b \<le> 255" using u8_unat_less [of b] by simp
  ultimately show ?thesis by (simp add: u8_from_hex_def) (simp add: hex_byte_def)
qed

lemma length_hex_string [simp]: "length (hex_string bs) = 2 * length bs"
  by (induction bs) (simp_all add: hex_string_def hex_byte_def)

lemma hex_string_simps: "hex_string [] = []" "hex_string (b # bs) = hex_byte b @ hex_string bs"
  by (simp_all add: hex_string_def)

lemma hex_string_ascii: "c \<in> set (hex_string bs) \<Longrightarrow> c < 0x80"
  by (induction bs) (auto simp: hex_string_simps hex_byte_def intro: hex_digit_ascii)

section \<open>Trimming\<close>

text \<open>\<open>char::is_whitespace\<close>: the Unicode \<open>White_Space\<close> property.\<close>

definition is_whitespace :: "rchar \<Rightarrow> bool" where
  "is_whitespace c \<longleftrightarrow>
     (9 \<le> c \<and> c \<le> 13) \<or> c = 0x20 \<or> c = 0x85 \<or> c = 0xA0 \<or> c = 0x1680
     \<or> (0x2000 \<le> c \<and> c \<le> 0x200A) \<or> c = 0x2028 \<or> c = 0x2029 \<or> c = 0x202F \<or> c = 0x205F \<or> c = 0x3000"

definition trim_end :: "rstring \<Rightarrow> rstring" where
  "trim_end s = rev (dropWhile is_whitespace (rev s))"

lemma trim_end_prefix: "\<exists>t. s = trim_end s @ t \<and> list_all is_whitespace t"
proof (intro exI conjI)
  show "s = trim_end s @ rev (takeWhile is_whitespace (rev s))"
    by (metis rev_append rev_rev_ident takeWhile_dropWhile_id trim_end_def)
  show "list_all is_whitespace (rev (takeWhile is_whitespace (rev s)))"
    by (auto simp: list_all_iff dest: set_takeWhileD)
qed

lemma trim_end_idem [simp]: "trim_end (trim_end s) = trim_end s"
  by (simp add: trim_end_def dropWhile_idem)

end
