(* ===== verification/Modes.thy ===== *)
theory Modes
  imports Utf8 Rust_Text
begin

text \<open>
  The DEC private mode tracker of \<open>crates/terminal-model/src/modes.rs\<close>: a bounded scanner over
  the decoded PTY text that remembers which input-encoding modes are on, so that an attach
  snapshot can replay them. The lemmas show that the scanner's state stays bounded and that it
  never panics on any input, that at most one mouse protocol is on, that a mode list is
  applied in order, and that replaying the restore sequence reproduces the active modes.
\<close>

section \<open>State and operations\<close>

definition TRACKED :: "nat list" where
  "TRACKED = [1, 9, 1000, 1002, 1003, 1004, 1005, 1006, 1007, 1015, 2004]"

definition MOUSE_PROTOCOLS :: "nat list" where
  "MOUSE_PROTOCOLS = [9, 1000, 1002, 1003]"

definition MAX_PARAMS :: nat where
  "MAX_PARAMS = 32"

record csi_frame =
  csi_private :: bool
  csi_bang :: bool
  csi_invalid :: bool
  params_len :: nat

definition csi_default :: csi_frame where
  "csi_default = \<lparr>csi_private = False, csi_bang = False, csi_invalid = False, params_len = 0\<rparr>"

datatype mode_state = Ground | Escape | Csi csi_frame | StringBody | StringEscape

record mode_tracker =
  mt_state :: mode_state
  mt_params :: bytes
  mt_active :: "bool list"

definition all_off :: "bool list" where
  "all_off = replicate (length TRACKED) False"

definition modes_new :: mode_tracker where
  "modes_new = \<lparr>mt_state = Ground, mt_params = replicate MAX_PARAMS 0, mt_active = all_off\<rparr>"

text \<open>\<open>iter().position\<close>.\<close>

fun position :: "nat list \<Rightarrow> nat \<Rightarrow> nat option" where
  "position [] c = None"
| "position (x # xs) c = (if x = c then Some 0 else map_option Suc (position xs c))"

fun clear_modes :: "nat list \<Rightarrow> bool list \<Rightarrow> bool list option" where
  "clear_modes [] active = Some active"
| "clear_modes (other # others) active =
     (case position TRACKED other of
        None \<Rightarrow> None
      | Some i \<Rightarrow> clear_modes others (active[i := False]))"

text \<open>
  \<open>apply\<close>: switch one mode; \<open>None\<close> is the panic of \<open>position(..).unwrap()\<close>.
\<close>

definition mode_apply :: "bool list \<Rightarrow> nat \<Rightarrow> bool \<Rightarrow> bool list option" where
  "mode_apply active code on =
     (case position TRACKED code of
        None \<Rightarrow> Some active
      | Some index \<Rightarrow>
          (case (if on \<and> code \<in> set MOUSE_PROTOCOLS
                 then clear_modes (filter (\<lambda>other. other \<noteq> code) MOUSE_PROTOCOLS) active
                 else Some active) of
             None \<Rightarrow> None
           | Some active' \<Rightarrow> Some (active'[index := on])))"

fun apply_parts :: "rstring list \<Rightarrow> bool \<Rightarrow> bool list \<Rightarrow> bool list option" where
  "apply_parts [] on active = Some active"
| "apply_parts (part # parts) on active =
     (case parse_unsigned 65535 part of
        None \<Rightarrow> apply_parts parts on active
      | Some code \<Rightarrow>
          (case mode_apply active code on of
             None \<Rightarrow> None
           | Some active' \<Rightarrow> apply_parts parts on active'))"

text \<open>
  \<open>finish_csi\<close> at the final byte of a CSI sequence; \<open>None\<close> is the panic of the \<open>expect\<close> on the
  parameter bytes.
\<close>

definition finish_csi :: "mode_tracker \<Rightarrow> csi_frame \<Rightarrow> rchar \<Rightarrow> bool list option" where
  "finish_csi m frame final_byte =
     (if csi_invalid frame then Some (mt_active m)
      else if csi_bang frame \<and> final_byte = 0x70 then Some all_off
      else if \<not> csi_private frame \<or> (final_byte \<noteq> 0x68 \<and> final_byte \<noteq> 0x6C) then Some (mt_active m)
      else (case from_utf8 (take (params_len frame) (mt_params m)) of
              Inl _ \<Rightarrow> None
            | Inr params \<Rightarrow> apply_parts (split_on 0x3B params) (final_byte = 0x68) (mt_active m)))"

definition csi_step :: "mode_tracker \<Rightarrow> csi_frame \<Rightarrow> rchar \<Rightarrow> mode_tracker option" where
  "csi_step m frame ch =
     (if ch = 0x3F \<and> params_len frame = 0 \<and> \<not> csi_private frame then
        Some (m\<lparr>mt_state := Csi (frame\<lparr>csi_private := True\<rparr>)\<rparr>)
      else if (0x30 \<le> ch \<and> ch \<le> 0x39) \<or> ch = 0x3B then
        (if params_len frame < MAX_PARAMS
         then Some (m\<lparr>mt_params := (mt_params m)[params_len frame := of_nat ch],
                      mt_state := Csi (frame\<lparr>params_len := params_len frame + 1\<rparr>)\<rparr>)
         else Some (m\<lparr>mt_state := Csi (frame\<lparr>csi_invalid := True\<rparr>)\<rparr>))
      else if ch = 0x3A \<or> ch = 0x3C \<or> ch = 0x3D \<or> ch = 0x3E \<or> ch = 0x3F then
        Some (m\<lparr>mt_state := Csi (frame\<lparr>csi_invalid := True\<rparr>)\<rparr>)
      else if ch = 0x21 then Some (m\<lparr>mt_state := Csi (frame\<lparr>csi_bang := True\<rparr>)\<rparr>)
      else if 0x20 \<le> ch \<and> ch \<le> 0x2F then
        Some (m\<lparr>mt_state := Csi (frame\<lparr>csi_invalid := True\<rparr>)\<rparr>)
      else if 0x40 \<le> ch \<and> ch \<le> 0x7E then
        map_option (\<lambda>active. m\<lparr>mt_active := active, mt_state := Ground\<rparr>) (finish_csi m frame ch)
      else if ch = 0x1B then Some (m\<lparr>mt_state := Escape\<rparr>)
      else if ch = 0x18 \<or> ch = 0x1A then Some (m\<lparr>mt_state := Ground\<rparr>)
      else if ch \<le> 0x1F then Some (m\<lparr>mt_state := Csi frame\<rparr>)
      else Some (m\<lparr>mt_state := Ground\<rparr>))"

definition mode_step :: "mode_tracker \<Rightarrow> rchar \<Rightarrow> mode_tracker option" where
  "mode_step m ch =
     (case mt_state m of
        Ground \<Rightarrow>
          Some (m\<lparr>mt_state := (if ch = 0x1B then Escape
                               else if ch = 0x9B then Csi csi_default else Ground)\<rparr>)
      | Escape \<Rightarrow>
          (if ch = 0x5B then Some (m\<lparr>mt_state := Csi csi_default\<rparr>)
           else if ch \<in> {0x5D, 0x50, 0x58, 0x5E, 0x5F} then Some (m\<lparr>mt_state := StringBody\<rparr>)
           else if ch = 0x63 then Some (m\<lparr>mt_active := all_off, mt_state := Ground\<rparr>)
           else if ch = 0x1B then Some (m\<lparr>mt_state := Escape\<rparr>)
           else Some (m\<lparr>mt_state := Ground\<rparr>))
      | Csi frame \<Rightarrow> csi_step m frame ch
      | StringBody \<Rightarrow>
          Some (m\<lparr>mt_state := (if ch = 0x07 \<or> ch = 0x9C then Ground
                               else if ch = 0x18 \<or> ch = 0x1A then Ground
                               else if ch = 0x1B then StringEscape else StringBody)\<rparr>)
      | StringEscape \<Rightarrow>
          Some (m\<lparr>mt_state := (if ch = 0x5C then Ground
                               else if ch = 0x1B then StringEscape else StringBody)\<rparr>))"

fun modes_scan :: "mode_tracker \<Rightarrow> rstring \<Rightarrow> mode_tracker option" where
  "modes_scan m [] = Some m"
| "modes_scan m (ch # text) =
     (case mode_step m ch of None \<Rightarrow> None | Some m' \<Rightarrow> modes_scan m' text)"

text \<open>\<open>"\x1b[?{code}h"\<close>.\<close>

definition set_sequence :: "nat \<Rightarrow> rstring" where
  "set_sequence code = [0x1B, 0x5B, 0x3F] @ show_nat code @ [0x68]"

definition restore_sequence :: "mode_tracker \<Rightarrow> rstring" where
  "restore_sequence m =
     concat (map (\<lambda>(code, on). if on then set_sequence code else []) (zip TRACKED (mt_active m)))"

section \<open>Invariant and absence of panics\<close>

definition mouse_on :: "bool list \<Rightarrow> nat list" where
  "mouse_on active = filter (\<lambda>c. \<exists>i. position TRACKED c = Some i \<and> active ! i) MOUSE_PROTOCOLS"

definition active_ok :: "bool list \<Rightarrow> bool" where
  "active_ok active \<longleftrightarrow> length active = length TRACKED \<and> length (mouse_on active) \<le> 1"

definition param_byte :: "u8 \<Rightarrow> bool" where
  "param_byte b \<longleftrightarrow> is_ascii_digit (unat b) \<or> unat b = 0x3B"

definition modes_inv :: "mode_tracker \<Rightarrow> bool" where
  "modes_inv m \<longleftrightarrow>
     length (mt_params m) = MAX_PARAMS \<and> active_ok (mt_active m)
     \<and> (case mt_state m of
          Csi frame \<Rightarrow> params_len frame \<le> MAX_PARAMS
                       \<and> list_all param_byte (take (params_len frame) (mt_params m))
        | _ \<Rightarrow> True)"

lemma position_Some: "position xs c = Some i \<Longrightarrow> i < length xs \<and> xs ! i = c"
  by (induction xs arbitrary: i) (auto split: if_splits)

lemma position_None: "position xs c = None \<longleftrightarrow> c \<notin> set xs"
  by (induction xs) auto

lemma mouse_tracked: "c \<in> set MOUSE_PROTOCOLS \<Longrightarrow> \<exists>i. position TRACKED c = Some i"
  by (auto simp: MOUSE_PROTOCOLS_def TRACKED_def)

lemma TRACKED_distinct: "distinct TRACKED" "length TRACKED = 11"
  by (simp_all add: TRACKED_def)

lemma position_nth: "distinct xs \<Longrightarrow> i < length xs \<Longrightarrow> position xs (xs ! i) = Some i"
proof (induction xs arbitrary: i)
  case (Cons x xs)
  then show ?case by (cases i) auto
qed simp

lemma clear_modes_spec:
  "set others \<subseteq> set MOUSE_PROTOCOLS \<Longrightarrow> length active = length TRACKED \<Longrightarrow>
   \<exists>active'. clear_modes others active = Some active' \<and> length active' = length TRACKED
     \<and> (\<forall>i < length TRACKED. active' ! i = (active ! i \<and> TRACKED ! i \<notin> set others))"
proof (induction others arbitrary: active)
  case (Cons other others)
  then obtain j where j: "position TRACKED other = Some j" using mouse_tracked by fastforce
  then have j': "j < length TRACKED" "TRACKED ! j = other" by (auto dest: position_Some)
  have "TRACKED ! i = other \<longleftrightarrow> i = j" if "i < length TRACKED" for i
    using j' that TRACKED_distinct(1) by (auto simp: nth_eq_iff_index_eq)
  moreover obtain active' where "clear_modes others (active[j := False]) = Some active'"
      "length active' = length TRACKED"
      "\<forall>i < length TRACKED. active' ! i = (active[j := False] ! i \<and> TRACKED ! i \<notin> set others)"
    using Cons.IH [of "active[j := False]"] Cons.prems by auto
  ultimately show ?case using j j' Cons.prems by (auto simp: nth_list_update)
qed simp

text \<open>What one mode switch does, mode by mode.\<close>

lemma mode_apply_spec:
  assumes "length active = length TRACKED"
  shows "\<exists>active'. mode_apply active code on = Some active' \<and> length active' = length TRACKED
     \<and> (\<forall>i < length TRACKED. active' ! i =
          (if TRACKED ! i = code then on
           else active ! i \<and> \<not> (on \<and> code \<in> set MOUSE_PROTOCOLS \<and> TRACKED ! i \<in> set MOUSE_PROTOCOLS)))"
proof (cases "position TRACKED code")
  case None
  then have "code \<notin> set TRACKED" by (simp add: position_None)
  moreover have "set MOUSE_PROTOCOLS \<subseteq> set TRACKED" by (simp add: MOUSE_PROTOCOLS_def TRACKED_def)
  ultimately have "code \<notin> set MOUSE_PROTOCOLS" "\<And>i. i < length TRACKED \<Longrightarrow> TRACKED ! i \<noteq> code" by auto
  then show ?thesis using None assms by (simp add: mode_apply_def)
next
  case (Some j)
  then have j: "j < length TRACKED" "TRACKED ! j = code" by (auto dest: position_Some)
  have idx: "TRACKED ! i = code \<longleftrightarrow> i = j" if "i < length TRACKED" for i
    using j that TRACKED_distinct(1) by (auto simp: nth_eq_iff_index_eq)
  obtain a where a: "clear_modes (filter (\<lambda>other. other \<noteq> code) MOUSE_PROTOCOLS) active = Some a"
      "length a = length TRACKED"
      "\<forall>i < length TRACKED. a ! i = (active ! i \<and> TRACKED ! i \<notin> set (filter (\<lambda>other. other \<noteq> code) MOUSE_PROTOCOLS))"
    using clear_modes_spec [of "filter (\<lambda>other. other \<noteq> code) MOUSE_PROTOCOLS" active] assms by auto
  show ?thesis
    using Some a j assms idx by (auto simp: mode_apply_def nth_list_update)
qed

lemma mouse_on_iff:
  "length active = length TRACKED \<Longrightarrow>
   c \<in> set (mouse_on active) \<longleftrightarrow>
     c \<in> set MOUSE_PROTOCOLS \<and> (\<exists>i < length TRACKED. TRACKED ! i = c \<and> active ! i)"
  by (auto simp: mouse_on_def dest: position_Some)
    (metis TRACKED_distinct(1) position_nth)

lemma active_ok_iff:
  "length active = length TRACKED \<Longrightarrow>
   active_ok active \<longleftrightarrow>
     (\<forall>i < length TRACKED. \<forall>j < length TRACKED.
        TRACKED ! i \<in> set MOUSE_PROTOCOLS \<and> TRACKED ! j \<in> set MOUSE_PROTOCOLS \<and> active ! i \<and> active ! j
        \<longrightarrow> i = j)"
proof -
  assume len: "length active = length TRACKED"
  have d: "distinct (mouse_on active)" by (simp add: mouse_on_def MOUSE_PROTOCOLS_def)
  have "length (mouse_on active) \<le> 1 \<longleftrightarrow>
      (\<forall>c \<in> set (mouse_on active). \<forall>e \<in> set (mouse_on active). c = e)"
    using d by (cases "mouse_on active" rule: remdups_adj.cases) auto
  also have "\<dots> \<longleftrightarrow> (\<forall>i < length TRACKED. \<forall>j < length TRACKED.
        TRACKED ! i \<in> set MOUSE_PROTOCOLS \<and> TRACKED ! j \<in> set MOUSE_PROTOCOLS \<and> active ! i \<and> active ! j
        \<longrightarrow> TRACKED ! i = TRACKED ! j)"
    using len by (simp add: Ball_def mouse_on_iff) blast
  finally show ?thesis using TRACKED_distinct(1) len
    by (simp add: active_ok_def nth_eq_iff_index_eq)
qed

lemma mode_apply_ok:
  assumes "active_ok active"
  shows "\<exists>active'. mode_apply active code on = Some active' \<and> active_ok active'"
proof -
  have len: "length active = length TRACKED" using assms by (simp add: active_ok_def)
  obtain a where a: "mode_apply active code on = Some a" "length a = length TRACKED"
    "\<forall>i < length TRACKED. a ! i =
          (if TRACKED ! i = code then on
           else active ! i \<and> \<not> (on \<and> code \<in> set MOUSE_PROTOCOLS \<and> TRACKED ! i \<in> set MOUSE_PROTOCOLS))"
    using mode_apply_spec [OF len, of code on] by blast
  have "active_ok a"
    using assms a(3) TRACKED_distinct(1) unfolding active_ok_iff [OF len] active_ok_iff [OF a(2)]
    by (auto simp: nth_eq_iff_index_eq split: if_splits)
  with a(1) show ?thesis by blast
qed

lemma apply_parts_ok:
  "active_ok active \<Longrightarrow> \<exists>active'. apply_parts parts on active = Some active' \<and> active_ok active'"
proof (induction parts arbitrary: active)
  case (Cons part parts)
  show ?case
  proof (cases "parse_unsigned 65535 part")
    case (Some code)
    obtain a where "mode_apply active code on = Some a" "active_ok a"
      using mode_apply_ok [OF Cons.prems] by blast
    with Some Cons.IH [of a] show ?thesis by simp
  qed (use Cons in simp)
qed simp

lemma all_off_ok: "active_ok all_off"
  by (simp add: active_ok_iff all_off_def)

text \<open>The parameter buffer holds ASCII, so the \<open>expect\<close> never fires.\<close>

lemma from_utf8_ascii: "list_all (\<lambda>b. unat b < 0x80) bs \<Longrightarrow> from_utf8 bs = Ok (map unat bs)"
proof -
  assume a: "list_all (\<lambda>b. unat b < 0x80) bs"
  have "as_bytes (map unat bs) = bs" using a
    by (induction bs) (auto simp: as_bytes_def encode_utf8_def encode_utf8_raw_def)
  moreover have "list_all is_scalar (map unat bs)" using a by (auto simp: list_all_iff is_scalar_def)
  ultimately show ?thesis using from_utf8_encode by metis
qed

lemma param_bytes_ascii: "list_all param_byte bs \<Longrightarrow> from_utf8 bs = Ok (map unat bs)"
  by (rule from_utf8_ascii) (auto simp: list_all_iff param_byte_def is_ascii_digit_def)

lemma finish_csi_ok:
  assumes "modes_inv m" and "mt_state m = Csi frame"
  shows "\<exists>a. finish_csi m frame ch = Some a \<and> active_ok a"
  using assms apply_parts_ok [of "mt_active m"] all_off_ok
  by (auto simp: finish_csi_def modes_inv_def param_bytes_ascii)

lemma take_list_update_snoc: "n < length xs \<Longrightarrow> take (Suc n) (xs[n := x]) = take n xs @ [x]"
  by (simp add: take_Suc_conv_app_nth)

lemma csi_step_ok:
  assumes "modes_inv m" and "mt_state m = Csi frame"
  shows "\<exists>m'. csi_step m frame ch = Some m' \<and> modes_inv m'"
proof -
  obtain a where "finish_csi m frame ch = Some a" "active_ok a"
    using finish_csi_ok [OF assms] by blast
  moreover have "unat (of_nat ch :: u8) = ch" if "ch \<le> 0x3B"
    using that by (simp add: unat_of_nat_u8)
  ultimately show ?thesis
    using assms unfolding csi_step_def modes_inv_def
    by (auto simp: take_list_update_snoc param_byte_def is_ascii_digit_def)
qed

lemma mode_step_ok: "modes_inv m \<Longrightarrow> \<exists>m'. mode_step m ch = Some m' \<and> modes_inv m'"
  using csi_step_ok [of m _ ch] all_off_ok
  by (cases "mt_state m") (auto simp: mode_step_def modes_inv_def csi_default_def)

lemma modes_scan_ok: "modes_inv m \<Longrightarrow> \<exists>m'. modes_scan m s = Some m' \<and> modes_inv m'"
proof (induction s arbitrary: m)
  case (Cons ch s)
  obtain m1 where "mode_step m ch = Some m1" "modes_inv m1" using mode_step_ok [OF Cons.prems] by blast
  then show ?case using Cons.IH [of m1] by simp
qed simp

lemma modes_new_inv: "modes_inv modes_new"
  using all_off_ok by (simp add: modes_inv_def modes_new_def)

lemma modes_scan_append:
  "modes_scan m (s @ t) = (case modes_scan m s of None \<Rightarrow> None | Some m' \<Rightarrow> modes_scan m' t)"
  by (induction s arbitrary: m) (auto split: option.splits)

section \<open>Mode lists and the restore sequence\<close>

text \<open>Switching a list of modes, in order: what a \<open>CSI ? Pm h\<close> or \<open>CSI ? Pm l\<close> asks for.\<close>

fun apply_codes :: "nat list \<Rightarrow> bool \<Rightarrow> bool list \<Rightarrow> bool list option" where
  "apply_codes [] on active = Some active"
| "apply_codes (c # cs) on active =
     (case mode_apply active c on of None \<Rightarrow> None | Some a \<Rightarrow> apply_codes cs on a)"

lemma apply_parts_show:
  "\<forall>c \<in> set cs. c \<le> 65535 \<Longrightarrow> apply_parts (map show_nat cs) on active = apply_codes cs on active"
  by (induction cs arbitrary: active) (auto simp: parse_show split: option.splits)

text \<open>Scanning parameter characters fills the buffer.\<close>

lemma scan_params:
  assumes "modes_inv m" and "mt_state m = Csi frame" and "params_len frame + length p \<le> MAX_PARAMS"
    and "\<forall>c \<in> set p. is_ascii_digit c \<or> c = 0x3B"
  shows "\<exists>m'. modes_scan m p = Some m' \<and> modes_inv m' \<and> mt_active m' = mt_active m
     \<and> mt_state m' = Csi (frame\<lparr>params_len := params_len frame + length p\<rparr>)
     \<and> map unat (take (params_len frame + length p) (mt_params m'))
         = map unat (take (params_len frame) (mt_params m)) @ p"
  using assms
proof (induction p arbitrary: m frame)
  case (Cons c p)
  let ?frame = "frame\<lparr>params_len := params_len frame + 1\<rparr>"
  let ?m = "m\<lparr>mt_params := (mt_params m)[params_len frame := of_nat c], mt_state := Csi ?frame\<rparr>"
  have c: "(0x30 \<le> c \<and> c \<le> 0x39) \<or> c = 0x3B" using Cons.prems by (auto simp: is_ascii_digit_def)
  have step: "mode_step m c = Some ?m"
    using Cons.prems c by (auto simp: mode_step_def csi_step_def)
  have inv: "modes_inv ?m" using mode_step_ok [OF Cons.prems(1), of c] step by auto
  have "unat (of_nat c :: u8) = c" using c by (auto simp: unat_of_nat_u8)
  then have t: "map unat (take (Suc (params_len frame)) (mt_params ?m))
      = map unat (take (params_len frame) (mt_params m)) @ [c]"
    using Cons.prems by (simp add: take_list_update_snoc modes_inv_def)
  obtain m' where m': "modes_scan ?m p = Some m'" "modes_inv m'" "mt_active m' = mt_active m"
     "mt_state m' = Csi (?frame\<lparr>params_len := params_len ?frame + length p\<rparr>)"
     "map unat (take (params_len ?frame + length p) (mt_params m'))
         = map unat (take (params_len ?frame) (mt_params ?m)) @ p"
    using Cons.IH [OF inv, of ?frame] Cons.prems by auto
  show ?case using m' step t by (intro exI [of _ m']) simp
qed auto

lemma modes_scan_single: "modes_scan m [c] = mode_step m c"
  by (simp split: option.splits)

text \<open>The whole sequence \<open>ESC [ ? c1 ; c2 ; ... h\<close> (or \<open>l\<close>), from the ground state.\<close>

definition mode_sequence :: "nat list \<Rightarrow> bool \<Rightarrow> rstring" where
  "mode_sequence cs on =
     [0x1B, 0x5B, 0x3F] @ join_with 0x3B (map show_nat cs) @ [if on then 0x68 else 0x6C]"

lemma set_join_with: "set (join_with sep ps) \<subseteq> insert sep (\<Union> (set ` set ps))"
  by (induction sep ps rule: join_with.induct) auto

lemma scan_mode_sequence:
  assumes inv: "modes_inv m" and g: "mt_state m = Ground"
    and cs: "cs \<noteq> []" "\<forall>c \<in> set cs. c \<le> 65535"
    and fits: "length (join_with 0x3B (map show_nat cs)) \<le> MAX_PARAMS"
  shows "\<exists>m' a. modes_scan m (mode_sequence cs on) = Some m' \<and> modes_inv m' \<and> mt_state m' = Ground
     \<and> apply_codes cs on (mt_active m) = Some a \<and> mt_active m' = a"
proof -
  let ?p = "join_with 0x3B (map show_nat cs)" and ?f = "csi_default\<lparr>csi_private := True\<rparr>"
  let ?m = "m\<lparr>mt_state := Csi ?f\<rparr>" and ?fin = "if on then 0x68 else 0x6C :: nat"
  have pre: "modes_scan m [0x1B, 0x5B, 0x3F] = Some ?m"
    using g by (simp add: mode_step_def csi_step_def csi_default_def)
  have minv: "modes_inv ?m" using inv by (simp add: modes_inv_def csi_default_def)
  have "\<forall>c \<in> set ?p. is_ascii_digit c \<or> c = 0x3B"
    using set_join_with [of "0x3B" "map show_nat cs"] show_nat_digits by fastforce
  then obtain m1 where m1: "modes_scan ?m ?p = Some m1" "modes_inv m1" "mt_active m1 = mt_active m"
     "mt_state m1 = Csi (?f\<lparr>params_len := length ?p\<rparr>)" "map unat (take (length ?p) (mt_params m1)) = ?p"
    using scan_params [OF minv, of ?f ?p] fits by (auto simp: csi_default_def)
  have "list_all param_byte (take (length ?p) (mt_params m1))" using m1(2,4) by (simp add: modes_inv_def)
  then have dec: "from_utf8 (take (length ?p) (mt_params m1)) = Ok ?p"
    using param_bytes_ascii m1(5) by simp
  have sp: "split_on 0x3B ?p = map show_nat cs"
    using cs show_nat_digits [of "0x3B"] by (intro split_join) (auto simp: is_ascii_digit_def)
  obtain m2 where m2: "mode_step m1 ?fin = Some m2" "modes_inv m2" using mode_step_ok [OF m1(2)] by blast
  have fin: "finish_csi m1 (?f\<lparr>params_len := length ?p\<rparr>) ?fin = apply_codes cs on (mt_active m)"
    using dec sp m1(3) cs(2) by (simp add: finish_csi_def csi_default_def apply_parts_show)
  have "\<exists>a. apply_codes cs on (mt_active m) = Some a \<and> mt_active m2 = a \<and> mt_state m2 = Ground"
    using m2(1) m1(4) fin by (auto simp: mode_step_def csi_step_def split: if_splits)
  moreover have "modes_scan m (mode_sequence cs on) = Some m2"
    unfolding mode_sequence_def modes_scan_append pre using m1(1) m2(1)
    by (simp add: modes_scan_append modes_scan_single del: modes_scan.simps)
  ultimately show ?thesis using m2(2) by blast
qed

lemma set_sequence_mode: "set_sequence c = mode_sequence [c] True"
  by (simp add: set_sequence_def mode_sequence_def)

lemma tracked_fits: "c \<in> set TRACKED \<Longrightarrow> c \<le> 65535 \<and> length (show_nat c) \<le> MAX_PARAMS"
proof -
  assume "c \<in> set TRACKED"
  then have "c \<le> 2004" by (auto simp: TRACKED_def)
  then show ?thesis using length_show_nat [of c 3] by (simp add: MAX_PARAMS_def)
qed

lemma scan_set_sequences:
  "modes_inv m \<Longrightarrow> mt_state m = Ground \<Longrightarrow> set cs \<subseteq> set TRACKED \<Longrightarrow>
   \<exists>m'. modes_scan m (concat (map set_sequence cs)) = Some m' \<and> mt_state m' = Ground
     \<and> apply_codes cs True (mt_active m) = Some (mt_active m')"
proof (induction cs arbitrary: m)
  case (Cons c cs)
  then obtain m1 a where m1: "modes_scan m (set_sequence c) = Some m1" "modes_inv m1" "mt_state m1 = Ground"
      "apply_codes [c] True (mt_active m) = Some a" "mt_active m1 = a"
    using scan_mode_sequence [of m "[c]" True] tracked_fits [of c] by (auto simp: set_sequence_mode)
  moreover obtain m2 where "modes_scan m1 (concat (map set_sequence cs)) = Some m2" "mt_state m2 = Ground"
      "apply_codes cs True (mt_active m1) = Some (mt_active m2)"
    using Cons.IH [OF m1(2,3)] Cons.prems by auto
  ultimately show ?case by (auto simp: modes_scan_append split: option.splits)
qed simp

text \<open>Switching on a set of tracked modes with at most one mouse protocol.\<close>

lemma apply_codes_on:
  assumes "length a = length TRACKED" and "set cs \<subseteq> set TRACKED"
    and "\<And>c e. c \<in> set MOUSE_PROTOCOLS \<Longrightarrow> e \<in> set MOUSE_PROTOCOLS \<Longrightarrow>
           c \<in> set cs \<union> {TRACKED ! i | i. i < length TRACKED \<and> a ! i} \<Longrightarrow>
           e \<in> set cs \<union> {TRACKED ! i | i. i < length TRACKED \<and> a ! i} \<Longrightarrow> c = e"
  shows "\<exists>b. apply_codes cs True a = Some b \<and> length b = length TRACKED
     \<and> (\<forall>i < length TRACKED. b ! i = (a ! i \<or> TRACKED ! i \<in> set cs))"
  using assms
proof (induction cs arbitrary: a)
  case (Cons c cs)
  obtain a1 where a1: "mode_apply a c True = Some a1" "length a1 = length TRACKED"
    "\<forall>i < length TRACKED. a1 ! i = (if TRACKED ! i = c then True
         else a ! i \<and> \<not> (True \<and> c \<in> set MOUSE_PROTOCOLS \<and> TRACKED ! i \<in> set MOUSE_PROTOCOLS))"
    using mode_apply_spec [OF Cons.prems(1), of c True] by blast
  have on: "a1 ! i = (a ! i \<or> TRACKED ! i = c)" if "i < length TRACKED" for i
    using that a1(3) Cons.prems(3) [of c "TRACKED ! i"] by auto
  have "\<exists>b. apply_codes cs True a1 = Some b \<and> length b = length TRACKED
     \<and> (\<forall>i < length TRACKED. b ! i = (a1 ! i \<or> TRACKED ! i \<in> set cs))"
    by (rule Cons.IH [OF a1(2)]) (use Cons.prems(2,3) on in auto)
  then show ?case using a1(1) on by auto
qed simp

definition active_codes :: "mode_tracker \<Rightarrow> nat list" where
  "active_codes m = map fst (filter snd (zip TRACKED (mt_active m)))"

lemma restore_sequence_codes: "restore_sequence m = concat (map set_sequence (active_codes m))"
proof -
  have "concat (map (\<lambda>(code, on). if on then set_sequence code else []) ps)
      = concat (map set_sequence (map fst (filter snd ps)))" for ps :: "(nat \<times> bool) list"
    by (induction ps) auto
  then show ?thesis by (simp add: restore_sequence_def active_codes_def)
qed

lemma set_active_codes:
  "length (mt_active m) = length TRACKED \<Longrightarrow>
   set (active_codes m) = {TRACKED ! i | i. i < length TRACKED \<and> mt_active m ! i}"
  by (force simp: active_codes_def set_zip)

section \<open>Properties\<close>

text \<open>
  Total and bounded on hostile input: the scanner accepts every character sequence without
  panicking, its parameter buffer and mode table never change size, the parameter count stays
  within the buffer, and at most one mouse protocol is recorded as on.
\<close>

theorem modes_scan_bounded:
  "\<exists>m. modes_scan modes_new s = Some m \<and> length (mt_params m) = MAX_PARAMS
     \<and> length (mt_active m) = length TRACKED \<and> length (mouse_on (mt_active m)) \<le> 1
     \<and> (case mt_state m of Csi frame \<Rightarrow> params_len frame \<le> MAX_PARAMS | _ \<Rightarrow> True)"
  using modes_scan_ok [OF modes_new_inv, of s]
  by (force simp: modes_inv_def active_ok_def split: mode_state.splits)

text \<open>
  (C39) A snapshot restores the input modes: after any output whatsoever, feeding the tracker's
  restore sequence to a fresh tracker turns on exactly the modes that were on, no more and no
  fewer, and leaves it in its ground state.
\<close>

theorem modes_restore:
  "\<exists>m m'. modes_scan modes_new s = Some m
     \<and> modes_scan modes_new (restore_sequence m) = Some m'
     \<and> mt_active m' = mt_active m \<and> mt_state m' = Ground"
proof -
  obtain m where m: "modes_scan modes_new s = Some m" "modes_inv m"
    using modes_scan_ok [OF modes_new_inv, of s] by blast
  have len: "length (mt_active m) = length TRACKED" using m(2) by (simp add: modes_inv_def active_ok_def)
  have sub: "set (active_codes m) \<subseteq> set TRACKED" using set_active_codes [OF len] by auto
  obtain m' where m': "modes_scan modes_new (restore_sequence m) = Some m'" "mt_state m' = Ground"
      "apply_codes (active_codes m) True all_off = Some (mt_active m')"
    using scan_set_sequences [OF modes_new_inv _ sub]
    unfolding restore_sequence_codes by (auto simp: modes_new_def)
  have off: "length all_off = length TRACKED" "\<And>i. i < length TRACKED \<Longrightarrow> \<not> all_off ! i"
    by (simp_all add: all_off_def)
  have ex: "c = e" if "c \<in> set MOUSE_PROTOCOLS" "e \<in> set MOUSE_PROTOCOLS"
      "c \<in> set (active_codes m)" "e \<in> set (active_codes m)" for c e
    using m(2) that active_ok_iff [OF len] unfolding set_active_codes [OF len] modes_inv_def by blast
  obtain b where b: "apply_codes (active_codes m) True all_off = Some b" "length b = length TRACKED"
      "\<forall>i < length TRACKED. b ! i = (all_off ! i \<or> TRACKED ! i \<in> set (active_codes m))"
    using apply_codes_on [OF off(1) sub] ex off(2) by fastforce
  have "b ! i = mt_active m ! i" if "i < length TRACKED" for i
    using that b(3) off(2) set_active_codes [OF len] TRACKED_distinct(1)
    by (auto simp: nth_eq_iff_index_eq)
  then have "mt_active m' = mt_active m" using b m'(3) len by (simp add: list_eq_iff_nth_eq)
  with m m' show ?thesis by blast
qed

text \<open>
  Mode lists are applied in order: from the ground state, a set or reset sequence whose
  parameter section fits the buffer switches exactly the listed codes, one after the other
  (a mouse protocol replacing another), and returns to the ground state.
\<close>

theorem modes_scan_list:
  assumes "modes_inv m" and "mt_state m = Ground" and "cs \<noteq> []" and "\<forall>c \<in> set cs. c \<le> 65535"
    and "length (join_with 0x3B (map show_nat cs)) \<le> MAX_PARAMS"
  shows "\<exists>m' a. modes_scan m (mode_sequence cs on) = Some m' \<and> mt_state m' = Ground
     \<and> apply_codes cs on (mt_active m) = Some a \<and> mt_active m' = a"
  using scan_mode_sequence [OF assms, of on] by blast

theorem modes_scan_list_witness:
  "\<exists>m' a. modes_scan modes_new (mode_sequence [1000, 1006] True) = Some m' \<and> mt_state m' = Ground
     \<and> apply_codes [1000, 1006] True (mt_active modes_new) = Some a \<and> mt_active m' = a"
proof (rule modes_scan_list [OF modes_new_inv])
  show "mt_state modes_new = Ground" by (simp add: modes_new_def)
  show "length (join_with 0x3B (map show_nat [1000, 1006])) \<le> MAX_PARAMS"
    using length_show_nat [of 1000 3] length_show_nat [of 1006 3] by (simp add: MAX_PARAMS_def)
qed simp_all

end
