(* ===== verification/Terminal_Model.thy ===== *)
theory Terminal_Model
  imports History Modes
begin

text \<open>
  The terminal model of \<open>crates/terminal-model/src/lib.rs\<close>, which composes the incremental
  UTF-8 decoder, the mode tracker, the scrollback ring and the emulator. The emulator (the
  vendored \<open>avt\<close> crate) is a parameter: its operations are the fields of \<open>avt_ops\<close>, which report
  the lines they push out of the screen. Column and row counts are \<open>u16\<close> values as naturals.
\<close>

section \<open>The emulator interface\<close>

record 'vt avt_ops =
  avt_build :: "nat \<Rightarrow> nat \<Rightarrow> 'vt"
  avt_feed_str :: "'vt \<Rightarrow> rstring \<Rightarrow> 'vt \<times> rstring list"
  avt_resize :: "'vt \<Rightarrow> nat \<Rightarrow> nat \<Rightarrow> 'vt \<times> rstring list"
  avt_dump :: "'vt \<Rightarrow> rstring"
  avt_view :: "'vt \<Rightarrow> rstring list"

section \<open>State and operations\<close>

definition MIN_COLS :: nat where
  "MIN_COLS = 2"

definition MIN_ROWS :: nat where
  "MIN_ROWS = 1"

record terminal_model_config =
  tmc_cols :: nat
  tmc_rows :: nat
  max_history_lines :: nat
  max_history_bytes :: nat

definition terminal_model_config_default :: terminal_model_config where
  "terminal_model_config_default =
     \<lparr>tmc_cols = 80, tmc_rows = 24, max_history_lines = 100000, max_history_bytes = 64 * 1024 * 1024\<rparr>"

record 'vt terminal_model =
  tm_vt :: 'vt
  tm_utf8 :: incremental_utf8
  tm_history :: history_ring
  tm_modes :: mode_tracker
  tm_revision :: nat
  tm_cols :: nat
  tm_rows :: nat

definition tm_new :: "'vt avt_ops \<Rightarrow> terminal_model_config \<Rightarrow> 'vt terminal_model" where
  "tm_new A config =
     (let cols = max (tmc_cols config) MIN_COLS; rows = max (tmc_rows config) MIN_ROWS in
      \<lparr>tm_vt = avt_build A cols rows, tm_utf8 = utf8_new,
       tm_history = history_new (max_history_lines config) (max_history_bytes config),
       tm_modes = modes_new, tm_revision = 1, tm_cols = cols, tm_rows = rows\<rparr>)"

definition commit_lines :: "history_ring \<Rightarrow> rstring list \<Rightarrow> history_ring" where
  "commit_lines h evicted = foldl history_push h (map trim_end evicted)"

text \<open>\<open>feed\<close>; \<open>None\<close> only if the decoder or the mode scanner panicked.\<close>

definition tm_feed :: "'vt avt_ops \<Rightarrow> 'vt terminal_model \<Rightarrow> bytes \<Rightarrow> ('vt terminal_model \<times> nat) option" where
  "tm_feed A m input =
     (case utf8_push (tm_utf8 m) input of
        None \<Rightarrow> None
      | Some (utf8, decoded) \<Rightarrow>
          if decoded = [] then Some (m\<lparr>tm_utf8 := utf8\<rparr>, tm_revision m)
          else (case modes_scan (tm_modes m) decoded of
                  None \<Rightarrow> None
                | Some modes \<Rightarrow>
                    let (vt, evicted) = avt_feed_str A (tm_vt m) decoded in
                    Some (m\<lparr>tm_utf8 := utf8, tm_modes := modes, tm_vt := vt,
                            tm_history := commit_lines (tm_history m) evicted,
                            tm_revision := tm_revision m + 1\<rparr>, tm_revision m + 1)))"

definition tm_resize :: "'vt avt_ops \<Rightarrow> 'vt terminal_model \<Rightarrow> nat \<Rightarrow> nat \<Rightarrow> 'vt terminal_model \<times> nat" where
  "tm_resize A m cols rows =
     (let cols = max cols MIN_COLS; rows = max rows MIN_ROWS in
      if (cols, rows) \<noteq> (tm_cols m, tm_rows m) then
        let (vt, evicted) = avt_resize A (tm_vt m) cols rows in
        (m\<lparr>tm_vt := vt, tm_history := commit_lines (tm_history m) evicted,
           tm_cols := cols, tm_rows := rows, tm_revision := tm_revision m + 1\<rparr>, tm_revision m + 1)
      else (m, tm_revision m))"

definition tm_snapshot :: "'vt avt_ops \<Rightarrow> 'vt terminal_model \<Rightarrow> bytes" where
  "tm_snapshot A m = as_bytes (avt_dump A (tm_vt m)) @ as_bytes (restore_sequence (tm_modes m))"

definition tm_size :: "'vt terminal_model \<Rightarrow> nat \<times> nat" where
  "tm_size m = (tm_cols m, tm_rows m)"

definition visible_lines :: "'vt avt_ops \<Rightarrow> 'vt terminal_model \<Rightarrow> rstring list" where
  "visible_lines A m = map trim_end (avt_view A (tm_vt m))"

definition oldest_line_id :: "'vt terminal_model \<Rightarrow> nat" where
  "oldest_line_id m = oldest_id (tm_history m)"

definition newest_line_id :: "'vt terminal_model \<Rightarrow> nat" where
  "newest_line_id m = newest_id (tm_history m)"

definition tm_history_range :: "'vt terminal_model \<Rightarrow> nat \<Rightarrow> nat \<Rightarrow> nat \<Rightarrow> history_range option" where
  "tm_history_range m before_line_id maximum_lines maximum_bytes =
     history_range (tm_history m) before_line_id maximum_lines maximum_bytes"

section \<open>Invariant\<close>

definition tm_inv :: "'vt terminal_model \<Rightarrow> bool" where
  "tm_inv m \<longleftrightarrow>
     utf8_scan (pending (tm_utf8 m)) = ([], pending (tm_utf8 m)) \<and> modes_inv (tm_modes m) \<and> ring_inv (tm_history m)
     \<and> within_bounds (tm_history m) \<and> tm_revision m \<ge> 1 \<and> MIN_COLS \<le> tm_cols m \<and> MIN_ROWS \<le> tm_rows m"

lemma within_bounds_new: "within_bounds (history_new ml mb)"
  by (simp add: within_bounds_def history_new_def)

lemma tm_new_inv: "tm_inv (tm_new A config)"
  by (simp add: tm_inv_def tm_new_def Let_def utf8_new_def utf8_scan_simps modes_new_inv ring_inv_new within_bounds_new)

lemma commit_lines_inv:
  "ring_inv h \<Longrightarrow> within_bounds h \<Longrightarrow> ring_inv (commit_lines h ls) \<and> within_bounds (commit_lines h ls)"
  unfolding commit_lines_def
  by (induction ls arbitrary: h) (auto simp: ring_inv_push push_within_bounds)

lemma tm_feed_total:
  assumes "tm_inv m"
  shows "\<exists>m' rev. tm_feed A m input = Some (m', rev) \<and> tm_inv m' \<and> tm_size m' = tm_size m
     \<and> rev = tm_revision m' \<and> tm_revision m \<le> tm_revision m'"
proof -
  obtain modes where modes: "modes_scan (tm_modes m) (fst (utf8_scan (pending (tm_utf8 m) @ input))) = Some modes"
      "modes_inv modes"
    using modes_scan_ok assms unfolding tm_inv_def by blast
  then show ?thesis using assms
    by (auto simp: tm_feed_def utf8_push_scan tm_inv_def tm_size_def utf8_scan_stable commit_lines_inv
        split: prod.splits)
qed

lemma tm_resize_inv: "tm_inv m \<Longrightarrow> tm_inv (fst (tm_resize A m cols rows))"
  by (auto simp: tm_resize_def Let_def tm_inv_def commit_lines_inv split: prod.splits)

lemma tm_resize_size: "tm_size (fst (tm_resize A m cols rows)) = (max cols MIN_COLS, max rows MIN_ROWS)"
  by (auto simp: tm_resize_def Let_def tm_size_def split: prod.splits)

text \<open>
  The contract the session layer relies on: a screen with a size that only resizing changes
  and that never falls below the emulator's safe minimum.
\<close>

locale sized_screen =
  fixes feed :: "'m \<Rightarrow> bytes \<Rightarrow> 'm option"
    and resize :: "'m \<Rightarrow> nat \<Rightarrow> nat \<Rightarrow> 'm"
    and size :: "'m \<Rightarrow> nat \<times> nat"
    and valid :: "'m \<Rightarrow> bool"
  assumes feed_total: "valid m \<Longrightarrow> \<exists>m'. feed m bs = Some m' \<and> valid m' \<and> size m' = size m"
    and resize_valid: "valid m \<Longrightarrow> valid (resize m c r)"
    and resize_size: "size (resize m c r) = (max c MIN_COLS, max r MIN_ROWS)"
    and valid_size: "valid m \<Longrightarrow> MIN_COLS \<le> fst (size m) \<and> MIN_ROWS \<le> snd (size m)"
begin

fun feed_all :: "'m \<Rightarrow> bytes list \<Rightarrow> 'm option" where
  "feed_all m [] = Some m"
| "feed_all m (c # cs) = (case feed m c of None \<Rightarrow> None | Some m' \<Rightarrow> feed_all m' cs)"

lemma feed_all_total: "valid m \<Longrightarrow> \<exists>m'. feed_all m cs = Some m' \<and> valid m' \<and> size m' = size m"
proof (induction cs arbitrary: m)
  case (Cons c cs)
  obtain m1 where "feed m c = Some m1" "valid m1" "size m1 = size m" using feed_total [OF Cons.prems] by blast
  then show ?case using Cons.IH [of m1] by auto
qed simp

end

definition feed_model :: "'vt avt_ops \<Rightarrow> 'vt terminal_model \<Rightarrow> bytes \<Rightarrow> 'vt terminal_model option" where
  "feed_model A m bs = map_option fst (tm_feed A m bs)"

definition resize_model :: "'vt avt_ops \<Rightarrow> 'vt terminal_model \<Rightarrow> nat \<Rightarrow> nat \<Rightarrow> 'vt terminal_model" where
  "resize_model A m c r = fst (tm_resize A m c r)"

interpretation screen: sized_screen "feed_model A" "resize_model A" tm_size tm_inv
  for A :: "'vt avt_ops"
proof unfold_locales
  fix m :: "'vt terminal_model" and bs
  assume "tm_inv m"
  then show "\<exists>m'. feed_model A m bs = Some m' \<and> tm_inv m' \<and> tm_size m' = tm_size m"
    using tm_feed_total [of m A bs] by (auto simp: feed_model_def)
qed (auto simp: resize_model_def tm_resize_inv tm_resize_size, auto simp: tm_inv_def tm_size_def)

section \<open>Streaming\<close>

text \<open>
  What the model assumes of the emulator when output is cut into chunks: feeding a text in two
  pieces has the same effect, and scrolls out the same lines, as feeding it at once.
\<close>

definition avt_streaming :: "'vt avt_ops \<Rightarrow> bool" where
  "avt_streaming A \<longleftrightarrow>
     (\<forall>v. avt_feed_str A v [] = (v, []))
     \<and> (\<forall>v s t. avt_feed_str A v (s @ t) =
            (case avt_feed_str A v s of (v1, e1) \<Rightarrow>
             case avt_feed_str A v1 t of (v2, e2) \<Rightarrow> (v2, e1 @ e2)))"

fun tm_feed_all :: "'vt avt_ops \<Rightarrow> 'vt terminal_model \<Rightarrow> bytes list \<Rightarrow> 'vt terminal_model option" where
  "tm_feed_all A m [] = Some m"
| "tm_feed_all A m (c # cs) =
     (case tm_feed A m c of None \<Rightarrow> None | Some (m', _) \<Rightarrow> tm_feed_all A m' cs)"

text \<open>The model after a text has been decoded, up to the revision counter.\<close>

definition same_screen :: "'vt terminal_model \<Rightarrow> 'vt terminal_model \<Rightarrow> bool" where
  "same_screen m n \<longleftrightarrow> m\<lparr>tm_revision := 0\<rparr> = n\<lparr>tm_revision := 0\<rparr>"

definition absorb ::
  "'vt avt_ops \<Rightarrow> 'vt terminal_model \<Rightarrow> rstring \<Rightarrow> bytes \<Rightarrow> 'vt terminal_model" where
  "absorb A m decoded p =
     m\<lparr>tm_utf8 := (tm_utf8 m)\<lparr>pending := p\<rparr>, tm_modes := the (modes_scan (tm_modes m) decoded),
       tm_vt := fst (avt_feed_str A (tm_vt m) decoded),
       tm_history := commit_lines (tm_history m) (snd (avt_feed_str A (tm_vt m) decoded)),
       tm_revision := 0\<rparr>"

lemma commit_lines_append: "commit_lines (commit_lines h a) b = commit_lines h (a @ b)"
  by (simp add: commit_lines_def)

lemma tm_feed_absorb:
  assumes "tm_inv m" and "avt_streaming A"
  shows "\<exists>m' rev. tm_feed A m input = Some (m', rev) \<and> tm_inv m'
     \<and> m'\<lparr>tm_revision := 0\<rparr> = absorb A m (fst (utf8_scan (pending (tm_utf8 m) @ input)))
                                          (snd (utf8_scan (pending (tm_utf8 m) @ input)))"
proof -
  obtain m' rev where m': "tm_feed A m input = Some (m', rev)" "tm_inv m'"
    using tm_feed_total [OF assms(1)] by blast
  then show ?thesis using assms(2)
    by (auto simp: tm_feed_def utf8_push_scan absorb_def avt_streaming_def commit_lines_def
        split: if_splits option.splits prod.splits)
qed

lemma absorb_append:
  assumes "modes_inv (tm_modes m)" and "avt_streaming A"
  shows "absorb A (absorb A m s p) t q = absorb A m (s @ t) q"
proof -
  obtain modes where "modes_scan (tm_modes m) s = Some modes" "modes_inv modes"
    using modes_scan_ok [OF assms(1), of s] by blast
  then have "the (modes_scan (the (modes_scan (tm_modes m) s)) t) = the (modes_scan (tm_modes m) (s @ t))"
    by (simp add: modes_scan_append)
  moreover have "avt_feed_str A (tm_vt m) (s @ t) =
      (fst (avt_feed_str A (fst (avt_feed_str A (tm_vt m) s)) t),
       snd (avt_feed_str A (tm_vt m) s) @ snd (avt_feed_str A (fst (avt_feed_str A (tm_vt m) s)) t))"
    using assms(2) by (auto simp: avt_streaming_def split: prod.splits)
  ultimately show ?thesis by (simp add: absorb_def commit_lines_append)
qed

lemma absorb_revision: "absorb A (m\<lparr>tm_revision := r\<rparr>) s p = absorb A m s p"
  by (simp add: absorb_def)

lemma tm_feed_all_absorb:
  assumes "tm_inv m" and "avt_streaming A"
  shows "\<exists>m'. tm_feed_all A m cs = Some m' \<and> tm_inv m'
     \<and> m'\<lparr>tm_revision := 0\<rparr> = absorb A m (fst (utf8_scan (pending (tm_utf8 m) @ concat cs)))
                                          (snd (utf8_scan (pending (tm_utf8 m) @ concat cs)))"
  using assms(1)
proof (induction cs arbitrary: m)
  case Nil
  then show ?case using assms(2) by (simp add: tm_inv_def absorb_def avt_streaming_def commit_lines_def)
next
  case (Cons c cs)
  let ?s = "utf8_scan (pending (tm_utf8 m) @ c)"
  obtain m1 rev where m1: "tm_feed A m c = Some (m1, rev)" "tm_inv m1"
      "m1\<lparr>tm_revision := 0\<rparr> = absorb A m (fst ?s) (snd ?s)"
    using tm_feed_absorb [OF Cons.prems assms(2)] by blast
  let ?t = "utf8_scan (snd ?s @ concat cs)"
  have p: "pending (tm_utf8 m1) = snd ?s"
    using arg_cong [OF m1(3), of "\<lambda>m. pending (tm_utf8 m)"] by (simp add: absorb_def)
  obtain m2 where m2: "tm_feed_all A m1 cs = Some m2" "tm_inv m2"
      "m2\<lparr>tm_revision := 0\<rparr> = absorb A m1 (fst ?t) (snd ?t)"
    using Cons.IH [OF m1(2)] p by auto
  have "absorb A m1 (fst ?t) (snd ?t) = absorb A (absorb A m (fst ?s) (snd ?s)) (fst ?t) (snd ?t)"
    using m1(3) absorb_revision [of A 0 m1] by simp
  also have "\<dots> = absorb A m (fst ?s @ fst ?t) (snd ?t)"
    using Cons.prems assms(2) by (simp add: absorb_append tm_inv_def)
  finally have "m2\<lparr>tm_revision := 0\<rparr> = absorb A m (fst ?s @ fst ?t) (snd ?t)" using m2(3) by simp
  moreover have "utf8_scan (pending (tm_utf8 m) @ concat (c # cs)) = (fst ?s @ fst ?t, snd ?t)"
    using utf8_scan_append [of "pending (tm_utf8 m) @ c" "concat cs"] by (simp add: apfst_def map_prod_def split: prod.splits)
  ultimately show ?case using m1(1) m2(1,2) by simp
qed

section \<open>Runs\<close>

datatype tm_event = Feed bytes | Resize nat nat

fun tm_run :: "'vt avt_ops \<Rightarrow> 'vt terminal_model \<Rightarrow> tm_event list \<Rightarrow> 'vt terminal_model option" where
  "tm_run A m [] = Some m"
| "tm_run A m (Feed bs # es) =
     (case tm_feed A m bs of None \<Rightarrow> None | Some (m', _) \<Rightarrow> tm_run A m' es)"
| "tm_run A m (Resize c r # es) = tm_run A (fst (tm_resize A m c r)) es"

fun last_size :: "nat \<times> nat \<Rightarrow> tm_event list \<Rightarrow> nat \<times> nat" where
  "last_size s [] = s"
| "last_size s (Feed bs # es) = last_size s es"
| "last_size s (Resize c r # es) = last_size (max c MIN_COLS, max r MIN_ROWS) es"

lemma tm_run_total:
  "tm_inv m \<Longrightarrow> \<exists>m'. tm_run A m es = Some m' \<and> tm_inv m' \<and> tm_size m' = last_size (tm_size m) es
     \<and> tm_revision m \<le> tm_revision m'"
proof (induction es arbitrary: m)
  case (Cons e es)
  show ?case
  proof (cases e)
    case (Feed bs)
    obtain m1 rev where "tm_feed A m bs = Some (m1, rev)" "tm_inv m1" "tm_size m1 = tm_size m"
        "tm_revision m \<le> tm_revision m1"
      using tm_feed_total [OF Cons.prems] by blast
    then show ?thesis using Cons.IH [of m1] Feed by fastforce
  next
    case (Resize c r)
    have "tm_revision m \<le> tm_revision (fst (tm_resize A m c r))"
      by (auto simp: tm_resize_def Let_def split: prod.splits)
    then show ?thesis using Cons.IH [OF tm_resize_inv [OF Cons.prems], of A c r] Resize
      by (fastforce simp: tm_resize_size)
  qed
qed simp

section \<open>Properties\<close>



text \<open>An emulator that scrolls every completed line straight out of its one-line screen.\<close>

fun drain_lines :: "rstring \<Rightarrow> rstring \<Rightarrow> rstring \<times> rstring list" where
  "drain_lines cur [] = (cur, [])"
| "drain_lines cur (c # s) =
     (if c = 10 then apsnd (Cons cur) (drain_lines [] s) else drain_lines (cur @ [c]) s)"

definition line_avt :: "rstring avt_ops" where
  "line_avt = \<lparr>avt_build = (\<lambda>_ _. []), avt_feed_str = drain_lines, avt_resize = (\<lambda>v _ _. (v, [])),
               avt_dump = id, avt_view = (\<lambda>v. [v])\<rparr>"

lemma drain_lines_append:
  "drain_lines v (s @ t) = (case drain_lines v s of (v1, e1) \<Rightarrow>
     case drain_lines v1 t of (v2, e2) \<Rightarrow> (v2, e1 @ e2))"
  by (induction v s rule: drain_lines.induct) (auto split: prod.splits)

lemma line_avt_streaming: "avt_streaming line_avt"
  by (simp add: avt_streaming_def line_avt_def drain_lines_append)


end
