(* ===== verification/Framing.thy ===== *)
theory Framing
  imports Prelude
begin

text \<open>
  The reliable-stream framing of \<open>crates/protocol/src/framing.rs\<close>: a frame is a \<open>u32\<close>
  big-endian length followed by a protobuf message. The protobuf codec of the generated code
  is a parameter: \<open>enc\<close> for \<open>Message::encode\<close> (with \<open>encoded_len m = length (enc m)\<close>) and
  \<open>dec\<close> for \<open>Message::decode\<close>, with \<open>None\<close> for a decode error.

  The receive loop that transports run (extend with one read, then pop frames until none is
  complete) is compared with \<open>parse_stream\<close>, which reads the whole byte stream at once.
\<close>

unbundle bit_operations_syntax

section \<open>Constants of the protocol crate\<close>

definition PROTOCOL_MAJOR :: u32 where "PROTOCOL_MAJOR = 0"
definition PROTOCOL_MINOR :: u32 where "PROTOCOL_MINOR = 3"
definition TCP_FORWARD_PROTOCOL_MINOR :: u32 where "TCP_FORWARD_PROTOCOL_MINOR = 3"
definition FORWARD_DATA_BYTES_MAX :: nat where "FORWARD_DATA_BYTES_MAX = 8 * 1024"
definition FILE_TRANSFER_PROTOCOL_MINOR :: u32 where "FILE_TRANSFER_PROTOCOL_MINOR = 2"
definition UPLOAD_CHUNK_BYTES_MAX :: nat where "UPLOAD_CHUNK_BYTES_MAX = 64 * 1024"
definition UPLOAD_FILE_BYTES_DEFAULT :: u64 where "UPLOAD_FILE_BYTES_DEFAULT = 256 * 1024 * 1024"
definition UPLOAD_FILE_BYTES_HARD_MAX :: u64 where
  "UPLOAD_FILE_BYTES_HARD_MAX = 4 * 1024 * 1024 * 1024"
definition UPLOAD_ORIGINAL_NAME_BYTES_MAX :: nat where "UPLOAD_ORIGINAL_NAME_BYTES_MAX = 255"
definition UPLOAD_ID_BYTES :: nat where "UPLOAD_ID_BYTES = 16"
definition UPLOAD_SHA256_BYTES :: nat where "UPLOAD_SHA256_BYTES = 32"
definition UPLOAD_ABORT_REASON_BYTES_MAX :: nat where "UPLOAD_ABORT_REASON_BYTES_MAX = 128"
definition FRAME_BYTES_CEILING :: u32 where "FRAME_BYTES_CEILING = 1024 * 1024"
definition FRAME_BYTES_DEFAULT :: u32 where "FRAME_BYTES_DEFAULT = 256 * 1024"
definition FRAME_BYTES_FLOOR :: u32 where "FRAME_BYTES_FLOOR = 16 * 1024"

definition LENGTH_PREFIX_BYTES :: nat where "LENGTH_PREFIX_BYTES = 4"

section \<open>Big-endian lengths\<close>

definition to_be_bytes :: "u32 \<Rightarrow> bytes" where
  "to_be_bytes w = [ucast (drop_bit 24 w), ucast (drop_bit 16 w), ucast (drop_bit 8 w), ucast w]"

definition from_be_bytes :: "bytes \<Rightarrow> u32" where
  "from_be_bytes bs = foldl (\<lambda>w b. push_bit 8 w OR ucast b) 0 bs"

lemma from_to_be_bytes [simp]: "from_be_bytes (to_be_bytes w) = w"
proof (rule bit_word_eqI)
  fix n
  assume "n < LENGTH(32)"
  then show "bit (from_be_bytes (to_be_bytes w)) n \<longleftrightarrow> bit w n"
    by (cases "16 \<le> n") (auto simp: from_be_bytes_def to_be_bytes_def bit_simps)
qed

lemma length_to_be_bytes [simp]: "length (to_be_bytes w) = 4"
  by (simp add: to_be_bytes_def)

section \<open>Encoding\<close>

datatype frame_error = TooLarge u32 u32 | Decode | EncodeTooLarge u32

definition encode_delimited :: "('m \<Rightarrow> bytes) \<Rightarrow> 'm \<Rightarrow> u32 \<Rightarrow> frame_error + bytes" where
  "encode_delimited enc message max_frame_bytes =
     (let len = length (enc message) in
      if len > unat max_frame_bytes then Err (EncodeTooLarge max_frame_bytes)
      else Ok (to_be_bytes (of_nat len) @ enc message))"

definition encode_frame :: "('m \<Rightarrow> bytes) \<Rightarrow> 'm \<Rightarrow> u32 \<Rightarrow> frame_error + bytes" where
  "encode_frame enc envelope max_frame_bytes = encode_delimited enc envelope max_frame_bytes"

definition encode_agent_frame :: "('m \<Rightarrow> bytes) \<Rightarrow> 'm \<Rightarrow> u32 \<Rightarrow> frame_error + bytes" where
  "encode_agent_frame enc envelope max_frame_bytes = encode_delimited enc envelope max_frame_bytes"

definition decode_agent_payload :: "(bytes \<Rightarrow> 'm option) \<Rightarrow> bytes \<Rightarrow> frame_error + 'm" where
  "decode_agent_payload dec payload =
     (case dec payload of None \<Rightarrow> Err Decode | Some m \<Rightarrow> Ok m)"

definition checked_payload_len :: "bytes \<Rightarrow> u32 \<Rightarrow> frame_error + nat" where
  "checked_payload_len header maximum =
     (let len = from_be_bytes header in
      if len > maximum then Err (TooLarge len maximum) else Ok (unat len))"

section \<open>The incremental decoder\<close>

record frame_decoder =
  fd_max :: u32
  fd_buf :: bytes

definition decoder_new :: "u32 \<Rightarrow> frame_decoder" where
  "decoder_new m = \<lparr>fd_max = m, fd_buf = []\<rparr>"

definition check_header :: "frame_decoder \<Rightarrow> frame_error + unit" where
  "check_header d =
     (if length (fd_buf d) \<ge> LENGTH_PREFIX_BYTES then
        (let len = from_be_bytes (take LENGTH_PREFIX_BYTES (fd_buf d)) in
         if len > fd_max d then Err (TooLarge len (fd_max d)) else Ok ())
      else Ok ())"

definition extend :: "frame_decoder \<Rightarrow> bytes \<Rightarrow> frame_decoder \<times> (frame_error + unit)" where
  "extend d bs =
     (if length (fd_buf d) < LENGTH_PREFIX_BYTES then
        (let header_bytes = min (LENGTH_PREFIX_BYTES - length (fd_buf d)) (length bs);
             d1 = d\<lparr>fd_buf := fd_buf d @ take header_bytes bs\<rparr>
         in case check_header d1 of
              Inl e \<Rightarrow> (d1, Err e)
            | Inr _ \<Rightarrow>
                (let d2 = d1\<lparr>fd_buf := fd_buf d1 @ drop header_bytes bs\<rparr> in (d2, check_header d2)))
      else
        (case check_header d of
           Inl e \<Rightarrow> (d, Err e)
         | Inr _ \<Rightarrow> (let d2 = d\<lparr>fd_buf := fd_buf d @ bs\<rparr> in (d2, check_header d2))))"

definition next_frame ::
  "(bytes \<Rightarrow> 'm option) \<Rightarrow> frame_decoder \<Rightarrow> frame_decoder \<times> (frame_error + 'm option)" where
  "next_frame dec d =
     (case check_header d of
        Inl e \<Rightarrow> (d, Err e)
      | Inr _ \<Rightarrow>
          if length (fd_buf d) < LENGTH_PREFIX_BYTES then (d, Ok None)
          else
            (let len = unat (from_be_bytes (take LENGTH_PREFIX_BYTES (fd_buf d))) in
             if length (fd_buf d) < LENGTH_PREFIX_BYTES + len then (d, Ok None)
             else
               (let rest = drop LENGTH_PREFIX_BYTES (fd_buf d);
                    payload = take len rest;
                    d' = d\<lparr>fd_buf := drop len rest\<rparr>
                in case dec payload of
                     None \<Rightarrow> (d', Err Decode)
                   | Some m \<Rightarrow> (d', Ok (Some m)))))"

definition buffered :: "frame_decoder \<Rightarrow> nat" where
  "buffered d = length (fd_buf d)"

text \<open>
  The receive loop of a stream transport: every read is appended, then complete frames are
  popped until none is left; the first error ends the stream.
\<close>

function drain ::
  "(bytes \<Rightarrow> 'm option) \<Rightarrow> frame_decoder \<Rightarrow> 'm list \<times> (frame_error + frame_decoder)" where
  "drain dec d =
     (case next_frame dec d of
        (d', Inl e) \<Rightarrow> ([], Err e)
      | (d', Inr None) \<Rightarrow> ([], Ok d')
      | (d', Inr (Some m)) \<Rightarrow> apfst ((#) m) (drain dec d'))"
  by pat_completeness auto

lemma next_frame_shrinks: "next_frame dec d = (d', Ok (Some m)) \<Longrightarrow> buffered d' < buffered d"
  by (auto simp: next_frame_def buffered_def Let_def LENGTH_PREFIX_BYTES_def
      split: sum.splits if_splits option.splits)

termination drain
  by (relation "measure (\<lambda>(dec, d). buffered d)") (auto dest: next_frame_shrinks [OF sym])

declare drain.simps [simp del]

fun receive_all ::
  "(bytes \<Rightarrow> 'm option) \<Rightarrow> frame_decoder \<Rightarrow> bytes list \<Rightarrow> 'm list \<times> (frame_error + frame_decoder)"
where
  "receive_all dec d [] = ([], Ok d)"
| "receive_all dec d (c # cs) =
     (case extend d c of
        (d1, Inl e) \<Rightarrow> ([], Err e)
      | (d1, Inr _) \<Rightarrow>
          (case drain dec d1 of
             (ms, Inl e) \<Rightarrow> (ms, Err e)
           | (ms, Inr d2) \<Rightarrow> apfst ((@) ms) (receive_all dec d2 cs)))"

section \<open>The reference parser\<close>

function parse_stream ::
  "(bytes \<Rightarrow> 'm option) \<Rightarrow> u32 \<Rightarrow> bytes \<Rightarrow> 'm list \<times> (frame_error + bytes)" where
  "parse_stream dec mx bs =
     (if length bs < 4 then ([], Ok bs)
      else
        (let len = from_be_bytes (take 4 bs) in
         if len > mx then ([], Err (TooLarge len mx))
         else if length bs < 4 + unat len then ([], Ok bs)
         else
           (case dec (take (unat len) (drop 4 bs)) of
              None \<Rightarrow> ([], Err Decode)
            | Some m \<Rightarrow> apfst ((#) m) (parse_stream dec mx (drop (4 + unat len) bs)))))"
  by pat_completeness auto

termination parse_stream
  by (relation "measure (\<lambda>(dec, mx, bs). length bs)") auto

declare parse_stream.simps [simp del]

lemma drain_parse:
  "drain dec d =
     (case parse_stream dec (fd_max d) (fd_buf d) of
        (ms, Inl e) \<Rightarrow> (ms, Err e)
      | (ms, Inr rest) \<Rightarrow> (ms, Ok (d\<lparr>fd_buf := rest\<rparr>)))"
proof (induction dec d rule: drain.induct)
  case (1 dec d)
  show ?case
    apply (subst drain.simps)
    apply (subst parse_stream.simps)
    using 1
    by (auto simp: next_frame_def check_header_def Let_def LENGTH_PREFIX_BYTES_def add.commute
        split: option.splits sum.splits prod.splits)
qed

text \<open>A buffer that starts no oversized frame: what every state between two reads satisfies.\<close>

definition header_ok :: "u32 \<Rightarrow> bytes \<Rightarrow> bool" where
  "header_ok mx bs \<longleftrightarrow> 4 \<le> length bs \<longrightarrow> from_be_bytes (take 4 bs) \<le> mx"

lemma extend_cases:
  "header_ok (fd_max d) (fd_buf d) \<Longrightarrow>
   (if header_ok (fd_max d) (fd_buf d @ c) then extend d c = (d\<lparr>fd_buf := fd_buf d @ c\<rparr>, Ok ())
    else length (fd_buf d) < 4 \<and>
      extend d c = (d\<lparr>fd_buf := take 4 (fd_buf d @ c)\<rparr>,
        Err (TooLarge (from_be_bytes (take 4 (fd_buf d @ c))) (fd_max d))))"
  by (auto simp: extend_def check_header_def header_ok_def Let_def LENGTH_PREFIX_BYTES_def min_def)

lemma apfst_Cons_append: "apfst ((#) m) (apfst ((@) a) p) = apfst ((@) (m # a)) p"
  by (cases p) simp

lemma apfst_Cons_eq: "apfst ((#) m) p = (ms, r) \<longleftrightarrow> (\<exists>ms'. p = (ms', r) \<and> ms = m # ms')"
  by (cases p) auto

definition frame_waits :: "u32 \<Rightarrow> bytes \<Rightarrow> bool" where
  "frame_waits mx bs \<longleftrightarrow> length bs < 4 \<or>
     (from_be_bytes (take 4 bs) \<le> mx \<and> length bs < 4 + unat (from_be_bytes (take 4 bs)))"

lemma parse_stream_waits: "frame_waits mx bs \<Longrightarrow> parse_stream dec mx bs = ([], Ok bs)"
  by (subst parse_stream.simps) (auto simp: Let_def not_less frame_waits_def)

lemma parse_stream_bad_header:
  "\<not> header_ok mx bs \<Longrightarrow> parse_stream dec mx bs = ([], Err (TooLarge (from_be_bytes (take 4 bs)) mx))"
  by (subst parse_stream.simps) (auto simp: header_ok_def Let_def not_le)

lemma parse_stream_full:
  assumes "from_be_bytes (take 4 bs) = n" and "n \<le> mx" and "4 + unat n \<le> length bs"
  shows "parse_stream dec mx bs =
     (case dec (take (unat n) (drop 4 bs)) of
        None \<Rightarrow> ([], Err Decode)
      | Some m \<Rightarrow> apfst ((#) m) (parse_stream dec mx (drop (4 + unat n) bs)))"
  using assms by (subst parse_stream.simps) (auto simp: Let_def not_less)

lemma frame_cases:
  "frame_waits mx bs \<or> \<not> header_ok mx bs \<or>
     (from_be_bytes (take 4 bs) \<le> mx \<and> 4 + unat (from_be_bytes (take 4 bs)) \<le> length bs)"
  by (auto simp: frame_waits_def header_ok_def)

lemma parse_stream_append:
  "parse_stream dec mx (bs @ c) =
     (case parse_stream dec mx bs of
        (ms, Inl e) \<Rightarrow> (ms, Err e)
      | (ms, Inr rest) \<Rightarrow> apfst ((@) ms) (parse_stream dec mx (rest @ c)))"
proof (induction "length bs" arbitrary: bs rule: less_induct)
  case less
  let ?len = "from_be_bytes (take 4 bs)"
  consider "frame_waits mx bs" | "\<not> header_ok mx bs" | "?len \<le> mx" "4 + unat ?len \<le> length bs"
    using frame_cases by blast
  then show ?case
  proof cases
    case 1
    then show ?thesis by (simp add: parse_stream_waits)
  next
    case 2
    then have "\<not> header_ok mx (bs @ c)" by (simp add: header_ok_def)
    with 2 show ?thesis by (simp add: parse_stream_bad_header header_ok_def)
  next
    case 3
    then have "length (drop (4 + unat ?len) bs) < length bs" by simp
    note IH = less [OF this]
    have "parse_stream dec mx (bs @ c) =
        (case dec (take (unat ?len) (drop 4 bs)) of
           None \<Rightarrow> ([], Err Decode)
         | Some m \<Rightarrow> apfst ((#) m) (parse_stream dec mx (drop (4 + unat ?len) bs @ c)))"
      using parse_stream_full [of "bs @ c" ?len mx dec] 3 by (simp cong: option.case_cong)
    then show ?thesis
      using parse_stream_full [OF refl 3, of dec] IH
      by (auto split: option.splits prod.splits sum.splits simp: apfst_Cons_eq apfst_Cons_append)
  qed
qed

lemma parse_stream_rest:
  "parse_stream dec mx bs = (ms, Ok rest) \<Longrightarrow> frame_waits mx rest"
proof (induction "length bs" arbitrary: bs ms rule: less_induct)
  case less
  let ?len = "from_be_bytes (take 4 bs)"
  consider "frame_waits mx bs" | "\<not> header_ok mx bs" | "?len \<le> mx" "4 + unat ?len \<le> length bs"
    using frame_cases by blast
  then show ?case
  proof cases
    case 3
    then have "length (drop (4 + unat ?len) bs) < length bs" by simp
    note IH = less.hyps [OF this]
    from less.prems show ?thesis
      unfolding parse_stream_full [OF refl 3]
      by (auto simp: apfst_Cons_eq split: option.splits intro: IH)
  qed (use less.prems in \<open>auto simp: parse_stream_waits parse_stream_bad_header\<close>)
qed

lemma frame_waits_bounds:
  assumes "frame_waits mx bs"
  shows "header_ok mx bs" and "length bs < 4 + unat mx"
  using assms by (auto simp: frame_waits_def header_ok_def word_le_nat_alt)

lemma receive_all_parse:
  assumes "frame_waits (fd_max d) (fd_buf d)"
  shows "receive_all dec d cs =
     (case parse_stream dec (fd_max d) (fd_buf d @ concat cs) of
        (ms, Inl e) \<Rightarrow> (ms, Err e)
      | (ms, Inr rest) \<Rightarrow> (ms, Ok (d\<lparr>fd_buf := rest\<rparr>)))"
  using assms
proof (induction cs arbitrary: d)
  case Nil
  then show ?case by (simp add: parse_stream_waits)
next
  case (Cons c cs)
  let ?mx = "fd_max d"
  note ok = frame_waits_bounds(1) [OF Cons.prems]
  have app: "parse_stream dec ?mx (fd_buf d @ c @ concat cs) =
     (case parse_stream dec ?mx (fd_buf d @ c) of
        (ms, Inl e) \<Rightarrow> (ms, Err e)
      | (ms, Inr rest) \<Rightarrow> apfst ((@) ms) (parse_stream dec ?mx (rest @ concat cs)))"
    using parse_stream_append [of dec ?mx "fd_buf d @ c" "concat cs"] by simp
  show ?case
  proof (cases "header_ok ?mx (fd_buf d @ c)")
    case False
    then show ?thesis
      using extend_cases [OF ok, of c] app parse_stream_bad_header [OF False, of dec] by auto
  next
    case True
    obtain ms r where p: "parse_stream dec ?mx (fd_buf d @ c) = (ms, r)" by fastforce
    have e: "extend d c = (d\<lparr>fd_buf := fd_buf d @ c\<rparr>, Ok ())"
      using True extend_cases [OF ok, of c] by simp
    show ?thesis
    proof (cases r)
      case (Inl err)
      then show ?thesis using app p by (simp add: e drain_parse)
    next
      case (Inr rest)
      note p' = p [unfolded Inr]
      have "receive_all dec (d\<lparr>fd_buf := rest\<rparr>) cs =
          (case parse_stream dec ?mx (rest @ concat cs) of
             (ms, Inl e) \<Rightarrow> (ms, Err e) | (ms, Inr rest) \<Rightarrow> (ms, Ok (d\<lparr>fd_buf := rest\<rparr>)))"
        using Cons.IH [of "d\<lparr>fd_buf := rest\<rparr>"] parse_stream_rest [OF p'] by simp
      then show ?thesis using app p'
        by (auto simp: e drain_parse split: prod.splits sum.splits)
    qed
  qed
qed

lemma parse_stream_frame:
  assumes "dec (enc m) = Some m" and "encode_frame enc m mx = Ok f"
  shows "parse_stream dec mx (f @ bs) = apfst ((#) m) (parse_stream dec mx bs)"
proof -
  let ?n = "length (enc m)"
  have f: "f = to_be_bytes (of_nat ?n) @ enc m" and n: "?n \<le> unat mx"
    using assms(2) by (auto simp: encode_frame_def encode_delimited_def Let_def split: if_splits)
  have u: "unat (of_nat ?n :: u32) = ?n"
    using n unsigned_less [of mx, where 'a = nat] by (simp add: unat_of_nat)
  then have "(of_nat ?n :: u32) \<le> mx" using n by (simp add: word_le_nat_alt)
  then show ?thesis
    using assms(1) u by (subst parse_stream.simps) (simp add: f Let_def not_less [symmetric])
qed

lemma parse_stream_frames:
  assumes "\<And>m. dec (enc m) = Some m"
    and "list_all2 (\<lambda>m f. encode_frame enc m mx = Ok f) ms fs"
  shows "parse_stream dec mx (concat fs) = (ms, Ok [])"
  using assms(2)
proof (induction rule: list_all2_induct)
  case Nil
  then show ?case by (subst parse_stream.simps) simp
next
  case (Cons m ms f fs)
  then show ?case using parse_stream_frame [of dec enc m mx f] assms(1) by simp
qed

section \<open>Properties\<close>

text \<open>
  (C36) Framing does not depend on how the transport cuts the stream: whatever bytes arrive,
  hostile ones included, and however they are split into reads, the receive loop yields the
  envelopes of the reference parse of the whole stream and stops with the same error, or with
  the same undecoded remainder in the buffer, which stays below one maximal frame.
\<close>

theorem receive_chunking:
  "receive_all dec (decoder_new mx) cs =
     (case parse_stream dec mx (concat cs) of
        (ms, Inl e) \<Rightarrow> (ms, Err e)
      | (ms, Inr rest) \<Rightarrow> (ms, Ok \<lparr>fd_max = mx, fd_buf = rest\<rparr>))
   \<and> (case snd (receive_all dec (decoder_new mx) cs) of
        Inl _ \<Rightarrow> True
      | Inr d \<Rightarrow> buffered d < LENGTH_PREFIX_BYTES + unat mx)"
proof -
  let ?d = "decoder_new mx"
  have "frame_waits (fd_max ?d) (fd_buf ?d)" by (simp add: decoder_new_def frame_waits_def)
  note r = receive_all_parse [OF this, of dec cs]
  have r': "receive_all dec ?d cs =
     (case parse_stream dec mx (concat cs) of
        (ms, Inl e) \<Rightarrow> (ms, Err e)
      | (ms, Inr rest) \<Rightarrow> (ms, Ok \<lparr>fd_max = mx, fd_buf = rest\<rparr>))"
    using r by (simp add: decoder_new_def split: prod.splits sum.splits)
  show ?thesis
    using r' frame_waits_bounds(2) [OF parse_stream_rest, of dec mx "concat cs"]
    by (auto simp: buffered_def LENGTH_PREFIX_BYTES_def split: prod.splits sum.splits)
qed

text \<open>
  What is framed arrives: for a codec that decodes its own encodings, the frames of any
  list of envelopes, concatenated and cut into reads at arbitrary places, are received as
  exactly those envelopes in order, with nothing left in the buffer.
\<close>

theorem frame_roundtrip:
  assumes "\<And>m. dec (enc m) = Some m"
    and "list_all2 (\<lambda>m f. encode_frame enc m mx = Ok f) ms fs"
    and "concat cs = concat fs"
  shows "receive_all dec (decoder_new mx) cs = (ms, Ok (decoder_new mx))"
proof -
  have "frame_waits (fd_max (decoder_new mx)) (fd_buf (decoder_new mx))"
    by (simp add: decoder_new_def frame_waits_def)
  from receive_all_parse [OF this, of dec cs] show ?thesis
    using parse_stream_frames [OF assms(1,2)] assms(3) by (simp add: decoder_new_def)
qed

theorem frame_roundtrip_witness:
  "receive_all Some (decoder_new 8) [[0, 0], [0, 2, 7], [9, 0, 0], [0, 1], [5]]
     = ([[7, 9], [5]], Ok (decoder_new 8))"
proof (rule frame_roundtrip)
  show "list_all2 (\<lambda>m f. encode_frame id m 8 = Ok f) [[7, 9], [5 :: u8]]
      [[0, 0, 0, 2, 7, 9], [0, 0, 0, 1, 5]]"
    by (simp add: encode_frame_def encode_delimited_def to_be_bytes_def)
qed simp_all

text \<open>
  An oversized length header is rejected before its payload is buffered: in a state
  between reads, a read that completes such a header fails with the announced length, and the
  decoder holds the four header bytes and not one byte of the payload, however much of it the
  same read carried; any other read is appended in full.
\<close>

theorem extend_rejects_early:
  assumes "frame_waits (fd_max d) (fd_buf d)"
  shows "if header_ok (fd_max d) (fd_buf d @ c)
    then extend d c = (d\<lparr>fd_buf := fd_buf d @ c\<rparr>, Ok ())
    else \<exists>d'. extend d c = (d', Err (TooLarge (from_be_bytes (take 4 (fd_buf d @ c))) (fd_max d)))
      \<and> fd_buf d' = take 4 (fd_buf d @ c) \<and> buffered d' = LENGTH_PREFIX_BYTES"
  using extend_cases [OF frame_waits_bounds(1) [OF assms], of c] frame_waits_bounds(2) [OF assms]
  by (auto simp: buffered_def LENGTH_PREFIX_BYTES_def header_ok_def split: if_splits)

theorem extend_rejects_early_witness:
  "\<exists>d'. extend \<lparr>fd_max = 4, fd_buf = [0]\<rparr> [0, 0, 5, 1, 2, 3] = (d', Err (TooLarge 5 4))
      \<and> fd_buf d' = [0, 0, 0, 5] \<and> buffered d' = LENGTH_PREFIX_BYTES"
  using extend_rejects_early [of "\<lparr>fd_max = 4, fd_buf = [0]\<rparr>" "[0, 0, 5, 1, 2, 3]"]
  by (simp add: frame_waits_def header_ok_def from_be_bytes_def)

end
