(* ===== verification/Wire.thy ===== *)
theory Wire
  imports Framing
begin

text \<open>
  The WebSocket mapping of \<open>crates/daemon/src/wire.rs\<close>: a binary message is an unsigned
  LEB128 channel number followed by exactly one frame. The protobuf codec is the parameter of
  the theory of framing.
\<close>

section \<open>Channel prefixes\<close>

function encode_varint :: "u64 \<Rightarrow> bytes" where
  "encode_varint v =
     (let byte = ucast (v AND 0x7f) :: u8; v' = drop_bit 7 v in
      if v' \<noteq> 0 then (byte OR 0x80) # encode_varint v' else [byte])"
  by pat_completeness auto

lemma unat_drop_bit_7: "unat (drop_bit 7 (v :: u64)) = unat v div 128"
  by (simp add: drop_bit_eq_div unat_div)

termination encode_varint
proof (relation "measure unat")
  fix byte :: u8 and v v' :: u64
  assume "byte = ucast (v AND 0x7f)" "v' = drop_bit 7 v" "v' \<noteq> 0"
  moreover have "unat v' \<noteq> 0" using \<open>v' \<noteq> 0\<close> by (simp add: unat_eq_0)
  ultimately show "(v', v) \<in> measure unat"
    using unat_drop_bit_7 [of v] by simp
qed simp

declare encode_varint.simps [simp del]

fun varint_loop :: "bytes \<Rightarrow> u64 \<Rightarrow> nat \<Rightarrow> nat \<Rightarrow> (u64 \<times> nat) option" where
  "varint_loop [] value shift i = None"
| "varint_loop (byte # bs) value shift i =
     (if shift \<ge> 64 then None
      else
        (let value' = value OR push_bit shift (ucast (byte AND 0x7f)) in
         if byte AND 0x80 = 0 then Some (value', i + 1)
         else varint_loop bs value' (shift + 7) (i + 1)))"

definition decode_varint :: "bytes \<Rightarrow> (u64 \<times> nat) option" where
  "decode_varint bs = varint_loop bs 0 0 0"

lemma word_0x7f: "(0x7f :: 'a :: len word) = mask 7"
  by (simp add: mask_eq_exp_minus_1)

lemma bit_0x80: "bit (0x80 :: int) n \<longleftrightarrow> n = 7"
proof -
  have "(0x80 :: int) = push_bit 7 1" by simp
  then show ?thesis unfolding \<open>0x80 = push_bit 7 1\<close> bit_push_bit_iff by (auto simp: bit_1_iff)
qed

lemma varint_byte:
  fixes v :: u64
  shows "(ucast (v AND 0x7f) :: u8) AND 0x80 = 0"
    and "((ucast (v AND 0x7f) :: u8) OR 0x80) AND 0x80 \<noteq> 0"
    and "ucast ((ucast (v AND 0x7f) :: u8) AND 0x7f) = v AND 0x7f"
    and "ucast (((ucast (v AND 0x7f) :: u8) OR 0x80) AND 0x7f) = v AND 0x7f"
proof -
  show "(ucast (v AND 0x7f) :: u8) AND 0x80 = 0"
    unfolding word_0x7f by (rule bit_word_eqI) (auto simp: bit_and_iff bit_unsigned_iff bit_mask_iff bit_0x80)
  have "bit (((ucast (v AND 0x7f) :: u8) OR 0x80) AND 0x80) 7"
    by (simp add: bit_simps bit_0x80)
  then show "((ucast (v AND 0x7f) :: u8) OR 0x80) AND 0x80 \<noteq> 0"
    by (metis bit_0_eq bot_apply bot_bool_def)
  show "ucast ((ucast (v AND 0x7f) :: u8) AND 0x7f) = v AND 0x7f"
    unfolding word_0x7f by (rule bit_word_eqI) (auto simp: bit_simps)
  show "ucast (((ucast (v AND 0x7f) :: u8) OR 0x80) AND 0x7f) = v AND 0x7f"
    unfolding word_0x7f by (rule bit_word_eqI)
      (auto simp: bit_and_iff bit_or_iff bit_unsigned_iff bit_mask_iff bit_0x80)
qed

lemma varint_glue:
  "push_bit s (v AND 0x7f) OR push_bit (s + 7) (drop_bit 7 v) = push_bit s (v :: u64)"
proof (rule bit_word_eqI)
  fix n
  assume "n < LENGTH(64)"
  then show "bit (push_bit s (v AND 0x7f) OR push_bit (s + 7) (drop_bit 7 v)) n \<longleftrightarrow> bit (push_bit s v) n"
    unfolding word_0x7f by (cases "s + 7 \<le> n") (auto simp: bit_simps)
qed

lemma varint_small:
  assumes "drop_bit 7 v = (0 :: u64)"
  shows "v AND 0x7f = v"
proof -
  have "push_bit 0 (v AND 0x7f) OR push_bit (0 + 7) (drop_bit 7 v) = push_bit 0 v" by (rule varint_glue)
  then show ?thesis using assms by simp
qed

lemma varint_loop_encode:
  "shift < 64 \<Longrightarrow> unat v < 2 ^ (64 - shift) \<Longrightarrow>
   varint_loop (encode_varint v @ rest) value shift i
     = Some (value OR push_bit shift v, i + length (encode_varint v))"
proof (induction v arbitrary: "value" shift i rule: encode_varint.induct)
  case (1 v)
  show ?case
  proof (cases "drop_bit 7 v = 0")
    case True
    then have "encode_varint v = [ucast (v AND 0x7f)]" by (subst encode_varint.simps) (simp add: Let_def)
    then show ?thesis
      using 1(2) varint_byte(1,3) [of v] by (simp add: Let_def varint_small [OF True])
  next
    case False
    have big: "128 \<le> unat v" using False unat_drop_bit_7 [of v] by (metis div_less not_le unat_eq_0)
    have s: "shift + 7 < 64"
    proof (rule ccontr)
      assume "\<not> shift + 7 < 64"
      then have "(2 :: nat) ^ (64 - shift) \<le> 2 ^ 7" by (intro power_increasing) auto
      then show False using big 1(3) by simp
    qed
    have "unat v div 128 < 2 ^ (64 - (shift + 7))"
    proof -
      have "(2 :: nat) ^ (64 - shift) = 2 ^ (64 - (shift + 7)) * 128"
      proof -
        have "64 - shift = 64 - (shift + 7) + 7" using s by simp
        then show ?thesis by (simp only: power_add) simp
      qed
      then show ?thesis using 1(3) by (metis less_mult_imp_div_less)
    qed
    then have f: "unat (drop_bit 7 v) < 2 ^ (64 - (shift + 7))" by (simp add: unat_drop_bit_7)
    note IH = 1(1) [OF refl refl False s f]
    have g: "(value OR push_bit shift (v AND 0x7f)) OR push_bit (shift + 7) (drop_bit 7 v)
        = value OR push_bit shift v"
      by (simp only: or.assoc varint_glue)
    have e: "encode_varint v = (ucast (v AND 0x7f) OR 0x80) # encode_varint (drop_bit 7 v)"
      using False by (subst encode_varint.simps) (simp add: Let_def)
    show ?thesis
      using 1(2) IH g by (simp add: e Let_def varint_byte)
  qed
qed

lemma decode_encode_varint:
  "decode_varint (encode_varint v @ rest) = Some (v, length (encode_varint v))"
  using varint_loop_encode [of 0 v rest 0 0] unsigned_less [of v, where 'a = nat]
  by (simp add: decode_varint_def)

lemma varint_loop_used:
  "varint_loop bs value shift i = Some (v, used) \<Longrightarrow> i < used \<and> used \<le> i + length bs \<and> shift + 7 * (used - i) < 71"
  by (induction bs "value" shift i rule: varint_loop.induct) (fastforce simp: Let_def split: if_splits)+

lemma encode_varint_length: "1 \<le> length (encode_varint v) \<and> length (encode_varint v) \<le> 10"
  using varint_loop_used [of "encode_varint v" 0 0 0] decode_encode_varint [of v "[]"]
  by (simp add: decode_varint_def Suc_le_eq)

section \<open>Messages\<close>

datatype wire_error = BadVarint | Frame frame_error | NotExactlyOneFrame

definition encode_message :: "('m \<Rightarrow> bytes) \<Rightarrow> u64 \<Rightarrow> 'm \<Rightarrow> u32 \<Rightarrow> wire_error + bytes" where
  "encode_message enc channel envelope mx =
     (case encode_frame enc envelope mx of
        Inl e \<Rightarrow> Err (Frame e)
      | Inr frame \<Rightarrow> Ok (encode_varint channel @ frame))"

definition decode_message :: "(bytes \<Rightarrow> 'm option) \<Rightarrow> bytes \<Rightarrow> u32 \<Rightarrow> wire_error + (u64 \<times> 'm)" where
  "decode_message dec data mx =
     (case decode_varint data of
        None \<Rightarrow> Err BadVarint
      | Some (channel, used) \<Rightarrow>
          (case extend (decoder_new mx) (drop used data) of
             (d1, Inl e) \<Rightarrow> Err (Frame e)
           | (d1, Inr _) \<Rightarrow>
               (case next_frame dec d1 of
                  (d2, Inl e) \<Rightarrow> Err (Frame e)
                | (d2, Inr None) \<Rightarrow> Err NotExactlyOneFrame
                | (d2, Inr (Some envelope)) \<Rightarrow>
                    if buffered d2 \<noteq> 0 then Err NotExactlyOneFrame else Ok (channel, envelope))))"

text \<open>One frame and nothing else.\<close>

definition one_frame :: "u32 \<Rightarrow> bytes \<Rightarrow> bytes \<Rightarrow> bool" where
  "one_frame mx payload bs \<longleftrightarrow> length payload \<le> unat mx \<and> bs = to_be_bytes (of_nat (length payload)) @ payload"

lemma to_from_be_bytes: "length bs = 4 \<Longrightarrow> to_be_bytes (from_be_bytes bs) = bs"
proof -
  assume "length bs = 4"
  then obtain a b c d where bs: "bs = [a, b, c, d]"
    by (auto simp: numeral_eq_Suc length_Suc_conv)
  have "ucast (from_be_bytes bs) = d" "ucast (drop_bit 8 (from_be_bytes bs)) = c"
      "ucast (drop_bit 16 (from_be_bytes bs)) = b" "ucast (drop_bit 24 (from_be_bytes bs)) = a"
    by (rule bit_word_eqI; auto simp: bs from_be_bytes_def bit_simps dest: bit_imp_le_length)+
  then show ?thesis unfolding to_be_bytes_def by (simp add: bs)
qed

lemma one_frame_iff:
  "one_frame mx payload bs \<longleftrightarrow>
      4 \<le> length bs \<and> from_be_bytes (take 4 bs) \<le> mx
      \<and> length bs = 4 + unat (from_be_bytes (take 4 bs)) \<and> payload = drop 4 bs" (is "_ \<longleftrightarrow> ?R")
proof
  assume "one_frame mx payload bs"
  then have n: "length payload \<le> unat mx" and bs: "bs = to_be_bytes (of_nat (length payload)) @ payload"
    by (auto simp: one_frame_def)
  have u: "unat (of_nat (length payload) :: u32) = length payload"
    using n unsigned_less [of mx, where 'a = nat] by (simp add: unat_of_nat)
  with n bs show ?R by (simp add: word_le_nat_alt)
next
  assume ?R
  then show "one_frame mx payload bs"
    by (auto simp: one_frame_def word_le_nat_alt to_from_be_bytes)
qed

lemma decode_message_iff:
  "decode_message dec data mx = Ok (channel, envelope) \<longleftrightarrow>
     (\<exists>used payload. decode_varint data = Some (channel, used)
        \<and> one_frame mx payload (drop used data) \<and> dec payload = Some envelope)"
proof (cases "decode_varint data")
  case None
  then show ?thesis by (simp add: decode_message_def)
next
  case (Some p)
  obtain ch used where p: "p = (ch, used)" by fastforce
  let ?bs = "drop used data"
  have e: "if header_ok mx ?bs then extend (decoder_new mx) ?bs = (\<lparr>fd_max = mx, fd_buf = ?bs\<rparr>, Ok ())
      else \<exists>d e. extend (decoder_new mx) ?bs = (d, Err e)"
    using extend_cases [of "decoder_new mx" ?bs] by (auto simp: decoder_new_def header_ok_def split: if_splits)
  show ?thesis
  proof (cases "header_ok mx ?bs")
    case False
    then show ?thesis using e Some p
      by (auto simp: decode_message_def one_frame_iff header_ok_def)
  next
    case True
    then show ?thesis using e Some p
      by (auto simp: decode_message_def one_frame_iff next_frame_def check_header_def header_ok_def
          buffered_def LENGTH_PREFIX_BYTES_def Let_def not_less split: option.splits)
  qed
qed

section \<open>Properties\<close>

text \<open>
  Channel prefixes round-trip for every 64-bit channel, whatever follows them, and take
  one to ten bytes.
\<close>

theorem varint_roundtrip:
  "decode_varint (encode_varint v @ rest) = Some (v, length (encode_varint v))
     \<and> 1 \<le> length (encode_varint v) \<and> length (encode_varint v) \<le> 10"
  using decode_encode_varint encode_varint_length by blast

text \<open>
  A WebSocket message is accepted exactly when it is a channel prefix followed by one
  complete frame within the negotiated maximum and nothing else, whose payload decodes.
\<close>

theorem decode_message_exact:
  "decode_message dec data mx = Ok (channel, envelope) \<longleftrightarrow>
     (\<exists>used payload. decode_varint data = Some (channel, used)
        \<and> one_frame mx payload (drop used data) \<and> dec payload = Some envelope)"
  by (rule decode_message_iff)

end
