(* ===== verification/Ids.thy ===== *)
theory Ids
  imports Rust_Text
begin

text \<open>
  Opaque 128-bit identifiers, \<open>crates/protocol/src/ids.rs\<close>. The macro \<open>opaque_id!\<close> is
  instantiated for two prefixes, so the operations take the prefix as an argument. An
  identifier is its sixteen bytes. Slicing a \<open>str\<close> off a character boundary panics; a
  possible panic is \<open>None\<close>.
\<close>

section \<open>Operations\<close>

datatype id_error = BadLength nat | BadEncoding

definition id_from_wire :: "bytes \<Rightarrow> id_error + bytes" where
  "id_from_wire bs = (if length bs = 16 then Ok bs else Err (BadLength (length bs)))"

definition id_to_wire :: "bytes \<Rightarrow> bytes" where
  "id_to_wire i = i"

definition id_display :: "rstring \<Rightarrow> bytes \<Rightarrow> rstring" where
  "id_display pre i = pre @ lit ''_'' @ hex_string i"

definition strip_prefix :: "rstring \<Rightarrow> rstring \<Rightarrow> rstring option" where
  "strip_prefix p s = (if prefix p s then Some (drop (length p) s) else None)"

fun split_at_byte :: "nat \<Rightarrow> rstring \<Rightarrow> (rstring \<times> rstring) option" where
  "split_at_byte 0 s = Some ([], s)"
| "split_at_byte (Suc n) [] = None"
| "split_at_byte (Suc n) (c # s) =
     (if len_utf8 c \<le> Suc n then map_option (apfst ((#) c)) (split_at_byte (Suc n - len_utf8 c) s)
      else None)"

definition str_slice :: "rstring \<Rightarrow> nat \<Rightarrow> nat \<Rightarrow> rstring option" where
  "str_slice s a b =
     (case split_at_byte a s of
        None \<Rightarrow> None
      | Some (_, t) \<Rightarrow> map_option fst (split_at_byte (b - a) t))"

text \<open>The loop of \<open>from_str\<close> over the slots \<open>index\<close>, \<open>index + 1\<close>, ..., 15.\<close>

fun hex_slots :: "rstring \<Rightarrow> nat list \<Rightarrow> (id_error + bytes) option" where
  "hex_slots hex [] = Some (Ok [])"
| "hex_slots hex (index # is) =
     (case str_slice hex (index * 2) (index * 2 + 2) of
        None \<Rightarrow> None
      | Some p \<Rightarrow>
          (case u8_from_hex p of
             None \<Rightarrow> Some (Err BadEncoding)
           | Some b \<Rightarrow> map_option (map_sum id ((#) b)) (hex_slots hex is)))"

definition id_from_str :: "rstring \<Rightarrow> rstring \<Rightarrow> (id_error + bytes) option" where
  "id_from_str pre s =
     (let hex = (case strip_prefix (pre @ lit ''_'') s of None \<Rightarrow> s | Some h \<Rightarrow> h) in
      if len hex \<noteq> 32 then Some (Err BadEncoding) else hex_slots hex [0..<16])"

definition server_prefix :: rstring where "server_prefix = lit ''srv''"
definition shell_prefix :: rstring where "shell_prefix = lit ''sh''"

section \<open>ASCII strings slice everywhere\<close>

definition ascii :: "rstring \<Rightarrow> bool" where
  "ascii s \<longleftrightarrow> list_all (\<lambda>c. c < 0x80) s"

lemma split_at_byte_ascii:
  "ascii s \<Longrightarrow> n \<le> length s \<Longrightarrow> split_at_byte n s = Some (take n s, drop n s)"
  by (induction n s rule: split_at_byte.induct) (auto simp: ascii_def len_utf8_def)

lemma str_slice_ascii:
  assumes "ascii s" and "a \<le> b" and "b \<le> length s"
  shows "str_slice s a b = Some (take (b - a) (drop a s))"
proof -
  have "ascii (drop a s)" using assms(1) by (auto simp: ascii_def list_all_iff dest: in_set_dropD)
  then show ?thesis using assms by (simp add: str_slice_def split_at_byte_ascii)
qed

lemma ascii_hex_string: "ascii (hex_string bs)"
  by (auto simp: ascii_def list_all_iff hex_string_ascii)

lemma len_hex_string: "len (hex_string bs) = 2 * length bs"
  using len_ascii [of "hex_string bs"] hex_string_ascii by simp

lemma drop_hex_string: "drop (k * 2) (hex_string bs) = hex_string (drop k bs)"
proof (induction k arbitrary: bs)
  case (Suc k)
  then show ?case by (cases bs) (auto simp: hex_string_simps hex_byte_def)
qed simp

lemma hex_slots_hex_string:
  "k \<le> length bs \<Longrightarrow> hex_slots (hex_string bs) [k..<length bs] = Some (Ok (drop k bs))"
proof (induction "length bs - k" arbitrary: k)
  case 0
  then show ?case by simp
next
  case (Suc n)
  then have k: "k < length bs" by simp
  then obtain d where d: "drop k bs = bs ! k # d" "d = drop (Suc k) bs"
    by (metis Cons_nth_drop_Suc)
  have "str_slice (hex_string bs) (k * 2) (k * 2 + 2) = Some (hex_byte (bs ! k))"
    using k d(1) by (simp add: str_slice_ascii ascii_hex_string drop_hex_string hex_string_simps hex_byte_def)
  moreover have "hex_slots (hex_string bs) [Suc k..<length bs] = Some (Ok d)"
    using Suc.hyps(1) [of "Suc k"] Suc.hyps(2) k d(2) by simp
  ultimately show ?case
    unfolding upt_conv_Cons [OF k] d(1) by (simp add: u8_from_hex_byte)
qed

lemma hex_slots_total:
  "ascii hex \<Longrightarrow> length hex = 32 \<Longrightarrow> list_all (\<lambda>i. i < 16) is \<Longrightarrow>
     hex_slots hex is = Some (Err BadEncoding)
     \<or> (\<exists>i. hex_slots hex is = Some (Ok i) \<and> length i = length is)"
proof (induction "is")
  case (Cons k ks)
  have "str_slice hex (k * 2) (k * 2 + 2) = Some (take 2 (drop (k * 2) hex))"
    using Cons.prems by (subst str_slice_ascii) auto
  with Cons show ?case by (auto split: option.splits)
qed simp

section \<open>Properties\<close>

text \<open>
  Identifiers round-trip: sixteen bytes survive the wire and their printed form, with
  its type prefix or without; any other length is refused on the wire with that length.
\<close>

theorem id_roundtrip:
  assumes "length i = 16" and "pre = server_prefix \<or> pre = shell_prefix"
  shows "id_from_wire (id_to_wire i) = Ok i
     \<and> id_from_str pre (id_display pre i) = Some (Ok i)
     \<and> id_from_str pre (hex_string i) = Some (Ok i)
     \<and> (\<forall>bs. length bs \<noteq> 16 \<longrightarrow> id_from_wire bs = Err (BadLength (length bs)))"
proof -
  have "strip_prefix (pre @ lit ''_'') (id_display pre i) = Some (hex_string i)"
    by (simp add: strip_prefix_def id_display_def)
  moreover have "\<not> prefix (pre @ lit ''_'') (hex_string i)"
  proof
    assume "prefix (pre @ lit ''_'') (hex_string i)"
    then have "pre ! 0 \<in> set (hex_string i)" using assms(2)
      by (auto simp: prefix_def server_prefix_def shell_prefix_def lit_def)
    moreover have "c \<in> set (hex_string bs) \<Longrightarrow> c < 115" for c bs
    proof (induction bs)
      case (Cons b bs)
      then show ?case using unat_u8_div [of b]
        by (auto simp: hex_string_simps hex_byte_def hex_digit_def simp del: unat_u8_div)
    qed (simp add: hex_string_simps)
    ultimately show False using assms(2)
      by (fastforce simp: server_prefix_def shell_prefix_def lit_def)
  qed
  ultimately show ?thesis
    using assms(1) hex_slots_hex_string [of 0 i]
    by (simp add: id_from_wire_def id_to_wire_def id_from_str_def strip_prefix_def len_hex_string)
qed

theorem id_roundtrip_witness:
  "id_from_wire (id_to_wire (replicate 16 0xAB)) = Ok (replicate 16 0xAB)
     \<and> id_from_str shell_prefix (id_display shell_prefix (replicate 16 0xAB)) = Some (Ok (replicate 16 0xAB))"
  using id_roundtrip [of "replicate 16 0xAB" shell_prefix] by simp

text \<open>
  Parsing an identifier from ASCII text never panics, and what it returns is either the
  encoding error or sixteen bytes.
\<close>

theorem id_from_str_total:
  assumes "ascii s"
  shows "id_from_str pre s = Some (Err BadEncoding) \<or> (\<exists>i. id_from_str pre s = Some (Ok i) \<and> length i = 16)"
proof -
  define hex where "hex = (case strip_prefix (pre @ lit ''_'') s of None \<Rightarrow> s | Some h \<Rightarrow> h)"
  have a: "ascii hex"
    using assms by (auto simp: hex_def strip_prefix_def ascii_def list_all_iff dest: in_set_dropD)
  show ?thesis
  proof (cases "len hex = 32")
    case True
    then have "length hex = 32" using a len_ascii [of hex] by (simp add: ascii_def list_all_iff)
    then show ?thesis
      using hex_slots_total [OF a, of "[0..<16]"] True by (simp add: id_from_str_def hex_def list_all_iff)
  qed (simp add: id_from_str_def hex_def)
qed

theorem id_from_str_total_witness:
  "id_from_str shell_prefix (lit ''sh_12'') = Some (Err BadEncoding)
   \<or> (\<exists>i. id_from_str shell_prefix (lit ''sh_12'') = Some (Ok i) \<and> length i = 16)"
  by (rule id_from_str_total) (simp add: ascii_def lit_def)

section \<open>Texts that are not hexadecimal\<close>

text \<open>
  Two corners of the parser: a pair such as \<open>+f\<close> is accepted, because \<open>from_str_radix\<close>
  takes a leading plus sign, and a text of 32 bytes with a multi-byte character panics when a
  slice falls inside it.
\<close>

lemma id_from_str_accepts_plus:
  "id_from_str shell_prefix (concat (replicate 16 (lit ''+f''))) = Some (Ok (replicate 16 0x0F))"
  by (simp add: id_from_str_def strip_prefix_def shell_prefix_def lit_def len_utf8_def str_slice_def
      u8_from_hex_def strip_plus_def hex_value_def upt_rec numeral_eq_Suc)

lemma id_from_str_panics:
  "id_from_str shell_prefix (lit ''a'' @ [0xE9] @ replicate 29 48) = None"
  by (simp add: id_from_str_def strip_prefix_def shell_prefix_def lit_def len_utf8_def str_slice_def
      upt_rec numeral_eq_Suc)

end
