(* ===== verification/Negotiate.thy ===== *)
theory Negotiate
  imports Framing
begin

text \<open>
  Version and capability negotiation, \<open>crates/protocol/src/negotiate.rs\<close>, over the hello
  messages of \<open>protocol/messages.proto\<close>. A protobuf enum field travels as an \<open>i32\<close>, so the
  hello holds lists of integers and the server compares them with its own variants.
\<close>

section \<open>Messages\<close>

datatype capability = CapUnspecified | Datagrams | Clipboard | FileTransfer | TcpForward

fun capability_i32 :: "capability \<Rightarrow> int" where
  "capability_i32 CapUnspecified = 0"
| "capability_i32 Datagrams = 1"
| "capability_i32 Clipboard = 2"
| "capability_i32 FileTransfer = 3"
| "capability_i32 TcpForward = 4"

lemma capability_i32_inj: "capability_i32 c = capability_i32 d \<longleftrightarrow> c = d"
  by (cases c; cases d) auto

definition Encoding_Utf8 :: int where "Encoding_Utf8 = 1"

record client_hello =
  ch_protocol_major :: u32
  ch_protocol_minor :: u32
  ch_client_kind :: int
  ch_client_build :: rstring
  ch_capabilities :: "int list"
  ch_max_frame_bytes :: u32
  ch_max_datagram_bytes :: u32
  ch_encodings :: "int list"

record server_hello =
  sh_protocol_major :: u32
  sh_protocol_minor :: u32
  sh_capabilities :: "int list"
  sh_max_frame_bytes :: u32
  sh_max_datagram_bytes :: u32
  sh_keepalive_interval_ms :: u32

record negotiated =
  protocol_major :: u32
  protocol_minor :: u32
  capabilities :: "capability list"
  max_frame_bytes :: u32
  max_datagram_bytes :: u32

datatype negotiation_error = MajorVersion u32 u32 | NoUtf8 | FrameLimitTooSmall u32

section \<open>Operations\<close>

definition negotiate_server ::
  "client_hello \<Rightarrow> capability list \<Rightarrow> u32 \<Rightarrow> u32 \<Rightarrow> bool \<Rightarrow> negotiation_error + negotiated" where
  "negotiate_server hello server_capabilities server_max_frame_bytes server_max_datagram_bytes
       transport_supports_datagrams =
     (if ch_protocol_major hello \<noteq> PROTOCOL_MAJOR then
        Err (MajorVersion (ch_protocol_major hello) PROTOCOL_MAJOR)
      else if \<not> List.member (ch_encodings hello) Encoding_Utf8 then Err NoUtf8
      else if ch_max_frame_bytes hello < FRAME_BYTES_FLOOR then
        Err (FrameLimitTooSmall (ch_max_frame_bytes hello))
      else
        (let minor = min (ch_protocol_minor hello) PROTOCOL_MINOR;
             caps1 = filter (\<lambda>c. List.member (ch_capabilities hello) (capability_i32 c)) server_capabilities;
             caps2 = filter (\<lambda>c. c \<noteq> FileTransfer \<or> minor \<ge> FILE_TRANSFER_PROTOCOL_MINOR) caps1;
             caps3 = filter (\<lambda>c. c \<noteq> TcpForward \<or> minor \<ge> TCP_FORWARD_PROTOCOL_MINOR) caps2;
             caps = (if \<not> transport_supports_datagrams then filter (\<lambda>c. c \<noteq> Datagrams) caps3 else caps3)
         in Ok \<lparr>protocol_major = PROTOCOL_MAJOR,
                protocol_minor = minor,
                capabilities = caps,
                max_frame_bytes =
                  min (min (ch_max_frame_bytes hello) server_max_frame_bytes) FRAME_BYTES_CEILING,
                max_datagram_bytes = min (ch_max_datagram_bytes hello) server_max_datagram_bytes\<rparr>))"

definition server_hello_of :: "negotiated \<Rightarrow> u32 \<Rightarrow> server_hello" where
  "server_hello_of n keepalive_interval_ms =
     \<lparr>sh_protocol_major = protocol_major n,
      sh_protocol_minor = protocol_minor n,
      sh_capabilities = map capability_i32 (capabilities n),
      sh_max_frame_bytes = max_frame_bytes n,
      sh_max_datagram_bytes = max_datagram_bytes n,
      sh_keepalive_interval_ms = keepalive_interval_ms\<rparr>"

text \<open>The lowest minor version in which a capability exists.\<close>

definition minor_of :: "capability \<Rightarrow> u32" where
  "minor_of c = (case c of FileTransfer \<Rightarrow> 2 | TcpForward \<Rightarrow> 3 | _ \<Rightarrow> 0)"

lemma minor_gates:
  "minor_of c \<le> m \<longleftrightarrow>
     (c \<noteq> FileTransfer \<or> FILE_TRANSFER_PROTOCOL_MINOR \<le> m)
     \<and> (c \<noteq> TcpForward \<or> TCP_FORWARD_PROTOCOL_MINOR \<le> m)"
  by (cases c) (auto simp: minor_of_def FILE_TRANSFER_PROTOCOL_MINOR_def TCP_FORWARD_PROTOCOL_MINOR_def)

section \<open>Properties\<close>

text \<open>
  Negotiation enables exactly what both sides can do: a hello is accepted exactly when
  its major version, encoding and frame limit are acceptable; the agreed minor is the lower
  one; a capability is enabled, in the server's order, exactly when both sides listed it, the
  agreed minor defines it, and, for datagrams, the transport carries them; no agreed limit
  exceeds what either side proposed or the ceiling, and with a server limit of at least the
  floor the agreed frame size is at least the floor.
\<close>

theorem negotiate_exact:
  "(case negotiate_server hello caps smax dmax dgrams of
      Inl e \<Rightarrow>
        (if ch_protocol_major hello \<noteq> 0 then e = MajorVersion (ch_protocol_major hello) 0
         else if 1 \<notin> set (ch_encodings hello) then e = NoUtf8
         else ch_max_frame_bytes hello < FRAME_BYTES_FLOOR \<and> e = FrameLimitTooSmall (ch_max_frame_bytes hello))
    | Inr n \<Rightarrow>
        ch_protocol_major hello = 0 \<and> 1 \<in> set (ch_encodings hello)
        \<and> FRAME_BYTES_FLOOR \<le> ch_max_frame_bytes hello
        \<and> protocol_minor n = min (ch_protocol_minor hello) PROTOCOL_MINOR
        \<and> subseq (capabilities n) caps
        \<and> (\<forall>c. c \<in> set (capabilities n) \<longleftrightarrow>
              c \<in> set caps \<and> capability_i32 c \<in> set (ch_capabilities hello)
              \<and> minor_of c \<le> protocol_minor n \<and> (if c = Datagrams then dgrams else True))
        \<and> max_frame_bytes n \<le> ch_max_frame_bytes hello \<and> max_frame_bytes n \<le> smax
        \<and> max_frame_bytes n \<le> FRAME_BYTES_CEILING
        \<and> min smax FRAME_BYTES_FLOOR \<le> max_frame_bytes n
        \<and> max_datagram_bytes n \<le> ch_max_datagram_bytes hello \<and> max_datagram_bytes n \<le> dmax)"
proof -
  have floor: "FRAME_BYTES_FLOOR \<le> FRAME_BYTES_CEILING"
    by (simp add: FRAME_BYTES_FLOOR_def FRAME_BYTES_CEILING_def)
  have bounds: "min (min a b) c \<le> a" "min (min a b) c \<le> b" for a b c :: u32
    by (auto simp: min_def)
  have min_floor: "FRAME_BYTES_FLOOR \<le> a \<Longrightarrow> min b FRAME_BYTES_FLOOR \<le> min (min a b) FRAME_BYTES_CEILING" for a b
    using floor by (intro min.boundedI) (auto intro: min.coboundedI1 min.coboundedI2 order_trans)
  show ?thesis
    using floor bounds minor_gates min_floor
    by (auto simp: negotiate_server_def Let_def PROTOCOL_MAJOR_def Encoding_Utf8_def not_less
        intro!: subseq_filter_left)
qed

end
