(* ===== verification/Transfer_Wire.thy ===== *)
theory Transfer_Wire
  imports Framing Utf8 Rust_Text
begin

text \<open>
  Validation of the transfer messages: the upload checks of \<open>crates/protocol/src/upload.rs\<close>
  and the forward destination check of \<open>crates/protocol/src/forward.rs\<close>. The parser of
  \<open>std::net::IpAddr\<close> is the parameter \<open>is_ip\<close>: whether a text parses as an IP address.
\<close>

section \<open>Uploads\<close>

record begin_upload =
  bu_original_name :: rstring
  bu_total_bytes :: u64
  bu_sha256 :: bytes

record upload_chunk =
  uc_upload_id :: bytes
  uc_offset :: u64
  uc_data :: bytes

datatype upload_validation_error =
    OriginalNameTooLong
  | InvalidDigest
  | FileTooLarge u64 u64
  | InvalidUploadId
  | EmptyChunk
  | ChunkTooLarge nat nat
  | UnexpectedOffset u64 u64
  | ExceedsDeclaredLength

definition validate_begin :: "begin_upload \<Rightarrow> u64 \<Rightarrow> upload_validation_error + unit" where
  "validate_begin b configured_max_file_bytes =
     (if len (bu_original_name b) > UPLOAD_ORIGINAL_NAME_BYTES_MAX then Err OriginalNameTooLong
      else if length (bu_sha256 b) \<noteq> UPLOAD_SHA256_BYTES then Err InvalidDigest
      else
        (let maximum = min configured_max_file_bytes UPLOAD_FILE_BYTES_HARD_MAX in
         if bu_total_bytes b > maximum then Err (FileTooLarge (bu_total_bytes b) maximum)
         else Ok ()))"

text \<open>\<open>u64::checked_add\<close> of a byte count.\<close>

definition checked_add_u64 :: "u64 \<Rightarrow> nat \<Rightarrow> u64 option" where
  "checked_add_u64 a n = (if unat a + n < 2 ^ 64 then Some (a + of_nat n) else None)"

lemma checked_add_u64_Some:
  "checked_add_u64 a n = Some e \<longleftrightarrow> unat a + n < 2 ^ 64 \<and> unat e = unat a + n"
proof -
  have "unat (a + of_nat n) = unat a + n" if "unat a + n < 2 ^ 64"
    using that by (simp add: unat_word_ariths unat_of_nat)
  then show ?thesis by (auto simp: checked_add_u64_def intro: unat_eq_nat_uint word_unat_eq_iff [THEN iffD2])
qed

definition validate_chunk ::
  "upload_chunk \<Rightarrow> bytes \<Rightarrow> u64 \<Rightarrow> u32 \<Rightarrow> u64 \<Rightarrow> upload_validation_error + unit" where
  "validate_chunk c expected_upload_id expected_offset maximum_chunk_bytes total_bytes =
     (if length (uc_upload_id c) \<noteq> UPLOAD_ID_BYTES \<or> uc_upload_id c \<noteq> expected_upload_id then
        Err InvalidUploadId
      else if uc_data c = [] then Err EmptyChunk
      else
        (let maximum = min (unat maximum_chunk_bytes) UPLOAD_CHUNK_BYTES_MAX in
         if length (uc_data c) > maximum then Err (ChunkTooLarge (length (uc_data c)) maximum)
         else if uc_offset c \<noteq> expected_offset then Err (UnexpectedOffset (uc_offset c) expected_offset)
         else
           (case checked_add_u64 expected_offset (length (uc_data c)) of
              None \<Rightarrow> Err ExceedsDeclaredLength
            | Some e \<Rightarrow> if e > total_bytes then Err ExceedsDeclaredLength else Ok ())))"

lemma validate_begin_ok:
  "validate_begin b mx = Ok () \<longleftrightarrow>
     len (bu_original_name b) \<le> 255 \<and> length (bu_sha256 b) = 32
     \<and> bu_total_bytes b \<le> mx \<and> bu_total_bytes b \<le> UPLOAD_FILE_BYTES_HARD_MAX"
  by (auto simp: validate_begin_def UPLOAD_ORIGINAL_NAME_BYTES_MAX_def UPLOAD_SHA256_BYTES_def
      Let_def not_less min_less_iff_disj dest: leD)

lemma validate_chunk_ok:
  "validate_chunk c uid off mx tot = Ok () \<longleftrightarrow>
     uc_upload_id c = uid \<and> length uid = 16 \<and> uc_data c \<noteq> []
     \<and> length (uc_data c) \<le> unat mx \<and> length (uc_data c) \<le> UPLOAD_CHUNK_BYTES_MAX
     \<and> uc_offset c = off \<and> unat off + length (uc_data c) \<le> unat tot"
proof -
  have t: "unat tot < 2 ^ 64" using unsigned_less [of tot, where 'a = nat] by simp
  show ?thesis
  proof (cases "checked_add_u64 off (length (uc_data c))")
    case None
    then have "\<not> unat off + length (uc_data c) \<le> unat tot"
      using t by (auto simp: checked_add_u64_def split: if_splits)
    with None show ?thesis by (auto simp: validate_chunk_def Let_def)
  next
    case (Some e)
    then have "unat e = unat off + length (uc_data c)" by (simp add: checked_add_u64_Some)
    with Some show ?thesis
      by (auto simp: validate_chunk_def UPLOAD_ID_BYTES_def Let_def word_less_nat_alt)
  qed
qed

section \<open>Forward destinations\<close>

definition byte_alphanumeric :: "u8 \<Rightarrow> bool" where
  "byte_alphanumeric b = is_ascii_alphanumeric (unat b)"

definition valid_label :: "rstring \<Rightarrow> bool" where
  "valid_label label =
     (let bs = as_bytes label in
      label \<noteq> [] \<and> len label \<le> 63
      \<and> byte_alphanumeric (bs ! 0)
      \<and> byte_alphanumeric (bs ! (len label - 1))
      \<and> list_all (\<lambda>b. byte_alphanumeric b \<or> b = 0x2D) bs)"

definition strip_suffix_char :: "rchar \<Rightarrow> rstring \<Rightarrow> rstring option" where
  "strip_suffix_char c s = (if s \<noteq> [] \<and> last s = c then Some (butlast s) else None)"

definition valid_destination :: "(rstring \<Rightarrow> bool) \<Rightarrow> rstring \<Rightarrow> u32 \<Rightarrow> bool" where
  "valid_destination is_ip host port =
     (if host = [] \<or> len host > 255 \<or> \<not> (1 \<le> unat port \<and> unat port \<le> 65535) then False
      else if is_ip host then True
      else list_all valid_label
        (split_on 46 (case strip_suffix_char 46 host of None \<Rightarrow> host | Some h \<Rightarrow> h)))"

text \<open>The grammar of host names: non-empty labels of letters, digits and inner hyphens.\<close>

definition host_char :: "rchar \<Rightarrow> bool" where
  "host_char c \<longleftrightarrow> is_ascii_alphanumeric c \<or> c = 45"

definition dns_label :: "rstring \<Rightarrow> bool" where
  "dns_label l \<longleftrightarrow> l \<noteq> [] \<and> length l \<le> 63 \<and> is_ascii_alphanumeric (hd l)
     \<and> is_ascii_alphanumeric (last l) \<and> list_all host_char l"

lemma host_byte_char:
  assumes "is_scalar c"
  shows "list_all (\<lambda>b. byte_alphanumeric b \<or> b = 0x2D) (encode_utf8 c) \<longleftrightarrow> host_char c"
proof -
  have b: "byte_alphanumeric (of_nat x) \<or> (of_nat x :: u8) = 0x2D \<longleftrightarrow> host_char x" if "x < 256" for x
  proof -
    have "(of_nat x :: u8) = 0x2D \<longleftrightarrow> x = 45"
      using unat_of_nat_u8 [OF that] by (auto simp: word_unat_eq_iff)
    then show ?thesis using unat_of_nat_u8 [OF that] by (simp add: byte_alphanumeric_def host_char_def)
  qed
  have "list_all (\<lambda>b. byte_alphanumeric b \<or> b = 0x2D) (encode_utf8 c) \<longleftrightarrow> list_all host_char (encode_utf8_raw c)"
    using encode_utf8_raw_less [OF assms] b by (auto simp: encode_utf8_def list_all_iff)
  also have "\<dots> \<longleftrightarrow> host_char c"
    using assms
    by (auto simp: encode_utf8_raw_def host_char_def is_ascii_alphanumeric_def is_ascii_digit_def is_scalar_def)
  finally show ?thesis .
qed

lemma as_bytes_simps: "as_bytes [] = []" "as_bytes (c # s) = encode_utf8 c @ as_bytes s"
  by (simp_all add: as_bytes_def)

lemma host_bytes_chars:
  "list_all is_scalar l \<Longrightarrow>
     list_all (\<lambda>b. byte_alphanumeric b \<or> b = 0x2D) (as_bytes l) \<longleftrightarrow> list_all host_char l"
  by (induction l) (auto simp: as_bytes_simps host_byte_char)

lemma as_bytes_host: "list_all host_char l \<Longrightarrow> as_bytes l = map of_nat l \<and> len l = length l"
  by (induction l)
    (auto simp: as_bytes_simps encode_utf8_def encode_utf8_raw_def host_char_def len_utf8_def
      dest: ascii_alphanumeric_less)

lemma valid_label_iff:
  assumes "list_all is_scalar l"
  shows "valid_label l \<longleftrightarrow> dns_label l"
proof (cases "list_all host_char l \<and> l \<noteq> []")
  case False
  then show ?thesis using host_bytes_chars [OF assms] by (auto simp: valid_label_def dns_label_def Let_def)
next
  case True
  then have a: "as_bytes l = map of_nat l" "len l = length l" using as_bytes_host by auto
  have "x < 128" if "x \<in> set l" for x
    using True that ascii_alphanumeric_less by (auto simp: list_all_iff host_char_def)
  note small = this
  have u: "unat (of_nat (l ! k) :: u8) = l ! k" if "k < length l" for k
  proof (rule unat_of_nat_u8)
    have "l ! k < 128" using that small by simp
    then show "l ! k < 256" by linarith
  qed
  show ?thesis
    using True host_bytes_chars [OF assms] u [of 0] u [of "length l - 1"]
    by (auto simp: valid_label_def dns_label_def Let_def a byte_alphanumeric_def hd_conv_nth last_conv_nth)
qed

lemma dns_label_no_dot: "dns_label l \<Longrightarrow> 46 \<notin> set l"
  by (auto simp: dns_label_def list_all_iff host_char_def is_ascii_alphanumeric_def is_ascii_digit_def)

lemma join_labels_last:
  "labels \<noteq> [] \<Longrightarrow> list_all dns_label labels \<Longrightarrow>
     join_with 46 labels \<noteq> [] \<and> last (join_with 46 labels) \<noteq> 46"
  by (induction "46 :: nat" labels rule: join_with.induct)
    (auto simp: dns_label_def is_ascii_alphanumeric_def is_ascii_digit_def)

lemma split_labels:
  assumes "labels \<noteq> []" and "list_all dns_label labels"
  shows "split_on 46 (join_with 46 labels) = labels"
  using assms by (intro split_join) (auto simp: list_all_iff dns_label_no_dot)

lemma scalar_pieces: "list_all is_scalar s \<Longrightarrow> p \<in> set (split_on sep s) \<Longrightarrow> list_all is_scalar p"
  by (induction s arbitrary: p) (auto split: if_splits list.splits)

section \<open>Properties\<close>

text \<open>
  The forward destination check accepts exactly the host names it means to: for a text of
  at most 255 bytes that is no IP address and a port in range, it holds exactly when the text
  is a sequence of DNS labels joined by single dots, with at most one final dot; non-ASCII
  text, empty labels and outer hyphens never pass.
\<close>

theorem valid_destination_grammar:
  assumes "list_all is_scalar host" and "\<not> is_ip host"
  shows "valid_destination is_ip host port \<longleftrightarrow>
     len host \<le> 255 \<and> 1 \<le> unat port \<and> unat port \<le> 65535
     \<and> (\<exists>labels. labels \<noteq> [] \<and> list_all dns_label labels
          \<and> (host = join_with 46 labels \<or> host = join_with 46 labels @ [46]))"
    (is "_ \<longleftrightarrow> _ \<and> _ \<and> _ \<and> ?names")
proof -
  define h where "h = (case strip_suffix_char 46 host of None \<Rightarrow> host | Some h \<Rightarrow> h)"
  have sc: "list_all is_scalar h"
    using assms(1) by (auto simp: h_def strip_suffix_char_def list_all_iff dest: in_set_butlastD)
  have lab: "list_all valid_label (split_on 46 h) \<longleftrightarrow> list_all dns_label (split_on 46 h)"
    using scalar_pieces [OF sc] valid_label_iff by (auto simp: list_all_iff)
  have host: "host = h \<or> host = h @ [46]"
    by (auto simp: h_def strip_suffix_char_def dest: append_butlast_last_id)
  have "?names \<longleftrightarrow> host \<noteq> [] \<and> list_all dns_label (split_on 46 h)"
  proof
    assume ?names
    then obtain labels where l: "labels \<noteq> []" "list_all dns_label labels"
      and "host = join_with 46 labels \<or> host = join_with 46 labels @ [46]" by blast
    then have "h = join_with 46 labels \<and> host \<noteq> []"
      using join_labels_last [OF l] by (auto simp: h_def strip_suffix_char_def)
    then show "host \<noteq> [] \<and> list_all dns_label (split_on 46 h)" using split_labels [OF l] l(2) by simp
  next
    assume "host \<noteq> [] \<and> list_all dns_label (split_on 46 h)"
    then show ?names using host join_split [of 46 h] by (intro exI [of _ "split_on 46 h"]) auto
  qed
  then show ?thesis using assms(2) lab by (auto simp: valid_destination_def h_def)
qed

theorem valid_destination_grammar_witness:
  "valid_destination (\<lambda>_. False) (lit ''a.b-c.'') 443"
  using valid_destination_grammar [of "lit ''a.b-c.''" "\<lambda>_. False" 443]
  by (auto simp: lit_def is_scalar_def len_utf8_def dns_label_def host_char_def
      is_ascii_alphanumeric_def is_ascii_digit_def intro!: exI [of _ "[[97], [98, 45, 99]]"])

end
