(* ===== verification/Launch.thy ===== *)
theory Launch
  imports Rust_Text
begin

text \<open>
  Construction of the launch command line, \<open>crates/launch/src/lib.rs\<close>: every shell runs under
  \<open>prlimit\<close>, and under \<open>setpriv\<close> when it has to switch to another account. What the code asks
  of the host (files that exist, environment variables, the account database, its own uid) is
  the record \<open>host\<close>. \<open>split_dashes\<close> reads an argument vector the way both tools do: options up
  to the first \<open>--\<close>, then the command. Of the \<open>Debug\<close> form of a string in one error message
  only the quotes are kept, not the escapes.
\<close>

section \<open>Data\<close>

datatype launch_error = LaunchForbidden | LaunchInternal rstring

record shell_resource_limits =
  max_processes :: u64
  max_open_files :: u64
  max_core_bytes :: u64

definition shell_resource_limits_default :: shell_resource_limits where
  "shell_resource_limits_default = \<lparr>max_processes = 512, max_open_files = 1024, max_core_bytes = 0\<rparr>"

definition SETPRIV :: rstring where "SETPRIV = lit ''/usr/bin/setpriv''"
definition PRLIMIT :: rstring where "PRLIMIT = lit ''/usr/bin/prlimit''"
definition ENV :: rstring where "ENV = lit ''/usr/bin/env''"
definition DEFAULT_SHELL :: rstring where "DEFAULT_SHELL = lit ''/bin/bash''"

record account_ids =
  uid :: u32
  gid :: u32

record launch =
  program :: "rstring option"
  args :: "rstring list"

record host =
  path_exists :: "rstring \<Rightarrow> bool"
  env_var :: "rstring \<Rightarrow> rstring option"
  getpwnam :: "rstring \<Rightarrow> rstring + account_ids option"
  geteuid :: u32

section \<open>Operations\<close>

definition locale_env :: "host \<Rightarrow> rstring list" where
  "locale_env h =
     (let kept = List.map_filter
            (\<lambda>key. map_option (\<lambda>v. key @ lit ''='' @ v) (env_var h key))
            [lit ''LANG'', lit ''LC_ALL'', lit ''LC_CTYPE'']
      in if kept = [] then [lit ''LANG=C.UTF-8''] else kept)"

definition setpriv_options :: "account_ids \<Rightarrow> rstring list" where
  "setpriv_options ids =
     [lit ''--reuid'', show_nat (unat (uid ids)), lit ''--regid'', show_nat (unat (gid ids)),
      lit ''--init-groups'', lit ''--inh-caps'', lit ''-all'', lit ''--ambient-caps'', lit ''-all'',
      lit ''--reset-env'']"

definition setpriv_wrap :: "account_ids \<Rightarrow> rstring list \<Rightarrow> rstring \<Rightarrow> rstring list \<Rightarrow> launch" where
  "setpriv_wrap ids loc prog as =
     \<lparr>program = Some SETPRIV,
      args = setpriv_options ids @ [lit ''--'']
        @ (if loc \<noteq> [] then ENV # loc else []) @ prog # as\<rparr>"

definition limit_option :: "string \<Rightarrow> u64 \<Rightarrow> rstring" where
  "limit_option name n = lit name @ show_nat (unat n) @ lit '':'' @ show_nat (unat n)"

definition prlimit_options :: "shell_resource_limits \<Rightarrow> rstring list" where
  "prlimit_options limits =
     [limit_option ''--nproc='' (max_processes limits),
      limit_option ''--nofile='' (max_open_files limits),
      limit_option ''--core='' (max_core_bytes limits)]"

text \<open>\<open>None\<close> is the panic of \<open>expect\<close> on a launch without a program.\<close>

definition prlimit_wrap :: "shell_resource_limits \<Rightarrow> launch \<Rightarrow> launch option" where
  "prlimit_wrap limits l =
     (case program l of
        None \<Rightarrow> None
      | Some prog \<Rightarrow>
          Some \<lparr>program = Some PRLIMIT,
                args = prlimit_options limits @ [lit ''--'', prog] @ args l\<rparr>)"

definition resolve_account_ids :: "host \<Rightarrow> rstring \<Rightarrow> launch_error + account_ids" where
  "resolve_account_ids h name =
     (case getpwnam h name of
        Inr (Some user) \<Rightarrow> Ok user
      | Inr None \<Rightarrow> Err LaunchForbidden
      | Inl e \<Rightarrow> Err (LaunchInternal (lit ''account lookup failed: '' @ e)))"

definition non_empty :: "rstring option \<Rightarrow> rstring option" where
  "non_empty s = (case s of Some t \<Rightarrow> if t = [] then None else Some t | None \<Rightarrow> None)"

text \<open>The program of a launch that switches no account: the command, \<open>$SHELL\<close>, or bash.\<close>

definition direct_program :: "host \<Rightarrow> rstring option \<Rightarrow> rstring" where
  "direct_program h command =
     (case non_empty command of
        Some c \<Rightarrow> c
      | None \<Rightarrow> (case env_var h (lit ''SHELL'') of Some s \<Rightarrow> s | None \<Rightarrow> DEFAULT_SHELL))"

definition switched_program :: "rstring option \<Rightarrow> rstring" where
  "switched_program command = (case non_empty command of Some c \<Rightarrow> c | None \<Rightarrow> DEFAULT_SHELL)"

definition build_launch ::
  "host \<Rightarrow> bool \<Rightarrow> shell_resource_limits \<Rightarrow> rstring option \<Rightarrow> rstring option \<Rightarrow> rstring list
     \<Rightarrow> (launch_error + launch) option" where
  "build_launch h privilege_drop limits account command as =
     (if max_processes limits = 0 \<or> max_open_files limits = 0 then
        Some (Err (LaunchInternal
          (lit ''shell process and open-file limits must be greater than zero'')))
      else if \<not> path_exists h PRLIMIT then
        Some (Err (LaunchInternal
          (lit ''shell resource limits require '' @ PRLIMIT @ lit '', but it is not present'')))
      else
        (case (if privilege_drop then non_empty account else None) of
           None \<Rightarrow>
             map_option Ok (prlimit_wrap limits \<lparr>program = Some (direct_program h command), args = as\<rparr>)
         | Some name \<Rightarrow>
             (case resolve_account_ids h name of
                Inl e \<Rightarrow> Some (Err e)
              | Inr ids \<Rightarrow>
                  if uid ids = geteuid h then
                    map_option Ok (prlimit_wrap limits \<lparr>program = Some (direct_program h command), args = as\<rparr>)
                  else if \<not> path_exists h SETPRIV then
                    Some (Err (LaunchInternal
                      (lit ''privilege drop requested for account '' @ [34] @ name
                        @ [34] @ lit '' but '' @ SETPRIV @ lit '' is not present'')))
                  else
                    map_option Ok (prlimit_wrap limits
                      (setpriv_wrap ids (if path_exists h ENV then locale_env h else [])
                        (switched_program command) as)))))"

section \<open>Reading an argument vector\<close>

definition split_dashes :: "rstring list \<Rightarrow> (rstring list \<times> rstring list) option" where
  "split_dashes as =
     (if lit ''--'' \<in> set as
      then Some (takeWhile (\<lambda>a. a \<noteq> lit ''--'') as, tl (dropWhile (\<lambda>a. a \<noteq> lit ''--'') as))
      else None)"

lemma split_dashes_append:
  "lit ''--'' \<notin> set opts \<Longrightarrow> split_dashes (opts @ lit ''--'' # rest) = Some (opts, rest)"
  by (induction opts) (auto simp: split_dashes_def)

lemma show_nat_not_dashes: "show_nat n \<noteq> lit ''--''"
  using show_nat_digits [of 45 n] by (auto simp: lit_def is_ascii_digit_def)

lemma prlimit_options_plain: "lit ''--'' \<notin> set (prlimit_options limits)"
  by (auto simp: prlimit_options_def limit_option_def lit_def)

lemma setpriv_options_plain: "lit ''--'' \<notin> set (setpriv_options ids)"
  using show_nat_not_dashes [of "unat (uid ids)"] show_nat_not_dashes [of "unat (gid ids)"]
  by (auto simp: setpriv_options_def lit_def)

section \<open>Properties\<close>


definition sample_host :: host where
  "sample_host =
     \<lparr>path_exists = (\<lambda>_. True), env_var = (\<lambda>_. None),
      getpwnam = (\<lambda>_. Ok (Some \<lparr>uid = 1001, gid = 2002\<rparr>)), geteuid = 5\<rparr>"


text \<open>
  Every shell is resource-limited: whatever the privilege setting, a launch that is built
  at all runs \<open>prlimit\<close> with hard and soft limits equal to the configured ones, and limits of
  zero processes or zero files are refused.
\<close>

theorem launch_always_limited:
  "\<exists>r. build_launch h privilege_drop limits account command as = Some r
    \<and> (case r of
         Inl _ \<Rightarrow> True
       | Inr l \<Rightarrow> program l = Some PRLIMIT \<and> max_processes limits \<noteq> 0 \<and> max_open_files limits \<noteq> 0
           \<and> (\<exists>rest. split_dashes (args l) = Some (prlimit_options limits, rest) \<and> rest \<noteq> []))"
  by (auto simp: build_launch_def prlimit_wrap_def setpriv_wrap_def split_dashes_append
      prlimit_options_plain split: sum.splits option.splits)

end
