(* ===== verification/Policy.thy ===== *)
theory Policy
  imports Prelude
begin

text \<open>
  Account policies and resume tokens of \<open>crates/session-core/src/policy.rs\<close> and \<open>token.rs\<close>.
  The trait \<open>AccessPolicy\<close> is the locale \<open>access_policy\<close>, with the laws the session core
  relies on; both implementations of the repository interpret it. SHA-256 and the random
  generator are parameters of the operations that use them.
\<close>

section \<open>Account policies\<close>

datatype denied = Denied

text \<open>The requested account after \<open>filter(|s| !s.is_empty())\<close>.\<close>

definition requested :: "rstring option \<Rightarrow> rstring option" where
  "requested r = (case r of Some s \<Rightarrow> if s = [] then None else Some s | None \<Rightarrow> None)"

definition allow_all :: "rstring \<Rightarrow> rstring option \<Rightarrow> denied + rstring option" where
  "allow_all user r = Ok (requested r)"

text \<open>The allowlist: an association list of users and the accounts each may use.\<close>

type_synonym static_policy = "(rstring \<times> rstring list) list"

definition static_resolve :: "static_policy \<Rightarrow> rstring \<Rightarrow> rstring option \<Rightarrow> denied + rstring option" where
  "static_resolve allowed user r =
     (case map_of allowed user of
        None \<Rightarrow> Err Denied
      | Some accounts \<Rightarrow>
          (case requested r of
             None \<Rightarrow> Ok (case accounts of [] \<Rightarrow> None | a # _ \<Rightarrow> Some a)
           | Some req \<Rightarrow> if req \<in> set accounts then Ok (Some req) else Err Denied))"

text \<open>
  What a policy promises: an account the client names is either granted as named or denied,
  never replaced by another, and an empty name means the same as no name. \<open>may_use\<close> is the
  relation the policy enforces between users and accounts.
\<close>

locale access_policy =
  fixes resolve :: "rstring \<Rightarrow> rstring option \<Rightarrow> denied + rstring option"
    and may_use :: "rstring \<Rightarrow> rstring \<Rightarrow> bool"
  assumes explicit: "req \<noteq> [] \<Longrightarrow> resolve u (Some req) = (if may_use u req then Ok (Some req) else Err Denied)"
    and empty_request: "resolve u (Some []) = resolve u None"
    and default_allowed: "resolve u None = Ok (Some a) \<Longrightarrow> may_use u a"
begin

lemma resolved_may_use:
  assumes "resolve u r = Ok (Some a)"
  shows "may_use u a"
proof (cases r)
  case None
  then show ?thesis using assms default_allowed by simp
next
  case (Some req)
  then show ?thesis
    using assms explicit [of req u] empty_request [of u] default_allowed [of u a]
    by (cases "req = []") (auto split: if_splits)
qed

lemma request_not_replaced:
  "resolve u (Some req) = Ok a \<Longrightarrow> req \<noteq> [] \<Longrightarrow> a = Some req"
  using explicit [of req u] by (auto split: if_splits)

end

interpretation open_policy: access_policy allow_all "\<lambda>_ _. True"
  by unfold_locales (auto simp: allow_all_def requested_def)

interpretation static: access_policy "static_resolve allowed" "\<lambda>u a. \<exists>as. map_of allowed u = Some as \<and> a \<in> set as"
  for allowed
  by unfold_locales
    (auto simp: static_resolve_def requested_def split: option.splits list.splits)

section \<open>Resume tokens\<close>

definition token_from_wire :: "bytes \<Rightarrow> bytes option" where
  "token_from_wire bs = (if length bs = 32 then Some bs else None)"

definition token_to_wire :: "bytes \<Rightarrow> bytes" where
  "token_to_wire t = t"

definition token_hash_of :: "(bytes \<Rightarrow> bytes) \<Rightarrow> bytes \<Rightarrow> bytes" where
  "token_hash_of sha256 t = sha256 t"

definition token_debug :: "bytes \<Rightarrow> rstring" where
  "token_debug t = lit ''ResumeToken(redacted)''"

lemma token_wire_roundtrip: "length t = 32 \<Longrightarrow> token_from_wire (token_to_wire t) = Some t"
  by (simp add: token_from_wire_def token_to_wire_def)

section \<open>Properties\<close>

text \<open>
  The allowlist policy confines users: whatever account a request names, a shell it grants
  runs under an account on the requesting user's own list, namely the one named, or the first
  listed when none is named; users who are not listed get nothing.
\<close>

theorem static_policy_confines:
  "(case static_resolve allowed u r of
      Inl _ \<Rightarrow> map_of allowed u = None
        \<or> (\<exists>req as. requested r = Some req \<and> map_of allowed u = Some as \<and> req \<notin> set as)
    | Inr a \<Rightarrow> \<exists>as. map_of allowed u = Some as
        \<and> (case requested r of
             Some req \<Rightarrow> a = Some req \<and> req \<in> set as
           | None \<Rightarrow> (as = [] \<and> a = None) \<or> (as \<noteq> [] \<and> a = Some (hd as))))"
  by (auto simp: static_resolve_def split: option.splits list.splits)

end
