(* ===== verification/Session.thy ===== *)
theory Session
  imports Terminal_Model Launch Policy
begin

text \<open>
  Shell and attachment lifecycle, \<open>crates/session-core/src/lib.rs\<close>. Each method of
  \<open>ShellManager\<close> that holds its locks throughout is one function from state to state; the
  methods that release a lock are split there (\<open>terminate\<close> before and after its condition
  wait, the pump at each chunk). What comes from outside is an argument: the clock, fresh
  random tokens and identifiers, SHA-256, the results of PTY calls, the host of the launch
  crate and the replies of the spawner. An attachment's channel keeps, besides its queue,
  what its receiver has taken, and stays readable after the sender is dropped. A result
  \<open>None\<close> is a panic.
\<close>

section \<open>Data\<close>

datatype pty_error = PtyOpen rstring | PtySpawn rstring | PtyIo rstring | PtyResize rstring

record exit_summary =
  success :: bool
  exit_code :: u32

record pty_process =
  pty_cols :: nat
  pty_rows :: nat
  pty_written :: bytes

record pty_config =
  pc_program :: "rstring option"
  pc_args :: "rstring list"
  pc_cols :: nat
  pc_rows :: nat

record spawn_request =
  sr_account :: rstring
  sr_command :: "rstring option"
  sr_args :: "rstring list"
  sr_cols :: nat
  sr_rows :: nat
  sr_limits :: shell_resource_limits

datatype spawn_error =
    SpawnForbidden rstring
  | SpawnSpawner rstring
  | SpawnConnect rstring rstring
  | SpawnProtocol rstring
  | SpawnIo rstring

datatype session_error =
    ShellNotFound
  | NotRunning
  | LimitExceeded rstring
  | Forbidden
  | InvalidToken
  | TokenReplayed
  | Pty pty_error
  | Internal rstring

fun spawn_error_string :: "spawn_error \<Rightarrow> rstring" where
  "spawn_error_string (SpawnForbidden s) = lit ''spawner refused the request: '' @ s"
| "spawn_error_string (SpawnSpawner s) = lit ''spawner error: '' @ s"
| "spawn_error_string (SpawnConnect path src) = lit ''spawner socket '' @ path @ lit '': '' @ src"
| "spawn_error_string (SpawnProtocol s) = lit ''spawner protocol error: '' @ s"
| "spawn_error_string (SpawnIo s) = s"

fun session_error_of_spawn :: "spawn_error \<Rightarrow> session_error" where
  "session_error_of_spawn (SpawnForbidden _) = Forbidden"
| "session_error_of_spawn other = Internal (spawn_error_string other)"

fun session_error_of_launch :: "launch_error \<Rightarrow> session_error" where
  "session_error_of_launch LaunchForbidden = Forbidden"
| "session_error_of_launch (LaunchInternal msg) = Internal msg"

record session_core_config =
  max_shells :: nat
  max_shells_per_user :: nat
  max_attachments_per_shell :: nat
  max_queued_chunks :: nat
  scrollback_max_lines :: nat
  scrollback_max_bytes :: nat
  privilege_drop :: bool
  shell_limits :: shell_resource_limits
  spawner_socket :: "rstring option"
  idle_shell_ttl :: "nat option"

definition session_core_config_default :: session_core_config where
  "session_core_config_default =
     \<lparr>max_shells = 16, max_shells_per_user = 8, max_attachments_per_shell = 4, max_queued_chunks = 128,
      scrollback_max_lines = max_history_lines terminal_model_config_default,
      scrollback_max_bytes = max_history_bytes terminal_model_config_default,
      privilege_drop = False, shell_limits = shell_resource_limits_default,
      spawner_socket = None, idle_shell_ttl = None\<rparr>"

datatype shell_state = Running | Terminating | Exited

record open_shell_request =
  rq_user :: rstring
  rq_account :: "rstring option"
  rq_command :: "rstring option"
  rq_args :: "rstring list"
  rq_cols :: nat
  rq_rows :: nat
  rq_idempotency_key :: bytes

record opened_shell =
  os_shell_id :: bytes
  os_resume_token :: bytes
  os_reused :: bool

datatype attachment_event = Output bytes | ExitedEvent exit_summary

text \<open>A bounded channel: what the receiver took, what is queued, whether the receiver lives.\<close>

record chan =
  ch_taken :: "attachment_event list"
  ch_queue :: "attachment_event list"
  ch_receiver :: bool

record attachment =
  at_id :: nat
  at_shell_id :: bytes
  at_snapshot :: bytes
  at_screen_revision :: nat
  at_rotated_resume_token :: bytes
  at_oldest_history_line_id :: nat
  at_newest_history_line_id :: nat

definition SUPERSEDED_TOKEN_HISTORY :: nat where
  "SUPERSEDED_TOKEN_HISTORY = 64"

record 'vt runtime =
  rt_state :: shell_state
  rt_model :: "'vt terminal_model"
  rt_pty :: "pty_process option"
  rt_attachments :: "(nat \<times> chan) list"
  rt_closed :: "(nat \<times> chan) list"
  rt_next_attachment_id :: nat
  rt_token_hash :: bytes
  rt_superseded :: "bytes list"
  rt_exit :: "exit_summary option"
  rt_last_attached_at_ms :: int

record 'vt shell_entry =
  se_id :: bytes
  se_created_at_ms :: int
  se_owner :: rstring
  se_account :: "rstring option"
  se_runtime :: "'vt runtime"

record 'vt shell_manager =
  sm_config :: session_core_config
  sm_policy :: "rstring \<Rightarrow> rstring option \<Rightarrow> denied + rstring option"
  sm_shells :: "(bytes \<times> 'vt shell_entry) list"
  sm_idempotency :: "((rstring \<times> bytes) \<times> bytes) list"

record shell_info =
  si_shell_id :: bytes
  si_state :: shell_state
  si_exit :: "exit_summary option"
  si_created_at_ms :: int
  si_last_attached_at_ms :: int
  si_attachment_count :: nat
  si_owner :: rstring
  si_account :: "rstring option"

text \<open>What launching a shell asks of the outside: the spawner's reply and the PTY calls.\<close>

record launch_world =
  lw_host :: host
  lw_spawn_shell :: "rstring \<Rightarrow> spawn_request \<Rightarrow> spawn_error + unit"
  lw_adopt :: "pty_error + unit"
  lw_pty_spawn :: "pty_config \<Rightarrow> pty_error + unit"
  lw_pump_thread :: "rstring + unit"

section \<open>Tokens and channels\<close>

definition clamp_dims :: "nat \<Rightarrow> nat \<Rightarrow> nat \<times> nat" where
  "clamp_dims cols rows = (max cols MIN_COLS, max rows MIN_ROWS)"

definition push_superseded :: "bytes list \<Rightarrow> bytes \<Rightarrow> bytes list" where
  "push_superseded ring h =
     (if length ring = SUPERSEDED_TOKEN_HISTORY then tl ring else ring) @ [h]"

definition rotate_token :: "(bytes \<Rightarrow> bytes) \<Rightarrow> bytes \<Rightarrow> 'vt runtime \<Rightarrow> 'vt runtime" where
  "rotate_token sha256 fresh rt =
     rt\<lparr>rt_superseded := push_superseded (rt_superseded rt) (rt_token_hash rt),
        rt_token_hash := token_hash_of sha256 fresh\<rparr>"

datatype send_error = Full | Disconnected

definition try_send :: "nat \<Rightarrow> chan \<Rightarrow> attachment_event \<Rightarrow> send_error + chan" where
  "try_send bound c ev =
     (if \<not> ch_receiver c then Err Disconnected
      else if length (ch_queue c) \<ge> bound then Err Full
      else Ok (c\<lparr>ch_queue := ch_queue c @ [ev]\<rparr>))"

definition chan_new :: chan where
  "chan_new = \<lparr>ch_taken = [], ch_queue = [], ch_receiver = True\<rparr>"

definition chan_recv :: "chan \<Rightarrow> chan" where
  "chan_recv c =
     (case ch_queue c of
        [] \<Rightarrow> c
      | e # q \<Rightarrow> if ch_receiver c then c\<lparr>ch_taken := ch_taken c @ [e], ch_queue := q\<rparr> else c)"

section \<open>Opening shells\<close>

definition manager_with_policy ::
  "session_core_config \<Rightarrow> (rstring \<Rightarrow> rstring option \<Rightarrow> denied + rstring option) \<Rightarrow> 'vt shell_manager" where
  "manager_with_policy config policy =
     \<lparr>sm_config = config, sm_policy = policy, sm_shells = [], sm_idempotency = []\<rparr>"

definition manager_new :: "session_core_config \<Rightarrow> 'vt shell_manager" where
  "manager_new config = manager_with_policy config allow_all"

definition spawner_target :: "session_core_config \<Rightarrow> rstring option \<Rightarrow> (rstring \<times> rstring) option" where
  "spawner_target c account =
     (case spawner_socket c of
        None \<Rightarrow> None
      | Some socket \<Rightarrow>
          if \<not> privilege_drop c then None
          else (case non_empty account of None \<Rightarrow> None | Some a \<Rightarrow> Some (socket, a)))"

text \<open>The two ways to a PTY: the spawner, or the launch crate and a local PTY.\<close>

definition launch_pty ::
  "session_core_config \<Rightarrow> launch_world \<Rightarrow> open_shell_request \<Rightarrow> rstring option \<Rightarrow> nat \<Rightarrow> nat
     \<Rightarrow> (session_error + pty_process) option" where
  "launch_pty c w req account cols rows =
     (let pty = \<lparr>pty_cols = cols, pty_rows = rows, pty_written = []\<rparr> in
      case spawner_target c account of
        Some (socket, acct) \<Rightarrow>
          Some (case lw_spawn_shell w socket
                   \<lparr>sr_account = acct, sr_command = non_empty (rq_command req), sr_args = rq_args req,
                    sr_cols = cols, sr_rows = rows, sr_limits = shell_limits c\<rparr> of
             Inl e \<Rightarrow> Err (session_error_of_spawn e)
           | Inr _ \<Rightarrow>
               (case lw_adopt w of Inl e \<Rightarrow> Err (Pty e) | Inr _ \<Rightarrow> Ok pty))
      | None \<Rightarrow>
          (case build_launch (lw_host w) (privilege_drop c) (shell_limits c) account
                  (rq_command req) (rq_args req) of
             None \<Rightarrow> None
           | Some (Inl e) \<Rightarrow> Some (Err (session_error_of_launch e))
           | Some (Inr l) \<Rightarrow>
               Some (case lw_pty_spawn w
                        \<lparr>pc_program = program l, pc_args = args l, pc_cols = cols, pc_rows = rows\<rparr> of
                  Inl e \<Rightarrow> Err (Pty e)
                | Inr _ \<Rightarrow> Ok pty)))"

definition live :: "'vt shell_entry \<Rightarrow> bool" where
  "live e \<longleftrightarrow> rt_state (se_runtime e) \<noteq> Exited"

definition live_shells :: "'vt shell_manager \<Rightarrow> 'vt shell_entry list" where
  "live_shells m = filter live (map snd (sm_shells m))"

definition new_entry ::
  "'vt avt_ops \<Rightarrow> (bytes \<Rightarrow> bytes) \<Rightarrow> session_core_config \<Rightarrow> open_shell_request \<Rightarrow> rstring option
     \<Rightarrow> pty_process \<Rightarrow> nat \<Rightarrow> nat \<Rightarrow> bytes \<Rightarrow> bytes \<Rightarrow> int \<Rightarrow> 'vt shell_entry" where
  "new_entry A sha256 c req account pty cols rows sid token now =
     \<lparr>se_id = sid, se_created_at_ms = now, se_owner = rq_user req, se_account = account,
      se_runtime =
        \<lparr>rt_state = Running,
         rt_model = tm_new A \<lparr>tmc_cols = cols, tmc_rows = rows,
                             max_history_lines = scrollback_max_lines c,
                             max_history_bytes = scrollback_max_bytes c\<rparr>,
         rt_pty = Some pty, rt_attachments = [], rt_closed = [], rt_next_attachment_id = 1,
         rt_token_hash = token_hash_of sha256 token, rt_superseded = [], rt_exit = None,
         rt_last_attached_at_ms = 0\<rparr>\<rparr>"

definition set_runtime :: "bytes \<Rightarrow> ('vt runtime \<Rightarrow> 'vt runtime) \<Rightarrow> 'vt shell_manager \<Rightarrow> 'vt shell_manager" where
  "set_runtime sid f m =
     m\<lparr>sm_shells := assoc_upd sid (\<lambda>e. e\<lparr>se_runtime := f (se_runtime e)\<rparr>) (sm_shells m)\<rparr>"

definition open_shell ::
  "'vt avt_ops \<Rightarrow> (bytes \<Rightarrow> bytes) \<Rightarrow> launch_world \<Rightarrow> open_shell_request \<Rightarrow> bytes \<Rightarrow> bytes \<Rightarrow> int
     \<Rightarrow> 'vt shell_manager \<Rightarrow> ('vt shell_manager \<times> (session_error + opened_shell)) option" where
  "open_shell A sha256 w req sid token now m =
     (let c = sm_config m; idem_key = (rq_user req, rq_idempotency_key req) in
      case Option.bind (map_of (sm_idempotency m) idem_key) (map_of (sm_shells m)) of
        Some e \<Rightarrow>
          Some (set_runtime (the (map_of (sm_idempotency m) idem_key)) (rotate_token sha256 token) m,
                Ok \<lparr>os_shell_id = se_id e, os_resume_token = token, os_reused = True\<rparr>)
      | None \<Rightarrow>
          (case sm_policy m (rq_user req) (rq_account req) of
             Inl _ \<Rightarrow> Some (m, Err Forbidden)
           | Inr account \<Rightarrow>
               if length (live_shells m) \<ge> max_shells c then
                 Some (m, Err (LimitExceeded (lit ''max_shells'')))
               else if max_shells_per_user c > 0
                 \<and> length (filter (\<lambda>e. se_owner e = rq_user req) (live_shells m)) \<ge> max_shells_per_user c then
                 Some (m, Err (LimitExceeded (lit ''max_shells_per_user'')))
               else
                 (let (cols, rows) = clamp_dims (if rq_cols req = 0 then 80 else rq_cols req)
                                                (if rq_rows req = 0 then 24 else rq_rows req) in
                  case launch_pty c w req account cols rows of
                    None \<Rightarrow> None
                  | Some (Inl e) \<Rightarrow> Some (m, Err e)
                  | Some (Inr pty) \<Rightarrow>
                      (case lw_pump_thread w of
                         Inl e \<Rightarrow> Some (m, Err (Internal (lit ''spawn pump thread: '' @ e)))
                       | Inr _ \<Rightarrow>
                           Some (m\<lparr>sm_shells := assoc_put sid
                                     (new_entry A sha256 c req account pty cols rows sid token now)
                                     (sm_shells m),
                                   sm_idempotency := assoc_put idem_key sid (sm_idempotency m)\<rparr>,
                                 Ok \<lparr>os_shell_id = sid, os_resume_token = token, os_reused = False\<rparr>)))))"

section \<open>Attaching and detaching\<close>

definition attach_runtime ::
  "'vt avt_ops \<Rightarrow> (bytes \<Rightarrow> bytes) \<Rightarrow> session_core_config \<Rightarrow> bytes \<Rightarrow> nat \<Rightarrow> nat \<Rightarrow> bytes \<Rightarrow> int
     \<Rightarrow> (pty_error + unit) \<Rightarrow> 'vt runtime \<Rightarrow> 'vt runtime \<times> (session_error + attachment)" where
  "attach_runtime A sha256 c sid cols rows fresh now resize_result rt =
     (if rt_state rt \<noteq> Running then (rt, Err NotRunning)
      else if length (rt_attachments rt) \<ge> max_attachments_per_shell c then
        (rt, Err (LimitExceeded (lit ''max_attachments_per_shell'')))
      else
        (let (ccols, crows) = clamp_dims cols rows;
             resize = (cols \<noteq> 0 \<and> rows \<noteq> 0 \<and> tm_size (rt_model rt) \<noteq> (ccols, crows))
         in
         if resize \<and> rt_pty rt \<noteq> None \<and> \<not> is_ok resize_result then
           (rt, Err (Pty (projl resize_result)))
         else
           (let rt1 = (if resize then
                         rt\<lparr>rt_pty := map_option (\<lambda>p. p\<lparr>pty_cols := ccols, pty_rows := crows\<rparr>) (rt_pty rt),
                            rt_model := fst (tm_resize A (rt_model rt) ccols crows)\<rparr>
                       else rt);
                rt2 = (rotate_token sha256 fresh rt1)\<lparr>rt_last_attached_at_ms := now\<rparr>;
                aid = rt_next_attachment_id rt2;
                rt3 = rt2\<lparr>rt_next_attachment_id := aid + 1,
                          rt_attachments := assoc_put aid chan_new (rt_attachments rt2)\<rparr>
            in (rt3, Ok \<lparr>at_id = aid, at_shell_id = sid, at_snapshot = tm_snapshot A (rt_model rt3),
                        at_screen_revision = tm_revision (rt_model rt3),
                        at_rotated_resume_token = fresh,
                        at_oldest_history_line_id = oldest_line_id (rt_model rt3),
                        at_newest_history_line_id = newest_line_id (rt_model rt3)\<rparr>))))"

definition attach ::
  "'vt avt_ops \<Rightarrow> (bytes \<Rightarrow> bytes) \<Rightarrow> rstring \<Rightarrow> bytes \<Rightarrow> bytes \<Rightarrow> nat \<Rightarrow> nat \<Rightarrow> bytes \<Rightarrow> int
     \<Rightarrow> (pty_error + unit) \<Rightarrow> 'vt shell_manager \<Rightarrow> 'vt shell_manager \<times> (session_error + attachment)" where
  "attach A sha256 owner sid token cols rows fresh now resize_result m =
     (case map_of (sm_shells m) sid of
        None \<Rightarrow> (m, Err ShellNotFound)
      | Some e \<Rightarrow>
          if se_owner e \<noteq> owner then (m, Err ShellNotFound)
          else
            (let rt = se_runtime e in
             if rt_token_hash rt \<noteq> token_hash_of sha256 token then
               (if List.member (rt_superseded rt) (token_hash_of sha256 token)
                then (m, Err TokenReplayed) else (m, Err InvalidToken))
             else
               (let (rt', r) = attach_runtime A sha256 (sm_config m) sid cols rows fresh now resize_result rt
                in (set_runtime sid (\<lambda>_. rt') m, r))))"

definition attach_authorized ::
  "'vt avt_ops \<Rightarrow> (bytes \<Rightarrow> bytes) \<Rightarrow> rstring \<Rightarrow> bytes \<Rightarrow> nat \<Rightarrow> nat \<Rightarrow> bytes \<Rightarrow> int
     \<Rightarrow> (pty_error + unit) \<Rightarrow> 'vt shell_manager \<Rightarrow> 'vt shell_manager \<times> (session_error + attachment)" where
  "attach_authorized A sha256 owner sid cols rows fresh now resize_result m =
     (case map_of (sm_shells m) sid of
        None \<Rightarrow> (m, Err ShellNotFound)
      | Some e \<Rightarrow>
          if se_owner e \<noteq> owner then (m, Err ShellNotFound)
          else
            (let (rt', r) = attach_runtime A sha256 (sm_config m) sid cols rows fresh now resize_result
                              (se_runtime e)
             in (set_runtime sid (\<lambda>_. rt') m, r)))"

text \<open>Dropping the sender of an attachment; its receiver can still read what is queued.\<close>

definition drop_sender :: "nat \<Rightarrow> 'vt runtime \<Rightarrow> 'vt runtime" where
  "drop_sender aid rt =
     (case map_of (rt_attachments rt) aid of
        None \<Rightarrow> rt
      | Some c \<Rightarrow> rt\<lparr>rt_attachments := assoc_del aid (rt_attachments rt),
                     rt_closed := rt_closed rt @ [(aid, c)]\<rparr>)"

definition detach :: "bytes \<Rightarrow> nat \<Rightarrow> 'vt shell_manager \<Rightarrow> 'vt shell_manager \<times> (session_error + unit)" where
  "detach sid aid m =
     (case map_of (sm_shells m) sid of
        None \<Rightarrow> (m, Err ShellNotFound)
      | Some e \<Rightarrow> (set_runtime sid (drop_sender aid) m, Ok ()))"

section \<open>Input, size and termination\<close>

definition write_input ::
  "bytes \<Rightarrow> bytes \<Rightarrow> (pty_error + unit) \<Rightarrow> 'vt shell_manager \<Rightarrow> 'vt shell_manager \<times> (session_error + unit)" where
  "write_input sid data write_result m =
     (case map_of (sm_shells m) sid of
        None \<Rightarrow> (m, Err ShellNotFound)
      | Some e \<Rightarrow>
          (case rt_pty (se_runtime e) of
             None \<Rightarrow> (m, Err NotRunning)
           | Some pty \<Rightarrow>
               (case write_result of
                  Inl err \<Rightarrow> (m, Err (Pty err))
                | Inr _ \<Rightarrow>
                    (set_runtime sid (\<lambda>rt. rt\<lparr>rt_pty := Some (pty\<lparr>pty_written := pty_written pty @ data\<rparr>)\<rparr>) m,
                     Ok ()))))"

definition resize ::
  "'vt avt_ops \<Rightarrow> bytes \<Rightarrow> nat \<Rightarrow> nat \<Rightarrow> (pty_error + unit) \<Rightarrow> 'vt shell_manager
     \<Rightarrow> 'vt shell_manager \<times> (session_error + unit)" where
  "resize A sid cols rows resize_result m =
     (if cols = 0 \<or> rows = 0 then (m, Ok ())
      else
        (let (ccols, crows) = clamp_dims cols rows in
         case map_of (sm_shells m) sid of
           None \<Rightarrow> (m, Err ShellNotFound)
         | Some e \<Rightarrow>
             (case rt_pty (se_runtime e) of
                None \<Rightarrow> (m, Err NotRunning)
              | Some pty \<Rightarrow>
                  (case resize_result of
                     Inl err \<Rightarrow> (m, Err (Pty err))
                   | Inr _ \<Rightarrow>
                       (set_runtime sid (\<lambda>rt. rt\<lparr>rt_pty := Some (pty\<lparr>pty_cols := ccols, pty_rows := crows\<rparr>),
                            rt_model := fst (tm_resize A (rt_model rt) ccols crows)\<rparr>) m, Ok ())))))"

datatype terminate_progress = Done "session_error + exit_summary" | Waiting

text \<open>\<open>terminate\<close> up to the condition wait, and from the wait on.\<close>

definition terminate_begin ::
  "bytes \<Rightarrow> (pty_error + unit) \<Rightarrow> 'vt shell_manager \<Rightarrow> 'vt shell_manager \<times> terminate_progress" where
  "terminate_begin sid kill_result m =
     (case map_of (sm_shells m) sid of
        None \<Rightarrow> (m, Done (Err ShellNotFound))
      | Some e \<Rightarrow>
          (case rt_exit (se_runtime e) of
             Some x \<Rightarrow> (m, Done (Ok x))
           | None \<Rightarrow>
               (let m' = set_runtime sid (\<lambda>rt. rt\<lparr>rt_state := Terminating\<rparr>) m in
                case (rt_pty (se_runtime e), kill_result) of
                  (Some _, Inl err) \<Rightarrow> (m', Done (Err (Pty err)))
                | _ \<Rightarrow> (m', Waiting))))"

text \<open>
  The waiting call keeps its own reference to the entry: \<open>held\<close> is what it reads when the
  entry has been removed from the map meanwhile.
\<close>

definition terminate_end ::
  "bytes \<Rightarrow> 'vt shell_entry \<Rightarrow> bool \<Rightarrow> 'vt shell_manager
     \<Rightarrow> ('vt shell_manager \<times> (session_error + exit_summary)) option" where
  "terminate_end sid held timed_out m =
     (let e = (case map_of (sm_shells m) sid of Some e \<Rightarrow> e | None \<Rightarrow> held) in
      if timed_out then Some (m, Err (Internal (lit ''shell did not exit after kill'')))
      else
        (case rt_exit (se_runtime e) of
           None \<Rightarrow> None
         | Some x \<Rightarrow> Some (set_runtime sid (\<lambda>rt. rt\<lparr>rt_state := Exited\<rparr>) m, Ok x)))"

text \<open>
  The whole call; \<open>await\<close> is what happens while it waits: the state after the other
  operations that ran, the entry it holds, and whether the wait timed out.
\<close>

definition terminate ::
  "bytes \<Rightarrow> (pty_error + unit) \<Rightarrow> ('vt shell_manager \<Rightarrow> 'vt shell_manager \<times> 'vt shell_entry \<times> bool)
     \<Rightarrow> 'vt shell_manager \<Rightarrow> ('vt shell_manager \<times> (session_error + exit_summary)) option" where
  "terminate sid kill_result await m =
     (case terminate_begin sid kill_result m of
        (m1, Done r) \<Rightarrow> Some (m1, r)
      | (m1, Waiting) \<Rightarrow>
          (case await m1 of (m2, held, timed_out) \<Rightarrow> terminate_end sid held timed_out m2))"

section \<open>Expiry\<close>

definition idle_anchor_ms :: "'vt shell_entry \<Rightarrow> int" where
  "idle_anchor_ms e =
     (if rt_last_attached_at_ms (se_runtime e) > 0 then rt_last_attached_at_ms (se_runtime e)
      else se_created_at_ms e)"

text \<open>\<open>as_millis() as i64\<close> keeps the low 64 bits of the count.\<close>

definition idle_cutoff :: "int \<Rightarrow> nat \<Rightarrow> int" where
  "idle_cutoff now ttl_ms = saturating_sub_i64 now (sint (of_nat ttl_ms :: u64))"

definition expired :: "int \<Rightarrow> 'vt shell_entry \<Rightarrow> bool" where
  "expired cutoff e \<longleftrightarrow>
     rt_state (se_runtime e) = Running \<and> rt_attachments (se_runtime e) = [] \<and> idle_anchor_ms e \<le> cutoff"

definition reap_candidates :: "int \<Rightarrow> 'vt shell_manager \<Rightarrow> 'vt shell_entry list" where
  "reap_candidates cutoff m = filter (expired cutoff) (map snd (sm_shells m))"

fun reap_loop ::
  "int \<Rightarrow> (bytes \<Rightarrow> pty_error + unit)
     \<Rightarrow> (bytes \<Rightarrow> 'vt shell_manager \<Rightarrow> 'vt shell_manager \<times> 'vt shell_entry \<times> bool)
     \<Rightarrow> 'vt shell_entry list \<Rightarrow> 'vt shell_manager
     \<Rightarrow> ('vt shell_manager \<times> (rstring \<times> bytes \<times> exit_summary) list) option" where
  "reap_loop cutoff kill await [] m = Some (m, [])"
| "reap_loop cutoff kill await (e # es) m =
     (let cur = (case map_of (sm_shells m) (se_id e) of Some e' \<Rightarrow> e' | None \<Rightarrow> e) in
      if \<not> expired cutoff cur then reap_loop cutoff kill await es m
      else
        (case terminate (se_id e) (kill (se_id e)) (await (se_id e)) m of
           None \<Rightarrow> None
         | Some (m', Inl _) \<Rightarrow> reap_loop cutoff kill await es m'
         | Some (m', Inr x) \<Rightarrow>
             map_option (apsnd ((#) (se_owner e, se_id e, x))) (reap_loop cutoff kill await es m')))"

definition reap_idle ::
  "nat \<Rightarrow> int \<Rightarrow> (bytes \<Rightarrow> pty_error + unit)
     \<Rightarrow> (bytes \<Rightarrow> 'vt shell_manager \<Rightarrow> 'vt shell_manager \<times> 'vt shell_entry \<times> bool)
     \<Rightarrow> 'vt shell_manager \<Rightarrow> ('vt shell_manager \<times> (rstring \<times> bytes \<times> exit_summary) list) option" where
  "reap_idle ttl_ms now kill await m =
     (let cutoff = idle_cutoff now ttl_ms in
      reap_loop cutoff kill await (reap_candidates cutoff m) m)"

section \<open>Reads\<close>

definition history ::
  "bytes \<Rightarrow> nat \<Rightarrow> nat \<Rightarrow> nat \<Rightarrow> 'vt shell_manager \<Rightarrow> (session_error + history_range) option" where
  "history sid before_line_id maximum_lines maximum_bytes m =
     (case map_of (sm_shells m) sid of
        None \<Rightarrow> Some (Err ShellNotFound)
      | Some e \<Rightarrow>
          map_option Ok (tm_history_range (rt_model (se_runtime e)) before_line_id maximum_lines maximum_bytes))"

definition history_bounds :: "bytes \<Rightarrow> 'vt shell_manager \<Rightarrow> session_error + (nat \<times> nat)" where
  "history_bounds sid m =
     (case map_of (sm_shells m) sid of
        None \<Rightarrow> Err ShellNotFound
      | Some e \<Rightarrow> Ok (oldest_line_id (rt_model (se_runtime e)), newest_line_id (rt_model (se_runtime e))))"

definition info_of :: "'vt shell_entry \<Rightarrow> shell_info" where
  "info_of e =
     (let rt = se_runtime e in
      \<lparr>si_shell_id = se_id e, si_state = rt_state rt, si_exit = rt_exit rt,
       si_created_at_ms = se_created_at_ms e, si_last_attached_at_ms = rt_last_attached_at_ms rt,
       si_attachment_count = length (rt_attachments rt), si_owner = se_owner e, si_account = se_account e\<rparr>)"

definition shell_info_of :: "bytes \<Rightarrow> 'vt shell_manager \<Rightarrow> session_error + shell_info" where
  "shell_info_of sid m =
     (case map_of (sm_shells m) sid of None \<Rightarrow> Err ShellNotFound | Some e \<Rightarrow> Ok (info_of e))"

definition list_shells :: "'vt shell_manager \<Rightarrow> shell_info list" where
  "list_shells m = sort_key si_created_at_ms (map info_of (map snd (sm_shells m)))"

definition remove_exited :: "bytes \<Rightarrow> 'vt shell_manager \<Rightarrow> 'vt shell_manager \<times> (session_error + unit)" where
  "remove_exited sid m =
     (case map_of (sm_shells m) sid of
        None \<Rightarrow> (m, Err ShellNotFound)
      | Some e \<Rightarrow>
          if rt_state (se_runtime e) \<noteq> Exited then (m, Err NotRunning)
          else (m\<lparr>sm_shells := assoc_del sid (sm_shells m),
                  sm_idempotency := filter (\<lambda>(k, i). i \<noteq> sid) (sm_idempotency m)\<rparr>, Ok ()))"

section \<open>The pump\<close>

definition fan_out :: "nat \<Rightarrow> attachment_event \<Rightarrow> 'vt runtime \<Rightarrow> 'vt runtime" where
  "fan_out bound ev rt =
     rt\<lparr>rt_attachments :=
          List.map_filter (\<lambda>(aid, c). case try_send bound c ev of Inl _ \<Rightarrow> None | Inr c' \<Rightarrow> Some (aid, c'))
            (rt_attachments rt),
        rt_closed := rt_closed rt
          @ filter (\<lambda>(aid, c). \<not> is_ok (try_send bound c ev)) (rt_attachments rt)\<rparr>"

definition pump_chunk :: "'vt avt_ops \<Rightarrow> nat \<Rightarrow> bytes \<Rightarrow> 'vt runtime \<Rightarrow> 'vt runtime option" where
  "pump_chunk A bound chunk rt =
     (case tm_feed A (rt_model rt) chunk of
        None \<Rightarrow> None
      | Some (model, _) \<Rightarrow> Some (fan_out bound (Output chunk) (rt\<lparr>rt_model := model\<rparr>)))"

definition lost_exit :: exit_summary where
  "lost_exit = \<lparr>success = False, exit_code = 255\<rparr>"

definition pump_eof :: "nat \<Rightarrow> (pty_error + exit_summary) \<Rightarrow> 'vt runtime \<Rightarrow> 'vt runtime" where
  "pump_eof bound wait_result rt =
     (let x = (case rt_pty rt of
                 Some _ \<Rightarrow> (case wait_result of Inr x \<Rightarrow> x | Inl _ \<Rightarrow> lost_exit)
               | None \<Rightarrow> lost_exit)
      in rt\<lparr>rt_pty := None, rt_state := Exited, rt_exit := Some x, rt_attachments := [],
            rt_closed := rt_closed rt
              @ map (\<lambda>(aid, c). (aid, case try_send bound c (ExitedEvent x) of Inl _ \<Rightarrow> c | Inr c' \<Rightarrow> c'))
                  (rt_attachments rt)\<rparr>)"

end
