(* ===== verification/Session_Safety.thy ===== *)
theory Session_Safety
  imports Session
begin

text \<open>
  The session core as a state machine. An event is one atomic step of a caller, of a shell's
  pump thread or of an attachment's receiver; \<open>enabled\<close> says when the environment can produce
  it (fresh identifiers, a pump that runs until end of file, a condition wait that ends early
  only when its condition holds). The invariant \<open>sm_inv\<close> ties the shell state to the PTY, the
  exit status and the attachments, the PTY size to the screen size, the idempotency map to the
  owners, and holds every limit.
\<close>

section \<open>Events\<close>

datatype session_event =
    EvOpen launch_world open_shell_request bytes bytes int
  | EvAttach rstring bytes bytes nat nat bytes int "pty_error + unit"
  | EvAttachAuthorized rstring bytes nat nat bytes int "pty_error + unit"
  | EvDetach bytes nat
  | EvWrite bytes bytes "pty_error + unit"
  | EvResize bytes nat nat "pty_error + unit"
  | EvTerminateBegin bytes "pty_error + unit"
  | EvTerminateEnd bytes bool
  | EvPumpChunk bytes bytes
  | EvPumpEof bytes "pty_error + exit_summary"
  | EvRecv bytes nat
  | EvHangup bytes nat
  | EvRemove bytes

definition on_channel :: "nat \<Rightarrow> (chan \<Rightarrow> chan) \<Rightarrow> 'vt runtime \<Rightarrow> 'vt runtime" where
  "on_channel aid f rt =
     rt\<lparr>rt_attachments := assoc_upd aid f (rt_attachments rt),
        rt_closed := assoc_upd aid f (rt_closed rt)\<rparr>"

definition hang_up :: "chan \<Rightarrow> chan" where
  "hang_up c = c\<lparr>ch_receiver := False\<rparr>"

fun session_exec ::
  "'vt avt_ops \<Rightarrow> (bytes \<Rightarrow> bytes) \<Rightarrow> 'vt shell_manager \<Rightarrow> session_event \<Rightarrow> 'vt shell_manager option" where
  "session_exec A sha256 m (EvOpen w req sid token now) =
     map_option fst (open_shell A sha256 w req sid token now m)"
| "session_exec A sha256 m (EvAttach owner sid token cols rows fresh now res) =
     Some (fst (attach A sha256 owner sid token cols rows fresh now res m))"
| "session_exec A sha256 m (EvAttachAuthorized owner sid cols rows fresh now res) =
     Some (fst (attach_authorized A sha256 owner sid cols rows fresh now res m))"
| "session_exec A sha256 m (EvDetach sid aid) = Some (fst (detach sid aid m))"
| "session_exec A sha256 m (EvWrite sid data res) = Some (fst (write_input sid data res m))"
| "session_exec A sha256 m (EvResize sid cols rows res) = Some (fst (resize A sid cols rows res m))"
| "session_exec A sha256 m (EvTerminateBegin sid res) = Some (fst (terminate_begin sid res m))"
| "session_exec A sha256 m (EvTerminateEnd sid timed_out) =
     (case map_of (sm_shells m) sid of
        None \<Rightarrow> Some m
      | Some e \<Rightarrow> map_option fst (terminate_end sid e timed_out m))"
| "session_exec A sha256 m (EvPumpChunk sid chunk) =
     (case map_of (sm_shells m) sid of
        None \<Rightarrow> Some m
      | Some e \<Rightarrow>
          map_option (\<lambda>rt. set_runtime sid (\<lambda>_. rt) m)
            (pump_chunk A (max_queued_chunks (sm_config m)) chunk (se_runtime e)))"
| "session_exec A sha256 m (EvPumpEof sid wait_result) =
     Some (set_runtime sid (pump_eof (max_queued_chunks (sm_config m)) wait_result) m)"
| "session_exec A sha256 m (EvRecv sid aid) = Some (set_runtime sid (on_channel aid chan_recv) m)"
| "session_exec A sha256 m (EvHangup sid aid) = Some (set_runtime sid (on_channel aid hang_up) m)"
| "session_exec A sha256 m (EvRemove sid) = Some (fst (remove_exited sid m))"

definition exit_of :: "bytes \<Rightarrow> 'vt shell_manager \<Rightarrow> exit_summary option" where
  "exit_of sid m = Option.bind (map_of (sm_shells m) sid) (\<lambda>e. rt_exit (se_runtime e))"

fun enabled :: "'vt shell_manager \<Rightarrow> session_event \<Rightarrow> bool" where
  "enabled m (EvOpen w req sid token now) \<longleftrightarrow> sid \<notin> set (keys (sm_shells m))"
| "enabled m (EvTerminateEnd sid timed_out) \<longleftrightarrow> timed_out \<or> exit_of sid m \<noteq> None"
| "enabled m (EvPumpChunk sid chunk) \<longleftrightarrow> exit_of sid m = None"
| "enabled m (EvPumpEof sid wait_result) \<longleftrightarrow> exit_of sid m = None"
| "enabled m _ \<longleftrightarrow> True"

definition session_step ::
  "'vt avt_ops \<Rightarrow> (bytes \<Rightarrow> bytes) \<Rightarrow> 'vt shell_manager \<Rightarrow> session_event \<Rightarrow> 'vt shell_manager" where
  "session_step A sha256 m ev =
     (if enabled m ev then (case session_exec A sha256 m ev of Some m' \<Rightarrow> m' | None \<Rightarrow> m) else m)"

section \<open>Invariant\<close>

definition chans_ok :: "session_core_config \<Rightarrow> (nat \<times> chan) list \<Rightarrow> (nat \<times> chan) list \<Rightarrow> nat \<Rightarrow> bool" where
  "chans_ok c att closed next \<longleftrightarrow>
     distinct (keys (att @ closed))
     \<and> (\<forall>a \<in> set (keys (att @ closed)). a < next)
     \<and> length att \<le> max_attachments_per_shell c
     \<and> (\<forall>(a, ch) \<in> set att. length (ch_queue ch) \<le> max_queued_chunks c)"

definition rt_inv :: "session_core_config \<Rightarrow> 'vt runtime \<Rightarrow> bool" where
  "rt_inv c rt \<longleftrightarrow>
     (rt_state rt = Exited \<longleftrightarrow> rt_exit rt \<noteq> None)
     \<and> (rt_pty rt = None \<longleftrightarrow> rt_exit rt \<noteq> None)
     \<and> (rt_exit rt \<noteq> None \<longrightarrow> rt_attachments rt = [])
     \<and> chans_ok c (rt_attachments rt) (rt_closed rt) (rt_next_attachment_id rt)
     \<and> length (rt_superseded rt) \<le> SUPERSEDED_TOKEN_HISTORY
     \<and> tm_inv (rt_model rt)
     \<and> (\<forall>p. rt_pty rt = Some p \<longrightarrow> (pty_cols p, pty_rows p) = tm_size (rt_model rt))"

definition owned :: "rstring \<Rightarrow> 'vt shell_entry \<Rightarrow> bool" where
  "owned u e \<longleftrightarrow> se_owner e = u"

definition sm_inv :: "'vt shell_manager \<Rightarrow> bool" where
  "sm_inv m \<longleftrightarrow>
     distinct (keys (sm_shells m))
     \<and> (\<forall>(sid, e) \<in> set (sm_shells m). se_id e = sid \<and> rt_inv (sm_config m) (se_runtime e))
     \<and> distinct (keys (sm_idempotency m))
     \<and> (\<forall>((u, k), sid) \<in> set (sm_idempotency m). \<exists>e. map_of (sm_shells m) sid = Some e \<and> se_owner e = u)
     \<and> length (live_shells m) \<le> max_shells (sm_config m)
     \<and> (max_shells_per_user (sm_config m) > 0 \<longrightarrow>
          (\<forall>u. length (filter (owned u) (live_shells m)) \<le> max_shells_per_user (sm_config m)))"

lemma keys_eq: "keys = map fst"
  by (rule ext) (simp add: keys_def)

lemma owned_abs: "owned u = (\<lambda>e. se_owner e = u)"
  by (simp add: owned_def fun_eq_iff)

lemma manager_inv: "sm_inv (manager_with_policy config policy)"
  by (simp add: sm_inv_def manager_with_policy_def live_shells_def)

lemma sm_inv_entry:
  "sm_inv m \<Longrightarrow> map_of (sm_shells m) sid = Some e \<Longrightarrow>
     se_id e = sid \<and> rt_inv (sm_config m) (se_runtime e)"
  by (fastforce simp: sm_inv_def dest: map_of_SomeD)

lemma sm_inv_idem:
  assumes "sm_inv m" and "((u, k), s) \<in> set (sm_idempotency m)"
  shows "\<exists>e. map_of (sm_shells m) s = Some e \<and> se_owner e = u"
proof -
  have "\<forall>x \<in> set (sm_idempotency m). case x of ((u, k), s) \<Rightarrow> \<exists>e. map_of (sm_shells m) s = Some e \<and> se_owner e = u"
    using assms(1) unfolding sm_inv_def by blast
  from bspec [OF this assms(2)] show ?thesis by simp
qed

section \<open>Updating one shell\<close>

lemma filter_assoc_upd_le:
  assumes "\<And>v. (k, v) \<in> set xs \<Longrightarrow> P (f v) \<Longrightarrow> P v"
  shows "length (filter P (map snd (assoc_upd k f xs))) \<le> length (filter P (map snd xs))"
  using assms
proof (induction xs)
  case (Cons x xs)
  then have "length (filter P (map snd (assoc_upd k f xs))) \<le> length (filter P (map snd xs))" by simp
  then show ?case using Cons.prems [of "snd x"] by (cases x) (auto simp: assoc_upd_def)
qed (simp add: assoc_upd_def)

lemma set_runtime_same_fields [simp]:
  "sm_config (set_runtime sid f m) = sm_config m" "sm_policy (set_runtime sid f m) = sm_policy m"
  "sm_idempotency (set_runtime sid f m) = sm_idempotency m"
  by (simp_all add: set_runtime_def)

lemma set_runtime_keys [simp]: "keys (sm_shells (set_runtime sid f m)) = keys (sm_shells m)"
  by (simp add: set_runtime_def)

lemma lookup_set_runtime:
  "map_of (sm_shells (set_runtime sid f m)) sid' =
     (if sid' = sid then map_option (\<lambda>e. e\<lparr>se_runtime := f (se_runtime e)\<rparr>) (map_of (sm_shells m) sid)
      else map_of (sm_shells m) sid')"
  by (simp add: set_runtime_def)

lemma set_runtime_inv:
  assumes inv: "sm_inv m"
    and f: "\<And>e. map_of (sm_shells m) sid = Some e \<Longrightarrow> rt_inv (sm_config m) (se_runtime e) \<Longrightarrow>
      rt_inv (sm_config m) (f (se_runtime e))
      \<and> (rt_state (f (se_runtime e)) \<noteq> Exited \<longrightarrow> rt_state (se_runtime e) \<noteq> Exited)"
  shows "sm_inv (set_runtime sid f m)"
proof -
  let ?g = "\<lambda>e. e\<lparr>se_runtime := f (se_runtime e)\<rparr>"
  have d: "distinct (keys (sm_shells m))" using inv by (simp add: sm_inv_def)
  have ent: "rt_inv (sm_config m) (f (se_runtime e))
      \<and> (rt_state (f (se_runtime e)) \<noteq> Exited \<longrightarrow> rt_state (se_runtime e) \<noteq> Exited)"
    if "(sid, e) \<in> set (sm_shells m)" for e
    using that f sm_inv_entry [OF inv] map_of_in_set [OF d] by metis
  have live_le: "length (filter P (filter live (map snd (assoc_upd sid ?g (sm_shells m)))))
      \<le> length (filter P (filter live (map snd (sm_shells m))))"
    if "\<And>e. P (?g e) = P e" for P
    unfolding filter_filter
    by (rule filter_assoc_upd_le) (use ent that in \<open>auto simp: live_def\<close>)
  have 1: "\<forall>(s, e) \<in> set (sm_shells (set_runtime sid f m)). se_id e = s \<and> rt_inv (sm_config m) (se_runtime e)"
    using inv ent by (auto simp: sm_inv_def set_runtime_def assoc_upd_def split: if_splits)
  have 2: "\<forall>((u, k), s) \<in> set (sm_idempotency m).
      \<exists>e. map_of (sm_shells (set_runtime sid f m)) s = Some e \<and> se_owner e = u"
    using inv by (fastforce simp: sm_inv_def lookup_set_runtime)
  have 3: "length (live_shells (set_runtime sid f m)) \<le> max_shells (sm_config m)"
    using live_le [of "\<lambda>_. True"] inv by (simp add: sm_inv_def live_shells_def set_runtime_def)
  have 4: "length (filter (owned u) (live_shells (set_runtime sid f m)))
      \<le> length (filter (owned u) (live_shells m))" for u
    using live_le [of "owned u"] by (simp add: live_shells_def set_runtime_def owned_def)
  show ?thesis
    using inv 1 2 3 4 le_trans unfolding sm_inv_def set_runtime_same_fields set_runtime_keys by meson
qed

lemma set_runtime_const_inv:
  assumes "sm_inv m" and "map_of (sm_shells m) sid = Some e" and "rt_inv (sm_config m) rt'"
    and "rt_state rt' \<noteq> Exited \<longrightarrow> rt_state (se_runtime e) \<noteq> Exited"
  shows "sm_inv (set_runtime sid (\<lambda>_. rt') m)"
  using assms by (intro set_runtime_inv) auto

section \<open>Each operation keeps the invariant of a shell\<close>

lemma push_superseded_length:
  "length r \<le> SUPERSEDED_TOKEN_HISTORY \<Longrightarrow> length (push_superseded r h) \<le> SUPERSEDED_TOKEN_HISTORY"
  by (auto simp: push_superseded_def SUPERSEDED_TOKEN_HISTORY_def)

lemma rotate_token_inv: "rt_inv c rt \<Longrightarrow> rt_inv c (rotate_token sha256 fresh rt)"
  by (auto simp: rt_inv_def rotate_token_def push_superseded_length)

lemma rotate_token_fields [simp]:
  "rt_state (rotate_token sha256 fresh rt) = rt_state rt"
  "rt_model (rotate_token sha256 fresh rt) = rt_model rt"
  "rt_pty (rotate_token sha256 fresh rt) = rt_pty rt"
  "rt_attachments (rotate_token sha256 fresh rt) = rt_attachments rt"
  "rt_closed (rotate_token sha256 fresh rt) = rt_closed rt"
  "rt_next_attachment_id (rotate_token sha256 fresh rt) = rt_next_attachment_id rt"
  "rt_exit (rotate_token sha256 fresh rt) = rt_exit rt"
  by (simp_all add: rotate_token_def)

lemma resize_rt_inv:
  assumes "rt_inv c rt"
  shows "rt_inv c (rt\<lparr>rt_pty := map_option (\<lambda>p. p\<lparr>pty_cols := max cols MIN_COLS, pty_rows := max rows MIN_ROWS\<rparr>) (rt_pty rt),
     rt_model := fst (tm_resize A (rt_model rt) (max cols MIN_COLS) (max rows MIN_ROWS))\<rparr>)"
  using assms tm_resize_size [of A "rt_model rt" "max cols MIN_COLS" "max rows MIN_ROWS"]
  by (auto simp: rt_inv_def tm_resize_inv)

lemma new_attachment_inv:
  assumes "rt_inv c rt" and "rt_exit rt = None" and "length (rt_attachments rt) < max_attachments_per_shell c"
  shows "rt_inv c (rt\<lparr>rt_next_attachment_id := rt_next_attachment_id rt + 1,
     rt_attachments := assoc_put (rt_next_attachment_id rt) chan_new (rt_attachments rt)\<rparr>)"
proof -
  let ?n = "rt_next_attachment_id rt"
  have "chans_ok c (assoc_put ?n chan_new (rt_attachments rt)) (rt_closed rt) (?n + 1)"
    using assms(1,3) by (auto simp: rt_inv_def chans_ok_def assoc_put_def chan_new_def less_SucI)
  then show ?thesis using assms by (auto simp: rt_inv_def)
qed

lemma attach_runtime_cases:
  obtains e where "attach_runtime A sha256 c sid cols rows fresh now res rt = (rt, Err e)"
  | rt1 where "rt_state rt = Running" and "length (rt_attachments rt) < max_attachments_per_shell c"
      and "rt1 = rt \<or> rt1 = rt\<lparr>rt_pty := map_option (\<lambda>p. p\<lparr>pty_cols := max cols MIN_COLS, pty_rows := max rows MIN_ROWS\<rparr>) (rt_pty rt),
            rt_model := fst (tm_resize A (rt_model rt) (max cols MIN_COLS) (max rows MIN_ROWS))\<rparr>"
      and "attach_runtime A sha256 c sid cols rows fresh now res rt =
        ((rotate_token sha256 fresh rt1)\<lparr>rt_last_attached_at_ms := now,
            rt_next_attachment_id := rt_next_attachment_id rt + 1,
            rt_attachments := assoc_put (rt_next_attachment_id rt) chan_new (rt_attachments rt)\<rparr>,
         Ok \<lparr>at_id = rt_next_attachment_id rt, at_shell_id = sid, at_snapshot = tm_snapshot A (rt_model rt1),
             at_screen_revision = tm_revision (rt_model rt1), at_rotated_resume_token = fresh,
             at_oldest_history_line_id = oldest_line_id (rt_model rt1),
             at_newest_history_line_id = newest_line_id (rt_model rt1)\<rparr>)"
proof (cases "\<exists>e. attach_runtime A sha256 c sid cols rows fresh now res rt = (rt, Err e)")
  case True
  then show ?thesis using that(1) by blast
next
  case False
  let ?resized = "rt\<lparr>rt_pty := map_option (\<lambda>p. p\<lparr>pty_cols := max cols MIN_COLS, pty_rows := max rows MIN_ROWS\<rparr>) (rt_pty rt),
            rt_model := fst (tm_resize A (rt_model rt) (max cols MIN_COLS) (max rows MIN_ROWS))\<rparr>"
  define resize where "resize \<longleftrightarrow> cols \<noteq> 0 \<and> rows \<noteq> 0 \<and> tm_size (rt_model rt) \<noteq> (max cols MIN_COLS, max rows MIN_ROWS)"
  define rt1 where "rt1 = (if resize then ?resized else rt)"
  have g: "rt_state rt = Running" "length (rt_attachments rt) < max_attachments_per_shell c"
      "\<not> (resize \<and> rt_pty rt \<noteq> None \<and> \<not> is_ok res)"
    using False by (auto simp: attach_runtime_def clamp_dims_def Let_def resize_def split: if_splits)
  show ?thesis
  proof (rule that(2) [of rt1])
    show "rt1 = rt \<or> rt1 = ?resized" by (simp add: rt1_def)
  qed (use g in \<open>auto simp: attach_runtime_def clamp_dims_def Let_def rt1_def resize_def not_le\<close>)
qed

lemma attach_runtime_inv:
  assumes "rt_inv c rt"
  shows "rt_inv c (fst (attach_runtime A sha256 c sid cols rows fresh now res rt))"
    and "rt_state (fst (attach_runtime A sha256 c sid cols rows fresh now res rt)) = rt_state rt"
proof -
  have "rt_inv c (fst (attach_runtime A sha256 c sid cols rows fresh now res rt))
    \<and> rt_state (fst (attach_runtime A sha256 c sid cols rows fresh now res rt)) = rt_state rt"
  proof (cases rule: attach_runtime_cases [of A sha256 c sid cols rows fresh now res rt])
    case (1 e)
    then show ?thesis using assms by simp
  next
    case (2 rt1)
    have i1: "rt_inv c rt1" using 2(3) assms resize_rt_inv by metis
    have s: "rt_state rt1 = Running" "rt_attachments rt1 = rt_attachments rt" "rt_exit rt1 = rt_exit rt"
        "rt_next_attachment_id rt1 = rt_next_attachment_id rt"
      using 2(1,3) by auto
    have x: "rt_exit rt = None" using assms 2(1) by (auto simp: rt_inv_def)
    have "rt_inv c ((rotate_token sha256 fresh rt1)\<lparr>rt_last_attached_at_ms := now\<rparr>)"
      using rotate_token_inv [OF i1, of sha256 fresh] by (simp add: rt_inv_def)
    from new_attachment_inv [OF this] show ?thesis using 2 s x by simp
  qed
  then show "rt_inv c (fst (attach_runtime A sha256 c sid cols rows fresh now res rt))"
    and "rt_state (fst (attach_runtime A sha256 c sid cols rows fresh now res rt)) = rt_state rt"
    by simp_all
qed

lemma chans_drop:
  assumes ok: "chans_ok c att closed n" and aid: "aid \<in> set (keys att)"
  shows "chans_ok c (assoc_del aid att) (closed @ [(aid, ch)]) n"
  unfolding chans_ok_def
proof (intro conjI)
  have d: "distinct (keys att)" "distinct (keys closed)" "set (keys att) \<inter> set (keys closed) = {}"
    using ok by (auto simp: chans_ok_def)
  then show "distinct (keys (assoc_del aid att @ closed @ [(aid, ch)]))"
    using aid by (auto simp: set_keys_del)
  show "\<forall>a \<in> set (keys (assoc_del aid att @ closed @ [(aid, ch)])). a < n"
    using ok aid by (auto simp: chans_ok_def set_keys_del)
  show "length (assoc_del aid att) \<le> max_attachments_per_shell c"
    using ok length_assoc_del [of aid att] by (simp add: chans_ok_def)
  show "\<forall>(a, ch) \<in> set (assoc_del aid att). length (ch_queue ch) \<le> max_queued_chunks c"
    using ok set_assoc_del [of aid att] by (auto simp: chans_ok_def)
qed

lemma drop_sender_inv:
  assumes "rt_inv c rt"
  shows "rt_inv c (drop_sender aid rt)"
proof (cases "map_of (rt_attachments rt) aid")
  case None
  then show ?thesis using assms by (simp add: drop_sender_def)
next
  case (Some ch)
  then have "aid \<in> set (keys (rt_attachments rt))"
    by (metis map_of_None_keys option.distinct(1))
  then have "chans_ok c (assoc_del aid (rt_attachments rt)) (rt_closed rt @ [(aid, ch)]) (rt_next_attachment_id rt)"
    using assms chans_drop by (auto simp: rt_inv_def)
  moreover have "rt_attachments rt = [] \<Longrightarrow> assoc_del aid (rt_attachments rt) = []" by (simp add: assoc_del_def)
  ultimately show ?thesis using assms Some by (simp add: rt_inv_def drop_sender_def)
qed

lemma drop_sender_state [simp]: "rt_state (drop_sender aid rt) = rt_state rt"
  by (simp add: drop_sender_def split: option.splits)

lemma on_channel_inv:
  assumes "rt_inv c rt" and "\<And>ch. length (ch_queue (f ch)) \<le> length (ch_queue ch)"
  shows "rt_inv c (on_channel aid f rt)"
proof -
  have "length (ch_queue ch) \<le> max_queued_chunks c"
    if upd: "(a, ch) \<in> set (assoc_upd aid f (rt_attachments rt))" for a ch
  proof -
    obtain ch' where "(a, ch') \<in> set (rt_attachments rt)" "ch = ch' \<or> ch = f ch'"
      using upd by (auto simp: in_assoc_upd split: if_splits)
    moreover have "length (ch_queue ch') \<le> max_queued_chunks c"
      using calculation(1) assms(1) by (auto simp: rt_inv_def chans_ok_def)
    ultimately show ?thesis using assms(2) [of ch'] le_trans by blast
  qed
  then have "chans_ok c (assoc_upd aid f (rt_attachments rt)) (assoc_upd aid f (rt_closed rt)) (rt_next_attachment_id rt)"
    using assms(1) by (auto simp: rt_inv_def chans_ok_def)
  moreover have "rt_attachments rt = [] \<Longrightarrow> assoc_upd aid f (rt_attachments rt) = []" by (simp add: assoc_upd_def)
  ultimately show ?thesis using assms(1) by (simp add: rt_inv_def on_channel_def)
qed

lemma chan_shrinks:
  "length (ch_queue (chan_recv ch)) \<le> length (ch_queue ch)" "length (ch_queue (hang_up ch)) \<le> length (ch_queue ch)"
  by (auto simp: chan_recv_def hang_up_def split: list.splits)

lemma try_send_Ok:
  "try_send bound ch ev = Ok ch' \<longleftrightarrow>
     ch_receiver ch \<and> length (ch_queue ch) < bound \<and> ch' = ch\<lparr>ch_queue := ch_queue ch @ [ev]\<rparr>"
  by (auto simp: try_send_def)

definition accepts :: "nat \<Rightarrow> chan \<Rightarrow> bool" where
  "accepts bound ch \<longleftrightarrow> ch_receiver ch \<and> length (ch_queue ch) < bound"

lemma try_send_accepts:
  "try_send bound ch ev =
     (if accepts bound ch then Ok (ch\<lparr>ch_queue := ch_queue ch @ [ev]\<rparr>)
      else Err (if ch_receiver ch then Full else Disconnected))"
  by (auto simp: try_send_def accepts_def)

lemma fan_out_attachments:
  "rt_attachments (fan_out bound ev rt) =
     map (\<lambda>(a, ch). (a, ch\<lparr>ch_queue := ch_queue ch @ [ev]\<rparr>)) (filter (\<lambda>(a, ch). accepts bound ch) (rt_attachments rt))"
proof -
  have "List.map_filter (\<lambda>(a, c). case try_send bound c ev of Inl _ \<Rightarrow> None | Inr c' \<Rightarrow> Some (a, c')) xs =
      map (\<lambda>(a, ch). (a, ch\<lparr>ch_queue := ch_queue ch @ [ev]\<rparr>)) (filter (\<lambda>(a, ch). accepts bound ch) xs)" for xs
    by (induction xs) (auto simp: map_filter_simps try_send_accepts)
  then show ?thesis by (simp add: fan_out_def)
qed

lemma fan_out_closed:
  "rt_closed (fan_out bound ev rt) = rt_closed rt @ filter (\<lambda>(a, ch). \<not> accepts bound ch) (rt_attachments rt)"
proof -
  have "(\<lambda>(a :: nat, c). \<not> is_ok (try_send bound c ev)) = (\<lambda>(a, c). \<not> accepts bound c)"
    by (auto simp: try_send_accepts fun_eq_iff)
  then show ?thesis by (simp add: fan_out_def)
qed

lemma fan_out_fields [simp]:
  "rt_state (fan_out bound ev rt) = rt_state rt" "rt_model (fan_out bound ev rt) = rt_model rt"
  "rt_pty (fan_out bound ev rt) = rt_pty rt" "rt_exit (fan_out bound ev rt) = rt_exit rt"
  "rt_next_attachment_id (fan_out bound ev rt) = rt_next_attachment_id rt"
  "rt_superseded (fan_out bound ev rt) = rt_superseded rt" "rt_token_hash (fan_out bound ev rt) = rt_token_hash rt"
  by (simp_all add: fan_out_def)

lemma keys_fan_out:
  "keys (rt_attachments (fan_out bound ev rt)) = keys (filter (\<lambda>(a, ch). accepts bound ch) (rt_attachments rt))"
  unfolding fan_out_attachments keys_def by (simp add: comp_def case_prod_unfold)

lemma keys_partition: "set (keys xs) = set (keys (filter P xs)) \<union> set (keys (filter (\<lambda>x. \<not> P x) xs))"
  by (auto simp: keys_def)

lemma distinct_keys_filter: "distinct (keys xs) \<Longrightarrow> distinct (keys (filter P xs))"
  by (simp add: keys_def distinct_map_filter)

lemma keys_filter_disjoint:
  "distinct (keys xs) \<Longrightarrow> set (keys (filter P xs)) \<inter> set (keys (filter (\<lambda>x. \<not> P x) xs)) = {}"
  by (induction xs) (auto simp: keys_def)

lemma chans_fan_out:
  assumes "chans_ok c (rt_attachments rt) (rt_closed rt) (rt_next_attachment_id rt)"
    and "bound = max_queued_chunks c"
  shows "chans_ok c (rt_attachments (fan_out bound ev rt)) (rt_closed (fan_out bound ev rt)) (rt_next_attachment_id rt)"
  unfolding chans_ok_def
proof (intro conjI)
  let ?P = "\<lambda>(a :: nat, ch). accepts bound ch"
  have neg: "(\<lambda>(a :: nat, ch). \<not> accepts bound ch) = (\<lambda>x. \<not> ?P x)" by auto
  have d: "distinct (keys (rt_attachments rt))" "distinct (keys (rt_closed rt))"
      "set (keys (rt_attachments rt)) \<inter> set (keys (rt_closed rt)) = {}"
    using assms(1) by (auto simp: chans_ok_def)
  note p = keys_partition [of "rt_attachments rt" ?P]
  show "distinct (keys (rt_attachments (fan_out bound ev rt) @ rt_closed (fan_out bound ev rt)))"
    using d p keys_filter_disjoint [OF d(1), of ?P]
    by (auto simp: keys_fan_out fan_out_closed neg distinct_keys_filter)
  show "\<forall>a \<in> set (keys (rt_attachments (fan_out bound ev rt) @ rt_closed (fan_out bound ev rt))).
      a < rt_next_attachment_id rt"
    using assms(1) p by (auto simp: keys_fan_out fan_out_closed neg chans_ok_def)
  show "length (rt_attachments (fan_out bound ev rt)) \<le> max_attachments_per_shell c"
    using assms(1) le_trans [OF length_filter_le [of ?P "rt_attachments rt"]]
    by (auto simp: fan_out_attachments chans_ok_def)
  show "\<forall>(a, ch) \<in> set (rt_attachments (fan_out bound ev rt)). length (ch_queue ch) \<le> max_queued_chunks c"
    using assms(2) by (auto simp: fan_out_attachments accepts_def)
qed

lemma pump_chunk_inv:
  assumes "rt_inv c rt" and "rt_exit rt = None"
  shows "\<exists>rt'. pump_chunk A (max_queued_chunks c) chunk rt = Some rt' \<and> rt_inv c rt' \<and> rt_state rt' = rt_state rt"
proof -
  obtain m' rev where m': "tm_feed A (rt_model rt) chunk = Some (m', rev)" "tm_inv m'"
      "tm_size m' = tm_size (rt_model rt)"
    using tm_feed_total [of "rt_model rt" A chunk] assms(1) by (auto simp: rt_inv_def)
  let ?rt = "rt\<lparr>rt_model := m'\<rparr>"
  have "chans_ok c (rt_attachments ?rt) (rt_closed ?rt) (rt_next_attachment_id ?rt)"
    using assms(1) by (simp add: rt_inv_def)
  from chans_fan_out [OF this refl, of "Output chunk"]
  show ?thesis using m' assms by (simp add: pump_chunk_def rt_inv_def)
qed

lemma pump_eof_inv:
  assumes "rt_inv c rt"
  shows "rt_inv c (pump_eof (max_queued_chunks c) wait_result rt)"
    and "rt_state (pump_eof (max_queued_chunks c) wait_result rt) = Exited"
proof -
  have k: "keys (map (\<lambda>(a, ch). (a, g a ch)) xs) = keys xs" for g :: "nat \<Rightarrow> chan \<Rightarrow> chan" and xs
    by (simp add: keys_def comp_def case_prod_unfold)
  show "rt_inv c (pump_eof (max_queued_chunks c) wait_result rt)"
    using assms by (auto simp: rt_inv_def pump_eof_def Let_def chans_ok_def k)
  show "rt_state (pump_eof (max_queued_chunks c) wait_result rt) = Exited"
    by (simp add: pump_eof_def Let_def)
qed

section \<open>Each step keeps the invariant of the manager\<close>

lemma launch_pty_total:
  "\<exists>r. launch_pty c w req account cols rows = Some r
     \<and> (\<forall>p. r = Ok p \<longrightarrow> pty_cols p = cols \<and> pty_rows p = rows)"
proof -
  have "build_launch h pd limits acct cmd as \<noteq> None" for h pd limits acct cmd as
    by (auto simp: build_launch_def prlimit_wrap_def setpriv_wrap_def split: option.splits sum.splits)
  then obtain y where "build_launch (lw_host w) (privilege_drop c) (shell_limits c) account (rq_command req) (rq_args req) = Some y"
    by blast
  then show ?thesis
    by (auto simp: launch_pty_def Let_def split: option.splits sum.splits)
qed

lemma new_entry_inv:
  assumes "pty_cols pty = max cols MIN_COLS" and "pty_rows pty = max rows MIN_ROWS"
  shows "rt_inv c (se_runtime (new_entry A sha256 c req account pty (max cols MIN_COLS) (max rows MIN_ROWS) sid token now))"
proof -
  have "tm_size (tm_new A cfg) = (max (tmc_cols cfg) MIN_COLS, max (tmc_rows cfg) MIN_ROWS)" for cfg
    by (simp add: tm_new_def tm_size_def Let_def)
  then show ?thesis
    using assms by (simp add: rt_inv_def new_entry_def chans_ok_def tm_new_inv)
qed

lemma new_entry_fields [simp]:
  "se_id (new_entry A sha256 c req account pty cols rows sid token now) = sid"
  "se_owner (new_entry A sha256 c req account pty cols rows sid token now) = rq_user req"
  "se_account (new_entry A sha256 c req account pty cols rows sid token now) = account"
  "live (new_entry A sha256 c req account pty cols rows sid token now)"
  by (simp_all add: new_entry_def live_def)

lemma insert_shell_inv:
  assumes inv: "sm_inv m" and fresh: "sid \<notin> set (keys (sm_shells m))"
    and e: "se_id e = sid" "se_owner e = u" "rt_inv (sm_config m) (se_runtime e)"
    and cap: "length (live_shells m) < max_shells (sm_config m)"
    and ucap: "max_shells_per_user (sm_config m) > 0 \<longrightarrow>
      length (filter (owned u) (live_shells m)) < max_shells_per_user (sm_config m)"
    and idem: "\<And>v. map_of (sm_idempotency m) (u, k) = Some v \<Longrightarrow> False"
  shows "sm_inv (m\<lparr>sm_shells := assoc_put sid e (sm_shells m),
     sm_idempotency := assoc_put (u, k) sid (sm_idempotency m)\<rparr>)"
proof -
  let ?m = "m\<lparr>sm_shells := assoc_put sid e (sm_shells m),
     sm_idempotency := assoc_put (u, k) sid (sm_idempotency m)\<rparr>"
  have sh: "sm_shells ?m = sm_shells m @ [(sid, e)]" using fresh by (simp add: assoc_put_def)
  have "(u, k) \<notin> set (keys (sm_idempotency m))"
    using idem by (metis map_of_None_keys not_None_eq)
  then have id: "sm_idempotency ?m = sm_idempotency m @ [((u, k), sid)]" by (simp add: assoc_put_def)
  have live: "live_shells ?m = live_shells m @ (if live e then [e] else [])"
    unfolding live_shells_def sh by simp
  have look: "map_of (sm_shells ?m) s = (if s = sid then Some e else map_of (sm_shells m) s)" for s
    by simp
  have own: "\<forall>((u', k'), s) \<in> set (sm_idempotency ?m). \<exists>e. map_of (sm_shells ?m) s = Some e \<and> se_owner e = u'"
  proof -
    have "\<exists>e'. map_of (sm_shells ?m) s = Some e' \<and> se_owner e' = u'"
      if old: "((u', k'), s) \<in> set (sm_idempotency m)" for u' k' s
    proof -
      obtain e' where e': "map_of (sm_shells m) s = Some e'" "se_owner e' = u'"
        using sm_inv_idem [OF inv old] by blast
      then have "s \<noteq> sid" using fresh map_of_None_keys [of "sm_shells m" sid] by auto
      then show ?thesis using e' look by simp
    qed
    note old = this
    have new: "\<exists>e'. map_of (sm_shells ?m) sid = Some e' \<and> se_owner e' = u" using e(2) look by simp
    show ?thesis unfolding id using old new by (auto simp del: map_of_assoc_put dest: old)
  qed
  have "\<forall>(s, e) \<in> set (sm_shells ?m). se_id e = s \<and> rt_inv (sm_config ?m) (se_runtime e)"
    using inv e unfolding sh by (auto simp: sm_inv_def)
  moreover have "length (live_shells ?m) \<le> max_shells (sm_config ?m)"
    using cap unfolding live by simp
  moreover have "max_shells_per_user (sm_config ?m) > 0 \<longrightarrow>
      (\<forall>u. length (filter (owned u) (live_shells ?m)) \<le> max_shells_per_user (sm_config ?m))"
  proof (intro impI allI)
    fix u'
    assume pos: "max_shells_per_user (sm_config ?m) > 0"
    then have "length (filter (owned u') (live_shells m)) \<le> max_shells_per_user (sm_config m)"
      using inv by (simp add: sm_inv_def)
    then show "length (filter (owned u') (live_shells ?m)) \<le> max_shells_per_user (sm_config ?m)"
      using ucap pos e(2) unfolding live by (cases "u' = u") (simp_all add: owned_def)
  qed
  moreover have "distinct (keys (sm_shells ?m))" "distinct (keys (sm_idempotency ?m))"
    using inv by (simp_all add: sm_inv_def)
  ultimately show ?thesis using own unfolding sm_inv_def by blast
qed

lemma open_shell_inv:
  assumes inv: "sm_inv m" and fresh: "sid \<notin> set (keys (sm_shells m))"
  shows "\<exists>m' r. open_shell A sha256 w req sid token now m = Some (m', r) \<and> sm_inv m'"
proof (cases "map_of (sm_idempotency m) (rq_user req, rq_idempotency_key req)")
  case (Some old)
  then have "((rq_user req, rq_idempotency_key req), old) \<in> set (sm_idempotency m)" by (rule map_of_SomeD)
  then obtain e where e: "map_of (sm_shells m) old = Some e" using sm_inv_idem [OF inv] by blast
  have "sm_inv (set_runtime old (rotate_token sha256 token) m)"
    by (rule set_runtime_inv [OF inv]) (simp add: rotate_token_inv)
  then show ?thesis using Some e by (simp add: open_shell_def)
next
  case None
  define cols rows where "cols = (if rq_cols req = 0 then 80 else rq_cols req)"
    and "rows = (if rq_rows req = 0 then 24 else rq_rows req)"
  show ?thesis
  proof (cases "sm_policy m (rq_user req) (rq_account req)")
    case (Inl d)
    then show ?thesis using None inv by (simp add: open_shell_def)
  next
    case (Inr account)
    obtain r where r: "launch_pty (sm_config m) w req account (max cols MIN_COLS) (max rows MIN_ROWS) = Some r"
        "\<And>p. r = Ok p \<Longrightarrow> pty_cols p = max cols MIN_COLS \<and> pty_rows p = max rows MIN_ROWS"
      using launch_pty_total by blast
    have ins: "sm_inv (m\<lparr>sm_shells := assoc_put sid (new_entry A sha256 (sm_config m) req account p
          (max cols MIN_COLS) (max rows MIN_ROWS) sid token now) (sm_shells m),
        sm_idempotency := assoc_put (rq_user req, rq_idempotency_key req) sid (sm_idempotency m)\<rparr>)"
      if "r = Ok p" "length (live_shells m) < max_shells (sm_config m)"
        "max_shells_per_user (sm_config m) > 0 \<longrightarrow>
          length (filter (owned (rq_user req)) (live_shells m)) < max_shells_per_user (sm_config m)" for p
      using that r(2) None fresh inv by (intro insert_shell_inv new_entry_inv) auto
    show ?thesis
      using None Inr r(1) ins [unfolded owned_abs] inv
      by (auto simp: open_shell_def Let_def clamp_dims_def not_le cols_def [symmetric] rows_def [symmetric]
          split: sum.splits)
  qed
qed

lemma remove_exited_inv:
  assumes inv: "sm_inv m"
  shows "sm_inv (fst (remove_exited sid m))"
proof (cases "\<exists>e. map_of (sm_shells m) sid = Some e \<and> rt_state (se_runtime e) = Exited")
  case False
  then have "fst (remove_exited sid m) = m" by (auto simp: remove_exited_def split: option.splits)
  then show ?thesis using inv by simp
next
  case True
  let ?m = "m\<lparr>sm_shells := assoc_del sid (sm_shells m),
      sm_idempotency := filter (\<lambda>(k, i). i \<noteq> sid) (sm_idempotency m)\<rparr>"
  have m: "fst (remove_exited sid m) = ?m" using True by (auto simp: remove_exited_def)
  have le: "length (filter P (filter Q (map snd (assoc_del sid xs)))) \<le> length (filter P (filter Q (map snd xs)))"
    for P Q and xs :: "(bytes \<times> 'a shell_entry) list"
    by (induction xs) (auto simp: assoc_del_def)
  have own: "\<forall>((u, k), s) \<in> set (sm_idempotency ?m). \<exists>e. map_of (sm_shells ?m) s = Some e \<and> se_owner e = u"
    using sm_inv_idem [OF inv] by fastforce
  have ent: "\<forall>(s, e) \<in> set (sm_shells ?m). se_id e = s \<and> rt_inv (sm_config ?m) (se_runtime e)"
    using inv set_assoc_del [of sid "sm_shells m"] by (auto simp: sm_inv_def)
  have cap: "length (live_shells ?m) \<le> max_shells (sm_config ?m)"
    using le [of "\<lambda>_. True" live "sm_shells m"] inv by (simp add: sm_inv_def live_shells_def)
  have ucap: "length (filter (owned u) (live_shells ?m)) \<le> length (filter (owned u) (live_shells m))" for u
    using le [of "owned u" live "sm_shells m"] by (simp add: live_shells_def)
  have d: "distinct (keys (sm_shells ?m))" "distinct (keys (sm_idempotency ?m))"
    using inv by (simp_all add: sm_inv_def distinct_keys_filter)
  have "max_shells_per_user (sm_config ?m) > 0 \<longrightarrow>
      (\<forall>u. length (filter (owned u) (live_shells ?m)) \<le> max_shells_per_user (sm_config ?m))"
    using ucap inv le_trans unfolding sm_inv_def by (simp del: length_filter_map) (meson le_trans)
  with own ent cap d show ?thesis unfolding m sm_inv_def by blast
qed

lemma exit_of_Some: "exit_of sid m = Some x \<longleftrightarrow> (\<exists>e. map_of (sm_shells m) sid = Some e \<and> rt_exit (se_runtime e) = Some x)"
  by (auto simp: exit_of_def bind_eq_Some_conv)

lemma exit_of_None: "exit_of sid m = None \<Longrightarrow> map_of (sm_shells m) sid = Some e \<Longrightarrow> rt_exit (se_runtime e) = None"
  by (simp add: exit_of_def)

lemma attached_inv:
  assumes "sm_inv m" and "map_of (sm_shells m) sid = Some e"
    and "attach_runtime A sha256 (sm_config m) sid cols rows fresh now res (se_runtime e) = (rt', r)"
  shows "sm_inv (set_runtime sid (\<lambda>_. rt') m)"
proof -
  have i: "rt_inv (sm_config m) (se_runtime e)" using sm_inv_entry assms(1,2) by blast
  show ?thesis
    using attach_runtime_inv [OF i, of A sha256 sid cols rows fresh now res] assms(3)
    by (intro set_runtime_const_inv [OF assms(1,2)]) simp_all
qed

lemma attach_inv: "sm_inv m \<Longrightarrow> sm_inv (fst (attach A sha256 owner sid token cols rows fresh now res m))"
  by (auto simp: attach_def Let_def split: option.splits prod.splits intro: attached_inv)

lemma attach_authorized_inv:
  "sm_inv m \<Longrightarrow> sm_inv (fst (attach_authorized A sha256 owner sid cols rows fresh now res m))"
  by (auto simp: attach_authorized_def Let_def split: option.splits prod.splits intro: attached_inv)

lemma detach_inv: "sm_inv m \<Longrightarrow> sm_inv (fst (detach sid aid m))"
  by (auto simp: detach_def drop_sender_inv split: option.splits intro!: set_runtime_inv)

lemma write_input_inv: "sm_inv m \<Longrightarrow> sm_inv (fst (write_input sid data res m))"
  by (auto simp: write_input_def split: option.splits sum.splits intro!: set_runtime_inv)
    (auto simp: rt_inv_def)

lemma resize_inv:
  assumes "sm_inv m"
  shows "sm_inv (fst (resize A sid cols rows res m))"
proof -
  have "sm_inv (set_runtime sid (\<lambda>rt. rt\<lparr>rt_pty := Some (p\<lparr>pty_cols := max cols MIN_COLS, pty_rows := max rows MIN_ROWS\<rparr>),
      rt_model := fst (tm_resize A (rt_model rt) (max cols MIN_COLS) (max rows MIN_ROWS))\<rparr>) m)"
    if "map_of (sm_shells m) sid = Some e" "rt_pty (se_runtime e) = Some p" for e p
    using that resize_rt_inv [where c = "sm_config m" and rt = "se_runtime e" and cols = cols and rows = rows and A = A]
    by (intro set_runtime_inv [OF assms]) auto
  then show ?thesis using assms
    by (auto simp: resize_def clamp_dims_def Let_def split: option.splits sum.splits)
qed

lemma terminate_begin_inv: "sm_inv m \<Longrightarrow> sm_inv (fst (terminate_begin sid res m))"
  by (auto simp: terminate_begin_def Let_def split: option.splits sum.splits intro!: set_runtime_inv)
    (auto simp: rt_inv_def)

lemma terminate_end_inv:
  assumes "sm_inv m" and "map_of (sm_shells m) sid = Some e" and "timed_out \<or> rt_exit (se_runtime e) \<noteq> None"
  shows "\<exists>m' r. terminate_end sid e timed_out m = Some (m', r) \<and> sm_inv m'"
proof -
  have "sm_inv (set_runtime sid (\<lambda>rt. rt\<lparr>rt_state := Exited\<rparr>) m)" if "rt_exit (se_runtime e) = Some x" for x
    using that assms(2) by (intro set_runtime_inv [OF assms(1)]) (auto simp: rt_inv_def)
  then show ?thesis using assms by (auto simp: terminate_end_def Let_def)
qed

theorem session_exec_inv:
  assumes inv: "sm_inv m" and en: "enabled m ev"
  shows "\<exists>m'. session_exec A sha256 m ev = Some m' \<and> sm_inv m'"
proof (cases ev)
  case (EvOpen w req sid token now)
  then show ?thesis using open_shell_inv [OF inv, of sid A sha256 w req token now] en by auto
next
  case (EvTerminateEnd sid timed_out)
  show ?thesis
  proof (cases "map_of (sm_shells m) sid")
    case None
    then show ?thesis using EvTerminateEnd inv by simp
  next
    case (Some e)
    moreover have "timed_out \<or> rt_exit (se_runtime e) \<noteq> None"
      using en EvTerminateEnd Some by (auto simp: exit_of_def)
    ultimately show ?thesis using terminate_end_inv [OF inv Some, of timed_out] EvTerminateEnd by auto
  qed
next
  case (EvPumpChunk sid chunk)
  show ?thesis
  proof (cases "map_of (sm_shells m) sid")
    case None
    then show ?thesis using EvPumpChunk inv by simp
  next
    case (Some e)
    have "rt_exit (se_runtime e) = None" using en EvPumpChunk exit_of_None [OF _ Some] by simp
    then obtain rt' where "pump_chunk A (max_queued_chunks (sm_config m)) chunk (se_runtime e) = Some rt'"
        "rt_inv (sm_config m) rt'" "rt_state rt' = rt_state (se_runtime e)"
      using pump_chunk_inv sm_inv_entry [OF inv Some] by blast
    then show ?thesis using EvPumpChunk Some inv by (auto intro!: set_runtime_const_inv)
  qed
next
  case (EvPumpEof sid wait_result)
  then show ?thesis using inv by (auto simp: pump_eof_inv intro!: set_runtime_inv)
next
  case (EvRecv sid aid)
  then show ?thesis using inv
    by (auto simp: on_channel_inv chan_shrinks intro!: set_runtime_inv) (simp add: on_channel_def)
next
  case (EvHangup sid aid)
  then show ?thesis using inv
    by (auto simp: on_channel_inv chan_shrinks intro!: set_runtime_inv) (simp add: on_channel_def)
qed (use inv in \<open>auto simp: attach_inv attach_authorized_inv detach_inv write_input_inv resize_inv
      terminate_begin_inv remove_exited_inv\<close>)

interpretation session: invariant_machine "session_step A sha256" sm_inv
  for A :: "'vt avt_ops" and sha256
proof unfold_locales
  fix m :: "'vt shell_manager" and ev
  assume "sm_inv m"
  then show "sm_inv (session_step A sha256 m ev)"
    using session_exec_inv [of m ev A sha256] by (auto simp: session_step_def)
qed

section \<open>Runs\<close>

text \<open>
  A run of events; an event the environment cannot produce is skipped, and \<open>None\<close> would be a
  panic in some step.
\<close>

fun session_run ::
  "'vt avt_ops \<Rightarrow> (bytes \<Rightarrow> bytes) \<Rightarrow> 'vt shell_manager \<Rightarrow> session_event list \<Rightarrow> 'vt shell_manager option" where
  "session_run A sha256 m [] = Some m"
| "session_run A sha256 m (ev # es) =
     (if enabled m ev then
        (case session_exec A sha256 m ev of None \<Rightarrow> None | Some m' \<Rightarrow> session_run A sha256 m' es)
      else session_run A sha256 m es)"

lemma session_run_foldl:
  "sm_inv m \<Longrightarrow> session_run A sha256 m es = Some (foldl (session_step A sha256) m es)"
proof (induction es arbitrary: m)
  case (Cons ev es)
  show ?case
  proof (cases "enabled m ev")
    case True
    then obtain m' where "session_exec A sha256 m ev = Some m'" "sm_inv m'"
      using session_exec_inv [OF Cons.prems] by blast
    then show ?thesis using True Cons.IH by (simp add: session_step_def)
  next
    case False
    then show ?thesis using Cons by (simp add: session_step_def)
  qed
qed simp

section \<open>Properties\<close>

text \<open>
  (C1) The session core is safe under every interleaving: from an empty manager with any
  configuration and policy, no sequence of calls, PTY output, exits, receiver activity and
  failures makes it panic, and in every state reached a shell is exited exactly when its exit
  status is recorded and its PTY given up, an exited shell has no attachment, the PTY size and
  the screen size agree, identifiers of attachments are never reused, the idempotency map
  points to existing shells of the same owner, and the limits on live shells, on shells per
  user, on attachments per shell, on queued events and on remembered tokens all hold.
\<close>

theorem session_safe:
  "\<exists>m. session_run A sha256 (manager_with_policy config policy) es = Some m \<and> sm_inv m"
  using session_run_foldl [OF manager_inv] session.run_inv [OF manager_inv] by blast

end
