(* ===== verification/Session_Props.thy ===== *)
theory Session_Props
  imports Session_Safety
begin

text \<open>
  What the session core promises its callers: who can attach and what a refused attach leaves
  behind, replay detection for rotated tokens, an unbroken output stream for every attachment,
  independence of attachments, idempotent opening, and accounts confined by the policy.
\<close>

section \<open>A sample shell\<close>

text \<open>One shell just opened, over an emulator that draws nothing; used to apply the theorems.\<close>

definition null_avt :: "unit avt_ops" where
  "null_avt = \<lparr>avt_build = (\<lambda>_ _. ()), avt_feed_str = (\<lambda>v _. (v, [])), avt_resize = (\<lambda>v _ _. (v, [])),
     avt_dump = (\<lambda>_. []), avt_view = (\<lambda>_. [])\<rparr>"

definition sample_world :: launch_world where
  "sample_world = \<lparr>lw_host = sample_host, lw_spawn_shell = (\<lambda>_ _. Ok ()), lw_adopt = Ok (),
     lw_pty_spawn = (\<lambda>_. Ok ()), lw_pump_thread = Ok ()\<rparr>"

definition sample_request :: open_shell_request where
  "sample_request = \<lparr>rq_user = lit ''u'', rq_account = None, rq_command = None, rq_args = [],
     rq_cols = 0, rq_rows = 0, rq_idempotency_key = [9]\<rparr>"

definition sample_entry :: "unit shell_entry" where
  "sample_entry = new_entry null_avt id session_core_config_default sample_request None
     \<lparr>pty_cols = 80, pty_rows = 24, pty_written = []\<rparr> 80 24 [1] [7] 5"

definition sample_manager :: "unit shell_manager" where
  "sample_manager = (manager_new session_core_config_default)\<lparr>
     sm_shells := [([1], sample_entry)], sm_idempotency := [((lit ''u'', [9]), [1])]\<rparr>"

lemma sample_open:
  "open_shell null_avt id sample_world sample_request [1] [7] 5 (manager_new session_core_config_default)
     = Some (sample_manager, Ok \<lparr>os_shell_id = [1], os_resume_token = [7], os_reused = False\<rparr>)"
  by (simp add: open_shell_def sample_manager_def manager_new_def manager_with_policy_def sample_request_def
      sample_entry_def allow_all_def requested_def live_shells_def session_core_config_default_def clamp_dims_def
      MIN_COLS_def MIN_ROWS_def launch_pty_def spawner_target_def build_launch_def prlimit_wrap_def
      shell_resource_limits_default_def sample_world_def sample_host_def assoc_put_def Let_def)

lemma sample_inv: "sm_inv sample_manager"
proof -
  have m: "sm_inv (manager_new session_core_config_default :: unit shell_manager)"
    unfolding manager_new_def by (rule manager_inv)
  show ?thesis
    using open_shell_inv [OF m, of "[1]" null_avt id sample_world sample_request "[7]" 5] sample_open
    by (simp add: manager_new_def manager_with_policy_def)
qed

lemma sample_lookup: "map_of (sm_shells sample_manager) [1] = Some sample_entry"
  by (simp add: sample_manager_def)

lemma sample_fields:
  "se_owner sample_entry = lit ''u''" "rt_token_hash (se_runtime sample_entry) = [7]"
  "rt_superseded (se_runtime sample_entry) = []" "rt_exit (se_runtime sample_entry) = None"
  "rt_state (se_runtime sample_entry) = Running" "rt_attachments (se_runtime sample_entry) = []"
  "rt_next_attachment_id (se_runtime sample_entry) = 1" "se_created_at_ms sample_entry = 5"
  "rt_last_attached_at_ms (se_runtime sample_entry) = 0" "se_id sample_entry = [1]"
  by (simp_all add: sample_entry_def new_entry_def sample_request_def token_hash_of_def)

lemma sample_config: "sm_config sample_manager = session_core_config_default"
  by (simp add: sample_manager_def manager_new_def manager_with_policy_def)

lemma sample_attach:
  "\<exists>rt1 a. attach null_avt id (lit ''u'') [1] [7] 0 0 [8] 6 (Ok ()) sample_manager
      = (set_runtime [1] (\<lambda>_. rt1) sample_manager, Ok a)
    \<and> at_id a = 1 \<and> rt_exit rt1 = None \<and> rt_attachments rt1 = [(1, chan_new)]"
proof -
  let ?rt1 = "(rotate_token id [8] (se_runtime sample_entry))\<lparr>rt_last_attached_at_ms := 6,
      rt_next_attachment_id := 2, rt_attachments := [(1, chan_new)]\<rparr>"
  have "\<exists>a. attach null_avt id (lit ''u'') [1] [7] 0 0 [8] 6 (Ok ()) sample_manager
      = (set_runtime [1] (\<lambda>_. ?rt1) sample_manager, Ok a) \<and> at_id a = 1"
    by (simp add: attach_def sample_lookup sample_fields token_hash_of_def attach_runtime_def sample_config
        session_core_config_default_def clamp_dims_def Let_def assoc_put_def numeral_2_eq_2)
  then show ?thesis using sample_fields(4) by (intro exI [of _ ?rt1]) simp
qed

section \<open>Attaching\<close>

lemma set_runtime_id:
  assumes "sm_inv m" and "map_of (sm_shells m) sid = Some e" and "f (se_runtime e) = se_runtime e"
  shows "set_runtime sid f m = m"
proof -
  have "assoc_upd sid (\<lambda>e. e\<lparr>se_runtime := f (se_runtime e)\<rparr>) (sm_shells m) = sm_shells m"
    unfolding assoc_upd_def
  proof (rule map_idI)
    fix x
    assume x: "x \<in> set (sm_shells m)"
    have d: "distinct (keys (sm_shells m))" using assms(1) by (simp add: sm_inv_def)
    show "(case x of (k', v) \<Rightarrow> (k', if k' = sid then v\<lparr>se_runtime := f (se_runtime v)\<rparr> else v)) = x"
    proof (cases "fst x = sid")
      case True
      then have "snd x = e" using x assms(2) d map_of_in_set [OF d, of sid "snd x"] by (cases x) auto
      then show ?thesis using True assms(3) by (cases x) simp
    qed (simp add: case_prod_unfold)
  qed
  then show ?thesis by (simp add: set_runtime_def)
qed

definition may_attach :: "(bytes \<Rightarrow> bytes) \<Rightarrow> session_core_config \<Rightarrow> rstring \<Rightarrow> bytes \<Rightarrow> 'vt shell_entry \<Rightarrow> bool" where
  "may_attach sha256 c owner token e \<longleftrightarrow>
     se_owner e = owner \<and> rt_token_hash (se_runtime e) = token_hash_of sha256 token
     \<and> rt_state (se_runtime e) = Running
     \<and> length (rt_attachments (se_runtime e)) < max_attachments_per_shell c"

lemma attach_runtime_Err_same:
  "attach_runtime A sha256 c sid cols rows fresh now res rt = (rt', Err x) \<Longrightarrow> rt' = rt"
  by (cases rule: attach_runtime_cases [of A sha256 c sid cols rows fresh now res rt]) auto

lemma attach_Err_unchanged:
  assumes "sm_inv m" and "attach A sha256 owner sid token cols rows fresh now res m = (m', Err x)"
  shows "m' = m"
proof (cases "map_of (sm_shells m) sid")
  case None
  then show ?thesis using assms(2) by (simp add: attach_def)
next
  case (Some e)
  obtain rt' r where a: "attach_runtime A sha256 (sm_config m) sid cols rows fresh now res (se_runtime e) = (rt', r)"
    by fastforce
  have "r = Err x \<Longrightarrow> set_runtime sid (\<lambda>_. rt') m = m"
    using attach_runtime_Err_same [of A sha256 "sm_config m" sid cols rows fresh now res "se_runtime e" rt' x] a
    by (intro set_runtime_id [OF assms(1) Some]) simp
  then show ?thesis using assms(2) Some a by (auto simp: attach_def Let_def split: if_splits)
qed

lemma attach_runtime_not_found:
  "attach_runtime A sha256 c sid cols rows fresh now res rt \<noteq> (rt', Err ShellNotFound)"
  by (auto simp: attach_runtime_def clamp_dims_def Let_def)

lemma attach_success:
  assumes "attach_runtime A sha256 c sid cols rows fresh now res rt = (rt', Ok a)" and "rt_inv c rt"
  shows "rt_state rt = Running" and "length (rt_attachments rt) < max_attachments_per_shell c"
    and "rt_token_hash rt' = token_hash_of sha256 fresh" and "rt_token_hash rt \<in> set (rt_superseded rt')"
    and "at_id a = rt_next_attachment_id rt" and "map_of (rt_attachments rt) (at_id a) = None"
    and "map_of (rt_attachments rt') (at_id a) = Some chan_new"
    and "at_snapshot a = tm_snapshot A (rt_model rt')"
    and "rt_next_attachment_id rt' = Suc (rt_next_attachment_id rt)"
proof -
  have n: "rt_next_attachment_id rt \<notin> set (keys (rt_attachments rt))"
    using assms(2) by (auto simp: rt_inv_def chans_ok_def)
  have "rt_state rt = Running \<and> length (rt_attachments rt) < max_attachments_per_shell c
    \<and> rt_token_hash rt' = token_hash_of sha256 fresh \<and> rt_token_hash rt \<in> set (rt_superseded rt')
    \<and> at_id a = rt_next_attachment_id rt
    \<and> map_of (rt_attachments rt') (at_id a) = Some chan_new \<and> at_snapshot a = tm_snapshot A (rt_model rt')
    \<and> rt_next_attachment_id rt' = Suc (rt_next_attachment_id rt)"
  proof (cases rule: attach_runtime_cases [of A sha256 c sid cols rows fresh now res rt])
    case (1 e)
    then show ?thesis using assms(1) by simp
  next
    case (2 rt1)
    then show ?thesis using assms(1) by (auto simp: rotate_token_def push_superseded_def)
  qed
  then show "rt_state rt = Running" and "length (rt_attachments rt) < max_attachments_per_shell c"
    and "rt_token_hash rt' = token_hash_of sha256 fresh" and "rt_token_hash rt \<in> set (rt_superseded rt')"
    and "at_id a = rt_next_attachment_id rt" and "map_of (rt_attachments rt) (at_id a) = None"
    and "map_of (rt_attachments rt') (at_id a) = Some chan_new"
    and "at_snapshot a = tm_snapshot A (rt_model rt')"
    and "rt_next_attachment_id rt' = Suc (rt_next_attachment_id rt)"
    using n by (auto simp: map_of_None_keys)
qed

lemma attach_outcome:
  assumes "sm_inv m" and "attach A sha256 owner sid token cols rows fresh now res m = (m', r)"
  shows "(r = Err ShellNotFound \<longleftrightarrow> \<not> (\<exists>e. map_of (sm_shells m) sid = Some e \<and> se_owner e = owner))
    \<and> (\<forall>s. s \<noteq> sid \<longrightarrow> map_of (sm_shells m') s = map_of (sm_shells m) s)
    \<and> (case r of
         Inl _ \<Rightarrow> m' = m
       | Inr a \<Rightarrow> \<exists>e e'. map_of (sm_shells m) sid = Some e \<and> may_attach sha256 (sm_config m) owner token e
           \<and> map_of (sm_shells m') sid = Some e' \<and> se_owner e' = owner
           \<and> rt_token_hash (se_runtime e') = token_hash_of sha256 fresh
           \<and> token_hash_of sha256 token \<in> set (rt_superseded (se_runtime e'))
           \<and> map_of (rt_attachments (se_runtime e)) (at_id a) = None
           \<and> map_of (rt_attachments (se_runtime e')) (at_id a) = Some chan_new
           \<and> at_snapshot a = tm_snapshot A (rt_model (se_runtime e')))"
proof (cases "map_of (sm_shells m) sid")
  case None
  then show ?thesis using assms(2) by (auto simp: attach_def)
next
  case (Some e)
  obtain rt' r0 where a: "attach_runtime A sha256 (sm_config m) sid cols rows fresh now res (se_runtime e) = (rt', r0)"
    by fastforce
  have inv: "rt_inv (sm_config m) (se_runtime e)" using sm_inv_entry [OF assms(1) Some] by simp
  show ?thesis
  proof (cases "se_owner e = owner \<and> rt_token_hash (se_runtime e) = token_hash_of sha256 token")
    case False
    then show ?thesis using assms(2) Some by (auto simp: attach_def Let_def split: if_splits)
  next
    case True
    then have m': "m' = set_runtime sid (\<lambda>_. rt') m" and r: "r = r0"
      using assms(2) Some a by (auto simp: attach_def Let_def)
    show ?thesis
    proof (cases r0)
      case (Inl x)
      then show ?thesis
        using attach_Err_unchanged [OF assms(1) assms(2) [unfolded r Inl]] r True Some a
          attach_runtime_not_found [of A sha256 "sm_config m" sid cols rows fresh now res "se_runtime e" rt']
        by auto
    next
      case (Inr att)
      note ok = attach_success [OF a [unfolded Inr] inv]
      show ?thesis
        using True Some ok by (auto simp: r Inr m' lookup_set_runtime may_attach_def)
    qed
  qed
qed

text \<open>
  (C4) Attaching is an exact gate: a refused attach changes nothing at all; a shell of another
  user answers exactly as a shell that does not exist; an accepted attach was made by the
  owner with the current token on a running shell below its attachment limit, hands out a
  fresh attachment identifier and a snapshot of the screen as it is, supersedes the token it
  was made with, and touches no other shell.
\<close>

theorem attach_exact:
  assumes "sm_inv m" and "attach A sha256 owner sid token cols rows fresh now res m = (m', r)"
  shows "(r = Err ShellNotFound \<longleftrightarrow> \<not> (\<exists>e. map_of (sm_shells m) sid = Some e \<and> se_owner e = owner))
    \<and> (\<forall>s. s \<noteq> sid \<longrightarrow> map_of (sm_shells m') s = map_of (sm_shells m) s)
    \<and> (case r of
         Inl _ \<Rightarrow> m' = m
       | Inr a \<Rightarrow> \<exists>e e'. map_of (sm_shells m) sid = Some e \<and> may_attach sha256 (sm_config m) owner token e
           \<and> map_of (sm_shells m') sid = Some e' \<and> se_owner e' = owner
           \<and> rt_token_hash (se_runtime e') = token_hash_of sha256 fresh
           \<and> token_hash_of sha256 token \<in> set (rt_superseded (se_runtime e'))
           \<and> map_of (rt_attachments (se_runtime e)) (at_id a) = None
           \<and> map_of (rt_attachments (se_runtime e')) (at_id a) = Some chan_new
           \<and> at_snapshot a = tm_snapshot A (rt_model (se_runtime e')))"
  using assms by (rule attach_outcome)

theorem attach_exact_witness:
  "\<exists>m' a. attach null_avt id (lit ''u'') [1] [7] 0 0 [8] 6 (Ok ()) sample_manager = (m', Ok a)
     \<and> (\<exists>e'. map_of (sm_shells m') [1] = Some e' \<and> [7] \<in> set (rt_superseded (se_runtime e'))
          \<and> rt_token_hash (se_runtime e') = [8])"
proof -
  obtain rt1 a where a: "attach null_avt id (lit ''u'') [1] [7] 0 0 [8] 6 (Ok ()) sample_manager
      = (set_runtime [1] (\<lambda>_. rt1) sample_manager, Ok a)"
    using sample_attach by blast
  from attach_exact [OF sample_inv a] show ?thesis using a by (auto simp: token_hash_of_def)
qed

section \<open>Replay detection\<close>

definition last_n :: "nat \<Rightarrow> 'a list \<Rightarrow> 'a list" where
  "last_n n xs = drop (length xs - n) xs"

lemma last_n_snoc: "last_n n (last_n n xs @ [x]) = last_n n (xs @ [x])"
  by (cases "length xs \<le> n") (auto simp: last_n_def Suc_diff_le)

lemma push_superseded_last_n:
  "length r \<le> SUPERSEDED_TOKEN_HISTORY \<Longrightarrow> push_superseded r h = last_n SUPERSEDED_TOKEN_HISTORY (r @ [h])"
  by (auto simp: push_superseded_def last_n_def SUPERSEDED_TOKEN_HISTORY_def drop_Suc)

interpretation superseded: evicting_log "\<lambda>r. r" push_superseded "\<lambda>r. length r \<le> SUPERSEDED_TOKEN_HISTORY"
proof unfold_locales
  fix r :: "bytes list" and h
  assume r: "length r \<le> SUPERSEDED_TOKEN_HISTORY"
  show "length (push_superseded r h) \<le> SUPERSEDED_TOKEN_HISTORY" by (rule push_superseded_length [OF r])
  show "\<exists>k \<le> length r. push_superseded r h = drop k (r @ [h])"
    using push_superseded_last_n [OF r, of h]
    by (intro exI [of _ "length (r @ [h]) - SUPERSEDED_TOKEN_HISTORY"])
      (auto simp: last_n_def SUPERSEDED_TOKEN_HISTORY_def)
qed

definition rotate_all :: "(bytes \<Rightarrow> bytes) \<Rightarrow> bytes list \<Rightarrow> 'vt runtime \<Rightarrow> 'vt runtime" where
  "rotate_all sha256 ts rt = foldl (\<lambda>rt t. rotate_token sha256 t rt) rt ts"

lemma rotate_all_ring:
  assumes "length (rt_superseded rt) \<le> SUPERSEDED_TOKEN_HISTORY"
  shows "rt_superseded (rotate_all sha256 ts rt) =
      last_n SUPERSEDED_TOKEN_HISTORY (rt_superseded rt @ butlast (rt_token_hash rt # map sha256 ts))
    \<and> rt_token_hash (rotate_all sha256 ts rt) = last (rt_token_hash rt # map sha256 ts)"
proof (induction ts rule: rev_induct)
  case Nil
  then show ?case using assms by (simp add: rotate_all_def last_n_def)
next
  case (snoc t ts)
  let ?rt = "rotate_all sha256 ts rt" and ?N = SUPERSEDED_TOKEN_HISTORY
  have l: "length (rt_superseded ?rt) \<le> ?N" using snoc.IH by (simp add: last_n_def)
  have "rt_superseded (rotate_all sha256 (ts @ [t]) rt) = last_n ?N (rt_superseded ?rt @ [rt_token_hash ?rt])"
    using push_superseded_last_n [OF l] by (simp add: rotate_all_def rotate_token_def)
  also have "\<dots> = last_n ?N (rt_superseded rt @ butlast (rt_token_hash rt # map sha256 ts) @ [last (rt_token_hash rt # map sha256 ts)])"
    using snoc.IH last_n_snoc [of ?N "rt_superseded rt @ butlast (rt_token_hash rt # map sha256 ts)"] by simp
  also have "butlast (rt_token_hash rt # map sha256 ts) @ [last (rt_token_hash rt # map sha256 ts)]
      = rt_token_hash rt # map sha256 ts"
    by (rule append_butlast_last_id) simp
  finally show ?case by (simp add: rotate_all_def rotate_token_def token_hash_of_def butlast_append)
qed

lemma rotate_all_member:
  assumes "length (rt_superseded rt) \<le> SUPERSEDED_TOKEN_HISTORY" and "rt_token_hash rt \<notin> sha256 ` set ts"
    and "rt_token_hash rt \<notin> set (rt_superseded rt)" and "ts \<noteq> []"
  shows "rt_token_hash rt \<in> set (rt_superseded (rotate_all sha256 ts rt)) \<longleftrightarrow> length ts \<le> SUPERSEDED_TOKEN_HISTORY"
proof -
  let ?h = "rt_token_hash rt" and ?r = "rt_superseded rt"
  have b: "butlast (?h # map sha256 ts) = ?h # butlast (map sha256 ts)" using assms(4) by simp
  have split: "?h \<in> set (drop k (?r @ ?h # xs)) \<longleftrightarrow> k \<le> length ?r" if xs: "?h \<notin> set xs" for k xs
  proof (cases "k \<le> length ?r")
    case False
    then have "set (drop k (?r @ ?h # xs)) \<subseteq> set xs"
      by (cases "k - length ?r") (auto dest: in_set_dropD)
    then show ?thesis using False xs by auto
  qed simp
  have "?h \<notin> set (butlast (map sha256 ts))" using assms(2) by (auto dest: in_set_butlastD)
  note split' = split [OF this]
  have "length (?r @ ?h # butlast (map sha256 ts)) = length ?r + length ts" using assms(4) by (cases ts) auto
  then have "rt_superseded (rotate_all sha256 ts rt)
      = drop (length ?r + length ts - SUPERSEDED_TOKEN_HISTORY) (?r @ ?h # butlast (map sha256 ts))"
    using rotate_all_ring [OF assms(1), of sha256 ts] b by (simp add: last_n_def)
  then show ?thesis using split' [of "length ?r + length ts - SUPERSEDED_TOKEN_HISTORY"] assms(4) by auto
qed

text \<open>
  (C5) A stolen token is noticed: after a token has been rotated away up to 64 times, presenting
  it is answered with the replay error, and from the 65th rotation on with the plain
  invalid-token error; never with an attachment. The tokens are assumed not to collide under
  the hash.
\<close>

theorem replay_detected:
  assumes "sm_inv m" and "map_of (sm_shells m) sid = Some e" and "se_owner e = owner"
    and "rt_token_hash (se_runtime e) = token_hash_of sha256 t0"
    and "t0 \<notin> set ts" and "inj_on sha256 (insert t0 (set ts))"
    and "sha256 t0 \<notin> set (rt_superseded (se_runtime e))" and "ts \<noteq> []"
  shows "snd (attach A sha256 owner sid t0 cols rows fresh now res (set_runtime sid (rotate_all sha256 ts) m))
     = (if length ts \<le> 64 then Err TokenReplayed else Err InvalidToken)"
proof -
  let ?rt = "se_runtime e"
  have len: "length (rt_superseded ?rt) \<le> SUPERSEDED_TOKEN_HISTORY"
    using sm_inv_entry [OF assms(1,2)] by (simp add: rt_inv_def)
  have h: "rt_token_hash ?rt = sha256 t0" using assms(4) by (simp add: token_hash_of_def)
  have no: "sha256 t0 \<notin> sha256 ` set ts" using assms(5,6) by (auto simp: inj_on_def)
  have "last (map sha256 ts) \<in> sha256 ` set ts" using assms(8) by (simp add: last_map)
  then have cur: "rt_token_hash (rotate_all sha256 ts ?rt) \<noteq> sha256 t0"
    using rotate_all_ring [OF len, of sha256 ts] assms(8) no by auto
  have mem: "sha256 t0 \<in> set (rt_superseded (rotate_all sha256 ts ?rt)) \<longleftrightarrow> length ts \<le> 64"
    using rotate_all_member [OF len, of sha256 ts] h no assms(7,8) by (simp add: SUPERSEDED_TOKEN_HISTORY_def)
  show ?thesis
    using assms(2,3) cur mem by (simp add: attach_def lookup_set_runtime Let_def token_hash_of_def)
qed

theorem replay_detected_witness:
  "snd (attach null_avt id (lit ''u'') [1] [7] 0 0 [6] 9 (Ok ()) (set_runtime [1] (rotate_all id [[8], [5]]) sample_manager))
     = Err TokenReplayed"
  using replay_detected [OF sample_inv sample_lookup, of "lit ''u''" id "[7]" "[[8], [5]]" null_avt 0 0 "[6]" 9 "Ok ()"]
  by (simp add: sample_fields token_hash_of_def)

section \<open>Opening\<close>

lemma open_shell_cases:
  assumes "open_shell A sha256 w req sid token now m = Some (m', r)"
  shows "(m' = m \<and> \<not> is_ok r)
    \<or> (\<exists>old e. map_of (sm_idempotency m) (rq_user req, rq_idempotency_key req) = Some old
          \<and> map_of (sm_shells m) old = Some e
          \<and> m' = set_runtime old (rotate_token sha256 token) m
          \<and> r = Ok \<lparr>os_shell_id = se_id e, os_resume_token = token, os_reused = True\<rparr>)
    \<or> (\<exists>account pty cols rows.
          Option.bind (map_of (sm_idempotency m) (rq_user req, rq_idempotency_key req)) (map_of (sm_shells m)) = None
          \<and> sm_policy m (rq_user req) (rq_account req) = Ok account
          \<and> m' = m\<lparr>sm_shells := assoc_put sid
                     (new_entry A sha256 (sm_config m) req account pty cols rows sid token now) (sm_shells m),
                   sm_idempotency := assoc_put (rq_user req, rq_idempotency_key req) sid (sm_idempotency m)\<rparr>
          \<and> r = Ok \<lparr>os_shell_id = sid, os_resume_token = token, os_reused = False\<rparr>)"
proof (cases "Option.bind (map_of (sm_idempotency m) (rq_user req, rq_idempotency_key req)) (map_of (sm_shells m))")
  case (Some e)
  then show ?thesis using assms by (auto simp: open_shell_def Let_def bind_eq_Some_conv)
next
  case None
  obtain cols rows where d: "clamp_dims (if rq_cols req = 0 then 80 else rq_cols req)
      (if rq_rows req = 0 then 24 else rq_rows req) = (cols, rows)"
    by fastforce
  show ?thesis
  proof (cases "is_ok r")
    case False
    then show ?thesis using assms None d
      by (auto simp: open_shell_def Let_def split: sum.splits if_splits option.splits)
  next
    case True
    obtain account where acct: "sm_policy m (rq_user req) (rq_account req) = Ok account"
      using assms None d True by (auto simp: open_shell_def Let_def split: sum.splits)
    obtain pty where "launch_pty (sm_config m) w req account cols rows = Some (Ok pty)"
      using assms None d True acct
      by (auto simp: open_shell_def Let_def split: sum.splits if_splits option.splits)
    then have "m' = m\<lparr>sm_shells := assoc_put sid
          (new_entry A sha256 (sm_config m) req account pty cols rows sid token now) (sm_shells m),
        sm_idempotency := assoc_put (rq_user req, rq_idempotency_key req) sid (sm_idempotency m)\<rparr>
        \<and> r = Ok \<lparr>os_shell_id = sid, os_resume_token = token, os_reused = False\<rparr>"
      using assms None d True acct by (auto simp: open_shell_def Let_def split: sum.splits if_splits)
    then show ?thesis using None acct by blast
  qed
qed

section \<open>The output stream of an attachment\<close>

definition att_log :: "nat \<Rightarrow> 'vt runtime \<Rightarrow> attachment_event list option" where
  "att_log aid rt = map_option (\<lambda>ch. ch_taken ch @ ch_queue ch) (map_of (rt_attachments rt) aid)"

definition chunks_of :: "bytes \<Rightarrow> session_event \<Rightarrow> attachment_event list" where
  "chunks_of sid ev = (case ev of EvPumpChunk s chunk \<Rightarrow> if s = sid then [Output chunk] else [] | _ \<Rightarrow> [])"

text \<open>How one step may change what an existing attachment has been sent.\<close>

definition log_step :: "nat \<Rightarrow> attachment_event list \<Rightarrow> 'vt runtime \<Rightarrow> 'vt runtime \<Rightarrow> bool" where
  "log_step aid new rt rt' \<longleftrightarrow>
     rt_next_attachment_id rt \<le> rt_next_attachment_id rt'
     \<and> (aid < rt_next_attachment_id rt \<longrightarrow>
          (\<forall>l. att_log aid rt' = Some l \<longrightarrow> (\<exists>l0. att_log aid rt = Some l0 \<and> l = l0 @ new)))"

lemma log_step_same:
  "rt_attachments rt' = rt_attachments rt \<Longrightarrow> rt_next_attachment_id rt' = rt_next_attachment_id rt \<Longrightarrow>
     log_step aid [] rt rt'"
  by (auto simp: log_step_def att_log_def)

lemma log_step_attach: "log_step aid [] rt (fst (attach_runtime A sha256 c sid cols rows fresh now res rt))"
proof (cases rule: attach_runtime_cases [of A sha256 c sid cols rows fresh now res rt])
  case (1 e)
  then show ?thesis by (simp add: log_step_same)
next
  case (2 rt1)
  then show ?thesis by (auto simp: log_step_def att_log_def)
qed

lemma log_step_attached:
  "attach_runtime A sha256 c sid cols rows fresh now res rt = (rt', r) \<Longrightarrow> log_step aid [] rt rt'"
  using log_step_attach [of aid rt A sha256 c sid cols rows fresh now res] by simp

lemma log_step_drop: "log_step aid [] rt (drop_sender a rt)"
  by (auto simp: log_step_def att_log_def drop_sender_def split: option.splits if_splits)

lemma chan_recv_log: "ch_taken (chan_recv ch) @ ch_queue (chan_recv ch) = ch_taken ch @ ch_queue ch"
  by (auto simp: chan_recv_def split: list.splits)

lemma log_step_channel:
  assumes "\<And>ch. ch_taken (f ch) @ ch_queue (f ch) = ch_taken ch @ ch_queue ch"
  shows "log_step aid [] rt (on_channel a f rt)"
  using assms by (auto simp: log_step_def att_log_def on_channel_def split: if_splits)

lemma map_of_map_snd: "map_of (map (\<lambda>(k, v). (k, f v)) xs) k = map_option f (map_of xs k)"
  by (induction xs) auto

lemma map_of_filter_distinct:
  "distinct (keys xs) \<Longrightarrow> map_of (filter (\<lambda>(k, v). P v) xs) k = (case map_of xs k of None \<Rightarrow> None | Some v \<Rightarrow> if P v then Some v else None)"
proof (induction xs)
  case (Cons x xs)
  have "k' \<notin> set (keys xs) \<Longrightarrow> map_of xs k' = None" for k' by (simp add: map_of_None_keys)
  then show ?case using Cons by (cases x) (auto split: option.splits)
qed simp

lemma fan_out_lookup:
  assumes "distinct (keys (rt_attachments rt))"
  shows "map_of (rt_attachments (fan_out bound ev rt)) aid =
     (case map_of (rt_attachments rt) aid of
        None \<Rightarrow> None
      | Some ch \<Rightarrow> if accepts bound ch then Some (ch\<lparr>ch_queue := ch_queue ch @ [ev]\<rparr>) else None)"
  using map_of_filter_distinct [OF assms, of "accepts bound" aid]
  by (auto simp: fan_out_attachments map_of_map_snd split: option.splits)

lemma log_step_pump:
  assumes "rt_inv c rt" and "pump_chunk A bound chunk rt = Some rt'"
  shows "log_step aid [Output chunk] rt rt'"
proof -
  have d: "distinct (keys (rt_attachments (rt\<lparr>rt_model := m'\<rparr>)))" for m'
    using assms(1) by (simp add: rt_inv_def chans_ok_def)
  show ?thesis
    using assms(2) fan_out_lookup [OF d]
    by (auto simp: pump_chunk_def log_step_def att_log_def split: option.splits if_splits)
qed

lemma log_step_eof: "log_step aid [] rt (pump_eof bound wait_result rt)"
  by (auto simp: log_step_def att_log_def pump_eof_def Let_def)

definition log_kept :: "bytes \<Rightarrow> nat \<Rightarrow> attachment_event list \<Rightarrow> 'vt shell_manager \<Rightarrow> 'vt shell_manager \<Rightarrow> bool" where
  "log_kept sid aid new m m' \<longleftrightarrow>
     (\<forall>e. map_of (sm_shells m) sid = Some e \<longrightarrow>
        (\<exists>e'. map_of (sm_shells m') sid = Some e' \<and> log_step aid new (se_runtime e) (se_runtime e')))"

lemma log_kept_refl: "log_kept sid aid [] m m"
  by (simp add: log_kept_def log_step_same)

lemma log_kept_set_runtime:
  assumes "\<And>e. map_of (sm_shells m) sid = Some e \<Longrightarrow> s = sid \<Longrightarrow> log_step aid [] (se_runtime e) (f (se_runtime e))"
  shows "log_kept sid aid [] m (set_runtime s f m)"
  using assms by (auto simp: log_kept_def lookup_set_runtime log_step_same)

lemma log_kept_step:
  assumes inv: "sm_inv m" and en: "enabled m ev" and keep: "ev \<noteq> EvRemove sid"
    and ex: "session_exec A sha256 m ev = Some m'"
  shows "log_kept sid aid (chunks_of sid ev) m m'"
proof (cases ev)
  case (EvOpen w req s token now)
  then obtain r where o: "open_shell A sha256 w req s token now m = Some (m', r)" using ex by auto
  have s: "s \<notin> set (keys (sm_shells m))" using en EvOpen by simp
  have "log_kept sid aid [] m m'"
    using open_shell_cases [OF o]
  proof (elim disjE exE conjE)
    fix account pty cols rows
    assume m': "m' = m\<lparr>sm_shells := assoc_put s (new_entry A sha256 (sm_config m) req account pty cols rows s token now) (sm_shells m),
      sm_idempotency := assoc_put (rq_user req, rq_idempotency_key req) s (sm_idempotency m)\<rparr>"
    have "map_of (sm_shells m) sid = Some e \<Longrightarrow> sid \<noteq> s" for e
      using s map_of_None_keys [of "sm_shells m" s] by auto
    then show ?thesis by (auto simp: m' log_kept_def log_step_same)
  qed (auto simp: log_kept_refl log_step_same intro!: log_kept_set_runtime)
  then show ?thesis using EvOpen by (simp add: chunks_of_def)
next
  case (EvAttach owner s token cols rows fresh now res)
  have "log_kept sid aid [] m (fst (attach A sha256 owner s token cols rows fresh now res m))"
    by (auto simp: attach_def Let_def log_kept_refl split: option.splits prod.splits
        intro!: log_kept_set_runtime log_step_attached)
  then show ?thesis using EvAttach ex by (simp add: chunks_of_def)
next
  case (EvAttachAuthorized owner s cols rows fresh now res)
  have "log_kept sid aid [] m (fst (attach_authorized A sha256 owner s cols rows fresh now res m))"
    by (auto simp: attach_authorized_def Let_def log_kept_refl split: option.splits prod.splits
        intro!: log_kept_set_runtime log_step_attached)
  then show ?thesis using EvAttachAuthorized ex by (simp add: chunks_of_def)
next
  case (EvDetach s a)
  then show ?thesis using ex
    by (auto simp: chunks_of_def detach_def log_kept_refl log_step_drop split: option.splits intro!: log_kept_set_runtime)
next
  case (EvWrite s data res)
  then show ?thesis using ex
    by (auto simp: chunks_of_def write_input_def log_kept_refl log_step_same split: option.splits sum.splits
        intro!: log_kept_set_runtime)
next
  case (EvResize s cols rows res)
  then show ?thesis using ex
    by (auto simp: chunks_of_def resize_def clamp_dims_def Let_def log_kept_refl log_step_same
        split: option.splits sum.splits if_splits intro!: log_kept_set_runtime)
next
  case (EvTerminateBegin s res)
  then show ?thesis using ex
    by (auto simp: chunks_of_def terminate_begin_def Let_def log_kept_refl log_step_same
        split: option.splits sum.splits intro!: log_kept_set_runtime)
next
  case (EvTerminateEnd s timed_out)
  then show ?thesis using ex
    by (auto simp: chunks_of_def terminate_end_def Let_def log_kept_refl log_step_same
        split: option.splits if_splits intro!: log_kept_set_runtime)
next
  case (EvPumpChunk s chunk)
  then show ?thesis using ex log_step_pump sm_inv_entry [OF inv]
    by (fastforce simp: chunks_of_def log_kept_def lookup_set_runtime log_step_same split: option.splits)
next
  case (EvPumpEof s wait_result)
  then show ?thesis using ex by (auto simp: chunks_of_def log_step_eof intro!: log_kept_set_runtime)
next
  case (EvRecv s a)
  then show ?thesis using ex log_step_channel [OF chan_recv_log]
    by (auto simp: chunks_of_def intro!: log_kept_set_runtime)
next
  case (EvHangup s a)
  then show ?thesis using ex log_step_channel [of hang_up]
    by (auto simp: chunks_of_def hang_up_def intro!: log_kept_set_runtime)
next
  case (EvRemove s)
  then show ?thesis using ex keep
    by (auto simp: chunks_of_def remove_exited_def log_kept_def log_step_same split: option.splits if_splits)
qed

lemma log_kept_trans:
  assumes "log_kept sid aid a m m1" and "log_kept sid aid b m1 m2"
  shows "log_kept sid aid (a @ b) m m2"
  using assms unfolding log_kept_def log_step_def by (smt (verit) append_assoc le_trans order_less_le_trans)

lemma log_kept_session_step:
  assumes inv: "sm_inv m" and keep: "ev \<noteq> EvRemove sid"
  shows "log_kept sid aid (chunks_of sid ev) m (session_step A sha256 m ev)"
proof (cases "enabled m ev")
  case True
  then obtain m' where "session_exec A sha256 m ev = Some m'" using session_exec_inv [OF inv] by blast
  then show ?thesis using log_kept_step [OF inv True keep] True by (simp add: session_step_def)
next
  case False
  show ?thesis
  proof (cases "chunks_of sid ev = []")
    case True
    then show ?thesis using False log_kept_refl by (simp add: session_step_def)
  next
    case pump: False
    then obtain chunk where ev: "ev = EvPumpChunk sid chunk"
      by (auto simp: chunks_of_def split: session_event.splits if_splits)
    have "att_log aid (se_runtime e) = None" if e: "map_of (sm_shells m) sid = Some e" for e
    proof -
      have "rt_exit (se_runtime e) \<noteq> None" using False ev e by (auto simp: exit_of_def)
      then show ?thesis using sm_inv_entry [OF inv e] by (auto simp: rt_inv_def att_log_def)
    qed
    then show ?thesis using False by (auto simp: session_step_def log_kept_def log_step_def)
  qed
qed

lemma log_kept_run:
  assumes "sm_inv m" and "\<forall>ev \<in> set es. ev \<noteq> EvRemove sid"
  shows "log_kept sid aid (concat (map (chunks_of sid) es)) m (foldl (session_step A sha256) m es)"
  using assms
proof (induction es arbitrary: m)
  case Nil
  then show ?case by (simp add: log_kept_refl)
next
  case (Cons ev es)
  let ?m = "session_step A sha256 m ev"
  have inv: "sm_inv ?m" using Cons.prems(1) by (rule session.step_inv)
  have step: "log_kept sid aid (chunks_of sid ev) m ?m"
    using Cons.prems by (intro log_kept_session_step) auto
  show ?case
    using log_kept_trans [OF step Cons.IH [OF inv]] Cons.prems(2) by simp
qed

text \<open>
  (C6) An attachment misses nothing: from the moment a client is attached, and as long as it
  stays attached, what it has received followed by what is queued for it is exactly the PTY
  output pumped since then, chunk for chunk and in order, whatever other calls, clients,
  resizes and hang-ups are interleaved.
\<close>

theorem attachment_stream:
  assumes "sm_inv m" and "attach A sha256 owner sid token cols rows fresh now res m = (m1, Ok a)"
    and "\<forall>ev \<in> set es. ev \<noteq> EvRemove sid"
    and "map_of (sm_shells (foldl (session_step A sha256) m1 es)) sid = Some e"
    and "map_of (rt_attachments (se_runtime e)) (at_id a) = Some ch"
  shows "ch_taken ch @ ch_queue ch = concat (map (chunks_of sid) es)"
proof -
  obtain e0 e1 where e0: "map_of (sm_shells m) sid = Some e0" and e1: "map_of (sm_shells m1) sid = Some e1"
      and new: "map_of (rt_attachments (se_runtime e1)) (at_id a) = Some chan_new"
    using attach_outcome [OF assms(1,2)] by auto
  have inv1: "sm_inv m1" using attach_inv [OF assms(1), of A sha256 owner sid token cols rows fresh now res] assms(2) by simp
  have lt: "at_id a < rt_next_attachment_id (se_runtime e1)"
  proof -
    have "at_id a \<in> set (keys (rt_attachments (se_runtime e1)))"
      using new map_of_None_keys [of "rt_attachments (se_runtime e1)" "at_id a"] by auto
    then show ?thesis using sm_inv_entry [OF inv1 e1] by (auto simp: rt_inv_def chans_ok_def)
  qed
  have "log_step (at_id a) (concat (map (chunks_of sid) es)) (se_runtime e1) (se_runtime e)"
    using log_kept_run [OF inv1 assms(3), of "at_id a" A sha256] e1 assms(4) by (auto simp: log_kept_def)
  then show ?thesis using lt new assms(5) by (auto simp: log_step_def att_log_def chan_new_def)
qed

theorem attachment_stream_witness:
  "\<exists>m1 a e ch. attach null_avt id (lit ''u'') [1] [7] 0 0 [8] 6 (Ok ()) sample_manager = (m1, Ok a)
     \<and> map_of (sm_shells (foldl (session_step null_avt id) m1 [EvPumpChunk [1] [65], EvRecv [1] 1])) [1] = Some e
     \<and> map_of (rt_attachments (se_runtime e)) (at_id a) = Some ch
     \<and> ch_taken ch @ ch_queue ch = [Output [65]]"
proof -
  obtain rt1 a where a: "attach null_avt id (lit ''u'') [1] [7] 0 0 [8] 6 (Ok ()) sample_manager
      = (set_runtime [1] (\<lambda>_. rt1) sample_manager, Ok a)"
    and rt1: "at_id a = 1" "rt_exit rt1 = None" "rt_attachments rt1 = [(1, chan_new)]"
    using sample_attach by blast
  let ?m1 = "set_runtime [1] (\<lambda>_. rt1) sample_manager"
  let ?e1 = "sample_entry\<lparr>se_runtime := rt1\<rparr>"
  let ?es = "[EvPumpChunk [1] [65], EvRecv [1] 1]"
  have inv: "sm_inv ?m1"
    using attach_inv [OF sample_inv, of null_avt id "lit ''u''" "[1]" "[7]" 0 0 "[8]" 6 "Ok ()"] a by simp
  have e1: "map_of (sm_shells ?m1) [1] = Some ?e1" by (simp add: lookup_set_runtime sample_lookup)
  have "rt_inv (sm_config ?m1) rt1" using sm_inv_entry [OF inv e1] by simp
  then obtain rt2 where p: "pump_chunk null_avt (max_queued_chunks (sm_config ?m1)) [65] rt1 = Some rt2"
    using pump_chunk_inv [of _ rt1 null_avt "[65]"] rt1(2) by blast
  then have "map_of (rt_attachments rt2) 1 = Some (chan_new\<lparr>ch_queue := [Output [65]]\<rparr>)"
    using rt1(3)
    by (auto simp: pump_chunk_def fan_out_lookup accepts_def chan_new_def sample_config session_core_config_default_def
        split: option.splits prod.splits)
  moreover have "foldl (session_step null_avt id) ?m1 ?es
      = set_runtime [1] (on_channel 1 chan_recv) (set_runtime [1] (\<lambda>_. rt2) ?m1)"
    using p e1 rt1(2) by (simp add: session_step_def exit_of_def)
  ultimately have "\<exists>e ch. map_of (sm_shells (foldl (session_step null_avt id) ?m1 ?es)) [1] = Some e
      \<and> map_of (rt_attachments (se_runtime e)) (at_id a) = Some ch"
    using rt1(1) by (simp add: lookup_set_runtime sample_lookup on_channel_def)
  then show ?thesis
    using attachment_stream [OF sample_inv a, of ?es] a by (fastforce simp: chunks_of_def)
qed

section \<open>One slow client\<close>

text \<open>
  A slow client never disturbs the others: pumping a chunk always succeeds and feeds the
  screen; each attachment whose queue has room gets exactly that chunk appended, each whose
  queue is full or whose receiver is gone is detached with its queue intact, and what happens
  to one does not depend on the others; the shell keeps its state, PTY and tokens.
\<close>

theorem pump_independent:
  assumes "rt_inv c rt" and "rt_exit rt = None"
  shows "\<exists>rt' m' rev. pump_chunk A (max_queued_chunks c) chunk rt = Some rt'
     \<and> tm_feed A (rt_model rt) chunk = Some (m', rev) \<and> rt_model rt' = m'
     \<and> (\<forall>aid ch. map_of (rt_attachments rt) aid = Some ch \<longrightarrow>
          (if ch_receiver ch \<and> length (ch_queue ch) < max_queued_chunks c
           then map_of (rt_attachments rt') aid = Some (ch\<lparr>ch_queue := ch_queue ch @ [Output chunk]\<rparr>)
           else map_of (rt_attachments rt') aid = None \<and> (aid, ch) \<in> set (rt_closed rt')))
     \<and> set (keys (rt_attachments rt')) \<subseteq> set (keys (rt_attachments rt))
     \<and> rt_state rt' = rt_state rt \<and> rt_pty rt' = rt_pty rt
     \<and> rt_token_hash rt' = rt_token_hash rt \<and> rt_superseded rt' = rt_superseded rt"
proof -
  obtain m' rev where m': "tm_feed A (rt_model rt) chunk = Some (m', rev)"
    using tm_feed_total [of "rt_model rt" A chunk] assms(1) by (auto simp: rt_inv_def)
  let ?rt = "rt\<lparr>rt_model := m'\<rparr>" and ?b = "max_queued_chunks c"
  let ?rt' = "fan_out ?b (Output chunk) ?rt"
  have d: "distinct (keys (rt_attachments ?rt))" using assms(1) by (simp add: rt_inv_def chans_ok_def)
  have closed: "(aid, ch) \<in> set (rt_closed ?rt')"
    if "map_of (rt_attachments rt) aid = Some ch" "\<not> accepts ?b ch" for aid ch
    using that by (auto simp: fan_out_closed dest: map_of_SomeD)
  have "set (keys (rt_attachments ?rt')) \<subseteq> set (keys (rt_attachments rt))"
    unfolding keys_fan_out by (auto simp: keys_def)
  then show ?thesis
    using m' fan_out_lookup [OF d, of ?b "Output chunk"] closed
    by (intro exI [of _ ?rt'] exI [of _ m'] exI [of _ rev]) (auto simp: pump_chunk_def accepts_def)
qed

theorem pump_independent_witness:
  "\<exists>rt'. pump_chunk null_avt 128 [65] (se_runtime sample_entry) = Some rt' \<and> rt_state rt' = Running"
proof -
  have "rt_inv session_core_config_default (se_runtime sample_entry)"
    using sm_inv_entry [OF sample_inv sample_lookup] by (simp add: sample_config)
  from pump_independent [OF this sample_fields(4), of null_avt "[65]"] show ?thesis
    by (auto simp: sample_fields session_core_config_default_def)
qed

section \<open>Idempotent opening\<close>

definition idem_kept :: "rstring \<times> bytes \<Rightarrow> bytes \<Rightarrow> 'vt shell_manager \<Rightarrow> bool" where
  "idem_kept key sid m \<longleftrightarrow> map_of (sm_idempotency m) key = Some sid \<and> (\<exists>e. map_of (sm_shells m) sid = Some e \<and> se_id e = sid)"

lemma idem_kept_step:
  assumes inv: "sm_inv m" and keep: "ev \<noteq> EvRemove sid" and k: "idem_kept key sid m"
  shows "idem_kept key sid (session_step A sha256 m ev)"
proof -
  have set: "idem_kept key sid (set_runtime s f m)" for s f
    using k by (auto simp: idem_kept_def lookup_set_runtime)
  have opened: "idem_kept key sid m'" if o: "open_shell A sha256 w req s token now m = Some (m', r)"
    and s: "s \<notin> set (keys (sm_shells m))" for w req s token now m' r
    using open_shell_cases [OF o]
  proof (elim disjE exE conjE)
    fix account pty cols rows
    assume b: "Option.bind (map_of (sm_idempotency m) (rq_user req, rq_idempotency_key req)) (map_of (sm_shells m)) = None"
      and m': "m' = m\<lparr>sm_shells := assoc_put s (new_entry A sha256 (sm_config m) req account pty cols rows s token now) (sm_shells m),
        sm_idempotency := assoc_put (rq_user req, rq_idempotency_key req) s (sm_idempotency m)\<rparr>"
    have "key \<noteq> (rq_user req, rq_idempotency_key req)" using b k by (auto simp: idem_kept_def)
    moreover have "sid \<noteq> s" using s k map_of_None_keys [of "sm_shells m" s] by (auto simp: idem_kept_def)
    ultimately show ?thesis using k by (auto simp: idem_kept_def m')
  qed (use k set in auto)
  have removed: "idem_kept key sid (fst (remove_exited s m))" if "s \<noteq> sid" for s
  proof -
    have "map_of (filter (\<lambda>(k, i). i \<noteq> s) (sm_idempotency m)) key = Some sid"
      using k that map_of_filter_distinct [of "sm_idempotency m" "\<lambda>i. i \<noteq> s" key] inv
      by (simp add: idem_kept_def sm_inv_def)
    then show ?thesis using k that by (auto simp: remove_exited_def idem_kept_def split: option.splits)
  qed
  show ?thesis
    using k set opened removed keep
    by (cases ev)
      (auto simp: session_step_def attach_def attach_authorized_def detach_def write_input_def resize_def
        terminate_begin_def terminate_end_def Let_def split: option.splits prod.splits sum.splits if_splits)
qed

lemma idem_kept_run:
  assumes "sm_inv m" and "\<forall>ev \<in> set es. ev \<noteq> EvRemove sid" and "idem_kept key sid m"
  shows "idem_kept key sid (foldl (session_step A sha256) m es)"
  using assms
proof (induction es arbitrary: m)
  case (Cons ev es)
  then show ?case using idem_kept_step [OF Cons.prems(1)] session.step_inv [OF Cons.prems(1)] by simp
qed simp

lemma opened_idem_kept:
  assumes "sm_inv m" and "sid \<notin> set (keys (sm_shells m))"
    and "open_shell A sha256 w req sid token now m = Some (m1, Ok o1)"
  shows "idem_kept (rq_user req, rq_idempotency_key req) (os_shell_id o1) m1
     \<and> (\<exists>e. map_of (sm_shells m1) (os_shell_id o1) = Some e \<and> se_owner e = rq_user req)"
  using open_shell_cases [OF assms(3)]
proof (elim disjE exE conjE)
  fix old e
  assume o: "map_of (sm_idempotency m) (rq_user req, rq_idempotency_key req) = Some old" "map_of (sm_shells m) old = Some e"
    "m1 = set_runtime old (rotate_token sha256 token) m"
    "Ok o1 = Ok \<lparr>os_shell_id = se_id e, os_resume_token = token, os_reused = True\<rparr>"
  have "se_owner e = rq_user req" using sm_inv_idem [OF assms(1) map_of_SomeD [OF o(1)]] o(2) by auto
  then show ?thesis using o sm_inv_entry [OF assms(1) o(2)] by (auto simp: idem_kept_def lookup_set_runtime)
qed (auto simp: idem_kept_def)

text \<open>
  (C10) Opening is idempotent per user: after a successful open, every later open of the same
  user with the same key, whatever happened in between, returns the same shell with a fresh
  token and creates nothing, unless the shell has been removed; and the shell handed out always
  belongs to the requesting user, so a key of one user never reaches a shell of another.
\<close>

theorem open_idempotent:
  assumes "sm_inv m" and "sid \<notin> set (keys (sm_shells m))"
    and "open_shell A sha256 w req sid token now m = Some (m1, Ok o1)"
    and "\<forall>ev \<in> set es. ev \<noteq> EvRemove (os_shell_id o1)"
    and "m2 = foldl (session_step A sha256) m1 es"
    and "rq_user req2 = rq_user req" and "rq_idempotency_key req2 = rq_idempotency_key req"
  shows "(\<exists>e. map_of (sm_shells m1) (os_shell_id o1) = Some e \<and> se_owner e = rq_user req)
    \<and> (\<exists>m3. open_shell A sha256 w2 req2 sid2 token2 now2 m2
          = Some (m3, Ok \<lparr>os_shell_id = os_shell_id o1, os_resume_token = token2, os_reused = True\<rparr>)
        \<and> keys (sm_shells m3) = keys (sm_shells m2))"
proof -
  have inv1: "sm_inv m1" using open_shell_inv [OF assms(1,2), of A sha256 w req token now] assms(3) by auto
  note k1 = opened_idem_kept [OF assms(1-3)]
  have "idem_kept (rq_user req, rq_idempotency_key req) (os_shell_id o1) m2"
    unfolding assms(5) using k1 by (intro idem_kept_run [OF inv1 assms(4)]) simp
  then show ?thesis using k1 assms(6,7)
    by (auto simp: idem_kept_def open_shell_def Let_def)
qed

theorem open_idempotent_witness:
  "\<exists>m3. open_shell null_avt id sample_world sample_request [2] [6] 9
        (foldl (session_step null_avt id) sample_manager [EvPumpEof [1] (Ok lost_exit)])
      = Some (m3, Ok \<lparr>os_shell_id = [1], os_resume_token = [6], os_reused = True\<rparr>)"
proof -
  let ?m = "manager_new session_core_config_default :: unit shell_manager"
  have m: "sm_inv ?m" unfolding manager_new_def by (rule manager_inv)
  have f: "[1] \<notin> set (keys (sm_shells ?m))" by (simp add: manager_new_def manager_with_policy_def)
  from open_idempotent [OF m f sample_open, of "[EvPumpEof [1] (Ok lost_exit)]", OF _ refl refl refl,
      of sample_world "[2]" "[6]" 9]
  show ?thesis by auto
qed

section \<open>Accounts\<close>

definition accounts_ok :: "(rstring \<Rightarrow> rstring \<Rightarrow> bool) \<Rightarrow> 'vt shell_manager \<Rightarrow> bool" where
  "accounts_ok may_use m \<longleftrightarrow>
     (\<forall>sid e a. (sid, e) \<in> set (sm_shells m) \<longrightarrow> se_account e = Some a \<longrightarrow> may_use (se_owner e) a)"

context access_policy
begin

lemma accounts_set_runtime: "accounts_ok may_use m \<Longrightarrow> accounts_ok may_use (set_runtime s f m)"
  by (auto simp: accounts_ok_def set_runtime_def in_assoc_upd split: if_splits)

lemma accounts_open:
  assumes "accounts_ok may_use m" and "sm_policy m = resolve"
    and "open_shell A sha256 w req s token now m = Some (m', r)"
  shows "accounts_ok may_use m' \<and> sm_policy m' = resolve"
  using open_shell_cases [OF assms(3)]
proof (elim disjE exE conjE)
  fix account pty cols rows
  assume p: "sm_policy m (rq_user req) (rq_account req) = Ok account"
    and m': "m' = m\<lparr>sm_shells := assoc_put s (new_entry A sha256 (sm_config m) req account pty cols rows s token now) (sm_shells m),
        sm_idempotency := assoc_put (rq_user req, rq_idempotency_key req) s (sm_idempotency m)\<rparr>"
  have "account = Some a \<Longrightarrow> may_use (rq_user req) a" for a
    using p assms(2) resolved_may_use by simp
  then show ?thesis using assms
    by (auto simp: m' accounts_ok_def assoc_put_def in_assoc_upd split: if_splits)
qed (use assms in \<open>auto simp: accounts_set_runtime\<close>)

lemma accounts_step:
  assumes "accounts_ok may_use m \<and> sm_policy m = resolve"
  shows "accounts_ok may_use (session_step A sha256 m ev) \<and> sm_policy (session_step A sha256 m ev) = resolve"
proof -
  have removed: "accounts_ok may_use (fst (remove_exited s m)) \<and> sm_policy (fst (remove_exited s m)) = resolve" for s
    using assms by (auto simp: remove_exited_def accounts_ok_def assoc_del_def split: option.splits)
  show ?thesis
    using assms removed accounts_open [of m]
    by (cases ev)
      (auto simp: session_step_def attach_def attach_authorized_def detach_def write_input_def resize_def
        terminate_begin_def terminate_end_def Let_def accounts_set_runtime
        split: option.splits prod.splits sum.splits if_splits)
qed

lemma accounts_run:
  "accounts_ok may_use m \<and> sm_policy m = resolve \<Longrightarrow>
     accounts_ok may_use (foldl (session_step A sha256) m es) \<and> sm_policy (foldl (session_step A sha256) m es) = resolve"
  by (induction es arbitrary: m) (simp_all add: accounts_step)

end

text \<open>
  Accounts stay confined: with the allowlist policy, in every state any sequence of calls
  can reach, every shell that runs under a named account runs under one on its owner's list.
\<close>

theorem accounts_confined:
  "\<exists>m. session_run A sha256 (manager_with_policy config (static_resolve allowed)) es = Some m
     \<and> list_all (\<lambda>(sid, e). case se_account e of
            None \<Rightarrow> True
          | Some a \<Rightarrow> \<exists>as. map_of allowed (se_owner e) = Some as \<and> a \<in> set as) (sm_shells m)"
proof -
  let ?m = "manager_with_policy config (static_resolve allowed)"
  have "accounts_ok (\<lambda>u a. \<exists>as. map_of allowed u = Some as \<and> a \<in> set as) ?m \<and> sm_policy ?m = static_resolve allowed"
    by (simp add: accounts_ok_def manager_with_policy_def)
  from static.accounts_run [OF this, of A sha256 es] show ?thesis
    using session_run_foldl [OF manager_inv, of A sha256 config "static_resolve allowed" es]
    by (auto simp: accounts_ok_def list_all_iff split: option.splits)
qed

section \<open>Expiry\<close>

lemma reap_loop_reaped:
  "reap_loop cutoff kill await es m = Some (m', reaped) \<Longrightarrow> (u, sid, x) \<in> set reaped \<Longrightarrow>
     \<exists>e \<in> set es. se_owner e = u \<and> se_id e = sid"
proof (induction es arbitrary: m reaped)
  case (Cons e es)
  obtain m1 r where r: "reap_loop cutoff kill await es m1 = Some (m', r)"
      "reaped = r \<or> (\<exists>y. reaped = (se_owner e, se_id e, y) # r)"
    using Cons.prems(1)
    by (auto simp: Let_def split: if_splits option.splits sum.splits prod.splits)
  then show ?case using Cons.IH [OF r(1)] Cons.prems(2) by auto
qed simp

text \<open>
  Only idle shells are reaped: every shell the reaper reports was, when it scanned, running
  with no attachment and unused since the cutoff, and is reported with its own owner.
\<close>

theorem reap_only_idle:
  assumes "reap_idle ttl_ms now kill await m = Some (m', reaped)" and "(u, sid, x) \<in> set reaped"
  shows "\<exists>k e. (k, e) \<in> set (sm_shells m) \<and> se_id e = sid \<and> se_owner e = u
     \<and> rt_state (se_runtime e) = Running \<and> rt_attachments (se_runtime e) = []
     \<and> idle_anchor_ms e \<le> saturating_sub_i64 now (sint (of_nat ttl_ms :: u64))"
  using reap_loop_reaped [of "idle_cutoff now ttl_ms" kill await _ m m' reaped u sid x] assms
  by (fastforce simp: reap_idle_def Let_def reap_candidates_def expired_def idle_cutoff_def)

definition sample_await :: "bytes \<Rightarrow> unit shell_manager \<Rightarrow> unit shell_manager \<times> unit shell_entry \<times> bool" where
  "sample_await s m = (set_runtime s (pump_eof 128 (Ok lost_exit)) m, sample_entry, False)"

lemma sample_reap:
  "\<exists>m'. reap_idle 10 100 (\<lambda>_. Ok ()) sample_await sample_manager = Some (m', [(lit ''u'', [1], lost_exit)])"
proof -
  have c: "idle_cutoff 100 10 = 90"
    by (simp add: idle_cutoff_def saturating_sub_i64_def clamp_i64_def i64_max_def i64_min_def)
  have e: "expired 90 sample_entry" by (simp add: expired_def sample_fields idle_anchor_ms_def)
  then have "reap_candidates 90 sample_manager = [sample_entry]"
    by (simp add: reap_candidates_def sample_manager_def)
  moreover have "\<exists>m'. terminate [1] (Ok ()) (sample_await [1]) sample_manager = Some (m', Ok lost_exit)"
    by (simp add: terminate_def terminate_begin_def sample_lookup sample_fields Let_def sample_await_def
        terminate_end_def lookup_set_runtime pump_eof_def lost_exit_def split: option.splits)
  ultimately show ?thesis using e sample_lookup by (auto simp: reap_idle_def c sample_fields)
qed

theorem reap_only_idle_witness:
  "\<exists>m'. reap_idle 10 100 (\<lambda>_. Ok ()) sample_await sample_manager = Some (m', [(lit ''u'', [1], lost_exit)])
     \<and> idle_anchor_ms sample_entry \<le> 90"
proof -
  obtain m' where m': "reap_idle 10 100 (\<lambda>_. Ok ()) sample_await sample_manager = Some (m', [(lit ''u'', [1], lost_exit)])"
    using sample_reap by blast
  from reap_only_idle [OF m', of "lit ''u''" "[1]" lost_exit] have "idle_anchor_ms sample_entry \<le> 90"
    by (simp add: sample_manager_def saturating_sub_i64_def clamp_i64_def i64_max_def i64_min_def)
  with m' show ?thesis by blast
qed

text \<open>
  A kill that fails leaves its shell in \<open>Terminating\<close>: nobody can attach to it any more and the
  reaper no longer considers it, although its process runs on.
\<close>

lemma failed_kill_sticks:
  assumes "map_of (sm_shells m) sid = Some e" and "rt_exit (se_runtime e) = None" and "rt_pty (se_runtime e) = Some p"
  shows "terminate_begin sid (Err x) m
      = (set_runtime sid (\<lambda>rt. rt\<lparr>rt_state := Terminating\<rparr>) m, Done (Err (Pty x)))"
    and "snd (attach_authorized A sha256 (se_owner e) sid cols rows fresh now res
      (set_runtime sid (\<lambda>rt. rt\<lparr>rt_state := Terminating\<rparr>) m)) = Err NotRunning"
    and "\<not> expired cutoff (e\<lparr>se_runtime := (se_runtime e)\<lparr>rt_state := Terminating\<rparr>\<rparr>)"
  using assms
  by (simp_all add: terminate_begin_def Let_def attach_authorized_def lookup_set_runtime attach_runtime_def expired_def)

end
