(* ===== verification/Grant.thy ===== *)
theory Grant
  imports Utf8 Rust_Text
begin

text \<open>
  Connection grants, \<open>crates/auth/src/grant.rs\<close>. Base64, ed25519 and the JSON form of the
  claims come from other packages and are the fields of the record \<open>grant_codec\<close>; what the
  round trip needs of them is stated as hypotheses.
\<close>

section \<open>Data and operations\<close>

datatype grant_error =
    Malformed
  | BadSignature
  | WrongAudience rstring rstring
  | Expired int int
  | NotYetValid int int

record grant_claims =
  sub :: rstring
  aud :: rstring
  servers :: "rstring list"
  ops :: "rstring list"
  iat_ms :: int
  exp_ms :: int
  jti :: rstring

definition permits :: "grant_claims \<Rightarrow> rstring \<Rightarrow> bool" where
  "permits c op \<longleftrightarrow> ops c = [] \<or> List.member (ops c) op"

record ('sk, 'pk) grant_codec =
  b64_encode :: "bytes \<Rightarrow> rstring"
  b64_decode :: "rstring \<Rightarrow> bytes option"
  sign :: "'sk \<Rightarrow> bytes \<Rightarrow> bytes"
  public_of :: "'sk \<Rightarrow> 'pk"
  sig_ok :: "'pk \<Rightarrow> bytes \<Rightarrow> bytes \<Rightarrow> bool"
  to_json :: "grant_claims \<Rightarrow> bytes"
  from_json :: "bytes \<Rightarrow> grant_claims option"

definition grant_issue :: "('sk, 'pk) grant_codec \<Rightarrow> 'sk \<Rightarrow> grant_claims \<Rightarrow> rstring" where
  "grant_issue K signing claims =
     (let payload = to_json K claims; sig = sign K signing payload in
      b64_encode K payload @ lit ''.'' @ b64_encode K sig)"

text \<open>\<open>split_once('.')\<close>: the text before and after the first dot.\<close>

definition split_once :: "rchar \<Rightarrow> rstring \<Rightarrow> (rstring \<times> rstring) option" where
  "split_once c s =
     (if c \<in> set s then Some (takeWhile (\<lambda>x. x \<noteq> c) s, tl (dropWhile (\<lambda>x. x \<noteq> c) s)) else None)"

definition grant_verify ::
  "('sk, 'pk) grant_codec \<Rightarrow> 'pk \<Rightarrow> rstring \<Rightarrow> rstring \<Rightarrow> int \<Rightarrow> grant_error + grant_claims" where
  "grant_verify K verifying grant expected_audience now_ms =
     (case split_once 46 grant of
        None \<Rightarrow> Err Malformed
      | Some (payload_b64, sig_b64) \<Rightarrow>
          (case b64_decode K payload_b64 of
             None \<Rightarrow> Err Malformed
           | Some payload \<Rightarrow>
               (case b64_decode K sig_b64 of
                  None \<Rightarrow> Err Malformed
                | Some sig \<Rightarrow>
                    if length sig \<noteq> 64 then Err Malformed
                    else if \<not> sig_ok K verifying payload sig then Err BadSignature
                    else
                      (case from_json K payload of
                         None \<Rightarrow> Err Malformed
                       | Some claims \<Rightarrow>
                           if aud claims \<noteq> expected_audience then
                             Err (WrongAudience (aud claims) expected_audience)
                           else if now_ms \<ge> exp_ms claims then Err (Expired (exp_ms claims) now_ms)
                           else if saturating_add_i64 now_ms 60000 < iat_ms claims then
                             Err (NotYetValid (iat_ms claims) now_ms)
                           else Ok claims))))"

definition grant_from_wire :: "bytes \<Rightarrow> grant_error + rstring" where
  "grant_from_wire bs = (case from_utf8 bs of Inr s \<Rightarrow> Ok s | Inl _ \<Rightarrow> Err Malformed)"

definition grant_as_bytes :: "rstring \<Rightarrow> bytes" where
  "grant_as_bytes g = as_bytes g"

section \<open>Lemmas\<close>

lemma split_once_append: "c \<notin> set a \<Longrightarrow> split_once c (a @ c # b) = Some (a, b)"
  by (induction a) (auto simp: split_once_def)

text \<open>What the round trip asks of the packages.\<close>

definition codec_laws :: "('sk, 'pk) grant_codec \<Rightarrow> bool" where
  "codec_laws K \<longleftrightarrow>
     (\<forall>bs. b64_decode K (b64_encode K bs) = Some bs \<and> 46 \<notin> set (b64_encode K bs))
     \<and> (\<forall>k m. length (sign K k m) = 64 \<and> sig_ok K (public_of K k) m (sign K k m))"

text \<open>
  A codec for the witness: characters offset by 100 for base64, a signature that carries the
  key and the payload's length, and the JSON form of one claim.
\<close>

definition sample_claims :: grant_claims where
  "sample_claims = \<lparr>sub = lit ''a'', aud = lit ''s'', servers = [], ops = [], iat_ms = 0, exp_ms = 10, jti = []\<rparr>"

definition sample_codec :: "(u8, u8) grant_codec" where
  "sample_codec =
     \<lparr>b64_encode = map (\<lambda>b. unat b + 100),
      b64_decode = (\<lambda>s. Some (map (\<lambda>c. of_nat (c - 100)) s)),
      sign = (\<lambda>k m. k # replicate 63 (of_nat (length m))),
      public_of = (\<lambda>k. k),
      sig_ok = (\<lambda>k m s. s = k # replicate 63 (of_nat (length m))),
      to_json = (\<lambda>c. [1, 2, 3]),
      from_json = (\<lambda>bs. if bs = [1, 2, 3] then Some sample_claims else None)\<rparr>"

section \<open>Properties\<close>

text \<open>
  A grant is accepted only with everything in order: verification succeeds exactly when
  the text is a payload and a 64-byte signature around its first dot, the signature is valid
  for that payload, the payload holds the claims returned, the audience is the expected one,
  the expiry lies strictly ahead and the issue time is at most a minute ahead.
\<close>

theorem grant_verify_exact:
  "grant_verify K pk grant audience now = Ok claims \<longleftrightarrow>
     (\<exists>p s payload sig. split_once 46 grant = Some (p, s)
        \<and> b64_decode K p = Some payload \<and> b64_decode K s = Some sig \<and> length sig = 64
        \<and> sig_ok K pk payload sig \<and> from_json K payload = Some claims
        \<and> aud claims = audience \<and> now < exp_ms claims \<and> iat_ms claims \<le> saturating_add_i64 now 60000)"
  by (auto simp: grant_verify_def split: option.splits)

text \<open>
  Grants round-trip: with codecs that invert and signatures that verify, a grant that was
  issued verifies under the issuer's public key, on the wire as well, exactly for its own
  audience and inside its time window, and yields the claims it was issued with.
\<close>

theorem grant_roundtrip:
  assumes "codec_laws K" and "from_json K (to_json K claims) = Some claims"
    and "list_all is_scalar (grant_issue K sk claims)"
  shows "grant_from_wire (grant_as_bytes (grant_issue K sk claims)) = Ok (grant_issue K sk claims)
     \<and> grant_verify K (public_of K sk) (grant_issue K sk claims) audience now =
       (if aud claims \<noteq> audience then Err (WrongAudience (aud claims) audience)
        else if exp_ms claims \<le> now then Err (Expired (exp_ms claims) now)
        else if saturating_add_i64 now 60000 < iat_ms claims then Err (NotYetValid (iat_ms claims) now)
        else Ok claims)"
proof -
  have "split_once 46 (grant_issue K sk claims)
      = Some (b64_encode K (to_json K claims), b64_encode K (sign K sk (to_json K claims)))"
    using assms(1) by (simp add: grant_issue_def Let_def lit_def split_once_append codec_laws_def)
  then show ?thesis
    using assms by (auto simp: grant_verify_def codec_laws_def grant_from_wire_def grant_as_bytes_def from_utf8_encode)
qed

theorem grant_roundtrip_witness:
  "grant_verify sample_codec 7 (grant_issue sample_codec 7 sample_claims) (lit ''s'') 5 = Ok sample_claims"
proof -
  have "codec_laws sample_codec"
    by (auto simp: codec_laws_def sample_codec_def comp_def)
  moreover have "from_json sample_codec (to_json sample_codec sample_claims) = Some sample_claims"
    by (simp add: sample_codec_def)
  moreover have "list_all is_scalar (grant_issue sample_codec 7 sample_claims)"
    by (simp add: sample_codec_def grant_issue_def is_scalar_def lit_def Let_def list_all_iff)
  ultimately show ?thesis
    using grant_roundtrip [of sample_codec sample_claims 7 "lit ''s''" 5]
    by (simp add: sample_claims_def saturating_add_i64_def clamp_i64_def i64_max_def i64_min_def)
      (simp add: sample_codec_def)
qed

end
