(* ===== verification/Rate_Limit.thy ===== *)
theory Rate_Limit
  imports Prelude "HOL-Library.Multiset"
begin

text \<open>
  The failed-attempt limiter of \<open>crates/daemon/src/auth.rs\<close>. Instants and durations are
  natural numbers; \<open>duration_since\<close> saturates at zero, as subtraction of naturals does.
  Addresses are a type parameter. The order of the association list stands for the iteration
  order of the hash map, so the sort by expiry may break ties either way.
\<close>

section \<open>State and operations\<close>

record rate_limit_policy =
  max_failures :: nat
  window :: nat
  lockout :: nat
  max_tracked :: nat

definition rate_limit_policy_default :: rate_limit_policy where
  "rate_limit_policy_default = \<lparr>max_failures = 5, window = 60, lockout = 60, max_tracked = 100000\<rparr>"

record bucket =
  failures :: "nat list"
  locked_until :: "nat option"

definition bucket_new :: bucket where
  "bucket_new = \<lparr>failures = [], locked_until = None\<rparr>"

definition is_dead :: "bucket \<Rightarrow> nat \<Rightarrow> nat \<Rightarrow> bool" where
  "is_dead b now w \<longleftrightarrow>
     \<not> (case locked_until b of None \<Rightarrow> False | Some until \<Rightarrow> now < until)
     \<and> \<not> list_ex (\<lambda>t. now - t < w) (failures b)"

definition expires_at :: "bucket \<Rightarrow> nat \<Rightarrow> nat \<Rightarrow> nat" where
  "expires_at b now w =
     (let failure_deadline = (if failures b = [] then None else Some (Max (set (failures b)) + w)) in
      case (locked_until b, failure_deadline) of
        (Some x, Some y) \<Rightarrow> max x y
      | (Some x, None) \<Rightarrow> x
      | (None, Some y) \<Rightarrow> y
      | (None, None) \<Rightarrow> now)"

record 'ip rate_limiter =
  rl_policy :: rate_limit_policy
  rl_map :: "('ip \<times> bucket) list"
  rl_last_sweep :: "nat option"

definition limiter_new :: "rate_limit_policy \<Rightarrow> 'ip rate_limiter" where
  "limiter_new p = \<lparr>rl_policy = p, rl_map = [], rl_last_sweep = None\<rparr>"

definition check :: "'ip \<Rightarrow> nat \<Rightarrow> 'ip rate_limiter \<Rightarrow> 'ip rate_limiter \<times> bool" where
  "check ip now l =
     (case map_of (rl_map l) ip of
        None \<Rightarrow> (l, True)
      | Some b \<Rightarrow>
          (case locked_until b of
             None \<Rightarrow> (l, True)
           | Some until \<Rightarrow>
               if now < until then (l, False)
               else (l\<lparr>rl_map := assoc_upd ip (\<lambda>_. bucket_new) (rl_map l)\<rparr>, True)))"

definition sweep :: "nat \<Rightarrow> nat \<Rightarrow> ('ip \<times> bucket) list \<Rightarrow> ('ip \<times> bucket) list" where
  "sweep now w m = filter (\<lambda>(ip, b). \<not> is_dead b now w) m"

definition evict :: "nat \<Rightarrow> nat \<Rightarrow> nat \<Rightarrow> ('ip \<times> bucket) list \<Rightarrow> ('ip \<times> bucket) list" where
  "evict now w cap m =
     (let overflow = length m - cap;
          by_expiry = sort_key snd (map (\<lambda>(ip, b). (ip, expires_at b now w)) m)
      in foldl (\<lambda>m (ip, _). assoc_del ip m) m (take overflow by_expiry))"

definition prune :: "nat \<Rightarrow> 'ip rate_limiter \<Rightarrow> 'ip rate_limiter" where
  "prune now l =
     (let w = window (rl_policy l); cap = max_tracked (rl_policy l);
          due = (case rl_last_sweep l of None \<Rightarrow> True | Some t \<Rightarrow> now - t \<ge> w);
          l1 = (if due \<or> length (rl_map l) > cap
                then l\<lparr>rl_map := sweep now w (rl_map l), rl_last_sweep := Some now\<rparr> else l)
      in if length (rl_map l1) > cap then l1\<lparr>rl_map := evict now w cap (rl_map l1)\<rparr> else l1)"

definition bump :: "rate_limit_policy \<Rightarrow> nat \<Rightarrow> bucket \<Rightarrow> bucket" where
  "bump p now b =
     (let fs = filter (\<lambda>t. now - t < window p) (failures b) @ [now] in
      b\<lparr>failures := fs,
        locked_until := (if as_u32 (length fs) \<ge> max_failures p then Some (now + lockout p) else locked_until b)\<rparr>)"

definition record_failure :: "'ip \<Rightarrow> nat \<Rightarrow> 'ip rate_limiter \<Rightarrow> 'ip rate_limiter" where
  "record_failure ip now l =
     (let b = (case map_of (rl_map l) ip of None \<Rightarrow> bucket_new | Some b \<Rightarrow> b) in
      prune now (l\<lparr>rl_map := assoc_put ip (bump (rl_policy l) now b) (rl_map l)\<rparr>))"

definition record_success :: "'ip \<Rightarrow> 'ip rate_limiter \<Rightarrow> 'ip rate_limiter" where
  "record_success ip l = l\<lparr>rl_map := assoc_del ip (rl_map l)\<rparr>"

section \<open>Bounded memory\<close>

definition rl_inv :: "rate_limit_policy \<Rightarrow> 'ip rate_limiter \<Rightarrow> bool" where
  "rl_inv p l \<longleftrightarrow> rl_policy l = p \<and> distinct (keys (rl_map l)) \<and> length (rl_map l) \<le> max_tracked p"

lemma distinct_keys_sub: "distinct (keys xs) \<Longrightarrow> distinct (keys (filter P xs))"
  by (simp add: keys_def distinct_map_filter)

lemma del_all_keys:
  "keys (foldl (\<lambda>m (ip, _). assoc_del ip m) m ds) = filter (\<lambda>k. k \<notin> fst ` set ds) (keys m)"
  by (induction ds arbitrary: m) (auto simp: keys_assoc_del intro: filter_cong)

lemma length_keys [simp]: "length (keys m) = length m"
  by (simp add: keys_def)

lemma evict_length:
  assumes "distinct (keys m)" and "cap < length m"
  shows "length (evict now w cap m) = cap"
proof -
  let ?xs = "map (\<lambda>(ip, b). (ip, expires_at b now w)) m"
  let ?ds = "take (length m - cap) (sort_key snd ?xs)"
  have fx: "map fst ?xs = keys m" by (simp add: keys_def comp_def case_prod_unfold)
  have "mset (map fst (sort_key snd ?xs)) = mset (keys m)" using fx by (metis mset_map mset_sort)
  then have dist: "distinct (map fst (sort_key snd ?xs))" and set: "set (map fst (sort_key snd ?xs)) = set (keys m)"
    using assms(1) by (metis mset_eq_imp_distinct_iff, metis set_mset_mset)
  have sub: "fst ` set ?ds \<subseteq> set (keys m)" using image_mono [OF set_take_subset, of fst] set by (metis list.set_map)
  have "card (fst ` set ?ds) = length m - cap"
  proof -
    have "distinct (map fst ?ds)" using dist by (metis distinct_take take_map)
    then have "card (set (map fst ?ds)) = length ?ds" by (metis distinct_card length_map)
    then show ?thesis by simp
  qed
  moreover have "length (filter (\<lambda>k. k \<notin> fst ` set ?ds) (keys m)) = card (set (keys m) - fst ` set ?ds)"
  proof -
    have "set (filter (\<lambda>k. k \<notin> fst ` set ?ds) (keys m)) = set (keys m) - fst ` set ?ds" by auto
    then show ?thesis using distinct_card [OF distinct_filter [OF assms(1)]] by metis
  qed
  moreover have "card (set (keys m)) = length m" using assms(1) by (metis distinct_card length_keys)
  ultimately have "length (keys (evict now w cap m)) = cap"
    unfolding evict_def Let_def del_all_keys using sub assms(2) by (simp add: card_Diff_subset)
  then show ?thesis by simp
qed

lemma evict_distinct: "distinct (keys m) \<Longrightarrow> distinct (keys (evict now w cap m))"
  by (simp add: evict_def Let_def del_all_keys)

lemma prune_inv:
  assumes "rl_policy l = p" and "distinct (keys (rl_map l))"
  shows "rl_inv p (prune now l)"
  using assms by (auto simp: rl_inv_def prune_def Let_def sweep_def distinct_keys_sub evict_length evict_distinct not_less)

lemma record_failure_inv: "rl_inv p l \<Longrightarrow> rl_inv p (record_failure ip now l)"
  by (simp add: record_failure_def Let_def rl_inv_def prune_inv [unfolded rl_inv_def])

lemma record_success_inv: "rl_inv p l \<Longrightarrow> rl_inv p (record_success ip l)"
  using length_assoc_del [of ip "rl_map l"] by (auto simp: record_success_def rl_inv_def)

lemma check_inv: "rl_inv p l \<Longrightarrow> rl_inv p (fst (check ip now l))"
  by (auto simp: check_def rl_inv_def split: option.splits)

datatype 'ip limiter_event = Check 'ip nat | Failure 'ip nat | Success 'ip

fun limiter_step :: "'ip rate_limiter \<Rightarrow> 'ip limiter_event \<Rightarrow> 'ip rate_limiter" where
  "limiter_step l (Check ip now) = fst (check ip now l)"
| "limiter_step l (Failure ip now) = record_failure ip now l"
| "limiter_step l (Success ip) = record_success ip l"

interpretation limiter: invariant_machine limiter_step "rl_inv p" for p
proof unfold_locales
  fix l :: "'a rate_limiter" and ev
  assume "rl_inv p l"
  then show "rl_inv p (limiter_step l ev)"
    by (cases ev) (simp_all add: check_inv record_failure_inv record_success_inv)
qed

section \<open>Decisions\<close>

definition blocked :: "'ip \<Rightarrow> nat \<Rightarrow> 'ip rate_limiter \<Rightarrow> bool" where
  "blocked ip t l \<longleftrightarrow> (\<exists>b until. map_of (rl_map l) ip = Some b \<and> locked_until b = Some until \<and> t < until)"

lemma check_blocked: "snd (check ip t l) \<longleftrightarrow> \<not> blocked ip t l"
  by (auto simp: check_def blocked_def split: option.splits)

lemma del_all_lookup:
  "map_of (foldl (\<lambda>m (ip, _). assoc_del ip m) m ds) k = (if k \<in> fst ` set ds then None else map_of m k)"
  by (induction ds arbitrary: m) auto

lemma sweep_lookup:
  "distinct (keys m) \<Longrightarrow> map_of (sweep now w m) k =
     (case map_of m k of None \<Rightarrow> None | Some b \<Rightarrow> if is_dead b now w then None else Some b)"
proof (induction m)
  case (Cons x m)
  have "k' \<notin> set (keys m) \<Longrightarrow> map_of m k' = None" for k' by (simp add: map_of_None_keys)
  then show ?case using Cons by (cases x) (auto simp: sweep_def split: option.splits)
qed (simp add: sweep_def)

lemma prune_lookup_sub:
  "distinct (keys (rl_map l)) \<Longrightarrow> map_of (rl_map (prune now l)) k = Some b \<Longrightarrow> map_of (rl_map l) k = Some b"
  by (auto simp: prune_def Let_def evict_def del_all_lookup sweep_lookup split: if_splits option.splits)

lemma prune_keeps:
  assumes "distinct (keys (rl_map l))" and "length (rl_map l) \<le> max_tracked (rl_policy l)"
    and "map_of (rl_map l) k = Some b" and "\<not> is_dead b now (window (rl_policy l))"
  shows "map_of (rl_map (prune now l)) k = Some b"
proof -
  have "length (sweep now w (rl_map l)) \<le> max_tracked (rl_policy l)" for w
    using assms(2) le_trans [OF length_filter_le] by (auto simp: sweep_def)
  then show ?thesis using assms by (auto simp: prune_def Let_def sweep_lookup not_less [symmetric])
qed

section \<open>Properties\<close>

text \<open>
  Memory is bounded: whatever stream of checks, failures and successes arrives, from
  however many addresses, the limiter tracks at most the configured number of them, each once.
\<close>

theorem limiter_bounded:
  "rl_inv p (foldl limiter_step (limiter_new p) es)"
  by (rule limiter.run_inv) (simp add: rl_inv_def limiter_new_def)

text \<open>
  Lockout works: when an address fails for the last permitted time within the window, every
  check of it is refused until the lockout has elapsed and allowed from then on, whether or not
  the recording also swept stale entries, as long as the limiter is not over its address cap.
\<close>

theorem lockout_effective:
  assumes "rl_inv p l" and "map_of (rl_map l) ip = Some b"
    and "max_failures p \<le> as_u32 (Suc (length (filter (\<lambda>t. now - t < window p) (failures b))))"
    and "lockout p > 0"
  shows "snd (check ip t (record_failure ip now l)) \<longleftrightarrow> now + lockout p \<le> t"
proof -
  let ?b = "bump p now b" and ?l = "l\<lparr>rl_map := assoc_put ip (bump p now b) (rl_map l)\<rparr>"
  have pol: "rl_policy l = p" and d: "distinct (keys (rl_map l))" and len: "length (rl_map l) \<le> max_tracked p"
    using assms(1) by (auto simp: rl_inv_def)
  have b: "locked_until ?b = Some (now + lockout p)" using assms(3) by (simp add: bump_def Let_def)
  then have dead: "\<not> is_dead ?b now (window p)" using assms(4) by (simp add: is_dead_def)
  have "ip \<in> set (keys (rl_map l))"
    using assms(2) map_of_None_keys [of "rl_map l" ip] by auto
  then have "length (rl_map ?l) \<le> max_tracked p" using len by (simp add: assoc_put_def)
  then have "map_of (rl_map (prune now ?l)) ip = Some ?b"
    using prune_keeps [of ?l ip ?b now] d pol dead by simp
  then show ?thesis
    using b assms(2) pol by (simp add: check_blocked blocked_def record_failure_def Let_def not_less)
qed

theorem lockout_effective_witness:
  "\<not> snd (check (7 :: nat) 70 (record_failure 7 11
      \<lparr>rl_policy = \<lparr>max_failures = 2, window = 60, lockout = 60, max_tracked = 9\<rparr>,
       rl_map = [(7, \<lparr>failures = [10], locked_until = None\<rparr>)], rl_last_sweep = Some 10\<rparr>))"
  using lockout_effective [of "\<lparr>max_failures = 2, window = 60, lockout = 60, max_tracked = 9\<rparr>"
      "\<lparr>rl_policy = \<lparr>max_failures = 2, window = 60, lockout = 60, max_tracked = 9\<rparr>,
       rl_map = [(7, \<lparr>failures = [10], locked_until = None\<rparr>)], rl_last_sweep = Some 10\<rparr>"
      "7 :: nat" "\<lparr>failures = [10], locked_until = None\<rparr>" 11 70]
  by (simp add: rl_inv_def as_u32_def)

text \<open>
  Failures of one address never lock out another: recording a failure, with all the
  sweeping and eviction it may trigger, can only leave the decision for any other address as
  it was or make it more permissive.
\<close>

theorem failure_no_collateral:
  assumes "rl_inv p l" and "other \<noteq> ip" and "snd (check other t l)"
  shows "snd (check other t (record_failure ip now l))"
proof -
  have d: "distinct (keys (rl_map l))" using assms(1) by (simp add: rl_inv_def)
  show ?thesis
    using assms(2,3) d unfolding check_blocked blocked_def record_failure_def Let_def
    by (auto dest!: prune_lookup_sub [rotated])
qed

theorem failure_no_collateral_witness:
  "snd (check (2 :: nat) 7 (record_failure 9 5 (limiter_new rate_limit_policy_default)))"
  using failure_no_collateral [of rate_limit_policy_default "limiter_new rate_limit_policy_default" "2 :: nat" "9 :: nat" 7 5]
  by (simp add: rl_inv_def limiter_new_def check_def)

text \<open>
  Over the cap the limiter does evict: with room for one address, a later failure of a second
  address that expires later removes the lockout of the first.
\<close>

definition tiny_policy :: rate_limit_policy where
  "tiny_policy = \<lparr>max_failures = 1, window = 60, lockout = 60, max_tracked = 1\<rparr>"

lemma tiny_first:
  "record_failure (7 :: nat) 10 (limiter_new tiny_policy) =
     \<lparr>rl_policy = tiny_policy, rl_map = [(7, \<lparr>failures = [10], locked_until = Some 70\<rparr>)], rl_last_sweep = Some 10\<rparr>"
  by (simp add: tiny_policy_def limiter_new_def record_failure_def prune_def sweep_def bump_def bucket_new_def
      is_dead_def assoc_put_def Let_def as_u32_def)

lemma tiny_second:
  "rl_map (record_failure (8 :: nat) 15 \<lparr>rl_policy = tiny_policy,
      rl_map = [(7, \<lparr>failures = [10], locked_until = Some 70\<rparr>)], rl_last_sweep = Some 10\<rparr>)
     = [(8, \<lparr>failures = [15], locked_until = Some 75\<rparr>)]"
  by (simp add: tiny_policy_def record_failure_def prune_def sweep_def bump_def bucket_new_def
      is_dead_def assoc_put_def as_u32_def evict_def expires_at_def assoc_del_def Let_def)

lemma eviction_unlocks:
  "\<not> snd (check (7 :: nat) 20 (record_failure 7 10 (limiter_new tiny_policy)))"
  "snd (check (7 :: nat) 20 (record_failure 8 15 (record_failure 7 10 (limiter_new tiny_policy))))"
  by (simp_all add: check_blocked blocked_def tiny_first tiny_second)

end
