(* ===== verification/Observability.thy ===== *)
theory Observability
  imports Prelude
begin

text \<open>
  The audit ring and the counters of \<open>crates/daemon/src/observability.rs\<close>. Counters are
  \<open>AtomicU64\<close>: \<open>fetch_add\<close> wraps. Source addresses are a type parameter; the clock is an
  argument of \<open>record\<close>. The \<open>tracing\<close> call of \<open>record\<close> is output only.
\<close>

section \<open>Data\<close>

definition DEFAULT_AUDIT_CAPACITY :: nat where "DEFAULT_AUDIT_CAPACITY = 4096"
definition MAX_METADATA_CHARS :: nat where "MAX_METADATA_CHARS = 128"

datatype auth_method = Development | ConnectionGrant | SshKey | Password
datatype shell_operation = OpOpen | OpAttach | OpDetach | OpTerminate
datatype upload_outcome = Cancelled | TimedOut | Failed

datatype reject_reason =
    RateLimited
  | ReForbidden
  | NotFound
  | ReInvalidToken
  | ReTokenReplayed
  | ReLimitExceeded
  | ReNotRunning
  | InvalidRequest
  | ReInternal

datatype 'ip audit_event =
    AuthenticationSucceeded rstring 'ip auth_method
  | AuthenticationFailed 'ip reject_reason
  | ShellOpened rstring bytes "rstring option" bool
  | ShellOperationRejected rstring "bytes option" shell_operation reject_reason
  | ShellAttached rstring bytes
  | ShellDetached rstring bytes
  | ShellTerminated rstring bytes u32
  | ShellExpired rstring bytes u32
  | UploadStarted rstring bytes rstring u64
  | UploadCompleted rstring bytes rstring u64 u64
  | UploadEnded rstring bytes upload_outcome
  | UploadRejected rstring "bytes option" reject_reason

record 'ip audit_record =
  timestamp_ms :: int
  ar_server_id :: bytes
  event :: "'ip audit_event"

record counters =
  authentication_succeeded :: u64
  authentication_failed :: u64
  authentication_rate_limited :: u64
  shells_opened :: u64
  shell_opens_reused :: u64
  shell_operations_rejected :: u64
  attachments_opened :: u64
  attachments_detached :: u64
  shells_terminated :: u64
  limit_hits :: u64
  token_replays_detected :: u64
  shells_expired :: u64
  uploads_active :: u64
  uploads_completed :: u64
  uploads_cancelled :: u64
  uploads_timed_out :: u64
  uploads_failed :: u64
  uploads_rejected :: u64
  upload_bytes_completed :: u64

definition counters_default :: counters where
  "counters_default =
     \<lparr>authentication_succeeded = 0, authentication_failed = 0, authentication_rate_limited = 0,
      shells_opened = 0, shell_opens_reused = 0, shell_operations_rejected = 0, attachments_opened = 0,
      attachments_detached = 0, shells_terminated = 0, limit_hits = 0, token_replays_detected = 0,
      shells_expired = 0, uploads_active = 0, uploads_completed = 0, uploads_cancelled = 0,
      uploads_timed_out = 0, uploads_failed = 0, uploads_rejected = 0, upload_bytes_completed = 0\<rparr>"

record 'ip observability =
  ob_server_id :: bytes
  ob_capacity :: nat
  ob_records :: "'ip audit_record list"
  ob_counters :: counters

section \<open>Operations\<close>

definition observability_new :: "bytes \<Rightarrow> nat \<Rightarrow> 'ip observability" where
  "observability_new server_id audit_capacity =
     \<lparr>ob_server_id = server_id, ob_capacity = min audit_capacity DEFAULT_AUDIT_CAPACITY,
      ob_records = [], ob_counters = counters_default\<rparr>"

text \<open>\<open>char::is_control\<close>: the general category Cc.\<close>

definition is_control :: "rchar \<Rightarrow> bool" where
  "is_control c \<longleftrightarrow> c < 0x20 \<or> (0x7F \<le> c \<and> c < 0xA0)"

definition safe_metadata :: "rstring \<Rightarrow> rstring" where
  "safe_metadata s = take MAX_METADATA_CHARS (filter (\<lambda>c. \<not> is_control c) s)"

fun sanitize_event :: "'ip audit_event \<Rightarrow> 'ip audit_event" where
  "sanitize_event (AuthenticationSucceeded u ip me) = AuthenticationSucceeded (safe_metadata u) ip me"
| "sanitize_event (ShellOpened u sid account reused) =
     ShellOpened (safe_metadata u) sid (map_option safe_metadata account) reused"
| "sanitize_event (ShellOperationRejected u sid op r) = ShellOperationRejected (safe_metadata u) sid op r"
| "sanitize_event (ShellAttached u sid) = ShellAttached (safe_metadata u) sid"
| "sanitize_event (ShellDetached u sid) = ShellDetached (safe_metadata u) sid"
| "sanitize_event (ShellTerminated u sid x) = ShellTerminated (safe_metadata u) sid x"
| "sanitize_event (ShellExpired u sid x) = ShellExpired (safe_metadata u) sid x"
| "sanitize_event (UploadStarted u sid name n) = UploadStarted (safe_metadata u) sid (safe_metadata name) n"
| "sanitize_event (UploadCompleted u sid name n d) =
     UploadCompleted (safe_metadata u) sid (safe_metadata name) n d"
| "sanitize_event (UploadEnded u sid out) = UploadEnded (safe_metadata u) sid out"
| "sanitize_event (UploadRejected u sid r) = UploadRejected (safe_metadata u) sid r"
| "sanitize_event (AuthenticationFailed ip r) = AuthenticationFailed ip r"

definition saturating_pred :: "u64 \<Rightarrow> u64" where
  "saturating_pred n = (if n = 0 then 0 else n - 1)"

fun increment :: "'ip audit_event \<Rightarrow> counters \<Rightarrow> counters" where
  "increment (AuthenticationSucceeded u ip me) c =
     c\<lparr>authentication_succeeded := authentication_succeeded c + 1\<rparr>"
| "increment (AuthenticationFailed ip r) c =
     (let c1 = c\<lparr>authentication_failed := authentication_failed c + 1\<rparr> in
      if r = RateLimited then c1\<lparr>authentication_rate_limited := authentication_rate_limited c1 + 1\<rparr> else c1)"
| "increment (ShellOpened u sid account reused) c =
     (if reused then c\<lparr>shell_opens_reused := shell_opens_reused c + 1\<rparr>
      else c\<lparr>shells_opened := shells_opened c + 1\<rparr>)"
| "increment (ShellOperationRejected u sid op r) c =
     (let c1 = c\<lparr>shell_operations_rejected := shell_operations_rejected c + 1\<rparr>;
          c2 = (if r = ReLimitExceeded then c1\<lparr>limit_hits := limit_hits c1 + 1\<rparr> else c1)
      in if r = ReTokenReplayed then c2\<lparr>token_replays_detected := token_replays_detected c2 + 1\<rparr> else c2)"
| "increment (ShellAttached u sid) c = c\<lparr>attachments_opened := attachments_opened c + 1\<rparr>"
| "increment (ShellDetached u sid) c = c\<lparr>attachments_detached := attachments_detached c + 1\<rparr>"
| "increment (ShellTerminated u sid x) c = c\<lparr>shells_terminated := shells_terminated c + 1\<rparr>"
| "increment (ShellExpired u sid x) c = c\<lparr>shells_expired := shells_expired c + 1\<rparr>"
| "increment (UploadStarted u sid name n) c = c\<lparr>uploads_active := uploads_active c + 1\<rparr>"
| "increment (UploadCompleted u sid name n d) c =
     c\<lparr>uploads_active := saturating_pred (uploads_active c),
       uploads_completed := uploads_completed c + 1,
       upload_bytes_completed := upload_bytes_completed c + n\<rparr>"
| "increment (UploadEnded u sid out) c =
     (let c1 = c\<lparr>uploads_active := saturating_pred (uploads_active c)\<rparr> in
      case out of
        Cancelled \<Rightarrow> c1\<lparr>uploads_cancelled := uploads_cancelled c1 + 1\<rparr>
      | TimedOut \<Rightarrow> c1\<lparr>uploads_timed_out := uploads_timed_out c1 + 1\<rparr>
      | Failed \<Rightarrow> c1\<lparr>uploads_failed := uploads_failed c1 + 1\<rparr>)"
| "increment (UploadRejected u sid r) c =
     (let c1 = c\<lparr>uploads_rejected := uploads_rejected c + 1\<rparr> in
      if r = ReLimitExceeded then c1\<lparr>limit_hits := limit_hits c1 + 1\<rparr> else c1)"

definition push_record :: "nat \<Rightarrow> 'ip audit_record list \<Rightarrow> 'ip audit_record \<Rightarrow> 'ip audit_record list" where
  "push_record capacity rs r =
     (if capacity = 0 then rs
      else (if length rs = capacity then tl rs else rs) @ [r])"

definition record_event :: "int \<Rightarrow> 'ip audit_event \<Rightarrow> 'ip observability \<Rightarrow> 'ip observability" where
  "record_event now ev ob =
     (let ev' = sanitize_event ev;
          ob1 = ob\<lparr>ob_counters := increment ev' (ob_counters ob)\<rparr>
      in ob1\<lparr>ob_records := push_record (ob_capacity ob1) (ob_records ob1)
               \<lparr>timestamp_ms = now, ar_server_id = ob_server_id ob1, event = ev'\<rparr>\<rparr>)"

definition audit_events :: "'ip observability \<Rightarrow> 'ip audit_record list" where
  "audit_events ob = ob_records ob"

type_synonym metrics_snapshot = counters

definition metrics :: "'ip observability \<Rightarrow> metrics_snapshot" where
  "metrics ob = ob_counters ob"

section \<open>The audit ring\<close>

text \<open>The strings an event carries.\<close>

fun event_texts :: "'ip audit_event \<Rightarrow> rstring list" where
  "event_texts (AuthenticationSucceeded u ip me) = [u]"
| "event_texts (AuthenticationFailed ip r) = []"
| "event_texts (ShellOpened u sid account reused) = u # (case account of None \<Rightarrow> [] | Some a \<Rightarrow> [a])"
| "event_texts (ShellOperationRejected u sid op r) = [u]"
| "event_texts (ShellAttached u sid) = [u]"
| "event_texts (ShellDetached u sid) = [u]"
| "event_texts (ShellTerminated u sid x) = [u]"
| "event_texts (ShellExpired u sid x) = [u]"
| "event_texts (UploadStarted u sid name n) = [u, name]"
| "event_texts (UploadCompleted u sid name n d) = [u, name]"
| "event_texts (UploadEnded u sid out) = [u]"
| "event_texts (UploadRejected u sid r) = [u]"

definition safe_text :: "rstring \<Rightarrow> bool" where
  "safe_text s \<longleftrightarrow> length s \<le> MAX_METADATA_CHARS \<and> list_all (\<lambda>c. \<not> is_control c) s"

lemma safe_metadata_safe: "safe_text (safe_metadata s)"
  by (auto simp: safe_text_def safe_metadata_def list_all_iff dest: in_set_takeD)

lemma sanitize_event_safe: "list_all safe_text (event_texts (sanitize_event ev))"
  by (cases ev) (auto simp: safe_metadata_safe split: option.splits)

lemma sanitize_increment: "increment (sanitize_event ev) = increment ev"
  by (cases ev) (auto simp: fun_eq_iff)

interpretation audit: evicting_log "\<lambda>r. r" "push_record cap" "\<lambda>r. length r \<le> cap \<and> cap > 0" for cap
proof unfold_locales
  fix rs :: "'a audit_record list" and r
  assume v: "length rs \<le> cap \<and> cap > 0"
  then show "length (push_record cap rs r) \<le> cap \<and> cap > 0" by (auto simp: push_record_def)
  show "\<exists>k \<le> length rs. push_record cap rs r = drop k (rs @ [r])"
  proof (cases "length rs = cap")
    case True
    then show ?thesis using v by (intro exI [of _ 1]) (cases rs; auto simp: push_record_def)
  next
    case False
    then show ?thesis using v by (intro exI [of _ 0]) (simp add: push_record_def)
  qed
qed

definition record_all :: "(int \<times> 'ip audit_event) list \<Rightarrow> 'ip observability \<Rightarrow> 'ip observability" where
  "record_all es ob = foldl (\<lambda>ob (now, ev). record_event now ev ob) ob es"

definition record_of :: "bytes \<Rightarrow> int \<times> 'ip audit_event \<Rightarrow> 'ip audit_record" where
  "record_of server_id p = \<lparr>timestamp_ms = fst p, ar_server_id = server_id, event = sanitize_event (snd p)\<rparr>"

lemma record_all_fields:
  "ob_server_id (record_all es ob) = ob_server_id ob" "ob_capacity (record_all es ob) = ob_capacity ob"
  "ob_records (record_all es ob) =
     foldl (push_record (ob_capacity ob)) (ob_records ob) (map (record_of (ob_server_id ob)) es)"
  "ob_counters (record_all es ob) = foldl (\<lambda>c p. increment (snd p) c) (ob_counters ob) es"
  unfolding record_all_def
  by (induction es arbitrary: ob)
    (auto simp: record_event_def Let_def record_of_def sanitize_increment split: prod.splits)

section \<open>Properties\<close>

text \<open>
  The audit trail is bounded, recent and clean: after any sequence of events the retained
  records are the sanitized ones of the most recent events in order, at most the configured
  capacity (itself capped at 4096), the last event is always the last record when the capacity
  is positive, and no retained text holds a control character or more than 128 characters.
\<close>

theorem audit_trail:
  "let ob = record_all es (observability_new server_id capacity) in
     length (audit_events ob) \<le> min capacity DEFAULT_AUDIT_CAPACITY
     \<and> suffix (audit_events ob) (map (record_of server_id) es)
     \<and> list_all (\<lambda>r. list_all safe_text (event_texts (event r))) (audit_events ob)
     \<and> (if capacity = 0 then audit_events ob = []
        else if es = [] then True
        else audit_events ob \<noteq> [] \<and> last (audit_events ob) = record_of server_id (last es))"
proof -
  let ?cap = "min capacity DEFAULT_AUDIT_CAPACITY" and ?rs = "map (record_of server_id) es"
  let ?ob = "record_all es (observability_new server_id capacity)"
  have r: "audit_events ?ob = foldl (push_record ?cap) [] ?rs"
    by (simp add: audit_events_def record_all_fields observability_new_def)
  have zero: "foldl (push_record 0) [] xs = []" for xs :: "'a audit_record list"
    by (induction xs) (auto simp: push_record_def)
  have clean: "list_all (\<lambda>r. list_all safe_text (event_texts (event r))) ?rs"
    by (simp add: list_all_iff record_of_def sanitize_event_safe [unfolded list_all_iff])
  show ?thesis
  proof (cases "capacity = 0")
    case True
    then show ?thesis using r zero by (simp add: Let_def)
  next
    case False
    then have v: "length ([] :: 'a audit_record list) \<le> ?cap \<and> ?cap > 0" by (simp add: DEFAULT_AUDIT_CAPACITY_def)
    have suf: "suffix (audit_events ?ob) ?rs" using audit.append_all_suffix [OF v, of ?rs] r by simp
    have len: "length (audit_events ?ob) \<le> ?cap" using audit.append_all_valid [OF v, of ?rs] r by simp
    have last: "es \<noteq> [] \<Longrightarrow> audit_events ?ob \<noteq> [] \<and> last (audit_events ?ob) = record_of server_id (last es)"
      using audit.append_all_last [OF v, of ?rs] r by (simp add: last_map)
    have "list_all (\<lambda>r. list_all safe_text (event_texts (event r))) (audit_events ?ob)"
      using clean set_mono_suffix [OF suf] unfolding list_all_iff by blast
    then show ?thesis using suf len last False by (simp add: Let_def)
  qed
qed

text \<open>The number of events a predicate holds of, as a wrapping 64-bit counter.\<close>

definition tally :: "('ip audit_event \<Rightarrow> bool) \<Rightarrow> (int \<times> 'ip audit_event) list \<Rightarrow> u64" where
  "tally P es = of_nat (length (filter (\<lambda>p. P (snd p)) es))"

lemma tally_simps [simp]:
  "tally P [] = 0" "tally P (es @ [e]) = tally P es + (if P (snd e) then 1 else 0)"
  by (simp_all add: tally_def)

text \<open>
  The counters count: after any sequence of events every lifecycle counter is the number of
  events of its kind modulo the 64-bit wrap, whatever the capacity of the audit ring and however
  many records it has dropped.
\<close>

theorem counters_tally:
  "let c = metrics (record_all es (observability_new server_id capacity)) in
     authentication_succeeded c = tally (\<lambda>e. case e of AuthenticationSucceeded _ _ _ \<Rightarrow> True | _ \<Rightarrow> False) es
     \<and> authentication_failed c = tally (\<lambda>e. case e of AuthenticationFailed _ _ \<Rightarrow> True | _ \<Rightarrow> False) es
     \<and> authentication_rate_limited c =
         tally (\<lambda>e. case e of AuthenticationFailed _ r \<Rightarrow> r = RateLimited | _ \<Rightarrow> False) es
     \<and> shells_opened c = tally (\<lambda>e. case e of ShellOpened _ _ _ reused \<Rightarrow> \<not> reused | _ \<Rightarrow> False) es
     \<and> shell_opens_reused c = tally (\<lambda>e. case e of ShellOpened _ _ _ reused \<Rightarrow> reused | _ \<Rightarrow> False) es
     \<and> token_replays_detected c =
         tally (\<lambda>e. case e of ShellOperationRejected _ _ _ r \<Rightarrow> r = ReTokenReplayed | _ \<Rightarrow> False) es
     \<and> limit_hits c = tally (\<lambda>e. case e of ShellOperationRejected _ _ _ r \<Rightarrow> r = ReLimitExceeded
                                        | UploadRejected _ _ r \<Rightarrow> r = ReLimitExceeded | _ \<Rightarrow> False) es
     \<and> uploads_completed c = tally (\<lambda>e. case e of UploadCompleted _ _ _ _ _ \<Rightarrow> True | _ \<Rightarrow> False) es"
proof (induction es rule: rev_induct)
  case Nil
  show ?case by (simp add: record_all_def metrics_def observability_new_def counters_default_def)
next
  case (snoc e es)
  have step: "metrics (record_all (es @ [e]) ob) = increment (snd e) (metrics (record_all es ob))" for ob :: "'a observability"
    by (simp add: metrics_def record_all_fields)
  from snoc show ?case
    unfolding step by (cases "snd e") (auto simp: Let_def split: upload_outcome.splits)
qed

end
