(* ===== verification/Upload_Store.thy ===== *)
theory Upload_Store
  imports Transfer_Wire
begin

text \<open>
  The temporary upload store of \<open>crates/upload-store/src/lib.rs\<close>. The operations issue system
  calls and react to the answers: an operation takes the answers as a function from calls to
  answers and returns the log of the calls it made with its result. \<open>fs_replay\<close> gives the
  documented POSIX effect of a log on the upload root, so that the theorems speak about what is
  on disk. SHA-256 is a record of the three streaming operations the code calls.
\<close>

section \<open>System calls\<close>

datatype errno = EEXIST | Errno nat

text \<open>
  The calls of the store, each with the upload directory it works in. An answer is success or
  an error; a failing write may have written some bytes first.
\<close>

datatype syscall =
    OpenRoot rstring
  | Mkdirat rstring nat
  | OpenDir rstring
  | FchmodDir rstring nat
  | Create rstring rstring nat
  | FchmodFile rstring nat
  | WriteFile rstring bytes
  | FlushFile rstring
  | SyncFile rstring
  | Linkat rstring rstring rstring
  | Unlinkat rstring rstring
  | DupDir rstring
  | SyncDir rstring
  | ChownFile rstring u32 u32
  | ChownDir rstring u32 u32
  | Rmdirat rstring

datatype answer = Success | Fail errno nat

type_synonym os = "syscall \<Rightarrow> answer"
type_synonym call_log = "(syscall \<times> answer) list"

section \<open>Data\<close>

definition DIRECTORY_MODE :: nat where "DIRECTORY_MODE = 7 * 64"
definition FILE_MODE :: nat where "FILE_MODE = 6 * 64"
definition PARTIAL_NAME :: rstring where "PARTIAL_NAME = lit ''.partial''"
definition RANDOM_ID_ATTEMPTS :: nat where "RANDOM_ID_ATTEMPTS = 8"
definition REAPER_SCAN_ENTRIES_MAX :: nat where "REAPER_SCAN_ENTRIES_MAX = 1024"
definition STORED_BASENAME_BYTES_MAX :: nat where "STORED_BASENAME_BYTES_MAX = 200"

datatype store_error =
    InvalidRoot
  | InvalidUpload upload_validation_error
  | IdCollision
  | InvalidChunkLimit
  | LengthMismatch u64 u64
  | ChecksumMismatch
  | StoreIo errno

record store_config =
  sc_root :: rstring
  sc_max_file_bytes :: u64

definition store_config_new :: "rstring \<Rightarrow> store_config" where
  "store_config_new root = \<lparr>sc_root = root, sc_max_file_bytes = UPLOAD_FILE_BYTES_DEFAULT\<rparr>"

text \<open>The streaming interface of the \<open>sha2\<close> crate.\<close>

record 'h sha2 =
  sha_new :: 'h
  sha_update :: "'h \<Rightarrow> bytes \<Rightarrow> 'h"
  sha_finalize :: "'h \<Rightarrow> bytes"

definition sha_digest :: "'h sha2 \<Rightarrow> bytes \<Rightarrow> bytes" where
  "sha_digest S d = sha_finalize S (sha_update S (sha_new S) d)"

record 'h upload_writer =
  uw_root_path :: rstring
  uw_directory_name :: rstring
  uw_stored_basename :: rstring
  uw_upload_id :: bytes
  uw_expected_bytes :: u64
  uw_expected_sha256 :: bytes
  uw_maximum_chunk_bytes :: u32
  uw_written :: u64
  uw_hasher :: 'h
  uw_committed :: bool

record committed_upload =
  cu_upload_id :: bytes
  cu_remote_path :: rstring
  cu_bytes_written :: u64
  cu_sha256 :: bytes

section \<open>Names\<close>

definition safe_name_char :: "rchar \<Rightarrow> bool" where
  "safe_name_char c \<longleftrightarrow> is_ascii_alphanumeric c \<or> c \<in> {46, 95, 45}"

fun sanitize_loop :: "rstring \<Rightarrow> bool \<Rightarrow> rstring \<Rightarrow> rstring" where
  "sanitize_loop result in_replacement [] = result"
| "sanitize_loop result in_replacement (c # cs) =
     (if len result \<ge> STORED_BASENAME_BYTES_MAX then result
      else if safe_name_char c then sanitize_loop (result @ [c]) False cs
      else if \<not> in_replacement then sanitize_loop (result @ [95]) True cs
      else sanitize_loop result in_replacement cs)"

definition sanitize_basename :: "rstring \<Rightarrow> rstring" where
  "sanitize_basename original =
     (let result = sanitize_loop [] False original in
      if result = [] \<or> result = lit ''.'' \<or> result = lit ''..'' \<or> result = PARTIAL_NAME
      then lit ''upload'' else result)"

definition hex_id :: "bytes \<Rightarrow> rstring" where
  "hex_id i = hex_string i"

definition is_hex_id :: "rstring \<Rightarrow> bool" where
  "is_hex_id name \<longleftrightarrow>
     len name = UPLOAD_ID_BYTES * 2
     \<and> list_all (\<lambda>b. is_ascii_digit (unat b) \<or> (0x61 \<le> b \<and> b \<le> 0x66)) (as_bytes name)"

text \<open>\<open>Path::is_absolute\<close> and \<open>PathBuf::join\<close> on Unix.\<close>

definition is_absolute :: "rstring \<Rightarrow> bool" where
  "is_absolute p \<longleftrightarrow> p \<noteq> [] \<and> hd p = 47"

definition path_join :: "rstring \<Rightarrow> rstring \<Rightarrow> rstring" where
  "path_join p q =
     (if is_absolute q then q
      else if p = [] \<or> last p = 47 then p @ q else p @ [47] @ q)"

section \<open>Operations\<close>

text \<open>Calls in order up to the first that fails (the \<open>?\<close> operator), and calls whose result is ignored.\<close>

fun calls :: "os \<Rightarrow> syscall list \<Rightarrow> call_log \<times> (store_error + unit)" where
  "calls os [] = ([], Ok ())"
| "calls os (c # cs) =
     (case os c of
        Success \<Rightarrow> apfst ((#) (c, Success)) (calls os cs)
      | Fail e k \<Rightarrow> ([(c, Fail e k)], Err (StoreIo e)))"

definition ignored :: "os \<Rightarrow> syscall list \<Rightarrow> call_log" where
  "ignored os cs = map (\<lambda>c. (c, os c)) cs"

definition store_open :: "os \<Rightarrow> store_config \<Rightarrow> call_log \<times> (store_error + store_config)" where
  "store_open os config =
     (if \<not> is_absolute (sc_root config) then ([], Err InvalidRoot)
      else (case os (OpenRoot (sc_root config)) of
              Fail e k \<Rightarrow> ([(OpenRoot (sc_root config), Fail e k)], Err InvalidRoot)
            | Success \<Rightarrow> ([(OpenRoot (sc_root config), Success)], Ok config)))"

definition open_new_writer ::
  "'h sha2 \<Rightarrow> store_config \<Rightarrow> os \<Rightarrow> begin_upload \<Rightarrow> bytes \<Rightarrow> rstring \<Rightarrow> u32
     \<Rightarrow> call_log \<times> (store_error + 'h upload_writer)" where
  "open_new_writer S config os b upload_id directory_name maximum_chunk_bytes =
     (case calls os [OpenDir directory_name, FchmodDir directory_name DIRECTORY_MODE,
                     Create directory_name PARTIAL_NAME FILE_MODE] of
        (l, Inl e) \<Rightarrow> (l, Err e)
      | (l, Inr _) \<Rightarrow>
          (let c = FchmodFile directory_name FILE_MODE in
           case os c of
             Fail e k \<Rightarrow>
               (l @ [(c, Fail e k)] @ ignored os [Unlinkat directory_name PARTIAL_NAME], Err (StoreIo e))
           | Success \<Rightarrow>
               (l @ [(c, Success)],
                Ok \<lparr>uw_root_path = sc_root config, uw_directory_name = directory_name,
                    uw_stored_basename = sanitize_basename (bu_original_name b),
                    uw_upload_id = upload_id, uw_expected_bytes = bu_total_bytes b,
                    uw_expected_sha256 = bu_sha256 b, uw_maximum_chunk_bytes = maximum_chunk_bytes,
                    uw_written = 0, uw_hasher = sha_new S, uw_committed = False\<rparr>)))"

definition begin_with_id ::
  "'h sha2 \<Rightarrow> store_config \<Rightarrow> os \<Rightarrow> begin_upload \<Rightarrow> bytes \<Rightarrow> u32
     \<Rightarrow> call_log \<times> (store_error + 'h upload_writer)" where
  "begin_with_id S config os b upload_id maximum_chunk_bytes =
     (case validate_begin b (sc_max_file_bytes config) of
        Inl e \<Rightarrow> ([], Err (InvalidUpload e))
      | Inr _ \<Rightarrow>
          (let directory_name = hex_id upload_id; c = Mkdirat directory_name DIRECTORY_MODE in
           case os c of
             Fail e k \<Rightarrow> ([(c, Fail e k)], Err (if e = EEXIST then IdCollision else StoreIo e))
           | Success \<Rightarrow>
               (case open_new_writer S config os b upload_id directory_name maximum_chunk_bytes of
                  (l, Inl e) \<Rightarrow> ((c, Success) # l @ ignored os [Rmdirat directory_name], Err e)
                | (l, Inr w) \<Rightarrow> ((c, Success) # l, Ok w))))"

text \<open>
  The bounded retry loop. Each attempt draws an identifier and has its own answers.
\<close>

fun begin_attempts ::
  "'h sha2 \<Rightarrow> store_config \<Rightarrow> begin_upload \<Rightarrow> u32 \<Rightarrow> (bytes \<times> os) list
     \<Rightarrow> call_log \<times> (store_error + 'h upload_writer)" where
  "begin_attempts S config b mx [] = ([], Err IdCollision)"
| "begin_attempts S config b mx ((i, os) # attempts) =
     (case begin_with_id S config os b i mx of
        (l, Inl IdCollision) \<Rightarrow> apfst ((@) l) (begin_attempts S config b mx attempts)
      | r \<Rightarrow> r)"

definition begin_with_chunk_limit ::
  "'h sha2 \<Rightarrow> store_config \<Rightarrow> (nat \<Rightarrow> bytes \<times> os) \<Rightarrow> begin_upload \<Rightarrow> u32
     \<Rightarrow> call_log \<times> (store_error + 'h upload_writer)" where
  "begin_with_chunk_limit S config env b maximum_chunk_bytes =
     (case validate_begin b (sc_max_file_bytes config) of
        Inl e \<Rightarrow> ([], Err (InvalidUpload e))
      | Inr _ \<Rightarrow>
          if maximum_chunk_bytes = 0 then ([], Err InvalidChunkLimit)
          else begin_attempts S config b (min maximum_chunk_bytes (of_nat UPLOAD_CHUNK_BYTES_MAX))
                 (map env [0..<RANDOM_ID_ATTEMPTS]))"

definition store_begin ::
  "'h sha2 \<Rightarrow> store_config \<Rightarrow> (nat \<Rightarrow> bytes \<times> os) \<Rightarrow> begin_upload
     \<Rightarrow> call_log \<times> (store_error + 'h upload_writer)" where
  "store_begin S config env b = begin_with_chunk_limit S config env b (of_nat UPLOAD_CHUNK_BYTES_MAX)"

definition write_chunk ::
  "'h sha2 \<Rightarrow> os \<Rightarrow> upload_chunk \<Rightarrow> 'h upload_writer
     \<Rightarrow> call_log \<times> 'h upload_writer \<times> (store_error + unit)" where
  "write_chunk S os c w =
     (case validate_chunk c (uw_upload_id w) (uw_written w) (uw_maximum_chunk_bytes w) (uw_expected_bytes w) of
        Inl e \<Rightarrow> ([], w, Err (InvalidUpload e))
      | Inr _ \<Rightarrow>
          (let call = WriteFile (uw_directory_name w) (uc_data c) in
           case os call of
             Fail e k \<Rightarrow> ([(call, Fail e k)], w, Err (StoreIo e))
           | Success \<Rightarrow>
               ([(call, Success)],
                w\<lparr>uw_hasher := sha_update S (uw_hasher w) (uc_data c),
                  uw_written := uw_written w + of_nat (length (uc_data c))\<rparr>,
                Ok ())))"

definition commit_calls :: "'h upload_writer \<Rightarrow> (u32 \<times> u32) option \<Rightarrow> syscall list" where
  "commit_calls w owner =
     (let d = uw_directory_name w in
      [FlushFile d, SyncFile d, Linkat d PARTIAL_NAME (uw_stored_basename w), Unlinkat d PARTIAL_NAME,
       DupDir d, SyncDir d]
      @ (case owner of None \<Rightarrow> [] | Some (uid, gid) \<Rightarrow> [ChownFile d uid gid, ChownDir d uid gid]))"

definition finish_inner ::
  "'h sha2 \<Rightarrow> os \<Rightarrow> bytes \<Rightarrow> (u32 \<times> u32) option \<Rightarrow> 'h upload_writer
     \<Rightarrow> call_log \<times> 'h upload_writer \<times> (store_error + committed_upload)" where
  "finish_inner S os upload_id owner w =
     (if upload_id \<noteq> uw_upload_id w then ([], w, Err (InvalidUpload InvalidUploadId))
      else if uw_written w \<noteq> uw_expected_bytes w then
        ([], w, Err (LengthMismatch (uw_written w) (uw_expected_bytes w)))
      else
        (let actual = sha_finalize S (uw_hasher w) in
         if actual \<noteq> uw_expected_sha256 w then ([], w, Err ChecksumMismatch)
         else (case calls os (commit_calls w owner) of
                 (l, Inl e) \<Rightarrow> (l, w, Err e)
               | (l, Inr _) \<Rightarrow>
                   (l, w\<lparr>uw_committed := True\<rparr>,
                    Ok \<lparr>cu_upload_id = uw_upload_id w,
                        cu_remote_path = path_join (path_join (uw_root_path w) (uw_directory_name w))
                                           (uw_stored_basename w),
                        cu_bytes_written = uw_written w, cu_sha256 = actual\<rparr>))))"

definition writer_drop :: "os \<Rightarrow> 'h upload_writer \<Rightarrow> call_log" where
  "writer_drop os w =
     (if uw_committed w then []
      else ignored os [Unlinkat (uw_directory_name w) PARTIAL_NAME,
                       Unlinkat (uw_directory_name w) (uw_stored_basename w),
                       Rmdirat (uw_directory_name w)])"

text \<open>
  \<open>finish\<close> and \<open>finish_as\<close> consume the writer: it is dropped when they return, whatever the
  result. The cleanup calls of the drop have answers of their own. \<open>abort\<close> only drops.
\<close>

definition finish_as ::
  "'h sha2 \<Rightarrow> os \<Rightarrow> os \<Rightarrow> bytes \<Rightarrow> u32 \<times> u32 \<Rightarrow> 'h upload_writer
     \<Rightarrow> call_log \<times> (store_error + committed_upload)" where
  "finish_as S os drop_os upload_id owner w =
     (case finish_inner S os upload_id (Some owner) w of
        (l, w', r) \<Rightarrow> (l @ writer_drop drop_os w', r))"

definition finish ::
  "'h sha2 \<Rightarrow> os \<Rightarrow> os \<Rightarrow> bytes \<Rightarrow> 'h upload_writer \<Rightarrow> call_log \<times> (store_error + committed_upload)" where
  "finish S os drop_os upload_id w =
     (case finish_inner S os upload_id None w of
        (l, w', r) \<Rightarrow> (l @ writer_drop drop_os w', r))"

definition abort :: "os \<Rightarrow> 'h upload_writer \<Rightarrow> call_log" where
  "abort drop_os w = writer_drop drop_os w"

text \<open>
  One directory entry as the reaper sees it: the name when it is UTF-8, the answers of
  \<open>symlink_metadata\<close> (whether it is a directory, and its modification time) and of
  \<open>remove_dir_all\<close>; an \<open>Err\<close> is the I/O error the reaper returns. Times are in nanoseconds.
\<close>

record dir_entry =
  de_name :: "rstring option"
  de_metadata :: "errno + bool \<times> (errno + int)"
  de_remove :: "errno + unit"

text \<open>The loop returns the removed names and the result.\<close>

fun reap_entries :: "int \<Rightarrow> nat \<Rightarrow> (errno + dir_entry) list \<Rightarrow> rstring list \<times> (errno + nat)" where
  "reap_entries now retention [] = ([], Ok 0)"
| "reap_entries now retention (Inl e # es) = ([], Err e)"
| "reap_entries now retention (Inr d # es) =
     (case de_name d of
        None \<Rightarrow> reap_entries now retention es
      | Some name \<Rightarrow>
          if \<not> is_hex_id name then reap_entries now retention es
          else
            (case de_metadata d of
               Inl e \<Rightarrow> ([], Err e)
             | Inr (is_dir, modified) \<Rightarrow>
                 if \<not> is_dir then reap_entries now retention es
                 else
                   (case modified of
                      Inl e \<Rightarrow> ([], Err e)
                    | Inr m \<Rightarrow>
                        if nat (now - m) < retention then reap_entries now retention es
                        else
                          (case de_remove d of
                             Inl e \<Rightarrow> ([], Err e)
                           | Inr _ \<Rightarrow>
                               (case reap_entries now retention es of
                                  (removed, r) \<Rightarrow> (name # removed, map_sum id Suc r))))))"

definition reap_expired :: "int \<Rightarrow> nat \<Rightarrow> errno + (errno + dir_entry) list \<Rightarrow> rstring list \<times> (errno + nat)" where
  "reap_expired now retention listing =
     (case listing of
        Inl e \<Rightarrow> ([], Err e)
      | Inr es \<Rightarrow> reap_entries now retention (take REAPER_SCAN_ENTRIES_MAX es))"

section \<open>What is on disk\<close>

text \<open>
  The upload root as a map from directory names to private directories. The store creates one
  file per directory, so a directory has the names that link to that file, its content, mode
  and owner.
\<close>

record upload_dir =
  ud_mode :: nat
  ud_owner :: "(u32 \<times> u32) option"
  ud_names :: "rstring list"
  ud_content :: bytes
  ud_file_mode :: nat
  ud_file_owner :: "(u32 \<times> u32) option"

type_synonym upload_root = "(rstring \<times> upload_dir) list"

definition empty_dir :: "nat \<Rightarrow> upload_dir" where
  "empty_dir mode = \<lparr>ud_mode = mode, ud_owner = None, ud_names = [], ud_content = [], ud_file_mode = 0,
                     ud_file_owner = None\<rparr>"

text \<open>
  Whether a call can succeed, and what it does when it does. \<open>mkdir\<close> and \<open>open\<close> with
  \<open>O_CREAT | O_EXCL\<close> succeed on a fresh name only, \<open>link\<close> never replaces, \<open>unlink\<close> needs the
  name, \<open>rmdir\<close> an empty directory.
\<close>

fun possible :: "upload_root \<Rightarrow> syscall \<Rightarrow> bool" where
  "possible fs (OpenRoot p) = True"
| "possible fs (Mkdirat d m) = (map_of fs d = None)"
| "possible fs (Create d n m) = (case map_of fs d of None \<Rightarrow> False | Some u \<Rightarrow> ud_names u = [])"
| "possible fs (Linkat d a b) =
     (case map_of fs d of None \<Rightarrow> False | Some u \<Rightarrow> a \<in> set (ud_names u) \<and> b \<notin> set (ud_names u))"
| "possible fs (Unlinkat d n) = (case map_of fs d of None \<Rightarrow> False | Some u \<Rightarrow> n \<in> set (ud_names u))"
| "possible fs (Rmdirat d) = (case map_of fs d of None \<Rightarrow> False | Some u \<Rightarrow> ud_names u = [])"
| "possible fs (OpenDir d) = (map_of fs d \<noteq> None)"
| "possible fs (FchmodDir d m) = (map_of fs d \<noteq> None)"
| "possible fs (FchmodFile d m) = (map_of fs d \<noteq> None)"
| "possible fs (WriteFile d data) = (map_of fs d \<noteq> None)"
| "possible fs (FlushFile d) = True"
| "possible fs (SyncFile d) = True"
| "possible fs (DupDir d) = True"
| "possible fs (SyncDir d) = True"
| "possible fs (ChownFile d u g) = (map_of fs d \<noteq> None)"
| "possible fs (ChownDir d u g) = (map_of fs d \<noteq> None)"

fun effect :: "upload_root \<Rightarrow> syscall \<Rightarrow> upload_root" where
  "effect fs (Mkdirat d m) = fs @ [(d, empty_dir m)]"
| "effect fs (Create d n m) =
     assoc_upd d (\<lambda>u. u\<lparr>ud_names := [n], ud_content := [], ud_file_mode := m, ud_file_owner := None\<rparr>) fs"
| "effect fs (Linkat d a b) = assoc_upd d (\<lambda>u. u\<lparr>ud_names := ud_names u @ [b]\<rparr>) fs"
| "effect fs (Unlinkat d n) = assoc_upd d (\<lambda>u. u\<lparr>ud_names := filter (\<lambda>x. x \<noteq> n) (ud_names u)\<rparr>) fs"
| "effect fs (Rmdirat d) = assoc_del d fs"
| "effect fs (FchmodDir d m) = assoc_upd d (\<lambda>u. u\<lparr>ud_mode := m\<rparr>) fs"
| "effect fs (FchmodFile d m) = assoc_upd d (\<lambda>u. u\<lparr>ud_file_mode := m\<rparr>) fs"
| "effect fs (WriteFile d data) = assoc_upd d (\<lambda>u. u\<lparr>ud_content := ud_content u @ data\<rparr>) fs"
| "effect fs (ChownFile d uid gid) = assoc_upd d (\<lambda>u. u\<lparr>ud_file_owner := Some (uid, gid)\<rparr>) fs"
| "effect fs (ChownDir d uid gid) = assoc_upd d (\<lambda>u. u\<lparr>ud_owner := Some (uid, gid)\<rparr>) fs"
| "effect fs c = fs"

text \<open>
  A log is consistent with a root when every success in it was possible, and every failed
  \<open>unlink\<close> or \<open>rmdir\<close> was impossible: removal by the owner of a private directory fails for no
  other reason. Every other call may fail at any time. A failed write leaves a prefix behind.
\<close>

fun removal :: "syscall \<Rightarrow> bool" where
  "removal (Unlinkat d n) = True"
| "removal (Rmdirat d) = True"
| "removal c = False"

fun fs_answer :: "upload_root \<Rightarrow> syscall \<times> answer \<Rightarrow> upload_root option" where
  "fs_answer fs (c, Success) = (if possible fs c then Some (effect fs c) else None)"
| "fs_answer fs (WriteFile d data, Fail e k) = Some (effect fs (WriteFile d (take k data)))"
| "fs_answer fs (c, Fail e k) = (if removal c \<and> possible fs c then None else Some fs)"

fun fs_replay :: "upload_root \<Rightarrow> call_log \<Rightarrow> upload_root option" where
  "fs_replay fs [] = Some fs"
| "fs_replay fs (x # l) = (case fs_answer fs x of None \<Rightarrow> None | Some fs' \<Rightarrow> fs_replay fs' l)"

lemma fs_replay_append:
  "fs_replay fs (l @ m) = (case fs_replay fs l of None \<Rightarrow> None | Some fs' \<Rightarrow> fs_replay fs' m)"
  by (induction l arbitrary: fs) (auto split: option.splits)

text \<open>
  A whole upload: begin, the chunks until one is refused, then the commit; a refused chunk
  aborts. Answers and identifiers come from the environment.
\<close>

fun write_all :: "'h sha2 \<Rightarrow> (os \<times> upload_chunk) list \<Rightarrow> 'h upload_writer
     \<Rightarrow> call_log \<times> 'h upload_writer \<times> (store_error + unit)" where
  "write_all S [] w = ([], w, Ok ())"
| "write_all S ((os, c) # cs) w =
     (case write_chunk S os c w of
        (l, w', Inl e) \<Rightarrow> (l, w', Err e)
      | (l, w', Inr _) \<Rightarrow> apfst ((@) l) (write_all S cs w'))"

definition upload_rest ::
  "'h sha2 \<Rightarrow> (os \<times> upload_chunk) list \<Rightarrow> os \<Rightarrow> os \<Rightarrow> bytes \<Rightarrow> (u32 \<times> u32) option \<Rightarrow> 'h upload_writer
     \<Rightarrow> call_log \<times> (store_error + committed_upload)" where
  "upload_rest S cs os drop_os upload_id owner w =
     (case write_all S cs w of
        (l, w', Inl e) \<Rightarrow> (l @ abort drop_os w', Err e)
      | (l, w', Inr _) \<Rightarrow>
          apfst ((@) l)
            (case owner of None \<Rightarrow> finish S os drop_os upload_id w'
                         | Some o' \<Rightarrow> finish_as S os drop_os upload_id o' w'))"

definition upload_session ::
  "'h sha2 \<Rightarrow> store_config \<Rightarrow> (nat \<Rightarrow> bytes \<times> os) \<Rightarrow> begin_upload \<Rightarrow> u32 \<Rightarrow> (os \<times> upload_chunk) list
     \<Rightarrow> os \<Rightarrow> os \<Rightarrow> bytes \<Rightarrow> (u32 \<times> u32) option \<Rightarrow> call_log \<times> (store_error + committed_upload)" where
  "upload_session S config env b mx cs os drop_os upload_id owner =
     (case begin_with_chunk_limit S config env b mx of
        (l, Inl e) \<Rightarrow> (l, Err e)
      | (l, Inr w) \<Rightarrow> apfst ((@) l) (upload_rest S cs os drop_os upload_id owner w))"

section \<open>Safe names\<close>

lemma sanitize_loop_safe:
  "list_all safe_name_char acc \<Longrightarrow> list_all safe_name_char (sanitize_loop acc r s)"
proof (induction acc r s rule: sanitize_loop.induct)
  case (2 acc r c cs)
  have "safe_name_char 95" by (simp add: safe_name_char_def)
  with 2 show ?case by simp
qed simp

lemma safe_name_ascii: "safe_name_char c \<Longrightarrow> c < 0x80"
  by (auto simp: safe_name_char_def dest: ascii_alphanumeric_less)

lemma sanitize_loop_len:
  "len acc \<le> STORED_BASENAME_BYTES_MAX \<Longrightarrow> len (sanitize_loop acc r s) \<le> STORED_BASENAME_BYTES_MAX"
proof (induction acc r s rule: sanitize_loop.induct)
  case (2 acc r c cs)
  then show ?case using safe_name_ascii [of c] by (auto simp: len_utf8_def)
qed simp

lemma sanitize_basename_cases:
  "sanitize_basename s = lit ''upload''
   \<or> (sanitize_basename s = sanitize_loop [] False s \<and> sanitize_loop [] False s \<noteq> []
      \<and> sanitize_loop [] False s \<notin> {lit ''.'', lit ''..'', PARTIAL_NAME})"
  by (simp add: sanitize_basename_def Let_def)

lemma sanitize_basename_not_partial: "sanitize_basename s \<noteq> PARTIAL_NAME"
proof -
  have "lit ''upload'' \<noteq> PARTIAL_NAME" by (simp add: lit_def PARTIAL_NAME_def)
  then show ?thesis using sanitize_basename_cases [of s] by (elim disjE conjE) (simp_all only: insert_iff de_Morgan_disj not_False_eq_True simp_thms)
qed

text \<open>Text that is already safe and short is kept as it is.\<close>

lemma sanitize_loop_safe_id:
  "list_all safe_name_char s \<Longrightarrow> len (acc @ s) \<le> STORED_BASENAME_BYTES_MAX \<Longrightarrow> sanitize_loop acc r s = acc @ s"
proof (induction s arbitrary: acc r)
  case (Cons c s)
  then have "len_utf8 c \<ge> 1" using len_utf8_bounds by simp
  with Cons.prems(2) have lt: "len acc < STORED_BASENAME_BYTES_MAX" by simp
  have "sanitize_loop (acc @ [c]) False s = (acc @ [c]) @ s"
    using Cons.prems by (intro Cons.IH) simp_all
  then show ?case using Cons.prems(1) lt by simp
qed simp

section \<open>One upload on disk\<close>

lemma assoc_snoc [simp]:
  assumes "map_of fs d = None"
  shows "assoc_upd d f (fs @ [(d, u)]) = fs @ [(d, f u)]" "assoc_del d (fs @ [(d, u)]) = fs"
    "([d \<mapsto> u] ++ map_of fs) d = Some u"
proof -
  have k: "d \<notin> set (keys fs)" using assms by (simp add: map_of_None_keys)
  then have "map (\<lambda>(k', v). (k', if k' = d then f v else v)) fs = fs"
    by (intro map_idI) (auto simp: keys_def image_iff split: prod.splits)
  then show "assoc_upd d f (fs @ [(d, u)]) = fs @ [(d, f u)]" by (simp add: assoc_upd_def)
  have "filter (\<lambda>(k', v). k' \<noteq> d) fs = fs" using k by (force simp: keys_def filter_id_conv)
  then show "assoc_del d (fs @ [(d, u)]) = fs" by (simp add: assoc_del_def)
  show "([d \<mapsto> u] ++ map_of fs) d = Some u" using assms by (simp add: map_add_def)
qed

text \<open>The directory of a running upload that has received \<open>data\<close>.\<close>

definition partial_dir :: "bytes \<Rightarrow> upload_dir" where
  "partial_dir data = \<lparr>ud_mode = DIRECTORY_MODE, ud_owner = None, ud_names = [PARTIAL_NAME], ud_content = data,
                       ud_file_mode = FILE_MODE, ud_file_owner = None\<rparr>"

definition committed_dir :: "rstring \<Rightarrow> (u32 \<times> u32) option \<Rightarrow> bytes \<Rightarrow> upload_dir" where
  "committed_dir name owner data =
     \<lparr>ud_mode = DIRECTORY_MODE, ud_owner = owner, ud_names = [name], ud_content = data,
      ud_file_mode = FILE_MODE, ud_file_owner = owner\<rparr>"

definition fresh_writer :: "'h sha2 \<Rightarrow> store_config \<Rightarrow> begin_upload \<Rightarrow> bytes \<Rightarrow> u32 \<Rightarrow> 'h upload_writer" where
  "fresh_writer S config b i mx =
     \<lparr>uw_root_path = sc_root config, uw_directory_name = hex_id i,
      uw_stored_basename = sanitize_basename (bu_original_name b), uw_upload_id = i,
      uw_expected_bytes = bu_total_bytes b, uw_expected_sha256 = bu_sha256 b,
      uw_maximum_chunk_bytes = mx, uw_written = 0, uw_hasher = sha_new S, uw_committed = False\<rparr>"

lemma fs_answer_removal:
  "removal c \<Longrightarrow> fs_answer fs (c, a) = (if possible fs c = (a = Success) then Some (if a = Success then effect fs c else fs) else None)"
  by (cases a; cases c) auto

lemma fs_answer_Fail: "\<not> removal c \<Longrightarrow> (\<And>d data. c \<noteq> WriteFile d data) \<Longrightarrow> fs_answer fs (c, Fail e k) = Some fs"
  by (cases c) auto

lemma open_new_writer_replay:
  assumes "map_of fs d = None" and "d = hex_id i"
    and "open_new_writer S config os b i d mx = (l, r)"
    and "fs_replay (fs @ [(d, empty_dir DIRECTORY_MODE)]) l = Some fs'"
  shows "case r of Inl e \<Rightarrow> e \<noteq> IdCollision \<and> (\<exists>u. fs' = fs @ [(d, u)] \<and> ud_names u = [])
                 | Inr w \<Rightarrow> w = fresh_writer S config b i mx \<and> fs' = fs @ [(d, partial_dir [])]"
  using assms
  by (auto simp: open_new_writer_def Let_def ignored_def empty_dir_def partial_dir_def fresh_writer_def
      fs_answer_removal split: answer.splits if_splits)

lemma begin_with_id_replay:
  assumes "begin_with_id S config os b i mx = (l, r)" and "fs_replay fs l = Some fs'"
  shows "case r of Inl e \<Rightarrow> fs' = fs
                 | Inr w \<Rightarrow> validate_begin b (sc_max_file_bytes config) = Ok () \<and> map_of fs (hex_id i) = None
                            \<and> w = fresh_writer S config b i mx \<and> fs' = fs @ [(hex_id i, partial_dir [])]"
proof (cases "validate_begin b (sc_max_file_bytes config)")
  case (Inl e)
  then show ?thesis using assms by (auto simp: begin_with_id_def)
next
  case (Inr x)
  let ?c = "Mkdirat (hex_id i) DIRECTORY_MODE"
  show ?thesis
  proof (cases "os ?c")
    case (Fail e k)
    then show ?thesis using assms Inr by (auto simp: begin_with_id_def Let_def)
  next
    case Success
    obtain l' r' where o: "open_new_writer S config os b i (hex_id i) mx = (l', r')" by fastforce
    have n: "map_of fs (hex_id i) = None"
      using assms Inr Success o by (auto simp: begin_with_id_def Let_def split: sum.splits if_splits)
    obtain fs1 where f: "fs_replay (fs @ [(hex_id i, empty_dir DIRECTORY_MODE)]) l' = Some fs1"
      using assms Inr Success o n
      by (auto simp: begin_with_id_def Let_def fs_replay_append split: sum.splits option.splits)
    have case_r: "case r' of Inl e \<Rightarrow> e \<noteq> IdCollision \<and> (\<exists>u. fs1 = fs @ [(hex_id i, u)] \<and> ud_names u = [])
         | Inr w \<Rightarrow> w = fresh_writer S config b i mx \<and> fs1 = fs @ [(hex_id i, partial_dir [])]"
      by (rule open_new_writer_replay [OF n refl o f])
    show ?thesis
    proof (cases r')
      case (Inl e)
      then have r: "r = Err e" and l: "l = (?c, Success) # l' @ ignored os [Rmdirat (hex_id i)]"
        using assms(1) Inr Success o by (auto simp: begin_with_id_def Let_def)
      obtain u where u: "fs1 = fs @ [(hex_id i, u)]" "ud_names u = []" using case_r Inl by auto
      have "fs_replay fs1 (ignored os [Rmdirat (hex_id i)]) = Some fs'"
        using assms(2) l n f by (simp add: fs_replay_append)
      then have "fs' = fs" using u n by (auto simp: ignored_def fs_answer_removal split: if_splits)
      then show ?thesis using r by simp
    next
      case (Inr w)
      then have "r = Ok w" "l = (?c, Success) # l'"
        using assms(1) \<open>validate_begin b (sc_max_file_bytes config) = Inr x\<close> Success o
        by (auto simp: begin_with_id_def Let_def)
      then show ?thesis
        using case_r Inr assms(2) n f \<open>validate_begin b (sc_max_file_bytes config) = Inr x\<close> by auto
    qed
  qed
qed

lemma begin_attempts_replay:
  assumes "begin_attempts S config b mx atts = (l, r)" and "fs_replay fs l = Some fs'"
  shows "case r of Inl e \<Rightarrow> fs' = fs
                 | Inr w \<Rightarrow> validate_begin b (sc_max_file_bytes config) = Ok ()
                            \<and> (\<exists>i. map_of fs (hex_id i) = None \<and> w = fresh_writer S config b i mx
                                    \<and> fs' = fs @ [(hex_id i, partial_dir [])])"
  using assms
proof (induction atts arbitrary: l fs)
  case Nil
  then show ?case by auto
next
  case (Cons a atts)
  obtain i os where a: "a = (i, os)" by fastforce
  obtain l1 r1 where b: "begin_with_id S config os b i mx = (l1, r1)" by fastforce
  show ?case
  proof (cases "r1 = Err IdCollision")
    case True
    obtain l2 where l2: "begin_attempts S config b mx atts = (l2, r)" "l = l1 @ l2"
      using Cons.prems(1) a b True by (cases "begin_attempts S config b mx atts") auto
    obtain fs1 where f1: "fs_replay fs l1 = Some fs1" "fs_replay fs1 l2 = Some fs'"
      using Cons.prems(2) l2(2) by (auto simp: fs_replay_append split: option.splits)
    have "fs1 = fs" using begin_with_id_replay [OF b f1(1)] True by simp
    then show ?thesis using Cons.IH [OF l2(1)] f1(2) by simp
  next
    case False
    then have "(l, r) = (l1, r1)" using Cons.prems(1) a b by (auto split: sum.splits store_error.splits)
    then show ?thesis using begin_with_id_replay [OF b, of fs fs'] Cons.prems(2) by (fastforce split: sum.splits)
  qed
qed

text \<open>The documented law of the streaming hash: updates concatenate.\<close>

definition streaming :: "'h sha2 \<Rightarrow> bool" where
  "streaming S \<longleftrightarrow>
     (\<forall>h. sha_update S h [] = h) \<and> (\<forall>h a b. sha_update S (sha_update S h a) b = sha_update S h (a @ b))"

definition writer_at ::
  "'h sha2 \<Rightarrow> store_config \<Rightarrow> begin_upload \<Rightarrow> bytes \<Rightarrow> u32 \<Rightarrow> bytes \<Rightarrow> 'h upload_writer" where
  "writer_at S config b i mx data =
     (fresh_writer S config b i mx)\<lparr>uw_hasher := sha_update S (sha_new S) data, uw_written := of_nat (length data)\<rparr>"

lemma writer_at_fields [simp]:
  "uw_directory_name (writer_at S config b i mx data) = hex_id i"
  "uw_stored_basename (writer_at S config b i mx data) = sanitize_basename (bu_original_name b)"
  "uw_upload_id (writer_at S config b i mx data) = i"
  "uw_root_path (writer_at S config b i mx data) = sc_root config"
  "uw_expected_bytes (writer_at S config b i mx data) = bu_total_bytes b"
  "uw_expected_sha256 (writer_at S config b i mx data) = bu_sha256 b"
  "uw_maximum_chunk_bytes (writer_at S config b i mx data) = mx"
  "uw_written (writer_at S config b i mx data) = of_nat (length data)"
  "uw_hasher (writer_at S config b i mx data) = sha_update S (sha_new S) data"
  "uw_committed (writer_at S config b i mx data) = False"
  by (simp_all add: writer_at_def fresh_writer_def)

lemma unat_length: "length data \<le> unat (t :: u64) \<Longrightarrow> unat (of_nat (length data) :: u64) = length data"
  using unsigned_less [of t, where 'a = nat] by (simp add: unat_of_nat)

lemma write_chunk_replay:
  assumes "streaming S" and "length data \<le> unat (bu_total_bytes b)" and "map_of fs (hex_id i) = None"
    and "write_chunk S os c (writer_at S config b i mx data) = (l, w', r)"
    and "fs_replay (fs @ [(hex_id i, partial_dir data)]) l = Some fs'"
  shows "case r of
           Inl e \<Rightarrow> w' = writer_at S config b i mx data \<and> (\<exists>data'. fs' = fs @ [(hex_id i, partial_dir data')])
         | Inr _ \<Rightarrow> w' = writer_at S config b i mx (data @ uc_data c)
                    \<and> length (data @ uc_data c) \<le> unat (bu_total_bytes b)
                    \<and> fs' = fs @ [(hex_id i, partial_dir (data @ uc_data c))]"
proof (cases "validate_chunk c i (of_nat (length data)) mx (bu_total_bytes b)")
  case (Inl e)
  then show ?thesis using assms(4,5) by (auto simp: write_chunk_def)
next
  case (Inr x)
  let ?c = "WriteFile (hex_id i) (uc_data c)"
  show ?thesis
  proof (cases "os ?c")
    case (Fail e k)
    then show ?thesis using assms(3-5) Inr by (auto simp: write_chunk_def Let_def partial_dir_def)
  next
    case Success
    have "length data + length (uc_data c) \<le> unat (bu_total_bytes b)"
      using Inr unat_length [OF assms(2)] by (simp add: validate_chunk_ok old.unit.exhaust)
    moreover have "w' = writer_at S config b i mx (data @ uc_data c)" "r = Ok ()"
      using assms(1,4) Inr Success
      by (auto simp: write_chunk_def Let_def writer_at_def fresh_writer_def streaming_def)
    moreover have "fs' = fs @ [(hex_id i, partial_dir (data @ uc_data c))]"
      using assms(3-5) Inr Success by (auto simp: write_chunk_def Let_def partial_dir_def)
    ultimately show ?thesis by simp
  qed
qed

definition sent_data :: "(os \<times> upload_chunk) list \<Rightarrow> bytes" where
  "sent_data cs = concat (map (\<lambda>p. uc_data (snd p)) cs)"

lemma sent_data_simps [simp]: "sent_data [] = []" "sent_data ((os, c) # cs) = uc_data c @ sent_data cs"
  by (simp_all add: sent_data_def)

lemma write_all_replay:
  assumes "streaming S" and "length data \<le> unat (bu_total_bytes b)" and "map_of fs (hex_id i) = None"
    and "write_all S cs (writer_at S config b i mx data) = (l, w', r)"
    and "fs_replay (fs @ [(hex_id i, partial_dir data)]) l = Some fs'"
  shows "case r of
           Inl e \<Rightarrow> \<exists>done data'. w' = writer_at S config b i mx done \<and> fs' = fs @ [(hex_id i, partial_dir data')]
         | Inr _ \<Rightarrow> (let all = data @ sent_data cs in
                     w' = writer_at S config b i mx all \<and> length all \<le> unat (bu_total_bytes b)
                     \<and> fs' = fs @ [(hex_id i, partial_dir all)])"
  using assms(2,4,5)
proof (induction cs arbitrary: data l)
  case Nil
  then show ?case by auto
next
  case (Cons x cs)
  obtain os c where x: "x = (os, c)" by fastforce
  obtain l1 w1 r1 where s: "write_chunk S os c (writer_at S config b i mx data) = (l1, w1, r1)"
    by (metis prod_cases3)
  show ?case
  proof (cases r1)
    case (Inl e)
    then have "l = l1" "w' = w1" "r = Err e" using Cons.prems(2) x s by auto
    then show ?thesis using write_chunk_replay [OF assms(1) Cons.prems(1) assms(3) s] Cons.prems(3) Inl by auto
  next
    case (Inr u)
    obtain l2 where w: "write_all S cs w1 = (l2, w', r)" "l = l1 @ l2"
      using Cons.prems(2) x s Inr by (cases "write_all S cs w1") auto
    obtain fs1 where f: "fs_replay (fs @ [(hex_id i, partial_dir data)]) l1 = Some fs1" "fs_replay fs1 l2 = Some fs'"
      using Cons.prems(3) w(2) by (auto simp: fs_replay_append split: option.splits)
    have one: "w1 = writer_at S config b i mx (data @ uc_data c)"
      "length (data @ uc_data c) \<le> unat (bu_total_bytes b)"
      "fs1 = fs @ [(hex_id i, partial_dir (data @ uc_data c))]"
      using write_chunk_replay [OF assms(1) Cons.prems(1) assms(3) s f(1)] Inr by auto
    show ?thesis
      using Cons.IH [OF one(2), of l2] w(1) f(2) one(1,3) x by (simp add: Let_def split: sum.splits)
  qed
qed

lemma commit_replay:
  assumes "map_of fs (hex_id i) = None" and "w = writer_at S config b i mx data"
    and "calls os (commit_calls w owner) = (l, r)"
    and "fs_replay (fs @ [(hex_id i, partial_dir data)]) l = Some fs'"
  shows "case r of
           Inl e \<Rightarrow> \<exists>u. fs' = fs @ [(hex_id i, u)] \<and> set (ud_names u) \<subseteq> {PARTIAL_NAME, uw_stored_basename w}
         | Inr _ \<Rightarrow> fs' = fs @ [(hex_id i, committed_dir (uw_stored_basename w) owner data)]"
proof -
  note sb = sanitize_basename_not_partial [of "bu_original_name b"]
  show ?thesis
    using assms sb
    by (cases owner)
      (auto simp: commit_calls_def partial_dir_def committed_dir_def Let_def split: answer.splits if_splits)
qed

lemma unlink_replay:
  assumes "map_of fs d = None" and "fs_answer (fs @ [(d, u)]) (Unlinkat d n, a) = Some fs'"
  shows "fs' = fs @ [(d, u\<lparr>ud_names := filter (\<lambda>x. x \<noteq> n) (ud_names u)\<rparr>)]"
proof -
  have "filter (\<lambda>x. x \<noteq> n) (ud_names u) = ud_names u" if "n \<notin> set (ud_names u)"
    using that by (auto simp: filter_id_conv)
  then show ?thesis using assms by (auto simp: fs_answer_removal split: if_splits)
qed

lemma drop_replay:
  assumes "map_of fs d = None" and "uw_directory_name w = d" and "\<not> uw_committed w"
    and "set (ud_names u) \<subseteq> {PARTIAL_NAME, uw_stored_basename w}"
    and "fs_replay (fs @ [(d, u)]) (writer_drop os w) = Some fs'"
  shows "fs' = fs"
proof -
  let ?u1 = "u\<lparr>ud_names := filter (\<lambda>x. x \<noteq> PARTIAL_NAME) (ud_names u)\<rparr>"
  let ?u2 = "?u1\<lparr>ud_names := filter (\<lambda>x. x \<noteq> uw_stored_basename w) (ud_names ?u1)\<rparr>"
  have "ud_names ?u2 = []" using assms(4) by (auto simp: filter_empty_conv)
  moreover obtain fs1 fs2 where
    1: "fs_answer (fs @ [(d, u)]) (Unlinkat d PARTIAL_NAME, os (Unlinkat d PARTIAL_NAME)) = Some fs1"
    and 2: "fs_answer fs1 (Unlinkat d (uw_stored_basename w), os (Unlinkat d (uw_stored_basename w))) = Some fs2"
    and 3: "fs_answer fs2 (Rmdirat d, os (Rmdirat d)) = Some fs'"
    using assms(2,3,5) by (auto simp: writer_drop_def ignored_def split: option.splits)
  moreover have "fs1 = fs @ [(d, ?u1)]" by (rule unlink_replay [OF assms(1) 1])
  moreover have "fs2 = fs @ [(d, ?u2)]"
    by (rule unlink_replay [OF assms(1) 2 [unfolded \<open>fs1 = fs @ [(d, ?u1)]\<close>]])
  ultimately show ?thesis using assms(1) by (auto simp: fs_answer_removal split: if_splits)
qed

lemma finish_any:
  "(case owner of None \<Rightarrow> finish S os drop_os upload_id w | Some o' \<Rightarrow> finish_as S os drop_os upload_id o' w) =
   (case finish_inner S os upload_id owner w of (l, w', r) \<Rightarrow> (l @ writer_drop drop_os w', r))"
  by (cases owner) (simp_all add: finish_def finish_as_def)

text \<open>What a successful commit returns and what it guarantees.\<close>

definition commit_exact ::
  "'h sha2 \<Rightarrow> store_config \<Rightarrow> begin_upload \<Rightarrow> bytes \<Rightarrow> bytes \<Rightarrow> committed_upload \<Rightarrow> bool" where
  "commit_exact S config b i data c \<longleftrightarrow>
     length data = unat (bu_total_bytes b) \<and> sha_digest S data = bu_sha256 b
     \<and> c = \<lparr>cu_upload_id = i,
            cu_remote_path = path_join (path_join (sc_root config) (hex_id i)) (sanitize_basename (bu_original_name b)),
            cu_bytes_written = bu_total_bytes b, cu_sha256 = bu_sha256 b\<rparr>"

lemma finish_replay:
  assumes "length data \<le> unat (bu_total_bytes b)" and "map_of fs (hex_id i) = None"
    and w: "w = writer_at S config b i mx data"
    and f: "(case finish_inner S os upload_id owner w of (l, w', r) \<Rightarrow> (l @ writer_drop drop_os w', r)) = (l, r)"
    and "fs_replay (fs @ [(hex_id i, partial_dir data)]) l = Some fs'"
  shows "case r of
           Inl e \<Rightarrow> fs' = fs
         | Inr c \<Rightarrow> upload_id = i \<and> commit_exact S config b i data c
                    \<and> fs' = fs @ [(hex_id i, committed_dir (sanitize_basename (bu_original_name b)) owner data)]"
proof -
  have part: "set (ud_names (partial_dir data)) \<subseteq> {PARTIAL_NAME, uw_stored_basename w}"
    by (simp add: partial_dir_def)
  obtain l1 w1 r1 where fi: "finish_inner S os upload_id owner w = (l1, w1, r1)" by (metis prod_cases3)
  then have lr: "l = l1 @ writer_drop drop_os w1" "r = r1" using f by auto
  show ?thesis
  proof (cases "upload_id = i \<and> (of_nat (length data) :: u64) = bu_total_bytes b
                \<and> sha_finalize S (sha_update S (sha_new S) data) = bu_sha256 b")
    case False
    then have "l1 = []" "w1 = w" "\<exists>e. r1 = Err e"
      using fi w by (auto simp: finish_inner_def Let_def split: if_splits)
    then show ?thesis using drop_replay [OF assms(2) _ _ part] lr assms(5) w by auto
  next
    case True
    obtain l2 r2 where c: "calls os (commit_calls w owner) = (l2, r2)" by fastforce
    have n: "length data = unat (bu_total_bytes b)" using True unat_length [OF assms(1)] by metis
    obtain fs1 where f1: "fs_replay (fs @ [(hex_id i, partial_dir data)]) l1 = Some fs1"
      "fs_replay fs1 (writer_drop drop_os w1) = Some fs'"
      using assms(5) lr by (auto simp: fs_replay_append split: option.splits)
    show ?thesis
    proof (cases r2)
      case (Inl e)
      then have s: "l1 = l2" "w1 = w" "r1 = Err e" using fi w True c by (auto simp: finish_inner_def Let_def)
      obtain u where u: "fs1 = fs @ [(hex_id i, u)]" "set (ud_names u) \<subseteq> {PARTIAL_NAME, uw_stored_basename w}"
        using commit_replay [OF assms(2) w c] f1(1) s Inl by auto
      show ?thesis using drop_replay [OF assms(2) _ _ u(2)] u(1) f1(2) s lr w by simp
    next
      case (Inr x)
      then have s: "l1 = l2" "w1 = w\<lparr>uw_committed := True\<rparr>" "commit_exact S config b i data (projr r1)" "\<exists>c. r1 = Inr c"
        using fi w True c n by (auto simp: finish_inner_def Let_def commit_exact_def sha_digest_def)
      have "fs1 = fs @ [(hex_id i, committed_dir (uw_stored_basename w) owner data)]"
        using commit_replay [OF assms(2) w c] f1(1) s Inr by auto
      then show ?thesis using s f1(2) lr True w by (cases r1) (auto simp: writer_drop_def)
    qed
  qed
qed

lemma begin_replay:
  assumes "begin_with_chunk_limit S config env b mx = (l, r)" and "fs_replay fs l = Some fs'"
  shows "case r of
           Inl e \<Rightarrow> fs' = fs
         | Inr w \<Rightarrow> \<exists>i. map_of fs (hex_id i) = None
                        \<and> w = fresh_writer S config b i (min mx (of_nat UPLOAD_CHUNK_BYTES_MAX))
                        \<and> fs' = fs @ [(hex_id i, partial_dir [])]"
  using assms begin_attempts_replay [of S config b "min mx (of_nat UPLOAD_CHUNK_BYTES_MAX)"
      "map env [0..<RANDOM_ID_ATTEMPTS]" l r fs fs']
  by (cases "validate_begin b (sc_max_file_bytes config)")
    (auto simp: begin_with_chunk_limit_def split: sum.splits if_splits)

lemma upload_rest_replay:
  assumes "streaming S" and "map_of fs (hex_id i) = None"
    and run: "upload_rest S cs os drop_os upload_id owner (writer_at S config b i mx []) = (l, r)"
    and fs': "fs_replay (fs @ [(hex_id i, partial_dir [])]) l = Some fs'"
  shows "case r of
           Inl e \<Rightarrow> fs' = fs
         | Inr c \<Rightarrow> upload_id = i \<and> commit_exact S config b i (sent_data cs) c
                    \<and> fs' = fs @ [(hex_id i, committed_dir (sanitize_basename (bu_original_name b)) owner (sent_data cs))]"
proof -
  obtain l2 w2 r2 where wa: "write_all S cs (writer_at S config b i mx []) = (l2, w2, r2)" by (metis prod_cases3)
  obtain fs2 where f2: "fs_replay (fs @ [(hex_id i, partial_dir [])]) l2 = Some fs2"
    using run fs' wa by (auto simp: upload_rest_def fs_replay_append apfst_def map_prod_def
        split: sum.splits prod.splits option.splits)
  note written = write_all_replay [OF assms(1) _ assms(2) wa f2]
  show ?thesis
  proof (cases r2)
    case (Inl e)
    then have run: "l = l2 @ writer_drop drop_os w2" "r = Err e"
      using run wa by (simp_all add: upload_rest_def abort_def)
    obtain dn data' where s: "w2 = writer_at S config b i mx dn" "fs2 = fs @ [(hex_id i, partial_dir data')]"
      using written Inl by auto
    have "fs_replay fs2 (writer_drop drop_os w2) = Some fs'"
      using fs' run f2 by (simp add: fs_replay_append)
    then have "fs' = fs"
      using drop_replay [OF assms(2), of w2 "partial_dir data'"] s by (simp add: partial_dir_def)
    then show ?thesis using run by simp
  next
    case (Inr x)
    obtain l3 r3 where f: "(case finish_inner S os upload_id owner w2 of (l, w', r) \<Rightarrow> (l @ writer_drop drop_os w', r)) = (l3, r3)"
      by fastforce
    then have run: "l = l2 @ l3" "r = r3" using run wa Inr by (simp_all add: upload_rest_def finish_any)
    have s: "w2 = writer_at S config b i mx (sent_data cs)" "length (sent_data cs) \<le> unat (bu_total_bytes b)"
      "fs2 = fs @ [(hex_id i, partial_dir (sent_data cs))]"
      using written Inr by (auto simp: Let_def)
    have "fs_replay fs2 l3 = Some fs'" using fs' run f2 by (simp add: fs_replay_append)
    then show ?thesis using finish_replay [OF s(2) assms(2) s(1) f] s(3) run by simp
  qed
qed

section \<open>The reaper\<close>

text \<open>The name of an entry the reaper is meant to remove.\<close>

definition reap_target :: "int \<Rightarrow> nat \<Rightarrow> errno + dir_entry \<Rightarrow> rstring option" where
  "reap_target now retention x =
     (case x of
        Inl _ \<Rightarrow> None
      | Inr d \<Rightarrow>
          (case (de_name d, de_metadata d) of
             (Some name, Inr (True, Inr m)) \<Rightarrow>
               if is_hex_id name \<and> int retention \<le> max 0 (now - m) then Some name else None
           | _ \<Rightarrow> None))"

lemma reap_step:
  "case reap_target now retention (Inr d) of
     None \<Rightarrow> reap_entries now retention (Inr d # es) = reap_entries now retention es
             \<or> (\<exists>e. reap_entries now retention (Inr d # es) = ([], Err e))
   | Some name \<Rightarrow> (\<exists>e. reap_entries now retention (Inr d # es) = ([], Err e))
             \<or> reap_entries now retention (Inr d # es) =
                 (case reap_entries now retention es of (removed, r) \<Rightarrow> (name # removed, map_sum id Suc r))"
proof -
  have age: "int retention \<le> max 0 (now - m) \<longleftrightarrow> \<not> nat (now - m) < retention" for m by linarith
  show ?thesis
  proof (cases "de_name d")
    case (Some name)
    then show ?thesis
      by (cases "de_metadata d") (auto simp: reap_target_def age split: sum.split bool.split)
  qed (simp add: reap_target_def)
qed

lemma reap_entries_targets:
  "case reap_entries now retention es of
     (removed, r) \<Rightarrow>
       prefix removed (List.map_filter (reap_target now retention) es)
       \<and> (case r of Inl _ \<Rightarrow> True
          | Inr n \<Rightarrow> n = length removed \<and> removed = List.map_filter (reap_target now retention) es)"
proof (induction es)
  case (Cons x es)
  show ?case
  proof (cases x)
    case (Inl e)
    then show ?thesis by simp
  next
    case (Inr d)
    obtain removed r where es: "reap_entries now retention es = (removed, r)" by fastforce
    show ?thesis
      using reap_step [of now retention d es] Cons es Inr
      by (cases "reap_target now retention (Inr d)"; cases r) (auto simp: map_filter_simps)
  qed
qed (simp add: map_filter_simps)

section \<open>Stored names\<close>

lemma sanitize_basename_safe:
  "let n = sanitize_basename s in
     n \<noteq> [] \<and> len n \<le> STORED_BASENAME_BYTES_MAX \<and> list_all safe_name_char n \<and> 47 \<notin> set n
     \<and> n \<notin> {lit ''.'', lit ''..'', PARTIAL_NAME} \<and> sanitize_basename n = n"
proof -
  let ?n = "sanitize_basename s" and ?r = "sanitize_loop [] False s"
  have up: "list_all safe_name_char (lit ''upload'')" "len (lit ''upload'') \<le> STORED_BASENAME_BYTES_MAX"
    "lit ''upload'' \<noteq> []" "lit ''upload'' \<notin> {lit ''.'', lit ''..'', PARTIAL_NAME}"
    by (simp_all add: lit_def safe_name_char_def is_ascii_alphanumeric_def STORED_BASENAME_BYTES_MAX_def
        PARTIAL_NAME_def len_utf8_def)
  have loop: "list_all safe_name_char ?r" "len ?r \<le> STORED_BASENAME_BYTES_MAX"
    using sanitize_loop_safe [of "[]" False s] sanitize_loop_len [of "[]" False s] by simp_all
  consider "?n = lit ''upload''" | "?n = ?r" "?r \<noteq> []" "?r \<notin> {lit ''.'', lit ''..'', PARTIAL_NAME}"
    using sanitize_basename_cases [of s] by blast
  then have safe: "list_all safe_name_char ?n" and short: "len ?n \<le> STORED_BASENAME_BYTES_MAX"
    and name: "?n \<noteq> []" "?n \<notin> {lit ''.'', lit ''..'', PARTIAL_NAME}"
    using up loop by (cases; simp only: simp_thms)+
  have "47 \<notin> set ?n"
    using safe by (auto simp: list_all_iff safe_name_char_def is_ascii_alphanumeric_def is_ascii_digit_def)
  moreover have "sanitize_loop [] False ?n = ?n" using sanitize_loop_safe_id [of ?n "[]"] safe short by simp
  then have "sanitize_basename ?n = ?n" using name unfolding sanitize_basename_def [of ?n] Let_def by simp
  ultimately show ?thesis using safe short name by (simp only: Let_def simp_thms)
qed

section \<open>Properties\<close>

text \<open>
  An upload is all or nothing on disk. Whatever the random identifiers and the answers of
  the operating system, a whole upload (begin, chunks, commit with or without a new owner, or
  abort) that fails at any point leaves the upload root exactly as it was; one that succeeds adds
  exactly one new private directory, named after the identifier, mode 0700, with exactly one
  file: the sanitized name, mode 0600, the requested owner, the concatenation of the chunks, of
  the declared length and with the declared SHA-256 digest; and the returned record says so.
\<close>

theorem upload_atomic:
  assumes "streaming S"
    and "fs_replay fs (fst (upload_session S config env b mx cs os drop_os upload_id owner)) = Some fs'"
  shows "case snd (upload_session S config env b mx cs os drop_os upload_id owner) of
           Inl e \<Rightarrow> fs' = fs
         | Inr c \<Rightarrow> map_of fs (hex_id upload_id) = None
                    \<and> commit_exact S config b upload_id (sent_data cs) c
                    \<and> fs' = fs @ [(hex_id upload_id,
                                   committed_dir (sanitize_basename (bu_original_name b)) owner (sent_data cs))]"
proof -
  obtain l r where b: "begin_with_chunk_limit S config env b mx = (l, r)" by fastforce
  obtain fs1 where f1: "fs_replay fs l = Some fs1"
    using assms(2) b by (auto simp: upload_session_def fs_replay_append split: sum.splits option.splits)
  note begun = begin_replay [OF b f1]
  show ?thesis
  proof (cases r)
    case (Inl e)
    then show ?thesis using assms(2) b f1 begun by (simp add: upload_session_def)
  next
    case (Inr w)
    obtain i mx' where i: "map_of fs (hex_id i) = None" "fs1 = fs @ [(hex_id i, partial_dir [])]"
      and w: "w = writer_at S config b i mx' []"
      using begun Inr assms(1) by (auto simp: writer_at_def fresh_writer_def streaming_def)
    obtain l2 r2 where rest: "upload_rest S cs os drop_os upload_id owner w = (l2, r2)" by fastforce
    have run: "upload_session S config env b mx cs os drop_os upload_id owner = (l @ l2, r2)"
      using b Inr rest by (simp add: upload_session_def)
    have "fs_replay (fs @ [(hex_id i, partial_dir [])]) l2 = Some fs'"
      using assms(2) run f1 i(2) by (simp add: fs_replay_append)
    from upload_rest_replay [OF assms(1) i(1) rest [unfolded w] this] show ?thesis
      using run i(1) by (auto split: sum.splits)
  qed
qed

text \<open>A concrete upload of two bytes in one chunk, with a stand-in digest that is the data itself padded.\<close>

definition demo_sha :: "bytes sha2" where
  "demo_sha = \<lparr>sha_new = [], sha_update = (@), sha_finalize = (\<lambda>d. take 32 (d @ replicate 32 0))\<rparr>"

definition demo_begin :: begin_upload where
  "demo_begin = \<lparr>bu_original_name = lit ''a/b.txt'', bu_total_bytes = 2, bu_sha256 = [7, 8] @ replicate 30 0\<rparr>"

definition demo_chunk :: upload_chunk where
  "demo_chunk = \<lparr>uc_upload_id = replicate 16 1, uc_offset = 0, uc_data = [7, 8]\<rparr>"

definition demo_upload :: "call_log \<times> (store_error + committed_upload)" where
  "demo_upload =
     upload_session demo_sha (store_config_new (lit ''/up'')) (\<lambda>n. (replicate 16 1, \<lambda>c. Success)) demo_begin 8
       [(\<lambda>c. Success, demo_chunk)] (\<lambda>c. Success) (\<lambda>c. Success) (replicate 16 1) (Some (1000, 1000))"

lemma demo_valid:
  "validate_begin demo_begin (sc_max_file_bytes (store_config_new r)) = Ok ()"
  "validate_chunk demo_chunk (replicate 16 1) 0 8 2 = Ok ()"
  by (simp_all add: validate_begin_ok validate_chunk_ok demo_begin_def demo_chunk_def store_config_new_def
      UPLOAD_FILE_BYTES_DEFAULT_def UPLOAD_FILE_BYTES_HARD_MAX_def UPLOAD_CHUNK_BYTES_MAX_def lit_def len_utf8_def)

lemma demo_upload_ok:
  "is_ok (snd demo_upload)" "fs_replay [] (fst demo_upload) \<noteq> None"
proof -
  have r: "[0..<RANDOM_ID_ATTEMPTS] = 0 # [1..<RANDOM_ID_ATTEMPTS]"
    by (simp add: RANDOM_ID_ATTEMPTS_def upt_conv_Cons)
  have m: "min (8 :: u32) (of_nat UPLOAD_CHUNK_BYTES_MAX) = 8" by (simp add: UPLOAD_CHUNK_BYTES_MAX_def)
  have d: "take 32 ([7, 8 :: u8] @ replicate 32 0) = [7, 8] @ replicate 30 0" by simp
  have f: "bu_total_bytes demo_begin = 2" "bu_sha256 demo_begin = [7, 8] @ replicate 30 0"
    "uc_data demo_chunk = [7, 8]" by (simp_all add: demo_begin_def demo_chunk_def)
  note demo = demo_upload_def upload_session_def begin_with_chunk_limit_def demo_valid r m list.map begin_attempts.simps
    begin_with_id_def open_new_writer_def Let_def upload_rest_def write_chunk_def finish_as_def finish_inner_def
    demo_sha_def writer_drop_def commit_calls_def f d
  show "is_ok (snd demo_upload)" by (simp add: demo)
  show "fs_replay [] (fst demo_upload) \<noteq> None"
    using sanitize_basename_not_partial [of "bu_original_name demo_begin"] by (simp add: demo empty_dir_def)
qed

theorem upload_atomic_witness:
  "fs_replay [] (fst demo_upload) =
     Some [(hex_id (replicate 16 1), committed_dir (lit ''a_b.txt'') (Some (1000, 1000)) [7, 8])]"
proof -
  obtain fs' where fs': "fs_replay [] (fst demo_upload) = Some fs'" using demo_upload_ok(2) by auto
  have "streaming demo_sha" by (simp add: streaming_def demo_sha_def)
  from upload_atomic [OF this fs' [unfolded demo_upload_def]]
  have "fs' = [(hex_id (replicate 16 1),
          committed_dir (sanitize_basename (bu_original_name demo_begin)) (Some (1000, 1000)) [7, 8])]"
    using demo_upload_ok(1) [unfolded demo_upload_def]
    by (auto simp: is_ok_def demo_chunk_def split: sum.splits)
  moreover have "sanitize_basename (bu_original_name demo_begin) = lit ''a_b.txt''" by code_simp
  ultimately show ?thesis using fs' by simp
qed

text \<open>
  Untrusted file names become one safe path component: at least one and at most 200 bytes,
  only ASCII letters, digits, dot, underscore and dash (so no separator and no control
  character), never the directory entries \<open>.\<close> and \<open>..\<close> nor the internal name of a partial
  upload; and sanitizing is idempotent, so a stored name is its own sanitized form.
\<close>

theorem stored_name_safe:
  "let n = sanitize_basename s in
     n \<noteq> [] \<and> len n \<le> STORED_BASENAME_BYTES_MAX \<and> list_all safe_name_char n \<and> 47 \<notin> set n
     \<and> n \<notin> {lit ''.'', lit ''..'', PARTIAL_NAME} \<and> sanitize_basename n = n"
  by (rule sanitize_basename_safe)

text \<open>
  (C40) The reaper removes exactly the expired uploads: it looks at no more than 1024 entries,
  removes only directories with an upload identifier as name and an age of at least the
  retention (an entry from the future counts as age zero), in listing order; when it reports a
  count, that is the number of removed directories and every expired upload it looked at is gone;
  when it stops at an I/O error it has removed a prefix of them.
\<close>

theorem reap_expired_exact:
  "case reap_expired now retention listing of
     (removed, r) \<Rightarrow>
       (case listing of
          Inl e \<Rightarrow> removed = [] \<and> r = Err e
        | Inr es \<Rightarrow>
            (let targets = List.map_filter (reap_target now retention) (take REAPER_SCAN_ENTRIES_MAX es) in
             prefix removed targets \<and> length removed \<le> 1024
             \<and> (case r of Inl _ \<Rightarrow> True | Inr n \<Rightarrow> n = length removed \<and> removed = targets)))"
proof (cases listing)
  case (Inr es)
  let ?es = "take REAPER_SCAN_ENTRIES_MAX es"
  have "length (List.map_filter f xs) \<le> length xs" for f :: "errno + dir_entry \<Rightarrow> rstring option" and xs
    by (simp add: List.map_filter_def)
  from this [of "reap_target now retention" ?es]
  have "length (List.map_filter (reap_target now retention) ?es) \<le> 1024"
    by (simp add: REAPER_SCAN_ENTRIES_MAX_def)
  then show ?thesis
    using reap_entries_targets [of now retention ?es] Inr
    by (auto simp: reap_expired_def Let_def split: prod.splits dest: prefix_length_le)
qed (simp add: reap_expired_def)

end
