(* ===== verification/Permits.thy ===== *)
theory Permits
  imports Prelude
begin

text \<open>
  Bounded concurrency: the upload permits of \<open>crates/daemon/src/uploads.rs\<close> and the forward
  permits of \<open>crates/daemon/src/forward.rs\<close>. Both count the permits of each user and in total,
  refuse at two limits and release when a permit is dropped. The locale \<open>permit_pool\<close> states
  that contract once; both services interpret it.
\<close>

section \<open>Counting maps\<close>

definition held_in :: "('u \<times> nat) list \<Rightarrow> 'u \<Rightarrow> nat" where
  "held_in m u = (case map_of m u of None \<Rightarrow> 0 | Some n \<Rightarrow> n)"

definition counts_sum :: "('u \<times> nat) list \<Rightarrow> nat" where
  "counts_sum m = sum_list (map snd m)"

section \<open>Upload permits\<close>

definition MAX_UPLOADS_PER_CONNECTION :: nat where "MAX_UPLOADS_PER_CONNECTION = 2"
definition MAX_UPLOADS_PER_USER :: nat where "MAX_UPLOADS_PER_USER = 4"
definition MAX_UPLOADS_GLOBAL :: nat where "MAX_UPLOADS_GLOBAL = 16"

record 'u upload_counts =
  uc_global :: nat
  uc_by_user :: "('u \<times> nat) list"

definition upload_counts_default :: "'u upload_counts" where
  "upload_counts_default = \<lparr>uc_global = 0, uc_by_user = []\<rparr>"

definition upload_try_acquire :: "'u \<Rightarrow> 'u upload_counts \<Rightarrow> 'u upload_counts option" where
  "upload_try_acquire user counts =
     (let user_count = held_in (uc_by_user counts) user in
      if uc_global counts \<ge> MAX_UPLOADS_GLOBAL \<or> user_count \<ge> MAX_UPLOADS_PER_USER then None
      else Some \<lparr>uc_global = uc_global counts + 1,
                 uc_by_user = assoc_put user (user_count + 1) (uc_by_user counts)\<rparr>)"

text \<open>The drop of a permit; the subtractions saturate.\<close>

definition upload_permit_drop :: "'u \<Rightarrow> 'u upload_counts \<Rightarrow> 'u upload_counts" where
  "upload_permit_drop user counts =
     \<lparr>uc_global = uc_global counts - 1,
      uc_by_user =
        (case map_of (uc_by_user counts) user of
           None \<Rightarrow> uc_by_user counts
         | Some n \<Rightarrow> if n - 1 = 0 then assoc_del user (uc_by_user counts)
                     else assoc_put user (n - 1) (uc_by_user counts))\<rparr>"

section \<open>Forward permits\<close>

definition MAX_PER_CONNECTION :: nat where "MAX_PER_CONNECTION = 16"
definition FORWARDS_GLOBAL :: nat where "FORWARDS_GLOBAL = 128"
definition FORWARDS_PER_USER :: nat where "FORWARDS_PER_USER = 32"

record forward_service =
  fo_users :: "rstring list"
  fo_active :: "(rstring \<times> nat) list"

definition forward_service_new :: "rstring list \<Rightarrow> forward_service option" where
  "forward_service_new users =
     (if length users > 256 \<or> list_ex (\<lambda>u. u = [] \<or> len u > 128) users then None
      else Some \<lparr>fo_users = users, fo_active = []\<rparr>)"

definition forward_enabled :: "forward_service \<Rightarrow> bool" where
  "forward_enabled s \<longleftrightarrow> fo_users s \<noteq> []"

definition forward_permits :: "forward_service \<Rightarrow> rstring \<Rightarrow> bool" where
  "forward_permits s user \<longleftrightarrow> user \<in> set (fo_users s)"

definition forward_acquire :: "rstring \<Rightarrow> forward_service \<Rightarrow> forward_service option" where
  "forward_acquire user s =
     (if counts_sum (fo_active s) \<ge> FORWARDS_GLOBAL \<or> held_in (fo_active s) user \<ge> FORWARDS_PER_USER then None
      else Some (s\<lparr>fo_active := assoc_put user (held_in (fo_active s) user + 1) (fo_active s)\<rparr>))"

text \<open>The drop of a permit; \<open>None\<close> is the panic of a subtraction below zero.\<close>

definition forward_permit_drop :: "rstring \<Rightarrow> forward_service \<Rightarrow> forward_service option" where
  "forward_permit_drop user s =
     (case map_of (fo_active s) user of
        None \<Rightarrow> Some s
      | Some n \<Rightarrow>
          if n = 0 then None
          else Some (s\<lparr>fo_active := (if n - 1 = 0 then assoc_del user (fo_active s)
                                     else assoc_put user (n - 1) (fo_active s))\<rparr>))"

section \<open>Runs\<close>

text \<open>
  A run of acquisitions and drops. The owners are the permits alive; a permit is dropped once,
  so a drop without a permit of that user does not happen. \<open>None\<close> is a panic.
\<close>

datatype 'u permit_event = Acquire 'u | DropPermit 'u

fun permit_run ::
  "('u \<Rightarrow> 's \<Rightarrow> 's option) \<Rightarrow> ('u \<Rightarrow> 's \<Rightarrow> 's option) \<Rightarrow> 's \<times> 'u list \<Rightarrow> 'u permit_event list \<Rightarrow> ('s \<times> 'u list) option"
where
  "permit_run acquire release st [] = Some st"
| "permit_run acquire release (s, owners) (Acquire u # es) =
     (case acquire u s of
        None \<Rightarrow> permit_run acquire release (s, owners) es
      | Some s' \<Rightarrow> permit_run acquire release (s', u # owners) es)"
| "permit_run acquire release (s, owners) (DropPermit u # es) =
     (if u \<in> set owners
      then (case release u s of None \<Rightarrow> None | Some s' \<Rightarrow> permit_run acquire release (s', remove1 u owners) es)
      else permit_run acquire release (s, owners) es)"

section \<open>The contract\<close>

locale permit_pool =
  fixes acquire :: "'u \<Rightarrow> 's \<Rightarrow> 's option"
    and release :: "'u \<Rightarrow> 's \<Rightarrow> 's option"
    and held :: "'s \<Rightarrow> 'u \<Rightarrow> nat"
    and all_held :: "'s \<Rightarrow> nat"
    and per_user :: nat
    and overall :: nat
    and wf :: "'s \<Rightarrow> bool"
  assumes acquire_iff: "wf s \<Longrightarrow> acquire u s \<noteq> None \<longleftrightarrow> held s u < per_user \<and> all_held s < overall"
    and acquire_effect: "wf s \<Longrightarrow> acquire u s = Some s' \<Longrightarrow>
      wf s' \<and> held s' = (held s)(u := held s u + 1) \<and> all_held s' = all_held s + 1"
    and release_effect: "wf s \<Longrightarrow> 0 < held s u \<Longrightarrow>
      \<exists>s'. release u s = Some s' \<and> wf s' \<and> held s' = (held s)(u := held s u - 1) \<and> all_held s' = all_held s - 1"
begin

definition accounted :: "'s \<times> 'u list \<Rightarrow> bool" where
  "accounted st \<longleftrightarrow>
     wf (fst st) \<and> held (fst st) = count_list (snd st) \<and> all_held (fst st) = length (snd st)
     \<and> length (snd st) \<le> overall \<and> (\<forall>u. count_list (snd st) u \<le> per_user)"

lemma count_remove1: "u \<in> set xs \<Longrightarrow> count_list (remove1 u xs) = (count_list xs)(u := count_list xs u - 1)"
  by (rule ext) (induction xs; force simp: count_list_0_iff)

lemma acquire_accounted:
  assumes "accounted (s, owners)" and "acquire u s = Some s'"
  shows "accounted (s', u # owners)"
proof -
  have wf: "wf s" using assms(1) by (simp add: accounted_def)
  have "held s u < per_user" "all_held s < overall" using acquire_iff [OF wf, of u] assms(2) by auto
  then show ?thesis using acquire_effect [OF wf assms(2)] assms(1) by (auto simp: accounted_def)
qed

lemma release_accounted:
  assumes "accounted (s, owners)" and "u \<in> set owners"
  shows "\<exists>s'. release u s = Some s' \<and> accounted (s', remove1 u owners)"
proof -
  have wf: "wf s" and "0 < held s u" using assms by (auto simp: accounted_def count_list_0_iff neq0_conv [symmetric])
  from release_effect [OF this] obtain s' where s': "release u s = Some s'" "wf s'"
    "held s' = (held s)(u := held s u - 1)" "all_held s' = all_held s - 1" by blast
  have "accounted (s', remove1 u owners)"
    using assms s'(2-4) by (auto simp: accounted_def count_remove1 length_remove1 le_diff_conv intro: le_SucI)
  with s'(1) show ?thesis by blast
qed

lemma run_accounted:
  "accounted st \<Longrightarrow> \<exists>st'. permit_run acquire release st es = Some st' \<and> accounted st'"
proof (induction es arbitrary: st)
  case (Cons e es)
  obtain s owners where st: "st = (s, owners)" by fastforce
  show ?case
  proof (cases e)
    case (Acquire u)
    then show ?thesis using Cons acquire_accounted [of s owners u] st by (cases "acquire u s") auto
  next
    case (DropPermit u)
    show ?thesis
    proof (cases "u \<in> set owners")
      case True
      then obtain s' where "release u s = Some s'" "accounted (s', remove1 u owners)"
        using release_accounted [of s owners u] Cons.prems st by auto
      then show ?thesis using Cons.IH DropPermit st True by simp
    qed (use Cons DropPermit st in auto)
  qed
qed auto

text \<open>
  What clients rely on: from an empty pool no run panics, the limits hold at every point, and
  the next acquisition is refused exactly when a limit is reached.
\<close>

lemma run_exact:
  assumes "wf s0" and "held s0 = (\<lambda>_. 0)" and "all_held s0 = 0"
  shows "\<exists>s owners. permit_run acquire release (s0, []) es = Some (s, owners)
           \<and> wf s \<and> held s = count_list owners \<and> all_held s = length owners
           \<and> length owners \<le> overall \<and> (\<forall>u. count_list owners u \<le> per_user)
           \<and> (\<forall>u. acquire u s = None \<longleftrightarrow> length owners = overall \<or> count_list owners u = per_user)"
proof -
  have "accounted (s0, [])" using assms by (simp add: accounted_def fun_eq_iff)
  then obtain s owners where r: "permit_run acquire release (s0, []) es = Some (s, owners)" and a: "accounted (s, owners)"
    using run_accounted by (metis prod.collapse)
  have "acquire u s = None \<longleftrightarrow> length owners = overall \<or> count_list owners u = per_user" for u
    using acquire_iff [of s u] a by (auto simp: accounted_def dest: le_neq_implies_less)
  with r a show ?thesis by (auto simp: accounted_def)
qed

end

section \<open>Both services provide it\<close>

lemma counts_sum_simps [simp]: "counts_sum [] = 0" "counts_sum (x # m) = snd x + counts_sum m"
  by (simp_all add: counts_sum_def)

lemma held_in_Cons: "held_in ((k, n) # m) u = (if u = k then n else held_in m u)"
  by (simp add: held_in_def)

lemma held_in_fresh: "u \<notin> set (keys m) \<Longrightarrow> held_in m u = 0"
  by (simp add: held_in_def map_of_None_keys [THEN iffD2])

lemma counts_sum_upd: "distinct (keys m) \<Longrightarrow> u \<in> set (keys m) \<Longrightarrow>
    counts_sum (assoc_upd u (\<lambda>_. v) m) + held_in m u = counts_sum m + v"
proof (induction m)
  case (Cons x m)
  have same: "assoc_upd u f m = m" if "u \<notin> set (keys m)" for f
    using that by (auto simp: assoc_upd_def keys_def image_iff intro!: map_idI)
  show ?case
  proof (cases "fst x = u")
    case True
    then have "assoc_upd u (\<lambda>_. v) m = m" using Cons.prems same by simp
    then show ?thesis using True by (cases x) (simp add: assoc_upd_def held_in_Cons)
  next
    case False
    then show ?thesis using Cons by (cases x) (auto simp: assoc_upd_def held_in_Cons)
  qed
qed simp

lemma counts_sum_put: "distinct (keys m) \<Longrightarrow> counts_sum (assoc_put u v m) + held_in m u = counts_sum m + v"
proof (cases "u \<in> set (keys m)")
  case True
  then show "distinct (keys m) \<Longrightarrow> ?thesis" by (simp add: assoc_put_def counts_sum_upd)
next
  case False
  then show ?thesis by (simp add: assoc_put_def held_in_fresh counts_sum_def)
qed

lemma counts_sum_del: "distinct (keys m) \<Longrightarrow> counts_sum (assoc_del u m) + held_in m u = counts_sum m"
proof (induction m)
  case (Cons x m)
  have "assoc_del u m = m" if "u \<notin> set (keys m)"
    using that by (force simp: assoc_del_def keys_def filter_id_conv)
  then show ?case using Cons by (cases x) (auto simp: assoc_del_def held_in_Cons)
qed (simp add: assoc_del_def held_in_def)

lemma held_in_put [simp]: "held_in (assoc_put u v m) = (held_in m)(u := v)"
  by (auto simp: held_in_def fun_eq_iff)

lemma held_in_del [simp]: "held_in (assoc_del u m) = (held_in m)(u := 0)"
  by (auto simp: held_in_def fun_eq_iff)

text \<open>A well-formed counting map has one positive entry per user.\<close>

definition counts_wf :: "('u \<times> nat) list \<Rightarrow> bool" where
  "counts_wf m \<longleftrightarrow> distinct (keys m) \<and> (\<forall>n \<in> snd ` set m. 0 < n)"

lemma counts_wf_del: "counts_wf m \<Longrightarrow> counts_wf (assoc_del u m)"
  using set_assoc_del [of u m] by (auto simp: counts_wf_def)

lemma counts_wf_put: "counts_wf m \<Longrightarrow> 0 < v \<Longrightarrow> counts_wf (assoc_put u v m)"
  by (fastforce simp: counts_wf_def assoc_put_def in_assoc_upd)

lemma counts_wf_empty: "counts_wf m \<Longrightarrow> counts_sum m = 0 \<Longrightarrow> m = []"
  by (cases m) (auto simp: counts_wf_def)

lemma counts_wf_held: "counts_wf m \<Longrightarrow> 0 < held_in m u \<Longrightarrow> \<exists>n. map_of m u = Some (Suc n) \<and> held_in m u = Suc n"
  by (auto simp: held_in_def gr0_conv_Suc split: option.splits)

lemma counts_sum_ge: "counts_wf m \<Longrightarrow> held_in m u \<le> counts_sum m"
  using counts_sum_del [of m u] by (simp add: counts_wf_def)

definition upload_counts_wf :: "'u upload_counts \<Rightarrow> bool" where
  "upload_counts_wf c \<longleftrightarrow> counts_wf (uc_by_user c) \<and> uc_global c = counts_sum (uc_by_user c)"

interpretation uploads: permit_pool upload_try_acquire "\<lambda>u c. Some (upload_permit_drop u c)"
  "\<lambda>c. held_in (uc_by_user c)" uc_global MAX_UPLOADS_PER_USER MAX_UPLOADS_GLOBAL upload_counts_wf
proof unfold_locales
  fix c c' :: "'u upload_counts" and u
  assume wf: "upload_counts_wf c"
  show "upload_try_acquire u c \<noteq> None \<longleftrightarrow> held_in (uc_by_user c) u < MAX_UPLOADS_PER_USER \<and> uc_global c < MAX_UPLOADS_GLOBAL"
    by (auto simp: upload_try_acquire_def Let_def)
  show "upload_counts_wf c' \<and> held_in (uc_by_user c') = (held_in (uc_by_user c))(u := held_in (uc_by_user c) u + 1)
        \<and> uc_global c' = uc_global c + 1" if "upload_try_acquire u c = Some c'"
    using that wf counts_sum_put [of "uc_by_user c" u "held_in (uc_by_user c) u + 1"]
    by (auto simp: upload_try_acquire_def Let_def upload_counts_wf_def counts_wf_put counts_wf_def [of "uc_by_user c"]
        split: if_splits)
  show "\<exists>c'. Some (upload_permit_drop u c) = Some c' \<and> upload_counts_wf c'
        \<and> held_in (uc_by_user c') = (held_in (uc_by_user c))(u := held_in (uc_by_user c) u - 1)
        \<and> uc_global c' = uc_global c - 1" if "0 < held_in (uc_by_user c) u"
  proof -
    have m: "counts_wf (uc_by_user c)" and d: "distinct (keys (uc_by_user c))"
      using wf by (auto simp: upload_counts_wf_def counts_wf_def)
    obtain n where "map_of (uc_by_user c) u = Some (Suc n)" "held_in (uc_by_user c) u = Suc n"
      using counts_wf_held [OF m \<open>0 < held_in (uc_by_user c) u\<close>] by auto
    then show ?thesis
      using wf m counts_sum_put [OF d, of u n] counts_sum_del [OF d, of u]
      by (auto simp: upload_permit_drop_def upload_counts_wf_def counts_wf_del counts_wf_put)
  qed
qed

interpretation forwards: permit_pool forward_acquire forward_permit_drop
  "\<lambda>s. held_in (fo_active s)" "\<lambda>s. counts_sum (fo_active s)" FORWARDS_PER_USER FORWARDS_GLOBAL
  "\<lambda>s. counts_wf (fo_active s)"
proof unfold_locales
  fix s s' :: forward_service and u
  assume wf: "counts_wf (fo_active s)"
  then have d: "distinct (keys (fo_active s))" by (simp add: counts_wf_def)
  show "forward_acquire u s \<noteq> None \<longleftrightarrow>
        held_in (fo_active s) u < FORWARDS_PER_USER \<and> counts_sum (fo_active s) < FORWARDS_GLOBAL"
    by (auto simp: forward_acquire_def)
  show "counts_wf (fo_active s') \<and> held_in (fo_active s') = (held_in (fo_active s))(u := held_in (fo_active s) u + 1)
        \<and> counts_sum (fo_active s') = counts_sum (fo_active s) + 1" if "forward_acquire u s = Some s'"
    using that wf counts_sum_put [OF d, of u "held_in (fo_active s) u + 1"]
    by (auto simp: forward_acquire_def counts_wf_put split: if_splits)
  show "\<exists>s'. forward_permit_drop u s = Some s' \<and> counts_wf (fo_active s')
        \<and> held_in (fo_active s') = (held_in (fo_active s))(u := held_in (fo_active s) u - 1)
        \<and> counts_sum (fo_active s') = counts_sum (fo_active s) - 1" if "0 < held_in (fo_active s) u"
  proof -
    obtain n where "map_of (fo_active s) u = Some (Suc n)" "held_in (fo_active s) u = Suc n"
      using counts_wf_held [OF wf \<open>0 < held_in (fo_active s) u\<close>] by auto
    then show ?thesis
      using wf counts_sum_put [OF d, of u n] counts_sum_del [OF d, of u]
      by (auto simp: forward_permit_drop_def counts_wf_del counts_wf_put)
  qed
qed

section \<open>Property\<close>

text \<open>
  Concurrency limits are exact and leak nothing: after any sequence of acquisitions and
  drops no count has underflowed; at most 16 uploads run in total and 4 per user, at most 128
  forwards in total and 32 per user; the next acquisition is refused exactly when one of the two
  limits is reached; and when every permit has been dropped no per-user entry is left behind.
\<close>

theorem permits_exact:
  "(case permit_run upload_try_acquire (\<lambda>u c. Some (upload_permit_drop u c)) (upload_counts_default, []) es of
      None \<Rightarrow> False
    | Some (c, owners) \<Rightarrow>
        length owners \<le> 16 \<and> count_list owners u \<le> 4
        \<and> (upload_try_acquire u c = None \<longleftrightarrow> length owners = 16 \<or> count_list owners u = 4)
        \<and> (if owners = [] then c = upload_counts_default else True))
   \<and> (case permit_run forward_acquire forward_permit_drop (\<lparr>fo_users = us, fo_active = []\<rparr>, []) fs of
      None \<Rightarrow> False
    | Some (s, owners) \<Rightarrow>
        length owners \<le> 128 \<and> count_list owners v \<le> 32
        \<and> (forward_acquire v s = None \<longleftrightarrow> length owners = 128 \<or> count_list owners v = 32)
        \<and> (if owners = [] then fo_active s = [] else True))"
proof -
  have "upload_counts_wf (upload_counts_default :: 'a upload_counts)" "counts_wf ([] :: (rstring \<times> nat) list)"
    by (simp_all add: upload_counts_wf_def upload_counts_default_def counts_wf_def)
  then show ?thesis
    using uploads.run_exact [of upload_counts_default es] forwards.run_exact [of "\<lparr>fo_users = us, fo_active = []\<rparr>" fs]
    by (fastforce simp: upload_counts_default_def held_in_def fun_eq_iff MAX_UPLOADS_GLOBAL_def MAX_UPLOADS_PER_USER_def
        FORWARDS_GLOBAL_def FORWARDS_PER_USER_def upload_counts_wf_def counts_wf_empty)
qed

end
