(* ===== verification/Ssh_Auth.thy ===== *)
theory Ssh_Auth
  imports Grant Rate_Limit
begin

text \<open>
  The SSH challenge of \<open>crates/auth/src/ssh.rs\<close> and the authentication state of
  \<open>crates/daemon/src/auth.rs\<close>. The \<open>ssh-key\<close> package is the record \<open>ssh_lib\<close>: parsing of keys
  and signatures and the signature check itself. The password back end is a function of the
  state, as the trait \<open>PasswordVerifier\<close> of \<open>crates/auth/src/password.rs\<close> makes it.
\<close>

section \<open>Verification of a challenge response\<close>

definition SSH_NAMESPACE :: rstring where "SSH_NAMESPACE = lit ''holdfast-auth@v0''"
definition SK_SIGNATURE_TRAILER :: nat where "SK_SIGNATURE_TRAILER = 5"
definition FIDO_FLAG_USER_PRESENT :: u8 where "FIDO_FLAG_USER_PRESENT = 1"
definition FIDO_FLAG_USER_VERIFIED :: u8 where "FIDO_FLAG_USER_VERIFIED = 4"

datatype ssh_error =
    NoAuthorizedKeys
  | KeyNotAuthorized
  | MalformedKey
  | MalformedSignature
  | SshBadSignature
  | ChallengeMismatch
  | UserPresenceMissing

datatype algorithm = SkEd25519 | SkEcdsaSha2NistP256 | OtherAlgorithm

text \<open>
  What the code uses of the package. An entry of an \<open>authorized_keys\<close> text is \<open>None\<close> when it
  does not parse, otherwise its options and its key.
\<close>

record ('pub, 'kd, 'sig) ssh_lib =
  authorized_entries :: "rstring \<Rightarrow> (rstring list \<times> 'pub) option list"
  from_openssh :: "rstring \<Rightarrow> 'pub option"
  key_data :: "'pub \<Rightarrow> 'kd"
  key_algorithm :: "'kd \<Rightarrow> algorithm"
  key_fingerprint :: "'pub \<Rightarrow> rstring"
  sig_from_pem :: "bytes \<Rightarrow> 'sig option"
  sig_namespace :: "'sig \<Rightarrow> rstring"
  sig_public_key :: "'sig \<Rightarrow> 'kd"
  sig_bytes :: "'sig \<Rightarrow> bytes"
  key_verify :: "'pub \<Rightarrow> rstring \<Rightarrow> bytes \<Rightarrow> 'sig \<Rightarrow> bool"

record verified_identity =
  fingerprint :: rstring
  security_key :: "bool option"

definition from_keys :: "'pub list \<Rightarrow> ssh_error + 'pub list" where
  "from_keys authorized = (if authorized = [] then Err NoAuthorizedKeys else Ok authorized)"

definition from_authorized_keys :: "('pub, 'kd, 'sig) ssh_lib \<Rightarrow> rstring \<Rightarrow> ssh_error + 'pub list" where
  "from_authorized_keys L txt =
     (let authorized = map snd (filter (\<lambda>e. fst e = []) (List.map_filter id (authorized_entries L txt))) in
      if authorized = [] then Err NoAuthorizedKeys else Ok authorized)"

definition is_authorized :: "('pub, 'kd, 'sig) ssh_lib \<Rightarrow> 'pub list \<Rightarrow> rstring \<Rightarrow> ssh_error + unit" where
  "is_authorized L authorized offered_openssh =
     (case from_openssh L offered_openssh of
        None \<Rightarrow> Err MalformedKey
      | Some offered \<Rightarrow>
          if foldl (\<lambda>found key. found \<or> key_data L key = key_data L offered) False authorized
          then Ok () else Err KeyNotAuthorized)"

definition is_security_key :: "('pub, 'kd, 'sig) ssh_lib \<Rightarrow> 'kd \<Rightarrow> bool" where
  "is_security_key L kd \<longleftrightarrow> key_algorithm L kd = SkEd25519 \<or> key_algorithm L kd = SkEcdsaSha2NistP256"

definition sk_flags :: "('pub, 'kd, 'sig) ssh_lib \<Rightarrow> 'sig \<Rightarrow> ssh_error + u8" where
  "sk_flags L sig =
     (let bs = sig_bytes L sig in
      if length bs < SK_SIGNATURE_TRAILER then Err MalformedSignature
      else (let index = length bs - SK_SIGNATURE_TRAILER in
            if index < length bs then Ok (bs ! index) else Err MalformedSignature))"

definition channel_bound_message :: "bytes \<Rightarrow> bytes \<Rightarrow> bytes" where
  "channel_bound_message channel_binding challenge = channel_binding @ challenge"

definition verify_response ::
  "('pub, 'kd, 'sig) ssh_lib \<Rightarrow> 'pub list \<Rightarrow> bytes \<Rightarrow> bytes \<Rightarrow> bytes \<Rightarrow> ssh_error + verified_identity" where
  "verify_response L authorized channel_binding challenge signature_pem =
     (case sig_from_pem L signature_pem of
        None \<Rightarrow> Err MalformedSignature
      | Some sig \<Rightarrow>
          if sig_namespace L sig \<noteq> SSH_NAMESPACE then Err SshBadSignature
          else
            (case find (\<lambda>k. key_data L k = sig_public_key L sig) authorized of
               None \<Rightarrow> Err KeyNotAuthorized
             | Some authorized_match \<Rightarrow>
                 if \<not> key_verify L authorized_match SSH_NAMESPACE
                       (channel_bound_message channel_binding challenge) sig
                 then Err SshBadSignature
                 else
                   (let identity = (\<lambda>a. Ok \<lparr>fingerprint = key_fingerprint L authorized_match, security_key = a\<rparr>) in
                    if is_security_key L (sig_public_key L sig) then
                      (case sk_flags L sig of
                         Inl e \<Rightarrow> Err e
                       | Inr flags \<Rightarrow>
                           if and flags FIDO_FLAG_USER_PRESENT = 0 then Err UserPresenceMissing
                           else identity (Some (and flags FIDO_FLAG_USER_VERIFIED \<noteq> 0)))
                    else identity None)))"

section \<open>The authentication state\<close>

definition MAX_PASSWORD_BYTES :: nat where "MAX_PASSWORD_BYTES = 1024"
definition MAX_USERNAME_BYTES :: nat where "MAX_USERNAME_BYTES = 128"

datatype 'pub auth_mode = DevInsecure | SshKeys "(rstring \<times> 'pub list) list"

record password_auth =
  pa_users :: "rstring list"
  pa_verifier :: "rstring \<Rightarrow> rstring \<Rightarrow> bool"

record ('pub, 'sk, 'pk, 'ip) auth_state =
  au_mode :: "'pub auth_mode"
  au_password :: "password_auth option"
  au_grant_signer :: 'sk
  au_grant_verifier :: 'pk
  au_audience :: rstring
  au_rate_limiter :: "'ip rate_limiter"

text \<open>The seed is the configured one or fresh; \<open>signer_of\<close> is \<open>GrantSigner::from_bytes\<close>.\<close>

definition auth_state_new ::
  "('sk, 'pk) grant_codec \<Rightarrow> (bytes \<Rightarrow> 'sk) \<Rightarrow> bytes \<Rightarrow> 'pub auth_mode \<Rightarrow> password_auth option \<Rightarrow> rstring
     \<Rightarrow> bytes option \<Rightarrow> ('pub, 'sk, 'pk, 'ip) auth_state" where
  "auth_state_new K signer_of fresh_seed mode password audience grant_key =
     (let signer = (case grant_key of Some seed \<Rightarrow> signer_of seed | None \<Rightarrow> signer_of fresh_seed) in
      \<lparr>au_mode = mode, au_password = password, au_grant_signer = signer,
       au_grant_verifier = public_of K signer, au_audience = audience,
       au_rate_limiter = limiter_new rate_limit_policy_default\<rparr>)"

definition ssh_verifier :: "('pub, 'sk, 'pk, 'ip) auth_state \<Rightarrow> rstring \<Rightarrow> 'pub list option" where
  "ssh_verifier au username =
     (case au_mode au of SshKeys users \<Rightarrow> map_of users username | DevInsecure \<Rightarrow> None)"

definition password_verifier ::
  "('pub, 'sk, 'pk, 'ip) auth_state \<Rightarrow> rstring \<Rightarrow> (rstring \<Rightarrow> rstring \<Rightarrow> bool) option" where
  "password_verifier au username =
     (case au_password au of
        None \<Rightarrow> None
      | Some p \<Rightarrow> if List.member (pa_users p) username then Some (pa_verifier p) else None)"

section \<open>Lemmas\<close>

lemma found_loop: "foldl (\<lambda>found key. found \<or> P key) b xs \<longleftrightarrow> b \<or> list_ex P xs"
  by (induction xs arbitrary: b) auto

lemma is_authorized_iff:
  "is_authorized L ks line = Ok () \<longleftrightarrow>
     (\<exists>k. from_openssh L line = Some k \<and> key_data L k \<in> key_data L ` set ks)"
proof (cases "from_openssh L line")
  case (Some k)
  have "(\<exists>key \<in> set ks. key_data L key = key_data L k) \<longleftrightarrow> key_data L k \<in> key_data L ` set ks"
    by (metis imageE imageI)
  then show ?thesis using Some by (simp add: is_authorized_def found_loop list_ex_iff)
qed (simp add: is_authorized_def)

lemma sk_flags_exact:
  "sk_flags L sig = (if length (sig_bytes L sig) < 5 then Err MalformedSignature
                     else Ok (sig_bytes L sig ! (length (sig_bytes L sig) - 5)))"
  by (auto simp: sk_flags_def Let_def SK_SIGNATURE_TRAILER_def)

lemma find_key_data:
  "find (\<lambda>k. key_data L k = kd) ks = Some k \<Longrightarrow> k \<in> set ks \<and> key_data L k = kd"
  by (auto simp: find_Some_iff)

lemma verify_response_ok:
  "verify_response L ks b c pem = Ok i \<longleftrightarrow>
     (\<exists>sig k. sig_from_pem L pem = Some sig \<and> sig_namespace L sig = SSH_NAMESPACE
        \<and> find (\<lambda>k. key_data L k = sig_public_key L sig) ks = Some k
        \<and> key_verify L k SSH_NAMESPACE (b @ c) sig
        \<and> fingerprint i = key_fingerprint L k
        \<and> (if is_security_key L (sig_public_key L sig)
           then (\<exists>flags. sk_flags L sig = Ok flags \<and> and flags 1 \<noteq> 0 \<and> security_key i = Some (and flags 4 \<noteq> 0))
           else security_key i = None))"
  by (cases i)
    (auto simp: verify_response_def channel_bound_message_def Let_def FIDO_FLAG_USER_PRESENT_def
      FIDO_FLAG_USER_VERIFIED_def split: option.splits sum.splits)

lemma from_authorized_keys_unrestricted:
  "from_authorized_keys L txt = Ok ks \<Longrightarrow> k \<in> set ks \<Longrightarrow> Some ([], k) \<in> set (authorized_entries L txt)"
  by (auto simp: from_authorized_keys_def Let_def map_filter_def split: if_splits)

section \<open>Properties\<close>

text \<open>
  (C35) SSH authentication is sound: a response that verifies against the keys read from an
  \<open>authorized_keys\<close> text was made with a key that has an entry there without any option (a
  restricted key never authenticates), in this program's namespace, over exactly the channel
  binding followed by the challenge; a security key must have proved a touch, which is read from
  the byte before the four-byte counter and reported only after the signature was checked.
\<close>

theorem ssh_response_sound:
  assumes "from_authorized_keys L txt = Ok ks"
    and "verify_response L ks binding challenge pem = Ok i"
  shows "\<exists>sig k. sig_from_pem L pem = Some sig \<and> sig_namespace L sig = lit ''holdfast-auth@v0''
           \<and> Some ([], k) \<in> set (authorized_entries L txt)
           \<and> key_data L k = sig_public_key L sig
           \<and> key_verify L k (lit ''holdfast-auth@v0'') (binding @ challenge) sig
           \<and> (if key_algorithm L (sig_public_key L sig) = OtherAlgorithm then security_key i = None
              else 5 \<le> length (sig_bytes L sig)
                   \<and> bit (sig_bytes L sig ! (length (sig_bytes L sig) - 5)) 0
                   \<and> security_key i = Some (bit (sig_bytes L sig ! (length (sig_bytes L sig) - 5)) 2))"
proof -
  obtain sig k where s: "sig_from_pem L pem = Some sig" "sig_namespace L sig = SSH_NAMESPACE"
    and k: "find (\<lambda>k. key_data L k = sig_public_key L sig) ks = Some k"
    and v: "key_verify L k SSH_NAMESPACE (binding @ challenge) sig"
    and sk: "if is_security_key L (sig_public_key L sig)
           then (\<exists>flags. sk_flags L sig = Ok flags \<and> and flags 1 \<noteq> 0 \<and> security_key i = Some (and flags 4 \<noteq> 0))
           else security_key i = None"
    using assms(2) by (auto simp: verify_response_ok)
  have bit0: "and f 1 \<noteq> 0 \<longleftrightarrow> bit f 0" and bit2: "and f 4 \<noteq> 0 \<longleftrightarrow> bit f 2" for f :: u8
    using and_exp_eq_0_iff_not_bit [of f 0] and_exp_eq_0_iff_not_bit [of f 2] by simp_all
  have alg: "is_security_key L kd \<longleftrightarrow> key_algorithm L kd \<noteq> OtherAlgorithm" for kd
    by (cases "key_algorithm L kd") (auto simp: is_security_key_def)
  have "Some ([], k) \<in> set (authorized_entries L txt)" "key_data L k = sig_public_key L sig"
    using from_authorized_keys_unrestricted [OF assms(1)] find_key_data [OF k] by auto
  then show ?thesis
    using s v sk by (auto simp: SSH_NAMESPACE_def alg sk_flags_exact bit0 bit2 not_less split: if_splits)
qed

text \<open>A stand-in for the package: one security key, signatures that carry the signed bytes.\<close>

definition sample_lib :: "(nat, nat, bytes) ssh_lib" where
  "sample_lib =
     \<lparr>authorized_entries = (\<lambda>_. [Some ([lit ''restrict''], 2), None, Some ([], 1)]), from_openssh = (\<lambda>_. Some 1),
      key_data = id, key_algorithm = (\<lambda>_. SkEd25519), key_fingerprint = (\<lambda>_. []),
      sig_from_pem = Some, sig_namespace = (\<lambda>_. SSH_NAMESPACE), sig_public_key = (\<lambda>_. 1), sig_bytes = id,
      key_verify = (\<lambda>k ns m s. s = m @ [5, 0, 0, 0, 0])\<rparr>"

lemma sample_lib_run:
  "from_authorized_keys sample_lib [] = Ok [1]"
  "verify_response sample_lib [1] [7] [8] [7, 8, 5, 0, 0, 0, 0] = Ok \<lparr>fingerprint = [], security_key = Some True\<rparr>"
proof -
  show "from_authorized_keys sample_lib [] = Ok [1]"
    by (simp add: from_authorized_keys_def sample_lib_def map_filter_simps lit_def)
  have "and (5 :: u8) 1 = 1" "and (5 :: u8) 4 = 4" by simp_all
  then show "verify_response sample_lib [1] [7] [8] [7, 8, 5, 0, 0, 0, 0] = Ok \<lparr>fingerprint = [], security_key = Some True\<rparr>"
    by (simp add: verify_response_def channel_bound_message_def sample_lib_def is_security_key_def sk_flags_def
        SK_SIGNATURE_TRAILER_def FIDO_FLAG_USER_PRESENT_def FIDO_FLAG_USER_VERIFIED_def Let_def)
qed

theorem ssh_response_sound_witness:
  "key_verify sample_lib 1 (lit ''holdfast-auth@v0'') [7, 8] [7, 8, 5, 0, 0, 0, 0]
   \<and> bit ([7, 8, 5, 0, 0, 0, 0 :: u8] ! 2) 0"
  using ssh_response_sound [OF sample_lib_run] by (auto simp: sample_lib_def)

text \<open>
  A relayed signature fails: for a signature scheme in which a signature is valid for at
  most one message under a key, one signature cannot authenticate two connections that differ in
  challenge or, with bindings of equal length, in channel binding.
\<close>

theorem ssh_relay_fails:
  assumes "\<And>k m m' sig. key_verify L k SSH_NAMESPACE m sig \<Longrightarrow> key_verify L k SSH_NAMESPACE m' sig \<Longrightarrow> m = m'"
    and "verify_response L ks binding challenge pem = Ok i"
    and "length binding' = length binding"
    and "(binding', challenge') \<noteq> (binding, challenge)"
  shows "verify_response L ks binding' challenge' pem = Err SshBadSignature"
proof -
  obtain sig k where s: "sig_from_pem L pem = Some sig" "sig_namespace L sig = SSH_NAMESPACE"
    and k: "find (\<lambda>k. key_data L k = sig_public_key L sig) ks = Some k"
    and v: "key_verify L k SSH_NAMESPACE (binding @ challenge) sig"
    using assms(2) by (auto simp: verify_response_ok)
  have "binding' @ challenge' \<noteq> binding @ challenge" using assms(3,4) by simp
  then have "\<not> key_verify L k SSH_NAMESPACE (binding' @ challenge') sig" using assms(1) v by metis
  then show ?thesis using s k by (simp add: verify_response_def channel_bound_message_def)
qed

theorem ssh_relay_fails_witness:
  "verify_response sample_lib [1] [9] [8] [7, 8, 5, 0, 0, 0, 0] = Err SshBadSignature"
  by (rule ssh_relay_fails [OF _ sample_lib_run(2)]) (auto simp: sample_lib_def)

end
