(* ===== verification/Messages.thy ===== *)
theory Messages
  imports Negotiate Transfer_Wire
begin

text \<open>
  The envelope of \<open>protocol/messages.proto\<close> as the daemon sees it: a request identifier, the
  scope, and one of the messages. Integers of the wire are natural numbers or integers within
  their range; byte strings and texts are as everywhere else.
\<close>

section \<open>Messages\<close>

datatype error_code =
    ErrUnspecified
  | ErrVersion
  | ErrUnauthenticated
  | ErrForbidden
  | ErrNotFound
  | ErrFrameTooLarge
  | ErrUnknownMessage
  | ErrInputOverflow
  | ErrTooSlow
  | ErrNotReady
  | ErrTokenExpired
  | ErrTokenReplayed
  | ErrLimitExceeded
  | ErrServerUnavailable
  | ErrInternal
  | ErrInvalidArgument
  | ErrChecksumMismatch

datatype auth_request =
    ConnectionGrantBytes bytes
  | SshChallengeRequest rstring bytes
  | SshChallengeResponse bytes bytes
  | PasswordRequest rstring rstring

record authentication_result =
  ar_ok :: bool
  ar_user_id :: rstring
  ar_expires_at_ms :: int
  ar_error_code :: error_code
  ar_error_message :: rstring
  ar_challenge :: bytes

datatype pb_shell_state = PbUnspecified | PbRunning | PbTerminating | PbExited

record pb_shell_info =
  pi_server_id :: bytes
  pi_shell_id :: bytes
  pi_state :: pb_shell_state
  pi_title :: rstring
  pi_created_at_ms :: int
  pi_last_attached_at_ms :: int

record open_shell_msg =
  om_unix_account :: rstring
  om_command :: rstring
  om_initial_cols :: nat
  om_initial_rows :: nat
  om_idempotency_key :: bytes

record attach_shell_msg =
  am_resume_token :: bytes
  am_cols :: nat
  am_rows :: nat
  am_last_seen_revision :: nat
  am_last_history_line_id :: nat

record shell_attached_msg =
  sa_screen_snapshot :: bytes
  sa_screen_revision :: nat
  sa_rotated_resume_token :: bytes
  sa_oldest_history_line_id :: nat
  sa_newest_history_line_id :: nat

datatype msg =
    MClientHello client_hello
  | MServerHello server_hello
  | MTerminalInput bytes
  | MTerminalOutput bytes
  | MTerminalResize nat nat
  | MError error_code rstring bool
  | MAuthenticate "auth_request option"
  | MAuthenticationResult authentication_result
  | MListServers
  | MServerList "(bytes \<times> rstring \<times> bool) list"
  | MListShells
  | MShellList "pb_shell_info list"
  | MOpenShell open_shell_msg
  | MShellOpened bytes int
  | MAttachShell attach_shell_msg
  | MShellAttached shell_attached_msg
  | MDetachShell
  | MTerminateShell
  | MShellExited int bool rstring
  | MRequestHistory nat nat nat
  | MHistoryChunk nat "rstring list" bool
  | MHistoryEnd nat
  | MScreen
  | MPing nat
  | MPong nat
  | MClose
  | MBeginUpload begin_upload
  | MUploadAccepted bytes u32
  | MUploadChunk upload_chunk
  | MFinishUpload bytes
  | MUploadFinished bytes rstring u64 bytes
  | MAbortUpload bytes rstring
  | MOpenTcpForward rstring nat
  | MTcpForwardOpened rstring nat
  | MTcpForwardData bytes
  | MTcpForwardEof
  | MTcpForwardAck

record envelope =
  ev_request_id :: nat
  ev_server_id :: bytes
  ev_shell_id :: bytes
  ev_message :: "msg option"

section \<open>Replies\<close>

definition respond :: "nat \<Rightarrow> msg \<Rightarrow> envelope" where
  "respond request_id m =
     \<lparr>ev_request_id = request_id, ev_server_id = [], ev_shell_id = [], ev_message = Some m\<rparr>"

definition error_envelope :: "nat \<Rightarrow> error_code \<Rightarrow> rstring \<Rightarrow> bool \<Rightarrow> envelope" where
  "error_envelope request_id code txt retryable = respond request_id (MError code txt retryable)"

definition auth_ok :: "nat \<Rightarrow> rstring \<Rightarrow> int \<Rightarrow> envelope" where
  "auth_ok request_id user_id expires_at_ms =
     respond request_id (MAuthenticationResult
       \<lparr>ar_ok = True, ar_user_id = user_id, ar_expires_at_ms = expires_at_ms, ar_error_code = ErrUnspecified,
        ar_error_message = [], ar_challenge = []\<rparr>)"

definition auth_failure :: "nat \<Rightarrow> error_code \<Rightarrow> rstring \<Rightarrow> envelope" where
  "auth_failure request_id code txt =
     respond request_id (MAuthenticationResult
       \<lparr>ar_ok = False, ar_user_id = [], ar_expires_at_ms = 0, ar_error_code = code,
        ar_error_message = txt, ar_challenge = []\<rparr>)"

lemma respond_fields [simp]:
  "ev_request_id (respond r m) = r" "ev_message (respond r m) = Some m"
  "ev_server_id (respond r m) = []" "ev_shell_id (respond r m) = []"
  by (simp_all add: respond_def)

lemma error_envelope_fields [simp]:
  "ev_request_id (error_envelope r c t b) = r" "ev_message (error_envelope r c t b) = Some (MError c t b)"
  by (simp_all add: error_envelope_def)

lemma auth_fields [simp]:
  "ev_request_id (auth_ok r u e) = r" "ev_request_id (auth_failure r c t) = r"
  by (simp_all add: auth_ok_def auth_failure_def)

end
