(* ===== verification/Forward.thy ===== *)
theory Forward
  imports Messages
begin

text \<open>
  One TCP forward of \<open>crates/daemon/src/forward.rs\<close>: the binding the connection holds and the
  task that relays between the client and a socket. The task is a step relation: each rule is one
  stretch of the task between two points where it waits, so that the frames of the client
  interleave with it at any of these points. The input queue holds one frame and the queue of
  acknowledgements one acknowledgement; two atomic flags say when the next one is welcome. What
  was accepted from the client and delivered to the socket is kept as history.
\<close>

section \<open>State\<close>

datatype up_phase = UpRecv | UpWrite "bytes option" | UpAck bool | UpDone
datatype down_phase = DnRead | DnSend bytes | DnAwait bool | DnDone
datatype task_phase = TaskConnecting | TaskOpening rstring nat | TaskRelaying | TaskDone | TaskFailed

record forward_state =
  fw_request_id :: nat
  fw_task :: task_phase
  fw_up :: up_phase
  fw_down :: down_phase
  fw_input :: "bytes option list"
  fw_input_open :: bool
  fw_input_ready :: bool
  fw_acks :: nat
  fw_acks_open :: bool
  fw_ack_expected :: bool
  fw_out :: "envelope list"
  fw_socket :: bytes
  fw_shutdown :: bool
  fw_accepted :: "bytes option list"
  fw_delivered :: "bytes option list"

section \<open>The binding\<close>

definition forward_spawn :: "nat \<Rightarrow> forward_state" where
  "forward_spawn request_id =
     \<lparr>fw_request_id = request_id, fw_task = TaskConnecting, fw_up = UpRecv, fw_down = DnRead,
      fw_input = [], fw_input_open = True, fw_input_ready = False,
      fw_acks = 0, fw_acks_open = True, fw_ack_expected = False,
      fw_out = [], fw_socket = [], fw_shutdown = False, fw_accepted = [], fw_delivered = []\<rparr>"

text \<open>\<open>swap(false)\<close> on the readiness flag, then \<open>try_send\<close> on a queue of one.\<close>

definition offer_input :: "bytes option \<Rightarrow> forward_state \<Rightarrow> forward_state \<times> bool" where
  "offer_input x f =
     (let f1 = f\<lparr>fw_input_ready := False\<rparr> in
      if \<not> fw_input_ready f then (f1, False)
      else if \<not> fw_input_open f \<or> length (fw_input f) \<ge> 1 then (f1, False)
      else (f1\<lparr>fw_input := fw_input f @ [x], fw_accepted := fw_accepted f @ [x]\<rparr>, True))"

definition offer_ack :: "forward_state \<Rightarrow> forward_state \<times> bool" where
  "offer_ack f =
     (let f1 = f\<lparr>fw_ack_expected := False\<rparr> in
      if \<not> fw_ack_expected f then (f1, False)
      else if \<not> fw_acks_open f \<or> fw_acks f \<ge> 1 then (f1, False)
      else (f1\<lparr>fw_acks := fw_acks f + 1\<rparr>, True))"

definition forward_message :: "envelope \<Rightarrow> forward_state \<Rightarrow> forward_state \<times> bool" where
  "forward_message env f =
     (if ev_request_id env \<noteq> 0 \<or> ev_server_id env \<noteq> [] \<or> ev_shell_id env \<noteq> [] then (f, False)
      else
        (case ev_message env of
           Some (MTcpForwardData data) \<Rightarrow>
             if data \<noteq> [] \<and> length data \<le> FORWARD_DATA_BYTES_MAX then offer_input (Some data) f else (f, False)
         | Some MTcpForwardEof \<Rightarrow> offer_input None f
         | Some MTcpForwardAck \<Rightarrow> offer_ack f
         | _ \<Rightarrow> (f, False)))"

section \<open>The task\<close>

definition forward_send :: "nat \<Rightarrow> msg \<Rightarrow> forward_state \<Rightarrow> forward_state" where
  "forward_send request_id m f = f\<lparr>fw_out := fw_out f @ [respond request_id m]\<rparr>"

text \<open>The end of the task drops the receivers; a failure is reported without any detail.\<close>

definition forward_end :: "task_phase \<Rightarrow> forward_state \<Rightarrow> forward_state" where
  "forward_end phase f = f\<lparr>fw_task := phase, fw_input_open := False, fw_acks_open := False\<rparr>"

definition forward_fail :: "forward_state \<Rightarrow> forward_state" where
  "forward_fail f =
     forward_end TaskFailed
       (forward_send (fw_request_id f)
          (MError ErrServerUnavailable (lit ''TCP forwarding failed or timed out'') False) f)"

text \<open>\<open>abort\<close> of the binding, and its drop.\<close>

definition forward_abort :: "forward_state \<Rightarrow> forward_state" where
  "forward_abort f = (if fw_task f = TaskDone then f else forward_end TaskFailed f)"

definition relaying :: "forward_state \<Rightarrow> bool" where
  "relaying f \<longleftrightarrow> fw_task f = TaskRelaying"

definition running :: "forward_state \<Rightarrow> bool" where
  "running f \<longleftrightarrow> fw_task f \<noteq> TaskDone \<and> fw_task f \<noteq> TaskFailed"

text \<open>
  The steps of the task. The last two rules are its ends: both directions done, or an error of
  the socket, a timeout or the idle limit, at any time. \<open>data_after_eof\<close> and \<open>unsolicited\<close> are
  the two protocol checks of the task itself.
\<close>

inductive forward_task :: "forward_state \<Rightarrow> forward_state \<Rightarrow> bool" where
  connected: "fw_task f = TaskConnecting \<Longrightarrow>
    forward_task f (f\<lparr>fw_input_ready := True, fw_task := TaskOpening ip port\<rparr>)"
| opened: "fw_task f = TaskOpening ip port \<Longrightarrow>
    forward_task f ((forward_send (fw_request_id f) (MTcpForwardOpened ip port) f)\<lparr>fw_task := TaskRelaying\<rparr>)"
| take_input: "relaying f \<Longrightarrow> fw_up f = UpRecv \<Longrightarrow> fw_input f = x # q \<Longrightarrow>
    forward_task f (f\<lparr>fw_up := UpWrite x, fw_input := q\<rparr>)"
| written: "relaying f \<Longrightarrow> fw_up f = UpWrite (Some data) \<Longrightarrow>
    forward_task f (f\<lparr>fw_socket := fw_socket f @ data, fw_delivered := fw_delivered f @ [Some data],
                      fw_input_ready := True, fw_up := UpAck False\<rparr>)"
| shut_down: "relaying f \<Longrightarrow> fw_up f = UpWrite None \<Longrightarrow>
    forward_task f (f\<lparr>fw_shutdown := True, fw_delivered := fw_delivered f @ [None], fw_up := UpAck True\<rparr>)"
| acked: "relaying f \<Longrightarrow> fw_up f = UpAck False \<Longrightarrow>
    forward_task f ((forward_send 0 MTcpForwardAck f)\<lparr>fw_up := UpRecv\<rparr>)"
| acked_eof: "relaying f \<Longrightarrow> fw_up f = UpAck True \<Longrightarrow> fw_input f = [] \<Longrightarrow>
    forward_task f ((forward_send 0 MTcpForwardAck f)\<lparr>fw_up := UpDone, fw_input_open := False\<rparr>)"
| data_after_eof: "relaying f \<Longrightarrow> fw_up f = UpAck True \<Longrightarrow> fw_input f \<noteq> [] \<Longrightarrow>
    forward_task f (forward_fail (forward_send 0 MTcpForwardAck f))"
| read: "relaying f \<Longrightarrow> fw_down f = DnRead \<Longrightarrow> length data \<le> FORWARD_DATA_BYTES_MAX \<Longrightarrow>
    forward_task f (f\<lparr>fw_ack_expected := True, fw_down := DnSend data\<rparr>)"
| unsolicited: "relaying f \<Longrightarrow> fw_down f = DnRead \<Longrightarrow> fw_acks f > 0 \<Longrightarrow> forward_task f (forward_fail f)"
| sent: "relaying f \<Longrightarrow> fw_down f = DnSend data \<Longrightarrow>
    forward_task f
      ((forward_send 0 (if data = [] then MTcpForwardEof else MTcpForwardData data) f)
         \<lparr>fw_down := DnAwait (data = [])\<rparr>)"
| got_ack: "relaying f \<Longrightarrow> fw_down f = DnAwait eof \<Longrightarrow> fw_acks f = Suc n \<Longrightarrow>
    forward_task f (f\<lparr>fw_acks := n, fw_down := (if eof then DnDone else DnRead),
                      fw_acks_open := (fw_acks_open f \<and> \<not> eof)\<rparr>)"
| joined: "relaying f \<Longrightarrow> fw_up f = UpDone \<Longrightarrow> fw_down f = DnDone \<Longrightarrow> forward_task f (forward_end TaskDone f)"
| failed: "running f \<Longrightarrow> forward_task f (forward_fail f)"

text \<open>The task interleaved with the frames of the client, until a frame is refused and the binding aborts.\<close>

inductive forward_step :: "forward_state \<Rightarrow> forward_state \<Rightarrow> bool" where
  task: "forward_task f f' \<Longrightarrow> forward_step f f'"
| frame: "forward_message env f = (f', True) \<Longrightarrow> forward_step f f'"
| refused: "forward_message env f = (f', False) \<Longrightarrow> forward_step f (forward_abort f')"

inductive forward_reach :: "nat \<Rightarrow> forward_state \<Rightarrow> bool" for r where
  start: "forward_reach r (forward_spawn r)"
| step: "forward_reach r f \<Longrightarrow> forward_step f f' \<Longrightarrow> forward_reach r f'"

inductive_cases forward_taskE: "forward_task f f'"
inductive_cases forward_stepE: "forward_step f f'"

section \<open>The specification: a one-slot relay\<close>

text \<open>
  What the forward promises upstream: frames are delivered in the order they were accepted, at
  most one is accepted and not yet delivered, and nothing is accepted after the end of file.
\<close>

type_synonym relay = "bytes option list \<times> bytes option list"

inductive relay_step :: "relay \<Rightarrow> relay \<Rightarrow> bool" where
  accept: "None \<notin> set done \<Longrightarrow> relay_step (done, done) (done @ [x], done)"
| deliver: "relay_step (done @ [x], done) (done @ [x], done @ [x])"

definition relay_of :: "forward_state \<Rightarrow> relay" where
  "relay_of f = (fw_accepted f, fw_delivered f)"

definition relay_bytes :: "bytes option list \<Rightarrow> bytes" where
  "relay_bytes xs = concat (List.map_filter id xs)"

section \<open>Invariant\<close>

definition pending :: "forward_state \<Rightarrow> bytes option list" where
  "pending f = (case fw_up f of UpWrite x \<Rightarrow> [x] | _ \<Rightarrow> []) @ fw_input f"

definition up_inv :: "forward_state \<Rightarrow> bool" where
  "up_inv f \<longleftrightarrow>
     fw_accepted f = fw_delivered f @ pending f
     \<and> fw_socket f = relay_bytes (fw_delivered f)
     \<and> None \<notin> set (butlast (fw_accepted f))
     \<and> (fw_input_ready f \<longleftrightarrow> fw_task f \<noteq> TaskConnecting \<and> pending f = [] \<and> None \<notin> set (fw_accepted f))
     \<and> length (pending f) \<le> 1
     \<and> (fw_task f = TaskConnecting \<longrightarrow> pending f = [] \<and> fw_accepted f = [])
     \<and> (fw_up f = UpAck True \<or> fw_up f = UpDone \<longleftrightarrow> None \<in> set (fw_delivered f))
     \<and> (fw_up f \<noteq> UpDone \<longrightarrow> fw_input_open f)"

definition down_inv :: "forward_state \<Rightarrow> bool" where
  "down_inv f \<longleftrightarrow>
     fw_acks f \<le> 1 \<and> (fw_ack_expected f \<longrightarrow> fw_acks f = 0)
     \<and> ((fw_down f = DnRead \<or> fw_down f = DnDone) \<longrightarrow> \<not> fw_ack_expected f \<and> fw_acks f = 0)
     \<and> (fw_down f \<noteq> DnDone \<longrightarrow> fw_acks_open f)"

text \<open>While the task runs both halves hold; after its end the history stays a prefix.\<close>

definition forward_inv :: "forward_state \<Rightarrow> bool" where
  "forward_inv f \<longleftrightarrow>
     prefix (fw_delivered f) (fw_accepted f) \<and> length (fw_accepted f) \<le> Suc (length (fw_delivered f))
     \<and> fw_socket f = relay_bytes (fw_delivered f)
     \<and> (running f \<longrightarrow> up_inv f \<and> down_inv f)
     \<and> (\<not> running f \<longrightarrow> \<not> fw_input_open f \<and> \<not> fw_acks_open f)"

lemmas forward_defs = forward_send_def forward_end_def forward_fail_def relaying_def running_def

lemma relay_bytes_simps [simp]:
  "relay_bytes [] = []" "relay_bytes (xs @ [Some d]) = relay_bytes xs @ d" "relay_bytes (xs @ [None]) = relay_bytes xs"
  by (simp_all add: relay_bytes_def map_filter_def)

lemma up_inv_indep [simp]:
  "up_inv (f\<lparr>fw_ack_expected := a\<rparr>) = up_inv f" "up_inv (f\<lparr>fw_acks := n\<rparr>) = up_inv f"
  "up_inv (f\<lparr>fw_acks_open := a\<rparr>) = up_inv f" "up_inv (f\<lparr>fw_down := dn\<rparr>) = up_inv f"
  "up_inv (f\<lparr>fw_out := es\<rparr>) = up_inv f" "up_inv (f\<lparr>fw_shutdown := a\<rparr>) = up_inv f"
  by (simp_all add: up_inv_def pending_def)

lemma down_inv_indep [simp]:
  "down_inv (f\<lparr>fw_input_ready := a\<rparr>) = down_inv f" "down_inv (f\<lparr>fw_input := q\<rparr>) = down_inv f"
  "down_inv (f\<lparr>fw_accepted := q\<rparr>) = down_inv f" "down_inv (f\<lparr>fw_delivered := q\<rparr>) = down_inv f"
  "down_inv (f\<lparr>fw_socket := bs\<rparr>) = down_inv f" "down_inv (f\<lparr>fw_up := up\<rparr>) = down_inv f"
  "down_inv (f\<lparr>fw_input_open := a\<rparr>) = down_inv f" "down_inv (f\<lparr>fw_task := p\<rparr>) = down_inv f"
  "down_inv (f\<lparr>fw_out := es\<rparr>) = down_inv f" "down_inv (f\<lparr>fw_shutdown := a\<rparr>) = down_inv f"
  by (simp_all add: down_inv_def)

lemma up_inv_history:
  "up_inv f \<Longrightarrow> prefix (fw_delivered f) (fw_accepted f) \<and> length (fw_accepted f) \<le> Suc (length (fw_delivered f))
     \<and> fw_socket f = relay_bytes (fw_delivered f)"
  by (simp add: up_inv_def)

lemma forward_inv_running: "running f \<Longrightarrow> forward_inv f \<longleftrightarrow> up_inv f \<and> down_inv f"
  using up_inv_history [of f] by (auto simp: forward_inv_def)

lemma relay_of_indep [simp]:
  "relay_of (forward_send r m f) = relay_of f" "relay_of (forward_end p f) = relay_of f"
  "relay_of (forward_fail f) = relay_of f" "relay_of (forward_abort f) = relay_of f"
  by (simp_all add: relay_of_def forward_send_def forward_end_def forward_fail_def forward_abort_def)

lemma forward_end_inv: "forward_inv f \<Longrightarrow> p = TaskDone \<or> p = TaskFailed \<Longrightarrow> forward_inv (forward_end p f)"
  by (auto simp: forward_inv_def forward_defs)

lemma forward_send_inv [simp]: "forward_inv (forward_send r m f) \<longleftrightarrow> forward_inv f"
  by (simp add: forward_inv_def forward_defs up_inv_def down_inv_def pending_def)

lemma forward_fail_inv: "forward_inv f \<Longrightarrow> forward_inv (forward_fail f)"
  by (simp add: forward_fail_def forward_end_inv)

lemma forward_abort_inv: "forward_inv f \<Longrightarrow> forward_inv (forward_abort f)"
  by (simp add: forward_abort_def forward_end_inv)

lemma forward_init_inv: "forward_inv (forward_spawn r)"
  by (simp add: forward_inv_def up_inv_def down_inv_def pending_def forward_spawn_def running_def)

text \<open>While the task runs, a frame is accepted exactly when the flag is set.\<close>

lemma ready_room:
  assumes "up_inv f" and "fw_input_ready f"
  shows "fw_input_open f" "fw_input f = []" "pending f = []" "None \<notin> set (fw_accepted f)"
    "fw_accepted f = fw_delivered f" "fw_task f \<noteq> TaskConnecting"
  using assms by (auto simp: up_inv_def pending_def)

lemma offer_input_running:
  assumes "running f" and "forward_inv f" and "offer_input x f = (f', b)"
  shows "b = fw_input_ready f \<and> forward_inv f' \<and> running f'
         \<and> (if b then fw_accepted f = fw_delivered f \<and> None \<notin> set (fw_accepted f)
                      \<and> fw_accepted f' = fw_accepted f @ [x] \<and> fw_delivered f' = fw_delivered f
            else f' = f)"
proof (cases "fw_input_ready f")
  case True
  have u: "up_inv f" and d: "down_inv f" using assms(1,2) by (simp_all add: forward_inv_running)
  note room = ready_room [OF u True]
  have f': "f' = f\<lparr>fw_input_ready := False, fw_input := [x], fw_accepted := fw_accepted f @ [x]\<rparr>" "b"
    using assms(3) True room(1,2) by (auto simp: offer_input_def)
  have run: "running f'" using assms(1) f' by (simp add: running_def)
  have "up_inv f'" using u room unfolding up_inv_def pending_def f'(1) by (auto split: up_phase.splits)
  moreover have "down_inv f'" using d by (simp add: down_inv_def f')
  ultimately show ?thesis using f' room run True by (simp add: forward_inv_running)
next
  case False
  then have "f' = f" "\<not> b" using assms(3) by (auto simp: offer_input_def)
  then show ?thesis using assms False by simp
qed

lemma offer_ack_running:
  assumes "running f" and "forward_inv f" and "offer_ack f = (f', b)"
  shows "b = fw_ack_expected f \<and> forward_inv f' \<and> relay_of f' = relay_of f \<and> running f'"
proof -
  have u: "up_inv f" and d: "down_inv f" using assms(1,2) by (simp_all add: forward_inv_running)
  have f': "f' = f\<lparr>fw_ack_expected := False, fw_acks := (if fw_ack_expected f then 1 else fw_acks f)\<rparr>"
    "b = fw_ack_expected f"
    using assms(3) d by (auto simp: offer_ack_def Let_def down_inv_def split: if_splits)
  have "up_inv f'" using u by (simp add: f')
  moreover have "down_inv f'" using d by (cases "fw_ack_expected f") (auto simp: f' down_inv_def)
  moreover have "running f'" using assms(1) by (simp add: f' running_def)
  ultimately show ?thesis using f' by (simp add: forward_inv_running relay_of_def)
qed

lemma offers_stopped:
  assumes "\<not> running f" and "forward_inv f"
  shows "offer_input x f = (f\<lparr>fw_input_ready := False\<rparr>, False)"
    "offer_ack f = (f\<lparr>fw_ack_expected := False\<rparr>, False)"
    "forward_inv (f\<lparr>fw_input_ready := False\<rparr>)" "forward_inv (f\<lparr>fw_ack_expected := False\<rparr>)"
proof -
  have o: "\<not> fw_input_open f" "\<not> fw_acks_open f" using assms by (simp_all add: forward_inv_def)
  then show "offer_input x f = (f\<lparr>fw_input_ready := False\<rparr>, False)"
    "offer_ack f = (f\<lparr>fw_ack_expected := False\<rparr>, False)"
    by (simp_all add: offer_input_def offer_ack_def Let_def)
  show "forward_inv (f\<lparr>fw_input_ready := False\<rparr>)" "forward_inv (f\<lparr>fw_ack_expected := False\<rparr>)"
    using assms o by (auto simp: forward_inv_def running_def)
qed

lemma forward_message_cases:
  "forward_message env f = (f, False) \<or> (\<exists>x. forward_message env f = offer_input x f)
   \<or> forward_message env f = offer_ack f"
  unfolding forward_message_def by (simp split: option.split msg.split) blast

lemma forward_message_inv:
  assumes "forward_inv f" and "forward_message env f = (f', b)"
  shows "forward_inv f' \<and> (relay_of f' = relay_of f \<or> relay_step (relay_of f) (relay_of f'))"
proof -
  consider "forward_message env f = (f, False)" | x where "offer_input x f = (f', b)" | "offer_ack f = (f', b)"
    using forward_message_cases [of env f] assms(2) by metis
  then show ?thesis
  proof cases
    case (2 x)
    show ?thesis
    proof (cases "running f")
      case True
      from offer_input_running [OF this assms(1) 2] show ?thesis
        by (auto simp: relay_of_def intro: relay_step.accept split: if_splits)
    qed (use offers_stopped [of f] assms(1) 2 in \<open>auto simp: relay_of_def\<close>)
  next
    case 3
    show ?thesis
    proof (cases "running f")
      case True
      from offer_ack_running [OF this assms(1) 3] show ?thesis by simp
    qed (use offers_stopped [of f] assms(1) 3 in \<open>auto simp: relay_of_def\<close>)
  qed (use assms in auto)
qed

text \<open>Each rule of the task keeps the invariant and refines the relay.\<close>

lemma task_keeps_up:
  assumes "forward_task f f'" and "running f" and "forward_inv f" and "running f'"
  shows "up_inv f' \<and> (relay_of f' = relay_of f \<or> relay_step (relay_of f) (relay_of f'))"
proof -
  have u: "up_inv f" using assms(2,3) by (simp add: forward_inv_running)
  from assms(1) show ?thesis
  proof cases
    case (take_input x q)
    then have "pending f' = pending f" "fw_accepted f' = fw_accepted f" "fw_delivered f' = fw_delivered f"
      using u by (auto simp: pending_def up_inv_def)
    then show ?thesis using u take_input by (auto simp: up_inv_def relay_of_def)
  next
    case (written data)
    have p: "fw_input f = []" "fw_accepted f = fw_delivered f @ [Some data]" "None \<notin> set (fw_delivered f)"
      using u written by (auto simp: up_inv_def pending_def)
    have "up_inv f'" using u written p by (auto simp: up_inv_def pending_def relaying_def)
    moreover have "relay_step (relay_of f) (relay_of f')"
      using p(2) written(1) by (simp add: relay_of_def relay_step.deliver)
    ultimately show ?thesis by simp
  next
    case shut_down
    have p: "fw_input f = []" "fw_accepted f = fw_delivered f @ [None]"
      using u shut_down by (auto simp: up_inv_def pending_def)
    have "up_inv f'" using u shut_down p by (auto simp: up_inv_def pending_def relaying_def)
    moreover have "relay_step (relay_of f) (relay_of f')"
      using p(2) shut_down(1) by (simp add: relay_of_def relay_step.deliver)
    ultimately show ?thesis by simp
  qed (use u assms(4) in \<open>auto simp: up_inv_def pending_def relay_of_def forward_defs\<close>)
qed

lemma task_keeps_down:
  assumes "forward_task f f'" and "down_inv f" and "running f'"
  shows "down_inv f'"
  using assms(1)
proof cases
  case (got_ack eof n)
  then have "n = 0" "\<not> fw_ack_expected f" using assms(2) by (auto simp: down_inv_def split: if_splits)
  then show ?thesis using got_ack assms(2) by (auto simp: down_inv_def)
qed (use assms(2,3) in \<open>auto simp: down_inv_def forward_defs split: if_splits\<close>)

lemma task_stops:
  assumes "forward_task f f'" and "\<not> running f'" and "forward_inv f"
  shows "forward_inv f' \<and> relay_of f' = relay_of f"
  using assms(1)
proof cases
  case failed
  then show ?thesis using forward_fail_inv [OF assms(3)] by simp
next
  case unsolicited
  then show ?thesis using forward_fail_inv [OF assms(3)] by simp
next
  case data_after_eof
  then show ?thesis
    using forward_fail_inv [of "forward_send 0 MTcpForwardAck f"] assms(3) by simp
next
  case joined
  then show ?thesis using forward_end_inv [OF assms(3)] by simp
qed (use assms(2) in \<open>auto simp: forward_defs\<close>)

lemma task_from_running: "forward_task f f' \<Longrightarrow> running f"
  by (cases rule: forward_task.cases) (auto simp: forward_defs)

lemma forward_task_inv:
  assumes "forward_inv f" and "forward_task f f'"
  shows "forward_inv f' \<and> (relay_of f' = relay_of f \<or> relay_step (relay_of f) (relay_of f'))"
proof (cases "running f'")
  case True
  have run: "running f" by (rule task_from_running [OF assms(2)])
  then have "down_inv f" using assms(1) by (simp add: forward_inv_running)
  then show ?thesis
    using task_keeps_up [OF assms(2) run assms(1) True] task_keeps_down [OF assms(2) _ True] True
    by (simp add: forward_inv_running)
qed (use task_stops [OF assms(2)] assms(1) in auto)

lemma forward_step_inv:
  assumes "forward_inv f" and "forward_step f f'"
  shows "forward_inv f' \<and> (relay_of f' = relay_of f \<or> relay_step (relay_of f) (relay_of f'))"
  using assms(2)
proof cases
  case task
  then show ?thesis by (rule forward_task_inv [OF assms(1)])
next
  case (frame env)
  then show ?thesis by (rule forward_message_inv [OF assms(1)])
next
  case (refused env f1)
  show ?thesis
    using forward_message_inv [OF assms(1) refused(2)] refused(1) forward_abort_inv [of f1] by simp
qed

lemma forward_reach_inv: "forward_reach r f \<Longrightarrow> forward_inv f"
  by (induction rule: forward_reach.induct) (auto simp: forward_init_inv dest: forward_step_inv)

section \<open>Progress\<close>

lemma step_write:
  assumes "relaying f" and "fw_up f = UpWrite x"
  shows "\<exists>f'. forward_task f f' \<and> relay_of f' = (fw_accepted f, fw_delivered f @ [x])"
proof (cases x)
  case None
  then show ?thesis using forward_task.shut_down [of f] assms by (auto simp: relay_of_def)
next
  case (Some data)
  then show ?thesis using forward_task.written [of f data] assms by (auto simp: relay_of_def)
qed

lemma step_take:
  assumes "relaying f" and "fw_up f = UpRecv" and "fw_input f = [x]"
  shows "\<exists>f'. forward_task\<^sup>*\<^sup>* f f' \<and> relay_of f' = (fw_accepted f, fw_delivered f @ [x])"
proof -
  let ?f = "f\<lparr>fw_up := UpWrite x, fw_input := []\<rparr>"
  have "forward_task f ?f" using assms by (intro forward_task.take_input) auto
  moreover obtain f' where "forward_task ?f f'" "relay_of f' = (fw_accepted f, fw_delivered f @ [x])"
    using step_write [of ?f x] assms(1) by (auto simp: relaying_def)
  ultimately show ?thesis by (meson converse_rtranclp_into_rtranclp rtranclp.rtrancl_refl)
qed

lemma input_phase:
  assumes "up_inv f" and "fw_input f \<noteq> []"
  shows "\<exists>x. fw_input f = [x] \<and> fw_accepted f = fw_delivered f @ [x] \<and> (fw_up f = UpRecv \<or> fw_up f = UpAck False)"
proof -
  obtain x q where q: "fw_input f = x # q" using assms(2) by (cases "fw_input f") auto
  have w: "fw_up f \<noteq> UpWrite y" "q = []" for y
    using assms(1) q by (auto simp: up_inv_def pending_def split: up_phase.splits)
  then have a: "fw_accepted f = fw_delivered f @ [x]" "fw_input f = [x]"
    using assms(1) q by (auto simp: up_inv_def pending_def split: up_phase.splits)
  then have "None \<notin> set (fw_delivered f)" using assms(1) by (simp add: up_inv_def)
  then have "fw_up f \<noteq> UpAck True" "fw_up f \<noteq> UpDone" using assms(1) by (auto simp: up_inv_def)
  then show ?thesis using a w by (cases "fw_up f") auto
qed

section \<open>Properties\<close>

text \<open>
  (C34) A forward refines a reliable one-slot relay: under any interleaving of the task with the
  frames of the client, every step of the forward is a step of the relay or changes nothing the
  relay sees. Frames reach the socket in the order they were accepted, none twice, at most one is
  accepted and not yet written; and while the task runs and is connected, a data or end-of-file
  frame is accepted exactly when the previous one has been written and no end of file came.
\<close>

theorem forward_refines_relay:
  assumes "forward_reach r f" and "forward_step f f'"
  shows "(relay_of f' = relay_of f \<or> relay_step (relay_of f) (relay_of f'))
         \<and> prefix (fw_delivered f') (fw_accepted f')
         \<and> length (fw_accepted f') \<le> length (fw_delivered f') + 1
         \<and> fw_socket f' = relay_bytes (fw_delivered f')
         \<and> (if running f'
            then snd (offer_input x f') \<longleftrightarrow>
                   fw_task f' \<noteq> TaskConnecting \<and> fw_delivered f' = fw_accepted f' \<and> None \<notin> set (fw_accepted f')
            else \<not> snd (offer_input x f'))"
proof -
  have f': "forward_inv f'" "relay_of f' = relay_of f \<or> relay_step (relay_of f) (relay_of f')"
    using forward_step_inv [OF forward_reach_inv [OF assms(1)] assms(2)] by auto
  obtain f1 b where o: "offer_input x f' = (f1, b)" by fastforce
  have "b = fw_input_ready f'" if "running f'" using offer_input_running [OF that f'(1) o] by simp
  moreover have "fw_input_ready f' \<longleftrightarrow>
      fw_task f' \<noteq> TaskConnecting \<and> fw_delivered f' = fw_accepted f' \<and> None \<notin> set (fw_accepted f')" if "running f'"
  proof -
    have "up_inv f'" using f'(1) that by (simp add: forward_inv_running)
    then show ?thesis by (auto simp: up_inv_def)
  qed
  moreover have "\<not> b" if "\<not> running f'" using offers_stopped(1) [OF that f'(1)] o by simp
  ultimately show ?thesis using f' o by (simp add: forward_inv_def)
qed

definition demo_connected :: forward_state where
  "demo_connected = (forward_spawn 1)\<lparr>fw_input_ready := True, fw_task := TaskOpening [] 80\<rparr>"

definition demo_frame :: envelope where
  "demo_frame = respond 0 (MTcpForwardData [1, 2])"

definition demo_accepted :: forward_state where
  "demo_accepted = demo_connected\<lparr>fw_input_ready := False, fw_input := [Some [1, 2]], fw_accepted := [Some [1, 2]]\<rparr>"

lemma demo_connected_reach: "forward_reach 1 demo_connected"
  unfolding demo_connected_def
  by (rule forward_reach.step [OF forward_reach.start forward_step.task [OF forward_task.connected]])
    (simp add: forward_spawn_def)

lemma demo_accepted_step: "forward_step demo_connected demo_accepted"
  by (rule forward_step.frame [of demo_frame])
    (simp add: demo_frame_def forward_message_def offer_input_def demo_connected_def demo_accepted_def
      forward_spawn_def FORWARD_DATA_BYTES_MAX_def respond_def)

theorem forward_refines_relay_witness:
  "relay_step (relay_of demo_connected) (relay_of demo_accepted) \<and> \<not> snd (offer_input None demo_accepted)"
  using forward_refines_relay [OF demo_connected_reach demo_accepted_step, of None]
  by (simp add: relay_of_def demo_accepted_def demo_connected_def forward_spawn_def running_def)

text \<open>
  Accepted data is always deliverable: in every reachable state of a relaying forward the
  task can, by its own steps alone and whatever the client does not send, write every frame that
  was accepted; it is never stuck waiting for a frame or an acknowledgement of the client.
\<close>

theorem forward_progress:
  assumes "forward_reach r f" and "fw_task f = TaskRelaying"
  shows "\<exists>f'. forward_task\<^sup>*\<^sup>* f f' \<and> fw_accepted f' = fw_accepted f \<and> fw_delivered f' = fw_accepted f"
proof -
  have r: "relaying f" and u: "up_inv f"
    using forward_reach_inv [OF assms(1)] assms(2) by (auto simp: relaying_def forward_inv_def running_def)
  consider "pending f = []" | x where "fw_up f = UpWrite x" | "fw_input f \<noteq> []"
    by (cases "fw_up f"; cases "fw_input f") (auto simp: pending_def)
  then show ?thesis
  proof cases
    case 1
    then show ?thesis using u by (intro exI [of _ f]) (simp add: up_inv_def)
  next
    case (2 x)
    then have "fw_accepted f = fw_delivered f @ [x]" using u by (auto simp: up_inv_def pending_def)
    then show ?thesis using step_write [OF r 2] by (auto simp: relay_of_def)
  next
    case 3
    then obtain x where x: "fw_input f = [x]" "fw_accepted f = fw_delivered f @ [x]"
      "fw_up f = UpRecv \<or> fw_up f = UpAck False" using input_phase [OF u] by auto
    from x(3) show ?thesis
    proof
      assume "fw_up f = UpRecv"
      then show ?thesis using step_take [OF r _ x(1)] x(2) by (auto simp: relay_of_def)
    next
      assume a: "fw_up f = UpAck False"
      let ?f = "(forward_send 0 MTcpForwardAck f)\<lparr>fw_up := UpRecv\<rparr>"
      have "forward_task f ?f" by (rule forward_task.acked [OF r a])
      moreover obtain f' where "forward_task\<^sup>*\<^sup>* ?f f'" "relay_of f' = (fw_accepted f, fw_delivered f @ [x])"
        using step_take [of ?f x] r x(1) by (auto simp: relaying_def forward_send_def)
      ultimately show ?thesis using x(2) by (auto simp: relay_of_def intro: converse_rtranclp_into_rtranclp)
    qed
  qed
qed

definition demo_relaying :: forward_state where
  "demo_relaying = (forward_send 1 (MTcpForwardOpened [] 80) demo_accepted)\<lparr>fw_task := TaskRelaying\<rparr>"

lemma demo_relaying_reach:
  "forward_reach 1 demo_relaying"
proof -
  have "forward_task demo_accepted
      ((forward_send (fw_request_id demo_accepted) (MTcpForwardOpened [] 80) demo_accepted)\<lparr>fw_task := TaskRelaying\<rparr>)"
    by (rule forward_task.opened) (simp add: demo_accepted_def demo_connected_def)
  then show ?thesis
    using forward_reach.step [OF forward_reach.step [OF demo_connected_reach demo_accepted_step] forward_step.task]
    by (simp add: demo_relaying_def demo_accepted_def demo_connected_def forward_spawn_def)
qed

theorem forward_progress_witness:
  "\<exists>f'. forward_task\<^sup>*\<^sup>* demo_relaying f'
        \<and> fw_delivered f' = [Some [1, 2]]"
  using forward_progress [OF demo_relaying_reach] by (auto simp: demo_relaying_def forward_send_def demo_accepted_def)

text \<open>
  The task's own protocol checks never fire: the flags of the binding already exclude a frame
  after the end of file and an acknowledgement that was not asked for, at every reachable point.
\<close>

theorem forward_checks_redundant:
  assumes "forward_reach r f" and "fw_task f = TaskRelaying"
  shows "\<not> (fw_up f = UpAck True \<and> fw_input f \<noteq> []) \<and> \<not> (fw_down f = DnRead \<and> 0 < fw_acks f)"
proof -
  have u: "up_inv f" "down_inv f"
    using forward_reach_inv [OF assms(1)] assms(2) by (auto simp: forward_inv_def running_def)
  have "fw_up f \<noteq> UpAck True" if "fw_input f \<noteq> []" using input_phase [OF u(1) that] by auto
  then show ?thesis using u(2) by (simp add: down_inv_def) blast
qed

theorem forward_checks_redundant_witness:
  "\<not> (fw_up demo_relaying = UpAck True \<and> fw_input demo_relaying \<noteq> [])
   \<and> \<not> (fw_down demo_relaying = DnRead \<and> 0 < fw_acks demo_relaying)"
  using forward_checks_redundant [OF demo_relaying_reach]
  by (simp add: demo_relaying_def forward_send_def)

end
