(* ===== verification/Spawner_Client.thy ===== *)
theory Spawner_Client
  imports Session Transfer_Wire
begin

text \<open>
  The daemon's side of the spawner protocol, \<open>crates/spawner/src/lib.rs\<close>: one JSON message per
  datagram, requests, the handle on a remote upload and the handle on a remote shell. The JSON
  package is a pair of functions, and the answers of \<open>connect\<close>, \<open>sendmsg\<close> and \<open>recvmsg\<close> are
  arguments; texts of errors of the system are parameters of the answers.
\<close>

section \<open>Messages\<close>

definition MAX_MESSAGE_BYTES :: nat where "MAX_MESSAGE_BYTES = 64 * 1024"
definition SPAWNER_UPLOAD_CHUNK_BYTES_MAX :: nat where "SPAWNER_UPLOAD_CHUNK_BYTES_MAX = 8 * 1024"
definition LOST_SPAWNER_EXIT_CODE :: u32 where "LOST_SPAWNER_EXIT_CODE = 255"

record wire_limits =
  wl_max_processes :: u64
  wl_max_open_files :: u64
  wl_max_core_bytes :: u64

definition wire_limits_of :: "shell_resource_limits \<Rightarrow> wire_limits" where
  "wire_limits_of l =
     \<lparr>wl_max_processes = max_processes l, wl_max_open_files = max_open_files l, wl_max_core_bytes = max_core_bytes l\<rparr>"

definition limits_of_wire :: "wire_limits \<Rightarrow> shell_resource_limits" where
  "limits_of_wire l =
     \<lparr>max_processes = wl_max_processes l, max_open_files = wl_max_open_files l, max_core_bytes = wl_max_core_bytes l\<rparr>"

record receive_upload_request =
  ur_account :: rstring
  ur_original_name :: rstring
  ur_total_bytes :: u64
  ur_sha256 :: bytes
  ur_maximum_chunk_bytes :: u32

datatype initial_request = SpawnShell spawn_request | ReceiveUpload receive_upload_request

datatype spawn_reply = Spawned u32 | SpawnReplyError rstring bool

datatype daemon_msg = Kill

datatype spawner_msg = SpawnerExited bool u32

datatype upload_daemon_msg =
    UdChunk bytes u64 bytes
  | UdFinish bytes
  | UdAbort bytes

datatype upload_reply =
    UrReady bytes u32
  | UrFinished bytes rstring u64 bytes
  | UrError rstring bool

section \<open>Datagrams\<close>

text \<open>
  The encoder may fail with a text; \<open>sendmsg\<close> answers with an error text or success. The result
  carries the datagram that went out, if any.
\<close>

definition send_message ::
  "('m \<Rightarrow> rstring + bytes) \<Rightarrow> (bytes \<Rightarrow> rstring option) \<Rightarrow> 'm \<Rightarrow> spawn_error + unit" where
  "send_message enc sendmsg m =
     (case enc m of
        Inl e \<Rightarrow> Err (SpawnProtocol (lit ''encode: '' @ e))
      | Inr bs \<Rightarrow>
          if length bs > MAX_MESSAGE_BYTES then
            Err (SpawnProtocol (lit ''message of '' @ show_nat (length bs) @ lit '' bytes exceeds the ''
                   @ show_nat MAX_MESSAGE_BYTES @ lit ''-byte limit''))
          else (case sendmsg bs of
                  Some e \<Rightarrow> Err (SpawnProtocol (lit ''sendmsg: '' @ e))
                | None \<Rightarrow> Ok ()))"

datatype recv_error = Again | RecvError rstring

text \<open>
  One \<open>recvmsg\<close>: an error, or the bytes with the descriptors that came along. Descriptors
  after the first are closed.
\<close>

type_synonym 'fd recvmsg = "recv_error + bytes \<times> 'fd list"

definition recv_raw :: "'fd recvmsg \<Rightarrow> recv_error + (bytes \<times> 'fd option) option" where
  "recv_raw answer =
     (case answer of
        Inl e \<Rightarrow> Err e
      | Inr (bs, fds) \<Rightarrow>
          if bs = [] then Ok None
          else Ok (Some (bs, (case fds of [] \<Rightarrow> None | fd # _ \<Rightarrow> Some fd))))"

definition recv_text :: "recv_error \<Rightarrow> rstring" where
  "recv_text e = (case e of Again \<Rightarrow> lit ''EAGAIN'' | RecvError t \<Rightarrow> t)"

definition recv_message ::
  "(bytes \<Rightarrow> rstring + 'm) \<Rightarrow> 'fd recvmsg \<Rightarrow> spawn_error + ('m \<times> 'fd option) option" where
  "recv_message dec answer =
     (case recv_raw answer of
        Inr None \<Rightarrow> Ok None
      | Inr (Some (bs, fd)) \<Rightarrow>
          (case dec bs of
             Inl e \<Rightarrow> Err (SpawnProtocol (lit ''decode: '' @ e))
           | Inr m \<Rightarrow> Ok (Some (m, fd)))
      | Inl e \<Rightarrow> Err (SpawnProtocol (lit ''recvmsg: '' @ recv_text e)))"

datatype peer_state = PeerOpen | PeerClosed

definition recv_message_nonblocking ::
  "(bytes \<Rightarrow> rstring + 'm) \<Rightarrow> 'fd recvmsg \<Rightarrow> spawn_error + peer_state \<times> 'm option" where
  "recv_message_nonblocking dec answer =
     (case recv_raw answer of
        Inr None \<Rightarrow> Ok (PeerClosed, None)
      | Inr (Some (bs, _)) \<Rightarrow>
          (case dec bs of
             Inl e \<Rightarrow> Err (SpawnProtocol (lit ''decode: '' @ e))
           | Inr m \<Rightarrow> Ok (PeerOpen, Some m))
      | Inl Again \<Rightarrow> Ok (PeerOpen, None)
      | Inl (RecvError e) \<Rightarrow> Err (SpawnProtocol (lit ''recvmsg: '' @ e)))"

section \<open>Requests\<close>

text \<open>\<open>connect_spawner\<close>: the three calls that can fail report the same error.\<close>

definition connect_spawner :: "rstring \<Rightarrow> rstring option \<Rightarrow> spawn_error + unit" where
  "connect_spawner path answer = (case answer of Some e \<Rightarrow> Err (SpawnConnect path e) | None \<Rightarrow> Ok ())"

record remote_shell =
  rs_pid :: u32
  rs_exit :: "exit_summary option"

text \<open>What the system and the JSON package answer to one request.\<close>

record ('m, 'r, 'fd) exchange =
  ex_connect :: "rstring option"
  ex_encode :: "'m \<Rightarrow> rstring + bytes"
  ex_sendmsg :: "bytes \<Rightarrow> rstring option"
  ex_recvmsg :: "'fd recvmsg"
  ex_decode :: "bytes \<Rightarrow> rstring + 'r"

definition exchange_once ::
  "rstring \<Rightarrow> ('m, 'r, 'fd) exchange \<Rightarrow> 'm \<Rightarrow> rstring \<Rightarrow> spawn_error + 'r \<times> 'fd option" where
  "exchange_once path x m closed =
     (case connect_spawner path (ex_connect x) of
        Inl e \<Rightarrow> Err e
      | Inr _ \<Rightarrow>
          (case send_message (ex_encode x) (ex_sendmsg x) m of
             Inl e \<Rightarrow> Err e
           | Inr _ \<Rightarrow>
               (case recv_message (ex_decode x) (ex_recvmsg x) of
                  Inl e \<Rightarrow> Err e
                | Inr None \<Rightarrow> Err (SpawnProtocol closed)
                | Inr (Some r) \<Rightarrow> Ok r)))"

definition spawn_shell ::
  "rstring \<Rightarrow> (initial_request, spawn_reply, 'fd) exchange \<Rightarrow> spawn_request \<Rightarrow> spawn_error + 'fd \<times> remote_shell" where
  "spawn_shell path x req =
     (case exchange_once path x (SpawnShell req) (lit ''spawner closed before replying'') of
        Inl e \<Rightarrow> Err e
      | Inr (reply, fd) \<Rightarrow>
          (case reply of
             Spawned pid \<Rightarrow>
               (case fd of
                  None \<Rightarrow> Err (SpawnProtocol (lit ''spawner reported success without a PTY fd''))
                | Some master \<Rightarrow> Ok (master, \<lparr>rs_pid = pid, rs_exit = None\<rparr>))
           | SpawnReplyError message forbidden \<Rightarrow>
               if forbidden then Err (SpawnForbidden message) else Err (SpawnSpawner message)))"

record remote_upload =
  ru_open :: bool
  ru_upload_id :: bytes
  ru_maximum_chunk_bytes :: u32
  ru_next_offset :: u64

definition spawner_begin_upload ::
  "rstring \<Rightarrow> (initial_request, upload_reply, 'fd) exchange \<Rightarrow> receive_upload_request \<Rightarrow> spawn_error + remote_upload" where
  "spawner_begin_upload path x request =
     (case exchange_once path x (ReceiveUpload request) (lit ''spawner closed before upload reply'') of
        Inl e \<Rightarrow> Err e
      | Inr (reply, fd) \<Rightarrow>
          if fd \<noteq> None then Err (SpawnProtocol (lit ''upload reply unexpectedly carried a descriptor''))
          else
            (case reply of
               UrReady upload_id maximum_chunk_bytes \<Rightarrow>
                 Ok \<lparr>ru_open = True, ru_upload_id = upload_id, ru_maximum_chunk_bytes = maximum_chunk_bytes,
                     ru_next_offset = 0\<rparr>
             | UrError message forbidden \<Rightarrow>
                 if forbidden then Err (SpawnForbidden message) else Err (SpawnSpawner message)
             | UrFinished _ _ _ _ \<Rightarrow>
                 Err (SpawnProtocol (lit ''spawner finished an upload before receiving bytes''))))"

section \<open>A remote upload\<close>

text \<open>
  The operations return the new handle and the messages handed to the socket. The offset
  advances after the send; an overflow is an error after the chunk was sent.
\<close>

definition remote_write_chunk ::
  "(upload_daemon_msg \<Rightarrow> rstring + bytes) \<Rightarrow> (bytes \<Rightarrow> rstring option) \<Rightarrow> bytes \<Rightarrow> remote_upload
     \<Rightarrow> remote_upload \<times> upload_daemon_msg list \<times> (spawn_error + unit)" where
  "remote_write_chunk enc sendmsg data u =
     (let maximum = unat (ru_maximum_chunk_bytes u) in
      if data = [] \<or> length data > maximum \<or> length data > SPAWNER_UPLOAD_CHUNK_BYTES_MAX then
        (u, [], Err (SpawnProtocol (lit ''upload chunk of '' @ show_nat (length data) @ lit '' bytes is outside 1..=''
                       @ show_nat maximum)))
      else if \<not> ru_open u then (u, [], Err (SpawnProtocol (lit ''upload is already closed'')))
      else
        (let m = UdChunk (ru_upload_id u) (ru_next_offset u) data in
         case send_message enc sendmsg m of
           Inl e \<Rightarrow> (u, [], Err e)
         | Inr _ \<Rightarrow>
             (case checked_add_u64 (ru_next_offset u) (length data) of
                None \<Rightarrow> (u, [m], Err (SpawnProtocol (lit ''upload offset overflow'')))
              | Some off \<Rightarrow> (u\<lparr>ru_next_offset := off\<rparr>, [m], Ok ()))))"

definition write_wire_chunk ::
  "(upload_daemon_msg \<Rightarrow> rstring + bytes) \<Rightarrow> (bytes \<Rightarrow> rstring option) \<Rightarrow> upload_chunk \<Rightarrow> remote_upload
     \<Rightarrow> remote_upload \<times> upload_daemon_msg list \<times> (spawn_error + unit)" where
  "write_wire_chunk enc sendmsg c u =
     (if uc_upload_id c \<noteq> ru_upload_id u then
        (u, [], Err (SpawnProtocol (lit ''upload chunk carried the wrong id'')))
      else if uc_offset c \<noteq> ru_next_offset u then
        (u, [], Err (SpawnProtocol (lit ''upload chunk offset '' @ show_nat (unat (uc_offset c))
                       @ lit '' does not match '' @ show_nat (unat (ru_next_offset u)))))
      else remote_write_chunk enc sendmsg (uc_data c) u)"

definition remote_finish ::
  "(upload_daemon_msg \<Rightarrow> rstring + bytes) \<Rightarrow> (bytes \<Rightarrow> rstring option) \<Rightarrow> 'fd recvmsg
     \<Rightarrow> (bytes \<Rightarrow> rstring + upload_reply) \<Rightarrow> remote_upload \<Rightarrow> spawn_error + upload_reply" where
  "remote_finish enc sendmsg recvmsg dec u =
     (if \<not> ru_open u then Err (SpawnProtocol (lit ''upload is already closed''))
      else
        (case send_message enc sendmsg (UdFinish (ru_upload_id u)) of
           Inl e \<Rightarrow> Err e
         | Inr _ \<Rightarrow>
             (case recv_message dec recvmsg of
                Inl e \<Rightarrow> Err e
              | Inr None \<Rightarrow> Err (SpawnProtocol (lit ''spawner closed before commit reply''))
              | Inr (Some (reply, fd)) \<Rightarrow>
                  if fd \<noteq> None then Err (SpawnProtocol (lit ''upload commit unexpectedly carried a descriptor''))
                  else
                    (case reply of
                       UrFinished _ _ _ _ \<Rightarrow> Ok reply
                     | UrError message forbidden \<Rightarrow>
                         if forbidden then Err (SpawnForbidden message) else Err (SpawnSpawner message)
                     | UrReady _ _ \<Rightarrow> Err (SpawnProtocol (lit ''spawner sent a second ready response''))))))"

text \<open>\<open>abort\<close> and the drop: one abort message while the socket is open; the result is ignored.\<close>

definition remote_abort :: "remote_upload \<Rightarrow> remote_upload \<times> upload_daemon_msg list" where
  "remote_abort u =
     (if ru_open u then (u\<lparr>ru_open := False\<rparr>, [UdAbort (ru_upload_id u)]) else (u, []))"

section \<open>A remote shell\<close>

definition remote_lost :: "remote_shell \<Rightarrow> remote_shell \<times> exit_summary" where
  "remote_lost s =
     (let summary = \<lparr>success = False, exit_code = LOST_SPAWNER_EXIT_CODE\<rparr> in (s\<lparr>rs_exit := Some summary\<rparr>, summary))"

definition remote_record :: "spawner_msg \<Rightarrow> remote_shell \<Rightarrow> remote_shell \<times> exit_summary" where
  "remote_record m s =
     (case m of SpawnerExited ok code \<Rightarrow>
        (let summary = \<lparr>success = ok, exit_code = code\<rparr> in (s\<lparr>rs_exit := Some summary\<rparr>, summary)))"

definition remote_try_wait ::
  "(bytes \<Rightarrow> rstring + spawner_msg) \<Rightarrow> 'fd recvmsg \<Rightarrow> remote_shell
     \<Rightarrow> remote_shell \<times> (pty_error + exit_summary option)" where
  "remote_try_wait dec answer s =
     (case rs_exit s of
        Some x \<Rightarrow> (s, Ok (Some x))
      | None \<Rightarrow>
          (case recv_message_nonblocking dec answer of
             Inr (PeerClosed, _) \<Rightarrow> map_prod id (\<lambda>x. Ok (Some x)) (remote_lost s)
           | Inr (PeerOpen, Some m) \<Rightarrow> map_prod id (\<lambda>x. Ok (Some x)) (remote_record m s)
           | Inr (PeerOpen, None) \<Rightarrow> (s, Ok None)
           | Inl e \<Rightarrow> (s, Err (PtySpawn (spawn_error_string e)))))"

definition remote_wait ::
  "(bytes \<Rightarrow> rstring + spawner_msg) \<Rightarrow> 'fd recvmsg \<Rightarrow> remote_shell \<Rightarrow> remote_shell \<times> (pty_error + exit_summary)" where
  "remote_wait dec answer s =
     (case rs_exit s of
        Some x \<Rightarrow> (s, Ok x)
      | None \<Rightarrow>
          (case recv_message dec answer of
             Inr (Some (m, _)) \<Rightarrow> map_prod id Ok (remote_record m s)
           | Inr None \<Rightarrow> map_prod id Ok (remote_lost s)
           | Inl e \<Rightarrow> (s, Err (PtySpawn (spawn_error_string e)))))"

text \<open>\<open>kill\<close>: whether a kill message was handed to the socket, and the result.\<close>

definition remote_kill :: "remote_shell \<Rightarrow> bool \<times> (pty_error + unit)" where
  "remote_kill s = (rs_exit s = None, Ok ())"

section \<open>Runs of a remote upload\<close>

text \<open>Wire chunks in order until one is refused, with the messages sent.\<close>

fun remote_run ::
  "(upload_daemon_msg \<Rightarrow> rstring + bytes) \<Rightarrow> (bytes \<Rightarrow> rstring option) \<Rightarrow> upload_chunk list \<Rightarrow> remote_upload
     \<Rightarrow> remote_upload \<times> upload_daemon_msg list \<times> (spawn_error + unit)" where
  "remote_run enc sendmsg [] u = (u, [], Ok ())"
| "remote_run enc sendmsg (c # cs) u =
     (case write_wire_chunk enc sendmsg c u of
        (u', ms, Inl e) \<Rightarrow> (u', ms, Err e)
      | (u', ms, Inr _) \<Rightarrow>
          (case remote_run enc sendmsg cs u' of (u'', ms', r) \<Rightarrow> (u'', ms @ ms', r)))"

text \<open>The check the helper makes of each chunk it receives, from a given offset on.\<close>

fun helper_accepts :: "bytes \<Rightarrow> u32 \<Rightarrow> u64 \<Rightarrow> u64 \<Rightarrow> upload_daemon_msg list \<Rightarrow> bool" where
  "helper_accepts i mx tot off [] = True"
| "helper_accepts i mx tot off (UdChunk i' o' d # ms) =
     (validate_chunk \<lparr>uc_upload_id = i', uc_offset = o', uc_data = d\<rparr> i off mx tot = Ok ()
      \<and> helper_accepts i mx tot (off + of_nat (length d)) ms)"
| "helper_accepts i mx tot off (_ # ms) = False"

definition sent_bytes :: "upload_daemon_msg list \<Rightarrow> nat" where
  "sent_bytes ms = sum_list (map (\<lambda>m. case m of UdChunk _ _ d \<Rightarrow> length d | _ \<Rightarrow> 0) ms)"

lemma sent_bytes_simps [simp]:
  "sent_bytes [] = 0" "sent_bytes (UdChunk i off d # ms) = length d + sent_bytes ms"
  "sent_bytes (ms @ ms') = sent_bytes ms + sent_bytes ms'"
  by (simp_all add: sent_bytes_def)

lemma write_wire_chunk_sent:
  assumes "write_wire_chunk enc smsg c u = (u', ms, r)"
  shows "(ms = [] \<and> u' = u \<and> \<not> is_ok r)
    \<or> (ms = [UdChunk (ru_upload_id u) (ru_next_offset u) (uc_data c)]
       \<and> uc_data c \<noteq> [] \<and> length (uc_data c) \<le> unat (ru_maximum_chunk_bytes u) \<and> length (uc_data c) \<le> 8192
       \<and> (if unat (ru_next_offset u) + length (uc_data c) < 2 ^ 64
          then r = Ok () \<and> u' = u\<lparr>ru_next_offset := ru_next_offset u + of_nat (length (uc_data c))\<rparr>
          else \<not> is_ok r \<and> u' = u))"
  using assms
  by (cases "send_message enc smsg (UdChunk (ru_upload_id u) (ru_next_offset u) (uc_data c))")
    (auto simp: write_wire_chunk_def remote_write_chunk_def Let_def SPAWNER_UPLOAD_CHUNK_BYTES_MAX_def
      checked_add_u64_def is_ok_def split: if_splits option.splits sum.splits)

lemma remote_run_accepted:
  assumes "length (ru_upload_id u) = 16" and "remote_run enc smsg cs u = (u', ms, r)"
    and "unat (ru_next_offset u) + sent_bytes ms \<le> unat tot"
  shows "helper_accepts (ru_upload_id u) (ru_maximum_chunk_bytes u) tot (ru_next_offset u) ms"
  using assms
proof (induction cs arbitrary: u ms)
  case (Cons c cs)
  obtain u1 ms1 r1 where w: "write_wire_chunk enc smsg c u = (u1, ms1, r1)" by (metis prod_cases3)
  have tot: "unat tot < 2 ^ 64" using unsigned_less [of tot, where 'a = nat] by simp
  from write_wire_chunk_sent [OF w] show ?case
  proof (elim disjE conjE)
    assume "ms1 = []" "u1 = u" "\<not> is_ok r1"
    then show ?case using Cons.prems(2) w by (cases r1) auto
  next
    assume m: "ms1 = [UdChunk (ru_upload_id u) (ru_next_offset u) (uc_data c)]" "uc_data c \<noteq> []"
      "length (uc_data c) \<le> unat (ru_maximum_chunk_bytes u)" "length (uc_data c) \<le> 8192"
      "if unat (ru_next_offset u) + length (uc_data c) < 2 ^ 64
       then r1 = Ok () \<and> u1 = u\<lparr>ru_next_offset := ru_next_offset u + of_nat (length (uc_data c))\<rparr>
       else \<not> is_ok r1 \<and> u1 = u"
    obtain ms2 where ms: "ms = ms1 @ ms2" "r1 = Ok () \<Longrightarrow> remote_run enc smsg cs u1 = (u', ms2, r)" "is_ok r1 \<or> ms2 = []"
      using Cons.prems(2) w by (cases r1; cases "remote_run enc smsg cs u1") auto
    have fits: "unat (ru_next_offset u) + length (uc_data c) \<le> unat tot"
      using Cons.prems(3) ms(1) m(1) by simp
    then have ok: "r1 = Ok ()" "u1 = u\<lparr>ru_next_offset := ru_next_offset u + of_nat (length (uc_data c))\<rparr>"
      using m(5) tot by (auto split: if_splits)
    have off: "unat (ru_next_offset u1) = unat (ru_next_offset u) + length (uc_data c)"
      using ok fits tot by (simp add: unat_word_ariths unat_of_nat)
    have "helper_accepts (ru_upload_id u1) (ru_maximum_chunk_bytes u1) tot (ru_next_offset u1) ms2"
      using Cons.IH [of u1 ms2] Cons.prems ms ok off m(1) by simp
    then show ?case
      using m ms(1) ok Cons.prems(1) fits by (simp add: validate_chunk_ok UPLOAD_CHUNK_BYTES_MAX_def)
  qed
qed simp

section \<open>Properties\<close>

text \<open>
  Daemon and helper agree on an upload: whatever chunks a client sends and however the run
  ends, every chunk message the daemon forwards to the helper passes the helper's own validation
  at the position the helper has reached (same identifier, next offset, nonempty, within the
  announced chunk size), as long as no more than the declared total was sent.
\<close>

theorem remote_upload_in_order:
  assumes "length i = 16"
    and "remote_run enc smsg cs \<lparr>ru_open = True, ru_upload_id = i, ru_maximum_chunk_bytes = mx, ru_next_offset = 0\<rparr>
           = (u, ms, r)"
    and "sent_bytes ms \<le> unat tot"
  shows "helper_accepts i mx tot 0 ms"
  using remote_run_accepted [OF _ assms(2), of tot] assms(1,3) by simp

theorem remote_upload_in_order_witness:
  "helper_accepts (replicate 16 1) 4 3 0
     [UdChunk (replicate 16 1) 0 [7, 8], UdChunk (replicate 16 1) 2 [9]]"
proof -
  let ?c = "\<lambda>off d. \<lparr>uc_upload_id = replicate 16 1, uc_offset = off, uc_data = d\<rparr>"
  have "remote_run (\<lambda>m. Ok [1]) (\<lambda>b. None) [?c 0 [7, 8], ?c 2 [9]]
      \<lparr>ru_open = True, ru_upload_id = replicate 16 1, ru_maximum_chunk_bytes = 4, ru_next_offset = 0\<rparr>
    = (\<lparr>ru_open = True, ru_upload_id = replicate 16 1, ru_maximum_chunk_bytes = 4, ru_next_offset = 3\<rparr>,
       [UdChunk (replicate 16 1) 0 [7, 8], UdChunk (replicate 16 1) 2 [9]], Ok ())"
    by (simp add: write_wire_chunk_def remote_write_chunk_def send_message_def checked_add_u64_def
        SPAWNER_UPLOAD_CHUNK_BYTES_MAX_def MAX_MESSAGE_BYTES_def)
  from remote_upload_in_order [OF _ this, of 3] show ?thesis by simp
qed

text \<open>
  The daemon never waits on a dead helper: a blocking wait whose peer has closed returns the
  sentinel exit; a wait or poll that saw an exit returns that same exit ever after, whatever the
  socket does; killing is always accepted and is silent once the exit is known; and the limits
  sent over the wire are the configured ones.
\<close>

theorem remote_exit_sticky:
  "(case remote_wait dec (Ok ([], fds)) s of
      (s', r) \<Rightarrow> r = Ok (case rs_exit s of Some x \<Rightarrow> x | None \<Rightarrow> \<lparr>success = False, exit_code = 255\<rparr>))
   \<and> (case remote_wait dec answer s of
        (s', Inr x) \<Rightarrow> rs_exit s' = Some x \<and> remote_wait dec' answer' s' = (s', Ok x)
                       \<and> remote_try_wait dec' answer' s' = (s', Ok (Some x)) \<and> remote_kill s' = (False, Ok ())
      | (s', Inl e) \<Rightarrow> s' = s)
   \<and> (case remote_try_wait dec answer s of
        (s', Inr (Some x)) \<Rightarrow> rs_exit s' = Some x \<and> remote_wait dec' answer' s' = (s', Ok x)
      | (s', _) \<Rightarrow> s' = s)
   \<and> snd (remote_kill s) = Ok ()
   \<and> limits_of_wire (wire_limits_of limits) = limits"
proof (intro conjI)
  show "case remote_wait dec (Ok ([], fds)) s of
      (s', r) \<Rightarrow> r = Ok (case rs_exit s of Some x \<Rightarrow> x | None \<Rightarrow> \<lparr>success = False, exit_code = 255\<rparr>)"
    by (simp add: remote_wait_def recv_message_def recv_raw_def remote_lost_def LOST_SPAWNER_EXIT_CODE_def
        Let_def split: option.splits)
  show "case remote_wait dec answer s of
        (s', Inr x) \<Rightarrow> rs_exit s' = Some x \<and> remote_wait dec' answer' s' = (s', Ok x)
                       \<and> remote_try_wait dec' answer' s' = (s', Ok (Some x)) \<and> remote_kill s' = (False, Ok ())
      | (s', Inl e) \<Rightarrow> s' = s"
    by (auto simp: remote_wait_def remote_try_wait_def remote_lost_def remote_record_def remote_kill_def Let_def
        split: option.splits sum.splits spawner_msg.splits prod.splits)
  show "case remote_try_wait dec answer s of
        (s', Inr (Some x)) \<Rightarrow> rs_exit s' = Some x \<and> remote_wait dec' answer' s' = (s', Ok x)
      | (s', _) \<Rightarrow> s' = s"
  proof (cases "rs_exit s")
    case None
    then show ?thesis
    proof (cases "recv_message_nonblocking dec answer")
      case (Inr p)
      obtain st m where p: "p = (st, m)" by fastforce
      show ?thesis using None Inr p
        by (cases st; cases m)
          (auto simp: remote_wait_def remote_try_wait_def remote_lost_def remote_record_def Let_def
            split: spawner_msg.split)
    qed (simp add: remote_try_wait_def)
  qed (simp add: remote_try_wait_def remote_wait_def)
  show "snd (remote_kill s) = Ok ()" by (simp add: remote_kill_def)
  show "limits_of_wire (wire_limits_of limits) = limits" by (simp add: limits_of_wire_def wire_limits_of_def)
qed

end
