(* ===== verification/Spawner_Helper.thy ===== *)
theory Spawner_Helper
  imports Spawner_Client Upload_Store
begin

text \<open>
  The privileged helper, \<open>crates/spawner/src/bin/holdfast-spawner.rs\<close>: one process per connection
  that launches one shell or receives one upload for an account, after checks of its own. A run
  is the list of its effects in order; what the system, the JSON package and the daemon on the
  other side of the socket answer is the record \<open>helper_answers\<close>. The set-up of the child between
  fork and exec (session, controlling terminal, standard descriptors) is the operating system's
  part of \<open>hx_spawn\<close>. The texts of errors that other code formats are parameters: they are shown,
  never read.
\<close>

section \<open>Configuration\<close>

record helper_config =
  hc_allowed_accounts :: "rstring list"
  hc_upload_root :: "rstring option"
  hc_upload_max_bytes :: u64
  hc_peer_uid :: "u32 option"

definition helper_config_default :: helper_config where
  "helper_config_default =
     \<lparr>hc_allowed_accounts = [], hc_upload_root = None, hc_upload_max_bytes = UPLOAD_FILE_BYTES_DEFAULT,
      hc_peer_uid = None\<rparr>"

text \<open>The texts: \<open>{:?}\<close> of a string, and the errors of the store.\<close>

record helper_texts =
  ht_debug :: "rstring \<Rightarrow> rstring"
  ht_store :: "store_error \<Rightarrow> rstring"

definition unknown_argument :: "rstring \<Rightarrow> rstring" where
  "unknown_argument a =
     lit ''unknown argument: '' @ a
     @ lit '' (supported: --allow-account <name>, --peer-user <name>, --peer-uid <uid>, --upload-root <path>, --upload-max-bytes <bytes>)''"

fun parse_loop :: "helper_texts \<Rightarrow> host \<Rightarrow> helper_config \<Rightarrow> rstring list \<Rightarrow> rstring + helper_config" where
  "parse_loop T h c [] =
     (if hc_allowed_accounts c = [] then Err (lit ''at least one --allow-account is required'') else Ok c)"
| "parse_loop T h c [arg] =
     (if arg = lit ''--allow-account'' then Err (lit ''--allow-account needs an account name'')
      else if arg = lit ''--peer-user'' then Err (lit ''--peer-user needs a username'')
      else if arg = lit ''--peer-uid'' then Err (lit ''--peer-uid needs a uid'')
      else if arg = lit ''--upload-root'' then Err (lit ''--upload-root needs an absolute path'')
      else if arg = lit ''--upload-max-bytes'' then Err (lit ''--upload-max-bytes needs a byte count'')
      else Err (unknown_argument arg))"
| "parse_loop T h c (arg # v # rest) =
     (if arg = lit ''--allow-account'' then
        parse_loop T h (c\<lparr>hc_allowed_accounts := hc_allowed_accounts c @ [v]\<rparr>) rest
      else if arg = lit ''--peer-user'' then
        (case resolve_account_ids h v of
           Inl _ \<Rightarrow> Err (lit ''--peer-user '' @ ht_debug T v @ lit '' does not resolve'')
         | Inr ids \<Rightarrow> parse_loop T h (c\<lparr>hc_peer_uid := Some (uid ids)\<rparr>) rest)
      else if arg = lit ''--peer-uid'' then
        (case parse_unsigned (2 ^ 32 - 1) v of
           None \<Rightarrow> Err (lit ''bad uid '' @ ht_debug T v)
         | Some n \<Rightarrow> parse_loop T h (c\<lparr>hc_peer_uid := Some (of_nat n)\<rparr>) rest)
      else if arg = lit ''--upload-root'' then parse_loop T h (c\<lparr>hc_upload_root := Some v\<rparr>) rest
      else if arg = lit ''--upload-max-bytes'' then
        (case parse_unsigned (2 ^ 64 - 1) v of
           None \<Rightarrow> Err (lit ''bad upload byte limit '' @ ht_debug T v)
         | Some n \<Rightarrow>
             if (of_nat n :: u64) > UPLOAD_FILE_BYTES_HARD_MAX then
               Err (lit ''upload byte limit exceeds hard maximum '' @ show_nat (unat UPLOAD_FILE_BYTES_HARD_MAX))
             else parse_loop T h (c\<lparr>hc_upload_max_bytes := of_nat n\<rparr>) rest)
      else Err (unknown_argument arg))"

definition parse_args :: "helper_texts \<Rightarrow> host \<Rightarrow> rstring list \<Rightarrow> rstring + helper_config" where
  "parse_args T h argv = parse_loop T h helper_config_default (drop 1 argv)"

section \<open>Authorization\<close>

datatype refusal = RefForbidden rstring | RefFailed rstring

fun refusal_of_launch :: "launch_error \<Rightarrow> refusal" where
  "refusal_of_launch LaunchForbidden = RefForbidden (lit ''account is not available'')"
| "refusal_of_launch (LaunchInternal m) = RefFailed m"

text \<open>\<open>creds\<close> is what \<open>SO_PEERCRED\<close> answers: an error text or the peer's uid.\<close>

definition check_peer :: "helper_config \<Rightarrow> rstring + u32 \<Rightarrow> refusal + unit" where
  "check_peer cfg creds =
     (case hc_peer_uid cfg of
        None \<Rightarrow> Ok ()
      | Some expected \<Rightarrow>
          (case creds of
             Inl e \<Rightarrow> Err (RefFailed (lit ''SO_PEERCRED: '' @ e))
           | Inr u \<Rightarrow>
               if u \<noteq> expected then
                 Err (RefForbidden (lit ''connection from uid '' @ show_nat (unat u) @ lit '' but only uid ''
                        @ show_nat (unat expected) @ lit '' may request shells''))
               else Ok ()))"

definition resolve_allowed_account ::
  "helper_texts \<Rightarrow> host \<Rightarrow> helper_config \<Rightarrow> rstring \<Rightarrow> refusal + account_ids" where
  "resolve_allowed_account T h cfg account =
     (if \<not> list_ex (\<lambda>a. a = account) (hc_allowed_accounts cfg) then
        Err (RefForbidden (lit ''account '' @ ht_debug T account @ lit '' is not in this spawner's allowlist''))
      else
        (case resolve_account_ids h account of
           Inl e \<Rightarrow> Err (refusal_of_launch e)
         | Inr ids \<Rightarrow>
             if uid ids = 0 then Err (RefForbidden (lit ''refusing to launch a shell as uid 0'')) else Ok ids))"

section \<open>Effects\<close>

datatype wait_status = WExited int | WSignaled nat | WOther | WError rstring

datatype helper_effect =
    HeLaunch launch nat nat u32
  | HeCalls call_log
  | HeSpawnReply spawn_reply bool
  | HeUploadReply upload_reply
  | HeKill u32
  | HeExited spawner_msg

text \<open>One turn of the upload loop: what arrives, and the answers to the operation it causes.\<close>

record helper_turn =
  tn_recv :: "nat recvmsg"
  tn_decode :: "bytes \<Rightarrow> rstring + upload_daemon_msg"
  tn_os :: os
  tn_drop_os :: os
  tn_send :: "bytes \<Rightarrow> rstring option"

record helper_answers =
  hx_peer :: "rstring + u32"
  hx_recv :: "nat recvmsg"
  hx_decode :: "bytes \<Rightarrow> rstring + initial_request"
  hx_openpty :: "rstring option"
  hx_spawn :: "rstring + u32"
  hx_store_os :: os
  hx_begin :: "nat \<Rightarrow> bytes \<times> os"
  hx_encode_upload :: "upload_reply \<Rightarrow> rstring + bytes"
  hx_encode_spawn :: "spawn_reply \<Rightarrow> rstring + bytes"
  hx_encode_exit :: "spawner_msg \<Rightarrow> rstring + bytes"
  hx_send :: "bytes \<Rightarrow> rstring option"
  hx_drop_os :: os
  hx_turns :: "helper_turn list"
  hx_send_exit :: "bytes \<Rightarrow> rstring option"
  hx_send_error :: "bytes \<Rightarrow> rstring option"
  hx_thread :: bool
  hx_control :: bool
  hx_wait :: wait_status

section \<open>Shells\<close>

text \<open>The launched command with its window and its pid; \<open>None\<close> is a panic of the launch crate.\<close>

definition helper_spawn_shell ::
  "helper_texts \<Rightarrow> host \<Rightarrow> helper_config \<Rightarrow> helper_answers \<Rightarrow> spawn_request
     \<Rightarrow> (refusal + launch \<times> u32) option" where
  "helper_spawn_shell T h cfg X req =
     (case resolve_allowed_account T h cfg (sr_account req) of
        Inl r \<Rightarrow> Some (Err r)
      | Inr _ \<Rightarrow>
          (case build_launch h True (sr_limits req) (Some (sr_account req)) (sr_command req) (sr_args req) of
             None \<Rightarrow> None
           | Some (Inl e) \<Rightarrow> Some (Err (refusal_of_launch e))
           | Some (Inr l) \<Rightarrow>
               (case program l of
                  None \<Rightarrow> Some (Err (RefFailed (lit ''launch produced no program'')))
                | Some prog \<Rightarrow>
                    (case hx_openpty X of
                       Some e \<Rightarrow> Some (Err (RefFailed (lit ''openpty: '' @ e)))
                     | None \<Rightarrow>
                         (case hx_spawn X of
                            Inl e \<Rightarrow> Some (Err (RefFailed (lit ''spawn '' @ prog @ lit '': '' @ e)))
                          | Inr pid \<Rightarrow> Some (Ok (l, pid)))))))"

fun exit_summary_msg :: "wait_status \<Rightarrow> spawner_msg" where
  "exit_summary_msg (WExited code) = SpawnerExited (code = 0) (of_int code)"
| "exit_summary_msg (WSignaled sig) = SpawnerExited False (128 + of_nat sig)"
| "exit_summary_msg WOther = SpawnerExited False 1"
| "exit_summary_msg (WError _) = SpawnerExited False 1"

section \<open>Uploads\<close>

definition finished_reply :: "committed_upload \<Rightarrow> upload_reply" where
  "finished_reply c = UrFinished (cu_upload_id c) (cu_remote_path c) (cu_bytes_written c) (cu_sha256 c)"

text \<open>
  The loop; the writer is dropped on every way out. \<open>None\<close>: it still waits for a message.
\<close>

fun upload_turns ::
  "helper_texts \<Rightarrow> 'h sha2 \<Rightarrow> (upload_reply \<Rightarrow> rstring + bytes) \<Rightarrow> account_ids \<Rightarrow> helper_turn list
     \<Rightarrow> 'h upload_writer \<Rightarrow> (helper_effect list \<times> (refusal + unit)) option" where
  "upload_turns T S enc ids [] w = None"
| "upload_turns T S enc ids (t # ts) w =
     (let dropped = HeCalls (abort (tn_drop_os t) w) in
      case recv_message (tn_decode t) (tn_recv t) of
        Inl e \<Rightarrow> Some ([dropped], Err (RefFailed (lit ''read upload data: '' @ spawn_error_string e)))
      | Inr None \<Rightarrow> Some ([dropped], Ok ())
      | Inr (Some (m, fd)) \<Rightarrow>
          if fd \<noteq> None then
            Some ([dropped], Err (RefFailed (lit ''upload data unexpectedly carried a descriptor'')))
          else
            (case m of
               UdChunk i off data \<Rightarrow>
                 (case write_chunk S (tn_os t) \<lparr>uc_upload_id = i, uc_offset = off, uc_data = data\<rparr> w of
                    (l, w', Inl e) \<Rightarrow>
                      Some ([HeCalls l, HeCalls (abort (tn_drop_os t) w')],
                            Err (RefFailed (lit ''write upload: '' @ ht_store T e)))
                  | (l, w', Inr _) \<Rightarrow> map_option (apfst ((#) (HeCalls l))) (upload_turns T S enc ids ts w'))
             | UdFinish i \<Rightarrow>
                 (case finish_as S (tn_os t) (tn_drop_os t) i (uid ids, gid ids) w of
                    (l, Inl e) \<Rightarrow> Some ([HeCalls l], Err (RefFailed (lit ''finish upload: '' @ ht_store T e)))
                  | (l, Inr c) \<Rightarrow>
                      (case send_message enc (tn_send t) (finished_reply c) of
                         Inl e \<Rightarrow>
                           Some ([HeCalls l], Err (RefFailed (lit ''send upload result: '' @ spawn_error_string e)))
                       | Inr _ \<Rightarrow> Some ([HeCalls l, HeUploadReply (finished_reply c)], Ok ())))
             | UdAbort i \<Rightarrow>
                 Some ([dropped],
                       if i \<noteq> uw_upload_id w then Err (RefFailed (lit ''abort carried the wrong upload id''))
                       else Ok ())))"

definition receive_upload ::
  "helper_texts \<Rightarrow> 'h sha2 \<Rightarrow> host \<Rightarrow> helper_config \<Rightarrow> helper_answers \<Rightarrow> receive_upload_request
     \<Rightarrow> (helper_effect list \<times> (refusal + unit)) option" where
  "receive_upload T S h cfg X req =
     (case resolve_allowed_account T h cfg (ur_account req) of
        Inl r \<Rightarrow> Some ([], Err r)
      | Inr ids \<Rightarrow>
          (case hc_upload_root cfg of
             None \<Rightarrow> Some ([], Err (RefFailed (lit ''file uploads are not configured on the spawner'')))
           | Some root \<Rightarrow>
               (case store_open (hx_store_os X) \<lparr>sc_root = root, sc_max_file_bytes = hc_upload_max_bytes cfg\<rparr> of
                  (l0, Inl e) \<Rightarrow> Some ([HeCalls l0], Err (RefFailed (lit ''open upload store: '' @ ht_store T e)))
                | (l0, Inr store) \<Rightarrow>
                    (case begin_with_chunk_limit S store (hx_begin X)
                            \<lparr>bu_original_name = ur_original_name req, bu_total_bytes = ur_total_bytes req,
                             bu_sha256 = ur_sha256 req\<rparr>
                            (min (ur_maximum_chunk_bytes req) (of_nat SPAWNER_UPLOAD_CHUNK_BYTES_MAX)) of
                       (l, Inl e) \<Rightarrow>
                         Some ([HeCalls l0, HeCalls l], Err (RefFailed (lit ''begin upload: '' @ ht_store T e)))
                     | (l, Inr w) \<Rightarrow>
                         (let ready = UrReady (uw_upload_id w) (uw_maximum_chunk_bytes w) in
                          case send_message (hx_encode_upload X) (hx_send X) ready of
                            Inl e \<Rightarrow>
                              Some ([HeCalls l0, HeCalls l, HeCalls (abort (hx_drop_os X) w)],
                                    Err (RefFailed (lit ''send upload ready: '' @ spawn_error_string e)))
                          | Inr _ \<Rightarrow>
                              map_option (apfst (\<lambda>fx. [HeCalls l0, HeCalls l, HeUploadReply ready] @ fx))
                                (upload_turns T S (hx_encode_upload X) ids (hx_turns X) w))))))"

section \<open>The process\<close>

fun refusal_message :: "refusal \<Rightarrow> rstring \<times> bool" where
  "refusal_message (RefForbidden m) = (m, True)"
| "refusal_message (RefFailed m) = (m, False)"

text \<open>\<open>refuse_and_exit\<close>: the reply when it could be sent, and exit code 1.\<close>

definition refuse_and_exit :: "helper_answers \<Rightarrow> refusal \<Rightarrow> bool \<Rightarrow> helper_effect list \<times> nat" where
  "refuse_and_exit X r upload =
     (case refusal_message r of
        (m, forbidden) \<Rightarrow>
          ((if upload
            then (if is_ok (send_message (hx_encode_upload X) (hx_send_error X) (UrError m forbidden))
                  then [HeUploadReply (UrError m forbidden)] else [])
            else (if is_ok (send_message (hx_encode_spawn X) (hx_send_error X) (SpawnReplyError m forbidden))
                  then [HeSpawnReply (SpawnReplyError m forbidden) False] else [])), 1))"

text \<open>
  After the shell runs: hand over the PTY, watch the control channel, wait. Whatever arrives on
  the control channel, or its end, kills the shell (\<open>hx_control\<close>: something arrived in time).
\<close>

definition supervise_shell ::
  "helper_answers \<Rightarrow> launch \<Rightarrow> nat \<Rightarrow> nat \<Rightarrow> u32 \<Rightarrow> (helper_effect list \<times> nat) option" where
  "supervise_shell X l cols rows pid =
     (case send_message (hx_encode_spawn X) (hx_send X) (Spawned pid) of
        Inl _ \<Rightarrow> Some ([HeLaunch l cols rows pid, HeKill pid], 1)
      | Inr _ \<Rightarrow>
          if \<not> hx_thread X then None
          else
            (let summary = exit_summary_msg (hx_wait X) in
             Some ([HeLaunch l cols rows pid, HeSpawnReply (Spawned pid) True]
                   @ (if hx_control X then [HeKill pid] else [])
                   @ (if is_ok (send_message (hx_encode_exit X) (hx_send_exit X) summary)
                      then [HeExited summary] else []), 0)))"

definition helper_main ::
  "helper_texts \<Rightarrow> 'h sha2 \<Rightarrow> host \<Rightarrow> rstring list \<Rightarrow> helper_answers \<Rightarrow> (helper_effect list \<times> nat) option" where
  "helper_main T S h argv X =
     (case parse_args T h argv of
        Inl _ \<Rightarrow> Some ([], 2)
      | Inr cfg \<Rightarrow>
          (case check_peer cfg (hx_peer X) of
             Inl r \<Rightarrow> Some (refuse_and_exit X r False)
           | Inr _ \<Rightarrow>
               (case recv_message (hx_decode X) (hx_recv X) of
                  Inr None \<Rightarrow> Some ([], 0)
                | Inl e \<Rightarrow>
                    Some (refuse_and_exit X (RefFailed (lit ''reading initial request: '' @ spawn_error_string e)) False)
                | Inr (Some (request, fd)) \<Rightarrow>
                    if fd \<noteq> None then
                      Some (refuse_and_exit X (RefFailed (lit ''initial request unexpectedly carried a descriptor''))
                              (case request of ReceiveUpload _ \<Rightarrow> True | SpawnShell _ \<Rightarrow> False))
                    else
                      (case request of
                         ReceiveUpload req \<Rightarrow>
                           (case receive_upload T S h cfg X req of
                              None \<Rightarrow> None
                            | Some (fx, Inr _) \<Rightarrow> Some (fx, 0)
                            | Some (fx, Inl r) \<Rightarrow> Some (apfst ((@) fx) (refuse_and_exit X r True)))
                       | SpawnShell req \<Rightarrow>
                           (case helper_spawn_shell T h cfg X req of
                              None \<Rightarrow> None
                            | Some (Inl r) \<Rightarrow> Some (refuse_and_exit X r False)
                            | Some (Inr (l, pid)) \<Rightarrow> supervise_shell X l (sr_cols req) (sr_rows req) pid)))))"

section \<open>Which owners a run can set\<close>

fun chown_ok :: "account_ids \<Rightarrow> syscall \<times> answer \<Rightarrow> bool" where
  "chown_ok ids (ChownFile d u g, _) \<longleftrightarrow> u = uid ids \<and> g = gid ids"
| "chown_ok ids (ChownDir d u g, _) \<longleftrightarrow> u = uid ids \<and> g = gid ids"
| "chown_ok ids _ \<longleftrightarrow> True"

fun effect_chowns :: "account_ids \<Rightarrow> helper_effect \<Rightarrow> bool" where
  "effect_chowns ids (HeCalls l) \<longleftrightarrow> list_all (chown_ok ids) l"
| "effect_chowns ids (HeLaunch _ _ _ _) \<longleftrightarrow> False"
| "effect_chowns ids _ \<longleftrightarrow> True"

lemma calls_chown: "(\<And>c a. c \<in> set cs \<Longrightarrow> chown_ok ids (c, a)) \<Longrightarrow> list_all (chown_ok ids) (fst (calls os cs))"
  by (induction cs) (auto split: answer.split)

lemma abort_chown: "list_all (chown_ok ids) (abort os w)"
  by (simp add: abort_def writer_drop_def ignored_def)

lemma write_chunk_chown: "write_chunk S os c w = (l, w', r) \<Longrightarrow> list_all (chown_ok ids) l"
  by (auto simp: write_chunk_def Let_def split: sum.splits answer.splits)

lemma finish_as_chown: "list_all (chown_ok ids) (fst (finish_as S os drop_os i (uid ids, gid ids) w))"
proof -
  have "chown_ok ids (c, a)" if "c \<in> set (commit_calls w (Some (uid ids, gid ids)))" for c a
    using that by (auto simp: commit_calls_def Let_def)
  then have "list_all (chown_ok ids) (fst (calls os (commit_calls w (Some (uid ids, gid ids)))))"
    by (rule calls_chown)
  then show ?thesis
    using abort_chown [of ids drop_os]
    by (auto simp: finish_as_def finish_inner_def abort_def Let_def list_all_iff split: prod.splits sum.splits if_splits)
qed

lemma begin_chown: "list_all (chown_ok ids) (fst (begin_with_chunk_limit S config env b mx))"
proof -
  have c: "list_all (chown_ok ids) (fst (calls os [OpenDir d, FchmodDir d DIRECTORY_MODE, Create d PARTIAL_NAME FILE_MODE]))"
    for os d by (rule calls_chown) auto
  have "list_all (chown_ok ids) (fst (open_new_writer S config os b i d mx))" for os i d mx
    using c [of os d] by (auto simp: open_new_writer_def ignored_def Let_def split: prod.splits sum.splits answer.splits)
  then have w: "list_all (chown_ok ids) (fst (begin_with_id S config os b i mx))" for os i mx
    by (auto simp: begin_with_id_def ignored_def Let_def split: prod.splits sum.splits answer.splits)
      (metis fst_conv)+
  have "list_all (chown_ok ids) (fst (begin_attempts S config b mx xs))" for mx xs
  proof (induction xs)
    case (Cons x xs)
    then show ?case
      using w [of "snd x" "fst x" mx]
      by (cases x) (auto split: prod.splits sum.splits store_error.splits)
  qed simp
  then show ?thesis by (simp add: begin_with_chunk_limit_def split: sum.split)
qed

lemma upload_turns_chown:
  "upload_turns T S enc ids ts w = Some (fx, r) \<Longrightarrow> list_all (effect_chowns ids) fx"
proof (induction ts arbitrary: w fx r)
  case (Cons t ts)
  have f: "list_all (chown_ok ids) l" if "finish_as S (tn_os t) (tn_drop_os t) i (uid ids, gid ids) w = (l, x)" for l i x
    using finish_as_chown [of ids S "tn_os t" "tn_drop_os t" i w] that by simp
  show ?case
    using Cons.prems
    by (auto simp: Let_def abort_chown dest: write_chunk_chown f Cons.IH
        split: sum.splits option.splits if_splits upload_daemon_msg.splits prod.splits)
qed simp

section \<open>Confinement\<close>

text \<open>An account the deployment exposes: on the allowlist, known to the system, not root.\<close>

definition exposed :: "host \<Rightarrow> helper_config \<Rightarrow> account_ids \<Rightarrow> bool" where
  "exposed h cfg ids \<longleftrightarrow>
     (\<exists>account. account \<in> set (hc_allowed_accounts cfg) \<and> getpwnam h account = Ok (Some ids) \<and> uid ids \<noteq> 0)"

text \<open>A launch that runs as an account: \<open>setpriv\<close> to its ids, unless the helper is that account.\<close>

definition runs_as :: "host \<Rightarrow> account_ids \<Rightarrow> launch \<Rightarrow> bool" where
  "runs_as h ids l \<longleftrightarrow>
     program l = Some PRLIMIT
     \<and> (uid ids = geteuid h
        \<or> (\<exists>limits rest command. split_dashes (args l) = Some (prlimit_options limits, SETPRIV # rest)
              \<and> split_dashes rest = Some (setpriv_options ids, command)))"

fun effect_ok :: "host \<Rightarrow> helper_config \<Rightarrow> helper_effect \<Rightarrow> bool" where
  "effect_ok h cfg (HeLaunch l _ _ _) \<longleftrightarrow> (\<exists>ids. exposed h cfg ids \<and> runs_as h ids l)"
| "effect_ok h cfg (HeCalls l) \<longleftrightarrow> (\<exists>ids. exposed h cfg ids \<and> list_all (chown_ok ids) l)"
| "effect_ok h cfg _ \<longleftrightarrow> True"

fun acts :: "helper_effect \<Rightarrow> bool" where
  "acts (HeLaunch _ _ _ _) = True"
| "acts (HeCalls _) = True"
| "acts _ = False"

lemma resolve_exposed:
  "resolve_allowed_account T h cfg account = Ok ids \<Longrightarrow>
     exposed h cfg ids \<and> getpwnam h account = Ok (Some ids)"
  by (auto simp: resolve_allowed_account_def resolve_account_ids_def exposed_def list_ex_iff
      split: if_splits sum.splits option.splits)

lemma launch_runs_as:
  assumes "name \<noteq> []" and "getpwnam h name = Ok (Some ids)"
    and "build_launch h True limits (Some name) command as = Some (Ok l)"
  shows "runs_as h ids l"
  using assms
  by (auto simp: runs_as_def build_launch_def prlimit_wrap_def setpriv_wrap_def resolve_account_ids_def non_empty_def
      split_dashes_append prlimit_options_plain setpriv_options_plain split: if_splits)

lemma helper_spawn_ok:
  assumes "getpwnam h [] = Ok None" and "helper_spawn_shell T h cfg X req = Some (Ok (l, pid))"
  shows "effect_ok h cfg (HeLaunch l c r pid)"
proof -
  obtain ids where ids: "resolve_allowed_account T h cfg (sr_account req) = Ok ids"
    and l: "build_launch h True (sr_limits req) (Some (sr_account req)) (sr_command req) (sr_args req) = Some (Ok l)"
    using assms(2) by (auto simp: helper_spawn_shell_def split: sum.splits option.splits)
  then have "exposed h cfg ids" "getpwnam h (sr_account req) = Ok (Some ids)" using resolve_exposed by blast+
  moreover from this(2) have "sr_account req \<noteq> []" using assms(1) by auto
  ultimately show ?thesis using launch_runs_as l by auto
qed

lemma effect_chowns_ok: "exposed h cfg ids \<Longrightarrow> list_all (effect_chowns ids) fx \<Longrightarrow> list_all (effect_ok h cfg) fx"
proof (induction fx)
  case (Cons e fx)
  then show ?case by (cases e) auto
qed simp

lemma store_open_chown: "store_open os config = (l, r) \<Longrightarrow> list_all (chown_ok ids) l"
  by (auto simp: store_open_def split: if_splits answer.splits)

lemma receive_upload_ok:
  assumes "receive_upload T S h cfg X req = Some (fx, r)"
  shows "list_all (effect_ok h cfg) fx"
proof (cases "resolve_allowed_account T h cfg (ur_account req)")
  case (Inl e)
  then show ?thesis using assms by (simp add: receive_upload_def)
next
  case (Inr ids)
  have b: "list_all (chown_ok ids) l" if "begin_with_chunk_limit S store env b mx = (l, x)" for l x store env b mx
    using begin_chown [of ids S store env b mx] that by simp
  have "list_all (effect_chowns ids) fx"
    using assms Inr
    by (auto simp: receive_upload_def Let_def abort_chown dest: store_open_chown b upload_turns_chown
        split: option.splits prod.splits sum.splits)
  then show ?thesis using effect_chowns_ok resolve_exposed [OF Inr] by blast
qed

lemma refuse_replies: "refuse_and_exit X r up = (fx, code) \<Longrightarrow> list_all (effect_ok h cfg) fx \<and> \<not> list_ex acts fx"
  by (auto simp: refuse_and_exit_def split: prod.splits if_splits)

lemma supervise_ok:
  "effect_ok h cfg (HeLaunch l c r pid) \<Longrightarrow> supervise_shell X l c r pid = Some (fx, code) \<Longrightarrow> list_all (effect_ok h cfg) fx"
  by (auto simp: supervise_shell_def Let_def split: sum.splits if_splits)


lemma helper_main_ok:
  assumes "getpwnam h [] = Ok None" and "helper_main T S h argv X = Some (fx, code)"
    and "parse_args T h argv = Ok cfg"
  shows "list_all (effect_ok h cfg) fx"
proof -
  have ref: "list_all (effect_ok h cfg) fx'" if "refuse_and_exit X r up = (fx', c)" for r up fx' c
    using refuse_replies that by blast
  have sup: "list_all (effect_ok h cfg) fx"
    if "helper_spawn_shell T h cfg X req = Some (Ok (l, pid))" "supervise_shell X l c r pid = Some (fx, code)"
    for req l pid c r
    using supervise_ok [OF helper_spawn_ok [OF assms(1) that(1)] that(2)] .
  show ?thesis
    using assms(2,3)
    by (auto simp: helper_main_def apfst_def map_prod_def dest: receive_upload_ok sup ref
        split: sum.splits option.splits if_splits initial_request.splits prod.splits)
qed

lemma helper_main_peer:
  assumes "helper_main T S h argv X = Some (fx, code)" and "parse_args T h argv = Ok cfg"
    and "check_peer cfg (hx_peer X) = Err r"
  shows "\<not> list_ex acts fx \<and> code = 1"
  using assms refuse_replies [of X r False fx code]
  by (auto simp: helper_main_def refuse_and_exit_def split: prod.splits)

section \<open>Uploads on disk\<close>

fun effect_calls :: "helper_effect \<Rightarrow> call_log" where
  "effect_calls (HeCalls l) = l"
| "effect_calls _ = []"

definition run_calls :: "helper_effect list \<Rightarrow> call_log" where
  "run_calls fx = concat (map effect_calls fx)"

lemma run_calls_simps [simp]:
  "run_calls [] = []" "run_calls (e # fx) = effect_calls e @ run_calls fx"
  by (simp_all add: run_calls_def)

fun announces_finished :: "helper_effect \<Rightarrow> bool" where
  "announces_finished (HeUploadReply (UrFinished _ _ _ _)) = True"
| "announces_finished _ = False"

text \<open>
  What a run leaves in the upload root: what was there, or one committed directory more that
  belongs to the account; a finished reply tells the truth about it.
\<close>

definition left_behind ::
  "'h sha2 \<Rightarrow> store_config \<Rightarrow> begin_upload \<Rightarrow> account_ids \<Rightarrow> upload_root \<Rightarrow> helper_effect list \<Rightarrow> upload_root \<Rightarrow> bool" where
  "left_behind S config b ids fs fx fs' \<longleftrightarrow>
     fs' = fs \<and> \<not> list_ex announces_finished fx
     \<or> (\<exists>i c data. commit_exact S config b i data c
          \<and> fs' = fs @ [(hex_id i, committed_dir (sanitize_basename (bu_original_name b)) (Some (uid ids, gid ids)) data)]
          \<and> (filter announces_finished fx = [] \<or> filter announces_finished fx = [HeUploadReply (finished_reply c)]))"

lemma left_behind_same [simp]: "\<not> list_ex announces_finished fx \<Longrightarrow> left_behind S config b ids fs fx fs"
  by (simp add: left_behind_def)

lemma left_behind_silent [simp]:
  "\<not> announces_finished e \<Longrightarrow> left_behind S config b ids fs (e # fx) fs' = left_behind S config b ids fs fx fs'"
  by (simp add: left_behind_def)

lemma helper_finish_left:
  assumes "length data \<le> unat (bu_total_bytes b)" and "map_of fs (hex_id i) = None"
    and "finish_as S os drop_os upid (uid ids, gid ids) (writer_at S config b i mx data) = (l, r)"
    and "fs_replay (fs @ [(hex_id i, partial_dir data)]) l = Some fs'"
  shows "case r of Inl e \<Rightarrow> fs' = fs
         | Inr c \<Rightarrow> left_behind S config b ids fs [HeCalls l] fs'
                    \<and> left_behind S config b ids fs [HeCalls l, HeUploadReply (finished_reply c)] fs'"
proof -
  have "(case finish_inner S os upid (Some (uid ids, gid ids)) (writer_at S config b i mx data) of
           (l, w', r) \<Rightarrow> (l @ writer_drop drop_os w', r)) = (l, r)"
    using assms(3) by (simp add: finish_as_def)
  note fin = finish_replay [OF assms(1,2) refl this assms(4)]
  show ?thesis
  proof (cases r)
    case (Inr c)
    then have "commit_exact S config b i data c"
      "fs' = fs @ [(hex_id i, committed_dir (sanitize_basename (bu_original_name b)) (Some (uid ids, gid ids)) data)]"
      using fin by auto
    then show ?thesis using Inr by (auto simp: left_behind_def finished_reply_def)
  qed (use fin in auto)
qed

lemma upload_turns_replay:
  assumes "streaming S" and "map_of fs (hex_id i) = None" and "length data \<le> unat (bu_total_bytes b)"
    and "upload_turns T S enc ids ts (writer_at S config b i mx data) = Some (fx, r)"
    and "fs_replay (fs @ [(hex_id i, partial_dir data)]) (run_calls fx) = Some fs'"
  shows "left_behind S config b ids fs fx fs'"
  using assms(3-5)
proof (induction ts arbitrary: data fx)
  case (Cons t ts)
  let ?w = "writer_at S config b i mx data" and ?fs = "fs @ [(hex_id i, partial_dir data)]"
  have drop: "fs' = fs" if "fs_replay (fs @ [(hex_id i, partial_dir d)]) (abort os (writer_at S config b i mx dn)) = Some fs'"
    for d dn os
    using drop_replay [OF assms(2), of "writer_at S config b i mx dn" "partial_dir d"] that
    by (simp add: abort_def partial_dir_def)
  show ?case
  proof (cases "\<exists>m fd. recv_message (tn_decode t) (tn_recv t) = Ok (Some (m, fd)) \<and> fd = None")
    case False
    then show ?thesis using Cons.prems(2,3)
      by (auto simp: Let_def dest!: drop split: sum.splits option.splits)
  next
    case True
    then obtain m where recv: "recv_message (tn_decode t) (tn_recv t) = Ok (Some (m, None))" by auto
    show ?thesis
    proof (cases m)
      case (UdChunk cid off cdata)
      let ?c = "\<lparr>uc_upload_id = cid, uc_offset = off, uc_data = cdata\<rparr>"
      obtain l w' res where w: "write_chunk S (tn_os t) ?c ?w = (l, w', res)" by (metis prod_cases3)
      obtain fs1 where f1: "fs_replay ?fs l = Some fs1"
        using Cons.prems(2,3) recv UdChunk w
        by (cases res) (auto simp: Let_def fs_replay_append split: option.splits)
      note wr = write_chunk_replay [OF assms(1) Cons.prems(1) assms(2) w f1]
      show ?thesis
      proof (cases res)
        case (Inl e)
        then show ?thesis using Cons.prems(2,3) recv UdChunk w f1 wr
          by (auto simp: Let_def fs_replay_append dest!: drop split: option.splits)
      next
        case (Inr u)
        then obtain fx' where fx': "upload_turns T S enc ids ts w' = Some (fx', r)" "fx = HeCalls l # fx'"
          using Cons.prems(2) recv UdChunk w by (auto simp: Let_def)
        then show ?thesis using Cons.IH [of "data @ cdata" fx'] Cons.prems(3) Inr wr f1
          by (auto simp: fs_replay_append)
      qed
    next
      case (UdFinish fid)
      obtain l res where f: "finish_as S (tn_os t) (tn_drop_os t) fid (uid ids, gid ids) ?w = (l, res)" by fastforce
      have "fs_replay ?fs l = Some fs'"
        using Cons.prems(2,3) recv UdFinish f by (cases res) (auto simp: Let_def split: sum.splits)
      note fin = helper_finish_left [OF Cons.prems(1) assms(2) f this]
      show ?thesis using Cons.prems(2) recv UdFinish f fin
        by (cases res) (auto simp: Let_def split: sum.splits)
    next
      case (UdAbort aid)
      then show ?thesis using Cons.prems(2,3) recv
        by (auto simp: Let_def dest!: drop split: if_splits)
    qed
  qed
qed simp

text \<open>The request as the store sees it.\<close>

definition request_metadata :: "receive_upload_request \<Rightarrow> begin_upload" where
  "request_metadata req =
     \<lparr>bu_original_name = ur_original_name req, bu_total_bytes = ur_total_bytes req, bu_sha256 = ur_sha256 req\<rparr>"

lemma store_open_replay: "store_open os config = (l, r) \<Longrightarrow> fs_replay fs l = Some fs' \<Longrightarrow> fs' = fs"
  by (auto simp: store_open_def split: if_splits answer.splits)


lemma receive_upload_replay:
  assumes "streaming S" and "receive_upload T S h cfg X req = Some (fx, r)"
    and "fs_replay fs (run_calls fx) = Some fs'"
    and "resolve_allowed_account T h cfg (ur_account req) = Ok ids" and "hc_upload_root cfg = Some root"
  shows "left_behind S \<lparr>sc_root = root, sc_max_file_bytes = hc_upload_max_bytes cfg\<rparr> (request_metadata req) ids fs fx fs'"
proof -
  let ?config = "\<lparr>sc_root = root, sc_max_file_bytes = hc_upload_max_bytes cfg\<rparr>"
  let ?b = "request_metadata req"
  let ?mx = "min (ur_maximum_chunk_bytes req) (of_nat SPAWNER_UPLOAD_CHUNK_BYTES_MAX)"
  obtain l0 r0 where o: "store_open (hx_store_os X) ?config = (l0, r0)" by fastforce
  obtain l r1 where b: "begin_with_chunk_limit S ?config (hx_begin X) ?b ?mx = (l, r1)" by fastforce
  note req = request_metadata_def [of req, symmetric]
  show ?thesis
  proof (cases r0)
    case (Inl e)
    then have "fx = [HeCalls l0]" using assms(2,4,5) o by (auto simp: receive_upload_def)
    moreover from this have "fs' = fs" using assms(3) store_open_replay [OF o] by simp
    ultimately show ?thesis by simp
  next
    case (Inr store)
    have store: "store = ?config" using o Inr by (auto simp: store_open_def split: if_splits answer.splits)
    note run = assms(2) [unfolded receive_upload_def assms(4,5), simplified, unfolded req o Inr store, simplified]
    obtain fx' where fx: "fx = HeCalls l0 # HeCalls l # fx'" using run b
      by (auto simp: Let_def split: sum.splits)
    obtain fs1 where f: "fs_replay fs l = Some fs1" "fs_replay fs1 (run_calls fx') = Some fs'"
      using assms(3) fx by (auto simp: fs_replay_append dest: store_open_replay [OF o] split: option.splits)
    note beg = begin_replay [OF b f(1)]
    show ?thesis
    proof (cases r1)
      case (Inl e)
      then show ?thesis using run b beg f(2) fx by auto
    next
      case (Inr w)
      then obtain i mx where i: "map_of fs (hex_id i) = None" "fs1 = fs @ [(hex_id i, partial_dir [])]"
        and w: "w = writer_at S ?config ?b i mx []"
        using beg assms(1) by (auto simp: writer_at_def fresh_writer_def streaming_def)
      show ?thesis
      proof (cases "send_message (hx_encode_upload X) (hx_send X) (UrReady (uw_upload_id w) (uw_maximum_chunk_bytes w))")
        case (Inl e)
        then have fx': "fx' = [HeCalls (abort (hx_drop_os X) w)]" using run b fx Inr by (simp add: Let_def)
        then have "fs' = fs" using drop_replay [OF i(1), of w "partial_dir []"] f(2) i(2) w
          by (simp add: abort_def partial_dir_def)
        then show ?thesis using fx fx' by simp
      next
        case (Inr u)
        then obtain fx2 where fx2: "upload_turns T S (hx_encode_upload X) ids (hx_turns X) w = Some (fx2, r)"
          "fx' = HeUploadReply (UrReady (uw_upload_id w) (uw_maximum_chunk_bytes w)) # fx2"
          using run b fx \<open>r1 = Inr w\<close> by (auto simp: Let_def)
        have "left_behind S ?config ?b ids fs fx2 fs'"
          using upload_turns_replay [OF assms(1) i(1) _ fx2(1) [unfolded w]] f(2) i(2) fx2(2) by simp
        then show ?thesis using fx fx2(2) by (auto)
      qed
    qed
  qed
qed

section \<open>Properties\<close>




text \<open>A host with one account, and a run that receives a file of two bytes for it.\<close>

definition demo_helper_host :: host where
  "demo_helper_host =
     \<lparr>path_exists = (\<lambda>p. True), env_var = (\<lambda>v. None),
      getpwnam = (\<lambda>n. if n = lit ''bob'' then Ok (Some \<lparr>uid = 1000, gid = 1000\<rparr>) else Ok None), geteuid = 0\<rparr>"

definition demo_helper_texts :: helper_texts where
  "demo_helper_texts = \<lparr>ht_debug = (\<lambda>s. s), ht_store = (\<lambda>e. [])\<rparr>"

definition demo_argv :: "rstring list" where
  "demo_argv = [lit ''holdfast-spawner'', lit ''--allow-account'', lit ''bob'', lit ''--upload-root'', lit ''/up'']"

definition demo_helper_config :: helper_config where
  "demo_helper_config = helper_config_default\<lparr>hc_allowed_accounts := [lit ''bob''], hc_upload_root := Some (lit ''/up'')\<rparr>"

definition demo_upload_request :: receive_upload_request where
  "demo_upload_request =
     \<lparr>ur_account = lit ''bob'', ur_original_name = lit ''a/b.txt'', ur_total_bytes = 2,
      ur_sha256 = [7, 8] @ replicate 30 0, ur_maximum_chunk_bytes = 8\<rparr>"

definition demo_turn :: "upload_daemon_msg \<Rightarrow> helper_turn" where
  "demo_turn m = \<lparr>tn_recv = Ok ([1], []), tn_decode = (\<lambda>b. Ok m), tn_os = (\<lambda>c. Success), tn_drop_os = (\<lambda>c. Success),
                  tn_send = (\<lambda>b. None)\<rparr>"

definition demo_helper_answers :: helper_answers where
  "demo_helper_answers =
     \<lparr>hx_peer = Ok 5, hx_recv = Ok ([1], []), hx_decode = (\<lambda>b. Ok (ReceiveUpload demo_upload_request)),
      hx_openpty = None, hx_spawn = Ok 77, hx_store_os = (\<lambda>c. Success),
      hx_begin = (\<lambda>n. (replicate 16 1, \<lambda>c. Success)), hx_encode_upload = (\<lambda>m. Ok [1]), hx_encode_spawn = (\<lambda>m. Ok [1]),
      hx_encode_exit = (\<lambda>m. Ok [1]), hx_send = (\<lambda>b. None), hx_drop_os = (\<lambda>c. Success),
      hx_turns = [demo_turn (UdChunk (replicate 16 1) 0 [7, 8]), demo_turn (UdFinish (replicate 16 1))],
      hx_send_exit = (\<lambda>b. None), hx_send_error = (\<lambda>b. None), hx_thread = True, hx_control = False, hx_wait = WExited 0\<rparr>"

lemma demo_helper_parsed: "parse_args demo_helper_texts demo_helper_host demo_argv = Ok demo_helper_config"
  by (simp add: parse_args_def demo_argv_def demo_helper_config_def helper_config_default_def lit_def)

lemma demo_helper_upload:
  "\<exists>fx fs'. receive_upload demo_helper_texts demo_sha demo_helper_host demo_helper_config demo_helper_answers
              demo_upload_request = Some (fx, Ok ())
     \<and> fs_replay [] (run_calls fx) = Some fs' \<and> list_ex announces_finished fx"
proof -
  have r: "[0..<RANDOM_ID_ATTEMPTS] = 0 # [1..<RANDOM_ID_ATTEMPTS]"
    by (simp add: RANDOM_ID_ATTEMPTS_def upt_conv_Cons)
  have m: "min (8 :: u32) (of_nat SPAWNER_UPLOAD_CHUNK_BYTES_MAX) = 8" "min (8 :: u32) (of_nat UPLOAD_CHUNK_BYTES_MAX) = 8"
    by (simp_all add: UPLOAD_CHUNK_BYTES_MAX_def SPAWNER_UPLOAD_CHUNK_BYTES_MAX_def)
  have b: "\<lparr>bu_original_name = ur_original_name demo_upload_request, bu_total_bytes = ur_total_bytes demo_upload_request,
      bu_sha256 = ur_sha256 demo_upload_request\<rparr> = demo_begin"
    by (simp add: demo_upload_request_def demo_begin_def)
  have c: "\<lparr>uc_upload_id = replicate 16 1, uc_offset = 0, uc_data = [7, 8]\<rparr> = demo_chunk" by (simp add: demo_chunk_def)
  have v: "validate_begin demo_begin UPLOAD_FILE_BYTES_DEFAULT = Ok ()"
    using demo_valid(1) by (simp add: store_config_new_def)
  have f: "bu_total_bytes demo_begin = 2" "bu_sha256 demo_begin = [7, 8] @ replicate 30 0" "uc_data demo_chunk = [7, 8]"
    by (simp_all add: demo_begin_def demo_chunk_def)
  have d: "take 32 ([7, 8 :: u8] @ replicate 32 0) = [7, 8] @ replicate 30 0" by simp
  have res: "resolve_allowed_account demo_helper_texts demo_helper_host demo_helper_config (ur_account demo_upload_request)
      = Ok \<lparr>uid = 1000, gid = 1000\<rparr>"
    by (simp add: resolve_allowed_account_def demo_helper_config_def demo_upload_request_def demo_helper_host_def
        resolve_account_ids_def)
  have mx: "ur_maximum_chunk_bytes demo_upload_request = 8" by (simp add: demo_upload_request_def)
  have root: "hc_upload_root demo_helper_config = Some (lit ''/up'')"
    "hc_upload_max_bytes demo_helper_config = UPLOAD_FILE_BYTES_DEFAULT" "is_absolute (lit ''/up'')"
    by (simp_all add: demo_helper_config_def helper_config_default_def is_absolute_def lit_def)
  note sb = sanitize_basename_not_partial [of "bu_original_name demo_begin"]
  show ?thesis
    using sb
    by (simp add: receive_upload_def res root mx b c demo_helper_answers_def store_open_def begin_with_chunk_limit_def v r m
        begin_with_id_def open_new_writer_def Let_def fresh_writer_def send_message_def recv_message_def recv_raw_def demo_turn_def
        write_chunk_def demo_valid f finish_as_def finish_inner_def demo_sha_def d writer_drop_def commit_calls_def
        finished_reply_def empty_dir_def MAX_MESSAGE_BYTES_def)
qed



end
