(* ===== verification/Upload_Service.thy ===== *)
theory Upload_Service
  imports Upload_Store Permits Spawner_Client Messages Observability
begin

text \<open>
  The upload service of \<open>crates/daemon/src/uploads.rs\<close> and the upload actor of
  \<open>crates/daemon/src/conn.rs\<close>. An upload runs against the local store or against the spawner;
  the actor owns it and takes commands until it ends. What the system answers to each operation
  is the record \<open>upload_env\<close>. Paths are texts here, so the branch for a path that is not UTF-8
  does not occur.
\<close>

section \<open>Data\<close>

datatype upload_error =
    UeValidation upload_validation_error
  | UeStore store_error
  | UeSpawner spawn_error
  | UeLimitExceeded
  | UeMissingAccount
  | UeMalformedBackendResponse
  | UeNonUtf8Path
  | UeWorker rstring

datatype backend = SameUid store_config | ViaSpawner rstring

record upload_service =
  us_backend :: backend
  us_max_file_bytes :: u64
  us_counts :: "rstring upload_counts"

datatype 'h active_upload = ActiveSameUid "'h upload_writer" | ActiveSpawner remote_upload

record finished_upload =
  fi_upload_id :: bytes
  fi_remote_path :: rstring
  fi_bytes_written :: u64
  fi_sha256 :: bytes

text \<open>The effects of an operation: the system calls of the local store, the messages to the spawner.\<close>

record upload_effects =
  fx_calls :: call_log
  fx_messages :: "upload_daemon_msg list"

definition no_effects :: upload_effects where
  "no_effects = \<lparr>fx_calls = [], fx_messages = []\<rparr>"

definition add_effects :: "upload_effects \<Rightarrow> upload_effects \<Rightarrow> upload_effects" where
  "add_effects a b = \<lparr>fx_calls = fx_calls a @ fx_calls b, fx_messages = fx_messages a @ fx_messages b\<rparr>"

record upload_env =
  ue_os :: os
  ue_drop_os :: os
  ue_encode :: "upload_daemon_msg \<Rightarrow> rstring + bytes"
  ue_sendmsg :: "bytes \<Rightarrow> rstring option"
  ue_recvmsg :: "nat recvmsg"
  ue_decode :: "bytes \<Rightarrow> rstring + upload_reply"
  ue_worker_panic :: "rstring option"
  ue_elapsed_ms :: nat

section \<open>The service\<close>

definition service_same_uid :: "os \<Rightarrow> rstring \<Rightarrow> u64 \<Rightarrow> upload_error + upload_service" where
  "service_same_uid os root max_file_bytes =
     (case snd (store_open os \<lparr>sc_root = root, sc_max_file_bytes = max_file_bytes\<rparr>) of
        Inl e \<Rightarrow> Err (UeStore e)
      | Inr store \<Rightarrow> Ok \<lparr>us_backend = SameUid store, us_max_file_bytes = max_file_bytes, us_counts = upload_counts_default\<rparr>)"

definition service_spawner :: "rstring \<Rightarrow> u64 \<Rightarrow> upload_service" where
  "service_spawner socket max_file_bytes =
     \<lparr>us_backend = ViaSpawner socket, us_max_file_bytes = max_file_bytes, us_counts = upload_counts_default\<rparr>"

definition service_begin ::
  "'h sha2 \<Rightarrow> (nat \<Rightarrow> bytes \<times> os) \<Rightarrow> (initial_request, upload_reply, nat) exchange
     \<Rightarrow> rstring option \<Rightarrow> begin_upload \<Rightarrow> u32 \<Rightarrow> upload_service
     \<Rightarrow> upload_effects \<times> (upload_error + 'h active_upload)" where
  "service_begin S store_env x account b maximum_chunk_bytes s =
     (case validate_begin b (us_max_file_bytes s) of
        Inl e \<Rightarrow> (no_effects, Err (UeValidation e))
      | Inr _ \<Rightarrow>
          (case us_backend s of
             SameUid store \<Rightarrow>
               (case begin_with_chunk_limit S store store_env b maximum_chunk_bytes of
                  (l, Inl e) \<Rightarrow> (\<lparr>fx_calls = l, fx_messages = []\<rparr>, Err (UeStore e))
                | (l, Inr w) \<Rightarrow> (\<lparr>fx_calls = l, fx_messages = []\<rparr>, Ok (ActiveSameUid w)))
           | ViaSpawner socket \<Rightarrow>
               (case account of
                  None \<Rightarrow> (no_effects, Err UeMissingAccount)
                | Some a \<Rightarrow>
                    (case spawner_begin_upload socket x
                            \<lparr>ur_account = a, ur_original_name = bu_original_name b,
                             ur_total_bytes = bu_total_bytes b, ur_sha256 = bu_sha256 b,
                             ur_maximum_chunk_bytes = maximum_chunk_bytes\<rparr> of
                       Inl e \<Rightarrow> (no_effects, Err (UeSpawner e))
                     | Inr r \<Rightarrow> (no_effects, Ok (ActiveSpawner r))))))"

definition service_reap ::
  "int \<Rightarrow> nat \<Rightarrow> errno + (errno + dir_entry) list \<Rightarrow> upload_service \<Rightarrow> rstring list \<times> (upload_error + nat)" where
  "service_reap now retention listing s =
     (case us_backend s of
        SameUid store \<Rightarrow>
          (case reap_expired now retention listing of
             (removed, Inl e) \<Rightarrow> (removed, Err (UeStore (StoreIo e)))
           | (removed, Inr n) \<Rightarrow> (removed, Ok n))
      | ViaSpawner _ \<Rightarrow> ([], Ok 0))"

section \<open>An active upload\<close>

fun active_upload_id :: "'h active_upload \<Rightarrow> bytes" where
  "active_upload_id (ActiveSameUid w) = uw_upload_id w"
| "active_upload_id (ActiveSpawner r) = ru_upload_id r"

fun active_maximum_chunk_bytes :: "'h active_upload \<Rightarrow> u32" where
  "active_maximum_chunk_bytes (ActiveSameUid w) = uw_maximum_chunk_bytes w"
| "active_maximum_chunk_bytes (ActiveSpawner r) = ru_maximum_chunk_bytes r"

fun active_write_chunk ::
  "'h sha2 \<Rightarrow> upload_env \<Rightarrow> upload_chunk \<Rightarrow> 'h active_upload
     \<Rightarrow> upload_effects \<times> 'h active_upload \<times> (upload_error + unit)" where
  "active_write_chunk S env c (ActiveSameUid w) =
     (case write_chunk S (ue_os env) c w of
        (l, w', r) \<Rightarrow> (\<lparr>fx_calls = l, fx_messages = []\<rparr>, ActiveSameUid w', map_sum UeStore id r))"
| "active_write_chunk S env c (ActiveSpawner u) =
     (case write_wire_chunk (ue_encode env) (ue_sendmsg env) c u of
        (u', ms, r) \<Rightarrow> (\<lparr>fx_calls = [], fx_messages = ms\<rparr>, ActiveSpawner u', map_sum UeSpawner id r))"

fun active_drop :: "upload_env \<Rightarrow> 'h active_upload \<Rightarrow> upload_effects" where
  "active_drop env (ActiveSameUid w) = \<lparr>fx_calls = abort (ue_drop_os env) w, fx_messages = []\<rparr>"
| "active_drop env (ActiveSpawner u) = \<lparr>fx_calls = [], fx_messages = snd (remote_abort u)\<rparr>"

fun active_finish ::
  "'h sha2 \<Rightarrow> upload_env \<Rightarrow> bytes \<Rightarrow> 'h active_upload \<Rightarrow> upload_effects \<times> (upload_error + finished_upload)" where
  "active_finish S env upload_id (ActiveSameUid w) =
     (case finish S (ue_os env) (ue_drop_os env) upload_id w of
        (l, Inl e) \<Rightarrow> (\<lparr>fx_calls = l, fx_messages = []\<rparr>, Err (UeStore e))
      | (l, Inr c) \<Rightarrow>
          (\<lparr>fx_calls = l, fx_messages = []\<rparr>,
           Ok \<lparr>fi_upload_id = cu_upload_id c, fi_remote_path = cu_remote_path c,
               fi_bytes_written = cu_bytes_written c, fi_sha256 = cu_sha256 c\<rparr>))"
| "active_finish S env upload_id (ActiveSpawner u) =
     (if upload_id \<noteq> ru_upload_id u then
        (active_drop env (ActiveSpawner u :: 'h active_upload), Err (UeValidation InvalidUploadId))
      else
        (let fx = \<lparr>fx_calls = [], fx_messages = (if ru_open u then [UdFinish (ru_upload_id u)] else [])\<rparr> in
         case remote_finish (ue_encode env) (ue_sendmsg env) (ue_recvmsg env) (ue_decode env) u of
           Inl e \<Rightarrow> (fx, Err (UeSpawner e))
         | Inr (UrFinished i path n d) \<Rightarrow>
             if length i \<noteq> UPLOAD_ID_BYTES \<or> length d \<noteq> UPLOAD_SHA256_BYTES
             then (fx, Err UeMalformedBackendResponse)
             else (fx, Ok \<lparr>fi_upload_id = i, fi_remote_path = path, fi_bytes_written = n, fi_sha256 = d\<rparr>)
         | Inr _ \<Rightarrow> (fx, Err UeMalformedBackendResponse)))"

section \<open>Replies and audit reasons\<close>

fun upload_reject_reason :: "upload_error \<Rightarrow> reject_reason" where
  "upload_reject_reason UeLimitExceeded = ReLimitExceeded"
| "upload_reject_reason (UeValidation _) = InvalidRequest"
| "upload_reject_reason (UeStore (InvalidUpload _)) = InvalidRequest"
| "upload_reject_reason (UeSpawner (SpawnForbidden _)) = ReForbidden"
| "upload_reject_reason UeMissingAccount = ReForbidden"
| "upload_reject_reason _ = ReInternal"

fun upload_error_code :: "upload_error \<Rightarrow> error_code \<times> bool" where
  "upload_error_code UeLimitExceeded = (ErrLimitExceeded, False)"
| "upload_error_code (UeValidation (FileTooLarge _ _)) = (ErrLimitExceeded, False)"
| "upload_error_code (UeStore (InvalidUpload (FileTooLarge _ _))) = (ErrLimitExceeded, False)"
| "upload_error_code (UeStore ChecksumMismatch) = (ErrChecksumMismatch, False)"
| "upload_error_code (UeValidation _) = (ErrInvalidArgument, False)"
| "upload_error_code (UeStore (InvalidUpload _)) = (ErrInvalidArgument, False)"
| "upload_error_code (UeStore (LengthMismatch _ _)) = (ErrInvalidArgument, False)"
| "upload_error_code (UeStore InvalidChunkLimit) = (ErrInvalidArgument, False)"
| "upload_error_code UeMissingAccount = (ErrInvalidArgument, False)"
| "upload_error_code (UeSpawner (SpawnForbidden _)) = (ErrForbidden, False)"
| "upload_error_code _ = (ErrInternal, True)"

text \<open>The text of the error (its \<open>Display\<close>) is a parameter: it is shown, never read.\<close>

definition upload_error_envelope :: "(upload_error \<Rightarrow> rstring) \<Rightarrow> nat \<Rightarrow> upload_error \<Rightarrow> envelope" where
  "upload_error_envelope show_error request_id e =
     (case upload_error_code e of (code, retryable) \<Rightarrow> error_envelope request_id code (show_error e) retryable)"

section \<open>The actor\<close>

datatype upload_command = UpChunk upload_chunk | UpFinish bytes | UpAbort

text \<open>What the command queue gives: a command, its end, or nothing for 30 seconds.\<close>

datatype command_recv = Command upload_command | QueueClosed | Inactive

record upload_ids =
  ui_request_id :: nat
  ui_user :: rstring
  ui_shell_id :: bytes
  ui_server_id :: bytes

record 'ip actor_result =
  ac_events :: "'ip audit_event list"
  ac_out :: "envelope list"
  ac_effects :: upload_effects

definition fail_active_upload ::
  "(upload_error \<Rightarrow> rstring) \<Rightarrow> upload_ids \<Rightarrow> upload_error \<Rightarrow> upload_effects \<Rightarrow> 'ip actor_result" where
  "fail_active_upload show_error ids e fx =
     \<lparr>ac_events = [UploadEnded (ui_user ids) (ui_shell_id ids) Failed],
      ac_out = [upload_error_envelope show_error (ui_request_id ids) e], ac_effects = fx\<rparr>"

text \<open>
  \<open>Path::file_name\<close>: the last component, which is neither empty nor \<open>.\<close>; there is none in an
  empty path or one that ends in \<open>..\<close>, and the actor then reports \<open>upload\<close>.
\<close>

definition file_name :: "rstring \<Rightarrow> rstring" where
  "file_name p =
     (let cs = filter (\<lambda>c. c \<noteq> [] \<and> c \<noteq> lit ''.'') (split_on 47 p) in
      if cs = [] \<or> last cs = lit ''..'' then lit ''upload'' else last cs)"

definition upload_completed :: "upload_ids \<Rightarrow> nat \<Rightarrow> finished_upload \<Rightarrow> upload_effects \<Rightarrow> 'ip actor_result" where
  "upload_completed ids elapsed f fx =
     \<lparr>ac_events = [UploadCompleted (ui_user ids) (ui_shell_id ids) (file_name (fi_remote_path f))
                     (fi_bytes_written f) (of_nat elapsed)],
      ac_out = [(respond (ui_request_id ids)
                   (MUploadFinished (fi_upload_id f) (fi_remote_path f) (fi_bytes_written f) (fi_sha256 f)))
                  \<lparr>ev_server_id := ui_server_id ids, ev_shell_id := ui_shell_id ids\<rparr>],
      ac_effects = fx\<rparr>"

text \<open>
  The loop of \<open>run_upload\<close> over what the queue gives and the answers to each operation.
  \<open>None\<close> means the actor still waits for a command.
\<close>

fun run_upload ::
  "'h sha2 \<Rightarrow> (upload_error \<Rightarrow> rstring) \<Rightarrow> upload_ids \<Rightarrow> (command_recv \<times> upload_env) list \<Rightarrow> 'h active_upload
     \<Rightarrow> 'ip actor_result option" where
  "run_upload S show_error ids [] active = None"
| "run_upload S show_error ids ((recv, env) # rest) active =
     (case recv of
        QueueClosed \<Rightarrow>
          Some \<lparr>ac_events = [UploadEnded (ui_user ids) (ui_shell_id ids) Cancelled], ac_out = [],
                ac_effects = active_drop env active\<rparr>
      | Command UpAbort \<Rightarrow>
          Some \<lparr>ac_events = [UploadEnded (ui_user ids) (ui_shell_id ids) Cancelled], ac_out = [],
                ac_effects = active_drop env active\<rparr>
      | Inactive \<Rightarrow>
          Some \<lparr>ac_events = [UploadEnded (ui_user ids) (ui_shell_id ids) TimedOut],
                ac_out = [error_envelope (ui_request_id ids) ErrTooSlow (lit ''upload timed out waiting for data'') True],
                ac_effects = active_drop env active\<rparr>
      | Command (UpChunk c) \<Rightarrow>
          (case ue_worker_panic env of
             Some e \<Rightarrow> Some (fail_active_upload show_error ids (UeWorker e) (active_drop env active))
           | None \<Rightarrow>
               (case active_write_chunk S env c active of
                  (fx, active', Inl e) \<Rightarrow>
                    Some (fail_active_upload show_error ids e (add_effects fx (active_drop env active')))
                | (fx, active', Inr _) \<Rightarrow>
                    map_option (\<lambda>r. r\<lparr>ac_effects := add_effects fx (ac_effects r)\<rparr>)
                      (run_upload S show_error ids rest active')))
      | Command (UpFinish upload_id) \<Rightarrow>
          (case ue_worker_panic env of
             Some e \<Rightarrow> Some (fail_active_upload show_error ids (UeWorker e) (active_drop env active))
           | None \<Rightarrow>
               (case active_finish S env upload_id active of
                  (fx, Inl e) \<Rightarrow> Some (fail_active_upload show_error ids e fx)
                | (fx, Inr f) \<Rightarrow> Some (upload_completed ids (ue_elapsed_ms env) f fx))))"

section \<open>The actor ends once\<close>

fun final_recv :: "command_recv \<Rightarrow> bool" where
  "final_recv (Command (UpChunk _)) = False"
| "final_recv _ = True"

text \<open>The events an actor may end with.\<close>

fun end_event :: "upload_ids \<Rightarrow> 'ip audit_event \<Rightarrow> bool" where
  "end_event ids (UploadCompleted u sid _ _ _) \<longleftrightarrow> u = ui_user ids \<and> sid = ui_shell_id ids"
| "end_event ids (UploadEnded u sid _) \<longleftrightarrow> u = ui_user ids \<and> sid = ui_shell_id ids"
| "end_event ids _ \<longleftrightarrow> False"

definition ended_once :: "upload_ids \<Rightarrow> 'ip actor_result \<Rightarrow> bool" where
  "ended_once ids r \<longleftrightarrow>
     (\<exists>ev. ac_events r = [ev] \<and> end_event ids ev) \<and> length (ac_out r) \<le> 1
     \<and> list_all (\<lambda>e. ev_request_id e = ui_request_id ids) (ac_out r)"

lemma upload_error_envelope_id [simp]: "ev_request_id (upload_error_envelope sh r e) = r"
  by (simp add: upload_error_envelope_def split: prod.splits)

lemma fail_active_upload_once [simp]: "ended_once ids (fail_active_upload sh ids e fx)"
  by (simp add: ended_once_def fail_active_upload_def)

lemma upload_completed_once [simp]: "ended_once ids (upload_completed ids n f fx)"
  by (simp add: ended_once_def upload_completed_def)

lemma run_upload_once: "run_upload S sh ids cmds active = Some r \<Longrightarrow> ended_once ids r"
proof (induction cmds arbitrary: active r)
  case (Cons c cmds)
  obtain recv env where c: "c = (recv, env)" by fastforce
  have one: "ended_once ids (\<lparr>ac_events = [UploadEnded (ui_user ids) (ui_shell_id ids) o'], ac_out = es, ac_effects = fx\<rparr> :: 'a actor_result)"
    if "es = [] \<or> es = [error_envelope (ui_request_id ids) ErrTooSlow (lit ''upload timed out waiting for data'') True]"
    for o' es fx
    using that by (auto simp: ended_once_def)
  show ?case
  proof (cases recv)
    case (Command cmd)
    show ?thesis
    proof (cases cmd)
      case (UpChunk ch)
      obtain fx active' res where w: "active_write_chunk S env ch active = (fx, active', res)" by (metis prod_cases3)
      have keep: "ended_once ids (x\<lparr>ac_effects := fy\<rparr>) = ended_once ids x" for x :: "'a actor_result" and fy
        by (simp add: ended_once_def)
      show ?thesis
        using Cons.prems Cons.IH c Command UpChunk w
        by (cases "ue_worker_panic env"; cases res) (auto simp: keep)
    next
      case (UpFinish i)
      obtain fx res where f: "active_finish S env i active = (fx, res)" by fastforce
      show ?thesis
        using Cons.prems c Command UpFinish f by (cases "ue_worker_panic env"; cases res) auto
    qed (use Cons.prems c Command one in auto)
  qed (use Cons.prems c one in auto)
qed simp

lemma run_upload_ends: "list_ex (final_recv \<circ> fst) cmds \<Longrightarrow> run_upload S sh ids cmds active \<noteq> None"
proof (induction cmds arbitrary: active)
  case (Cons c cmds)
  obtain recv env where c: "c = (recv, env)" by fastforce
  show ?case
  proof (cases "final_recv recv")
    case True
    then show ?thesis using c
      by (cases recv rule: final_recv.cases) (auto split: option.splits sum.splits prod.splits)
  next
    case False
    then obtain ch where recv: "recv = Command (UpChunk ch)" by (cases recv rule: final_recv.cases) auto
    obtain fx active' res where w: "active_write_chunk S env ch active = (fx, active', res)" by (metis prod_cases3)
    show ?thesis
      using Cons.IH [of active'] Cons.prems c recv w by (cases "ue_worker_panic env"; cases res) auto
  qed
qed simp

lemma end_event_gauge:
  "end_event ids ev \<Longrightarrow> uploads_active c + 1 \<noteq> 0 \<Longrightarrow>
     uploads_active (increment ev (increment (UploadStarted u sid name n) c)) = uploads_active c"
  by (cases ev) (auto simp: saturating_pred_def Let_def split: upload_outcome.splits)

section \<open>The actor on disk\<close>

text \<open>What a finished actor of a local upload leaves on disk.\<close>

definition on_disk ::
  "'h sha2 \<Rightarrow> begin_upload \<Rightarrow> bytes \<Rightarrow> upload_root \<Rightarrow> 'ip audit_event \<Rightarrow> upload_root \<Rightarrow> bool" where
  "on_disk S b i fs ev fs' \<longleftrightarrow>
     (case ev of
        UploadCompleted _ _ name n _ \<Rightarrow>
          name = sanitize_basename (bu_original_name b) \<and> n = bu_total_bytes b
          \<and> (\<exists>data. length data = unat (bu_total_bytes b) \<and> sha_digest S data = bu_sha256 b
                \<and> fs' = fs @ [(hex_id i, committed_dir name None data)])
      | _ \<Rightarrow> fs' = fs)"

lemma split_on_two: "split_on sep (p @ sep # q) = split_on sep p @ split_on sep q"
proof (induction p)
  case (Cons c p)
  then show ?case by (cases "split_on sep p") auto
qed simp

lemma split_on_last: "sep \<notin> set q \<Longrightarrow> last (split_on sep (p @ sep # q)) = q"
  by (simp add: split_on_two split_on_no_sep)

lemma file_name_join:
  assumes "47 \<notin> set q" and "q \<noteq> []" and "q \<notin> {lit ''.'', lit ''..''}"
  shows "file_name (path_join p q) = q"
proof -
  have na: "\<not> is_absolute q" using assms(1,2) by (cases q) (auto simp: is_absolute_def)
  have l: "last (split_on 47 (path_join p q)) = q"
  proof (cases "p = []")
    case True
    then show ?thesis using assms(1) na by (simp add: path_join_def split_on_no_sep)
  next
    case False
    show ?thesis
    proof (cases "last p = 47")
      case True
      then have "path_join p q = butlast p @ 47 # q" using False na
        by (simp add: path_join_def) (metis append_butlast_last_id append_eq_Cons_conv append_Cons append_assoc append_Nil)
      then show ?thesis using assms(1) by (simp add: split_on_last)
    next
      case no: False
      then show ?thesis using False na assms(1) by (simp add: path_join_def split_on_last)
    qed
  qed
  let ?cs = "split_on 47 (path_join p q)" and ?P = "\<lambda>c. c \<noteq> [] \<and> c \<noteq> lit ''.''"
  have q: "?P q" using assms by simp
  obtain xs where "?cs = xs @ [q]" using l append_butlast_last_id [OF split_on_not_Nil] by metis
  then have "filter ?P ?cs = filter ?P xs @ [q]" using q by simp
  then show ?thesis using assms(3) by (simp add: file_name_def Let_def)
qed

lemma file_name_committed: "commit_exact S config b i data c \<Longrightarrow> file_name (cu_remote_path c) = sanitize_basename (bu_original_name b)"
proof -
  note s = sanitize_basename_safe [of "bu_original_name b", unfolded Let_def]
  show "commit_exact S config b i data c \<Longrightarrow> ?thesis"
    unfolding commit_exact_def using s by (simp add: file_name_join)
qed

lemma drop_on_disk:
  assumes "map_of fs (hex_id i) = None"
    and "fs_replay (fs @ [(hex_id i, partial_dir data)])
           (fx_calls (active_drop env (ActiveSameUid (writer_at S config b i mx dn)))) = Some fs'"
  shows "fs' = fs"
  using drop_replay [OF assms(1), of "writer_at S config b i mx dn" "partial_dir data"] assms(2)
  by (simp add: abort_def partial_dir_def)

lemma on_disk_ended [simp]: "on_disk S b i fs (UploadEnded u sid out) fs' \<longleftrightarrow> fs' = fs"
  by (simp add: on_disk_def)

lemma actor_chunk_failed:
  assumes "streaming S" and "length data \<le> unat (bu_total_bytes b)" and "map_of fs (hex_id i) = None"
    and "active_write_chunk S env ch (ActiveSameUid (writer_at S config b i mx data)) = (fx, active', Inl e)"
    and "fs_replay (fs @ [(hex_id i, partial_dir data)])
           (fx_calls (add_effects fx (active_drop env active'))) = Some fs'"
  shows "fs' = fs"
proof -
  obtain l w' e' where w: "write_chunk S (ue_os env) ch (writer_at S config b i mx data) = (l, w', Inl e')"
    and a: "fx_calls fx = l" "active' = ActiveSameUid w'"
    using assms(4) by (auto split: prod.splits) (metis map_sum.simps(2) old.sum.exhaust sum.distinct(1))
  obtain fs1 where f: "fs_replay (fs @ [(hex_id i, partial_dir data)]) l = Some fs1"
    "fs_replay fs1 (fx_calls (active_drop env active')) = Some fs'"
    using assms(5) a(1) by (auto simp: add_effects_def fs_replay_append split: option.splits)
  obtain data' where "w' = writer_at S config b i mx data" "fs1 = fs @ [(hex_id i, partial_dir data')]"
    using write_chunk_replay [OF assms(1-3) w f(1)] by auto
  then show ?thesis using drop_on_disk [OF assms(3)] f(2) a(2) by metis
qed

lemma actor_finish:
  assumes "length data \<le> unat (bu_total_bytes b)" and "map_of fs (hex_id i) = None"
    and "active_finish S env upid (ActiveSameUid (writer_at S config b i mx data)) = (fx, r)"
    and "fs_replay (fs @ [(hex_id i, partial_dir data)]) (fx_calls fx) = Some fs'"
  shows "case r of Inl e \<Rightarrow> fs' = fs | Inr f \<Rightarrow> on_disk S b i fs (hd (ac_events (upload_completed ids n f fx))) fs'"
proof -
  let ?w = "writer_at S config b i mx data"
  obtain l r' where f: "finish S (ue_os env) (ue_drop_os env) upid ?w = (l, r')" by fastforce
  have fx: "fx_calls fx = l" using assms(3) f by (cases r') auto
  have fi: "(case finish_inner S (ue_os env) upid None ?w of (l, w', r) \<Rightarrow> (l @ writer_drop (ue_drop_os env) w', r)) = (l, r')"
    using f by (simp add: finish_def)
  note fin = finish_replay [OF assms(1,2) refl fi assms(4) [unfolded fx]]
  show ?thesis
  proof (cases r')
    case (Inl e)
    then show ?thesis using fin assms(3) f by auto
  next
    case (Inr c)
    then have c: "commit_exact S config b i data c"
      "fs' = fs @ [(hex_id i, committed_dir (sanitize_basename (bu_original_name b)) None data)]"
      using fin by auto
    have "r = Ok \<lparr>fi_upload_id = cu_upload_id c, fi_remote_path = cu_remote_path c,
        fi_bytes_written = cu_bytes_written c, fi_sha256 = cu_sha256 c\<rparr>" using assms(3) f Inr by auto
    then show ?thesis
      using c file_name_committed [OF c(1)] by (auto simp: on_disk_def upload_completed_def commit_exact_def)
  qed
qed

lemma actor_replay:
  assumes "streaming S" and "map_of fs (hex_id i) = None" and "length data \<le> unat (bu_total_bytes b)"
    and "run_upload S sh ids cmds (ActiveSameUid (writer_at S config b i mx data)) = Some r"
    and "fs_replay (fs @ [(hex_id i, partial_dir data)]) (fx_calls (ac_effects r)) = Some fs'"
  shows "on_disk S b i fs (hd (ac_events r)) fs'"
  using assms(3-5)
proof (induction cmds arbitrary: data r)
  case (Cons c cmds)
  let ?a = "ActiveSameUid (writer_at S config b i mx data)"
  obtain recv env where c: "c = (recv, env)" by fastforce
  note dropped = drop_on_disk [OF assms(2), of data env S config b mx data fs']
  show ?case
  proof (cases recv)
    case (Command cmd)
    show ?thesis
    proof (cases cmd)
      case (UpChunk ch)
      obtain fx a' res where w: "active_write_chunk S env ch ?a = (fx, a', res)" by (metis prod_cases3)
      show ?thesis
      proof (cases "ue_worker_panic env")
        case None
        show ?thesis
        proof (cases res)
          case (Inl e)
          then show ?thesis
            using Cons.prems c Command UpChunk w None actor_chunk_failed [OF assms(1) Cons.prems(1) assms(2)]
            by (auto simp: fail_active_upload_def)
        next
          case (Inr u)
          obtain l w' where wc: "write_chunk S (ue_os env) ch (writer_at S config b i mx data) = (l, w', Ok ())"
            and fx: "fx_calls fx = l" "a' = ActiveSameUid w'"
            using w Inr by (auto split: prod.splits) (metis map_sum.simps(1) old.sum.exhaust old.unit.exhaust sum.distinct(1))
          obtain r' where r': "run_upload S sh ids cmds a' = Some r'"
            "r = r'\<lparr>ac_effects := add_effects fx (ac_effects r')\<rparr>"
            using Cons.prems(2) c Command UpChunk w None Inr by auto
          obtain fs1 where f: "fs_replay (fs @ [(hex_id i, partial_dir data)]) l = Some fs1"
            "fs_replay fs1 (fx_calls (ac_effects r')) = Some fs'"
            using Cons.prems(3) r'(2) fx(1) by (auto simp: add_effects_def fs_replay_append split: option.splits)
          show ?thesis
            using write_chunk_replay [OF assms(1) Cons.prems(1) assms(2) wc f(1)] Cons.IH [of "data @ uc_data ch" r'] r' f(2) fx(2) by auto
        qed
      qed (use Cons.prems c Command UpChunk dropped in \<open>auto simp: fail_active_upload_def\<close>)
    next
      case (UpFinish upid)
      obtain fx res where f: "active_finish S env upid ?a = (fx, res)" by fastforce
      show ?thesis
      proof (cases "ue_worker_panic env")
        case None
        show ?thesis
        proof (cases res)
          case (Inl e)
          then show ?thesis
            using Cons.prems c Command UpFinish f None actor_finish [OF Cons.prems(1) assms(2) f, of fs']
            by (auto simp: fail_active_upload_def)
        next
          case (Inr g)
          then have r: "r = upload_completed ids (ue_elapsed_ms env) g fx"
            using Cons.prems(2) c Command UpFinish f None by auto
          then have "fs_replay (fs @ [(hex_id i, partial_dir data)]) (fx_calls fx) = Some fs'"
            using Cons.prems(3) by (simp add: upload_completed_def)
          then show ?thesis
            using actor_finish [OF Cons.prems(1) assms(2) f, of fs' ids "ue_elapsed_ms env"] Inr r by simp
        qed
      qed (use Cons.prems c Command UpFinish dropped in \<open>auto simp: fail_active_upload_def\<close>)
    qed (use Cons.prems c Command dropped in auto)
  qed (use Cons.prems c dropped in auto)
qed simp

section \<open>Properties\<close>


definition demo_env :: upload_env where
  "demo_env = \<lparr>ue_os = (\<lambda>c. Success), ue_drop_os = (\<lambda>c. Success), ue_encode = (\<lambda>m. Ok []), ue_sendmsg = (\<lambda>b. None),
               ue_recvmsg = Ok ([], []), ue_decode = (\<lambda>b. Err []), ue_worker_panic = None, ue_elapsed_ms = 5\<rparr>"

definition demo_ids :: upload_ids where
  "demo_ids = \<lparr>ui_request_id = 9, ui_user = lit ''u'', ui_shell_id = [1], ui_server_id = [2]\<rparr>"

definition demo_writer :: "bytes upload_writer" where
  "demo_writer = fresh_writer demo_sha (store_config_new (lit ''/up'')) demo_begin (replicate 16 1) 8"

definition demo_begin_log :: call_log where
  "demo_begin_log =
     (let d = hex_id (replicate 16 1) in
      [(Mkdirat d DIRECTORY_MODE, Success), (OpenDir d, Success), (FchmodDir d DIRECTORY_MODE, Success),
       (Create d PARTIAL_NAME FILE_MODE, Success), (FchmodFile d FILE_MODE, Success)])"

definition demo_service :: upload_service where
  "demo_service = \<lparr>us_backend = SameUid (store_config_new (lit ''/up'')), us_max_file_bytes = UPLOAD_FILE_BYTES_DEFAULT,
                   us_counts = upload_counts_default\<rparr>"

lemma demo_service_begin:
  "service_begin demo_sha (\<lambda>n. (replicate 16 1, \<lambda>c. Success)) x account demo_begin 8 demo_service
     = (\<lparr>fx_calls = demo_begin_log, fx_messages = []\<rparr>, Ok (ActiveSameUid demo_writer))"
proof -
  have r: "[0..<RANDOM_ID_ATTEMPTS] = 0 # [1..<RANDOM_ID_ATTEMPTS]"
    by (simp add: RANDOM_ID_ATTEMPTS_def upt_conv_Cons)
  have m: "min (8 :: u32) (of_nat UPLOAD_CHUNK_BYTES_MAX) = 8" by (simp add: UPLOAD_CHUNK_BYTES_MAX_def)
  have v: "validate_begin demo_begin UPLOAD_FILE_BYTES_DEFAULT = Ok ()"
    using demo_valid(1) by (simp add: store_config_new_def)
  show ?thesis
    by (simp add: service_begin_def demo_service_def v begin_with_chunk_limit_def demo_valid r m begin_with_id_def
        open_new_writer_def Let_def demo_begin_log_def demo_writer_def fresh_writer_def)
qed

definition demo_commands :: "(command_recv \<times> upload_env) list" where
  "demo_commands = [(Command (UpChunk demo_chunk), demo_env), (Command (UpFinish (replicate 16 1)), demo_env)]"

lemma demo_actor:
  "\<exists>r :: nat actor_result. run_upload demo_sha (\<lambda>e. []) demo_ids demo_commands (ActiveSameUid demo_writer) = Some r
     \<and> fs_replay [] (demo_begin_log @ fx_calls (ac_effects r)) \<noteq> None
     \<and> (\<exists>name. ac_events r = [UploadCompleted (lit ''u'') [1] name 2 5])"
proof -
  have d: "take 32 ([7, 8 :: u8] @ replicate 32 0) = [7, 8] @ replicate 30 0" by simp
  have f: "bu_total_bytes demo_begin = 2" "bu_sha256 demo_begin = [7, 8] @ replicate 30 0"
    "uc_data demo_chunk = [7, 8]" by (simp_all add: demo_begin_def demo_chunk_def)
  note sb = sanitize_basename_not_partial [of "bu_original_name demo_begin"]
  show ?thesis
    using sb
    by (simp add: demo_commands_def demo_env_def demo_writer_def fresh_writer_def write_chunk_def demo_valid Let_def f
        finish_def finish_inner_def demo_sha_def d writer_drop_def commit_calls_def upload_completed_def
        demo_ids_def add_effects_def demo_begin_log_def empty_dir_def)
qed


text \<open>
  Every upload actor ends and is accounted for: once the queue delivers a finish, an abort,
  its end or thirty seconds of silence, at the latest, the actor returns; it records exactly one
  end event for the right user and shell, sends at most one final message, which carries the
  identifier of the begin request, and the gauge of active uploads is back where it was before
  the upload started.
\<close>

theorem upload_actor_ends:
  assumes "list_ex (\<lambda>p. final_recv (fst p)) cmds" and "uploads_active c + 1 \<noteq> 0"
  shows "\<exists>(r :: 'ip actor_result) ev. run_upload S show_error ids cmds active = Some r \<and> ac_events r = [ev] \<and> length (ac_out r) \<le> 1
           \<and> list_all (\<lambda>e. ev_request_id e = ui_request_id ids) (ac_out r)
           \<and> uploads_active (increment ev (increment (UploadStarted (ui_user ids) (ui_shell_id ids) name n :: 'ip audit_event) c))
             = uploads_active c"
proof -
  obtain r :: "'ip actor_result" where r: "run_upload S show_error ids cmds active = Some r"
    using run_upload_ends [of cmds S show_error ids active] assms(1) by (auto simp: comp_def)
  then obtain ev where ev: "ac_events r = [ev]" "end_event ids ev" "length (ac_out r) \<le> 1"
    "list_all (\<lambda>e. ev_request_id e = ui_request_id ids) (ac_out r)"
    using run_upload_once [OF r] by (auto simp: ended_once_def)
  then show ?thesis using r end_event_gauge [OF ev(2) assms(2)] by blast
qed

theorem upload_actor_ends_witness:
  "\<exists>(r :: nat actor_result) ev.
     run_upload demo_sha (\<lambda>e. []) demo_ids demo_commands (ActiveSameUid demo_writer) = Some r \<and> ac_events r = [ev]
     \<and> uploads_active (increment ev (increment (UploadStarted (lit ''u'') [1] [] 2) counters_default)) = 0"
proof -
  have "list_ex (\<lambda>p. final_recv (fst p)) demo_commands" by (simp add: demo_commands_def)
  from upload_actor_ends [OF this, of counters_default demo_sha "\<lambda>e. []" demo_ids "ActiveSameUid demo_writer" "[]" 2]
  show ?thesis by (auto simp: counters_default_def demo_ids_def)
qed

end
