(* ===== verification/Conn.thy ===== *)
theory Conn
  imports Session_Safety Ssh_Auth Forward Upload_Service Ids
begin

text \<open>
  The per-connection dispatcher, \<open>crates/daemon/src/conn.rs\<close>: authentication, the control
  channel, attachment, upload and forward channels. One definition per arm of \<open>dispatch\<close>. A
  handler takes the connection with the shared state it holds and returns it with the verdict
  of the code: whether the connection stays open. \<open>None\<close> is a panic of the connection's task.
  What other packages do is the record \<open>packages\<close>; clocks, fresh random values, the answers of
  PTYs, stores and blocking workers during one dispatch are the record \<open>answers\<close>.
\<close>

section \<open>State\<close>

definition KEEPALIVE_INTERVAL_MS :: u32 where "KEEPALIVE_INTERVAL_MS = 15000"

text \<open>The shared state; what only the transports read (origins, certificate data) is left out.\<close>

record ('vt, 'pub, 'sk, 'pk, 'ip) app_state =
  ap_server_id :: bytes
  ap_manager :: "'vt shell_manager"
  ap_observability :: "'ip observability"
  ap_auth :: "('pub, 'sk, 'pk, 'ip) auth_state"
  ap_uploads :: "upload_service option"
  ap_forwards :: forward_service

record binding =
  bd_shell_id :: bytes
  bd_attachment_id :: nat

text \<open>
  The sender of an upload's command queue: what was sent through it, and whether the actor has
  dropped the receiver. The actor it was spawned with is kept beside it.
\<close>

record 'h upload_binding =
  ub_upload_id :: bytes
  ub_commands :: "upload_command list"
  ub_closed :: bool
  ub_ids :: upload_ids
  ub_active :: "'h active_upload"

record forward_binding =
  fb_host :: rstring
  fb_port :: nat
  fb_user :: rstring
  fb_task :: forward_state

text \<open>
  \<open>cn_out\<close> is what this connection's task put into the outgoing queue; \<open>cn_dropped\<close> the upload
  senders and \<open>cn_aborted\<close> the forwards it gave up; \<open>cn_begun\<close> the effects of begun uploads.
\<close>

record ('vt, 'pub, 'sk, 'pk, 'ip, 'h) conn =
  cn_state :: "('vt, 'pub, 'sk, 'pk, 'ip) app_state"
  cn_peer_ip :: 'ip
  cn_negotiated :: "negotiated option"
  cn_authenticated :: bool
  cn_user_id :: rstring
  cn_op_scope :: "rstring list option"
  cn_channel_binding :: bytes
  cn_pending_challenge :: "(rstring \<times> bytes) option"
  cn_transport_datagrams :: bool
  cn_attachments :: "(nat \<times> binding) list"
  cn_uploads :: "(nat \<times> 'h upload_binding) list"
  cn_forwards :: "(nat \<times> forward_binding) list"
  cn_out :: "(nat \<times> envelope) list"
  cn_dropped :: "'h upload_binding list"
  cn_aborted :: "forward_binding list"
  cn_begun :: "upload_effects list"

record ('vt, 'pub, 'kd, 'sig, 'sk, 'pk, 'h) packages =
  pk_avt :: "'vt avt_ops"
  pk_sha256 :: "bytes \<Rightarrow> bytes"
  pk_ssh :: "('pub, 'kd, 'sig) ssh_lib"
  pk_grants :: "('sk, 'pk) grant_codec"
  pk_sha2 :: "'h sha2"
  pk_is_ip :: "rstring \<Rightarrow> bool"
  pk_show_upload_error :: "upload_error \<Rightarrow> rstring"

text \<open>\<open>an_out n\<close>: the outgoing queue still has its receiver at the \<open>n\<close>th send of the dispatch.\<close>

record 'vt answers =
  an_instant :: nat
  an_fail_instant :: nat
  an_verify_ms :: int
  an_audit_ms :: int
  an_iat_ms :: int
  an_exp_base_ms :: int
  an_challenge :: bytes
  an_jti :: bytes
  an_password_panics :: bool
  an_world :: launch_world
  an_shell_id :: bytes
  an_token :: bytes
  an_shell_ms :: int
  an_join_error :: rstring
  an_kill :: "pty_error + unit"
  an_await :: "'vt shell_manager \<Rightarrow> 'vt shell_manager \<times> 'vt shell_entry \<times> bool"
  an_resize :: "pty_error + unit"
  an_write :: "pty_error + unit"
  an_store :: "nat \<Rightarrow> bytes \<times> os"
  an_exchange :: "(initial_request, upload_reply, nat) exchange"
  an_begin_panic :: "rstring option"
  an_command_sent :: bool
  an_thread :: bool
  an_out :: "nat \<Rightarrow> bool"

definition conn_new ::
  "('vt, 'pub, 'sk, 'pk, 'ip) app_state \<Rightarrow> 'ip \<Rightarrow> bool \<Rightarrow> bytes \<Rightarrow> ('vt, 'pub, 'sk, 'pk, 'ip, 'h) conn" where
  "conn_new state peer_ip transport_datagrams channel_binding =
     \<lparr>cn_state = state, cn_peer_ip = peer_ip, cn_negotiated = None, cn_authenticated = False,
      cn_user_id = [], cn_op_scope = None, cn_channel_binding = channel_binding,
      cn_pending_challenge = None, cn_transport_datagrams = transport_datagrams,
      cn_attachments = [], cn_uploads = [], cn_forwards = [], cn_out = [],
      cn_dropped = [], cn_aborted = [], cn_begun = []\<rparr>"

definition max_frame_bytes_of :: "('vt, 'pub, 'sk, 'pk, 'ip, 'h) conn \<Rightarrow> u32" where
  "max_frame_bytes_of c =
     (case cn_negotiated c of Some n \<Rightarrow> max_frame_bytes n | None \<Rightarrow> FRAME_BYTES_DEFAULT)"

definition conn_permits :: "('vt, 'pub, 'sk, 'pk, 'ip, 'h) conn \<Rightarrow> rstring \<Rightarrow> bool" where
  "conn_permits c op = (case cn_op_scope c of None \<Rightarrow> True | Some scope \<Rightarrow> list_ex (\<lambda>x. x = op) scope)"

section \<open>Shared state and the outgoing queue\<close>

definition set_manager ::
  "'vt shell_manager \<Rightarrow> ('vt, 'pub, 'sk, 'pk, 'ip, 'h) conn \<Rightarrow> ('vt, 'pub, 'sk, 'pk, 'ip, 'h) conn" where
  "set_manager m c = c\<lparr>cn_state := (cn_state c)\<lparr>ap_manager := m\<rparr>\<rparr>"

abbreviation manager :: "('vt, 'pub, 'sk, 'pk, 'ip, 'h) conn \<Rightarrow> 'vt shell_manager" where
  "manager c \<equiv> ap_manager (cn_state c)"

definition set_limiter ::
  "('ip rate_limiter \<Rightarrow> 'ip rate_limiter) \<Rightarrow> ('vt, 'pub, 'sk, 'pk, 'ip, 'h) conn
     \<Rightarrow> ('vt, 'pub, 'sk, 'pk, 'ip, 'h) conn" where
  "set_limiter f c =
     c\<lparr>cn_state := (cn_state c)\<lparr>ap_auth := (ap_auth (cn_state c))
          \<lparr>au_rate_limiter := f (au_rate_limiter (ap_auth (cn_state c)))\<rparr>\<rparr>\<rparr>"

text \<open>\<open>observability.record\<close>, at the time the clock shows.\<close>

definition audit ::
  "'vt answers \<Rightarrow> 'ip audit_event \<Rightarrow> ('vt, 'pub, 'sk, 'pk, 'ip, 'h) conn \<Rightarrow> ('vt, 'pub, 'sk, 'pk, 'ip, 'h) conn" where
  "audit A ev c =
     c\<lparr>cn_state := (cn_state c)\<lparr>ap_observability :=
         record_event (an_audit_ms A) ev (ap_observability (cn_state c))\<rparr>\<rparr>"

definition send_nth ::
  "nat \<Rightarrow> 'vt answers \<Rightarrow> nat \<Rightarrow> envelope \<Rightarrow> ('vt, 'pub, 'sk, 'pk, 'ip, 'h) conn
     \<Rightarrow> ('vt, 'pub, 'sk, 'pk, 'ip, 'h) conn \<times> bool" where
  "send_nth n A ch env c =
     (if an_out A n then (c\<lparr>cn_out := cn_out c @ [(ch, env)]\<rparr>, True) else (c, False))"

abbreviation send ::
  "'vt answers \<Rightarrow> nat \<Rightarrow> envelope \<Rightarrow> ('vt, 'pub, 'sk, 'pk, 'ip, 'h) conn
     \<Rightarrow> ('vt, 'pub, 'sk, 'pk, 'ip, 'h) conn \<times> bool" where
  "send \<equiv> send_nth 0"

definition send_error ::
  "'vt answers \<Rightarrow> nat \<Rightarrow> error_code \<Rightarrow> rstring \<Rightarrow> ('vt, 'pub, 'sk, 'pk, 'ip, 'h) conn
     \<Rightarrow> ('vt, 'pub, 'sk, 'pk, 'ip, 'h) conn \<times> bool" where
  "send_error A ch code txt c = send A ch (error_envelope 0 code txt False) c"

section \<open>Error texts and codes\<close>

fun pty_error_string :: "pty_error \<Rightarrow> rstring" where
  "pty_error_string (PtyOpen s) = lit ''failed to open PTY: '' @ s"
| "pty_error_string (PtySpawn s) = lit ''failed to spawn child: '' @ s"
| "pty_error_string (PtyIo s) = lit ''PTY I/O error: '' @ s"
| "pty_error_string (PtyResize s) = lit ''resize failed: '' @ s"

fun session_error_string :: "session_error \<Rightarrow> rstring" where
  "session_error_string ShellNotFound = lit ''shell not found''"
| "session_error_string NotRunning = lit ''shell is not running''"
| "session_error_string (LimitExceeded s) = lit ''limit exceeded: '' @ s"
| "session_error_string Forbidden = lit ''not authorized to run a shell under the requested account''"
| "session_error_string InvalidToken = lit ''invalid, expired or rotated resume token''"
| "session_error_string TokenReplayed = lit ''resume token already superseded (possible replay)''"
| "session_error_string (Pty e) = pty_error_string e"
| "session_error_string (Internal s) = lit ''internal error: '' @ s"

fun negotiation_error_string :: "negotiation_error \<Rightarrow> rstring" where
  "negotiation_error_string (MajorVersion client server) =
     lit ''incompatible protocol major version '' @ show_nat (unat client)
     @ lit '' (server implements '' @ show_nat (unat server) @ lit '')''"
| "negotiation_error_string NoUtf8 = lit ''client does not support UTF-8 encoding''"
| "negotiation_error_string (FrameLimitTooSmall n) =
     lit ''proposed max_frame_bytes '' @ show_nat (unat n) @ lit '' is below the protocol floor ''
     @ show_nat (unat FRAME_BYTES_FLOOR)"

fun reject_reason_of :: "session_error \<Rightarrow> reject_reason" where
  "reject_reason_of ShellNotFound = NotFound"
| "reject_reason_of NotRunning = ReNotRunning"
| "reject_reason_of (LimitExceeded _) = ReLimitExceeded"
| "reject_reason_of Forbidden = ReForbidden"
| "reject_reason_of InvalidToken = ReInvalidToken"
| "reject_reason_of TokenReplayed = ReTokenReplayed"
| "reject_reason_of (Pty _) = ReInternal"
| "reject_reason_of (Internal _) = ReInternal"

fun session_error_code :: "session_error \<Rightarrow> error_code \<times> bool" where
  "session_error_code ShellNotFound = (ErrNotFound, False)"
| "session_error_code NotRunning = (ErrNotFound, False)"
| "session_error_code (LimitExceeded _) = (ErrLimitExceeded, True)"
| "session_error_code Forbidden = (ErrForbidden, False)"
| "session_error_code InvalidToken = (ErrTokenExpired, False)"
| "session_error_code TokenReplayed = (ErrTokenReplayed, False)"
| "session_error_code (Pty _) = (ErrInternal, True)"
| "session_error_code (Internal _) = (ErrInternal, True)"

definition session_error_envelope :: "nat \<Rightarrow> session_error \<Rightarrow> envelope" where
  "session_error_envelope request_id e =
     (case session_error_code e of
        (code, retryable) \<Rightarrow> error_envelope request_id code (session_error_string e) retryable)"

fun shell_state_pb :: "shell_state \<Rightarrow> pb_shell_state" where
  "shell_state_pb Running = PbRunning"
| "shell_state_pb Terminating = PbTerminating"
| "shell_state_pb Exited = PbExited"

definition hex16 :: "bytes \<Rightarrow> rstring" where
  "hex16 bs = hex_string bs"

section \<open>Closing channels\<close>

definition drop_upload ::
  "nat \<Rightarrow> ('vt, 'pub, 'sk, 'pk, 'ip, 'h) conn \<Rightarrow> ('vt, 'pub, 'sk, 'pk, 'ip, 'h) conn" where
  "drop_upload ch c =
     c\<lparr>cn_dropped := cn_dropped c @ map snd (filter (\<lambda>(k, _). k = ch) (cn_uploads c)),
       cn_uploads := assoc_del ch (cn_uploads c)\<rparr>"

definition abort_binding :: "forward_binding \<Rightarrow> forward_binding" where
  "abort_binding b = b\<lparr>fb_task := forward_abort (fb_task b)\<rparr>"

text \<open>The drop of a forward's binding aborts its task.\<close>

definition drop_forward ::
  "nat \<Rightarrow> ('vt, 'pub, 'sk, 'pk, 'ip, 'h) conn \<Rightarrow> ('vt, 'pub, 'sk, 'pk, 'ip, 'h) conn" where
  "drop_forward ch c =
     c\<lparr>cn_aborted := cn_aborted c @ map (abort_binding \<circ> snd) (filter (\<lambda>(k, _). k = ch) (cn_forwards c)),
       cn_forwards := assoc_del ch (cn_forwards c)\<rparr>"

definition detach_binding ::
  "'vt answers \<Rightarrow> binding \<Rightarrow> ('vt, 'pub, 'sk, 'pk, 'ip, 'h) conn \<Rightarrow> ('vt, 'pub, 'sk, 'pk, 'ip, 'h) conn" where
  "detach_binding A b c =
     audit A (ShellDetached (cn_user_id c) (bd_shell_id b))
       (set_manager (fst (detach (bd_shell_id b) (bd_attachment_id b) (manager c))) c)"

definition remove_attachment ::
  "'vt answers \<Rightarrow> nat \<Rightarrow> ('vt, 'pub, 'sk, 'pk, 'ip, 'h) conn \<Rightarrow> ('vt, 'pub, 'sk, 'pk, 'ip, 'h) conn" where
  "remove_attachment A ch c =
     (case map_of (cn_attachments c) ch of
        None \<Rightarrow> c
      | Some b \<Rightarrow> detach_binding A b (c\<lparr>cn_attachments := assoc_del ch (cn_attachments c)\<rparr>))"

definition channel_closed ::
  "'vt answers \<Rightarrow> nat \<Rightarrow> ('vt, 'pub, 'sk, 'pk, 'ip, 'h) conn \<Rightarrow> ('vt, 'pub, 'sk, 'pk, 'ip, 'h) conn" where
  "channel_closed A ch c = remove_attachment A ch (drop_forward ch (drop_upload ch c))"

definition detach_all ::
  "'vt answers \<Rightarrow> ('vt, 'pub, 'sk, 'pk, 'ip, 'h) conn \<Rightarrow> ('vt, 'pub, 'sk, 'pk, 'ip, 'h) conn" where
  "detach_all A c =
     (let c1 = c\<lparr>cn_dropped := cn_dropped c @ map snd (cn_uploads c), cn_uploads := [],
                 cn_aborted := cn_aborted c @ map (abort_binding \<circ> snd) (cn_forwards c), cn_forwards := [],
                 cn_attachments := []\<rparr>
      in foldl (\<lambda>c' (_, b). detach_binding A b c') c1 (cn_attachments c))"

section \<open>Authentication\<close>

text \<open>\<open>String::from_utf8_lossy\<close>: every maximal invalid part becomes one replacement character.\<close>

function from_utf8_lossy :: "bytes \<Rightarrow> rstring" where
  "from_utf8_lossy bs =
     (if bs = [] then []
      else (case utf8_next bs of
              Scalar c w \<Rightarrow> c # from_utf8_lossy (drop w bs)
            | Bad n \<Rightarrow> 0xFFFD # from_utf8_lossy (drop n bs)
            | Truncated \<Rightarrow> [0xFFFD]))"
  by pat_completeness auto
termination
  by (relation "measure length") (auto dest: utf8_next_Scalar(1) utf8_next_Bad(1))

declare from_utf8_lossy.simps [simp del]

definition fail_auth ::
  "'vt answers \<Rightarrow> nat \<Rightarrow> rstring \<Rightarrow> ('vt, 'pub, 'sk, 'pk, 'ip, 'h) conn
     \<Rightarrow> ('vt, 'pub, 'sk, 'pk, 'ip, 'h) conn \<times> bool" where
  "fail_auth A request_id txt c =
     send A 0 (auth_failure request_id ErrUnauthenticated txt)
       (audit A (AuthenticationFailed (cn_peer_ip c) InvalidRequest)
          (set_limiter (record_failure (cn_peer_ip c) (an_fail_instant A)) c))"

text \<open>The state every accepted proof of identity leads to.\<close>

definition accept_user ::
  "'vt answers \<Rightarrow> rstring \<Rightarrow> auth_method \<Rightarrow> ('vt, 'pub, 'sk, 'pk, 'ip, 'h) conn
     \<Rightarrow> ('vt, 'pub, 'sk, 'pk, 'ip, 'h) conn" where
  "accept_user A user me c =
     audit A (AuthenticationSucceeded user (cn_peer_ip c) me)
       (set_limiter (record_success (cn_peer_ip c)) (c\<lparr>cn_authenticated := True, cn_user_id := user\<rparr>))"

definition session_claims :: "'vt answers \<Rightarrow> rstring \<Rightarrow> rstring \<Rightarrow> grant_claims" where
  "session_claims A user audience =
     \<lparr>sub = user, aud = audience, servers = [], ops = [], iat_ms = an_iat_ms A,
      exp_ms = saturating_add_i64 (an_exp_base_ms A) (12 * 3600 * 1000), jti = hex16 (an_jti A)\<rparr>"

definition succeed_issuing_grant ::
  "('vt, 'pub, 'kd, 'sig, 'sk, 'pk, 'h) packages \<Rightarrow> 'vt answers \<Rightarrow> nat \<Rightarrow> rstring \<Rightarrow> auth_method
     \<Rightarrow> ('vt, 'pub, 'sk, 'pk, 'ip, 'h) conn \<Rightarrow> ('vt, 'pub, 'sk, 'pk, 'ip, 'h) conn \<times> bool" where
  "succeed_issuing_grant P A request_id user me c =
     (let au = ap_auth (cn_state c);
          claims = session_claims A user (au_audience au);
          grant = grant_issue (pk_grants P) (au_grant_signer au) claims
      in send A 0
           (respond request_id (MAuthenticationResult
              \<lparr>ar_ok = True, ar_user_id = user, ar_expires_at_ms = exp_ms claims, ar_error_code = ErrUnspecified,
               ar_error_message = [], ar_challenge = grant_as_bytes grant\<rparr>))
           (accept_user A user me c))"

definition auth_with_grant ::
  "('vt, 'pub, 'kd, 'sig, 'sk, 'pk, 'h) packages \<Rightarrow> 'vt answers \<Rightarrow> nat \<Rightarrow> bytes
     \<Rightarrow> ('vt, 'pub, 'sk, 'pk, 'ip, 'h) conn \<Rightarrow> ('vt, 'pub, 'sk, 'pk, 'ip, 'h) conn \<times> bool" where
  "auth_with_grant P A request_id bs c =
     (case grant_from_wire bs of
        Inl _ \<Rightarrow> fail_auth A request_id (lit ''malformed grant'') c
      | Inr grant \<Rightarrow>
          (let au = ap_auth (cn_state c) in
           case grant_verify (pk_grants P) (au_grant_verifier au) grant (au_audience au) (an_verify_ms A) of
             Inl _ \<Rightarrow> fail_auth A request_id (lit ''invalid grant'') c
           | Inr claims \<Rightarrow>
               send A 0 (auth_ok request_id (sub claims) (exp_ms claims))
                 (accept_user A (sub claims) ConnectionGrant
                    (c\<lparr>cn_op_scope := (if ops claims = [] then None else Some (ops claims))\<rparr>))))"

definition auth_challenge ::
  "('vt, 'pub, 'kd, 'sig, 'sk, 'pk, 'h) packages \<Rightarrow> 'vt answers \<Rightarrow> nat \<Rightarrow> rstring \<Rightarrow> bytes
     \<Rightarrow> ('vt, 'pub, 'sk, 'pk, 'ip, 'h) conn \<Rightarrow> ('vt, 'pub, 'sk, 'pk, 'ip, 'h) conn \<times> bool" where
  "auth_challenge P A request_id username public_key c =
     (let offered = from_utf8_lossy public_key;
          authorized = (case ssh_verifier (ap_auth (cn_state c)) username of
                          None \<Rightarrow> False
                        | Some v \<Rightarrow> is_ok (is_authorized (pk_ssh P) v offered))
      in if \<not> authorized then fail_auth A request_id (lit ''authentication failed'') c
         else
           send A 0
             (respond request_id (MAuthenticationResult
                \<lparr>ar_ok = False, ar_user_id = [], ar_expires_at_ms = 0, ar_error_code = ErrUnspecified,
                 ar_error_message = [], ar_challenge = an_challenge A\<rparr>))
             (c\<lparr>cn_pending_challenge := Some (username, an_challenge A)\<rparr>))"

definition auth_response ::
  "('vt, 'pub, 'kd, 'sig, 'sk, 'pk, 'h) packages \<Rightarrow> 'vt answers \<Rightarrow> nat \<Rightarrow> bytes \<Rightarrow> bytes
     \<Rightarrow> ('vt, 'pub, 'sk, 'pk, 'ip, 'h) conn \<Rightarrow> ('vt, 'pub, 'sk, 'pk, 'ip, 'h) conn \<times> bool" where
  "auth_response P A request_id challenge signature c =
     (case cn_pending_challenge c of
        None \<Rightarrow> fail_auth A request_id (lit ''no challenge in progress'') c
      | Some (username, expected) \<Rightarrow>
          (let c1 = c\<lparr>cn_pending_challenge := None\<rparr> in
           if challenge \<noteq> expected then fail_auth A request_id (lit ''challenge mismatch'') c1
           else if (case ssh_verifier (ap_auth (cn_state c1)) username of
                      None \<Rightarrow> False
                    | Some v \<Rightarrow> is_ok (verify_response (pk_ssh P) v (cn_channel_binding c1) expected signature))
           then succeed_issuing_grant P A request_id username SshKey c1
           else fail_auth A request_id (lit ''authentication failed'') c1))"

definition auth_password ::
  "('vt, 'pub, 'kd, 'sig, 'sk, 'pk, 'h) packages \<Rightarrow> 'vt answers \<Rightarrow> nat \<Rightarrow> rstring \<Rightarrow> rstring
     \<Rightarrow> ('vt, 'pub, 'sk, 'pk, 'ip, 'h) conn \<Rightarrow> ('vt, 'pub, 'sk, 'pk, 'ip, 'h) conn \<times> bool" where
  "auth_password P A request_id username password c =
     (let verifier =
            (case password_verifier (ap_auth (cn_state c)) username of
               None \<Rightarrow> None
             | Some v \<Rightarrow>
                 if username \<noteq> [] \<and> len username \<le> MAX_USERNAME_BYTES
                    \<and> password \<noteq> [] \<and> len password \<le> MAX_PASSWORD_BYTES then Some v else None);
          accepted = (case verifier of
                        None \<Rightarrow> False
                      | Some v \<Rightarrow> if an_password_panics A then False else v username password)
      in if accepted then succeed_issuing_grant P A request_id username Password c
         else fail_auth A request_id (lit ''authentication failed'') c)"

definition handle_authenticate ::
  "('vt, 'pub, 'kd, 'sig, 'sk, 'pk, 'h) packages \<Rightarrow> 'vt answers \<Rightarrow> nat \<Rightarrow> auth_request option
     \<Rightarrow> ('vt, 'pub, 'sk, 'pk, 'ip, 'h) conn \<Rightarrow> ('vt, 'pub, 'sk, 'pk, 'ip, 'h) conn \<times> bool" where
  "handle_authenticate P A request_id auth c =
     (let (l, allowed) = check (cn_peer_ip c) (an_instant A) (au_rate_limiter (ap_auth (cn_state c)));
          c1 = set_limiter (\<lambda>_. l) c
      in if \<not> allowed then
           send A 0 (auth_failure request_id ErrLimitExceeded (lit ''too many attempts''))
             (audit A (AuthenticationFailed (cn_peer_ip c1) RateLimited) c1)
         else if au_mode (ap_auth (cn_state c1)) = DevInsecure then
           send A 0 (auth_ok request_id (lit ''dev'') 0) (accept_user A (lit ''dev'') Development c1)
         else
           (case auth of
              Some (ConnectionGrantBytes bs) \<Rightarrow> auth_with_grant P A request_id bs c1
            | Some (SshChallengeRequest username public_key) \<Rightarrow>
                auth_challenge P A request_id username public_key c1
            | Some (SshChallengeResponse challenge signature) \<Rightarrow>
                auth_response P A request_id challenge signature c1
            | Some (PasswordRequest username password) \<Rightarrow> auth_password P A request_id username password c1
            | None \<Rightarrow> fail_auth A request_id (lit ''no authentication method'') c1))"

section \<open>The control channel\<close>

definition on_client_hello ::
  "'vt answers \<Rightarrow> nat \<Rightarrow> client_hello \<Rightarrow> ('vt, 'pub, 'sk, 'pk, 'ip, 'h) conn \<Rightarrow> ('vt, 'pub, 'sk, 'pk, 'ip, 'h) conn \<times> bool" where
  "on_client_hello A request_id hello c =
     (let offered = (if ap_uploads (cn_state c) \<noteq> None then [FileTransfer] else [])
                    @ (if forward_enabled (ap_forwards (cn_state c)) then [TcpForward] else [])
      in case negotiate_server hello offered FRAME_BYTES_DEFAULT 1200 (cn_transport_datagrams c) of
           Inr n \<Rightarrow>
             send A 0 (respond request_id (MServerHello (server_hello_of n KEEPALIVE_INTERVAL_MS)))
               (c\<lparr>cn_negotiated := Some n\<rparr>)
         | Inl e \<Rightarrow>
             (fst (send A 0 (error_envelope request_id ErrVersion (negotiation_error_string e) False) c), False))"

definition on_authenticate ::
  "('vt, 'pub, 'kd, 'sig, 'sk, 'pk, 'h) packages \<Rightarrow> 'vt answers \<Rightarrow> nat \<Rightarrow> auth_request option
     \<Rightarrow> ('vt, 'pub, 'sk, 'pk, 'ip, 'h) conn \<Rightarrow> ('vt, 'pub, 'sk, 'pk, 'ip, 'h) conn \<times> bool" where
  "on_authenticate P A request_id auth c =
     (if cn_negotiated c = None then
        send A 0 (error_envelope request_id ErrUnknownMessage (lit ''hello first'') False) c
      else handle_authenticate P A request_id auth c)"

definition on_list_servers ::
  "'vt answers \<Rightarrow> nat \<Rightarrow> ('vt, 'pub, 'sk, 'pk, 'ip, 'h) conn \<Rightarrow> ('vt, 'pub, 'sk, 'pk, 'ip, 'h) conn \<times> bool" where
  "on_list_servers A request_id c =
     send A 0 (respond request_id (MServerList [(id_to_wire (ap_server_id (cn_state c)), lit ''local'', True)])) c"

definition shell_info_pb :: "bytes \<Rightarrow> shell_info \<Rightarrow> pb_shell_info" where
  "shell_info_pb server_id info =
     \<lparr>pi_server_id = id_to_wire server_id, pi_shell_id = id_to_wire (si_shell_id info),
      pi_state = shell_state_pb (si_state info), pi_title = [],
      pi_created_at_ms = si_created_at_ms info, pi_last_attached_at_ms = si_last_attached_at_ms info\<rparr>"

definition on_list_shells ::
  "'vt answers \<Rightarrow> nat \<Rightarrow> ('vt, 'pub, 'sk, 'pk, 'ip, 'h) conn \<Rightarrow> ('vt, 'pub, 'sk, 'pk, 'ip, 'h) conn \<times> bool" where
  "on_list_shells A request_id c =
     (if \<not> conn_permits c (lit ''list'') then
        send A 0 (error_envelope request_id ErrForbidden (lit ''grant does not permit list'') False) c
      else
        send A 0 (respond request_id (MShellList
          (map (shell_info_pb (ap_server_id (cn_state c)))
             (filter (\<lambda>info. si_owner info = cn_user_id c) (list_shells (manager c)))))) c)"

definition non_empty_text :: "rstring \<Rightarrow> rstring option" where
  "non_empty_text s = (if s = [] then None else Some s)"

definition open_request :: "rstring \<Rightarrow> open_shell_msg \<Rightarrow> open_shell_request" where
  "open_request user om =
     \<lparr>rq_user = user, rq_account = non_empty_text (om_unix_account om),
      rq_command = non_empty_text (om_command om), rq_args = [],
      rq_cols = as_u16 (om_initial_cols om), rq_rows = as_u16 (om_initial_rows om),
      rq_idempotency_key = om_idempotency_key om\<rparr>"

text \<open>\<open>open_shell\<close> on a blocking worker; a panic there comes back as an internal error.\<close>

definition open_blocking ::
  "('vt, 'pub, 'kd, 'sig, 'sk, 'pk, 'h) packages \<Rightarrow> 'vt answers \<Rightarrow> open_shell_request \<Rightarrow> 'vt shell_manager
     \<Rightarrow> 'vt shell_manager \<times> (session_error + opened_shell)" where
  "open_blocking P A req m =
     (case open_shell (pk_avt P) (pk_sha256 P) (an_world A) req (an_shell_id A) (an_token A) (an_shell_ms A) m of
        Some r \<Rightarrow> r
      | None \<Rightarrow> (m, Err (Internal (an_join_error A))))"

definition on_open_shell ::
  "('vt, 'pub, 'kd, 'sig, 'sk, 'pk, 'h) packages \<Rightarrow> 'vt answers \<Rightarrow> nat \<Rightarrow> open_shell_msg
     \<Rightarrow> ('vt, 'pub, 'sk, 'pk, 'ip, 'h) conn \<Rightarrow> ('vt, 'pub, 'sk, 'pk, 'ip, 'h) conn \<times> bool" where
  "on_open_shell P A request_id om c =
     (if \<not> conn_permits c (lit ''open'') then
        send A 0 (error_envelope request_id ErrForbidden (lit ''grant does not permit open'') False)
          (audit A (ShellOperationRejected (cn_user_id c) None OpOpen ReForbidden) c)
      else if length (om_idempotency_key om) \<noteq> 16 then
        send A 0 (error_envelope request_id ErrUnknownMessage (lit ''idempotency_key must be 16 bytes'') False) c
      else
        (case open_blocking P A (open_request (cn_user_id c) om) (manager c) of
           (m, Inr opened) \<Rightarrow>
             send A 0
               ((respond request_id (MShellOpened (token_to_wire (os_resume_token opened)) 0))
                  \<lparr>ev_server_id := id_to_wire (ap_server_id (cn_state c)),
                   ev_shell_id := id_to_wire (os_shell_id opened)\<rparr>)
               (audit A (ShellOpened (cn_user_id c) (os_shell_id opened) (non_empty_text (om_unix_account om))
                           (os_reused opened))
                  (set_manager m c))
         | (m, Inl e) \<Rightarrow>
             send A 0 (session_error_envelope request_id e)
               (audit A (ShellOperationRejected (cn_user_id c) None OpOpen (reject_reason_of e))
                  (set_manager m c))))"

text \<open>
  \<open>terminate\<close> on a blocking worker. If it panics after its wait, the state is what the wait left.
\<close>

definition terminate_blocking ::
  "'vt answers \<Rightarrow> bytes \<Rightarrow> 'vt shell_manager \<Rightarrow> 'vt shell_manager \<times> (session_error + exit_summary)" where
  "terminate_blocking A sid m =
     (case terminate sid (an_kill A) (an_await A) m of
        Some r \<Rightarrow> r
      | None \<Rightarrow> (fst (an_await A (fst (terminate_begin sid (an_kill A) m))), Err (Internal (an_join_error A))))"

definition owned_shell :: "rstring \<Rightarrow> bytes \<Rightarrow> 'vt shell_manager \<Rightarrow> shell_info option" where
  "owned_shell user sid m =
     (case shell_info_of sid m of Inr info \<Rightarrow> if si_owner info = user then Some info else None | Inl _ \<Rightarrow> None)"

definition exit_code_i32 :: "exit_summary \<Rightarrow> int" where
  "exit_code_i32 x = sint (exit_code x)"

definition on_terminate_shell ::
  "'vt answers \<Rightarrow> nat \<Rightarrow> bytes \<Rightarrow> ('vt, 'pub, 'sk, 'pk, 'ip, 'h) conn \<Rightarrow> ('vt, 'pub, 'sk, 'pk, 'ip, 'h) conn \<times> bool" where
  "on_terminate_shell A request_id wire_id c =
     (if \<not> conn_permits c (lit ''terminate'') then
        send A 0 (error_envelope request_id ErrForbidden (lit ''grant does not permit terminate'') False)
          (audit A (ShellOperationRejected (cn_user_id c) None OpTerminate ReForbidden) c)
      else
        (case id_from_wire wire_id of
           Inl _ \<Rightarrow> send A 0 (error_envelope request_id ErrNotFound (lit ''bad shell id'') False) c
         | Inr sid \<Rightarrow>
             if owned_shell (cn_user_id c) sid (manager c) = None then
               send A 0 (error_envelope request_id ErrNotFound (lit ''no such shell'') False)
                 (audit A (ShellOperationRejected (cn_user_id c) (Some sid) OpTerminate NotFound) c)
             else
               (case terminate_blocking A sid (manager c) of
                  (m, Inr x) \<Rightarrow>
                    send A 0
                      ((respond request_id
                          (MShellExited (exit_code_i32 x) (\<not> success x \<and> exit_code x = 0) []))
                         \<lparr>ev_shell_id := wire_id\<rparr>)
                      (audit A (ShellTerminated (cn_user_id c) sid (exit_code x)) (set_manager m c))
                | (m, Inl e) \<Rightarrow>
                    send A 0 (session_error_envelope request_id e)
                      (audit A (ShellOperationRejected (cn_user_id c) (Some sid) OpTerminate (reject_reason_of e))
                         (set_manager m c)))))"

section \<open>Forward channels\<close>

definition forward_frame ::
  "'vt answers \<Rightarrow> nat \<Rightarrow> envelope \<Rightarrow> forward_binding \<Rightarrow> ('vt, 'pub, 'sk, 'pk, 'ip, 'h) conn \<Rightarrow> ('vt, 'pub, 'sk, 'pk, 'ip, 'h) conn \<times> bool" where
  "forward_frame A ch env b c =
     (case forward_message env (fb_task b) of
        (f, True) \<Rightarrow> (c\<lparr>cn_forwards := assoc_upd ch (\<lambda>_. b\<lparr>fb_task := f\<rparr>) (cn_forwards c)\<rparr>, True)
      | (f, False) \<Rightarrow>
          send_error A ch ErrInvalidArgument (lit ''invalid TCP forwarding frame'')
            (c\<lparr>cn_forwards := assoc_upd ch (\<lambda>_. abort_binding (b\<lparr>fb_task := f\<rparr>)) (cn_forwards c)\<rparr>))"

definition has_capability :: "capability \<Rightarrow> ('vt, 'pub, 'sk, 'pk, 'ip, 'h) conn \<Rightarrow> bool" where
  "has_capability cap c = (case cn_negotiated c of None \<Rightarrow> False | Some n \<Rightarrow> List.member (capabilities n) cap)"

definition open_forward_error ::
  "(rstring \<Rightarrow> bool) \<Rightarrow> nat \<Rightarrow> envelope \<Rightarrow> rstring \<Rightarrow> u32 \<Rightarrow> ('vt, 'pub, 'sk, 'pk, 'ip, 'h) conn
     \<Rightarrow> (error_code \<times> rstring) option" where
  "open_forward_error is_ip ch env host port c =
     (if \<not> has_capability TcpForward c then Some (ErrUnknownMessage, lit ''TCP forwarding is not enabled'')
      else if \<not> conn_permits c (lit ''tcp-forward'') \<or> \<not> forward_permits (ap_forwards (cn_state c)) (cn_user_id c) then
        Some (ErrForbidden, lit ''TCP forwarding is not allowed for this user'')
      else if ev_request_id env = 0 \<or> ev_shell_id env \<noteq> []
        \<or> (ev_server_id env \<noteq> [] \<and> ev_server_id env \<noteq> id_to_wire (ap_server_id (cn_state c)))
        \<or> ch \<in> set (keys (cn_attachments c)) \<or> ch \<in> set (keys (cn_uploads c))
        \<or> \<not> valid_destination is_ip host port then
        Some (ErrInvalidArgument, lit ''invalid TCP forwarding request'')
      else if length (cn_forwards c) \<ge> MAX_PER_CONNECTION then
        Some (ErrLimitExceeded, lit ''too many TCP forwards'')
      else None)"

definition open_forward ::
  "('vt, 'pub, 'kd, 'sig, 'sk, 'pk, 'h) packages \<Rightarrow> 'vt answers \<Rightarrow> nat \<Rightarrow> envelope \<Rightarrow> rstring \<Rightarrow> u32
     \<Rightarrow> ('vt, 'pub, 'sk, 'pk, 'ip, 'h) conn \<Rightarrow> ('vt, 'pub, 'sk, 'pk, 'ip, 'h) conn \<times> bool" where
  "open_forward P A ch env host port c =
     (case open_forward_error (pk_is_ip P) ch env host port c of
        Some (code, txt) \<Rightarrow> send A ch (error_envelope (ev_request_id env) code txt False) c
      | None \<Rightarrow>
          (case forward_acquire (cn_user_id c) (ap_forwards (cn_state c)) of
             None \<Rightarrow>
               send A ch (error_envelope (ev_request_id env) ErrLimitExceeded (lit ''too many TCP forwards'') False) c
           | Some s \<Rightarrow>
               (c\<lparr>cn_state := (cn_state c)\<lparr>ap_forwards := s\<rparr>,
                  cn_forwards := assoc_put ch
                    \<lparr>fb_host = host, fb_port = as_u16 (unat port), fb_user = cn_user_id c,
                     fb_task = forward_spawn (ev_request_id env)\<rparr> (cn_forwards c)\<rparr>, True)))"

section \<open>Upload channels\<close>

text \<open>\<open>retain\<close>: the senders whose actor has ended are dropped at the start of every dispatch.\<close>

definition retain_uploads :: "('vt, 'pub, 'sk, 'pk, 'ip, 'h) conn \<Rightarrow> ('vt, 'pub, 'sk, 'pk, 'ip, 'h) conn" where
  "retain_uploads c =
     c\<lparr>cn_dropped := cn_dropped c @ map snd (filter (\<lambda>(_, b). ub_closed b) (cn_uploads c)),
       cn_uploads := filter (\<lambda>(_, b). \<not> ub_closed b) (cn_uploads c)\<rparr>"

definition record_upload_rejected ::
  "'vt answers \<Rightarrow> bytes option \<Rightarrow> reject_reason \<Rightarrow> ('vt, 'pub, 'sk, 'pk, 'ip, 'h) conn \<Rightarrow> ('vt, 'pub, 'sk, 'pk, 'ip, 'h) conn" where
  "record_upload_rejected A sid r c = audit A (UploadRejected (cn_user_id c) sid r) c"

definition upload_chunk_limit :: "('vt, 'pub, 'sk, 'pk, 'ip, 'h) conn \<Rightarrow> u32" where
  "upload_chunk_limit c =
     (let mf = max_frame_bytes_of c in
      min (if mf < 512 then 0 else mf - 512) (of_nat UPLOAD_CHUNK_BYTES_MAX))"

definition begin_blocking ::
  "('vt, 'pub, 'kd, 'sig, 'sk, 'pk, 'h) packages \<Rightarrow> 'vt answers \<Rightarrow> rstring option \<Rightarrow> begin_upload \<Rightarrow> u32 \<Rightarrow> upload_service
     \<Rightarrow> upload_effects \<times> (upload_error + 'h active_upload)" where
  "begin_blocking P A account b limit s =
     (case an_begin_panic A of
        Some e \<Rightarrow> (no_effects, Err (UeWorker e))
      | None \<Rightarrow> service_begin (pk_sha2 P) (an_store A) (an_exchange A) account b limit s)"

text \<open>The channel's upload starts: the sender is kept, the actor spawned, the client answered.\<close>

definition upload_started ::
  "'vt answers \<Rightarrow> nat \<Rightarrow> nat \<Rightarrow> bytes \<Rightarrow> begin_upload \<Rightarrow> 'h active_upload
     \<Rightarrow> ('vt, 'pub, 'sk, 'pk, 'ip, 'h) conn \<Rightarrow> ('vt, 'pub, 'sk, 'pk, 'ip, 'h) conn \<times> bool" where
  "upload_started A ch request_id sid b active c =
     (let upload_id = active_upload_id active;
          server_id = id_to_wire (ap_server_id (cn_state c));
          ids = \<lparr>ui_request_id = request_id, ui_user = cn_user_id c, ui_shell_id = sid, ui_server_id = server_id\<rparr>;
          c1 = c\<lparr>cn_uploads := assoc_put ch
                   \<lparr>ub_upload_id = upload_id, ub_commands = [], ub_closed = False, ub_ids = ids, ub_active = active\<rparr>
                   (cn_uploads c)\<rparr>
      in send A ch
           ((respond request_id (MUploadAccepted upload_id (active_maximum_chunk_bytes active)))
              \<lparr>ev_server_id := server_id, ev_shell_id := id_to_wire sid\<rparr>)
           (audit A (UploadStarted (cn_user_id c) sid (bu_original_name b) (bu_total_bytes b)) c1))"

text \<open>With a permit in hand; it is released again when the upload cannot begin.\<close>

definition begin_permitted ::
  "('vt, 'pub, 'kd, 'sig, 'sk, 'pk, 'h) packages \<Rightarrow> 'vt answers \<Rightarrow> nat \<Rightarrow> nat \<Rightarrow> bytes \<Rightarrow> shell_info \<Rightarrow> begin_upload \<Rightarrow> upload_service
     \<Rightarrow> ('vt, 'pub, 'sk, 'pk, 'ip, 'h) conn \<Rightarrow> ('vt, 'pub, 'sk, 'pk, 'ip, 'h) conn \<times> bool" where
  "begin_permitted P A ch request_id sid shell b s c =
     (case begin_blocking P A (si_account shell) b (upload_chunk_limit c) s of
        (fx, Inl e) \<Rightarrow>
          send A ch (upload_error_envelope (pk_show_upload_error P) request_id e)
            (record_upload_rejected A (Some sid) (upload_reject_reason e)
               (c\<lparr>cn_state := (cn_state c)\<lparr>ap_uploads :=
                     Some (s\<lparr>us_counts := upload_permit_drop (cn_user_id c) (us_counts s)\<rparr>)\<rparr>,
                  cn_begun := cn_begun c @ [fx]\<rparr>))
      | (fx, Inr active) \<Rightarrow>
          upload_started A ch request_id sid b active
            (c\<lparr>cn_state := (cn_state c)\<lparr>ap_uploads := Some s\<rparr>, cn_begun := cn_begun c @ [fx]\<rparr>))"

definition begin_upload_on ::
  "('vt, 'pub, 'kd, 'sig, 'sk, 'pk, 'h) packages \<Rightarrow> 'vt answers \<Rightarrow> nat \<Rightarrow> envelope \<Rightarrow> begin_upload
     \<Rightarrow> ('vt, 'pub, 'sk, 'pk, 'ip, 'h) conn \<Rightarrow> ('vt, 'pub, 'sk, 'pk, 'ip, 'h) conn \<times> bool" where
  "begin_upload_on P A ch env b c =
     (let request_id = ev_request_id env in
      case ap_uploads (cn_state c) of
        None \<Rightarrow> send A ch (error_envelope request_id ErrUnknownMessage (lit ''file transfer is disabled'') False) c
      | Some service \<Rightarrow>
          if \<not> has_capability FileTransfer c then
            send A ch (error_envelope request_id ErrUnknownMessage (lit ''file transfer was not negotiated'') False) c
          else if \<not> conn_permits c (lit ''upload'') then
            send A ch (error_envelope request_id ErrForbidden (lit ''grant does not permit upload'') False)
              (record_upload_rejected A None ReForbidden c)
          else if request_id = 0 \<or> ch \<in> set (keys (cn_attachments c)) \<or> ch \<in> set (keys (cn_uploads c)) then
            send A ch (error_envelope request_id ErrInvalidArgument (lit ''invalid or reused upload channel'') False)
              (record_upload_rejected A None InvalidRequest c)
          else
            (case id_from_wire (ev_shell_id env) of
               Inl _ \<Rightarrow>
                 send A ch (error_envelope request_id ErrForbidden (lit ''upload denied'') False)
                   (record_upload_rejected A None ReForbidden c)
             | Inr sid \<Rightarrow>
                 (case owned_shell (cn_user_id c) sid (manager c) of
                    None \<Rightarrow>
                      send A ch (error_envelope request_id ErrForbidden (lit ''upload denied'') False)
                        (record_upload_rejected A (Some sid) ReForbidden c)
                  | Some shell \<Rightarrow>
                      if si_state shell \<noteq> Running then
                        send A ch (error_envelope request_id ErrForbidden (lit ''upload denied'') False)
                          (record_upload_rejected A (Some sid) ReForbidden c)
                      else if length (cn_uploads c) \<ge> MAX_UPLOADS_PER_CONNECTION then
                        send A ch (error_envelope request_id ErrLimitExceeded
                                     (lit ''too many uploads on this connection'') True)
                          (record_upload_rejected A (Some sid) ReLimitExceeded c)
                      else
                        (case upload_try_acquire (cn_user_id c) (us_counts service) of
                           None \<Rightarrow>
                             send A ch (upload_error_envelope (pk_show_upload_error P) request_id UeLimitExceeded)
                               (record_upload_rejected A (Some sid) ReLimitExceeded c)
                         | Some counts \<Rightarrow>
                             begin_permitted P A ch request_id sid shell b (service\<lparr>us_counts := counts\<rparr>) c))))"

text \<open>A command goes into the queue unless the actor has dropped its receiver.\<close>

definition add_command :: "upload_command \<Rightarrow> 'h upload_binding \<Rightarrow> 'h upload_binding" where
  "add_command cmd b = b\<lparr>ub_commands := ub_commands b @ [cmd]\<rparr>"

definition on_upload_chunk ::
  "'vt answers \<Rightarrow> nat \<Rightarrow> nat \<Rightarrow> upload_chunk \<Rightarrow> ('vt, 'pub, 'sk, 'pk, 'ip, 'h) conn \<Rightarrow> ('vt, 'pub, 'sk, 'pk, 'ip, 'h) conn \<times> bool" where
  "on_upload_chunk A ch request_id chunk c =
     (case map_of (cn_uploads c) ch of
        None \<Rightarrow> send A ch (error_envelope request_id ErrInvalidArgument (lit ''no upload on channel'') False) c
      | Some b \<Rightarrow>
          if uc_upload_id chunk \<noteq> ub_upload_id b then
            send A ch (error_envelope request_id ErrInvalidArgument (lit ''upload id mismatch'') False) c
          else if an_command_sent A then
            (c\<lparr>cn_uploads := assoc_upd ch (add_command (UpChunk chunk)) (cn_uploads c)\<rparr>, True)
          else (c, False))"

text \<open>The last command of an upload: the binding leaves the map and its sender is dropped.\<close>

definition last_command ::
  "'vt answers \<Rightarrow> nat \<Rightarrow> upload_command \<Rightarrow> ('vt, 'pub, 'sk, 'pk, 'ip, 'h) conn \<Rightarrow> ('vt, 'pub, 'sk, 'pk, 'ip, 'h) conn \<times> bool" where
  "last_command A ch cmd c =
     (if an_command_sent A then
        (drop_upload ch (c\<lparr>cn_uploads := assoc_upd ch (add_command cmd) (cn_uploads c)\<rparr>), True)
      else (drop_upload ch c, False))"

definition on_finish_upload ::
  "'vt answers \<Rightarrow> nat \<Rightarrow> nat \<Rightarrow> bytes \<Rightarrow> ('vt, 'pub, 'sk, 'pk, 'ip, 'h) conn \<Rightarrow> ('vt, 'pub, 'sk, 'pk, 'ip, 'h) conn \<times> bool" where
  "on_finish_upload A ch request_id upload_id c =
     (case map_of (cn_uploads c) ch of
        None \<Rightarrow> send A ch (error_envelope request_id ErrInvalidArgument (lit ''no upload on channel'') False) c
      | Some b \<Rightarrow>
          if upload_id \<noteq> ub_upload_id b then
            send A ch (error_envelope request_id ErrInvalidArgument (lit ''upload id mismatch'') False)
              (drop_upload ch c)
          else last_command A ch (UpFinish upload_id) c)"

definition on_abort_upload ::
  "'vt answers \<Rightarrow> nat \<Rightarrow> nat \<Rightarrow> bytes \<Rightarrow> rstring \<Rightarrow> ('vt, 'pub, 'sk, 'pk, 'ip, 'h) conn \<Rightarrow> ('vt, 'pub, 'sk, 'pk, 'ip, 'h) conn \<times> bool" where
  "on_abort_upload A ch request_id upload_id reason c =
     (case map_of (cn_uploads c) ch of
        None \<Rightarrow> (c, True)
      | Some b \<Rightarrow>
          if len reason > UPLOAD_ABORT_REASON_BYTES_MAX \<or> upload_id \<noteq> ub_upload_id b then
            send A ch (error_envelope request_id ErrInvalidArgument (lit ''invalid upload abort'') False)
              (drop_upload ch c)
          else last_command A ch UpAbort c)"

section \<open>Attachment channels\<close>

text \<open>The thread that forwards an attachment's events: \<open>room\<close> sends succeed before the writer is gone.\<close>

definition exit_event_envelope :: "exit_summary \<Rightarrow> envelope" where
  "exit_event_envelope x = respond 0 (MShellExited (exit_code_i32 x) (\<not> success x) [])"

definition too_slow_envelope :: envelope where
  "too_slow_envelope =
     error_envelope 0 ErrTooSlow (lit ''attachment dropped: output overran the slow-consumer bound'') True"

fun attach_forwarder :: "bool \<Rightarrow> nat \<Rightarrow> attachment_event list \<Rightarrow> envelope list" where
  "attach_forwarder exited room [] = (if exited \<or> room = 0 then [] else [too_slow_envelope])"
| "attach_forwarder exited 0 (_ # _) = []"
| "attach_forwarder exited (Suc room) (Output data # evs) =
     respond 0 (MTerminalOutput data) # attach_forwarder exited room evs"
| "attach_forwarder exited (Suc room) (ExitedEvent x # evs) =
     exit_event_envelope x # attach_forwarder True room evs"

definition attached_reply :: "bytes \<Rightarrow> bytes \<Rightarrow> nat \<Rightarrow> attachment \<Rightarrow> envelope" where
  "attached_reply server_id wire_id request_id att =
     (respond request_id (MShellAttached
        \<lparr>sa_screen_snapshot = at_snapshot att, sa_screen_revision = at_screen_revision att,
         sa_rotated_resume_token = token_to_wire (at_rotated_resume_token att),
         sa_oldest_history_line_id = at_oldest_history_line_id att,
         sa_newest_history_line_id = at_newest_history_line_id att\<rparr>))
       \<lparr>ev_server_id := id_to_wire server_id, ev_shell_id := wire_id\<rparr>"

text \<open>After the reply was sent the forwarder thread starts; that it cannot start is a panic.\<close>

definition start_forwarder ::
  "'vt answers \<Rightarrow> ('vt, 'pub, 'sk, 'pk, 'ip, 'h) conn \<times> bool \<Rightarrow> (('vt, 'pub, 'sk, 'pk, 'ip, 'h) conn \<times> bool) option" where
  "start_forwarder A sent =
     (if \<not> snd sent then Some (fst sent, False) else if an_thread A then Some (fst sent, True) else None)"

definition attach_on ::
  "('vt, 'pub, 'kd, 'sig, 'sk, 'pk, 'h) packages \<Rightarrow> 'vt answers \<Rightarrow> nat \<Rightarrow> envelope \<Rightarrow> attach_shell_msg
     \<Rightarrow> ('vt, 'pub, 'sk, 'pk, 'ip, 'h) conn \<Rightarrow> (('vt, 'pub, 'sk, 'pk, 'ip, 'h) conn \<times> bool) option" where
  "attach_on P A ch env am c =
     (let request_id = ev_request_id env in
      if \<not> conn_permits c (lit ''attach'') then
        Some (send A ch (error_envelope request_id ErrForbidden (lit ''grant does not permit attach'') False)
          (audit A (ShellOperationRejected (cn_user_id c) None OpAttach ReForbidden) c))
      else if ch \<in> set (keys (cn_attachments c)) then
        Some (send A ch (error_envelope request_id ErrUnknownMessage (lit ''channel already attached'') False) c)
      else
        (case id_from_wire (ev_shell_id env) of
           Inl _ \<Rightarrow> Some (send A ch (error_envelope request_id ErrNotFound (lit ''bad shell id'') False) c)
         | Inr sid \<Rightarrow>
             (case token_from_wire (am_resume_token am) of
                None \<Rightarrow>
                  Some (send A ch (error_envelope request_id ErrTokenExpired (lit ''malformed resume token'') False) c)
              | Some token \<Rightarrow>
                  (case attach (pk_avt P) (pk_sha256 P) (cn_user_id c) sid token (as_u16 (am_cols am))
                          (as_u16 (am_rows am)) (an_token A) (an_shell_ms A) (an_resize A) (manager c) of
                     (m, Inr att) \<Rightarrow>
                       (let c1 = (audit A (ShellAttached (cn_user_id c) sid) (set_manager m c))
                                   \<lparr>cn_attachments := assoc_put ch
                                      \<lparr>bd_shell_id = sid, bd_attachment_id = at_id att\<rparr> (cn_attachments c)\<rparr>
                        in start_forwarder A
                             (send A ch (attached_reply (ap_server_id (cn_state c)) (ev_shell_id env) request_id att) c1))
                   | (m, Inl e) \<Rightarrow>
                       Some (send A ch (session_error_envelope request_id e)
                         (audit A (ShellOperationRejected (cn_user_id c) (Some sid) OpAttach (reject_reason_of e))
                            (set_manager m c)))))))"

definition on_terminal_input ::
  "'vt answers \<Rightarrow> nat \<Rightarrow> nat \<Rightarrow> bytes \<Rightarrow> ('vt, 'pub, 'sk, 'pk, 'ip, 'h) conn \<Rightarrow> ('vt, 'pub, 'sk, 'pk, 'ip, 'h) conn \<times> bool" where
  "on_terminal_input A ch request_id data c =
     (case map_of (cn_attachments c) ch of
        None \<Rightarrow> (c, True)
      | Some b \<Rightarrow>
          (case write_input (bd_shell_id b) data (an_write A) (manager c) of
             (m, Inl e) \<Rightarrow> send A ch (session_error_envelope request_id e) (set_manager m c)
           | (m, Inr _) \<Rightarrow> (set_manager m c, True)))"

definition on_terminal_resize ::
  "('vt, 'pub, 'kd, 'sig, 'sk, 'pk, 'h) packages \<Rightarrow> 'vt answers \<Rightarrow> nat \<Rightarrow> nat \<Rightarrow> nat
     \<Rightarrow> ('vt, 'pub, 'sk, 'pk, 'ip, 'h) conn \<Rightarrow> ('vt, 'pub, 'sk, 'pk, 'ip, 'h) conn \<times> bool" where
  "on_terminal_resize P A ch cols rows c =
     (case map_of (cn_attachments c) ch of
        None \<Rightarrow> (c, True)
      | Some b \<Rightarrow>
          (set_manager (fst (resize (pk_avt P) (bd_shell_id b) (as_u16 cols) (as_u16 rows) (an_resize A) (manager c))) c,
           True))"

definition on_request_history ::
  "'vt answers \<Rightarrow> nat \<Rightarrow> nat \<Rightarrow> nat \<Rightarrow> nat \<Rightarrow> nat \<Rightarrow> ('vt, 'pub, 'sk, 'pk, 'ip, 'h) conn
     \<Rightarrow> (('vt, 'pub, 'sk, 'pk, 'ip, 'h) conn \<times> bool) option" where
  "on_request_history A ch request_id before_line_id maximum_lines maximum_bytes c =
     (case map_of (cn_attachments c) ch of
        None \<Rightarrow> Some (send A ch (error_envelope request_id ErrNotFound (lit ''no attachment on channel'') False) c)
      | Some b \<Rightarrow>
          (case history (bd_shell_id b) before_line_id (min maximum_lines 10000)
                  (min maximum_bytes (unat (max_frame_bytes_of c) div 2)) (manager c) of
             None \<Rightarrow> None
           | Some (Inl e) \<Rightarrow> Some (send A ch (session_error_envelope request_id e) c)
           | Some (Inr hr) \<Rightarrow>
               (case send A ch (respond request_id
                        (MHistoryChunk (first_line_id hr) (range_lines hr) (truncated_by_eviction hr))) c of
                  (c1, False) \<Rightarrow> Some (c1, False)
                | (c1, True) \<Rightarrow>
                    (let oldest = (case history_bounds (bd_shell_id b) (manager c1) of
                                     Inr (oldest, _) \<Rightarrow> oldest | Inl _ \<Rightarrow> 0)
                     in Some (send_nth 1 A ch (respond request_id (MHistoryEnd oldest)) c1)))))"

section \<open>Dispatch\<close>

fun pre_auth_allowed :: "msg \<Rightarrow> bool" where
  "pre_auth_allowed (MClientHello _) = True"
| "pre_auth_allowed (MAuthenticate _) = True"
| "pre_auth_allowed (MPing _) = True"
| "pre_auth_allowed (MPong _) = True"
| "pre_auth_allowed MClose = True"
| "pre_auth_allowed _ = False"

definition unexpected ::
  "'vt answers \<Rightarrow> nat \<Rightarrow> nat \<Rightarrow> ('vt, 'pub, 'sk, 'pk, 'ip, 'h) conn \<Rightarrow> ('vt, 'pub, 'sk, 'pk, 'ip, 'h) conn \<times> bool" where
  "unexpected A ch request_id c =
     send A ch (error_envelope request_id ErrUnknownMessage (lit ''unexpected message for this channel'') False) c"

text \<open>The messages of the control channel, then those of the channels the client opens.\<close>

definition dispatch_control ::
  "('vt, 'pub, 'kd, 'sig, 'sk, 'pk, 'h) packages \<Rightarrow> 'vt answers \<Rightarrow> envelope \<Rightarrow> msg
     \<Rightarrow> ('vt, 'pub, 'sk, 'pk, 'ip, 'h) conn \<Rightarrow> ('vt, 'pub, 'sk, 'pk, 'ip, 'h) conn \<times> bool" where
  "dispatch_control P A env m c =
     (let request_id = ev_request_id env in
      case m of
        MClientHello hello \<Rightarrow> on_client_hello A request_id hello c
      | MAuthenticate auth \<Rightarrow> on_authenticate P A request_id auth c
      | MPing nonce \<Rightarrow> send A 0 (respond request_id (MPong nonce)) c
      | MClose \<Rightarrow> (c, False)
      | MListServers \<Rightarrow> on_list_servers A request_id c
      | MListShells \<Rightarrow> on_list_shells A request_id c
      | MOpenShell om \<Rightarrow> on_open_shell P A request_id om c
      | MTerminateShell \<Rightarrow> on_terminate_shell A request_id (ev_shell_id env) c
      | _ \<Rightarrow> unexpected A 0 request_id c)"

definition dispatch_channel ::
  "('vt, 'pub, 'kd, 'sig, 'sk, 'pk, 'h) packages \<Rightarrow> 'vt answers \<Rightarrow> nat \<Rightarrow> envelope \<Rightarrow> msg
     \<Rightarrow> ('vt, 'pub, 'sk, 'pk, 'ip, 'h) conn \<Rightarrow> (('vt, 'pub, 'sk, 'pk, 'ip, 'h) conn \<times> bool) option" where
  "dispatch_channel P A ch env m c =
     (let request_id = ev_request_id env in
      case m of
        MPing nonce \<Rightarrow> Some (send A ch (respond request_id (MPong nonce)) c)
      | MOpenTcpForward host port \<Rightarrow> Some (open_forward P A ch env host (of_nat port) c)
      | MBeginUpload b \<Rightarrow> Some (begin_upload_on P A ch env b c)
      | MUploadChunk chunk \<Rightarrow> Some (on_upload_chunk A ch request_id chunk c)
      | MFinishUpload upload_id \<Rightarrow> Some (on_finish_upload A ch request_id upload_id c)
      | MAbortUpload upload_id reason \<Rightarrow> Some (on_abort_upload A ch request_id upload_id reason c)
      | MAttachShell am \<Rightarrow> attach_on P A ch env am c
      | MTerminalInput data \<Rightarrow> Some (on_terminal_input A ch request_id data c)
      | MTerminalResize cols rows \<Rightarrow> Some (on_terminal_resize P A ch cols rows c)
      | MRequestHistory before maximum_lines maximum_bytes \<Rightarrow>
          on_request_history A ch request_id before maximum_lines maximum_bytes c
      | MDetachShell \<Rightarrow> Some (remove_attachment A ch c, True)
      | _ \<Rightarrow> Some (unexpected A ch request_id c))"

definition dispatch ::
  "('vt, 'pub, 'kd, 'sig, 'sk, 'pk, 'h) packages \<Rightarrow> 'vt answers \<Rightarrow> nat \<Rightarrow> envelope \<Rightarrow> ('vt, 'pub, 'sk, 'pk, 'ip, 'h) conn
     \<Rightarrow> (('vt, 'pub, 'sk, 'pk, 'ip, 'h) conn \<times> bool) option" where
  "dispatch P A ch env c0 =
     (let c = retain_uploads c0; request_id = ev_request_id env in
      case ev_message env of
        None \<Rightarrow>
          Some (fst (send A ch (error_envelope request_id ErrUnknownMessage (lit ''empty envelope'') False) c), False)
      | Some m \<Rightarrow>
          if \<not> cn_authenticated c \<and> \<not> pre_auth_allowed m then
            Some (send A ch (error_envelope request_id ErrUnauthenticated (lit ''authenticate first'') False) c)
          else
            (case map_of (cn_forwards c) ch of
               Some b \<Rightarrow> Some (forward_frame A ch env b c)
             | None \<Rightarrow>
                 if ch = 0 then Some (dispatch_control P A env m c) else dispatch_channel P A ch env m c))"

end
