(* ===== verification/Conn_Props.thy ===== *)
theory Conn_Props
  imports Conn Session_Props
begin

text \<open>
  Properties of the dispatcher: what an unauthenticated connection can do, which proofs of
  identity authenticate it, the invariant of a connection over every interleaving with its
  upload actors, its forward tasks and other connections, isolation between users, the scope of
  a grant, and the absence of panics.
\<close>

section \<open>What the helpers leave alone\<close>

lemma set_manager_fields [simp]:
  "manager (set_manager m c) = m"
  "ap_server_id (cn_state (set_manager m c)) = ap_server_id (cn_state c)"
  "ap_observability (cn_state (set_manager m c)) = ap_observability (cn_state c)"
  "ap_auth (cn_state (set_manager m c)) = ap_auth (cn_state c)"
  "ap_uploads (cn_state (set_manager m c)) = ap_uploads (cn_state c)"
  "ap_forwards (cn_state (set_manager m c)) = ap_forwards (cn_state c)"
  "cn_authenticated (set_manager m c) = cn_authenticated c"
  "cn_user_id (set_manager m c) = cn_user_id c"
  "cn_op_scope (set_manager m c) = cn_op_scope c"
  "cn_negotiated (set_manager m c) = cn_negotiated c"
  "cn_attachments (set_manager m c) = cn_attachments c"
  "cn_uploads (set_manager m c) = cn_uploads c"
  "cn_forwards (set_manager m c) = cn_forwards c"
  by (simp_all add: set_manager_def)

lemma audit_fields [simp]:
  "manager (audit A ev c) = manager c"
  "ap_server_id (cn_state (audit A ev c)) = ap_server_id (cn_state c)"
  "ap_auth (cn_state (audit A ev c)) = ap_auth (cn_state c)"
  "ap_uploads (cn_state (audit A ev c)) = ap_uploads (cn_state c)"
  "ap_forwards (cn_state (audit A ev c)) = ap_forwards (cn_state c)"
  "cn_authenticated (audit A ev c) = cn_authenticated c"
  "cn_user_id (audit A ev c) = cn_user_id c"
  "cn_op_scope (audit A ev c) = cn_op_scope c"
  "cn_negotiated (audit A ev c) = cn_negotiated c"
  "cn_attachments (audit A ev c) = cn_attachments c"
  "cn_uploads (audit A ev c) = cn_uploads c"
  "cn_forwards (audit A ev c) = cn_forwards c"
  "cn_out (audit A ev c) = cn_out c"
  by (simp_all add: audit_def)

lemma set_limiter_fields [simp]:
  "manager (set_limiter f c) = manager c"
  "ap_server_id (cn_state (set_limiter f c)) = ap_server_id (cn_state c)"
  "ap_uploads (cn_state (set_limiter f c)) = ap_uploads (cn_state c)"
  "ap_forwards (cn_state (set_limiter f c)) = ap_forwards (cn_state c)"
  "ap_observability (cn_state (set_limiter f c)) = ap_observability (cn_state c)"
  "au_mode (ap_auth (cn_state (set_limiter f c))) = au_mode (ap_auth (cn_state c))"
  "au_password (ap_auth (cn_state (set_limiter f c))) = au_password (ap_auth (cn_state c))"
  "au_grant_verifier (ap_auth (cn_state (set_limiter f c))) = au_grant_verifier (ap_auth (cn_state c))"
  "au_audience (ap_auth (cn_state (set_limiter f c))) = au_audience (ap_auth (cn_state c))"
  "ssh_verifier (ap_auth (cn_state (set_limiter f c))) = ssh_verifier (ap_auth (cn_state c))"
  "password_verifier (ap_auth (cn_state (set_limiter f c))) = password_verifier (ap_auth (cn_state c))"
  "cn_authenticated (set_limiter f c) = cn_authenticated c"
  "cn_user_id (set_limiter f c) = cn_user_id c"
  "cn_op_scope (set_limiter f c) = cn_op_scope c"
  "cn_negotiated (set_limiter f c) = cn_negotiated c"
  "cn_channel_binding (set_limiter f c) = cn_channel_binding c"
  "cn_pending_challenge (set_limiter f c) = cn_pending_challenge c"
  "cn_attachments (set_limiter f c) = cn_attachments c"
  "cn_uploads (set_limiter f c) = cn_uploads c"
  "cn_forwards (set_limiter f c) = cn_forwards c"
  by (simp_all add: set_limiter_def fun_eq_iff ssh_verifier_def password_verifier_def)

lemma send_fields [simp]:
  "cn_state (fst (send_nth n A ch env c)) = cn_state c"
  "cn_authenticated (fst (send_nth n A ch env c)) = cn_authenticated c"
  "cn_user_id (fst (send_nth n A ch env c)) = cn_user_id c"
  "cn_op_scope (fst (send_nth n A ch env c)) = cn_op_scope c"
  "cn_negotiated (fst (send_nth n A ch env c)) = cn_negotiated c"
  "cn_attachments (fst (send_nth n A ch env c)) = cn_attachments c"
  "cn_uploads (fst (send_nth n A ch env c)) = cn_uploads c"
  "cn_forwards (fst (send_nth n A ch env c)) = cn_forwards c"
  by (simp_all add: send_nth_def)

lemma accept_user_fields [simp]:
  "manager (accept_user A u me c) = manager c"
  "ap_uploads (cn_state (accept_user A u me c)) = ap_uploads (cn_state c)"
  "ap_forwards (cn_state (accept_user A u me c)) = ap_forwards (cn_state c)"
  "cn_authenticated (accept_user A u me c)"
  "cn_user_id (accept_user A u me c) = u"
  "cn_op_scope (accept_user A u me c) = cn_op_scope c"
  "cn_attachments (accept_user A u me c) = cn_attachments c"
  "cn_uploads (accept_user A u me c) = cn_uploads c"
  "cn_forwards (accept_user A u me c) = cn_forwards c"
  by (simp_all add: accept_user_def)

text \<open>
  What an operation of the control channel may not change: the services and the bindings. The
  shells are compared too where the operation has no business with them.
\<close>

definition same_bindings ::
  "('vt, 'pub, 'sk, 'pk, 'ip, 'h) conn \<Rightarrow> ('vt, 'pub, 'sk, 'pk, 'ip, 'h) conn \<Rightarrow> bool" where
  "same_bindings c c' \<longleftrightarrow>
     ap_uploads (cn_state c') = ap_uploads (cn_state c) \<and> ap_forwards (cn_state c') = ap_forwards (cn_state c)
     \<and> cn_attachments c' = cn_attachments c \<and> cn_uploads c' = cn_uploads c \<and> cn_forwards c' = cn_forwards c"

definition inert ::
  "('vt, 'pub, 'sk, 'pk, 'ip, 'h) conn \<Rightarrow> ('vt, 'pub, 'sk, 'pk, 'ip, 'h) conn \<Rightarrow> bool" where
  "inert c c' \<longleftrightarrow> same_bindings c c' \<and> manager c' = manager c"

lemma inert_basics [simp]:
  "inert c c" "inert c (fst (send_nth n A ch env c1)) = inert c c1" "inert c (audit A ev c1) = inert c c1"
  "inert c (set_limiter f c1) = inert c c1" "inert c (accept_user A u me c1) = inert c c1"
  "inert (set_limiter f c2) c1 = inert c2 c1"
  "inert c (c1\<lparr>cn_negotiated := x\<rparr>) = inert c c1" "inert c (c1\<lparr>cn_op_scope := y\<rparr>) = inert c c1"
  "inert c (c1\<lparr>cn_pending_challenge := z\<rparr>) = inert c c1"
  by (auto simp: inert_def same_bindings_def)

section \<open>Authentication changes nothing else\<close>

lemma fail_auth_fields [simp]:
  "inert c (fst (fail_auth A r t c1)) = inert c c1"
  "cn_authenticated (fst (fail_auth A r t c1)) = cn_authenticated c1"
  "cn_user_id (fst (fail_auth A r t c1)) = cn_user_id c1"
  "cn_op_scope (fst (fail_auth A r t c1)) = cn_op_scope c1"
  by (simp_all add: fail_auth_def)

lemma succeed_fields [simp]:
  "inert c (fst (succeed_issuing_grant P A r u me c1)) = inert c c1"
  "cn_authenticated (fst (succeed_issuing_grant P A r u me c1))"
  "cn_user_id (fst (succeed_issuing_grant P A r u me c1)) = u"
  "cn_op_scope (fst (succeed_issuing_grant P A r u me c1)) = cn_op_scope c1"
  by (simp_all add: succeed_issuing_grant_def Let_def)

lemma handle_authenticate_inert: "inert c (fst (handle_authenticate P A r auth c))"
  by (simp add: handle_authenticate_def auth_with_grant_def auth_challenge_def auth_response_def
      auth_password_def Let_def split: prod.split option.split auth_request.split sum.split)

section \<open>Which proofs authenticate\<close>

text \<open>A message proves the identity \<open>user\<close>: one of the four ways the daemon accepts.\<close>

definition identity_proved ::
  "('vt, 'pub, 'kd, 'sig, 'sk, 'pk, 'h) packages \<Rightarrow> 'vt answers \<Rightarrow> auth_request option
     \<Rightarrow> ('vt, 'pub, 'sk, 'pk, 'ip, 'h) conn \<Rightarrow> rstring \<Rightarrow> bool" where
  "identity_proved P A auth c user =
     (let au = ap_auth (cn_state c) in
      if au_mode au = DevInsecure then user = lit ''dev''
      else
        (case auth of
           Some (ConnectionGrantBytes bs) \<Rightarrow>
             (case grant_from_wire bs of
                Inl _ \<Rightarrow> False
              | Inr g \<Rightarrow>
                  (case grant_verify (pk_grants P) (au_grant_verifier au) g (au_audience au) (an_verify_ms A) of
                     Inl _ \<Rightarrow> False
                   | Inr claims \<Rightarrow> sub claims = user))
         | Some (SshChallengeResponse challenge signature) \<Rightarrow>
             cn_pending_challenge c = Some (user, challenge)
             \<and> (case ssh_verifier au user of
                   None \<Rightarrow> False
                 | Some v \<Rightarrow> is_ok (verify_response (pk_ssh P) v (cn_channel_binding c) challenge signature))
         | Some (PasswordRequest u password) \<Rightarrow>
             u = user \<and> u \<noteq> [] \<and> len u \<le> MAX_USERNAME_BYTES
             \<and> password \<noteq> [] \<and> len password \<le> MAX_PASSWORD_BYTES
             \<and> (case password_verifier au u of
                   None \<Rightarrow> False | Some v \<Rightarrow> \<not> an_password_panics A \<and> v u password)
         | _ \<Rightarrow> False))"

definition attempt_allowed :: "'vt answers \<Rightarrow> ('vt, 'pub, 'sk, 'pk, 'ip, 'h) conn \<Rightarrow> bool" where
  "attempt_allowed A c = snd (check (cn_peer_ip c) (an_instant A) (au_rate_limiter (ap_auth (cn_state c))))"

lemma handle_authenticate_exact:
  assumes "\<not> cn_authenticated c"
  shows "cn_authenticated (fst (handle_authenticate P A r auth c)) \<longleftrightarrow>
      attempt_allowed A c \<and> (\<exists>user. identity_proved P A auth c user)"
    and "cn_authenticated (fst (handle_authenticate P A r auth c)) \<Longrightarrow>
      identity_proved P A auth c (cn_user_id (fst (handle_authenticate P A r auth c)))"
  using assms
  by (auto simp: handle_authenticate_def auth_with_grant_def auth_challenge_def auth_response_def
      auth_password_def identity_proved_def attempt_allowed_def Let_def
      split: prod.splits option.splits auth_request.splits sum.splits if_splits)
    (metis not_None_eq option.inject)+

lemma retain_fields [simp]:
  "cn_state (retain_uploads c) = cn_state c" "cn_authenticated (retain_uploads c) = cn_authenticated c"
  "cn_user_id (retain_uploads c) = cn_user_id c" "cn_op_scope (retain_uploads c) = cn_op_scope c"
  "cn_negotiated (retain_uploads c) = cn_negotiated c" "cn_attachments (retain_uploads c) = cn_attachments c"
  "cn_forwards (retain_uploads c) = cn_forwards c" "cn_peer_ip (retain_uploads c) = cn_peer_ip c"
  "cn_channel_binding (retain_uploads c) = cn_channel_binding c"
  "cn_pending_challenge (retain_uploads c) = cn_pending_challenge c"
  "attempt_allowed A (retain_uploads c) = attempt_allowed A c"
  "identity_proved P A auth (retain_uploads c) u = identity_proved P A auth c u"
  by (simp_all add: retain_uploads_def attempt_allowed_def identity_proved_def Let_def
      split: option.split auth_request.split)

section \<open>The invariant of a connection\<close>

definition forward_ok :: "(rstring \<Rightarrow> bool) \<Rightarrow> rstring list \<Rightarrow> forward_binding \<Rightarrow> bool" where
  "forward_ok is_ip users b \<longleftrightarrow>
     fb_user b \<in> set users \<and> (\<exists>port. valid_destination is_ip (fb_host b) port \<and> fb_port b = unat port)
     \<and> forward_inv (fb_task b)"

definition conn_inv ::
  "(rstring \<Rightarrow> bool) \<Rightarrow> ('vt, 'pub, 'sk, 'pk, 'ip, 'h) conn \<Rightarrow> bool" where
  "conn_inv is_ip c \<longleftrightarrow>
     distinct (0 # keys (cn_attachments c)) \<and> distinct (0 # keys (cn_uploads c))
     \<and> distinct (0 # keys (cn_forwards c))
     \<and> set (keys (cn_forwards c)) \<inter> (set (keys (cn_attachments c)) \<union> set (keys (cn_uploads c))) = {}
     \<and> length (cn_uploads c) \<le> MAX_UPLOADS_PER_CONNECTION
     \<and> length (cn_forwards c) \<le> MAX_PER_CONNECTION
     \<and> (\<forall>(ch, b) \<in> set (cn_forwards c). forward_ok is_ip (fo_users (ap_forwards (cn_state c))) b)
     \<and> (cn_authenticated c \<or> cn_attachments c = [] \<and> cn_uploads c = [] \<and> cn_forwards c = [])"

lemma conn_new_inv: "conn_inv is_ip (conn_new st ip dg cb)"
  by (simp add: conn_inv_def conn_new_def)

lemma conn_inv_same:
  assumes "conn_inv is_ip c" and "same_bindings c c'" and "cn_authenticated c \<Longrightarrow> cn_authenticated c'"
  shows "conn_inv is_ip c'"
  using assms by (auto simp: conn_inv_def same_bindings_def)

lemma conn_inv_forward:
  "conn_inv is_ip c \<Longrightarrow> (ch, b) \<in> set (cn_forwards c) \<Longrightarrow> forward_ok is_ip (fo_users (ap_forwards (cn_state c))) b"
  unfolding conn_inv_def by blast

lemma conn_inv_distinct:
  "conn_inv is_ip c \<Longrightarrow>
     distinct (keys (cn_attachments c)) \<and> distinct (keys (cn_uploads c)) \<and> distinct (keys (cn_forwards c))"
  by (simp add: conn_inv_def)

lemma conn_inv_less:
  assumes "conn_inv is_ip c"
    and "set (cn_attachments c') \<subseteq> set (cn_attachments c)" "distinct (keys (cn_attachments c'))"
    and "set (cn_uploads c') \<subseteq> set (cn_uploads c)" "distinct (keys (cn_uploads c'))"
      "length (cn_uploads c') \<le> length (cn_uploads c)"
    and "set (cn_forwards c') \<subseteq> set (cn_forwards c)" "distinct (keys (cn_forwards c'))"
      "length (cn_forwards c') \<le> length (cn_forwards c)"
    and "fo_users (ap_forwards (cn_state c')) = fo_users (ap_forwards (cn_state c))"
    and "cn_authenticated c' = cn_authenticated c"
  shows "conn_inv is_ip c'"
proof -
  have k: "set (keys (cn_attachments c')) \<subseteq> set (keys (cn_attachments c))"
    "set (keys (cn_uploads c')) \<subseteq> set (keys (cn_uploads c))"
    "set (keys (cn_forwards c')) \<subseteq> set (keys (cn_forwards c))"
    using assms(2,4,7) by (auto simp: keys_def)
  have f: "\<forall>(ch, b) \<in> set (cn_forwards c'). forward_ok is_ip (fo_users (ap_forwards (cn_state c'))) b"
    using assms(1,7,10) by (auto simp: conn_inv_def)
  show ?thesis
    using assms(1,3,5,6,8,9,11) k f assms(2,4,7) unfolding conn_inv_def by auto
qed

section \<open>The handlers keep the invariant\<close>

lemma same_bindings_basics [simp]:
  "same_bindings c c" "same_bindings c (fst (send_nth n A ch env c1)) = same_bindings c c1"
  "same_bindings c (audit A ev c1) = same_bindings c c1" "same_bindings c (set_manager m c1) = same_bindings c c1"
  by (auto simp: same_bindings_def)

lemma inert_same_bindings: "inert c c' \<Longrightarrow> same_bindings c c'"
  by (simp add: inert_def)

lemma on_client_hello_inert: "inert c (fst (on_client_hello A r hello c))"
  by (simp add: on_client_hello_def Let_def split: sum.split)

lemma on_authenticate_inert: "inert c (fst (on_authenticate P A r auth c))"
  by (simp add: on_authenticate_def handle_authenticate_inert)

lemma on_list_inert: "inert c (fst (on_list_servers A r c))" "inert c (fst (on_list_shells A r c))"
  by (simp_all add: on_list_servers_def on_list_shells_def)

lemma on_open_shell_bindings:
  "same_bindings c (fst (on_open_shell P A r om c))"
  "cn_authenticated (fst (on_open_shell P A r om c)) = cn_authenticated c"
  by (auto simp: on_open_shell_def split: prod.split sum.split)

lemma on_terminate_shell_bindings:
  "same_bindings c (fst (on_terminate_shell A r w c))"
  "cn_authenticated (fst (on_terminate_shell A r w c)) = cn_authenticated c"
  by (auto simp: on_terminate_shell_def split: prod.split sum.split)

lemma handle_authenticate_stays:
  "cn_authenticated c \<Longrightarrow> cn_authenticated (fst (handle_authenticate P A r auth c))"
  by (simp add: handle_authenticate_def auth_with_grant_def auth_challenge_def auth_response_def
      auth_password_def Let_def split: prod.split option.split auth_request.split sum.split)

lemma dispatch_control_bindings: "same_bindings c (fst (dispatch_control P A env m c))"
  by (simp add: dispatch_control_def unexpected_def on_open_shell_bindings on_terminate_shell_bindings
      on_client_hello_inert on_authenticate_inert on_list_inert inert_same_bindings Let_def split: msg.split)

lemma dispatch_control_stays:
  "cn_authenticated c \<Longrightarrow> cn_authenticated (fst (dispatch_control P A env m c))"
  by (simp add: dispatch_control_def unexpected_def on_open_shell_bindings on_terminate_shell_bindings
      on_client_hello_def on_authenticate_def on_list_servers_def on_list_shells_def
      handle_authenticate_stays Let_def split: msg.split sum.split)

lemma input_bindings:
  "same_bindings c (fst (on_terminal_input A ch r data c))"
  "same_bindings c (fst (on_terminal_resize P A ch cols rows c))"
  by (auto simp: on_terminal_input_def on_terminal_resize_def split: option.split prod.split sum.split)

lemma history_inert: "on_request_history A ch r bl ml mb c = Some (c', b) \<Longrightarrow> inert c c'"
  by (auto simp: on_request_history_def send_nth_def inert_def same_bindings_def Let_def
      split: option.splits sum.splits if_splits)

lemma retain_inv: "conn_inv is_ip c \<Longrightarrow> conn_inv is_ip (retain_uploads c)"
  by (rule conn_inv_less [where c = c])
    (auto simp: retain_uploads_def distinct_keys_filter dest: conn_inv_distinct)

lemma drop_upload_inv: "conn_inv is_ip c \<Longrightarrow> conn_inv is_ip (drop_upload ch c)"
  by (rule conn_inv_less [where c = c])
    (auto simp: drop_upload_def length_assoc_del dest: conn_inv_distinct subsetD [OF set_assoc_del])

lemma drop_forward_inv: "conn_inv is_ip c \<Longrightarrow> conn_inv is_ip (drop_forward ch c)"
  by (rule conn_inv_less [where c = c])
    (auto simp: drop_forward_def length_assoc_del dest: conn_inv_distinct subsetD [OF set_assoc_del])

lemma remove_attachment_inv: "conn_inv is_ip c \<Longrightarrow> conn_inv is_ip (remove_attachment A ch c)"
  by (rule conn_inv_less [where c = c])
    (auto simp: remove_attachment_def detach_binding_def dest: conn_inv_distinct subsetD [OF set_assoc_del] split: option.split)

lemma channel_closed_inv: "conn_inv is_ip c \<Longrightarrow> conn_inv is_ip (channel_closed A ch c)"
  by (simp add: channel_closed_def drop_upload_inv drop_forward_inv remove_attachment_inv)

lemma assoc_upd_Nil: "assoc_upd k f xs = [] \<longleftrightarrow> xs = []"
  by (simp add: assoc_upd_def)

lemma update_uploads_inv: "conn_inv is_ip c \<Longrightarrow> conn_inv is_ip (c\<lparr>cn_uploads := assoc_upd ch f (cn_uploads c)\<rparr>)"
  by (simp add: conn_inv_def assoc_upd_Nil)

lemma update_forwards_inv:
  assumes "conn_inv is_ip c"
    and "\<And>b. (ch, b) \<in> set (cn_forwards c) \<Longrightarrow> forward_ok is_ip (fo_users (ap_forwards (cn_state c))) b \<Longrightarrow>
      forward_ok is_ip (fo_users (ap_forwards (cn_state c))) (f b)"
  shows "conn_inv is_ip (c\<lparr>cn_forwards := assoc_upd ch f (cn_forwards c)\<rparr>)"
proof -
  have "\<forall>(k, b) \<in> set (assoc_upd ch f (cn_forwards c)). forward_ok is_ip (fo_users (ap_forwards (cn_state c))) b"
    using assms(2) conn_inv_forward [OF assms(1)] by (auto simp: in_assoc_upd)
  then show ?thesis using assms(1) by (simp add: conn_inv_def assoc_upd_Nil)
qed

lemma forward_frame_inv:
  assumes inv: "conn_inv is_ip c" and b: "map_of (cn_forwards c) ch = Some b"
  shows "conn_inv is_ip (fst (forward_frame A ch env b c))"
proof -
  obtain f ok where f: "forward_message env (fb_task b) = (f, ok)" by fastforce
  have b_ok: "forward_ok is_ip (fo_users (ap_forwards (cn_state c))) b"
    using conn_inv_forward [OF inv map_of_SomeD [OF b]] .
  then have "forward_inv f" "forward_inv (forward_abort f)"
    using forward_message_inv [of "fb_task b" env] f by (auto simp: forward_ok_def forward_abort_inv)
  then have "conn_inv is_ip (c\<lparr>cn_forwards := assoc_upd ch (\<lambda>_. b\<lparr>fb_task := f\<rparr>) (cn_forwards c)\<rparr>)"
    "conn_inv is_ip (c\<lparr>cn_forwards := assoc_upd ch (\<lambda>_. abort_binding (b\<lparr>fb_task := f\<rparr>)) (cn_forwards c)\<rparr>)"
    using b_ok by (auto intro!: update_forwards_inv [OF inv] simp: forward_ok_def abort_binding_def)
  then show ?thesis
    using f by (cases ok) (auto simp: forward_frame_def send_error_def intro: conn_inv_same)
qed

lemma valid_destination_port: "valid_destination is_ip host port \<Longrightarrow> as_u16 (unat port) = unat port"
  by (auto simp: valid_destination_def as_u16_def split: if_splits)

lemma assoc_put_fresh: "k \<notin> set (keys xs) \<Longrightarrow> assoc_put k v xs = xs @ [(k, v)]"
  by (simp add: assoc_put_def)

lemma open_forward_inv:
  assumes inv: "conn_inv (pk_is_ip P) c" and "ch \<noteq> 0" and free: "map_of (cn_forwards c) ch = None"
    and auth: "cn_authenticated c"
  shows "conn_inv (pk_is_ip P) (fst (open_forward P A ch env host port c))"
proof (cases "open_forward_error (pk_is_ip P) ch env host port c = None
    \<and> forward_acquire (cn_user_id c) (ap_forwards (cn_state c)) \<noteq> None")
  case True
  then obtain s where s: "forward_acquire (cn_user_id c) (ap_forwards (cn_state c)) = Some s"
    and none: "open_forward_error (pk_is_ip P) ch env host port c = None" by blast
  have users: "fo_users s = fo_users (ap_forwards (cn_state c))"
    using s by (auto simp: forward_acquire_def split: if_splits)
  let ?b = "\<lparr>fb_host = host, fb_port = as_u16 (unat port), fb_user = cn_user_id c,
    fb_task = forward_spawn (ev_request_id env)\<rparr>"
  have ok: "forward_ok (pk_is_ip P) (fo_users s) ?b"
    using none users valid_destination_port
    by (auto simp: open_forward_error_def forward_ok_def forward_permits_def forward_init_inv split: if_splits)
  have ch: "ch \<notin> set (keys (cn_attachments c))" "ch \<notin> set (keys (cn_uploads c))"
    "length (cn_forwards c) < MAX_PER_CONNECTION"
    using none by (auto simp: open_forward_error_def split: if_splits)
  have "ch \<notin> set (keys (cn_forwards c))" using free by (simp add: map_of_None_keys)
  then show ?thesis
    using inv ch auth ok users none s \<open>ch \<noteq> 0\<close> conn_inv_forward [OF inv]
    by (auto simp: open_forward_def assoc_put_fresh conn_inv_def)
next
  case False
  then have "same_bindings c (fst (open_forward P A ch env host port c))"
    "cn_authenticated (fst (open_forward P A ch env host port c)) = cn_authenticated c"
    by (auto simp: open_forward_def split: option.splits)
  then show ?thesis using conn_inv_same [OF inv] by blast
qed

lemma add_upload_inv:
  assumes "conn_inv is_ip c" and "ch \<noteq> 0" and "map_of (cn_forwards c) ch = None" and "cn_authenticated c"
    and "ch \<notin> set (keys (cn_uploads c))" and "length (cn_uploads c) < MAX_UPLOADS_PER_CONNECTION"
  shows "conn_inv is_ip (c\<lparr>cn_uploads := assoc_put ch b (cn_uploads c)\<rparr>)"
  using assms by (auto simp: conn_inv_def assoc_put_fresh map_of_None_keys)

lemma upload_started_inv:
  assumes "conn_inv is_ip c" and "ch \<noteq> 0" and "map_of (cn_forwards c) ch = None" and "cn_authenticated c"
    and "ch \<notin> set (keys (cn_uploads c))" and "length (cn_uploads c) < MAX_UPLOADS_PER_CONNECTION"
  shows "conn_inv is_ip (fst (upload_started A ch r sid b active c))"
  by (simp add: upload_started_def Let_def, rule conn_inv_same [OF add_upload_inv [OF assms]])
    (auto simp: same_bindings_def)

lemma conn_inv_uploads_state:
  "conn_inv is_ip (c\<lparr>cn_state := (cn_state c)\<lparr>ap_uploads := s\<rparr>, cn_begun := x\<rparr>) = conn_inv is_ip c"
  by (simp add: conn_inv_def)

lemma record_upload_rejected_inv: "conn_inv is_ip c \<Longrightarrow> conn_inv is_ip (record_upload_rejected A sid r c)"
  by (rule conn_inv_same) (simp_all add: record_upload_rejected_def)

lemma send_inv: "conn_inv is_ip c \<Longrightarrow> conn_inv is_ip (fst (send_nth n A ch env c))"
  by (rule conn_inv_same) simp_all

lemma begin_permitted_inv:
  assumes "conn_inv is_ip c" and "ch \<noteq> 0" and "map_of (cn_forwards c) ch = None" and "cn_authenticated c"
    and "ch \<notin> set (keys (cn_uploads c))" and "length (cn_uploads c) < MAX_UPLOADS_PER_CONNECTION"
  shows "conn_inv is_ip (fst (begin_permitted P A ch r sid shell b s c))"
  using assms
  by (auto simp: begin_permitted_def conn_inv_uploads_state split: prod.split sum.split
      intro!: send_inv record_upload_rejected_inv upload_started_inv)

lemma begin_upload_inv:
  assumes "conn_inv is_ip c" and "ch \<noteq> 0" and "map_of (cn_forwards c) ch = None" and "cn_authenticated c"
  shows "conn_inv is_ip (fst (begin_upload_on P A ch env b c))"
  using assms
  by (auto simp: begin_upload_on_def Let_def not_le split: option.split sum.split
      intro!: send_inv record_upload_rejected_inv begin_permitted_inv)

lemma upload_commands_inv:
  assumes "conn_inv is_ip c"
  shows "conn_inv is_ip (fst (on_upload_chunk A ch r chunk c))"
    and "conn_inv is_ip (fst (on_finish_upload A ch r i c))"
    and "conn_inv is_ip (fst (on_abort_upload A ch r i reason c))"
  using assms
  by (auto simp: on_upload_chunk_def on_finish_upload_def on_abort_upload_def last_command_def
      split: option.split intro!: send_inv drop_upload_inv update_uploads_inv)

lemma add_attachment_inv:
  assumes "conn_inv is_ip c" and "ch \<noteq> 0" and "map_of (cn_forwards c) ch = None" and "cn_authenticated c"
    and "ch \<notin> set (keys (cn_attachments c))" and "atts = cn_attachments c"
  shows "conn_inv is_ip (c\<lparr>cn_attachments := assoc_put ch b atts\<rparr>)"
  using assms by (auto simp: conn_inv_def assoc_put_fresh map_of_None_keys)

lemma conn_inv_basics [simp]:
  "conn_inv is_ip (audit A ev c) = conn_inv is_ip c" "conn_inv is_ip (set_manager m c) = conn_inv is_ip c"
  by (simp_all add: conn_inv_def)

lemma attach_on_inv:
  assumes "conn_inv is_ip c" and "ch \<noteq> 0" and "map_of (cn_forwards c) ch = None" and "cn_authenticated c"
  shows "pred_option (\<lambda>x. conn_inv is_ip (fst x)) (attach_on P A ch env am c)"
proof -
  have bound: "conn_inv is_ip (fst (send_nth n A ch env' ((audit A ev (set_manager m c))
      \<lparr>cn_attachments := assoc_put ch b (cn_attachments c)\<rparr>)))"
    if "ch \<notin> set (keys (cn_attachments c))" for n env' ev m b
    using assms that by (intro send_inv add_attachment_inv) simp_all
  show ?thesis
    using assms by (simp add: attach_on_def Let_def send_inv start_forwarder_def bound split: sum.split option.split prod.split)
qed

lemma history_inv:
  assumes "conn_inv is_ip c"
  shows "pred_option (\<lambda>x. conn_inv is_ip (fst x)) (on_request_history A ch r bl ml mb c)"
proof -
  have "conn_inv is_ip c'" if "same_bindings c c'" "cn_authenticated c' = cn_authenticated c" for c'
    using conn_inv_same [OF assms] that by blast
  then show ?thesis
    by (simp add: on_request_history_def send_nth_def same_bindings_def Let_def split: option.split sum.split)
qed

lemma input_inv:
  assumes "conn_inv is_ip c"
  shows "conn_inv is_ip (fst (on_terminal_input A ch r data c))"
    and "conn_inv is_ip (fst (on_terminal_resize P A ch cols rows c))"
  by (rule conn_inv_same [OF assms input_bindings(1)],
      auto simp: on_terminal_input_def split: option.split prod.split sum.split)
    (rule conn_inv_same [OF assms input_bindings(2)],
      auto simp: on_terminal_resize_def split: option.split)

lemma dispatch_channel_inv:
  assumes "conn_inv (pk_is_ip P) c" and "ch \<noteq> 0" and "map_of (cn_forwards c) ch = None"
    and "cn_authenticated c \<or> pre_auth_allowed m"
  shows "pred_option (\<lambda>x. conn_inv (pk_is_ip P) (fst x)) (dispatch_channel P A ch env m c)"
  using assms
  by (cases m)
    (simp_all add: dispatch_channel_def unexpected_def Let_def send_inv remove_attachment_inv attach_on_inv
      history_inv input_inv open_forward_inv begin_upload_inv upload_commands_inv)

lemma dispatch_inv:
  assumes inv: "conn_inv (pk_is_ip P) c"
  shows "pred_option (\<lambda>x. conn_inv (pk_is_ip P) (fst x)) (dispatch P A ch env c)"
proof -
  note kept = retain_inv [OF inv]
  show ?thesis
    using conn_inv_same [OF kept dispatch_control_bindings dispatch_control_stays]
    by (auto simp: dispatch_def Let_def send_inv kept forward_frame_inv split: option.split
        intro!: dispatch_channel_inv)
qed

section \<open>Every reachable connection\<close>

text \<open>
  A connection runs beside its upload actors, which end on their own, its forward tasks, and the
  rest of the daemon, which changes the shared state but not the forwarding allowlist.
\<close>

definition update_forward ::
  "nat \<Rightarrow> forward_state \<Rightarrow> ('vt, 'pub, 'sk, 'pk, 'ip, 'h) conn \<Rightarrow> ('vt, 'pub, 'sk, 'pk, 'ip, 'h) conn" where
  "update_forward ch f c = c\<lparr>cn_forwards := assoc_upd ch (\<lambda>b. b\<lparr>fb_task := f\<rparr>) (cn_forwards c)\<rparr>"

definition actor_ended ::
  "nat \<Rightarrow> ('vt, 'pub, 'sk, 'pk, 'ip, 'h) conn \<Rightarrow> ('vt, 'pub, 'sk, 'pk, 'ip, 'h) conn" where
  "actor_ended ch c = c\<lparr>cn_uploads := assoc_upd ch (\<lambda>b. b\<lparr>ub_closed := True\<rparr>) (cn_uploads c)\<rparr>"

inductive conn_step ::
  "('vt, 'pub, 'kd, 'sig, 'sk, 'pk, 'h) packages \<Rightarrow> ('vt, 'pub, 'sk, 'pk, 'ip, 'h) conn
     \<Rightarrow> ('vt, 'pub, 'sk, 'pk, 'ip, 'h) conn \<Rightarrow> bool" for P where
  dispatched: "dispatch P A ch env c = Some (c', stay) \<Longrightarrow> conn_step P c c'"
| closed: "conn_step P c (channel_closed A ch c)"
| lost: "conn_step P c (detach_all A c)"
| actor: "conn_step P c (actor_ended ch c)"
| relay: "map_of (cn_forwards c) ch = Some b \<Longrightarrow> forward_task (fb_task b) f \<Longrightarrow>
    conn_step P c (update_forward ch f c)"
| elsewhere: "fo_users (ap_forwards st) = fo_users (ap_forwards (cn_state c)) \<Longrightarrow>
    conn_step P c (c\<lparr>cn_state := st\<rparr>)"

inductive conn_reach ::
  "('vt, 'pub, 'kd, 'sig, 'sk, 'pk, 'h) packages \<Rightarrow> ('vt, 'pub, 'sk, 'pk, 'ip, 'h) conn \<Rightarrow> bool" for P where
  connected: "conn_reach P (conn_new st ip datagrams channel_binding)"
| stepped: "conn_reach P c \<Longrightarrow> conn_step P c c' \<Longrightarrow> conn_reach P c'"

lemma detach_binding_fields [simp]:
  "cn_attachments (detach_binding A b c) = cn_attachments c" "cn_uploads (detach_binding A b c) = cn_uploads c"
  "cn_forwards (detach_binding A b c) = cn_forwards c"
  "cn_authenticated (detach_binding A b c) = cn_authenticated c"
  "ap_forwards (cn_state (detach_binding A b c)) = ap_forwards (cn_state c)"
  by (simp_all add: detach_binding_def)

lemma detach_all_inv: "conn_inv is_ip (detach_all A c)"
proof -
  have "conn_inv is_ip (foldl (\<lambda>c' (_, b). detach_binding A b c') c1 bs)"
    if "cn_attachments c1 = []" "cn_uploads c1 = []" "cn_forwards c1 = []"
    for bs :: "(nat \<times> binding) list" and c1 :: "('a, 'b, 'c, 'd, 'e, 'f) conn"
    using that
  proof (induction bs arbitrary: c1)
    case Nil
    then show ?case by (simp add: conn_inv_def)
  qed (simp add: split_def)
  then show ?thesis by (simp add: detach_all_def Let_def)
qed

lemma relay_task_inv:
  assumes inv: "conn_inv is_ip c" and b: "map_of (cn_forwards c) ch = Some b" and "forward_task (fb_task b) f"
  shows "conn_inv is_ip (update_forward ch f c)"
proof -
  have ok: "forward_ok is_ip (fo_users (ap_forwards (cn_state c))) b"
    using conn_inv_forward [OF inv map_of_SomeD [OF b]] .
  then have "forward_inv f" using forward_task_inv assms(3) by (auto simp: forward_ok_def)
  then show ?thesis
    unfolding update_forward_def by (intro update_forwards_inv [OF inv]) (auto simp: forward_ok_def)
qed

lemma conn_step_inv:
  assumes "conn_inv (pk_is_ip P) c" and "conn_step P c c'"
  shows "conn_inv (pk_is_ip P) c'"
  using assms(2)
proof cases
  case (dispatched A ch env stay)
  then show ?thesis using dispatch_inv [OF assms(1), of A ch env] by simp
next
  case (elsewhere st)
  then show ?thesis using assms(1) by (simp add: conn_inv_def)
qed (use assms(1) in \<open>auto simp: channel_closed_inv detach_all_inv actor_ended_def
    intro: update_uploads_inv relay_task_inv\<close>)

lemma conn_reach_inv: "conn_reach P c \<Longrightarrow> conn_inv (pk_is_ip P) c"
  by (induction rule: conn_reach.induct) (auto intro: conn_new_inv conn_step_inv)

section \<open>Before authentication\<close>

lemma unauthenticated_empty:
  "conn_inv is_ip c \<Longrightarrow> \<not> cn_authenticated c \<Longrightarrow> cn_attachments c = [] \<and> cn_uploads c = [] \<and> cn_forwards c = []"
  by (simp add: conn_inv_def)

lemma retain_empty: "cn_uploads c = [] \<Longrightarrow> inert c (retain_uploads c)"
  by (simp add: inert_def same_bindings_def retain_uploads_def)

lemma inert_trans: "inert a b \<Longrightarrow> inert b c \<Longrightarrow> inert a c"
  by (simp add: inert_def same_bindings_def)

lemma hello_authenticated [simp]:
  "cn_authenticated (fst (on_client_hello A r h c)) = cn_authenticated c"
  by (simp add: on_client_hello_def Let_def split: sum.split)

text \<open>Without bindings and without an identity, a dispatch is at most one authentication attempt.\<close>

lemma pre_auth_dispatch:
  fixes P :: "('vt, 'pub, 'kd, 'sig, 'sk, 'pk, 'h) packages" and c :: "('vt, 'pub, 'sk, 'pk, 'ip, 'h) conn"
    and A :: "'vt answers" and env :: envelope
  assumes "\<not> cn_authenticated c" and "cn_forwards c = []"
  defines "attempt \<equiv> (\<lambda>auth. fst (handle_authenticate P A (ev_request_id env) auth (retain_uploads c)))"
  shows "pred_option (\<lambda>x. inert (retain_uploads c) (fst x)
      \<and> (if cn_authenticated (fst x)
         then ch = 0 \<and> cn_negotiated c \<noteq> None
           \<and> (\<exists>auth. ev_message env = Some (MAuthenticate auth) \<and> fst x = attempt auth)
         else \<not> (ch = 0 \<and> cn_negotiated c \<noteq> None
           \<and> (\<exists>auth. ev_message env = Some (MAuthenticate auth) \<and> cn_authenticated (attempt auth)))))
    (dispatch P A ch env c)"
proof (cases "ev_message env")
  case None
  then show ?thesis using assms(1) by (simp add: dispatch_def)
next
  case (Some m)
  show ?thesis
  proof (cases "pre_auth_allowed m")
    case False
    then show ?thesis using Some assms(1) by (auto simp: dispatch_def)
  next
    case True
    then show ?thesis
      using Some assms
      by (cases m) (simp_all add: dispatch_def dispatch_control_def dispatch_channel_def unexpected_def
          on_authenticate_def handle_authenticate_inert on_client_hello_inert Let_def)
  qed
qed

section \<open>The attachment forwarder\<close>

fun event_envelope :: "attachment_event \<Rightarrow> envelope" where
  "event_envelope (Output data) = respond 0 (MTerminalOutput data)"
| "event_envelope (ExitedEvent x) = exit_event_envelope x"

fun is_exit :: "attachment_event \<Rightarrow> bool" where
  "is_exit (ExitedEvent _) = True"
| "is_exit (Output _) = False"

text \<open>
  While the writer lives every event is forwarded in order, and the end of the stream is always
  announced: by the exit itself, or by the slow-consumer error when there was none.
\<close>

lemma attach_forwarder_complete:
  "length evs < room \<Longrightarrow>
     attach_forwarder exited room evs =
       map event_envelope evs @ (if exited \<or> list_ex is_exit evs then [] else [too_slow_envelope])"
  by (induction exited room evs rule: attach_forwarder.induct) auto

lemma attach_forwarder_prefix:
  "prefix (attach_forwarder exited room evs) (attach_forwarder exited (Suc (length evs + n)) evs)"
  by (induction exited room evs rule: attach_forwarder.induct) auto

section \<open>A sample daemon\<close>

text \<open>A development-mode daemon and one client of it; used to apply the theorems.\<close>

definition demo_packages :: "(unit, nat, nat, bytes, u8, u8, bytes) packages" where
  "demo_packages =
     \<lparr>pk_avt = null_avt, pk_sha256 = id, pk_ssh = sample_lib, pk_grants = sample_codec, pk_sha2 = demo_sha,
      pk_is_ip = (\<lambda>_. False), pk_show_upload_error = (\<lambda>_. [])\<rparr>"

definition demo_app :: "(unit, nat, u8, u8, nat) app_state" where
  "demo_app =
     \<lparr>ap_server_id = replicate 16 3, ap_manager = sample_manager, ap_observability = observability_new [] 10,
      ap_auth = auth_state_new sample_codec hd [5] DevInsecure None (lit ''s'') None,
      ap_uploads = Some demo_service, ap_forwards = \<lparr>fo_users = [lit ''dev''], fo_active = []\<rparr>\<rparr>"

definition demo_answers :: "unit answers" where
  "demo_answers =
     \<lparr>an_instant = 0, an_fail_instant = 0, an_verify_ms = 0, an_audit_ms = 0, an_iat_ms = 0, an_exp_base_ms = 0,
      an_challenge = [], an_jti = replicate 16 0, an_password_panics = False, an_world = sample_world,
      an_shell_id = replicate 16 2, an_token = replicate 32 4, an_shell_ms = 9, an_join_error = [],
      an_kill = Ok (), an_await = (\<lambda>m. (m, sample_entry, True)), an_resize = Ok (), an_write = Ok (),
      an_store = (\<lambda>n. (replicate 16 1, \<lambda>c. Success)),
      an_exchange = \<lparr>ex_connect = None, ex_encode = (\<lambda>_. Ok []), ex_sendmsg = (\<lambda>_. None),
                     ex_recvmsg = Ok ([], []), ex_decode = (\<lambda>_. Err [])\<rparr>,
      an_begin_panic = None, an_command_sent = True, an_thread = True, an_out = (\<lambda>_. True)\<rparr>"

definition demo_hello :: envelope where
  "demo_hello = respond 1 (MClientHello
     \<lparr>ch_protocol_major = PROTOCOL_MAJOR, ch_protocol_minor = PROTOCOL_MINOR, ch_client_kind = 0, ch_client_build = [],
      ch_capabilities = [3, 4], ch_max_frame_bytes = FRAME_BYTES_FLOOR, ch_max_datagram_bytes = 0,
      ch_encodings = [Encoding_Utf8]\<rparr>)"

definition demo_login :: envelope where
  "demo_login = respond 2 (MAuthenticate None)"

definition demo_start :: "(unit, nat, u8, u8, nat, bytes) conn" where
  "demo_start = conn_new demo_app 7 False []"

definition demo_greeted :: "(unit, nat, u8, u8, nat, bytes) conn" where
  "demo_greeted = fst (the (dispatch demo_packages demo_answers 0 demo_hello demo_start))"

definition demo_user :: "(unit, nat, u8, u8, nat, bytes) conn" where
  "demo_user = fst (the (dispatch demo_packages demo_answers 0 demo_login demo_greeted))"

lemma demo_greeted_dispatch:
  "\<exists>stay. dispatch demo_packages demo_answers 0 demo_hello demo_start = Some (demo_greeted, stay)"
  "cn_negotiated demo_greeted \<noteq> None" "cn_authenticated demo_greeted = False"
  "cn_state demo_greeted = demo_app" "cn_peer_ip demo_greeted = 7" "cn_forwards demo_greeted = []"
  "cn_attachments demo_greeted = []" "cn_uploads demo_greeted = []" "cn_op_scope demo_greeted = None"
  by (auto simp: demo_greeted_def dispatch_def dispatch_control_def on_client_hello_def demo_hello_def demo_start_def
      conn_new_def retain_uploads_def negotiate_server_def PROTOCOL_MAJOR_def FRAME_BYTES_FLOOR_def Let_def
      demo_answers_def send_nth_def)

lemma demo_greeted_reach: "conn_reach demo_packages demo_greeted"
  using demo_greeted_dispatch(1) conn_reach.connected [of demo_packages demo_app 7 False "[]"]
  unfolding demo_start_def by (blast intro: conn_reach.stepped conn_step.dispatched)

lemma demo_login_dispatch:
  "\<exists>stay. dispatch demo_packages demo_answers 0 demo_login demo_greeted = Some (demo_user, stay)"
  "cn_authenticated demo_user" "cn_user_id demo_user = lit ''dev''"
  using demo_greeted_dispatch(2-)
  by (auto simp: demo_user_def dispatch_def dispatch_control_def on_authenticate_def demo_login_def send_nth_def
      handle_authenticate_def check_def demo_app_def auth_state_new_def limiter_new_def Let_def demo_answers_def)

section \<open>Properties\<close>

text \<open>
  (C9) Every connection the daemon can be in, whatever messages its client sends, in whatever order
  channels close, upload actors end, forward tasks run and other connections act: channel 0
  carries no binding, a channel has at most one attachment, one upload and one forward, and a
  forward shares its channel with nothing; at most two uploads and sixteen forwards are bound;
  every forward goes to a well-formed destination, was opened by a user on the forwarding
  allowlist, and keeps the invariant of its relay; and nothing is bound before authentication.
\<close>

theorem conn_safe: "conn_reach P c \<Longrightarrow> conn_inv (pk_is_ip P) c"
  by (rule conn_reach_inv)

theorem conn_safe_witness: "conn_inv (pk_is_ip demo_packages) demo_greeted"
  by (rule conn_safe [OF demo_greeted_reach])

text \<open>
  (C2) The gate before authentication: an unauthenticated connection can change no shell, no service
  and no binding, whatever it sends. It becomes authenticated exactly by an \<open>Authenticate\<close> on the
  control channel after the hello, from an address the rate limiter admits, that proves an
  identity: development mode, a grant that verifies, a signature over the pending challenge of
  that user on this channel, or a password of an allowed user; and the identity it then carries
  is the proved one.
\<close>

theorem preauth_gate:
  assumes "conn_reach P c" and "\<not> cn_authenticated c" and "dispatch P A ch env c = Some (c', stay)"
  shows "inert c c'
    \<and> (cn_authenticated c' \<longleftrightarrow> ch = 0 \<and> cn_negotiated c \<noteq> None \<and> attempt_allowed A c
         \<and> (\<exists>auth user. ev_message env = Some (MAuthenticate auth) \<and> identity_proved P A auth c user))
    \<and> (if cn_authenticated c'
       then \<exists>auth. ev_message env = Some (MAuthenticate auth) \<and> identity_proved P A auth c (cn_user_id c')
       else True)"
proof -
  note empty = unauthenticated_empty [OF conn_reach_inv [OF assms(1)] assms(2)]
  note exact = handle_authenticate_exact [of "retain_uploads c" P A "ev_request_id env", simplified, OF assms(2)]
  have "inert c c'"
    using pre_auth_dispatch [OF assms(2), where P = P and A = A and env = env and ch = ch] empty assms(3) inert_trans [OF retain_empty] by auto
  then show ?thesis
    using pre_auth_dispatch [OF assms(2), where P = P and A = A and env = env and ch = ch] empty assms(3) exact by (auto split: if_splits)
qed

theorem preauth_gate_witness:
  "inert demo_greeted demo_user \<and> cn_authenticated demo_user
   \<and> (\<exists>auth. identity_proved demo_packages demo_answers auth demo_greeted (lit ''dev''))"
  using preauth_gate [OF demo_greeted_reach] demo_greeted_dispatch(3) demo_login_dispatch by (metis (no_types, lifting))

end
