(* ===== verification/Session_Isolation.thy ===== *)
theory Session_Isolation
  imports Session_Safety
begin

text \<open>
  Which shells an operation of the session core can touch: the entries of shells of other owners
  stay as they are. The dispatcher of a connection and the overlay agent both rest on this.
\<close>

section \<open>Shells of other users\<close>

text \<open>The entry of a shell whose owner is not in \<open>U\<close>.\<close>

definition foreign :: "rstring set \<Rightarrow> 'vt shell_manager \<Rightarrow> bytes \<Rightarrow> 'vt shell_entry option" where
  "foreign U m sid =
     (case map_of (sm_shells m) sid of None \<Rightarrow> None | Some e \<Rightarrow> if se_owner e \<in> U then None else Some e)"

lemma foreign_None:
  "foreign U m sid = None \<longleftrightarrow> (case map_of (sm_shells m) sid of None \<Rightarrow> True | Some e \<Rightarrow> se_owner e \<in> U)"
  by (simp add: foreign_def split: option.split)

lemma foreign_mono:
  assumes "foreign U m' = foreign U m" and "U \<subseteq> V"
  shows "foreign V m' = foreign V m"
proof
  fix sid
  have "foreign V n sid = (case foreign U n sid of None \<Rightarrow> None | Some e \<Rightarrow> if se_owner e \<in> V then None else Some e)" for n :: "'a shell_manager"
    using assms(2) by (auto simp: foreign_def split: option.split)
  then show "foreign V m' sid = foreign V m sid" using assms(1) by simp
qed

lemma foreign_set_runtime:
  assumes "foreign U m sid = None"
  shows "foreign U (set_runtime sid f m) = foreign U m"
  using assms by (auto simp: fun_eq_iff foreign_def lookup_set_runtime split: option.splits)

lemma foreign_owned: "map_of (sm_shells m) sid = Some e \<Longrightarrow> se_owner e \<in> U \<Longrightarrow> foreign U m sid = None"
  by (simp add: foreign_def)

lemma foreign_insert:
  assumes "sid \<notin> set (keys (sm_shells m))" and "se_owner e \<in> U"
  shows "foreign U (m\<lparr>sm_shells := assoc_put sid e (sm_shells m), sm_idempotency := i\<rparr>) = foreign U m"
  using assms by (auto simp: fun_eq_iff foreign_def map_of_None_keys [symmetric])

lemma foreign_open_shell:
  assumes inv: "sm_inv m" and fresh: "sid \<notin> set (keys (sm_shells m))" and u: "rq_user req \<in> U"
    and "open_shell A sha256 w req sid token now m = Some (m', r)"
  shows "foreign U m' = foreign U m"
proof (cases "map_of (sm_idempotency m) (rq_user req, rq_idempotency_key req)")
  case (Some old)
  then obtain e where e: "map_of (sm_shells m) old = Some e" "se_owner e = rq_user req"
    using sm_inv_idem [OF inv map_of_SomeD] by blast
  then have "m' = set_runtime old (rotate_token sha256 token) m"
    using assms(4) Some by (auto simp: open_shell_def Let_def)
  then show ?thesis using e u by (simp add: foreign_set_runtime foreign_owned)
next
  case None
  have "se_owner (new_entry A sha256 c req acc pty cols rows sid token now) \<in> U" for c acc pty cols rows
    using u by (simp add: new_entry_def)
  then show ?thesis
    using assms(4) None foreign_insert [OF fresh]
    by (auto simp: open_shell_def Let_def split: sum.splits if_splits prod.splits option.splits)
qed

lemma foreign_attach:
  assumes "owner \<in> U"
  shows "foreign U (fst (attach A sha256 owner sid token cols rows fresh now res m)) = foreign U m"
  using assms
  by (auto simp: attach_def Let_def foreign_set_runtime foreign_owned split: option.split prod.split)

lemma foreign_attach_authorized:
  assumes "owner \<in> U"
  shows "foreign U (fst (attach_authorized A sha256 owner sid cols rows fresh now res m)) = foreign U m"
  using assms
  by (auto simp: attach_authorized_def Let_def foreign_set_runtime foreign_owned split: option.split prod.split)

lemma foreign_bound_ops:
  assumes "foreign U m sid = None"
  shows "foreign U (fst (detach sid aid m)) = foreign U m"
    and "foreign U (fst (write_input sid data res m)) = foreign U m"
    and "foreign U (fst (resize A sid cols rows res m)) = foreign U m"
    and "foreign U (fst (terminate_begin sid res m)) = foreign U m"
  using assms
  by (auto simp: detach_def write_input_def resize_def terminate_begin_def Let_def foreign_set_runtime
      split: option.split sum.split prod.split)

lemma foreign_terminate_end:
  assumes "foreign U m sid = None" and "terminate_end sid held timed_out m = Some (m', r)"
  shows "foreign U m' = foreign U m"
  using assms by (auto simp: terminate_end_def Let_def foreign_set_runtime split: if_splits option.splits)

section \<open>Owners\<close>

text \<open>Shells keep their owner as long as they exist.\<close>

definition owner_of :: "bytes \<Rightarrow> 'vt shell_manager \<Rightarrow> rstring option" where
  "owner_of sid m = map_option se_owner (map_of (sm_shells m) sid)"

lemma owner_of_set_runtime [simp]: "owner_of sid (set_runtime s f m) = owner_of sid m"
  by (auto simp: owner_of_def lookup_set_runtime option.map_comp comp_def)

lemma owner_of_foreign: "owner_of sid m = Some u \<Longrightarrow> u \<in> U \<Longrightarrow> foreign U m sid = None"
  by (auto simp: owner_of_def intro: foreign_owned)

lemma owner_of_step:
  assumes "sm_inv m" and "ev \<noteq> EvRemove sid" and "owner_of sid m = Some u"
  shows "owner_of sid (session_step A sha256 m ev) = Some u"
proof (cases "enabled m ev")
  case True
  then obtain m' where m': "session_exec A sha256 m ev = Some m'" using session_exec_inv [OF assms(1)] by blast
  have "owner_of sid m' = Some u"
  proof (cases ev)
    case (EvOpen w req s token now)
    then have "s \<noteq> sid" using True assms(3) by (auto simp: owner_of_def map_of_None_keys [symmetric])
    then have put: "owner_of sid (m\<lparr>sm_shells := assoc_put s e (sm_shells m), sm_idempotency := i\<rparr>) = Some u" for e i
      using assms(3) by (simp add: owner_of_def)
    show ?thesis using m' EvOpen assms(3) put
      by (auto simp: open_shell_def Let_def split: option.splits sum.splits if_splits prod.splits)
  next
    case (EvRemove s)
    then show ?thesis using m' assms(2,3)
      by (auto simp: remove_exited_def owner_of_def split: option.splits if_splits)
  qed (use m' assms(3) in \<open>auto simp: attach_def attach_authorized_def detach_def write_input_def resize_def
      terminate_begin_def terminate_end_def Let_def split: option.splits sum.splits if_splits prod.splits\<close>)
  then show ?thesis using True m' by (simp add: session_step_def)
qed (use assms(3) in \<open>simp add: session_step_def\<close>)

lemma owner_of_run:
  assumes "sm_inv m" and "list_all (\<lambda>ev. ev \<noteq> EvRemove sid) evs" and "owner_of sid m = Some u"
  shows "owner_of sid (foldl (session_step A sha256) m evs) = Some u"
  using assms
proof (induction evs arbitrary: m)
  case (Cons ev evs)
  have "sm_inv (session_step A sha256 m ev)" using Cons.prems(1) session.step_inv by blast
  then show ?case using Cons owner_of_step [of m ev sid u A sha256] by simp
qed simp

section \<open>Reads\<close>

lemma history_total:
  assumes "sm_inv m" and "ml < 2 ^ 32"
  shows "history sid bl ml mb m \<noteq> None"
proof (cases "map_of (sm_shells m) sid")
  case (Some e)
  then have "ring_inv (tm_history (rt_model (se_runtime e)))"
    using sm_inv_entry [OF assms(1)] by (auto simp: rt_inv_def tm_inv_def)
  then have "history_range (tm_history (rt_model (se_runtime e))) bl ml mb \<noteq> None"
    using history_range_exact [OF _ assms(2)] by fastforce
  then show ?thesis using Some by (simp add: history_def tm_history_range_def)
qed (simp add: history_def)

end
