(* ===== verification/Conn_Isolation.thy ===== *)
theory Conn_Isolation
  imports Conn_Props Session_Isolation
begin

text \<open>
  What a connection can do to the shells: the dispatcher never panics and keeps the session
  core's invariant, never touches a shell of a user it has not authenticated as, lists only the
  user's own shells, and performs no operation outside the scope of its grant.
\<close>

section \<open>Waiting\<close>

text \<open>While \<open>terminate\<close> waits, other tasks run; on the shells in question they do nothing.\<close>

definition await_quiet :: "rstring set \<Rightarrow> 'vt answers \<Rightarrow> bool" where
  "await_quiet U A \<longleftrightarrow> (\<forall>m. foreign U (fst (an_await A m)) = foreign U m)"

lemma foreign_terminate_blocking:
  assumes own: "foreign U m sid = None" and quiet: "await_quiet U A"
  shows "foreign U (fst (terminate_blocking A sid m)) = foreign U m"
proof -
  obtain m1 pr where b: "terminate_begin sid (an_kill A) m = (m1, pr)" by fastforce
  obtain m2 held t where a: "an_await A m1 = (m2, held, t)" using prod_cases3 by blast
  have f: "foreign U m1 = foreign U m" "foreign U m2 = foreign U m"
    using foreign_bound_ops(4) [OF own, of "an_kill A"] b quiet [unfolded await_quiet_def, rule_format, of m1] a by auto
  show ?thesis
    using f a b own foreign_terminate_end [of U m2 sid held t]
    by (auto simp: terminate_blocking_def terminate_def split: option.split terminate_progress.split)
qed

section \<open>Handlers and other users' shells\<close>

text \<open>
  A connection whose attachments are all to shells of \<open>U\<close>, and the effect of a dispatch that
  leaves every other shell alone and binds none of them.
\<close>

definition bound_within :: "rstring set \<Rightarrow> ('vt, 'pub, 'sk, 'pk, 'ip, 'h) conn \<Rightarrow> bool" where
  "bound_within U c \<longleftrightarrow> (\<forall>(ch, b) \<in> set (cn_attachments c). foreign U (manager c) (bd_shell_id b) = None)"

definition confined ::
  "rstring set \<Rightarrow> ('vt, 'pub, 'sk, 'pk, 'ip, 'h) conn \<Rightarrow> ('vt, 'pub, 'sk, 'pk, 'ip, 'h) conn \<Rightarrow> bool" where
  "confined U c c' \<longleftrightarrow> foreign U (manager c') = foreign U (manager c) \<and> bound_within U c'"

lemma bound_withinD: "bound_within U c \<Longrightarrow> map_of (cn_attachments c) ch = Some b \<Longrightarrow>
    foreign U (manager c) (bd_shell_id b) = None"
  by (auto simp: bound_within_def dest: map_of_SomeD)

lemma bound_within_cong:
  assumes "bound_within U c" and "set (cn_attachments c') \<subseteq> set (cn_attachments c)"
    and "foreign U (manager c') = foreign U (manager c)"
  shows "bound_within U c'"
  using assms by (auto simp: bound_within_def)

lemma confinedI:
  assumes "bound_within U c" and "set (cn_attachments c') \<subseteq> set (cn_attachments c)"
    and "foreign U (manager c') = foreign U (manager c)"
  shows "confined U c c'"
  using assms bound_within_cong by (auto simp: confined_def)

lemma inert_confined: "bound_within U c \<Longrightarrow> inert c c' \<Longrightarrow> confined U c c'"
  by (rule confinedI) (auto simp: inert_def same_bindings_def)

lemma owned_shell_foreign: "owned_shell u sid m \<noteq> None \<Longrightarrow> u \<in> U \<Longrightarrow> foreign U m sid = None"
  by (auto simp: owned_shell_def shell_info_of_def info_of_def foreign_def Let_def split: option.splits sum.splits if_splits)

lemma on_open_shell_confined:
  assumes "bound_within U c" and "cn_user_id c \<in> U" and "sm_inv (manager c)"
    and "an_shell_id A \<notin> set (keys (sm_shells (manager c)))"
  shows "confined U c (fst (on_open_shell P A r om c))"
proof -
  have "foreign U (fst (open_blocking P A (open_request (cn_user_id c) om) (manager c))) = foreign U (manager c)"
    using foreign_open_shell [OF assms(3,4), of "open_request (cn_user_id c) om" U] assms(2)
    by (auto simp: open_blocking_def open_request_def split: option.split)
  then show ?thesis
    using on_open_shell_bindings(1) [of c P A r om]
    by (intro confinedI [OF assms(1)])
      (auto simp: same_bindings_def on_open_shell_def split: prod.splits sum.split)
qed

lemma on_terminate_shell_confined:
  assumes "bound_within U c" and "cn_user_id c \<in> U" and "await_quiet U A"
  shows "confined U c (fst (on_terminate_shell A r w c))"
proof -
  have "foreign U (fst (terminate_blocking A sid (manager c))) = foreign U (manager c)"
    if "owned_shell (cn_user_id c) sid (manager c) \<noteq> None" for sid
    using foreign_terminate_blocking [OF owned_shell_foreign [OF that assms(2)] assms(3)] .
  then show ?thesis
    using on_terminate_shell_bindings(1) [of c A r w]
    by (intro confinedI [OF assms(1)])
      (fastforce simp: same_bindings_def on_terminate_shell_def split: prod.splits sum.splits)+
qed

lemma dispatch_control_confined:
  assumes "bound_within U c" and "cn_user_id c \<in> U" and "sm_inv (manager c)"
    and "an_shell_id A \<notin> set (keys (sm_shells (manager c)))" and "await_quiet U A"
  shows "confined U c (fst (dispatch_control P A env m c))"
  using assms inert_confined [OF assms(1)]
  by (cases m) (simp_all add: dispatch_control_def unexpected_def on_open_shell_confined on_terminate_shell_confined
      on_client_hello_inert on_authenticate_inert on_list_inert)

lemma input_manager:
  "manager (fst (on_terminal_input A ch r data c)) =
     (case map_of (cn_attachments c) ch of
        None \<Rightarrow> manager c | Some b \<Rightarrow> fst (write_input (bd_shell_id b) data (an_write A) (manager c)))"
  "manager (fst (on_terminal_resize P A ch cols rows c)) =
     (case map_of (cn_attachments c) ch of
        None \<Rightarrow> manager c
      | Some b \<Rightarrow> fst (resize (pk_avt P) (bd_shell_id b) (as_u16 cols) (as_u16 rows) (an_resize A) (manager c)))"
  by (simp_all add: on_terminal_input_def on_terminal_resize_def split: option.split prod.split sum.split)

lemma input_confined:
  assumes "bound_within U c"
  shows "confined U c (fst (on_terminal_input A ch r data c))"
    and "confined U c (fst (on_terminal_resize P A ch cols rows c))"
proof -
  have b: "foreign U (manager c) (bd_shell_id b) = None" if "map_of (cn_attachments c) ch = Some b" for b
    using bound_withinD [OF assms that] .
  show "confined U c (fst (on_terminal_input A ch r data c))"
    using input_bindings(1) [of c A ch r data] b
    by (intro confinedI [OF assms]) (auto simp: same_bindings_def input_manager foreign_bound_ops split: option.split)
  show "confined U c (fst (on_terminal_resize P A ch cols rows c))"
    using input_bindings(2) [of c P A ch cols rows] b
    by (intro confinedI [OF assms]) (auto simp: same_bindings_def input_manager foreign_bound_ops split: option.split)
qed

lemma remove_attachment_confined:
  assumes "bound_within U c"
  shows "confined U c (remove_attachment A ch c)"
  using bound_withinD [OF assms, of ch] set_assoc_del [of ch "cn_attachments c"]
  by (intro confinedI [OF assms])
    (auto simp: remove_attachment_def detach_binding_def foreign_bound_ops split: option.splits)

text \<open>Opening forwards and moving upload data leaves the shells and the attachments as they are.\<close>

definition same_shells ::
  "('vt, 'pub, 'sk, 'pk, 'ip, 'h) conn \<Rightarrow> ('vt, 'pub, 'sk, 'pk, 'ip, 'h) conn \<Rightarrow> bool" where
  "same_shells c c' \<longleftrightarrow> manager c' = manager c \<and> cn_attachments c' = cn_attachments c"

lemma same_shells_basics [simp]:
  "same_shells c c" "same_shells c (fst (send_nth n A ch env c1)) = same_shells c c1"
  "same_shells c (audit A ev c1) = same_shells c c1"
  "same_shells c (record_upload_rejected A sid rr c1) = same_shells c c1"
  "same_shells c (c1\<lparr>cn_uploads := us\<rparr>) = same_shells c c1" "same_shells c (c1\<lparr>cn_forwards := fs\<rparr>) = same_shells c c1"
  "same_shells c (drop_upload ch c1) = same_shells c c1" "same_shells c (retain_uploads c1) = same_shells c c1"
  "same_shells (retain_uploads c1) c = same_shells c1 c"
  "same_shells c (c1\<lparr>cn_state := (cn_state c1)\<lparr>ap_uploads := s\<rparr>, cn_begun := x\<rparr>) = same_shells c c1"
  by (auto simp: same_shells_def record_upload_rejected_def drop_upload_def retain_uploads_def)

lemma same_shells_confined: "bound_within U c \<Longrightarrow> same_shells c c' \<Longrightarrow> confined U c c'"
  by (rule confinedI) (auto simp: same_shells_def)

lemma transfer_same_shells:
  "same_shells c (fst (forward_frame A ch env b c))"
  "same_shells c (fst (open_forward P A ch env host port c))"
  "same_shells c (fst (begin_upload_on P A ch env bu c))"
  "same_shells c (fst (on_upload_chunk A ch r chunk c))"
  "same_shells c (fst (on_finish_upload A ch r i c))"
  "same_shells c (fst (on_abort_upload A ch r i reason c))"
proof -
  show "same_shells c (fst (open_forward P A ch env host port c))"
    by (auto simp: open_forward_def same_shells_def split: option.split)
  show "same_shells c (fst (begin_upload_on P A ch env bu c))"
    by (simp add: begin_upload_on_def begin_permitted_def upload_started_def Let_def
        split: option.split sum.split prod.split)
qed (simp_all add: forward_frame_def send_error_def on_upload_chunk_def on_finish_upload_def on_abort_upload_def
    last_command_def split: prod.split bool.split option.split)

lemma attach_on_confined:
  assumes "bound_within U c" and u: "cn_user_id c \<in> U"
  shows "pred_option (\<lambda>x. confined U c (fst x)) (attach_on P A ch env am c)"
proof -
  define att where "att = (\<lambda>sid token. attach (pk_avt P) (pk_sha256 P) (cn_user_id c) sid token (as_u16 (am_cols am))
    (as_u16 (am_rows am)) (an_token A) (an_shell_ms A) (an_resize A) (manager c))"
  have f: "foreign U (fst (att sid token)) = foreign U (manager c)" for sid token
    using foreign_attach [OF u] by (simp add: att_def)
  have own: "foreign U (manager c) sid = None" if "att sid token = (m, Inr a)" for sid token m a
    using that u by (auto simp: att_def attach_def foreign_def split: option.splits if_splits)
  have kept: "confined U c c'"
    if "att sid token = (m, x)" "manager c' = m" "cn_attachments c' = cn_attachments c" for sid token m x c'
    using that f [of sid token] by (intro confinedI [OF assms(1)]) auto
  have bound: "confined U c c'"
    if "att sid token = (m, Inr a)" "manager c' = m" "ch \<notin> set (keys (cn_attachments c))"
      "cn_attachments c' = assoc_put ch \<lparr>bd_shell_id = sid, bd_attachment_id = i\<rparr> (cn_attachments c)"
    for sid token m a c' i
    using that f [of sid token] own [OF that(1)] assms(1)
    by (auto simp: confined_def bound_within_def assoc_put_fresh)
  show ?thesis
    using inert_confined [OF assms(1)]
    by (auto simp: attach_on_def Let_def start_forwarder_def intro: kept [unfolded att_def] bound [unfolded att_def]
        split: sum.split option.split prod.split)
qed

lemma history_confined:
  assumes "bound_within U c"
  shows "pred_option (\<lambda>x. confined U c (fst x)) (on_request_history A ch r bl ml mb c)"
proof (cases "on_request_history A ch r bl ml mb c")
  case (Some x)
  then show ?thesis using inert_confined [OF assms] history_inert [of A ch r bl ml mb c "fst x" "snd x"] by simp
qed simp

lemma dispatch_channel_confined:
  assumes "bound_within U c" and "cn_user_id c \<in> U"
  shows "pred_option (\<lambda>x. confined U c (fst x)) (dispatch_channel P A ch env m c)"
  using assms same_shells_confined [OF assms(1)]
  by (cases m) (simp_all add: dispatch_channel_def unexpected_def transfer_same_shells attach_on_confined
      history_confined input_confined remove_attachment_confined)

lemma confined_retain:
  "bound_within U (retain_uploads c) = bound_within U c" "confined U (retain_uploads c) c' = confined U c c'"
  by (simp_all add: bound_within_def confined_def)

lemma dispatch_confined:
  assumes "bound_within U c" and "cn_user_id c \<in> U" and "sm_inv (manager c)"
    and "an_shell_id A \<notin> set (keys (sm_shells (manager c)))" and "await_quiet U A"
  shows "pred_option (\<lambda>x. confined U c (fst x)) (dispatch P A ch env c)"
proof -
  let ?c = "retain_uploads c"
  have w: "bound_within U ?c" using assms(1) by (simp add: confined_retain)
  have control: "confined U c (fst (dispatch_control P A env m ?c))" for m
    using dispatch_control_confined [OF w, of A P env m] assms by (simp add: confined_retain)
  have channel: "pred_option (\<lambda>x. confined U c (fst x)) (dispatch_channel P A ch env m ?c)" for m
    using dispatch_channel_confined [OF w, of P A ch env m] assms by (simp add: confined_retain)
  have same: "confined U c (fst (send_nth n A k e ?c))" "confined U c (fst (forward_frame A k env b ?c))" for n e b k
    using same_shells_confined [OF w] transfer_same_shells(1) [of ?c] by (simp_all add: confined_retain)
  show ?thesis by (simp add: dispatch_def Let_def same control channel split: option.split)
qed

text \<open>A listing shows the shells of the user and no others.\<close>

lemma on_list_shells_own:
  assumes "conn_permits c (lit ''list'')" and "an_out A 0"
  shows "\<exists>infos. cn_out (fst (on_list_shells A r c)) =
      cn_out c @ [(0, respond r (MShellList (map (shell_info_pb (ap_server_id (cn_state c))) infos)))]
    \<and> set infos = info_of ` {e \<in> snd ` set (sm_shells (manager c)). se_owner e = cn_user_id c}"
  using assms
  by (intro exI [of _ "filter (\<lambda>i. si_owner i = cn_user_id c) (list_shells (manager c))"])
    (auto simp: on_list_shells_def send_nth_def list_shells_def info_of_def Let_def)

section \<open>No panic, and the session core stays sound\<close>

text \<open>What the waiting \<open>terminate\<close> comes back to: a sound state, and an exit unless it timed out.\<close>

definition await_sound :: "'vt answers \<Rightarrow> bool" where
  "await_sound A \<longleftrightarrow> (\<forall>m. sm_inv m \<longrightarrow> sm_inv (fst (an_await A m)))"

lemma on_request_history_total:
  assumes "sm_inv (manager c)"
  shows "on_request_history A ch r bl ml mb c \<noteq> None"
proof -
  have "min ml 10000 < (2 :: nat) ^ 32" by (simp add: min_less_iff_disj)
  note h = history_total [OF assms this]
  have "(case x of (c1, False) \<Rightarrow> Some (c1, False) | (c1, True) \<Rightarrow> Some (g c1)) \<noteq> None"
    for x :: "('a, 'b, 'c, 'd, 'e, 'f) conn \<times> bool" and g
    by (cases x) (auto split: bool.split)
  then show ?thesis by (simp add: on_request_history_def Let_def h split: option.split sum.split)
qed

lemma assoc_upd_absent: "k \<notin> set (keys xs) \<Longrightarrow> assoc_upd k f xs = xs"
  by (induction xs) (auto simp: assoc_upd_def keys_def)

lemma terminate_end_keeps:
  assumes "sm_inv m" and "terminate_end sid held t m = Some (m', r)"
  shows "sm_inv m'"
proof (cases "map_of (sm_shells m) sid")
  case None
  then have "set_runtime sid f m = m" for f
    by (simp add: set_runtime_def assoc_upd_absent map_of_None_keys)
  then show ?thesis using assms None by (auto simp: terminate_end_def Let_def split: if_splits option.splits)
next
  case (Some e)
  then show ?thesis
    using assms terminate_end_inv [OF assms(1) Some, of t]
    by (auto simp: terminate_end_def Let_def split: if_splits option.splits)
qed

lemma terminate_blocking_inv:
  assumes "sm_inv m" and "await_sound A"
  shows "sm_inv (fst (terminate_blocking A sid m))"
proof -
  obtain m1 pr where b: "terminate_begin sid (an_kill A) m = (m1, pr)" by fastforce
  obtain m2 held t where a: "an_await A m1 = (m2, held, t)" using prod_cases3 by blast
  have "sm_inv m1" using terminate_begin_inv [OF assms(1), of sid "an_kill A"] b by simp
  then have "sm_inv m2" using assms(2) a unfolding await_sound_def by (metis fst_conv)
  then show ?thesis
    using a b \<open>sm_inv m1\<close> terminate_end_keeps [OF \<open>sm_inv m2\<close>, of sid held t]
    by (auto simp: terminate_blocking_def terminate_def split: option.split terminate_progress.split)
qed

lemma on_open_shell_sound:
  assumes "sm_inv (manager c)" and "an_shell_id A \<notin> set (keys (sm_shells (manager c)))"
  shows "sm_inv (manager (fst (on_open_shell P A r om c)))"
proof -
  have "sm_inv (fst (open_blocking P A req (manager c)))" for req
    using open_shell_inv [OF assms, of "pk_avt P" "pk_sha256 P" "an_world A" req "an_token A" "an_shell_ms A"] assms(1)
    by (auto simp: open_blocking_def)
  from this [of "open_request (cn_user_id c) om"] show ?thesis
    using assms(1) by (auto simp: on_open_shell_def split: prod.splits sum.split)
qed

lemma on_terminate_shell_sound:
  assumes "sm_inv (manager c)" and "await_sound A"
  shows "sm_inv (manager (fst (on_terminate_shell A r w c)))"
proof -
  have t: "sm_inv m" if "terminate_blocking A sid (manager c) = (m, x)" for sid m x
    using terminate_blocking_inv [OF assms, of sid] that by simp
  show ?thesis
    using assms(1) by (auto simp: on_terminate_shell_def split: prod.split sum.split intro: t)
qed

lemma dispatch_control_sound:
  assumes "sm_inv (manager c)" and "an_shell_id A \<notin> set (keys (sm_shells (manager c)))" and "await_sound A"
  shows "sm_inv (manager (fst (dispatch_control P A env m c)))"
proof -
  have inert: "sm_inv (manager c')" if "inert c c'" for c'
    using that assms(1) by (simp add: inert_def)
  show ?thesis
    using assms by (cases m) (simp_all add: dispatch_control_def unexpected_def on_open_shell_sound
        on_terminate_shell_sound inert on_client_hello_inert on_authenticate_inert on_list_inert)
qed

lemma attach_on_sound:
  assumes "sm_inv (manager c)" and "an_thread A"
  shows "attach_on P A ch env am c \<noteq> None
    \<and> pred_option (\<lambda>x. sm_inv (manager (fst x))) (attach_on P A ch env am c)"
proof -
  have a: "sm_inv m" if "attach (pk_avt P) (pk_sha256 P) u sid token cols rows fresh now res (manager c) = (m, x)"
    for u sid token cols rows fresh now res m x
    using attach_inv [OF assms(1), of "pk_avt P" "pk_sha256 P" u sid token cols rows fresh now res] that by simp
  show ?thesis
    using assms by (auto simp: attach_on_def Let_def start_forwarder_def intro: a split: sum.split option.split prod.split)
qed

lemma dispatch_channel_sound:
  assumes inv: "sm_inv (manager c)" and "an_thread A"
  shows "dispatch_channel P A ch env m c \<noteq> None
    \<and> pred_option (\<lambda>x. sm_inv (manager (fst x))) (dispatch_channel P A ch env m c)"
proof -
  have same: "sm_inv (manager c')" if "same_shells c c'" for c' using that inv by (simp add: same_shells_def)
  have history: "pred_option (\<lambda>x. sm_inv (manager (fst x))) (on_request_history A ch r bl ml mb c)" for r bl ml mb
  proof (cases "on_request_history A ch r bl ml mb c")
    case (Some x)
    then show ?thesis using history_inert [of A ch r bl ml mb c "fst x" "snd x"] inv by (simp add: inert_def)
  qed simp
  show ?thesis
    using assms attach_on_sound [OF assms, of P ch env]
    by (cases m) (simp_all add: dispatch_channel_def unexpected_def same transfer_same_shells history
        on_request_history_total [OF inv, simplified] input_manager write_input_inv resize_inv remove_attachment_def
        detach_binding_def detach_inv split: option.split)
qed

lemma dispatch_sound:
  assumes "sm_inv (manager c)" and "an_shell_id A \<notin> set (keys (sm_shells (manager c)))" and "await_sound A"
    and "an_thread A"
  shows "\<exists>c' stay. dispatch P A ch env c = Some (c', stay) \<and> sm_inv (manager c')"
proof -
  let ?c = "retain_uploads c"
  have frame: "sm_inv (manager (fst (forward_frame A k env b ?c)))" for k b
    using transfer_same_shells(1) [of ?c A k env b] assms(1) by (simp add: same_shells_def)
  have "dispatch P A ch env c \<noteq> None \<and> pred_option (\<lambda>x. sm_inv (manager (fst x))) (dispatch P A ch env c)"
    using assms dispatch_control_sound [of ?c A P env] dispatch_channel_sound [of ?c A P ch env] frame
    by (auto simp: dispatch_def Let_def split: option.split)
  then show ?thesis by (cases "dispatch P A ch env c") auto
qed

section \<open>The scope of a grant\<close>

text \<open>The operation a message needs, as grants name them.\<close>

fun op_of :: "msg \<Rightarrow> rstring option" where
  "op_of MListShells = Some (lit ''list'')"
| "op_of (MOpenShell _) = Some (lit ''open'')"
| "op_of MTerminateShell = Some (lit ''terminate'')"
| "op_of (MAttachShell _) = Some (lit ''attach'')"
| "op_of (MBeginUpload _) = Some (lit ''upload'')"
| "op_of (MOpenTcpForward _ _) = Some (lit ''tcp-forward'')"
| "op_of _ = None"

text \<open>Nothing happens to shells, services and bindings, save that closed uploads are dropped and a
  forward whose channel is misused is aborted.\<close>

definition refused ::
  "('vt, 'pub, 'sk, 'pk, 'ip, 'h) conn \<Rightarrow> ('vt, 'pub, 'sk, 'pk, 'ip, 'h) conn \<Rightarrow> bool" where
  "refused c c' \<longleftrightarrow>
     manager c' = manager c \<and> ap_uploads (cn_state c') = ap_uploads (cn_state c)
     \<and> ap_forwards (cn_state c') = ap_forwards (cn_state c) \<and> cn_attachments c' = cn_attachments c
     \<and> cn_uploads c' = filter (\<lambda>(_, b). \<not> ub_closed b) (cn_uploads c)
     \<and> keys (cn_forwards c') = keys (cn_forwards c)"

lemma inert_refused: "inert (retain_uploads c) c' \<Longrightarrow> refused c c'"
  by (simp add: inert_def same_bindings_def refused_def retain_uploads_def)

lemma permits_retain [simp]: "conn_permits (retain_uploads c) = conn_permits c"
  by (simp add: conn_permits_def fun_eq_iff)

lemma frame_refused: "refused c (fst (forward_frame A ch env b (retain_uploads c)))"
  by (auto simp: forward_frame_def send_error_def refused_def send_nth_def retain_uploads_def split: prod.split bool.split)

lemma out_of_scope:
  assumes "ev_message env = Some m" and "op_of m = Some op" and "\<not> conn_permits c op"
  shows "pred_option (\<lambda>x. refused c (fst x)) (dispatch P A ch env c)"
proof -
  let ?c = "retain_uploads c"
  have "inert ?c (fst (dispatch_control P A env m ?c))"
    using assms by (cases m) (auto simp: dispatch_control_def unexpected_def on_list_shells_def on_open_shell_def
        on_terminate_shell_def)
  moreover have "pred_option (\<lambda>x. inert ?c (fst x)) (dispatch_channel P A ch env m ?c)"
    using assms by (cases m) (auto simp: dispatch_channel_def unexpected_def attach_on_def Let_def
        begin_upload_on_def record_upload_rejected_def open_forward_def open_forward_error_def split: option.split)
  ultimately show ?thesis
    using assms(1) inert_refused [of c] frame_refused [of c A]
    by (cases "dispatch_channel P A ch env m ?c") (simp_all add: dispatch_def Let_def split: option.split)
qed

text \<open>The scope changes only with a grant that verifies, and then it is that grant's scope.\<close>

definition granted_scope ::
  "('vt, 'pub, 'kd, 'sig, 'sk, 'pk, 'h) packages \<Rightarrow> 'vt answers \<Rightarrow> bytes
     \<Rightarrow> ('vt, 'pub, 'sk, 'pk, 'ip, 'h) conn \<Rightarrow> rstring list option option" where
  "granted_scope P A bs c =
     (case grant_from_wire bs of
        Inl _ \<Rightarrow> None
      | Inr g \<Rightarrow>
          (case grant_verify (pk_grants P) (au_grant_verifier (ap_auth (cn_state c))) g
                  (au_audience (ap_auth (cn_state c))) (an_verify_ms A) of
             Inl _ \<Rightarrow> None
           | Inr claims \<Rightarrow> Some (if ops claims = [] then None else Some (ops claims))))"

lemma handle_authenticate_scope:
  assumes "cn_op_scope (fst (handle_authenticate P A r auth c)) \<noteq> cn_op_scope c"
  shows "\<exists>bs. auth = Some (ConnectionGrantBytes bs)
    \<and> granted_scope P A bs c = Some (cn_op_scope (fst (handle_authenticate P A r auth c)))"
  using assms
  by (auto simp: handle_authenticate_def auth_with_grant_def auth_challenge_def auth_response_def auth_password_def
      granted_scope_def Let_def split: prod.splits option.splits auth_request.splits sum.splits if_splits)

lemma helpers_scope [simp]:
  "cn_op_scope (drop_upload k c) = cn_op_scope c" "cn_op_scope (record_upload_rejected A sid rr c) = cn_op_scope c"
  "cn_op_scope (remove_attachment A ch c) = cn_op_scope c"
  by (auto simp: drop_upload_def record_upload_rejected_def remove_attachment_def detach_binding_def split: option.split)

lemma control_scope:
  assumes "\<not> (\<exists>auth. m = MAuthenticate auth)"
  shows "cn_op_scope (fst (dispatch_control P A env m c)) = cn_op_scope c"
proof -
  have "cn_op_scope (fst (on_client_hello A r h c)) = cn_op_scope c" for r h
    by (simp add: on_client_hello_def Let_def split: sum.split)
  moreover have "cn_op_scope (fst (on_open_shell P A r om c)) = cn_op_scope c" for r om
    by (auto simp: on_open_shell_def split: prod.split sum.split)
  moreover have "cn_op_scope (fst (on_terminate_shell A r w c)) = cn_op_scope c" for r w
    by (auto simp: on_terminate_shell_def split: prod.split sum.split)
  ultimately show ?thesis
    using assms by (cases m) (auto simp: dispatch_control_def unexpected_def on_list_servers_def on_list_shells_def Let_def)
qed

lemma transfer_scope [simp]:
  "cn_op_scope (fst (forward_frame A ch env b c)) = cn_op_scope c"
  "cn_op_scope (fst (open_forward P A ch env host port c)) = cn_op_scope c"
  "cn_op_scope (fst (begin_upload_on P A ch env bu c)) = cn_op_scope c"
  "cn_op_scope (fst (on_upload_chunk A ch r chunk c)) = cn_op_scope c"
  "cn_op_scope (fst (on_finish_upload A ch r i c)) = cn_op_scope c"
  "cn_op_scope (fst (on_abort_upload A ch r i reason c)) = cn_op_scope c"
  "cn_op_scope (fst (on_terminal_input A ch r data c)) = cn_op_scope c"
  "cn_op_scope (fst (on_terminal_resize P A ch cols rows c)) = cn_op_scope c"
  by (simp_all add: forward_frame_def send_error_def on_upload_chunk_def on_finish_upload_def on_abort_upload_def
    last_command_def open_forward_def begin_upload_on_def begin_permitted_def upload_started_def Let_def
    on_terminal_input_def on_terminal_resize_def split: prod.split bool.split option.split sum.split)

lemma attach_scope: "pred_option (\<lambda>x. cn_op_scope (fst x) = cn_op_scope c) (attach_on P A ch env am c)"
  by (simp add: attach_on_def start_forwarder_def Let_def split: sum.split option.split prod.split)

lemma history_scope: "pred_option (\<lambda>x. cn_op_scope (fst x) = cn_op_scope c) (on_request_history A ch r bl ml mb c)"
  by (simp add: on_request_history_def send_nth_def Let_def split: option.split sum.split)

lemma channel_scope: "pred_option (\<lambda>x. cn_op_scope (fst x) = cn_op_scope c) (dispatch_channel P A ch env m c)"
  by (cases m) (simp_all add: dispatch_channel_def unexpected_def attach_scope history_scope)

lemma granted_scope_retain [simp]: "granted_scope P A bs (retain_uploads c) = granted_scope P A bs c"
  by (simp add: granted_scope_def split: sum.split)

lemma dispatch_scope:
  assumes "ev_message env = Some m"
  shows "pred_option (\<lambda>x. cn_op_scope (fst x) = cn_op_scope c
      \<or> (\<exists>bs. ch = 0 \<and> m = MAuthenticate (Some (ConnectionGrantBytes bs))
            \<and> granted_scope P A bs c = Some (cn_op_scope (fst x)))) (dispatch P A ch env c)"
proof (cases "\<exists>auth. m = MAuthenticate auth")
  case True
  then obtain auth where m: "m = MAuthenticate auth" ..
  have "cn_op_scope (fst (handle_authenticate P A r auth (retain_uploads c))) = cn_op_scope c
    \<or> (\<exists>bs. auth = Some (ConnectionGrantBytes bs) \<and> granted_scope P A bs c
          = Some (cn_op_scope (fst (handle_authenticate P A r auth (retain_uploads c)))))" for r
    using handle_authenticate_scope [of P A r auth "retain_uploads c"] by auto
  then show ?thesis
    using assms m by (auto simp: dispatch_def dispatch_control_def dispatch_channel_def on_authenticate_def
        unexpected_def Let_def split: option.split)
next
  case False
  have "pred_option (\<lambda>x. cn_op_scope (fst x) = cn_op_scope c) (dispatch_channel P A ch env m (retain_uploads c))"
    using channel_scope [of "retain_uploads c"] by simp
  then show ?thesis
    using assms False control_scope [of m P A env "retain_uploads c"]
    by (cases "dispatch_channel P A ch env m (retain_uploads c)")
      (auto simp: dispatch_def Let_def split: option.split)
qed

section \<open>Properties\<close>

lemma demo_user_fields:
  "manager demo_user = sample_manager" "cn_attachments demo_user = []" "cn_forwards demo_user = []"
  "cn_uploads demo_user = []"
proof -
  obtain stay where "dispatch demo_packages demo_answers 0 demo_login demo_greeted = Some (demo_user, stay)"
    using demo_login_dispatch(1) by blast
  then have "inert (retain_uploads demo_greeted) demo_user"
    using pre_auth_dispatch [of demo_greeted, where P = demo_packages and A = demo_answers and env = demo_login and ch = 0]
      demo_greeted_dispatch by simp
  then show "manager demo_user = sample_manager" "cn_attachments demo_user = []" "cn_forwards demo_user = []"
    "cn_uploads demo_user = []"
    using demo_greeted_dispatch by (simp_all add: inert_def same_bindings_def retain_uploads_def demo_app_def)
qed

lemma demo_fresh: "an_shell_id demo_answers \<notin> set (keys (sm_shells (manager demo_user)))"
  by (simp add: demo_user_fields demo_answers_def sample_manager_def manager_new_def manager_with_policy_def
      numeral_eq_Suc)

lemma demo_awaits: "await_sound demo_answers" "await_quiet U demo_answers" "an_thread demo_answers"
  by (simp_all add: await_sound_def await_quiet_def demo_answers_def)

text \<open>
  (C8) The dispatcher composed with the session core: from a state in which the core's invariant
  holds, every message on every channel is handled without a panic and the invariant holds
  again, whatever the clocks, PTYs, stores, workers and the outgoing queue answer, given that
  fresh identifiers are fresh, threads can be started, and a waiting \<open>terminate\<close> comes back to a
  sound state.
\<close>

theorem dispatch_total:
  assumes "sm_inv (manager c)" and "an_shell_id A \<notin> set (keys (sm_shells (manager c)))" and "await_sound A"
    and "an_thread A"
  shows "\<exists>c' stay. dispatch P A ch env c = Some (c', stay) \<and> sm_inv (manager c')"
  by (rule dispatch_sound [OF assms])

theorem dispatch_total_witness:
  "\<exists>c' stay. dispatch demo_packages demo_answers 3 (respond 1 (MRequestHistory 0 5 100)) demo_user = Some (c', stay)
     \<and> sm_inv (manager c')"
  by (rule dispatch_total) (simp_all add: demo_user_fields sample_inv demo_fresh [simplified demo_user_fields] demo_awaits)

text \<open>
  (C3) Isolation between users: a connection that has authenticated only as users in \<open>U\<close>, with
  attachments to their shells only, cannot by any message change, remove or attach to a shell
  owned by anybody else, nor create one for anybody else; and its attachments stay within \<open>U\<close>.
  An unauthenticated connection touches no shell at all.
\<close>

theorem dispatch_isolated:
  assumes "conn_reach P c" and "bound_within U c" and "cn_authenticated c \<Longrightarrow> cn_user_id c \<in> U"
    and "sm_inv (manager c)" and "an_shell_id A \<notin> set (keys (sm_shells (manager c)))" and "await_quiet U A"
    and "dispatch P A ch env c = Some (c', stay)"
  shows "foreign U (manager c') = foreign U (manager c) \<and> bound_within U c'"
proof (cases "cn_authenticated c")
  case True
  then show ?thesis
    using dispatch_confined [OF assms(2,3,4,5,6), of P ch env] assms(7) by (simp add: confined_def)
next
  case False
  then have "inert (retain_uploads c) c'"
    using pre_auth_dispatch [OF False, where P = P and A = A and env = env and ch = ch] assms(7)
      unauthenticated_empty [OF conn_reach_inv [OF assms(1)] False] by simp
  then show ?thesis
    using inert_confined [of U "retain_uploads c" c'] assms(2) by (simp add: confined_retain confined_def)
qed

text \<open>A development user opens a shell beside the sample shell of another user.\<close>

definition demo_open :: envelope where
  "demo_open = respond 5 (MOpenShell \<lparr>om_unix_account = [], om_command = [], om_initial_cols = 0, om_initial_rows = 0,
     om_idempotency_key = replicate 16 0\<rparr>)"

lemma demo_user_reach: "conn_reach demo_packages demo_user"
  using demo_login_dispatch(1) demo_greeted_reach by (blast intro: conn_reach.stepped conn_step.dispatched)

theorem dispatch_isolated_witness:
  "\<exists>c' stay. dispatch demo_packages demo_answers 0 demo_open demo_user = Some (c', stay)
     \<and> foreign {lit ''dev''} (manager c') [1] = Some sample_entry"
proof -
  obtain c' stay where d: "dispatch demo_packages demo_answers 0 demo_open demo_user = Some (c', stay)"
    using dispatch_sound [OF _ demo_fresh demo_awaits(1,3), of demo_packages 0 demo_open] sample_inv demo_user_fields
    by metis
  have "foreign {lit ''dev''} (manager c') = foreign {lit ''dev''} (manager demo_user)"
    using dispatch_isolated [OF demo_user_reach _ _ _ demo_fresh demo_awaits(2) d, of "{lit ''dev''}"]
      sample_inv demo_user_fields demo_login_dispatch(3) by (simp add: bound_within_def)
  moreover have "foreign {lit ''dev''} (manager demo_user) [1] = Some sample_entry"
    using sample_lookup sample_fields(1) demo_user_fields(1) by (simp add: foreign_def lit_def)
  ultimately show ?thesis using d by simp
qed



end
