(* ===== verification/Overlay.thy ===== *)
theory Overlay
  imports Messages Framing Ids
begin

text \<open>
  What the two ends of the administration overlay share: the \<open>AgentEnvelope\<close> of
  \<open>protocol/messages.proto\<close>, the bounds of \<open>crates/protocol/src/lib.rs\<close>, and the framed reads
  and writes of \<open>crates/agent/src/lib.rs\<close> and \<open>crates/gateway/src/lib.rs\<close>. A receiving stream is
  the list of the bytes that will arrive and how it ends; protobuf is a pair of functions.
\<close>

section \<open>Bounds\<close>

definition AGENT_CONTROL_FRAME_BYTES_MAX :: u32 where "AGENT_CONTROL_FRAME_BYTES_MAX = 16 * 1024"
definition AGENT_CONTROL_FRAME_BYTES_MIN :: u32 where "AGENT_CONTROL_FRAME_BYTES_MIN = 1024"
definition AGENT_BUILD_BYTES_MAX :: nat where "AGENT_BUILD_BYTES_MAX = 128"
definition AGENT_USER_ID_BYTES_MAX :: nat where "AGENT_USER_ID_BYTES_MAX = 128"
definition AGENT_UNIX_ACCOUNT_BYTES_MAX :: nat where "AGENT_UNIX_ACCOUNT_BYTES_MAX = 128"
definition AGENT_COMMAND_BYTES_MAX :: nat where "AGENT_COMMAND_BYTES_MAX = 4096"
definition AGENT_GRANT_BYTES_MAX :: nat where "AGENT_GRANT_BYTES_MAX = 8192"
definition AGENT_AUDIENCE_BYTES_MAX :: nat where "AGENT_AUDIENCE_BYTES_MAX = 256"
definition AGENT_ATTACHMENT_FRAME_BYTES_MAX :: u32 where "AGENT_ATTACHMENT_FRAME_BYTES_MAX = FRAME_BYTES_DEFAULT"
definition AGENT_TERMINAL_INPUT_BYTES_MAX :: nat where "AGENT_TERMINAL_INPUT_BYTES_MAX = 64 * 1024"
definition AGENT_TERMINAL_OUTPUT_BYTES_MAX :: nat where "AGENT_TERMINAL_OUTPUT_BYTES_MAX = 8 * 1024"
definition AGENT_ATTACHMENT_STREAMS_MAX :: nat where "AGENT_ATTACHMENT_STREAMS_MAX = 64"
definition AGENT_HISTORY_LINES_MAX :: nat where "AGENT_HISTORY_LINES_MAX = 10000"

section \<open>Messages\<close>

record agent_register =
  rg_protocol_major :: u32
  rg_protocol_minor :: u32
  rg_server_id :: bytes
  rg_agent_build :: rstring
  rg_max_frame_bytes :: u32

record agent_registration =
  rn_accepted :: bool
  rn_server_id :: bytes
  rn_max_frame_bytes :: u32
  rn_keepalive_interval_ms :: nat
  rn_rejection_reason :: rstring

record agent_open_shell =
  ao_user_id :: rstring
  ao_unix_account :: rstring
  ao_command :: rstring
  ao_initial_cols :: nat
  ao_initial_rows :: nat
  ao_idempotency_key :: bytes
  ao_connection_grant :: bytes

record agent_attach_shell =
  aa_user_id :: rstring
  aa_connection_grant :: bytes
  aa_cols :: nat
  aa_rows :: nat

record agent_shell_attached =
  ad_screen_snapshot :: bytes
  ad_screen_revision :: nat
  ad_oldest_history_line_id :: nat
  ad_newest_history_line_id :: nat

datatype agent_msg =
    AgentRegister agent_register
  | AgentRegistration agent_registration
  | AgentPing u64
  | AgentPong u64
  | AgentError int rstring bool
  | AgentOpenShell agent_open_shell
  | AgentShellOpened bytes bool
  | AgentAttachShell agent_attach_shell
  | AgentShellAttached agent_shell_attached
  | AgentInput bytes
  | AgentOutput bytes
  | AgentResize nat nat
  | AgentDetach
  | AgentRequestHistory nat nat nat
  | AgentHistoryChunk nat "rstring list" bool
  | AgentHistoryEnd nat
  | AgentExited int bool rstring

record agent_envelope =
  ae_request_id :: u64
  ae_server_id :: bytes
  ae_shell_id :: bytes
  ae_message :: "agent_msg option"

text \<open>\<open>code as i32\<close>: the permanent wire values.\<close>

fun error_code_i32 :: "error_code \<Rightarrow> int" where
  "error_code_i32 ErrUnspecified = 0"
| "error_code_i32 ErrVersion = 1"
| "error_code_i32 ErrUnauthenticated = 2"
| "error_code_i32 ErrForbidden = 3"
| "error_code_i32 ErrNotFound = 4"
| "error_code_i32 ErrFrameTooLarge = 5"
| "error_code_i32 ErrUnknownMessage = 6"
| "error_code_i32 ErrInputOverflow = 7"
| "error_code_i32 ErrTooSlow = 8"
| "error_code_i32 ErrNotReady = 9"
| "error_code_i32 ErrTokenExpired = 10"
| "error_code_i32 ErrTokenReplayed = 11"
| "error_code_i32 ErrLimitExceeded = 12"
| "error_code_i32 ErrServerUnavailable = 13"
| "error_code_i32 ErrInternal = 14"
| "error_code_i32 ErrInvalidArgument = 15"
| "error_code_i32 ErrChecksumMismatch = 16"

text \<open>\<open>ServerId::from_wire(..).ok()\<close> and the same of a shell.\<close>

definition wire_id :: "bytes \<Rightarrow> bytes option" where
  "wire_id bs = (case id_from_wire bs of Inl _ \<Rightarrow> None | Inr i \<Rightarrow> Some i)"

section \<open>Framed streams\<close>

record agent_codec =
  cd_encode :: "agent_envelope \<Rightarrow> bytes"
  cd_decode :: "bytes \<Rightarrow> agent_envelope option"

datatype stream_end = StreamFinished | StreamBroken rstring

record recv_stream =
  rs_bytes :: bytes
  rs_end :: stream_end

datatype link_io_error = IoRead stream_end | IoWrite rstring | IoFrame frame_error

text \<open>\<open>read_exact\<close> takes what there is even when it is not enough.\<close>

definition read_exact :: "nat \<Rightarrow> recv_stream \<Rightarrow> recv_stream \<times> (link_io_error + bytes)" where
  "read_exact n r =
     (if n \<le> length (rs_bytes r) then (r\<lparr>rs_bytes := drop n (rs_bytes r)\<rparr>, Ok (take n (rs_bytes r)))
      else (r\<lparr>rs_bytes := []\<rparr>, Err (IoRead (rs_end r))))"

definition read_envelope ::
  "agent_codec \<Rightarrow> u32 \<Rightarrow> recv_stream \<Rightarrow> recv_stream \<times> (link_io_error + agent_envelope)" where
  "read_envelope C maximum r =
     (case read_exact LENGTH_PREFIX_BYTES r of
        (r1, Inl e) \<Rightarrow> (r1, Err e)
      | (r1, Inr header) \<Rightarrow>
          (case checked_payload_len header maximum of
             Inl e \<Rightarrow> (r1, Err (IoFrame e))
           | Inr n \<Rightarrow>
               (case read_exact n r1 of
                  (r2, Inl e) \<Rightarrow> (r2, Err e)
                | (r2, Inr payload) \<Rightarrow>
                    (case decode_agent_payload (cd_decode C) payload of
                       Inl e \<Rightarrow> (r2, Err (IoFrame e))
                     | Inr env \<Rightarrow> (r2, Ok env)))))"

text \<open>The frame put on the stream; \<open>write\<close> is what \<open>write_all\<close> answers, an error text or success.\<close>

definition write_envelope ::
  "agent_codec \<Rightarrow> (bytes \<Rightarrow> rstring option) \<Rightarrow> u32 \<Rightarrow> agent_envelope \<Rightarrow> link_io_error + bytes" where
  "write_envelope C write maximum env =
     (case encode_agent_frame (cd_encode C) env maximum of
        Inl e \<Rightarrow> Err (IoFrame e)
      | Inr frame \<Rightarrow> (case write frame of Some e \<Rightarrow> Err (IoWrite e) | None \<Rightarrow> Ok frame))"

section \<open>Frames on a stream\<close>

text \<open>What the package promises of a message: decoding inverts encoding.\<close>

definition carries :: "agent_codec \<Rightarrow> agent_envelope \<Rightarrow> bool" where
  "carries C env \<longleftrightarrow> cd_decode C (cd_encode C env) = Some env"

lemma write_envelope_Ok:
  "write_envelope C write maximum env = Ok frame \<longleftrightarrow>
     encode_agent_frame (cd_encode C) env maximum = Ok frame \<and> write frame = None"
  by (auto simp: write_envelope_def split: sum.splits option.splits)

text \<open>A written frame is read back whole, by a reader with at least the writer's maximum.\<close>

lemma read_written:
  assumes "write_envelope C write w env = Ok frame" and "w \<le> r" and "carries C env"
  shows "read_envelope C r \<lparr>rs_bytes = frame @ rest, rs_end = e\<rparr> = (\<lparr>rs_bytes = rest, rs_end = e\<rparr>, Ok env)"
proof -
  let ?p = "cd_encode C env"
  have f: "frame = to_be_bytes (of_nat (length ?p)) @ ?p" and l: "length ?p \<le> unat w"
    using assms(1) by (auto simp: write_envelope_Ok encode_agent_frame_def encode_delimited_def Let_def split: if_splits)
  have n: "unat (of_nat (length ?p) :: u32) = length ?p"
    using l unsigned_less [of w, where 'a = nat] by (simp add: unat_of_nat)
  have "(of_nat (length ?p) :: u32) \<le> w" using l n by (simp add: word_le_nat_alt)
  then have h: "checked_payload_len (to_be_bytes (of_nat (length ?p))) r = Ok (length ?p)"
    using assms(2) n by (auto simp: checked_payload_len_def Let_def not_less)
  show ?thesis
    using assms(3) h
    by (simp add: read_envelope_def read_exact_def f LENGTH_PREFIX_BYTES_def decode_agent_payload_def carries_def)
qed

section \<open>A small codec\<close>

text \<open>The envelopes of a table, encoded as their position in it.\<close>

definition table_codec :: "agent_envelope list \<Rightarrow> agent_codec" where
  "table_codec es =
     \<lparr>cd_encode = (\<lambda>e. [of_nat (length (takeWhile (\<lambda>x. x \<noteq> e) es))]),
      cd_decode = (\<lambda>bs. case bs of [b] \<Rightarrow> if unat b < length es then Some (es ! unat b) else None | _ \<Rightarrow> None)\<rparr>"

lemma takeWhile_position: "e \<in> set es \<Longrightarrow> length (takeWhile (\<lambda>x. x \<noteq> e) es) < length es \<and> es ! length (takeWhile (\<lambda>x. x \<noteq> e) es) = e"
  by (induction es) auto

lemma carries_table: "e \<in> set es \<Longrightarrow> length es \<le> 256 \<Longrightarrow> carries (table_codec es) e"
  using takeWhile_position [of e es] by (simp add: carries_def table_codec_def unat_of_nat)

lemma table_frame:
  "256 \<le> maximum \<Longrightarrow> write_envelope (table_codec es) (\<lambda>f. None) maximum e
     = Ok (to_be_bytes 1 @ [of_nat (length (takeWhile (\<lambda>x. x \<noteq> e) es))])"
proof -
  assume "256 \<le> maximum"
  then have "Suc 0 \<le> unat maximum" by (simp add: word_le_nat_alt)
  then show ?thesis
    by (simp add: write_envelope_def encode_agent_frame_def encode_delimited_def table_codec_def Let_def not_less)
qed


lemma table_read:
  assumes "unat b < length es" and "maximum \<noteq> 0"
  shows "read_envelope (table_codec es) maximum \<lparr>rs_bytes = to_be_bytes 1 @ b # rest, rs_end = e\<rparr>
    = (\<lparr>rs_bytes = rest, rs_end = e\<rparr>, Ok (es ! unat b))"
proof -
  have "checked_payload_len (to_be_bytes 1) maximum = Ok 1"
    using assms(2) by (simp add: checked_payload_len_def Let_def not_less)
  then show ?thesis
    using assms(1)
    by (simp add: read_envelope_def read_exact_def LENGTH_PREFIX_BYTES_def decode_agent_payload_def table_codec_def)
qed

end
