(* ===== verification/Gateway.thy ===== *)
theory Gateway
  imports Overlay
begin

text \<open>
  The gateway's end of the overlay, \<open>crates/gateway/src/lib.rs\<close>: the registry of agent
  certificates with its leases, the registration of an agent over mutual TLS, and the operations
  on a registered agent and on its attachment streams. What QUIC and TLS answer are arguments.
  The locks of the registry are never poisoned here: no critical section panics.
\<close>

section \<open>The certificate registry\<close>

datatype registry_error =
    ZeroLimit
  | IdentityLimit nat
  | ActiveLimit nat
  | FingerprintRebind
  | AlreadyActive bytes

record registry =
  cr_identities :: "(bytes \<times> bytes) list"
  cr_active :: "bytes list"
  cr_max_identities :: nat
  cr_max_active_agents :: nat

definition from_leaf_der :: "(bytes \<Rightarrow> bytes) \<Rightarrow> bytes \<Rightarrow> bytes" where
  "from_leaf_der sha256 leaf_der = sha256 leaf_der"

definition registry_new :: "nat \<Rightarrow> nat \<Rightarrow> registry_error + registry" where
  "registry_new max_identities max_active_agents =
     (if max_identities = 0 \<or> max_active_agents = 0 then Err ZeroLimit
      else Ok \<lparr>cr_identities = [], cr_active = [], cr_max_identities = max_identities,
               cr_max_active_agents = max_active_agents\<rparr>)"

definition authorize_leaf ::
  "(bytes \<Rightarrow> bytes) \<Rightarrow> bytes \<Rightarrow> bytes \<Rightarrow> registry \<Rightarrow> registry \<times> (registry_error + bytes)" where
  "authorize_leaf sha256 server_id leaf_der g =
     (let fingerprint = from_leaf_der sha256 leaf_der in
      case map_of (cr_identities g) fingerprint of
        Some existing \<Rightarrow> (g, if existing = server_id then Ok fingerprint else Err FingerprintRebind)
      | None \<Rightarrow>
          if length (cr_identities g) \<ge> cr_max_identities g then (g, Err (IdentityLimit (cr_max_identities g)))
          else (g\<lparr>cr_identities := assoc_put fingerprint server_id (cr_identities g)\<rparr>, Ok fingerprint))"

definition revoke :: "bytes \<Rightarrow> registry \<Rightarrow> registry \<times> bool" where
  "revoke fingerprint g =
     (g\<lparr>cr_identities := assoc_del fingerprint (cr_identities g)\<rparr>, map_of (cr_identities g) fingerprint \<noteq> None)"

definition registry_resolve :: "bytes \<Rightarrow> registry \<Rightarrow> bytes option" where
  "registry_resolve fingerprint g = map_of (cr_identities g) fingerprint"

definition claim :: "bytes \<Rightarrow> registry \<Rightarrow> registry \<times> (registry_error + unit)" where
  "claim server_id g =
     (if List.member (cr_active g) server_id then (g, Err (AlreadyActive server_id))
      else if length (cr_active g) \<ge> cr_max_active_agents g then (g, Err (ActiveLimit (cr_max_active_agents g)))
      else (g\<lparr>cr_active := cr_active g @ [server_id]\<rparr>, Ok ()))"

definition lease_drop :: "bytes \<Rightarrow> registry \<Rightarrow> registry" where
  "lease_drop server_id g = g\<lparr>cr_active := filter (\<lambda>s. s \<noteq> server_id) (cr_active g)\<rparr>"

definition identity_count :: "registry \<Rightarrow> nat" where
  "identity_count g = length (cr_identities g)"

definition active_count :: "registry \<Rightarrow> nat" where
  "active_count g = length (cr_active g)"

section \<open>Registration\<close>

definition DEFAULT_KEEPALIVE_INTERVAL_MS :: nat where "DEFAULT_KEEPALIVE_INTERVAL_MS = 10000"

datatype gateway_error =
    GwEndpointClosed
  | GwRegistrationTimeout
  | GwConnection rstring
  | GwIo link_io_error
  | GwMissingPeerIdentity
  | GwInvalidPeerIdentity
  | GwRejected rstring
  | GwUnexpectedControlMessage
  | GwUnexpectedAttachmentMessage
  | GwServerIdentityMismatch
  | GwAttachmentIdentityMismatch
  | GwInvalidShellRequest
  | GwInvalidAttachmentRequest
  | GwInputTooLarge nat
  | GwRemote int rstring bool
  | GwRegistry registry_error

datatype peer_identity = NoIdentity | OtherIdentity | CertChain "bytes list"

datatype 'a timed = TimedOut | Completed 'a

record accept_answers =
  aq_incoming :: "(rstring + unit) timed option"
  aq_identity :: peer_identity
  aq_bi :: "(rstring + unit) timed"
  aq_recv :: "recv_stream timed"
  aq_write :: "bytes \<Rightarrow> rstring option"

definition peer_leaf_fingerprint :: "(bytes \<Rightarrow> bytes) \<Rightarrow> peer_identity \<Rightarrow> gateway_error + bytes" where
  "peer_leaf_fingerprint sha256 i =
     (case i of
        NoIdentity \<Rightarrow> Err GwMissingPeerIdentity
      | OtherIdentity \<Rightarrow> Err GwInvalidPeerIdentity
      | CertChain [] \<Rightarrow> Err GwMissingPeerIdentity
      | CertChain (leaf # _) \<Rightarrow> Ok (from_leaf_der sha256 leaf))"

text \<open>Up to the lookup of the certificate: the fingerprint and the server it is bound to.\<close>

definition accept_identify ::
  "(bytes \<Rightarrow> bytes) \<Rightarrow> accept_answers \<Rightarrow> registry \<Rightarrow> gateway_error + (bytes \<times> bytes option)" where
  "accept_identify sha256 A g =
     (case aq_incoming A of
        None \<Rightarrow> Err GwEndpointClosed
      | Some TimedOut \<Rightarrow> Err GwRegistrationTimeout
      | Some (Completed (Inl e)) \<Rightarrow> Err (GwConnection e)
      | Some (Completed (Inr _)) \<Rightarrow>
          (case peer_leaf_fingerprint sha256 (aq_identity A) of
             Inl e \<Rightarrow> Err e
           | Inr fingerprint \<Rightarrow> Ok (fingerprint, registry_resolve fingerprint g)))"

text \<open>The checks of the registration message, in order: a reason to reject it or the server.\<close>

definition check_register :: "bytes option \<Rightarrow> agent_envelope \<Rightarrow> rstring + bytes \<times> u32" where
  "check_register expected envelope =
     (case ae_message envelope of
        Some (AgentRegister register) \<Rightarrow>
          if rg_protocol_major register \<noteq> PROTOCOL_MAJOR then Err (lit ''incompatible agent protocol'')
          else if len (rg_agent_build register) > AGENT_BUILD_BYTES_MAX then Err (lit ''invalid agent metadata'')
          else
            (case wire_id (rg_server_id register) of
               None \<Rightarrow> Err (lit ''invalid server identity'')
             | Some claimed \<Rightarrow>
                 if expected \<noteq> Some claimed \<or> wire_id (ae_server_id envelope) \<noteq> Some claimed
                 then Err (lit ''certificate identity mismatch'')
                 else if rg_max_frame_bytes register < AGENT_CONTROL_FRAME_BYTES_MIN
                 then Err (lit ''invalid frame limit'')
                 else Ok (claimed, rg_max_frame_bytes register))
      | _ \<Rightarrow> Err (lit ''invalid registration message''))"

definition registration_envelope :: "bytes \<Rightarrow> u32 \<Rightarrow> agent_envelope" where
  "registration_envelope claimed negotiated_max =
     \<lparr>ae_request_id = 0, ae_server_id = id_to_wire claimed, ae_shell_id = [],
      ae_message = Some (AgentRegistration
        \<lparr>rn_accepted = True, rn_server_id = id_to_wire claimed, rn_max_frame_bytes = negotiated_max,
         rn_keepalive_interval_ms = DEFAULT_KEEPALIVE_INTERVAL_MS, rn_rejection_reason = []\<rparr>)\<rparr>"

definition rejection_envelope :: "rstring \<Rightarrow> agent_envelope" where
  "rejection_envelope reason =
     \<lparr>ae_request_id = 0, ae_server_id = [], ae_shell_id = [],
      ae_message = Some (AgentRegistration
        \<lparr>rn_accepted = False, rn_server_id = [], rn_max_frame_bytes = 0, rn_keepalive_interval_ms = 0,
         rn_rejection_reason = reason\<rparr>)\<rparr>"

record registered_agent =
  ra_server_id :: bytes
  ra_max_frame_bytes :: u32
  ra_next_request_id :: u64

text \<open>\<open>reject\<close>: the bytes that reach the stream (none when they cannot be written) and the error.\<close>

definition reject_registration ::
  "agent_codec \<Rightarrow> accept_answers \<Rightarrow> rstring \<Rightarrow> bytes \<times> gateway_error" where
  "reject_registration C A reason =
     ((case write_envelope C (aq_write A) AGENT_CONTROL_FRAME_BYTES_MAX (rejection_envelope reason) of
         Inl _ \<Rightarrow> [] | Inr frame \<Rightarrow> frame), GwRejected reason)"

text \<open>From the lookup to the end; a lease claimed is released again when the reply cannot be written.\<close>

definition accept_register ::
  "agent_codec \<Rightarrow> accept_answers \<Rightarrow> bytes option \<Rightarrow> registry \<Rightarrow> registry \<times> bytes \<times> (gateway_error + registered_agent)" where
  "accept_register C A expected g =
     (case aq_bi A of
        TimedOut \<Rightarrow> (g, [], Err GwRegistrationTimeout)
      | Completed (Inl e) \<Rightarrow> (g, [], Err (GwConnection e))
      | Completed (Inr _) \<Rightarrow>
          (case aq_recv A of
             TimedOut \<Rightarrow> (g, [], Err GwRegistrationTimeout)
           | Completed recv \<Rightarrow>
               (case snd (read_envelope C AGENT_CONTROL_FRAME_BYTES_MAX recv) of
                  Inl e \<Rightarrow> (g, [], Err (GwIo e))
                | Inr envelope \<Rightarrow>
                    (case check_register expected envelope of
                       Inl reason \<Rightarrow> (case reject_registration C A reason of (out, e) \<Rightarrow> (g, out, Err e))
                     | Inr (claimed, proposed) \<Rightarrow>
                         (case claim claimed g of
                            (g', Inl (AlreadyActive s)) \<Rightarrow>
                              (case reject_registration C A (lit ''server already connected'') of
                                 (out, e) \<Rightarrow> (g', out, Err e))
                          | (g', Inl e) \<Rightarrow> (g', [], Err (GwRegistry e))
                          | (g', Inr _) \<Rightarrow>
                              (let negotiated_max = min proposed AGENT_CONTROL_FRAME_BYTES_MAX in
                               case write_envelope C (aq_write A) negotiated_max
                                      (registration_envelope claimed negotiated_max) of
                                 Inl e \<Rightarrow> (lease_drop claimed g', [], Err (GwIo e))
                               | Inr frame \<Rightarrow>
                                   (g', frame,
                                    Ok \<lparr>ra_server_id = claimed, ra_max_frame_bytes = negotiated_max,
                                        ra_next_request_id = 1\<rparr>)))))))"

definition accept_registration ::
  "(bytes \<Rightarrow> bytes) \<Rightarrow> agent_codec \<Rightarrow> accept_answers \<Rightarrow> registry
     \<Rightarrow> registry \<times> bytes \<times> (gateway_error + registered_agent)" where
  "accept_registration sha256 C A g =
     (case accept_identify sha256 A g of
        Inl e \<Rightarrow> (g, [], Err e)
      | Inr (_, expected) \<Rightarrow> accept_register C A expected g)"

section \<open>Control operations\<close>

record link_answers =
  lk_write :: "bytes \<Rightarrow> rstring option"
  lk_recv :: recv_stream

definition next_id :: "u64 \<Rightarrow> u64" where
  "next_id n = (if n = - 1 then 1 else n + 1)"

definition answer_ping ::
  "agent_codec \<Rightarrow> link_answers \<Rightarrow> registered_agent \<Rightarrow> recv_stream \<times> bytes \<times> (gateway_error + u64)" where
  "answer_ping C A ra =
     (case read_envelope C (ra_max_frame_bytes ra) (lk_recv A) of
        (r, Inl e) \<Rightarrow> (r, [], Err (GwIo e))
      | (r, Inr request) \<Rightarrow>
          (case ae_message request of
             Some (AgentPing nonce) \<Rightarrow>
               if wire_id (ae_server_id request) \<noteq> Some (ra_server_id ra)
               then (r, [], Err GwServerIdentityMismatch)
               else
                 (case write_envelope C (lk_write A) (ra_max_frame_bytes ra)
                         \<lparr>ae_request_id = ae_request_id request, ae_server_id = id_to_wire (ra_server_id ra),
                          ae_shell_id = [], ae_message = Some (AgentPong nonce)\<rparr> of
                    Inl e \<Rightarrow> (r, [], Err (GwIo e))
                  | Inr frame \<Rightarrow> (r, frame, Ok nonce))
           | _ \<Rightarrow> (r, [], Err GwUnexpectedControlMessage)))"

record agent_shell_request =
  gs_user_id :: rstring
  gs_connection_grant :: bytes
  gs_unix_account :: "rstring option"
  gs_command :: "rstring option"
  gs_cols :: nat
  gs_rows :: nat
  gs_idempotency_key :: bytes

definition shell_request_new ::
  "rstring \<Rightarrow> bytes \<Rightarrow> rstring option \<Rightarrow> rstring option \<Rightarrow> nat \<Rightarrow> nat \<Rightarrow> bytes \<Rightarrow> gateway_error + agent_shell_request" where
  "shell_request_new user_id grant unix_account command cols rows key =
     (if user_id = [] \<or> len user_id > AGENT_USER_ID_BYTES_MAX \<or> grant = [] \<or> length grant > AGENT_GRANT_BYTES_MAX
         \<or> (case unix_account of None \<Rightarrow> False | Some v \<Rightarrow> len v > AGENT_UNIX_ACCOUNT_BYTES_MAX)
         \<or> (case command of None \<Rightarrow> False | Some v \<Rightarrow> len v > AGENT_COMMAND_BYTES_MAX)
      then Err GwInvalidShellRequest
      else Ok \<lparr>gs_user_id = user_id, gs_connection_grant = grant, gs_unix_account = unix_account, gs_command = command,
               gs_cols = cols, gs_rows = rows, gs_idempotency_key = key\<rparr>)"

definition open_envelope :: "registered_agent \<Rightarrow> agent_shell_request \<Rightarrow> agent_envelope" where
  "open_envelope ra request =
     \<lparr>ae_request_id = ra_next_request_id ra, ae_server_id = id_to_wire (ra_server_id ra), ae_shell_id = [],
      ae_message = Some (AgentOpenShell
        \<lparr>ao_user_id = gs_user_id request,
         ao_unix_account = (case gs_unix_account request of None \<Rightarrow> [] | Some a \<Rightarrow> a),
         ao_command = (case gs_command request of None \<Rightarrow> [] | Some c \<Rightarrow> c),
         ao_initial_cols = gs_cols request, ao_initial_rows = gs_rows request,
         ao_idempotency_key = gs_idempotency_key request, ao_connection_grant = gs_connection_grant request\<rparr>)\<rparr>"

definition opened_reply :: "registered_agent \<Rightarrow> u64 \<Rightarrow> agent_envelope \<Rightarrow> gateway_error + bytes \<times> bool" where
  "opened_reply ra request_id response =
     (if ae_request_id response \<noteq> request_id \<or> wire_id (ae_server_id response) \<noteq> Some (ra_server_id ra)
      then Err GwServerIdentityMismatch
      else
        (case ae_message response of
           Some (AgentShellOpened sid reused) \<Rightarrow>
             (case wire_id sid of None \<Rightarrow> Err GwUnexpectedControlMessage | Some i \<Rightarrow> Ok (i, reused))
         | Some (AgentError code txt retryable) \<Rightarrow> Err (GwRemote code txt retryable)
         | _ \<Rightarrow> Err GwUnexpectedControlMessage))"

text \<open>The agent with its next request identifier, what was written, what is left to read, the result.\<close>

definition gateway_open_shell ::
  "agent_codec \<Rightarrow> link_answers \<Rightarrow> agent_shell_request \<Rightarrow> registered_agent
     \<Rightarrow> registered_agent \<times> bytes \<times> recv_stream \<times> (gateway_error + bytes \<times> bool)" where
  "gateway_open_shell C A request ra =
     (let ra' = ra\<lparr>ra_next_request_id := next_id (ra_next_request_id ra)\<rparr> in
      case write_envelope C (lk_write A) (ra_max_frame_bytes ra) (open_envelope ra request) of
        Inl e \<Rightarrow> (ra', [], lk_recv A, Err (GwIo e))
      | Inr frame \<Rightarrow>
          (case read_envelope C (ra_max_frame_bytes ra) (lk_recv A) of
             (r, Inl e) \<Rightarrow> (ra', frame, r, Err (GwIo e))
           | (r, Inr response) \<Rightarrow> (ra', frame, r, opened_reply ra (ra_next_request_id ra) response)))"

section \<open>Attachment streams\<close>

record agent_attachment_request =
  gt_user_id :: rstring
  gt_connection_grant :: bytes
  gt_cols :: nat
  gt_rows :: nat

definition attachment_request_new ::
  "rstring \<Rightarrow> bytes \<Rightarrow> nat \<Rightarrow> nat \<Rightarrow> gateway_error + agent_attachment_request" where
  "attachment_request_new user_id grant cols rows =
     (if user_id = [] \<or> len user_id > AGENT_USER_ID_BYTES_MAX \<or> grant = [] \<or> length grant > AGENT_GRANT_BYTES_MAX
      then Err GwInvalidAttachmentRequest
      else Ok \<lparr>gt_user_id = user_id, gt_connection_grant = grant, gt_cols = cols, gt_rows = rows\<rparr>)"

definition gateway_attachment_scope :: "bytes \<Rightarrow> bytes \<Rightarrow> u64 \<Rightarrow> agent_envelope \<Rightarrow> gateway_error + unit" where
  "gateway_attachment_scope server_id shell_id request_id envelope =
     (if ae_request_id envelope \<noteq> request_id \<or> wire_id (ae_server_id envelope) \<noteq> Some server_id
         \<or> wire_id (ae_shell_id envelope) \<noteq> Some shell_id
      then Err GwAttachmentIdentityMismatch else Ok ())"

record attachment_sender =
  sd_server_id :: bytes
  sd_shell_id :: bytes
  sd_next_request_id :: u64

definition attach_envelope :: "registered_agent \<Rightarrow> bytes \<Rightarrow> agent_attachment_request \<Rightarrow> agent_envelope" where
  "attach_envelope ra shell_id request =
     \<lparr>ae_request_id = 1, ae_server_id = id_to_wire (ra_server_id ra), ae_shell_id = id_to_wire shell_id,
      ae_message = Some (AgentAttachShell
        \<lparr>aa_user_id = gt_user_id request, aa_connection_grant = gt_connection_grant request,
         aa_cols = gt_cols request, aa_rows = gt_rows request\<rparr>)\<rparr>"

definition gateway_attach_shell ::
  "agent_codec \<Rightarrow> link_answers \<Rightarrow> bytes \<Rightarrow> agent_attachment_request \<Rightarrow> registered_agent
     \<Rightarrow> bytes \<times> recv_stream \<times> (gateway_error + agent_shell_attached \<times> attachment_sender)" where
  "gateway_attach_shell C A shell_id request ra =
     (case write_envelope C (lk_write A) AGENT_ATTACHMENT_FRAME_BYTES_MAX (attach_envelope ra shell_id request) of
        Inl e \<Rightarrow> ([], lk_recv A, Err (GwIo e))
      | Inr frame \<Rightarrow>
          (case read_envelope C AGENT_ATTACHMENT_FRAME_BYTES_MAX (lk_recv A) of
             (r, Inl e) \<Rightarrow> (frame, r, Err (GwIo e))
           | (r, Inr response) \<Rightarrow>
               (frame, r,
                case gateway_attachment_scope (ra_server_id ra) shell_id 1 response of
                  Inl e \<Rightarrow> Err e
                | Inr _ \<Rightarrow>
                    (case ae_message response of
                       Some (AgentShellAttached attached) \<Rightarrow>
                         Ok (attached, \<lparr>sd_server_id = ra_server_id ra, sd_shell_id = shell_id, sd_next_request_id = 2\<rparr>)
                     | Some (AgentError code txt retryable) \<Rightarrow> Err (GwRemote code txt retryable)
                     | _ \<Rightarrow> Err GwUnexpectedAttachmentMessage))))"

definition sender_write ::
  "agent_codec \<Rightarrow> (bytes \<Rightarrow> rstring option) \<Rightarrow> agent_msg \<Rightarrow> attachment_sender
     \<Rightarrow> attachment_sender \<times> (gateway_error + bytes \<times> u64)" where
  "sender_write C write message s =
     (let request_id = sd_next_request_id s; s' = s\<lparr>sd_next_request_id := next_id request_id\<rparr> in
      (s', case write_envelope C write AGENT_ATTACHMENT_FRAME_BYTES_MAX
                  \<lparr>ae_request_id = request_id, ae_server_id = id_to_wire (sd_server_id s),
                   ae_shell_id = id_to_wire (sd_shell_id s), ae_message = Some message\<rparr> of
             Inl e \<Rightarrow> Err (GwIo e) | Inr frame \<Rightarrow> Ok (frame, request_id)))"

definition send_input ::
  "agent_codec \<Rightarrow> (bytes \<Rightarrow> rstring option) \<Rightarrow> bytes \<Rightarrow> attachment_sender
     \<Rightarrow> attachment_sender \<times> (gateway_error + bytes \<times> u64)" where
  "send_input C write data s =
     (if length data > AGENT_TERMINAL_INPUT_BYTES_MAX then (s, Err (GwInputTooLarge (length data)))
      else sender_write C write (AgentInput data) s)"

definition send_resize ::
  "agent_codec \<Rightarrow> (bytes \<Rightarrow> rstring option) \<Rightarrow> nat \<Rightarrow> nat \<Rightarrow> attachment_sender
     \<Rightarrow> attachment_sender \<times> (gateway_error + bytes \<times> u64)" where
  "send_resize C write cols rows s = sender_write C write (AgentResize cols rows) s"

definition send_request_history ::
  "agent_codec \<Rightarrow> (bytes \<Rightarrow> rstring option) \<Rightarrow> nat \<Rightarrow> nat \<Rightarrow> nat \<Rightarrow> attachment_sender
     \<Rightarrow> attachment_sender \<times> (gateway_error + bytes \<times> u64)" where
  "send_request_history C write before_line_id maximum_lines maximum_bytes s =
     sender_write C write
       (AgentRequestHistory before_line_id (min maximum_lines AGENT_HISTORY_LINES_MAX)
          (min maximum_bytes (unat (AGENT_ATTACHMENT_FRAME_BYTES_MAX div 2)))) s"

definition send_detach ::
  "agent_codec \<Rightarrow> (bytes \<Rightarrow> rstring option) \<Rightarrow> attachment_sender
     \<Rightarrow> attachment_sender \<times> (gateway_error + bytes \<times> u64)" where
  "send_detach C write s = sender_write C write AgentDetach s"

datatype agent_attachment_event =
    EventOutput bytes
  | EventHistoryChunk u64 nat "rstring list" bool
  | EventHistoryEnd u64 nat
  | EventExited int bool rstring

definition event_of :: "bytes \<Rightarrow> bytes \<Rightarrow> agent_envelope \<Rightarrow> gateway_error + agent_attachment_event" where
  "event_of server_id shell_id envelope =
     (case gateway_attachment_scope server_id shell_id (ae_request_id envelope) envelope of
        Inl e \<Rightarrow> Err e
      | Inr _ \<Rightarrow>
          (case ae_message envelope of
             Some (AgentOutput data) \<Rightarrow> Ok (EventOutput data)
           | Some (AgentHistoryChunk first lines truncated) \<Rightarrow>
               Ok (EventHistoryChunk (ae_request_id envelope) first lines truncated)
           | Some (AgentHistoryEnd oldest) \<Rightarrow> Ok (EventHistoryEnd (ae_request_id envelope) oldest)
           | Some (AgentExited code signaled sig) \<Rightarrow> Ok (EventExited code signaled sig)
           | Some (AgentError code txt retryable) \<Rightarrow> Err (GwRemote code txt retryable)
           | _ \<Rightarrow> Err GwUnexpectedAttachmentMessage))"

definition next_event ::
  "agent_codec \<Rightarrow> bytes \<Rightarrow> bytes \<Rightarrow> recv_stream \<Rightarrow> recv_stream \<times> (gateway_error + agent_attachment_event)" where
  "next_event C server_id shell_id recv =
     (case read_envelope C AGENT_ATTACHMENT_FRAME_BYTES_MAX recv of
        (r, Inl e) \<Rightarrow> (r, Err (GwIo e))
      | (r, Inr envelope) \<Rightarrow> (r, event_of server_id shell_id envelope))"


section \<open>The gateway as a machine\<close>

text \<open>
  Accepts run beside each other and beside the administration of certificates: the lookup of the
  certificate and the registration that follows are two steps. A connection carries the
  fingerprint it presented; \<open>gy_granted\<close> records every binding ever authorized.
\<close>

record gateway_state =
  gy_registry :: registry
  gy_pending :: "(nat \<times> bytes \<times> bytes option) list"
  gy_agents :: "(nat \<times> bytes \<times> registered_agent) list"
  gy_granted :: "(bytes \<times> bytes) set"

datatype gateway_label =
    GlAuthorize bytes bytes
  | GlRevoke bytes
  | GlIdentified nat accept_answers
  | GlRegistered nat accept_answers
  | GlRefused nat accept_answers
  | GlLeft nat

inductive gateway_step ::
  "(bytes \<Rightarrow> bytes) \<Rightarrow> agent_codec \<Rightarrow> gateway_state \<Rightarrow> gateway_label \<Rightarrow> gateway_state \<Rightarrow> bool" for sha C where
  authorized: "authorize_leaf sha sid der (gy_registry s) = (g, Ok fp) \<Longrightarrow>
    gateway_step sha C s (GlAuthorize sid der) (s\<lparr>gy_registry := g, gy_granted := insert (fp, sid) (gy_granted s)\<rparr>)"
| not_authorized: "authorize_leaf sha sid der (gy_registry s) = (g, Err e) \<Longrightarrow>
    gateway_step sha C s (GlAuthorize sid der) (s\<lparr>gy_registry := g\<rparr>)"
| revoked: "gateway_step sha C s (GlRevoke fp) (s\<lparr>gy_registry := fst (revoke fp (gy_registry s))\<rparr>)"
| identified: "accept_identify sha A (gy_registry s) = Ok (fp, expected) \<Longrightarrow> k \<notin> set (keys (gy_pending s)) \<Longrightarrow>
    k \<notin> set (keys (gy_agents s)) \<Longrightarrow>
    gateway_step sha C s (GlIdentified k A) (s\<lparr>gy_pending := assoc_put k (fp, expected) (gy_pending s)\<rparr>)"
| registered: "map_of (gy_pending s) k = Some (fp, expected) \<Longrightarrow>
    accept_register C A expected (gy_registry s) = (g, out, Ok ra) \<Longrightarrow> k \<notin> set (keys (gy_agents s)) \<Longrightarrow>
    gateway_step sha C s (GlRegistered k A)
      (s\<lparr>gy_registry := g, gy_pending := assoc_del k (gy_pending s), gy_agents := gy_agents s @ [(k, fp, ra)]\<rparr>)"
| refused: "map_of (gy_pending s) k = Some (fp, expected) \<Longrightarrow>
    accept_register C A expected (gy_registry s) = (g, out, Err e) \<Longrightarrow>
    gateway_step sha C s (GlRefused k A) (s\<lparr>gy_registry := g, gy_pending := assoc_del k (gy_pending s)\<rparr>)"
| left: "map_of (gy_agents s) k = Some (fp, ra) \<Longrightarrow>
    gateway_step sha C s (GlLeft k)
      (s\<lparr>gy_registry := lease_drop (ra_server_id ra) (gy_registry s), gy_agents := assoc_del k (gy_agents s)\<rparr>)"

inductive gateway_reach :: "(bytes \<Rightarrow> bytes) \<Rightarrow> agent_codec \<Rightarrow> gateway_state \<Rightarrow> bool" for sha C where
  started: "registry_new max_identities max_active = Ok g \<Longrightarrow>
    gateway_reach sha C \<lparr>gy_registry = g, gy_pending = [], gy_agents = [], gy_granted = {}\<rparr>"
| stepped: "gateway_reach sha C s \<Longrightarrow> gateway_step sha C s lb s' \<Longrightarrow> gateway_reach sha C s'"

definition registry_inv :: "registry \<Rightarrow> bool" where
  "registry_inv g \<longleftrightarrow>
     distinct (keys (cr_identities g)) \<and> length (cr_identities g) \<le> cr_max_identities g
     \<and> distinct (cr_active g) \<and> length (cr_active g) \<le> cr_max_active_agents g"

definition agent_servers :: "gateway_state \<Rightarrow> bytes list" where
  "agent_servers s = map (\<lambda>(k, x). ra_server_id (snd x)) (gy_agents s)"

text \<open>A connected agent has a certificate bound to its server and a frame limit in range.\<close>

definition agent_ok :: "(bytes \<times> bytes) set \<Rightarrow> bytes \<times> registered_agent \<Rightarrow> bool" where
  "agent_ok granted x \<longleftrightarrow>
     (fst x, ra_server_id (snd x)) \<in> granted
     \<and> AGENT_CONTROL_FRAME_BYTES_MIN \<le> ra_max_frame_bytes (snd x)
     \<and> ra_max_frame_bytes (snd x) \<le> AGENT_CONTROL_FRAME_BYTES_MAX"

text \<open>What a pending registration was told about its certificate.\<close>

definition bound_ok :: "(bytes \<times> bytes) set \<Rightarrow> bytes \<times> bytes option \<Rightarrow> bool" where
  "bound_ok granted x \<longleftrightarrow> (case snd x of None \<Rightarrow> True | Some sid \<Rightarrow> (fst x, sid) \<in> granted)"

definition gateway_inv :: "gateway_state \<Rightarrow> bool" where
  "gateway_inv s \<longleftrightarrow>
     registry_inv (gy_registry s) \<and> set (cr_identities (gy_registry s)) \<subseteq> gy_granted s
     \<and> set (cr_active (gy_registry s)) = set (agent_servers s) \<and> distinct (agent_servers s)
     \<and> distinct (keys (gy_agents s))
     \<and> list_all (\<lambda>(k, x). agent_ok (gy_granted s) x) (gy_agents s)
     \<and> list_all (\<lambda>(k, x). bound_ok (gy_granted s) x) (gy_pending s)"

lemma authorize_inv:
  assumes "registry_inv g" and "authorize_leaf sha256 sid der g = (g', r)"
  shows "registry_inv g' \<and> cr_active g' = cr_active g
    \<and> (case r of Inl _ \<Rightarrow> g' = g | Inr fp \<Rightarrow> set (cr_identities g') \<subseteq> insert (fp, sid) (set (cr_identities g)))"
proof -
  let ?fp = "from_leaf_der sha256 der"
  have put: "assoc_put ?fp sid (cr_identities g) = cr_identities g @ [(?fp, sid)]"
    if "map_of (cr_identities g) ?fp = None" using that by (simp add: assoc_put_def map_of_None_keys)
  show ?thesis
    using assms
    by (auto simp: authorize_leaf_def registry_inv_def Let_def put map_of_None_keys split: option.splits if_splits)
qed

lemma claim_cases:
  "claim sid g = (g', r) \<Longrightarrow>
     (case r of
        Inl _ \<Rightarrow> g' = g
      | Inr _ \<Rightarrow> sid \<notin> set (cr_active g) \<and> length (cr_active g) < cr_max_active_agents g
                 \<and> g' = g\<lparr>cr_active := cr_active g @ [sid]\<rparr>)"
  by (auto simp: claim_def split: if_splits)

lemma check_register_Ok:
  "check_register expected env = Ok (claimed, mx) \<Longrightarrow>
     expected = Some claimed \<and> AGENT_CONTROL_FRAME_BYTES_MIN \<le> mx"
  by (auto simp: check_register_def not_less split: option.splits agent_msg.splits if_splits)

text \<open>A registration that is refused leaves the registry as it was.\<close>

lemma accept_register_cases:
  assumes "accept_register C A expected g = (g', out, r)"
  shows "case r of
           Inl _ \<Rightarrow> cr_identities g' = cr_identities g \<and> cr_max_identities g' = cr_max_identities g
             \<and> cr_max_active_agents g' = cr_max_active_agents g \<and> cr_active g' = cr_active g
         | Inr ra \<Rightarrow> expected = Some (ra_server_id ra) \<and> ra_server_id ra \<notin> set (cr_active g)
             \<and> length (cr_active g) < cr_max_active_agents g
             \<and> g' = g\<lparr>cr_active := cr_active g @ [ra_server_id ra]\<rparr>
             \<and> AGENT_CONTROL_FRAME_BYTES_MIN \<le> ra_max_frame_bytes ra
             \<and> ra_max_frame_bytes ra \<le> AGENT_CONTROL_FRAME_BYTES_MAX \<and> ra_next_request_id ra = 1"
proof -
  have mm: "AGENT_CONTROL_FRAME_BYTES_MIN \<le> AGENT_CONTROL_FRAME_BYTES_MAX"
    by (simp add: AGENT_CONTROL_FRAME_BYTES_MIN_def AGENT_CONTROL_FRAME_BYTES_MAX_def)
  have undo: "filter (\<lambda>s. s \<noteq> x) xs = xs" if "x \<notin> set xs" for x :: bytes and xs
    using that by (induction xs) auto
  show ?thesis
    using assms mm
    by (auto simp: accept_register_def Let_def lease_drop_def reject_registration_def undo
        dest!: claim_cases check_register_Ok
        split: timed.splits sum.splits prod.splits registry_error.splits option.splits)
qed

lemma agent_ok_mono: "agent_ok G x \<Longrightarrow> G \<subseteq> G' \<Longrightarrow> agent_ok G' x"
  by (auto simp: agent_ok_def)


lemma list_all_put:
  "k \<notin> set (keys xs) \<Longrightarrow> list_all P (assoc_put k v xs) \<longleftrightarrow> list_all P xs \<and> P (k, v)"
  by (simp add: assoc_put_def)

lemma list_all_del: "list_all P xs \<Longrightarrow> list_all P (assoc_del k xs)"
  by (auto simp: list_all_iff assoc_del_def)

lemma map_assoc_del_filter:
  assumes "map_of xs k = Some v" and "distinct (keys xs)" and "distinct (map (\<lambda>(k, v). f v) xs)"
  shows "map (\<lambda>(k, v). f v) (assoc_del k xs) = filter (\<lambda>y. y \<noteq> f v) (map (\<lambda>(k, v). f v) xs)"
proof -
  have v: "(k, v) \<in> set xs" using assms(1) by (rule map_of_SomeD)
  have k: "v' = v" if "(k, v') \<in> set xs" for v'
    using that assms(1,2) map_of_is_SomeI [of xs k v'] by (simp add: keys_def)
  have key: "k' = k" if "(k', v') \<in> set xs" "f v' = f v" for k' v'
  proof -
    have "inj_on (\<lambda>(k, v). f v) (set xs)" using assms(3) by (simp add: distinct_map)
    from inj_onD [OF this, of "(k', v')" "(k, v)"] show ?thesis using that v by simp
  qed
  have "assoc_del k xs = filter ((\<lambda>y. y \<noteq> f v) \<circ> (\<lambda>(k, v). f v)) xs"
    unfolding assoc_del_def
  proof (rule filter_cong [OF refl])
    fix x
    assume "x \<in> set xs"
    then show "(case x of (k', v') \<Rightarrow> k' \<noteq> k) = ((\<lambda>y. y \<noteq> f v) \<circ> (\<lambda>(k, v). f v)) x"
      using k [of "snd x"] key [of "fst x" "snd x"] by (cases x) auto
  qed
  then show ?thesis by (simp add: filter_map)
qed

lemma list_all_agent_ok_mono:
  "list_all (\<lambda>(k, x). agent_ok G x) xs \<Longrightarrow> G \<subseteq> G' \<Longrightarrow> list_all (\<lambda>(k, x). agent_ok G' x) xs"
  by (induction xs) (auto intro: agent_ok_mono)

lemma bound_ok_mono: "bound_ok G x \<Longrightarrow> G \<subseteq> G' \<Longrightarrow> bound_ok G' x"
  by (auto simp: bound_ok_def split: option.splits)

lemma list_all_bound_ok_mono:
  "list_all (\<lambda>(k, x). bound_ok G x) xs \<Longrightarrow> G \<subseteq> G' \<Longrightarrow> list_all (\<lambda>(k, x). bound_ok G' x) xs"
  by (induction xs) (auto intro: bound_ok_mono)

lemma gateway_step_inv:
  assumes "gateway_inv s" and "gateway_step sha256 C s lb s'"
  shows "gateway_inv s'"
  using assms(2)
proof cases
  case (authorized sid der g fp)
  have "list_all (\<lambda>(k, x). agent_ok (gy_granted s) x) (gy_agents s)"
    "list_all (\<lambda>(k, x). bound_ok (gy_granted s) x) (gy_pending s)"
    using assms(1) by (simp_all add: gateway_inv_def)
  then have "list_all (\<lambda>(k, x). agent_ok (insert (fp, sid) (gy_granted s)) x) (gy_agents s)"
    "list_all (\<lambda>(k, x). bound_ok (insert (fp, sid) (gy_granted s)) x) (gy_pending s)"
    by (auto intro: list_all_agent_ok_mono list_all_bound_ok_mono)
  then show ?thesis
    using assms(1) authorize_inv [of "gy_registry s", OF _ authorized(3)] authorized(2)
    by (auto simp: gateway_inv_def agent_servers_def)
next
  case (not_authorized sid der g e)
  then show ?thesis
    using assms(1) authorize_inv [of "gy_registry s", OF _ not_authorized(3)] by (auto simp: gateway_inv_def agent_servers_def)
next
  case (revoked fp)
  then show ?thesis
    using assms(1) set_assoc_del [of fp "cr_identities (gy_registry s)"] length_assoc_del [of fp "cr_identities (gy_registry s)"]
    by (auto simp: gateway_inv_def registry_inv_def revoke_def agent_servers_def keys_assoc_del)
next
  case (identified A fp expected k)
  have "bound_ok (gy_granted s) (fp, expected)"
    using identified(3) assms(1)
    by (auto simp: bound_ok_def accept_identify_def registry_resolve_def gateway_inv_def dest: map_of_SomeD
        split: option.splits timed.splits sum.splits)
  then show ?thesis using assms(1) identified by (auto simp: gateway_inv_def agent_servers_def list_all_put)
next
  case (registered k fp expected A g out ra)
  note acc = accept_register_cases [OF registered(4)]
  have "(fp, ra_server_id ra) \<in> gy_granted s"
    using assms(1) map_of_SomeD [OF registered(3)] acc
    by (auto simp: gateway_inv_def list_all_iff bound_ok_def)
  then show ?thesis
    using assms(1) acc registered(2,5) list_all_del
    by (auto simp: gateway_inv_def registry_inv_def agent_servers_def agent_ok_def)
next
  case (refused k fp expected A g out e)
  then show ?thesis
    using assms(1) accept_register_cases [OF refused(4)] list_all_del
    by (auto simp: gateway_inv_def registry_inv_def agent_servers_def)
next
  case (left k fp ra)
  have l: "length (filter P xs) \<le> n" if "length xs \<le> n" for P and xs :: "bytes list" and n
    using that length_filter_le order_trans by blast
  show ?thesis
    using assms(1) left(2) map_assoc_del_filter [OF left(3), of "\<lambda>x. ra_server_id (snd x)"] list_all_del
    by (auto simp: gateway_inv_def registry_inv_def agent_servers_def lease_drop_def l keys_assoc_del)
qed

lemma gateway_reach_inv: "gateway_reach sha256 C s \<Longrightarrow> gateway_inv s"
proof (induction rule: gateway_reach.induct)
  case (started max_identities max_active g)
  then show ?case
    by (auto simp: gateway_inv_def registry_inv_def agent_servers_def registry_new_def split: if_splits)
qed (rule gateway_step_inv)


lemma binding_kept:
  assumes "gateway_step sha256 C s lb s'" and "map_of (cr_identities (gy_registry s)) fp = Some sid" and "lb \<noteq> GlRevoke fp"
  shows "map_of (cr_identities (gy_registry s')) fp = Some sid"
  using assms(1)
proof cases
  case (authorized sid' der g fp')
  then show ?thesis using assms(2) by (auto simp: authorize_leaf_def Let_def split: option.splits if_splits)
next
  case (not_authorized sid' der g e)
  then show ?thesis using assms(2) by (auto simp: authorize_leaf_def Let_def split: option.splits if_splits)
next
  case (registered k fp' expected A g out ra)
  then show ?thesis using assms(2) accept_register_cases [OF registered(4)] by auto
next
  case (refused k fp' expected A g out e)
  then show ?thesis using assms(2) accept_register_cases [OF refused(4)] by auto
qed (use assms(2,3) in \<open>auto simp: revoke_def lease_drop_def\<close>)

section \<open>Properties\<close>

text \<open>
  (C16) The gateway never confuses agents, for every interleaving of registrations, failures,
  disconnections, authorizations and revocations: the tables keep within their limits, at most
  one agent is connected per server and a lease is held exactly while it is, every connected agent
  presented a certificate that was authorized for its server and has a control frame limit in the
  fixed range, and a certificate stays bound to its server until it is revoked itself.
\<close>

theorem gateway_safe:
  assumes "gateway_reach sha256 C s" and "gateway_step sha256 C s lb s'"
  shows "identity_count (gy_registry s) \<le> cr_max_identities (gy_registry s)
     \<and> length (gy_agents s) \<le> cr_max_active_agents (gy_registry s)
     \<and> distinct (agent_servers s) \<and> set (cr_active (gy_registry s)) = set (agent_servers s)
     \<and> list_all (\<lambda>(k, x). agent_ok (gy_granted s) x) (gy_agents s)
     \<and> (case map_of (cr_identities (gy_registry s)) fp of
          None \<Rightarrow> True
        | Some sid \<Rightarrow> lb = GlRevoke fp \<or> map_of (cr_identities (gy_registry s')) fp = Some sid)"
proof -
  note inv = gateway_reach_inv [OF assms(1)]
  have "length (agent_servers s) = length (cr_active (gy_registry s))"
    using inv by (metis distinct_card gateway_inv_def registry_inv_def)
  then show ?thesis
    using inv binding_kept [OF assms(2)]
    by (auto simp: gateway_inv_def registry_inv_def identity_count_def agent_servers_def split: option.split)
qed

text \<open>One server with one certificate, and an agent that registers for it.\<close>

definition demo_server :: bytes where "demo_server = replicate 16 9"

definition demo_register :: agent_envelope where
  "demo_register =
     \<lparr>ae_request_id = 0, ae_server_id = demo_server, ae_shell_id = [],
      ae_message = Some (AgentRegister
        \<lparr>rg_protocol_major = PROTOCOL_MAJOR, rg_protocol_minor = PROTOCOL_MINOR, rg_server_id = demo_server,
         rg_agent_build = [], rg_max_frame_bytes = AGENT_CONTROL_FRAME_BYTES_MAX\<rparr>)\<rparr>"

definition demo_accept :: accept_answers where
  "demo_accept =
     \<lparr>aq_incoming = Some (Completed (Ok ())), aq_identity = CertChain [[1]], aq_bi = Completed (Ok ()),
      aq_recv = Completed \<lparr>rs_bytes = to_be_bytes 1 @ [0], rs_end = StreamFinished\<rparr>, aq_write = (\<lambda>f. None)\<rparr>"

definition demo_registry :: registry where
  "demo_registry = \<lparr>cr_identities = [], cr_active = [], cr_max_identities = 4, cr_max_active_agents = 4\<rparr>"

definition demo_gateway :: gateway_state where
  "demo_gateway = \<lparr>gy_registry = demo_registry, gy_pending = [], gy_agents = [], gy_granted = {}\<rparr>"

definition demo_agent :: registered_agent where
  "demo_agent = \<lparr>ra_server_id = demo_server, ra_max_frame_bytes = AGENT_CONTROL_FRAME_BYTES_MAX, ra_next_request_id = 1\<rparr>"

lemma demo_start: "gateway_reach sha256 C demo_gateway"
  using gateway_reach.started [of 4 4 demo_registry] by (simp add: registry_new_def demo_registry_def demo_gateway_def)

lemma demo_accepted:
  "\<exists>out. accept_register (table_codec [demo_register]) demo_accept (Some demo_server) (demo_registry\<lparr>cr_identities := ids\<rparr>)
      = (demo_registry\<lparr>cr_identities := ids, cr_active := [demo_server]\<rparr>, out, Ok demo_agent)"
proof -
  let ?C = "table_codec [demo_register]"
  have mx: "256 \<le> AGENT_CONTROL_FRAME_BYTES_MAX" by (simp add: AGENT_CONTROL_FRAME_BYTES_MAX_def)
  have "write_envelope ?C (\<lambda>f. None) AGENT_CONTROL_FRAME_BYTES_MAX demo_register = Ok (to_be_bytes 1 @ [0])"
    using table_frame [OF mx, of "[demo_register]" demo_register] by simp
  from read_written [OF this order_refl, of "[]" StreamFinished]
  have r: "snd (read_envelope ?C AGENT_CONTROL_FRAME_BYTES_MAX \<lparr>rs_bytes = to_be_bytes 1 @ [0], rs_end = StreamFinished\<rparr>) = Ok demo_register"
    by (simp add: carries_table)
  have i: "wire_id demo_server = Some demo_server" by (simp add: wire_id_def id_from_wire_def demo_server_def)
  have c: "check_register (Some demo_server) demo_register = Ok (demo_server, AGENT_CONTROL_FRAME_BYTES_MAX)"
    by (simp add: check_register_def demo_register_def i AGENT_CONTROL_FRAME_BYTES_MAX_def AGENT_CONTROL_FRAME_BYTES_MIN_def)
  show ?thesis
    by (simp add: accept_register_def demo_accept_def r c claim_def demo_registry_def Let_def table_frame [OF mx] demo_agent_def)
qed


definition demo_authorized :: gateway_state where
  "demo_authorized = demo_gateway\<lparr>gy_registry := demo_registry\<lparr>cr_identities := [([1], demo_server)]\<rparr>, gy_granted := {([1], demo_server)}\<rparr>"

definition demo_identified :: gateway_state where
  "demo_identified = demo_authorized\<lparr>gy_pending := [(0, [1], Some demo_server)]\<rparr>"

lemma demo_identified_reach: "gateway_reach (\<lambda>b. b) (table_codec [demo_register]) demo_identified"
proof -
  let ?C = "table_codec [demo_register]"
  have "authorize_leaf (\<lambda>b. b) demo_server [1] demo_registry = (demo_registry\<lparr>cr_identities := [([1], demo_server)]\<rparr>, Ok [1])"
    by (simp add: authorize_leaf_def demo_registry_def from_leaf_der_def assoc_put_def Let_def)
  then have "authorize_leaf (\<lambda>b. b) demo_server [1] (gy_registry demo_gateway) = (demo_registry\<lparr>cr_identities := [([1], demo_server)]\<rparr>, Ok [1])"
    by (simp add: demo_gateway_def)
  from gateway_step.authorized [where C = ?C, OF this]
  have "gateway_step (\<lambda>b. b) ?C demo_gateway (GlAuthorize demo_server [1]) demo_authorized"
    by (simp add: demo_authorized_def demo_gateway_def)
  then have a: "gateway_reach (\<lambda>b. b) ?C demo_authorized" using demo_start gateway_reach.stepped by blast
  have "accept_identify (\<lambda>b. b) demo_accept (gy_registry demo_authorized) = Ok ([1], Some demo_server)"
    by (simp add: accept_identify_def demo_accept_def peer_leaf_fingerprint_def from_leaf_der_def registry_resolve_def
        demo_authorized_def)
  from gateway_step.identified [OF this, of 0 ?C]
  have "gateway_step (\<lambda>b. b) ?C demo_authorized (GlIdentified 0 demo_accept) demo_identified"
    by (simp add: demo_identified_def demo_authorized_def demo_gateway_def assoc_put_def)
  then show ?thesis using a gateway_reach.stepped by blast
qed

theorem gateway_safe_witness:
  "\<exists>s s'. gateway_reach (\<lambda>b. b) (table_codec [demo_register]) s
     \<and> gateway_step (\<lambda>b. b) (table_codec [demo_register]) s (GlLeft 0) s'
     \<and> agent_servers s = [demo_server] \<and> identity_count (gy_registry s) \<le> 4
     \<and> list_all (\<lambda>(k, x). agent_ok (gy_granted s) x) (gy_agents s)
     \<and> map_of (cr_identities (gy_registry s')) [1] = Some demo_server"
proof -
  let ?C = "table_codec [demo_register]"
  let ?s = "demo_identified\<lparr>gy_registry := demo_registry\<lparr>cr_identities := [([1], demo_server)], cr_active := [demo_server]\<rparr>,
    gy_pending := [], gy_agents := [(0, [1], demo_agent)]\<rparr>"
  let ?s' = "?s\<lparr>gy_registry := lease_drop demo_server (gy_registry ?s), gy_agents := []\<rparr>"
  obtain out where acc: "accept_register ?C demo_accept (Some demo_server) (gy_registry demo_identified)
      = (demo_registry\<lparr>cr_identities := [([1], demo_server)], cr_active := [demo_server]\<rparr>, out, Ok demo_agent)"
    using demo_accepted [of "[([1], demo_server)]"] by (auto simp: demo_identified_def demo_authorized_def)
  have "gateway_step (\<lambda>b. b) ?C demo_identified (GlRegistered 0 demo_accept) ?s"
    using gateway_step.registered [where sha = "\<lambda>b. b" and k = 0 and fp = "[1]", OF _ acc]
    by (simp add: demo_identified_def demo_authorized_def demo_gateway_def assoc_del_def)
  then have r: "gateway_reach (\<lambda>b. b) ?C ?s" using demo_identified_reach gateway_reach.stepped by blast
  have l: "gateway_step (\<lambda>b. b) ?C ?s (GlLeft 0) ?s'"
    using gateway_step.left [of ?s 0 "[1]" demo_agent "\<lambda>b. b" ?C] by (simp add: demo_agent_def assoc_del_def)
  show ?thesis
    using gateway_safe [OF r l, of "[1]"] r l
    by (intro exI [of _ ?s] exI [of _ ?s']) (simp add: agent_servers_def demo_agent_def demo_registry_def)
qed

text \<open>
  Revocation does not reach a registration in progress: the certificate is looked up before the
  registration message is awaited, so an agent whose certificate is revoked in between is
  registered all the same.
\<close>

lemma revoked_certificate_registers:
  "\<exists>s0 s1 s2. gateway_reach (\<lambda>b. b) (table_codec [demo_register]) s0
     \<and> gateway_step (\<lambda>b. b) (table_codec [demo_register]) s0 (GlRevoke [1]) s1
     \<and> gateway_step (\<lambda>b. b) (table_codec [demo_register]) s1 (GlRegistered 0 demo_accept) s2
     \<and> cr_identities (gy_registry s1) = [] \<and> agent_servers s2 = [demo_server]"
proof -
  let ?C = "table_codec [demo_register]"
  let ?s1 = "demo_identified\<lparr>gy_registry := demo_registry\<lparr>cr_identities := []\<rparr>\<rparr>"
  let ?s2 = "?s1\<lparr>gy_registry := demo_registry\<lparr>cr_identities := [], cr_active := [demo_server]\<rparr>,
    gy_pending := [], gy_agents := [(0, [1], demo_agent)]\<rparr>"
  have 1: "gateway_step (\<lambda>b. b) ?C demo_identified (GlRevoke [1]) ?s1"
    using gateway_step.revoked [of "\<lambda>b. b" ?C demo_identified "[1]"]
    by (simp add: revoke_def demo_identified_def demo_authorized_def assoc_del_def)
  obtain out where acc: "accept_register ?C demo_accept (Some demo_server) (gy_registry ?s1)
      = (demo_registry\<lparr>cr_identities := [], cr_active := [demo_server]\<rparr>, out, Ok demo_agent)"
    using demo_accepted [of "[]"] by auto
  have 2: "gateway_step (\<lambda>b. b) ?C ?s1 (GlRegistered 0 demo_accept) ?s2"
    using gateway_step.registered [where sha = "\<lambda>b. b" and k = 0 and fp = "[1]", OF _ acc]
    by (simp add: demo_identified_def demo_authorized_def demo_gateway_def assoc_del_def)
  show ?thesis
    using 1 2 demo_identified_reach
    by (intro exI [of _ demo_identified] exI [of _ ?s1] exI [of _ ?s2]) (simp add: agent_servers_def demo_agent_def)
qed

end
