(* ===== verification/Agent.thy ===== *)
theory Agent
  imports Overlay Session_Isolation Session_Props Grant
begin

text \<open>
  The managed server's end of the overlay, \<open>crates/agent/src/lib.rs\<close>: registration, the
  reconnect loop, the control stream and the attachment streams. The agent owns nothing but the
  link: shells live in the session core's manager, which the operations change. A read that loses
  the race of a \<open>select!\<close> is dropped with the bytes it has taken.
\<close>

section \<open>Data\<close>

datatype agent_error =
    AgBuildTooLong nat
  | AgConnectStart rstring
  | AgConnection rstring
  | AgIo link_io_error
  | AgRejected rstring
  | AgUnexpectedResponse
  | AgServerIdentityMismatch
  | AgInvalidReconnectPolicy
  | AgInvalidGrantAudience
  | AgMissingAccountPolicy
  | AgUnexpectedAttachmentMessage
  | AgAttachmentIdentityMismatch
  | AgAttachmentForwarder rstring
  | AgOversizedTerminalOutput nat

record registration_request =
  rr_server_id :: bytes
  rr_agent_build :: rstring
  rr_max_frame_bytes :: u32

definition registration_request_new :: "bytes \<Rightarrow> rstring \<Rightarrow> agent_error + registration_request" where
  "registration_request_new server_id agent_build =
     (if len agent_build > AGENT_BUILD_BYTES_MAX then Err (AgBuildTooLong (len agent_build))
      else Ok \<lparr>rr_server_id = server_id, rr_agent_build = agent_build,
               rr_max_frame_bytes = AGENT_CONTROL_FRAME_BYTES_MAX\<rparr>)"

section \<open>Reconnecting\<close>

text \<open>Durations are natural numbers of nanoseconds up to the largest \<open>Duration\<close>.\<close>

definition DURATION_MAX :: nat where "DURATION_MAX = (2 ^ 64 - 1) * 1000000000 + 999999999"

record reconnect_policy =
  rp_initial_delay :: nat
  rp_maximum_delay :: nat

definition reconnect_policy_default :: reconnect_policy where
  "reconnect_policy_default = \<lparr>rp_initial_delay = 250 * 1000000, rp_maximum_delay = 10 * 1000000000\<rparr>"

definition policy_validate :: "reconnect_policy \<Rightarrow> agent_error + reconnect_policy" where
  "policy_validate p =
     (if rp_initial_delay p = 0 \<or> rp_maximum_delay p = 0 \<or> rp_initial_delay p > rp_maximum_delay p
      then Err AgInvalidReconnectPolicy else Ok p)"

record agent_status =
  ast_connected :: bool
  ast_registrations :: u64

definition agent_status_default :: agent_status where
  "agent_status_default = \<lparr>ast_connected = False, ast_registrations = 0\<rparr>"

definition supervisor_new :: "reconnect_policy \<Rightarrow> rstring \<Rightarrow> agent_error + reconnect_policy" where
  "supervisor_new policy grant_audience =
     (if grant_audience = [] \<or> len grant_audience > AGENT_AUDIENCE_BYTES_MAX then Err AgInvalidGrantAudience
      else policy_validate policy)"

definition saturating_mul2 :: "nat \<Rightarrow> nat" where
  "saturating_mul2 d = min (d * 2) DURATION_MAX"

text \<open>
  One round of \<open>run\<close>: whether \<open>connect\<close> succeeded (the link is then served until it is lost).
  The status while the link is served, the status and the delay slept after it, the next delay.
\<close>

definition supervisor_round ::
  "reconnect_policy \<Rightarrow> bool \<Rightarrow> nat \<Rightarrow> agent_status \<Rightarrow> agent_status option \<times> agent_status \<times> nat \<times> nat" where
  "supervisor_round p registered delay st =
     (let serving = (if registered then
            Some (st\<lparr>ast_connected := True, ast_registrations := ast_registrations st + 1\<rparr>) else None);
          st1 = (case serving of None \<Rightarrow> st | Some s \<Rightarrow> s);
          delay1 = (if registered then rp_initial_delay p else delay)
      in (serving, st1\<lparr>ast_connected := False\<rparr>, delay1, min (saturating_mul2 delay1) (rp_maximum_delay p)))"

text \<open>The delays slept over a sequence of rounds, and the status after them.\<close>

fun supervisor_run :: "reconnect_policy \<Rightarrow> bool list \<Rightarrow> nat \<Rightarrow> agent_status \<Rightarrow> nat list \<times> agent_status" where
  "supervisor_run p [] delay st = ([], st)"
| "supervisor_run p (registered # rest) delay st =
     (case supervisor_round p registered delay st of
        (_, st', slept, delay') \<Rightarrow> apfst ((#) slept) (supervisor_run p rest delay' st'))"

section \<open>Registration\<close>

record connect_answers =
  cq_connect :: "agent_error + unit"
  cq_bi :: "rstring + unit"
  cq_write :: "bytes \<Rightarrow> rstring option"
  cq_recv :: recv_stream

record registered_link =
  rl_server_id :: bytes
  rl_max_frame_bytes :: u32
  rl_keepalive_interval_ms :: nat

definition register_envelope :: "registration_request \<Rightarrow> agent_envelope" where
  "register_envelope q =
     \<lparr>ae_request_id = 0, ae_server_id = id_to_wire (rr_server_id q), ae_shell_id = [],
      ae_message = Some (AgentRegister
        \<lparr>rg_protocol_major = PROTOCOL_MAJOR, rg_protocol_minor = PROTOCOL_MINOR,
         rg_server_id = id_to_wire (rr_server_id q), rg_agent_build = rr_agent_build q,
         rg_max_frame_bytes = rr_max_frame_bytes q\<rparr>)\<rparr>"

definition validate_registration :: "bytes \<Rightarrow> bytes \<Rightarrow> agent_registration \<Rightarrow> agent_error + unit" where
  "validate_registration expected_server_id envelope_server_id r =
     (if \<not> rn_accepted r then Err (AgRejected (rn_rejection_reason r))
      else
        (case wire_id (rn_server_id r) of
           None \<Rightarrow> Err AgUnexpectedResponse
         | Some returned \<Rightarrow>
             (case wire_id envelope_server_id of
                None \<Rightarrow> Err AgUnexpectedResponse
              | Some scoped \<Rightarrow>
                  if returned \<noteq> expected_server_id \<or> scoped \<noteq> expected_server_id
                     \<or> rn_max_frame_bytes r < AGENT_CONTROL_FRAME_BYTES_MIN
                     \<or> rn_max_frame_bytes r > AGENT_CONTROL_FRAME_BYTES_MAX
                     \<or> rn_keepalive_interval_ms r = 0
                  then Err AgUnexpectedResponse else Ok ())))"

definition agent_connect ::
  "agent_codec \<Rightarrow> connect_answers \<Rightarrow> registration_request \<Rightarrow> bytes \<times> recv_stream \<times> (agent_error + registered_link)" where
  "agent_connect C A q =
     (case cq_connect A of
        Inl e \<Rightarrow> ([], cq_recv A, Err e)
      | Inr _ \<Rightarrow>
          (case cq_bi A of
             Inl e \<Rightarrow> ([], cq_recv A, Err (AgConnection e))
           | Inr _ \<Rightarrow>
               (case write_envelope C (cq_write A) AGENT_CONTROL_FRAME_BYTES_MAX (register_envelope q) of
                  Inl e \<Rightarrow> ([], cq_recv A, Err (AgIo e))
                | Inr frame \<Rightarrow>
                    (case read_envelope C AGENT_CONTROL_FRAME_BYTES_MAX (cq_recv A) of
                       (r, Inl e) \<Rightarrow> (frame, r, Err (AgIo e))
                     | (r, Inr response) \<Rightarrow>
                         (frame, r,
                          case ae_message response of
                            Some (AgentRegistration registration) \<Rightarrow>
                              (case validate_registration (rr_server_id q) (ae_server_id response) registration of
                                 Inl e \<Rightarrow> Err e
                               | Inr _ \<Rightarrow>
                                   Ok \<lparr>rl_server_id = rr_server_id q,
                                       rl_max_frame_bytes = rn_max_frame_bytes registration,
                                       rl_keepalive_interval_ms = rn_keepalive_interval_ms registration\<rparr>)
                          | _ \<Rightarrow> Err AgUnexpectedResponse)))))"

definition agent_ping ::
  "agent_codec \<Rightarrow> (bytes \<Rightarrow> rstring option) \<Rightarrow> recv_stream \<Rightarrow> u64 \<Rightarrow> registered_link
     \<Rightarrow> bytes \<times> recv_stream \<times> (agent_error + unit)" where
  "agent_ping C write recv nonce l =
     (case write_envelope C write (rl_max_frame_bytes l)
             \<lparr>ae_request_id = 0, ae_server_id = id_to_wire (rl_server_id l), ae_shell_id = [],
              ae_message = Some (AgentPing nonce)\<rparr> of
        Inl e \<Rightarrow> ([], recv, Err (AgIo e))
      | Inr frame \<Rightarrow>
          (case read_envelope C (rl_max_frame_bytes l) recv of
             (r, Inl e) \<Rightarrow> (frame, r, Err (AgIo e))
           | (r, Inr response) \<Rightarrow>
               (frame, r, if ae_message response = Some (AgentPong nonce) then Ok () else Err AgUnexpectedResponse)))"

section \<open>Authorization\<close>

datatype open_validation_error = OvInvalid | OvUnauthenticated | OvForbidden

text \<open>The verifier's key with its package, the expected audience and the clock.\<close>

record ('sk, 'pk) grant_authority =
  ga_codec :: "('sk, 'pk) grant_codec"
  ga_verifying :: 'pk
  ga_audience :: rstring
  ga_now_ms :: int

fun grant_refusal :: "grant_error \<Rightarrow> open_validation_error" where
  "grant_refusal (WrongAudience _ _) = OvForbidden"
| "grant_refusal _ = OvUnauthenticated"

text \<open>What both validations share: the claims of a grant that names the user, the operation and the server.\<close>

definition verify_scope ::
  "('sk, 'pk) grant_authority \<Rightarrow> bytes \<Rightarrow> rstring \<Rightarrow> rstring \<Rightarrow> bytes \<Rightarrow> open_validation_error + grant_claims" where
  "verify_scope G server_id user op wire_grant =
     (case grant_from_wire wire_grant of
        Inl _ \<Rightarrow> Err OvUnauthenticated
      | Inr grant \<Rightarrow>
          (case grant_verify (ga_codec G) (ga_verifying G) grant (ga_audience G) (ga_now_ms G) of
             Inl e \<Rightarrow> Err (grant_refusal e)
           | Inr claims \<Rightarrow>
               if sub claims \<noteq> user \<or> \<not> permits claims op
                  \<or> \<not> list_ex (\<lambda>allowed. allowed = id_display server_prefix server_id) (servers claims)
               then Err OvForbidden else Ok claims))"

definition U16_MAX :: nat where "U16_MAX = 65535"

definition validate_open_request ::
  "('sk, 'pk) grant_authority \<Rightarrow> bytes \<Rightarrow> agent_open_shell \<Rightarrow> open_validation_error + open_shell_request" where
  "validate_open_request G server_id q =
     (if ao_user_id q = [] \<or> len (ao_user_id q) > AGENT_USER_ID_BYTES_MAX
         \<or> len (ao_unix_account q) > AGENT_UNIX_ACCOUNT_BYTES_MAX \<or> len (ao_command q) > AGENT_COMMAND_BYTES_MAX
         \<or> ao_connection_grant q = [] \<or> length (ao_connection_grant q) > AGENT_GRANT_BYTES_MAX
         \<or> length (ao_idempotency_key q) \<noteq> 16 \<or> ao_initial_cols q > U16_MAX \<or> ao_initial_rows q > U16_MAX
      then Err OvInvalid
      else
        (case verify_scope G server_id (ao_user_id q) (lit ''open'') (ao_connection_grant q) of
           Inl e \<Rightarrow> Err e
         | Inr claims \<Rightarrow>
             Ok \<lparr>rq_user = ao_user_id q,
                 rq_account = (if ao_unix_account q \<noteq> [] then Some (ao_unix_account q) else None),
                 rq_command = (if ao_command q \<noteq> [] then Some (ao_command q) else None), rq_args = [],
                 rq_cols = ao_initial_cols q, rq_rows = ao_initial_rows q,
                 rq_idempotency_key = ao_idempotency_key q\<rparr>))"

record attachment_authorization =
  au_user_id :: rstring
  au_cols :: nat
  au_rows :: nat
  au_expires_at_ms :: int

definition validate_attach_request ::
  "('sk, 'pk) grant_authority \<Rightarrow> bytes \<Rightarrow> agent_attach_shell \<Rightarrow> open_validation_error + attachment_authorization" where
  "validate_attach_request G server_id q =
     (if aa_user_id q = [] \<or> len (aa_user_id q) > AGENT_USER_ID_BYTES_MAX
         \<or> aa_connection_grant q = [] \<or> length (aa_connection_grant q) > AGENT_GRANT_BYTES_MAX
         \<or> aa_cols q > U16_MAX \<or> aa_rows q > U16_MAX
      then Err OvInvalid
      else
        (case verify_scope G server_id (aa_user_id q) (lit ''attach'') (aa_connection_grant q) of
           Inl e \<Rightarrow> Err e
         | Inr claims \<Rightarrow>
             Ok \<lparr>au_user_id = aa_user_id q, au_cols = aa_cols q, au_rows = aa_rows q,
                 au_expires_at_ms = exp_ms claims\<rparr>))"

fun map_open_validation_error :: "open_validation_error \<Rightarrow> error_code \<times> rstring" where
  "map_open_validation_error OvInvalid = (ErrUnknownMessage, lit ''invalid shell request'')"
| "map_open_validation_error OvUnauthenticated = (ErrUnauthenticated, lit ''invalid connection grant'')"
| "map_open_validation_error OvForbidden = (ErrForbidden, lit ''grant scope denied shell'')"

fun map_session_error :: "session_error \<Rightarrow> error_code \<times> rstring \<times> bool" where
  "map_session_error Forbidden = (ErrForbidden, lit ''local access policy denied shell'', False)"
| "map_session_error (LimitExceeded _) = (ErrLimitExceeded, lit ''local shell limit exceeded'', True)"
| "map_session_error (Pty _) = (ErrInternal, lit ''local PTY launch failed'', True)"
| "map_session_error (Internal _) = (ErrInternal, lit ''invalid shell request'', False)"
| "map_session_error _ = (ErrInternal, lit ''invalid shell state'', False)"

fun map_attachment_session_error :: "session_error \<Rightarrow> error_code \<times> rstring \<times> bool" where
  "map_attachment_session_error NotRunning = (ErrNotReady, lit ''shell is not running'', False)"
| "map_attachment_session_error (LimitExceeded _) = (ErrLimitExceeded, lit ''local attachment limit exceeded'', True)"
| "map_attachment_session_error (Pty _) = (ErrInternal, lit ''local PTY operation failed'', True)"
| "map_attachment_session_error (Internal _) = (ErrInternal, lit ''invalid shell state'', False)"
| "map_attachment_session_error _ = (ErrForbidden, lit ''shell attachment denied'', False)"

section \<open>The control stream\<close>

datatype agent_action =
    ActPing u64
  | ActShellOpened bytes bool
  | ActShellRejected error_code
  | ActUnknownRejected

text \<open>The packages of the session core, and what one turn asks of the outside.\<close>

record ('vt, 'sk, 'pk) agent_packages =
  gp_avt :: "'vt avt_ops"
  gp_sha256 :: "bytes \<Rightarrow> bytes"
  gp_codec :: agent_codec
  gp_grants :: "('sk, 'pk) grant_codec"
  gp_verifying :: 'pk
  gp_audience :: rstring

record agent_answers =
  gx_now_ms :: int
  gx_world :: launch_world
  gx_shell_id :: bytes
  gx_token :: bytes
  gx_resize :: "pty_error + unit"
  gx_input :: "pty_error + unit"
  gx_write :: "bytes \<Rightarrow> rstring option"
  gx_thread :: "rstring option"

definition authority :: "('vt, 'sk, 'pk) agent_packages \<Rightarrow> agent_answers \<Rightarrow> ('sk, 'pk) grant_authority" where
  "authority P X = \<lparr>ga_codec = gp_grants P, ga_verifying = gp_verifying P, ga_audience = gp_audience P,
                    ga_now_ms = gx_now_ms X\<rparr>"

definition control_envelope :: "registered_link \<Rightarrow> u64 \<Rightarrow> agent_msg \<Rightarrow> agent_envelope" where
  "control_envelope l request_id m =
     \<lparr>ae_request_id = request_id, ae_server_id = id_to_wire (rl_server_id l), ae_shell_id = [], ae_message = Some m\<rparr>"

definition control_error :: "registered_link \<Rightarrow> u64 \<Rightarrow> error_code \<Rightarrow> rstring \<Rightarrow> bool \<Rightarrow> agent_envelope" where
  "control_error l request_id code txt retryable =
     control_envelope l request_id (AgentError (error_code_i32 code) txt retryable)"

text \<open>Send one reply and finish with an action, or fail with the write.\<close>

definition reply_then ::
  "agent_codec \<Rightarrow> agent_answers \<Rightarrow> registered_link \<Rightarrow> agent_envelope \<Rightarrow> 'a \<Rightarrow> bytes \<times> (agent_error + 'a)" where
  "reply_then C X l env x =
     (case write_envelope C (gx_write X) (rl_max_frame_bytes l) env of
        Inl e \<Rightarrow> ([], Err (AgIo e)) | Inr frame \<Rightarrow> (frame, Ok x))"

text \<open>\<open>None\<close> is a panic of the session core. The manager, the bytes written, the result.\<close>

definition serve_open ::
  "('vt, 'sk, 'pk) agent_packages \<Rightarrow> agent_answers \<Rightarrow> registered_link \<Rightarrow> u64 \<Rightarrow> agent_open_shell \<Rightarrow> 'vt shell_manager
     \<Rightarrow> ('vt shell_manager \<times> bytes \<times> (agent_error + agent_action)) option" where
  "serve_open P X l request_id q m =
     (case validate_open_request (authority P X) (rl_server_id l) q of
        Inl e \<Rightarrow>
          (case map_open_validation_error e of
             (code, txt) \<Rightarrow>
               Some (m, reply_then (gp_codec P) X l (control_error l request_id code txt False) (ActShellRejected code)))
      | Inr req \<Rightarrow>
          (case open_shell (gp_avt P) (gp_sha256 P) (gx_world X) req (gx_shell_id X) (gx_token X) (gx_now_ms X) m of
             None \<Rightarrow> None
           | Some (m', Inr opened) \<Rightarrow>
               Some (m', reply_then (gp_codec P) X l
                 (control_envelope l request_id (AgentShellOpened (id_to_wire (os_shell_id opened)) (os_reused opened)))
                 (ActShellOpened (os_shell_id opened) (os_reused opened)))
           | Some (m', Inl e) \<Rightarrow>
               (case map_session_error e of
                  (code, txt, retryable) \<Rightarrow>
                    Some (m', reply_then (gp_codec P) X l (control_error l request_id code txt retryable)
                      (ActShellRejected code)))))"

definition serve_request ::
  "('vt, 'sk, 'pk) agent_packages \<Rightarrow> agent_answers \<Rightarrow> registered_link \<Rightarrow> agent_envelope \<Rightarrow> 'vt shell_manager
     \<Rightarrow> ('vt shell_manager \<times> bytes \<times> (agent_error + agent_action)) option" where
  "serve_request P X l request m =
     (case wire_id (ae_server_id request) of
        None \<Rightarrow> Some (m, [], Err AgServerIdentityMismatch)
      | Some scoped \<Rightarrow>
          if scoped \<noteq> rl_server_id l then
            Some (m, fst (reply_then (gp_codec P) X l
                            (control_error l (ae_request_id request) ErrForbidden (lit ''server identity mismatch'') False) ()),
                  Err AgServerIdentityMismatch)
          else
            (case ae_message request of
               Some (AgentPing nonce) \<Rightarrow>
                 Some (m, reply_then (gp_codec P) X l (control_envelope l (ae_request_id request) (AgentPong nonce))
                            (ActPing nonce))
             | Some (AgentOpenShell q) \<Rightarrow> serve_open P X l (ae_request_id request) q m
             | _ \<Rightarrow>
                 Some (m, reply_then (gp_codec P) X l
                            (control_error l (ae_request_id request) ErrUnknownMessage
                               (lit ''unexpected agent control message'') False) ActUnknownRejected)))"

definition serve_next ::
  "('vt, 'sk, 'pk) agent_packages \<Rightarrow> agent_answers \<Rightarrow> registered_link \<Rightarrow> recv_stream \<Rightarrow> 'vt shell_manager
     \<Rightarrow> ('vt shell_manager \<times> recv_stream \<times> bytes \<times> (agent_error + agent_action)) option" where
  "serve_next P X l recv m =
     (case read_envelope (gp_codec P) (rl_max_frame_bytes l) recv of
        (r, Inl e) \<Rightarrow> Some (m, r, [], Err (AgIo e))
      | (r, Inr request) \<Rightarrow>
          map_option (\<lambda>(m', out, res). (m', r, out, res)) (serve_request P X l request m))"


section \<open>Attachment streams\<close>

definition attachment_envelope :: "bytes \<Rightarrow> bytes \<Rightarrow> u64 \<Rightarrow> agent_msg \<Rightarrow> agent_envelope" where
  "attachment_envelope server_id shell_id request_id m =
     \<lparr>ae_request_id = request_id, ae_server_id = id_to_wire server_id, ae_shell_id = id_to_wire shell_id,
      ae_message = Some m\<rparr>"

definition attachment_scope :: "bytes \<Rightarrow> agent_envelope \<Rightarrow> agent_error + bytes" where
  "attachment_scope server_id envelope =
     (if wire_id (ae_server_id envelope) \<noteq> Some server_id then Err AgServerIdentityMismatch
      else (case wire_id (ae_shell_id envelope) of None \<Rightarrow> Err AgAttachmentIdentityMismatch | Some i \<Rightarrow> Ok i))"

definition send_attachment ::
  "agent_codec \<Rightarrow> agent_answers \<Rightarrow> agent_envelope \<Rightarrow> agent_error + bytes" where
  "send_attachment C X env =
     (case write_envelope C (gx_write X) AGENT_ATTACHMENT_FRAME_BYTES_MAX env of
        Inl e \<Rightarrow> Err (AgIo e) | Inr frame \<Rightarrow> Ok frame)"

definition attachment_error ::
  "bytes \<Rightarrow> bytes \<Rightarrow> u64 \<Rightarrow> error_code \<times> rstring \<times> bool \<Rightarrow> agent_envelope" where
  "attachment_error server_id shell_id request_id e =
     (case e of (code, txt, retryable) \<Rightarrow>
        attachment_envelope server_id shell_id request_id (AgentError (error_code_i32 code) txt retryable))"

text \<open>How a task goes on: it serves an attachment, or it has returned.\<close>

record attach_stream =
  st_shell_id :: bytes
  st_attachment_id :: nat
  st_user_id :: rstring
  st_expires_at_ms :: int

datatype attach_outcome = Serving attach_stream | Returned "agent_error + unit"

text \<open>Send an error and return: normally, or with the failure of the write.\<close>

definition refuse_attachment ::
  "agent_codec \<Rightarrow> agent_answers \<Rightarrow> agent_envelope \<Rightarrow> agent_error + unit \<Rightarrow> bytes \<times> attach_outcome" where
  "refuse_attachment C X env r =
     (case send_attachment C X env of Inl e \<Rightarrow> ([], Returned (Err e)) | Inr frame \<Rightarrow> (frame, Returned r))"

text \<open>
  Up to the loop. Every return after the attachment drops the lease, which detaches.
\<close>

definition attachment_start ::
  "('vt, 'sk, 'pk) agent_packages \<Rightarrow> agent_answers \<Rightarrow> bytes \<Rightarrow> recv_stream \<Rightarrow> 'vt shell_manager
     \<Rightarrow> 'vt shell_manager \<times> recv_stream \<times> bytes \<times> attach_outcome" where
  "attachment_start P X server_id recv m =
     (let C = gp_codec P in
      case read_envelope C AGENT_ATTACHMENT_FRAME_BYTES_MAX recv of
        (r, Inl e) \<Rightarrow> (m, r, [], Returned (Err (AgIo e)))
      | (r, Inr first) \<Rightarrow>
          (case attachment_scope server_id first of
             Inl e \<Rightarrow> (m, r, [], Returned (Err e))
           | Inr sid \<Rightarrow>
               (case ae_message first of
                  Some (AgentAttachShell request) \<Rightarrow>
                    (case validate_attach_request (authority P X) server_id request of
                       Inl e \<Rightarrow>
                         (case map_open_validation_error e of
                            (code, txt) \<Rightarrow>
                              (m, r, refuse_attachment C X
                                 (attachment_error server_id sid (ae_request_id first) (code, txt, False)) (Ok ())))
                     | Inr au \<Rightarrow>
                         (case attach_authorized (gp_avt P) (gp_sha256 P) (au_user_id au) sid (au_cols au) (au_rows au)
                                 (gx_token X) (gx_now_ms X) (gx_resize X) m of
                            (m', Inl e) \<Rightarrow>
                              (m', r, refuse_attachment C X
                                 (attachment_error server_id sid (ae_request_id first) (map_attachment_session_error e))
                                 (Ok ()))
                          | (m', Inr att) \<Rightarrow>
                              (let dropped = fst (detach sid (at_id att) m');
                                   attached = attachment_envelope server_id sid (ae_request_id first)
                                     (AgentShellAttached
                                        \<lparr>ad_screen_snapshot = at_snapshot att, ad_screen_revision = at_screen_revision att,
                                         ad_oldest_history_line_id = at_oldest_history_line_id att,
                                         ad_newest_history_line_id = at_newest_history_line_id att\<rparr>)
                               in
                               case send_attachment C X attached of
                                 Inl e \<Rightarrow> (dropped, r, [], Returned (Err e))
                               | Inr frame \<Rightarrow>
                                   (case gx_thread X of
                                      Some e \<Rightarrow> (dropped, r, frame, Returned (Err (AgAttachmentForwarder e)))
                                    | None \<Rightarrow>
                                        (m', r, frame,
                                         Serving \<lparr>st_shell_id = sid, st_attachment_id = at_id att,
                                                  st_user_id = au_user_id au, st_expires_at_ms = au_expires_at_ms au\<rparr>)))))
                | _ \<Rightarrow>
                    (m, r, refuse_attachment C X
                       (attachment_error server_id sid (ae_request_id first)
                          (ErrUnknownMessage, lit ''attachment stream must begin with attach'', False))
                       (Err AgUnexpectedAttachmentMessage)))))"

text \<open>One request of the gateway on a served attachment; \<open>None\<close> is a panic of the session core.\<close>

definition attachment_history ::
  "('vt, 'sk, 'pk) agent_packages \<Rightarrow> agent_answers \<Rightarrow> bytes \<Rightarrow> attach_stream \<Rightarrow> u64 \<Rightarrow> nat \<Rightarrow> nat \<Rightarrow> nat
     \<Rightarrow> 'vt shell_manager \<Rightarrow> (bytes \<times> attach_outcome) option" where
  "attachment_history P X server_id s request_id before_line_id maximum_lines maximum_bytes m =
     (let C = gp_codec P; sid = st_shell_id s in
      case history sid before_line_id (min maximum_lines AGENT_HISTORY_LINES_MAX)
             (min maximum_bytes (unat (AGENT_ATTACHMENT_FRAME_BYTES_MAX div 2))) m of
        None \<Rightarrow> None
      | Some (Inl e) \<Rightarrow>
          Some (case send_attachment C X (attachment_error server_id sid request_id (map_attachment_session_error e)) of
                  Inl e \<Rightarrow> ([], Returned (Err e)) | Inr frame \<Rightarrow> (frame, Serving s))
      | Some (Inr h) \<Rightarrow>
          Some (case send_attachment C X (attachment_envelope server_id sid request_id
                       (AgentHistoryChunk (first_line_id h) (range_lines h) (truncated_by_eviction h))) of
                  Inl e \<Rightarrow> ([], Returned (Err e))
                | Inr frame1 \<Rightarrow>
                    (case send_attachment C X (attachment_envelope server_id sid request_id
                            (AgentHistoryEnd (case history_bounds sid m of Inl _ \<Rightarrow> 0 | Inr (oldest, _) \<Rightarrow> oldest))) of
                       Inl e \<Rightarrow> (frame1, Returned (Err e))
                     | Inr frame2 \<Rightarrow> (frame1 @ frame2, Serving s))))"

definition attachment_request ::
  "('vt, 'sk, 'pk) agent_packages \<Rightarrow> agent_answers \<Rightarrow> bytes \<Rightarrow> attach_stream \<Rightarrow> agent_envelope \<Rightarrow> 'vt shell_manager
     \<Rightarrow> ('vt shell_manager \<times> bytes \<times> attach_outcome) option" where
  "attachment_request P X server_id s envelope m =
     (let C = gp_codec P; sid = st_shell_id s; rid = ae_request_id envelope;
          refuse = (\<lambda>e. refuse_attachment C X (attachment_error server_id sid rid e) (Ok ())) in
      case attachment_scope server_id envelope of
        Inl e \<Rightarrow> Some (m, [], Returned (Err e))
      | Inr scoped \<Rightarrow>
          if scoped \<noteq> sid then Some (m, [], Returned (Err AgAttachmentIdentityMismatch))
          else
            (case ae_message envelope of
               Some (AgentInput data) \<Rightarrow>
                 if length data > AGENT_TERMINAL_INPUT_BYTES_MAX
                 then Some (m, refuse (ErrInputOverflow, lit ''terminal input frame too large'', False))
                 else
                   (case write_input sid data (gx_input X) m of
                      (m', Inl e) \<Rightarrow> Some (m', refuse (map_attachment_session_error e))
                    | (m', Inr _) \<Rightarrow> Some (m', [], Serving s))
             | Some (AgentResize cols rows) \<Rightarrow>
                 if cols > U16_MAX \<or> rows > U16_MAX
                 then Some (m, refuse (ErrUnknownMessage, lit ''invalid terminal dimensions'', False))
                 else
                   (case resize (gp_avt P) sid cols rows (gx_resize X) m of
                      (m', Inl e) \<Rightarrow> Some (m', refuse (map_attachment_session_error e))
                    | (m', Inr _) \<Rightarrow> Some (m', [], Serving s))
             | Some (AgentRequestHistory before_line_id maximum_lines maximum_bytes) \<Rightarrow>
                 map_option (\<lambda>x. (m, x))
                   (attachment_history P X server_id s rid before_line_id maximum_lines maximum_bytes m)
             | Some AgentDetach \<Rightarrow> Some (m, [], Returned (Ok ()))
             | _ \<Rightarrow> Some (m, refuse (ErrUnknownMessage, lit ''unexpected attachment message'', False))))"

text \<open>What the output thread delivers, or that it has ended.\<close>

definition attachment_event ::
  "agent_codec \<Rightarrow> agent_answers \<Rightarrow> bytes \<Rightarrow> attach_stream \<Rightarrow> attachment_event option \<Rightarrow> bytes \<times> attach_outcome" where
  "attachment_event C X server_id s ev =
     (let sid = st_shell_id s in
      case ev of
        Some (Output data) \<Rightarrow>
          if length data > AGENT_TERMINAL_OUTPUT_BYTES_MAX
          then ([], Returned (Err (AgOversizedTerminalOutput (length data))))
          else
            (case send_attachment C X (attachment_envelope server_id sid 0 (AgentOutput data)) of
               Inl e \<Rightarrow> ([], Returned (Err e)) | Inr frame \<Rightarrow> (frame, Serving s))
      | Some (ExitedEvent x) \<Rightarrow>
          refuse_attachment C X
            (attachment_envelope server_id sid 0
               (AgentExited (sint (exit_code x)) (\<not> success x \<and> exit_code x = 0) [])) (Ok ())
      | None \<Rightarrow>
          refuse_attachment C X
            (attachment_error server_id sid 0 (ErrTooSlow, lit ''attachment output queue exceeded'', True)) (Ok ()))"

text \<open>
  One turn of the loop. The other two branches of the \<open>select!\<close> drop a read that has already
  taken \<open>lost\<close> bytes off the stream. Returning drops the lease.
\<close>

datatype attach_input =
    InFrame
  | InEvent "attachment_event option" nat
  | InExpired nat

definition lose :: "nat \<Rightarrow> recv_stream \<Rightarrow> recv_stream" where
  "lose n r = r\<lparr>rs_bytes := drop n (rs_bytes r)\<rparr>"

definition lease_end :: "attach_stream \<Rightarrow> attach_outcome \<Rightarrow> 'vt shell_manager \<Rightarrow> 'vt shell_manager" where
  "lease_end s out m =
     (case out of Serving _ \<Rightarrow> m | Returned _ \<Rightarrow> fst (detach (st_shell_id s) (st_attachment_id s) m))"

definition attachment_turn ::
  "('vt, 'sk, 'pk) agent_packages \<Rightarrow> agent_answers \<Rightarrow> bytes \<Rightarrow> attach_input \<Rightarrow> attach_stream \<Rightarrow> recv_stream
     \<Rightarrow> 'vt shell_manager \<Rightarrow> ('vt shell_manager \<times> recv_stream \<times> bytes \<times> attach_outcome) option" where
  "attachment_turn P X server_id i s recv m =
     (case i of
        InFrame \<Rightarrow>
          (case read_envelope (gp_codec P) AGENT_ATTACHMENT_FRAME_BYTES_MAX recv of
             (r, Inl e) \<Rightarrow> Some (lease_end s (Returned (Err (AgIo e))) m, r, [], Returned (Err (AgIo e)))
           | (r, Inr envelope) \<Rightarrow>
               map_option (\<lambda>(m', frame, out). (lease_end s out m', r, frame, out))
                 (attachment_request P X server_id s envelope m))
      | InEvent ev lost \<Rightarrow>
          (case attachment_event (gp_codec P) X server_id s ev of
             (frame, out) \<Rightarrow> Some (lease_end s out m, lose lost recv, frame, out))
      | InExpired lost \<Rightarrow>
          (case refuse_attachment (gp_codec P) X
                  (attachment_error server_id (st_shell_id s) 0 (ErrTokenExpired, lit ''connection grant expired'', True))
                  (Ok ()) of
             (frame, out) \<Rightarrow> Some (lease_end s out m, lose lost recv, frame, out)))"

section \<open>The link\<close>

datatype attach_task = TaskFresh recv_stream | TaskServing attach_stream recv_stream | TaskReturned

record 'vt agent_state =
  ag_link :: registered_link
  ag_manager :: "'vt shell_manager"
  ag_recv :: recv_stream
  ag_tasks :: "(nat \<times> attach_task) list"

text \<open>\<open>serve\<close> returning drops the tasks, and each drops its lease.\<close>

fun task_drop :: "attach_task \<Rightarrow> 'vt shell_manager \<Rightarrow> 'vt shell_manager" where
  "task_drop (TaskServing s _) m = fst (detach (st_shell_id s) (st_attachment_id s) m)"
| "task_drop _ m = m"

definition link_lost :: "'vt agent_state \<Rightarrow> 'vt agent_state" where
  "link_lost s = s\<lparr>ag_manager := foldl (\<lambda>m (_, t). task_drop t m) (ag_manager s) (ag_tasks s), ag_tasks := []\<rparr>"

text \<open>A read still waits for bytes: dropping it is possible only then.\<close>

definition read_waits :: "agent_codec \<Rightarrow> u32 \<Rightarrow> nat \<Rightarrow> recv_stream \<Rightarrow> bool" where
  "read_waits C maximum lost r \<longleftrightarrow>
     lost \<le> length (rs_bytes r)
     \<and> (case snd (read_envelope C maximum (r\<lparr>rs_bytes := take lost (rs_bytes r)\<rparr>)) of Inl (IoRead _) \<Rightarrow> True | _ \<Rightarrow> False)"

text \<open>
  The steps of \<open>serve\<close> with everything that runs beside it: a control request, one that ends the link,
  a control read that loses the race, a new stream, the first and the following turns of a task, a task joined, the
  loss and the renewal of the link, and any other step of the session core. Nothing in the daemon
  removes exited shells, so \<open>EvRemove\<close> is not among those.
\<close>

datatype agent_label =
    LbControl agent_answers
  | LbFailed agent_answers
  | LbCancelled nat
  | LbIncoming nat recv_stream
  | LbStart nat agent_answers
  | LbTurn nat agent_answers attach_input
  | LbJoined nat
  | LbLost
  | LbRegistered registered_link recv_stream
  | LbElsewhere session_event

definition task_of :: "recv_stream \<Rightarrow> attach_outcome \<Rightarrow> attach_task" where
  "task_of r out = (case out of Serving s \<Rightarrow> TaskServing s r | Returned _ \<Rightarrow> TaskReturned)"

fun input_possible :: "agent_codec \<Rightarrow> recv_stream \<Rightarrow> attach_input \<Rightarrow> bool" where
  "input_possible C r InFrame \<longleftrightarrow> True"
| "input_possible C r (InEvent ev lost) \<longleftrightarrow> read_waits C AGENT_ATTACHMENT_FRAME_BYTES_MAX lost r"
| "input_possible C r (InExpired lost) \<longleftrightarrow> read_waits C AGENT_ATTACHMENT_FRAME_BYTES_MAX lost r"

inductive agent_step ::
  "('vt, 'sk, 'pk) agent_packages \<Rightarrow> 'vt agent_state \<Rightarrow> agent_label \<Rightarrow> 'vt agent_state \<Rightarrow> bool" for P where
  control: "gx_shell_id X \<notin> set (keys (sm_shells (ag_manager s))) \<Longrightarrow>
    serve_next P X (ag_link s) (ag_recv s) (ag_manager s) = Some (m, r, out, Ok act) \<Longrightarrow>
    agent_step P s (LbControl X) (s\<lparr>ag_manager := m, ag_recv := r\<rparr>)"
| control_failed: "gx_shell_id X \<notin> set (keys (sm_shells (ag_manager s))) \<Longrightarrow>
    serve_next P X (ag_link s) (ag_recv s) (ag_manager s) = Some (m, r, out, Err e) \<Longrightarrow>
    agent_step P s (LbFailed X) (link_lost (s\<lparr>ag_manager := m, ag_recv := r\<rparr>))"
| cancelled: "read_waits (gp_codec P) (rl_max_frame_bytes (ag_link s)) n (ag_recv s) \<Longrightarrow>
    agent_step P s (LbCancelled n) (s\<lparr>ag_recv := lose n (ag_recv s)\<rparr>)"
| incoming: "length (ag_tasks s) < AGENT_ATTACHMENT_STREAMS_MAX \<Longrightarrow> k \<notin> set (keys (ag_tasks s)) \<Longrightarrow>
    agent_step P s (LbIncoming k r) (s\<lparr>ag_tasks := assoc_put k (TaskFresh r) (ag_tasks s)\<rparr>)"
| start: "map_of (ag_tasks s) k = Some (TaskFresh r) \<Longrightarrow>
    attachment_start P X (rl_server_id (ag_link s)) r (ag_manager s) = (m, r', out, oc) \<Longrightarrow>
    agent_step P s (LbStart k X) (s\<lparr>ag_manager := m, ag_tasks := assoc_upd k (\<lambda>_. task_of r' oc) (ag_tasks s)\<rparr>)"
| turn: "map_of (ag_tasks s) k = Some (TaskServing st r) \<Longrightarrow> input_possible (gp_codec P) r i \<Longrightarrow>
    attachment_turn P X (rl_server_id (ag_link s)) i st r (ag_manager s) = Some (m, r', out, oc) \<Longrightarrow>
    agent_step P s (LbTurn k X i) (s\<lparr>ag_manager := m, ag_tasks := assoc_upd k (\<lambda>_. task_of r' oc) (ag_tasks s)\<rparr>)"
| joined: "map_of (ag_tasks s) k = Some TaskReturned \<Longrightarrow>
    agent_step P s (LbJoined k) (s\<lparr>ag_tasks := assoc_del k (ag_tasks s)\<rparr>)"
| lost: "agent_step P s LbLost (link_lost s)"
| registered: "ag_tasks s = [] \<Longrightarrow> agent_step P s (LbRegistered l r) (s\<lparr>ag_link := l, ag_recv := r\<rparr>)"
| elsewhere: "(\<And>sid. ev \<noteq> EvRemove sid) \<Longrightarrow>
    agent_step P s (LbElsewhere ev) (s\<lparr>ag_manager := session_step (gp_avt P) (gp_sha256 P) (ag_manager s) ev\<rparr>)"

inductive agent_reach :: "('vt, 'sk, 'pk) agent_packages \<Rightarrow> 'vt agent_state \<Rightarrow> bool" for P where
  booted: "agent_reach P \<lparr>ag_link = l, ag_manager = manager_with_policy config policy, ag_recv = r, ag_tasks = []\<rparr>"
| stepped: "agent_reach P s \<Longrightarrow> agent_step P s lb s' \<Longrightarrow> agent_reach P s'"

end
