(* ===== verification/Agent_Props.thy ===== *)
theory Agent_Props
  imports Agent
begin

text \<open>
  What the overlay agent guarantees whatever the gateway sends: it changes the shells only through
  operations of the session core, only for users with a valid grant for this server, never
  panics, and gives every attachment back.
\<close>

section \<open>Only session steps\<close>

fun not_remove :: "session_event \<Rightarrow> bool" where
  "not_remove (EvRemove _) = False"
| "not_remove _ = True"

definition by_session :: "('vt, 'sk, 'pk) agent_packages \<Rightarrow> 'vt shell_manager \<Rightarrow> 'vt shell_manager \<Rightarrow> bool" where
  "by_session P m m' \<longleftrightarrow>
     (\<exists>evs. list_all not_remove evs \<and> m' = foldl (session_step (gp_avt P) (gp_sha256 P)) m evs)"

lemma by_session_refl [simp]: "by_session P m m"
  unfolding by_session_def by (rule exI [of _ "[]"]) simp

lemma by_session_trans: "by_session P a b \<Longrightarrow> by_session P b c \<Longrightarrow> by_session P a c"
  unfolding by_session_def by (metis foldl_append list_all_append)

lemma by_session_step: "not_remove ev \<Longrightarrow> by_session P m (session_step (gp_avt P) (gp_sha256 P) m ev)"
  unfolding by_session_def by (rule exI [of _ "[ev]"]) simp

lemma by_session_exec:
  assumes "session_exec (gp_avt P) (gp_sha256 P) m ev = Some m'" and "enabled m ev" and "not_remove ev"
  shows "by_session P m m'"
  using by_session_step [OF assms(3), of P m] assms(1,2) by (simp add: session_step_def)

lemma by_session_ops:
  "by_session P m (fst (attach_authorized (gp_avt P) (gp_sha256 P) owner sid cols rows fresh now res m))"
  "by_session P m (fst (detach sid aid m))"
  "by_session P m (fst (write_input sid data res m))"
  "by_session P m (fst (resize (gp_avt P) sid cols rows res m))"
  using by_session_exec [of P m "EvAttachAuthorized owner sid cols rows fresh now res"]
    by_session_exec [of P m "EvDetach sid aid"] by_session_exec [of P m "EvWrite sid data res"]
    by_session_exec [of P m "EvResize sid cols rows res"]
  by simp_all

lemma by_session_open:
  assumes "open_shell (gp_avt P) (gp_sha256 P) w req sid token now m = Some (m', r)" and "sid \<notin> set (keys (sm_shells m))"
  shows "by_session P m m'"
  using assms by (intro by_session_exec [of _ _ "EvOpen w req sid token now"]) simp_all

lemma by_session_inv: "by_session P m m' \<Longrightarrow> sm_inv m \<Longrightarrow> sm_inv m'"
  unfolding by_session_def using session.run_inv by blast

lemma by_session_owner:
  assumes "by_session P m m'" and "sm_inv m" and "owner_of sid m = Some u"
  shows "owner_of sid m' = Some u"
proof -
  obtain evs where "list_all not_remove evs" and m': "m' = foldl (session_step (gp_avt P) (gp_sha256 P)) m evs"
    using assms(1) by (auto simp: by_session_def)
  then have "list_all (\<lambda>ev. ev \<noteq> EvRemove sid) evs" by (auto simp: list_all_iff)
  then show ?thesis using owner_of_run assms(2,3) m' by blast
qed

text \<open>An attachment of a shell, and one that is gone for good.\<close>

definition attached :: "bytes \<Rightarrow> nat \<Rightarrow> 'vt shell_manager \<Rightarrow> bool" where
  "attached sid aid m \<longleftrightarrow>
     (case map_of (sm_shells m) sid of None \<Rightarrow> False | Some e \<Rightarrow> aid \<in> set (keys (rt_attachments (se_runtime e))))"

definition released :: "bytes \<Rightarrow> nat \<Rightarrow> 'vt shell_manager \<Rightarrow> bool" where
  "released sid aid m \<longleftrightarrow>
     (\<exists>e. map_of (sm_shells m) sid = Some e \<and> aid < rt_next_attachment_id (se_runtime e) \<and> att_log aid (se_runtime e) = None)"

lemma att_log_None: "att_log aid rt = None \<longleftrightarrow> aid \<notin> set (keys (rt_attachments rt))"
  by (simp add: att_log_def map_of_None_keys)

lemma released_not_attached: "released sid aid m \<Longrightarrow> \<not> attached sid aid m"
  by (auto simp: released_def attached_def att_log_None)

lemma by_session_released:
  assumes "by_session P m m'" and "sm_inv m" and "released sid aid m"
  shows "released sid aid m'"
proof -
  obtain evs where evs: "list_all not_remove evs" and m': "m' = foldl (session_step (gp_avt P) (gp_sha256 P)) m evs"
    using assms(1) by (auto simp: by_session_def)
  have "\<forall>ev \<in> set evs. ev \<noteq> EvRemove sid" using evs by (auto simp: list_all_iff)
  note kept = log_kept_run [OF assms(2) this, of aid "gp_avt P" "gp_sha256 P", folded m']
  obtain e where e: "map_of (sm_shells m) sid = Some e" "aid < rt_next_attachment_id (se_runtime e)" "att_log aid (se_runtime e) = None"
    using assms(3) by (auto simp: released_def)
  then show ?thesis using kept by (auto simp: released_def log_kept_def log_step_def)
qed

lemma next_id_kept:
  assumes "by_session P m m'" and "sm_inv m" and "map_of (sm_shells m) sid = Some e" and "map_of (sm_shells m') sid = Some e'"
  shows "rt_next_attachment_id (se_runtime e) \<le> rt_next_attachment_id (se_runtime e')"
proof -
  obtain evs where evs: "list_all not_remove evs" and m': "m' = foldl (session_step (gp_avt P) (gp_sha256 P)) m evs"
    using assms(1) by (auto simp: by_session_def)
  have "\<forall>ev \<in> set evs. ev \<noteq> EvRemove sid" using evs by (auto simp: list_all_iff)
  from log_kept_run [OF assms(2) this, of 0 "gp_avt P" "gp_sha256 P", folded m'] show ?thesis
    using assms(3,4) by (auto simp: log_kept_def log_step_def)
qed

lemma detach_released:
  assumes "sm_inv m" and "map_of (sm_shells m) sid = Some e" and "aid < rt_next_attachment_id (se_runtime e)"
  shows "released sid aid (fst (detach sid aid m))"
  using assms(2,3)
  by (auto simp: detach_def released_def lookup_set_runtime drop_sender_def att_log_def split: option.splits)


section \<open>What the operations do\<close>

text \<open>A user a grant was issued to, for an operation on this server.\<close>

definition granted_to :: "('sk, 'pk) grant_authority \<Rightarrow> bytes \<Rightarrow> rstring \<Rightarrow> rstring \<Rightarrow> bool" where
  "granted_to G server_id op u \<longleftrightarrow>
     (\<exists>wire grant claims. grant_from_wire wire = Ok grant
        \<and> grant_verify (ga_codec G) (ga_verifying G) grant (ga_audience G) (ga_now_ms G) = Ok claims
        \<and> sub claims = u \<and> permits claims op \<and> id_display server_prefix server_id \<in> set (servers claims))"

lemma verify_scope_granted: "verify_scope G server_id u op w = Ok claims \<Longrightarrow> granted_to G server_id op u"
  by (auto simp: verify_scope_def granted_to_def list_ex_iff split: sum.splits if_splits)

lemma validate_open_granted:
  "validate_open_request G server_id q = Ok req \<Longrightarrow> granted_to G server_id (lit ''open'') (rq_user req)"
  by (auto simp: validate_open_request_def intro: verify_scope_granted split: if_splits sum.splits)

lemma validate_attach_granted:
  "validate_attach_request G server_id q = Ok au \<Longrightarrow> granted_to G server_id (lit ''attach'') (au_user_id au)"
  by (auto simp: validate_attach_request_def intro: verify_scope_granted split: if_splits sum.splits)

text \<open>An operation that keeps to the session core and to the shells of \<open>U\<close>.\<close>

definition keeps_to :: "('vt, 'sk, 'pk) agent_packages \<Rightarrow> rstring set \<Rightarrow> 'vt shell_manager \<Rightarrow> 'vt shell_manager \<Rightarrow> bool" where
  "keeps_to P U m m' \<longleftrightarrow> by_session P m m' \<and> foreign U m' = foreign U m"

lemma keeps_to_refl [simp]: "keeps_to P U m m"
  by (simp add: keeps_to_def)

lemma keeps_to_trans: "keeps_to P U a b \<Longrightarrow> keeps_to P U b c \<Longrightarrow> keeps_to P U a c"
  by (auto simp: keeps_to_def intro: by_session_trans)

lemma open_shell_total:
  assumes "sm_inv m" and "sid \<notin> set (keys (sm_shells m))"
  shows "open_shell A sha256 w req sid token now m \<noteq> None"
  using session_exec_inv [OF assms(1), of "EvOpen w req sid token now" A sha256] assms(2) by auto

abbreviation openers :: "('vt, 'sk, 'pk) agent_packages \<Rightarrow> agent_answers \<Rightarrow> registered_link \<Rightarrow> rstring set" where
  "openers P X l \<equiv> {u. granted_to (authority P X) (rl_server_id l) (lit ''open'') u}"

lemma serve_open_keeps:
  assumes "sm_inv m" and "gx_shell_id X \<notin> set (keys (sm_shells m))"
  shows "\<exists>m' out res. serve_open P X l rid q m = Some (m', out, res) \<and> keeps_to P (openers P X l) m m'"
proof (cases "validate_open_request (authority P X) (rl_server_id l) q")
  case (Inl e)
  then show ?thesis by (simp add: serve_open_def split: prod.split)
next
  case (Inr req)
  obtain m' r where o: "open_shell (gp_avt P) (gp_sha256 P) (gx_world X) req (gx_shell_id X) (gx_token X) (gx_now_ms X) m = Some (m', r)"
    using open_shell_total [OF assms] by fastforce
  have "rq_user req \<in> openers P X l" using validate_open_granted [OF Inr] by simp
  then have "keeps_to P (openers P X l) m m'"
    unfolding keeps_to_def
    using by_session_open [OF o assms(2)] foreign_open_shell [OF assms _ o] by blast
  then show ?thesis using Inr o by (cases r) (auto simp: serve_open_def split: prod.split)
qed

lemma serve_next_keeps:
  assumes "sm_inv m" and "gx_shell_id X \<notin> set (keys (sm_shells m))"
  shows "\<exists>m' r out res. serve_next P X l recv m = Some (m', r, out, res) \<and> keeps_to P (openers P X l) m m'"
proof -
  obtain r res where rd: "read_envelope (gp_codec P) (rl_max_frame_bytes l) recv = (r, res)" by fastforce
  show ?thesis
  proof (cases res)
    case (Inl e)
    then show ?thesis using rd by (simp add: serve_next_def)
  next
    case (Inr req)
    have "\<exists>m' out res. serve_request P X l req m = Some (m', out, res) \<and> keeps_to P (openers P X l) m m'"
      using serve_open_keeps [OF assms, of P l "ae_request_id req"]
      by (auto simp: serve_request_def split: option.split agent_msg.split)
    then show ?thesis using rd Inr by (auto simp: serve_next_def)
  qed
qed

text \<open>A served attachment belongs to a shell of its user.\<close>

fun task_ok :: "'vt shell_manager \<Rightarrow> attach_task \<Rightarrow> bool" where
  "task_ok m (TaskServing st _) \<longleftrightarrow>
     (\<exists>e. map_of (sm_shells m) (st_shell_id st) = Some e \<and> se_owner e = st_user_id st
        \<and> st_attachment_id st < rt_next_attachment_id (se_runtime e))"
| "task_ok m _ \<longleftrightarrow> True"

abbreviation attachers :: "('vt, 'sk, 'pk) agent_packages \<Rightarrow> agent_answers \<Rightarrow> bytes \<Rightarrow> rstring set" where
  "attachers P X server_id \<equiv> {u. granted_to (authority P X) server_id (lit ''attach'') u}"

lemma attach_authorized_Ok:
  assumes "attach_authorized A sha256 u sid cols rows fresh now res m = (m', Ok att)"
  shows "\<exists>e. map_of (sm_shells m') sid = Some e \<and> se_owner e = u \<and> at_id att < rt_next_attachment_id (se_runtime e)"
  using assms
  by (auto simp: attach_authorized_def attach_runtime_def lookup_set_runtime Let_def split: option.splits if_splits prod.splits)

lemma detach_keeps:
  assumes "owner_of sid m = Some u" and "u \<in> U"
  shows "keeps_to P U m (fst (detach sid aid m))"
  unfolding keeps_to_def using by_session_ops(2) foreign_bound_ops(1) [OF owner_of_foreign [OF assms]] by blast

lemma attachment_start_keeps:
  assumes "sm_inv m" and "attachment_start P X server_id recv m = (m', r, out, oc)"
  shows "keeps_to P (attachers P X server_id) m m' \<and> task_ok m' (task_of r oc)"
proof -
  let ?U = "attachers P X server_id"
  have att: "keeps_to P ?U m m1 \<and> (\<forall>a. x = Ok a \<longrightarrow> keeps_to P ?U m (fst (detach sid (at_id a) m1)))"
    if "validate_attach_request (authority P X) server_id q = Ok au"
      "attach_authorized (gp_avt P) (gp_sha256 P) (au_user_id au) sid (au_cols au) (au_rows au) (gx_token X) (gx_now_ms X)
         (gx_resize X) m = (m1, x)" for q au sid m1 x
  proof -
    have u: "au_user_id au \<in> ?U" using validate_attach_granted [OF that(1)] by simp
    have k: "keeps_to P ?U m m1"
      unfolding keeps_to_def
      using by_session_ops(1) [of P m "au_user_id au" sid "au_cols au" "au_rows au" "gx_token X" "gx_now_ms X" "gx_resize X"]
        foreign_attach_authorized [OF u, of "gp_avt P" "gp_sha256 P" sid "au_cols au" "au_rows au" "gx_token X" "gx_now_ms X" "gx_resize X" m]
        that(2) by simp
    have "keeps_to P ?U m1 (fst (detach sid (at_id a) m1))" if "x = Ok a" for a
    proof -
      have "owner_of sid m1 = Some (au_user_id au)"
        using attach_authorized_Ok [OF \<open>attach_authorized _ _ _ _ _ _ _ _ _ _ = _\<close> [unfolded that]] by (auto simp: owner_of_def)
      then show ?thesis using detach_keeps u by blast
    qed
    then show ?thesis using k keeps_to_trans by blast
  qed
  show ?thesis
    using assms(2) att
    by (auto simp: attachment_start_def Let_def refuse_attachment_def task_of_def dest: attach_authorized_Ok
        split: prod.splits sum.splits option.splits agent_msg.splits)
qed


lemma task_okD: "task_ok m (TaskServing st r) \<Longrightarrow> owner_of (st_shell_id st) m = Some (st_user_id st)"
  by (auto simp: owner_of_def)

lemma attachment_request_keeps:
  assumes "sm_inv m" and "owner_of (st_shell_id st) m = Some (st_user_id st)"
  shows "\<exists>m' frame oc. attachment_request P X server_id st envelope m = Some (m', frame, oc)
      \<and> keeps_to P {st_user_id st} m m' \<and> (\<forall>st'. oc = Serving st' \<longrightarrow> st' = st)"
proof -
  let ?sid = "st_shell_id st"
  note own = owner_of_foreign [OF assms(2), of "{st_user_id st}", simplified]
  have k: "keeps_to P {st_user_id st} m (fst (write_input ?sid data res m))"
    "keeps_to P {st_user_id st} m (fst (resize (gp_avt P) ?sid c r res m))" for data res c r
    unfolding keeps_to_def using by_session_ops(3,4) foreign_bound_ops(2,3) [OF own] by blast+
  have w: "keeps_to P {st_user_id st} m m1" if "write_input ?sid data res m = (m1, x)" for data res m1 x
    using k(1) [of data res] that by simp
  have z: "keeps_to P {st_user_id st} m m1" if "resize (gp_avt P) ?sid c r res m = (m1, x)" for c r res m1 x
    using k(2) [of c r res] that by simp
  have h: "\<exists>x. attachment_history P X server_id st rid b ml mb m = Some x \<and> (\<forall>st'. snd x = Serving st' \<longrightarrow> st' = st)" for rid b ml mb
  proof -
    have "min ml AGENT_HISTORY_LINES_MAX < 2 ^ 32" by (simp add: AGENT_HISTORY_LINES_MAX_def min_less_iff_disj)
    from history_total [OF assms(1) this, of ?sid b "min mb (unat (AGENT_ATTACHMENT_FRAME_BYTES_MAX div 2))"]
    obtain y where "history ?sid b (min ml AGENT_HISTORY_LINES_MAX) (min mb (unat (AGENT_ATTACHMENT_FRAME_BYTES_MAX div 2))) m = Some y"
      by auto
    then show ?thesis by (cases y) (auto simp: attachment_history_def Let_def split: sum.split)
  qed
  show ?thesis
    using h w z
    by (auto simp: attachment_request_def Let_def refuse_attachment_def split: sum.split option.split agent_msg.split prod.split)
qed


lemma lease_end_keeps:
  assumes "sm_inv m" and "owner_of (st_shell_id st) m = Some (st_user_id st)"
  shows "keeps_to P {st_user_id st} m (lease_end st oc m)"
  using detach_keeps [OF assms(2), of "{st_user_id st}" P "st_attachment_id st"]
  by (simp add: lease_end_def split: attach_outcome.split)

lemma attachment_turn_keeps:
  assumes "sm_inv m" and "task_ok m (TaskServing st r)"
  shows "\<exists>m' r' out oc. attachment_turn P X server_id i st r m = Some (m', r', out, oc)
      \<and> keeps_to P {st_user_id st} m m' \<and> (\<forall>st'. oc = Serving st' \<longrightarrow> st' = st)
      \<and> (case oc of Serving _ \<Rightarrow> True | Returned _ \<Rightarrow> released (st_shell_id st) (st_attachment_id st) m')"
proof -
  let ?K = "keeps_to P {st_user_id st}" and ?sid = "st_shell_id st" and ?aid = "st_attachment_id st"
  note own = task_okD [OF assms(2)]
  have after: "?K m (lease_end st oc m1) \<and> (case oc of Serving _ \<Rightarrow> True | Returned _ \<Rightarrow> released ?sid ?aid (lease_end st oc m1))"
    if k: "?K m m1" for m1 oc
  proof -
    have bs: "by_session P m m1" using k by (simp add: keeps_to_def)
    note inv = by_session_inv [OF bs assms(1)] and own1 = by_session_owner [OF bs assms(1) own]
    obtain e1 where e1: "map_of (sm_shells m1) ?sid = Some e1" using own1 by (auto simp: owner_of_def)
    obtain e where e: "map_of (sm_shells m) ?sid = Some e" "?aid < rt_next_attachment_id (se_runtime e)" using assms(2) by auto
    have "?aid < rt_next_attachment_id (se_runtime e1)" using next_id_kept [OF bs assms(1) e(1) e1] e(2) by simp
    then show ?thesis
      using keeps_to_trans [OF k lease_end_keeps [OF inv own1]] detach_released [OF inv e1]
      by (auto simp: lease_end_def split: attach_outcome.split)
  qed
  show ?thesis
  proof (cases i)
    case InFrame
    obtain r' res where rd: "read_envelope (gp_codec P) AGENT_ATTACHMENT_FRAME_BYTES_MAX r = (r', res)" by fastforce
    show ?thesis
    proof (cases res)
      case (Inl e)
      then show ?thesis using InFrame rd after [OF keeps_to_refl, of "Returned (Err (AgIo e))"] by (auto simp: attachment_turn_def)
    next
      case (Inr env)
      then show ?thesis
        using attachment_request_keeps [OF assms(1) own, of P X server_id env] after InFrame rd
        by (fastforce simp: attachment_turn_def)
    qed
  next
    case (InEvent ev lost)
    have "\<forall>st'. snd (attachment_event (gp_codec P) X server_id st ev) = Serving st' \<longrightarrow> st' = st"
      by (auto simp: attachment_event_def Let_def refuse_attachment_def split: option.split attachment_event.split sum.split)
    then show ?thesis using InEvent after [OF keeps_to_refl] by (auto simp: attachment_turn_def split: prod.split)
  next
    case (InExpired lost)
    then show ?thesis using after [OF keeps_to_refl]
      by (auto simp: attachment_turn_def refuse_attachment_def split: prod.split sum.split)
  qed
qed


section \<open>The invariant of the agent\<close>

definition agent_inv :: "'vt agent_state \<Rightarrow> bool" where
  "agent_inv s \<longleftrightarrow>
     sm_inv (ag_manager s) \<and> length (ag_tasks s) \<le> AGENT_ATTACHMENT_STREAMS_MAX \<and> distinct (keys (ag_tasks s))
     \<and> list_all (\<lambda>(k, t). task_ok (ag_manager s) t) (ag_tasks s)"

lemma task_ok_kept:
  assumes "by_session P m m'" and "sm_inv m" and "task_ok m t"
  shows "task_ok m' t"
proof (cases t)
  case (TaskServing st r)
  then obtain e where e: "map_of (sm_shells m) (st_shell_id st) = Some e" "st_attachment_id st < rt_next_attachment_id (se_runtime e)"
    using assms(3) by auto
  have "owner_of (st_shell_id st) m' = Some (st_user_id st)"
    using by_session_owner [OF assms(1,2)] task_okD [of m st r] assms(3) TaskServing by blast
  then obtain e' where e': "map_of (sm_shells m') (st_shell_id st) = Some e'" "se_owner e' = st_user_id st"
    by (auto simp: owner_of_def)
  then show ?thesis using TaskServing next_id_kept [OF assms(1,2) e(1) e'(1)] e(2) by simp
qed simp_all

lemma tasks_ok_kept:
  "by_session P m m' \<Longrightarrow> sm_inv m \<Longrightarrow> list_all (\<lambda>(k, t). task_ok m t) ts \<Longrightarrow> list_all (\<lambda>(k, t). task_ok m' t) ts"
  by (induction ts) (auto dest: task_ok_kept)

definition served_users :: "(nat \<times> attach_task) list \<Rightarrow> rstring set" where
  "served_users ts = {st_user_id st |k st r. (k, TaskServing st r) \<in> set ts}"

text \<open>Dropping the tasks detaches every attachment they serve, and touches nothing else.\<close>

lemma drop_tasks:
  assumes "sm_inv m" and "list_all (\<lambda>(k, t). task_ok m t) ts"
  shows "keeps_to P (served_users ts) m (foldl (\<lambda>m (_, t). task_drop t m) m ts)
    \<and> (\<forall>k st r. (k, TaskServing st r) \<in> set ts \<longrightarrow>
         released (st_shell_id st) (st_attachment_id st) (foldl (\<lambda>m (_, t). task_drop t m) m ts))"
  using assms
proof (induction ts arbitrary: m)
  case (Cons x ts)
  obtain k t where x: "x = (k, t)" by (cases x)
  let ?U = "served_users (x # ts)" and ?m1 = "task_drop t m"
  let ?m2 = "foldl (\<lambda>m (_, t). task_drop t m) ?m1 ts"
  have first: "keeps_to P ?U m ?m1 \<and> (\<forall>st r. t = TaskServing st r \<longrightarrow> released (st_shell_id st) (st_attachment_id st) ?m1)"
  proof (cases t)
    case (TaskServing st r)
    have "st_user_id st \<in> ?U" using TaskServing x by (auto simp: served_users_def)
    then show ?thesis
      using Cons.prems x TaskServing detach_keeps [OF task_okD [of m st r], of ?U P "st_attachment_id st"]
        detach_released [OF Cons.prems(1)] by auto
  qed simp_all
  then have bs: "by_session P m ?m1" by (simp add: keeps_to_def)
  have "list_all (\<lambda>(k, t). task_ok m t) ts" using Cons.prems(2) by simp
  from tasks_ok_kept [OF bs Cons.prems(1) this] have "list_all (\<lambda>(k, t). task_ok ?m1 t) ts" .
  note ih = Cons.IH [OF by_session_inv [OF bs Cons.prems(1)] this]
  have "served_users ts \<subseteq> ?U" by (auto simp: served_users_def)
  then have rest: "keeps_to P ?U ?m1 ?m2" using ih foreign_mono by (auto simp: keeps_to_def)
  have "released (st_shell_id st) (st_attachment_id st) ?m2" if "t = TaskServing st r" for st r
    using by_session_released [of P ?m1 ?m2] by_session_inv [OF bs Cons.prems(1)] rest first that by (auto simp: keeps_to_def)
  then show ?case using first rest ih x keeps_to_trans by fastforce
qed simp


text \<open>Whom a step acts for.\<close>

fun acting_users :: "('vt, 'sk, 'pk) agent_packages \<Rightarrow> 'vt agent_state \<Rightarrow> agent_label \<Rightarrow> rstring set" where
  "acting_users P s (LbControl X) = openers P X (ag_link s)"
| "acting_users P s (LbFailed X) = openers P X (ag_link s) \<union> served_users (ag_tasks s)"
| "acting_users P s (LbStart k X) = attachers P X (rl_server_id (ag_link s))"
| "acting_users P s (LbTurn k X i) =
     (case map_of (ag_tasks s) k of Some (TaskServing st r) \<Rightarrow> {st_user_id st} | _ \<Rightarrow> {})"
| "acting_users P s LbLost = served_users (ag_tasks s)"
| "acting_users P s (LbElsewhere ev) = UNIV"
| "acting_users P s _ = {}"

lemma foreign_UNIV [simp]: "foreign UNIV m = (\<lambda>_. None)"
  by (auto simp: foreign_def fun_eq_iff split: option.split)

lemma keeps_to_mono: "keeps_to P U m m' \<Longrightarrow> U \<subseteq> V \<Longrightarrow> keeps_to P V m m'"
  using foreign_mono by (auto simp: keeps_to_def)

lemma agent_step_keeps:
  assumes "agent_inv s" and "agent_step P s lb s'"
  shows "keeps_to P (acting_users P s lb) (ag_manager s) (ag_manager s')"
proof -
  have inv: "sm_inv (ag_manager s)" and ok: "list_all (\<lambda>(k, t). task_ok (ag_manager s) t) (ag_tasks s)"
    using assms(1) by (simp_all add: agent_inv_def)
  show ?thesis
    using assms(2)
  proof cases
    case (control X m r out act)
    then show ?thesis using serve_next_keeps [OF inv control(3), of P "ag_link s" "ag_recv s"] by auto
  next
    case (control_failed X m r out e)
    let ?U = "openers P X (ag_link s) \<union> served_users (ag_tasks s)"
    have k: "keeps_to P (openers P X (ag_link s)) (ag_manager s) m"
      using serve_next_keeps [OF inv control_failed(3), of P "ag_link s" "ag_recv s"] control_failed(4) by auto
    then have bs: "by_session P (ag_manager s) m" by (simp add: keeps_to_def)
    have "keeps_to P ?U m (foldl (\<lambda>m (_, t). task_drop t m) m (ag_tasks s))"
      using drop_tasks [OF by_session_inv [OF bs inv] tasks_ok_kept [OF bs inv ok]] keeps_to_mono by blast
    then have "keeps_to P ?U (ag_manager s) (foldl (\<lambda>m (_, t). task_drop t m) m (ag_tasks s))"
      using keeps_to_trans keeps_to_mono [OF k] by blast
    then show ?thesis using control_failed(1,2) by (simp add: link_lost_def)
  next
    case (start k r X m r' out oc)
    then show ?thesis using attachment_start_keeps [OF inv start(4)] by simp
  next
    case (turn k st r i X m r' out oc)
    have "task_ok (ag_manager s) (TaskServing st r)" using ok map_of_SomeD [OF turn(3)] by (auto simp: list_all_iff)
    from attachment_turn_keeps [OF inv this, of P X "rl_server_id (ag_link s)" i] show ?thesis using turn by auto
  next
    case lost
    then show ?thesis using drop_tasks [OF inv ok, of P] by (simp add: link_lost_def)
  next
    case (elsewhere ev)
    have "not_remove ev" using elsewhere(3) by (cases ev) auto
    then show ?thesis using elsewhere(1,2) by_session_step by (simp add: keeps_to_def)
  qed simp_all
qed

lemma agent_step_inv:
  assumes "agent_inv s" and "agent_step P s lb s'"
  shows "agent_inv s'"
proof -
  have inv: "sm_inv (ag_manager s)" and ok: "list_all (\<lambda>(k, t). task_ok (ag_manager s) t) (ag_tasks s)"
    using assms(1) by (simp_all add: agent_inv_def)
  have bs: "by_session P (ag_manager s) (ag_manager s')" using agent_step_keeps [OF assms] by (simp add: keeps_to_def)
  note inv' = by_session_inv [OF bs inv] and ok' = tasks_ok_kept [OF bs inv ok]
  have upd: "list_all (\<lambda>(k, t). task_ok m t) (assoc_upd k (\<lambda>_. t) ts)"
    if "list_all (\<lambda>(k, t). task_ok m t) ts" "task_ok m t" for m :: "'a shell_manager" and k t ts
    using that by (induction ts) (auto simp: assoc_upd_def)
  have l: "length (assoc_del k ts) \<le> n" if "length ts \<le> n" for k n and ts :: "(nat \<times> attach_task) list"
    using that length_assoc_del [of k ts] by simp
  show ?thesis
    using assms(2)
  proof cases
    case (start k r X m r' out oc)
    have "task_ok m (task_of r' oc)" using attachment_start_keeps [OF inv start(4)] by blast
    then show ?thesis using assms(1) inv' upd [OF ok'] start(2) by (simp add: agent_inv_def)
  next
    case (turn k st r i X m r' out oc)
    have st: "task_ok (ag_manager s) (TaskServing st r)" using ok map_of_SomeD [OF turn(3)] by (auto simp: list_all_iff)
    from attachment_turn_keeps [OF inv st, of P X "rl_server_id (ag_link s)" i]
    have "\<forall>st'. oc = Serving st' \<longrightarrow> st' = st" using turn by auto
    moreover have "task_ok m (TaskServing st r')" using task_ok_kept [OF bs inv st] turn(2) by simp
    ultimately have "task_ok m (task_of r' oc)" by (cases oc) (auto simp: task_of_def)
    then show ?thesis using assms(1) inv' upd [OF ok'] turn(2) by (simp add: agent_inv_def)
  next
    case (incoming k r)
    then show ?thesis using assms(1) by (auto simp: agent_inv_def assoc_put_def)
  next
    case (joined k)
    then show ?thesis using assms(1) l by (auto simp: agent_inv_def list_all_iff assoc_del_def keys_assoc_del [unfolded assoc_del_def])
  qed (use assms(1) inv' ok' in \<open>auto simp: agent_inv_def link_lost_def\<close>)
qed

lemma agent_reach_inv: "agent_reach P s \<Longrightarrow> agent_inv s"
proof (induction rule: agent_reach.induct)
  case (booted l config policy r)
  then show ?case by (simp add: agent_inv_def manager_inv)
qed (rule agent_step_inv)


text \<open>Later states of the agent.\<close>

inductive agent_later :: "('vt, 'sk, 'pk) agent_packages \<Rightarrow> 'vt agent_state \<Rightarrow> 'vt agent_state \<Rightarrow> bool" for P s where
  now: "agent_later P s s"
| later: "agent_later P s s1 \<Longrightarrow> agent_step P s1 lb s2 \<Longrightarrow> agent_later P s s2"

lemma agent_later_keeps:
  assumes "agent_later P s s'" and "agent_inv s"
  shows "agent_inv s' \<and> by_session P (ag_manager s) (ag_manager s')"
  using assms(1)
proof (induction rule: agent_later.induct)
  case (later s1 lb s2)
  then show ?case using agent_step_inv agent_step_keeps by_session_trans by (fastforce simp: keeps_to_def)
qed (use assms(2) in simp)

definition serves :: "nat \<Rightarrow> attach_stream \<Rightarrow> 'vt agent_state \<Rightarrow> bool" where
  "serves k st s \<longleftrightarrow> (case map_of (ag_tasks s) k of Some (TaskServing st' _) \<Rightarrow> st' = st | _ \<Rightarrow> False)"

lemma servesD: "serves k st s \<Longrightarrow> \<exists>r. map_of (ag_tasks s) k = Some (TaskServing st r)"
  by (simp add: serves_def split: option.splits attach_task.splits)

lemma step_releases:
  assumes "agent_inv s" and "serves k st s" and "agent_step P s lb s'" and "\<not> serves k st s'"
  shows "released (st_shell_id st) (st_attachment_id st) (ag_manager s')"
proof -
  have inv: "sm_inv (ag_manager s)" and ok: "list_all (\<lambda>(k, t). task_ok (ag_manager s) t) (ag_tasks s)"
    using assms(1) by (simp_all add: agent_inv_def)
  obtain r where k: "map_of (ag_tasks s) k = Some (TaskServing st r)" using servesD [OF assms(2)] by blast
  note mem = map_of_SomeD [OF k]
  show ?thesis
    using assms(3)
  proof cases
    case (control_failed X m r out e)
    have "by_session P (ag_manager s) m"
      using serve_next_keeps [OF inv control_failed(3), of P "ag_link s" "ag_recv s"] control_failed(4) by (auto simp: keeps_to_def)
    from drop_tasks [OF by_session_inv [OF this inv] tasks_ok_kept [OF this inv ok], of P]
    show ?thesis using control_failed(2) mem by (auto simp: link_lost_def)
  next
    case (turn k' st' r1 i X m r' out oc)
    have "task_ok (ag_manager s) (TaskServing st' r1)" using ok map_of_SomeD [OF turn(3)] by (auto simp: list_all_iff)
    from attachment_turn_keeps [OF inv this, of P X "rl_server_id (ag_link s)" i]
    have t: "\<forall>x. oc = Serving x \<longrightarrow> x = st'"
      "case oc of Serving _ \<Rightarrow> True | Returned _ \<Rightarrow> released (st_shell_id st') (st_attachment_id st') m" using turn by auto
    have "k' = k" using assms(4) k turn(2) by (auto simp: serves_def split: if_splits)
    then show ?thesis using t assms(4) k turn by (cases oc) (auto simp: task_of_def serves_def)
  next
    case lost
    then show ?thesis using drop_tasks [OF inv ok, of P] mem by (auto simp: link_lost_def)
  next
    case (incoming k' r1)
    then have "k' \<noteq> k" using k by (auto simp: map_of_None_keys [symmetric])
    then show ?thesis using incoming assms(4) k by (simp add: serves_def)
  qed (use assms(4) k in \<open>auto simp: serves_def split: if_splits\<close>)
qed

section \<open>Properties\<close>

text \<open>
  (C14) The gateway cannot overreach: in every reachable state of the agent, with any number of
  streams, frames, lost links and other activity in any order, a control request changes only
  shells of users with a grant that is signed, current, made out for this audience and this
  server and permits opening; the first frame of a stream only shells of users with such a grant
  for attaching; a later frame only shells of the user its stream was granted to. No stream
  serves a shell of another user than its own.
\<close>

theorem agent_confined:
  assumes "agent_reach P s" and "agent_step P s lb s'"
  shows "foreign (acting_users P s lb) (ag_manager s') = foreign (acting_users P s lb) (ag_manager s)
     \<and> sm_inv (ag_manager s') \<and> length (ag_tasks s') \<le> AGENT_ATTACHMENT_STREAMS_MAX
     \<and> list_all (\<lambda>(k, t). task_ok (ag_manager s') t) (ag_tasks s')"
proof -
  note inv = agent_reach_inv [OF assms(1)]
  show ?thesis
    using agent_step_keeps [OF inv assms(2)] agent_step_inv [OF inv assms(2)] by (auto simp: keeps_to_def agent_inv_def)
qed


text \<open>A turn of a task returns.\<close>

definition turn_returns ::
  "('vt, 'sk, 'pk) agent_packages \<Rightarrow> agent_answers \<Rightarrow> attach_input \<Rightarrow> bytes \<Rightarrow> 'vt shell_manager \<Rightarrow> attach_task \<Rightarrow> bool" where
  "turn_returns P X i server_id m t =
     (case t of TaskServing st r \<Rightarrow> attachment_turn P X server_id i st r m \<noteq> None | _ \<Rightarrow> True)"

lemma task_ok_returns: "sm_inv m \<Longrightarrow> task_ok m t \<Longrightarrow> turn_returns P X i server_id m t"
  using attachment_turn_keeps [of m _ _ P X server_id i] by (cases t) (fastforce simp: turn_returns_def)+

text \<open>
  The agent never panics on what the gateway sends: a control turn and a turn of a served
  attachment always return, whatever the frame.
\<close>

theorem agent_total:
  assumes "agent_reach P s" and "gx_shell_id X \<notin> set (keys (sm_shells (ag_manager s)))"
  shows "serve_next P X (ag_link s) (ag_recv s) (ag_manager s) \<noteq> None
     \<and> list_all (\<lambda>(k, t). turn_returns P X i (rl_server_id (ag_link s)) (ag_manager s) t) (ag_tasks s)"
proof -
  have inv: "sm_inv (ag_manager s)" and ok: "list_all (\<lambda>(k, t). task_ok (ag_manager s) t) (ag_tasks s)"
    using agent_reach_inv [OF assms(1)] by (simp_all add: agent_inv_def)
  have "list_all (\<lambda>(k, t). turn_returns P X i (rl_server_id (ag_link s)) (ag_manager s) t) (ag_tasks s)"
    using ok by (induction "ag_tasks s") (auto simp: list_all_iff intro!: task_ok_returns [OF inv])
  then show ?thesis using serve_next_keeps [OF inv assms(2), of P "ag_link s" "ag_recv s"] by auto
qed


section \<open>A sample run\<close>

text \<open>The gateway opens a shell, attaches to it and goes away.\<close>

definition overlay_server :: bytes where "overlay_server = replicate 16 9"
definition overlay_shell :: bytes where "overlay_shell = replicate 16 1"

definition overlay_claims :: grant_claims where
  "overlay_claims = \<lparr>sub = lit ''u'', aud = lit ''gw'', servers = [id_display server_prefix overlay_server], ops = [],
                     iat_ms = 0, exp_ms = 1000, jti = []\<rparr>"

definition overlay_grants :: "(unit, unit) grant_codec" where
  "overlay_grants =
     \<lparr>b64_encode = (\<lambda>b. []), b64_decode = (\<lambda>s. Some (replicate 64 0)), sign = (\<lambda>k m. []), public_of = (\<lambda>k. k),
      sig_ok = (\<lambda>k m s. True), to_json = (\<lambda>c. []), from_json = (\<lambda>b. Some overlay_claims)\<rparr>"

definition overlay_open :: agent_envelope where
  "overlay_open =
     \<lparr>ae_request_id = 1, ae_server_id = overlay_server, ae_shell_id = [],
      ae_message = Some (AgentOpenShell
        \<lparr>ao_user_id = lit ''u'', ao_unix_account = [], ao_command = [], ao_initial_cols = 80, ao_initial_rows = 24,
         ao_idempotency_key = replicate 16 3, ao_connection_grant = as_bytes (lit ''.'')\<rparr>)\<rparr>"

definition overlay_attach :: agent_envelope where
  "overlay_attach =
     \<lparr>ae_request_id = 1, ae_server_id = overlay_server, ae_shell_id = overlay_shell,
      ae_message = Some (AgentAttachShell
        \<lparr>aa_user_id = lit ''u'', aa_connection_grant = as_bytes (lit ''.''), aa_cols = 0, aa_rows = 0\<rparr>)\<rparr>"

definition overlay_packages :: "(unit, unit, unit) agent_packages" where
  "overlay_packages =
     \<lparr>gp_avt = null_avt, gp_sha256 = id, gp_codec = table_codec [overlay_open, overlay_attach], gp_grants = overlay_grants,
      gp_verifying = (), gp_audience = lit ''gw''\<rparr>"

definition overlay_answers :: agent_answers where
  "overlay_answers =
     \<lparr>gx_now_ms = 5, gx_world = sample_world, gx_shell_id = overlay_shell, gx_token = [7], gx_resize = Ok (),
      gx_input = Ok (), gx_write = (\<lambda>f. None), gx_thread = None\<rparr>"

definition overlay_link :: registered_link where
  "overlay_link = \<lparr>rl_server_id = overlay_server, rl_max_frame_bytes = AGENT_CONTROL_FRAME_BYTES_MAX,
                   rl_keepalive_interval_ms = 10000\<rparr>"

definition overlay_request :: open_shell_request where
  "overlay_request = \<lparr>rq_user = lit ''u'', rq_account = None, rq_command = None, rq_args = [], rq_cols = 80, rq_rows = 24,
                      rq_idempotency_key = replicate 16 3\<rparr>"

definition overlay_entry :: "unit shell_entry" where
  "overlay_entry = new_entry null_avt id session_core_config_default overlay_request None
     \<lparr>pty_cols = 80, pty_rows = 24, pty_written = []\<rparr> 80 24 overlay_shell [7] 5"

definition overlay_manager :: "unit shell_manager" where
  "overlay_manager = (manager_new session_core_config_default)\<lparr>
     sm_shells := [(overlay_shell, overlay_entry)], sm_idempotency := [((lit ''u'', replicate 16 3), overlay_shell)]\<rparr>"

lemma overlay_scope:
  "verify_scope (authority overlay_packages overlay_answers) overlay_server (lit ''u'') op (as_bytes (lit ''.'')) = Ok overlay_claims"
proof -
  have dot: "split_once 46 (lit ''.'') = Some ([], [])" by (simp add: split_once_def lit_def)
  have "grant_from_wire (as_bytes (lit ''.'')) = Ok (lit ''.'')"
    by (simp add: grant_from_wire_def from_utf8_encode lit_def is_scalar_def)
  then show ?thesis
    by (simp add: verify_scope_def authority_def overlay_packages_def overlay_answers_def grant_verify_def dot overlay_grants_def
        overlay_claims_def permits_def saturating_add_i64_def clamp_i64_def i64_max_def i64_min_def)
qed

lemma overlay_opened:
  "open_shell null_avt id sample_world overlay_request overlay_shell [7] 5 (manager_new session_core_config_default)
     = Some (overlay_manager, Ok \<lparr>os_shell_id = overlay_shell, os_resume_token = [7], os_reused = False\<rparr>)"
  by (simp add: open_shell_def overlay_manager_def manager_new_def manager_with_policy_def overlay_request_def
      overlay_entry_def allow_all_def requested_def live_shells_def session_core_config_default_def clamp_dims_def
      MIN_COLS_def MIN_ROWS_def launch_pty_def spawner_target_def build_launch_def prlimit_wrap_def
      shell_resource_limits_default_def sample_world_def sample_host_def assoc_put_def Let_def)

lemma overlay_validated:
  "validate_open_request (authority overlay_packages overlay_answers) overlay_server
     \<lparr>ao_user_id = lit ''u'', ao_unix_account = [], ao_command = [], ao_initial_cols = 80, ao_initial_rows = 24,
      ao_idempotency_key = replicate 16 3, ao_connection_grant = as_bytes (lit ''.'')\<rparr> = Ok overlay_request"
proof -
  have g: "as_bytes (lit ''.'') \<noteq> []" "length (as_bytes (lit ''.'')) \<le> AGENT_GRANT_BYTES_MAX"
    "lit ''u'' \<noteq> []" "len (lit ''u'') \<le> AGENT_USER_ID_BYTES_MAX"
    by (simp_all add: lit_def as_bytes_def encode_utf8_def encode_utf8_raw_def len_def len_utf8_def AGENT_GRANT_BYTES_MAX_def AGENT_USER_ID_BYTES_MAX_def)
  then show ?thesis
    by (simp add: validate_open_request_def overlay_scope overlay_request_def U16_MAX_def not_less
        AGENT_UNIX_ACCOUNT_BYTES_MAX_def AGENT_COMMAND_BYTES_MAX_def)
qed


definition overlay_booted :: "unit agent_state" where
  "overlay_booted = \<lparr>ag_link = overlay_link, ag_manager = manager_new session_core_config_default,
     ag_recv = \<lparr>rs_bytes = to_be_bytes 1 @ [0], rs_end = StreamFinished\<rparr>, ag_tasks = []\<rparr>"

definition overlay_stream :: recv_stream where
  "overlay_stream = \<lparr>rs_bytes = to_be_bytes 1 @ [1], rs_end = StreamFinished\<rparr>"

lemma overlay_wire: "wire_id overlay_server = Some overlay_server" "wire_id overlay_shell = Some overlay_shell"
  by (simp_all add: wire_id_def id_from_wire_def overlay_server_def overlay_shell_def)

lemma overlay_booted_reach: "agent_reach overlay_packages overlay_booted"
  unfolding overlay_booted_def manager_new_def by (rule agent_reach.booted)

lemma overlay_fields [simp]:
  "gp_codec overlay_packages = table_codec [overlay_open, overlay_attach]" "gp_avt overlay_packages = null_avt"
  "gp_sha256 overlay_packages = id" "rl_server_id overlay_link = overlay_server"
  "rl_max_frame_bytes overlay_link = AGENT_CONTROL_FRAME_BYTES_MAX" "gx_write overlay_answers = (\<lambda>f. None)"
  "gx_world overlay_answers = sample_world" "gx_shell_id overlay_answers = overlay_shell" "gx_token overlay_answers = [7]"
  "gx_now_ms overlay_answers = 5" "gx_thread overlay_answers = None" "gx_resize overlay_answers = Ok ()"
  by (simp_all add: overlay_packages_def overlay_link_def overlay_answers_def)

lemma overlay_reply: "\<exists>out. reply_then (table_codec [overlay_open, overlay_attach]) overlay_answers overlay_link env x = (out, Ok x)"
  using table_frame [of AGENT_CONTROL_FRAME_BYTES_MAX "[overlay_open, overlay_attach]" env]
  by (simp add: reply_then_def AGENT_CONTROL_FRAME_BYTES_MAX_def)

lemma overlay_serves:
  "\<exists>out. serve_next overlay_packages overlay_answers overlay_link (ag_recv overlay_booted) (ag_manager overlay_booted)
     = Some (overlay_manager, \<lparr>rs_bytes = [], rs_end = StreamFinished\<rparr>, out, Ok (ActShellOpened overlay_shell False))"
proof -
  have mx: "AGENT_CONTROL_FRAME_BYTES_MAX \<noteq> 0" by (simp add: AGENT_CONTROL_FRAME_BYTES_MAX_def)
  have r: "read_envelope (gp_codec overlay_packages) (rl_max_frame_bytes overlay_link) (ag_recv overlay_booted)
      = (\<lparr>rs_bytes = [], rs_end = StreamFinished\<rparr>, Ok overlay_open)"
    using table_read [of 0 "[overlay_open, overlay_attach]", OF _ mx, of "[]" StreamFinished] by (simp add: overlay_booted_def)
  obtain q where q: "ae_message overlay_open = Some (AgentOpenShell q)" "ae_server_id overlay_open = overlay_server"
    "validate_open_request (authority overlay_packages overlay_answers) overlay_server q = Ok overlay_request"
    using overlay_validated by (auto simp: overlay_open_def)
  have "\<exists>out. serve_open overlay_packages overlay_answers overlay_link rid q (manager_new session_core_config_default)
      = Some (overlay_manager, out, Ok (ActShellOpened overlay_shell False))" for rid
    using overlay_reply by (simp add: serve_open_def q(3) overlay_opened)
  then show ?thesis
    by (simp only: serve_next_def r prod.case sum.case serve_request_def q overlay_wire option.case agent_msg.case)
      (simp add: overlay_booted_def)
qed

lemma attach_authorized_keys:
  "keys (sm_shells (fst (attach_authorized A sha256 u sid cols rows fresh now res m))) = keys (sm_shells m)"
  by (simp add: attach_authorized_def set_runtime_def split: option.split prod.split)

lemma overlay_attaches:
  "\<exists>m out st. attachment_start overlay_packages overlay_answers overlay_server overlay_stream overlay_manager
     = (m, \<lparr>rs_bytes = [], rs_end = StreamFinished\<rparr>, out, Serving st)
     \<and> st_shell_id st = overlay_shell \<and> st_user_id st = lit ''u'' \<and> attached overlay_shell (st_attachment_id st) m
     \<and> keys (sm_shells m) = [overlay_shell]"
proof -
  have mx: "AGENT_ATTACHMENT_FRAME_BYTES_MAX \<noteq> 0" "256 \<le> AGENT_ATTACHMENT_FRAME_BYTES_MAX"
    by (simp_all add: AGENT_ATTACHMENT_FRAME_BYTES_MAX_def FRAME_BYTES_DEFAULT_def)
  have r: "read_envelope (table_codec [overlay_open, overlay_attach]) AGENT_ATTACHMENT_FRAME_BYTES_MAX overlay_stream
      = (\<lparr>rs_bytes = [], rs_end = StreamFinished\<rparr>, Ok overlay_attach)"
    using table_read [of 1 "[overlay_open, overlay_attach]", OF _ mx(1), of "[]" StreamFinished] by (simp add: overlay_stream_def)
  obtain q where q: "ae_message overlay_attach = Some (AgentAttachShell q)" "ae_server_id overlay_attach = overlay_server"
    "ae_shell_id overlay_attach = overlay_shell"
    and v: "validate_attach_request (authority overlay_packages overlay_answers) overlay_server q
      = Ok \<lparr>au_user_id = lit ''u'', au_cols = 0, au_rows = 0, au_expires_at_ms = 1000\<rparr>"
  proof -
    have g: "as_bytes (lit ''.'') \<noteq> []" "length (as_bytes (lit ''.'')) \<le> AGENT_GRANT_BYTES_MAX"
      "lit ''u'' \<noteq> []" "len (lit ''u'') \<le> AGENT_USER_ID_BYTES_MAX"
      by (simp_all add: lit_def as_bytes_def encode_utf8_def encode_utf8_raw_def len_def len_utf8_def AGENT_GRANT_BYTES_MAX_def
          AGENT_USER_ID_BYTES_MAX_def)
    have "exp_ms overlay_claims = 1000" by (simp add: overlay_claims_def)
    then show ?thesis
      using g that by (simp add: overlay_attach_def validate_attach_request_def overlay_scope U16_MAX_def not_less)
  qed
  have scope: "attachment_scope overlay_server overlay_attach = Ok overlay_shell"
    by (simp add: attachment_scope_def q overlay_wire)
  obtain m att where a: "attach_authorized null_avt id (lit ''u'') overlay_shell 0 0 [7] 5 (Ok ()) overlay_manager = (m, Ok att)"
    and at: "attached overlay_shell (at_id att) m"
    by (simp add: attach_authorized_def overlay_manager_def overlay_entry_def new_entry_def overlay_request_def attach_runtime_def
        manager_new_def manager_with_policy_def session_core_config_default_def clamp_dims_def Let_def rotate_token_def
        attached_def lookup_set_runtime assoc_put_def)
  have "keys (sm_shells m) = [overlay_shell]"
    using attach_authorized_keys [of null_avt id "lit ''u''" overlay_shell 0 0 "[7]" 5 "Ok ()" overlay_manager] a
    by (simp add: overlay_manager_def)
  then show ?thesis
    using at by (simp add: attachment_start_def r scope q v a send_attachment_def table_frame [OF mx(2)] Let_def)
qed


definition overlay_opened_state :: "unit agent_state" where
  "overlay_opened_state = overlay_booted\<lparr>ag_manager := overlay_manager, ag_recv := \<lparr>rs_bytes = [], rs_end = StreamFinished\<rparr>\<rparr>"

lemma overlay_control:
  "agent_step overlay_packages overlay_booted (LbControl overlay_answers) overlay_opened_state"
proof -
  obtain out where "serve_next overlay_packages overlay_answers (ag_link overlay_booted) (ag_recv overlay_booted) (ag_manager overlay_booted)
      = Some (overlay_manager, \<lparr>rs_bytes = [], rs_end = StreamFinished\<rparr>, out, Ok (ActShellOpened overlay_shell False))"
    using overlay_serves by (auto simp: overlay_booted_def)
  from agent_step.control [OF _ this] show ?thesis
    by (simp add: overlay_opened_state_def) (simp add: overlay_booted_def manager_new_def manager_with_policy_def)
qed

theorem agent_confined_witness:
  "\<exists>s s' :: unit agent_state. agent_reach overlay_packages s
     \<and> agent_step overlay_packages s (LbControl overlay_answers) s'
     \<and> owner_of overlay_shell (ag_manager s) = None \<and> owner_of overlay_shell (ag_manager s') = Some (lit ''u'')
     \<and> foreign (openers overlay_packages overlay_answers overlay_link) (ag_manager s')
       = foreign (openers overlay_packages overlay_answers overlay_link) (ag_manager s)"
proof -
  have "owner_of overlay_shell (ag_manager overlay_booted) = None"
    by (simp add: owner_of_def overlay_booted_def manager_new_def manager_with_policy_def)
  moreover have "owner_of overlay_shell (ag_manager overlay_opened_state) = Some (lit ''u'')"
    by (simp add: owner_of_def overlay_opened_state_def overlay_manager_def overlay_entry_def new_entry_def overlay_request_def)
  moreover have "ag_link overlay_booted = overlay_link" by (simp add: overlay_booted_def)
  ultimately show ?thesis
    using agent_confined [OF overlay_booted_reach overlay_control] overlay_booted_reach overlay_control by auto
qed

text \<open>The state in which the gateway is attached.\<close>

lemma overlay_serving:
  "\<exists>s st. agent_reach overlay_packages s \<and> serves 0 st s \<and> attached (st_shell_id st) (st_attachment_id st) (ag_manager s)
     \<and> ag_link s = overlay_link \<and> keys (sm_shells (ag_manager s)) = [overlay_shell]"
proof -
  let ?P = overlay_packages
  let ?s1 = "overlay_opened_state\<lparr>ag_tasks := [(0, TaskFresh overlay_stream)]\<rparr>"
  have "agent_reach ?P overlay_opened_state" using overlay_booted_reach overlay_control agent_reach.stepped by blast
  moreover have "agent_step ?P overlay_opened_state (LbIncoming 0 overlay_stream) ?s1"
    using agent_step.incoming [of overlay_opened_state 0 ?P overlay_stream]
    by (simp add: overlay_opened_state_def overlay_booted_def assoc_put_def AGENT_ATTACHMENT_STREAMS_MAX_def)
  ultimately have r1: "agent_reach ?P ?s1" using agent_reach.stepped by blast
  obtain m out st where st: "attachment_start ?P overlay_answers overlay_server overlay_stream overlay_manager
      = (m, \<lparr>rs_bytes = [], rs_end = StreamFinished\<rparr>, out, Serving st)" "st_shell_id st = overlay_shell"
    "attached overlay_shell (st_attachment_id st) m" "keys (sm_shells m) = [overlay_shell]"
    using overlay_attaches by blast
  let ?s2 = "?s1\<lparr>ag_manager := m, ag_tasks := [(0, TaskServing st \<lparr>rs_bytes = [], rs_end = StreamFinished\<rparr>)]\<rparr>"
  have "agent_step ?P ?s1 (LbStart 0 overlay_answers) ?s2"
    using agent_step.start [of ?s1 0 overlay_stream ?P overlay_answers] st(1)
    by (simp add: overlay_opened_state_def overlay_booted_def task_of_def assoc_upd_def)
  then have r2: "agent_reach ?P ?s2" using r1 agent_reach.stepped by blast
  then show ?thesis
    using r2 st by (intro exI [of _ ?s2] exI [of _ st]) (simp add: serves_def overlay_opened_state_def overlay_booted_def)
qed



theorem agent_total_witness:
  "\<exists>s st. agent_reach overlay_packages s \<and> serves 0 st s
     \<and> serve_next overlay_packages (overlay_answers\<lparr>gx_shell_id := []\<rparr>) (ag_link s) (ag_recv s) (ag_manager s) \<noteq> None
     \<and> list_all (\<lambda>(k, t). turn_returns overlay_packages (overlay_answers\<lparr>gx_shell_id := []\<rparr>) InFrame
          (rl_server_id (ag_link s)) (ag_manager s) t) (ag_tasks s)"
proof -
  obtain s st where s: "agent_reach overlay_packages s" "serves 0 st s" "keys (sm_shells (ag_manager s)) = [overlay_shell]"
    using overlay_serving by blast
  have "gx_shell_id (overlay_answers\<lparr>gx_shell_id := []\<rparr>) \<notin> set (keys (sm_shells (ag_manager s)))"
    using s(3) by (simp add: overlay_shell_def)
  from agent_total [OF s(1) this, of InFrame] s(1,2) show ?thesis by blast
qed

end
