(* ===== verification/Overlay_Props.thy ===== *)
theory Overlay_Props
  imports Gateway Agent_Props
begin

text \<open>
  The two ends of the overlay together: registration, opening a shell and streaming output, with
  the bytes one side writes as the bytes the other side reads; the delays of the reconnect loop;
  and what a read dropped in the middle of a frame does to a stream.
\<close>

section \<open>Registration\<close>

text \<open>A message the packages carry within a frame limit.\<close>

definition carried :: "agent_codec \<Rightarrow> u32 \<Rightarrow> agent_envelope \<Rightarrow> bool" where
  "carried C maximum env \<longleftrightarrow> carries C env \<and> length (cd_encode C env) \<le> unat maximum"

definition frame_of :: "agent_codec \<Rightarrow> agent_envelope \<Rightarrow> bytes" where
  "frame_of C env = to_be_bytes (of_nat (length (cd_encode C env))) @ cd_encode C env"

lemma write_carried: "carried C maximum env \<Longrightarrow> write_envelope C (\<lambda>f. None) maximum env = Ok (frame_of C env)"
  by (simp add: carried_def write_envelope_def encode_agent_frame_def encode_delimited_def frame_of_def Let_def)

lemma read_carried:
  assumes "carried C w env" and "w \<le> maximum"
  shows "read_envelope C maximum \<lparr>rs_bytes = frame_of C env @ rest, rs_end = e\<rparr> = (\<lparr>rs_bytes = rest, rs_end = e\<rparr>, Ok env)"
  using read_written [OF write_carried [OF assms(1)] assms(2)] assms(1) by (simp add: carried_def)

lemma read_carried1: "carried C w env \<Longrightarrow> w \<le> maximum \<Longrightarrow>
    read_envelope C maximum \<lparr>rs_bytes = frame_of C env, rs_end = e\<rparr> = (\<lparr>rs_bytes = [], rs_end = e\<rparr>, Ok env)"
  using read_carried [of C w env maximum "[]" e] by simp

text \<open>
  An agent connects while the gateway accepts: what each writes is what the other reads, and
  streams end where nothing more is written.
\<close>

definition overlay_register ::
  "agent_codec \<Rightarrow> accept_answers \<Rightarrow> connect_answers \<Rightarrow> registration_request \<Rightarrow> bytes option \<Rightarrow> registry
     \<Rightarrow> registry \<times> (gateway_error + registered_agent) \<times> (agent_error + registered_link)" where
  "overlay_register C A K q expected g =
     (let sent = fst (agent_connect C K q) in
      case accept_register C (A\<lparr>aq_recv := Completed \<lparr>rs_bytes = sent, rs_end = StreamFinished\<rparr>\<rparr>) expected g of
        (g', out, r) \<Rightarrow>
          (g', r, snd (snd (agent_connect C (K\<lparr>cq_recv := \<lparr>rs_bytes = out, rs_end = StreamFinished\<rparr>\<rparr>) q))))"

text \<open>A connection on which nothing fails.\<close>

definition link_up :: "accept_answers \<Rightarrow> connect_answers \<Rightarrow> bool" where
  "link_up A K \<longleftrightarrow>
     aq_bi A = Completed (Ok ()) \<and> aq_write A = (\<lambda>f. None) \<and> cq_connect K = Ok () \<and> cq_bi K = Ok () \<and> cq_write K = (\<lambda>f. None)"

lemma wire_id_16: "length i = 16 \<Longrightarrow> wire_id (id_to_wire i) = Some i"
  by (simp add: wire_id_def id_from_wire_def id_to_wire_def)

lemma control_bounds:
  "AGENT_CONTROL_FRAME_BYTES_MIN \<le> AGENT_CONTROL_FRAME_BYTES_MAX" "\<not> AGENT_CONTROL_FRAME_BYTES_MAX < AGENT_CONTROL_FRAME_BYTES_MIN"
  by (simp_all add: AGENT_CONTROL_FRAME_BYTES_MIN_def AGENT_CONTROL_FRAME_BYTES_MAX_def)

lemma connect_reads:
  assumes "link_up A K" and "carried C AGENT_CONTROL_FRAME_BYTES_MAX (register_envelope q)"
    and "carried C w reply" and "w \<le> AGENT_CONTROL_FRAME_BYTES_MAX" and "ae_message reply = Some (AgentRegistration n)"
  shows "snd (snd (agent_connect C (K\<lparr>cq_recv := \<lparr>rs_bytes = frame_of C reply, rs_end = StreamFinished\<rparr>\<rparr>) q))
    = (case validate_registration (rr_server_id q) (ae_server_id reply) n of
         Inl e \<Rightarrow> Err e
       | Inr _ \<Rightarrow> Ok \<lparr>rl_server_id = rr_server_id q, rl_max_frame_bytes = rn_max_frame_bytes n,
                      rl_keepalive_interval_ms = rn_keepalive_interval_ms n\<rparr>)"
  using assms(1,5) write_carried [OF assms(2)] read_carried1 [OF assms(3,4)]
  by (simp add: agent_connect_def link_up_def)

section \<open>Properties\<close>

text \<open>
  Registration agrees at both ends. On a connection that does not fail, with a request the agent
  can build: the gateway registers the server exactly when the presented certificate is bound to
  it, it has no other agent and there is room, and the agent then holds a link for the same server
  with the same frame limit; otherwise the agent learns the gateway's reason, except that a full
  gateway hangs up without one. A registration that fails leaves the registry unchanged.
\<close>

theorem registration_agrees:
  assumes "registration_request_new sid build = Ok q" and "length sid = 16" and "link_up A K"
    and "carried C AGENT_CONTROL_FRAME_BYTES_MAX (register_envelope q)"
    and "carried C AGENT_CONTROL_FRAME_BYTES_MAX (registration_envelope sid AGENT_CONTROL_FRAME_BYTES_MAX)"
    and "carried C AGENT_CONTROL_FRAME_BYTES_MAX (rejection_envelope (lit ''certificate identity mismatch''))"
    and "carried C AGENT_CONTROL_FRAME_BYTES_MAX (rejection_envelope (lit ''server already connected''))"
  shows "overlay_register C A K q expected g =
    (if expected \<noteq> Some sid then
       (g, Err (GwRejected (lit ''certificate identity mismatch'')), Err (AgRejected (lit ''certificate identity mismatch'')))
     else if sid \<in> set (cr_active g) then
       (g, Err (GwRejected (lit ''server already connected'')), Err (AgRejected (lit ''server already connected'')))
     else if cr_max_active_agents g \<le> length (cr_active g) then
       (g, Err (GwRegistry (ActiveLimit (cr_max_active_agents g))), Err (AgIo (IoRead StreamFinished)))
     else
       (g\<lparr>cr_active := cr_active g @ [sid]\<rparr>,
        Ok \<lparr>ra_server_id = sid, ra_max_frame_bytes = AGENT_CONTROL_FRAME_BYTES_MAX, ra_next_request_id = 1\<rparr>,
        Ok \<lparr>rl_server_id = sid, rl_max_frame_bytes = AGENT_CONTROL_FRAME_BYTES_MAX,
            rl_keepalive_interval_ms = DEFAULT_KEEPALIVE_INTERVAL_MS\<rparr>))"
proof -
  let ?mx = AGENT_CONTROL_FRAME_BYTES_MAX
  have q: "q = \<lparr>rr_server_id = sid, rr_agent_build = build, rr_max_frame_bytes = ?mx\<rparr>" and b: "len build \<le> AGENT_BUILD_BYTES_MAX"
    using assms(1) by (auto simp: registration_request_new_def split: if_splits)
  have sent: "fst (agent_connect C K q) = frame_of C (register_envelope q)"
    using assms(3) write_carried [OF assms(4)] by (simp add: agent_connect_def link_up_def split: prod.split sum.split)
  have rd: "snd (read_envelope C ?mx \<lparr>rs_bytes = frame_of C (register_envelope q), rs_end = StreamFinished\<rparr>) = Ok (register_envelope q)"
    using read_carried1 [OF assms(4) order_refl] by simp
  have chk: "check_register expected (register_envelope q)
      = (if expected \<noteq> Some sid then Err (lit ''certificate identity mismatch'') else Ok (sid, ?mx))"
    using b assms(2) by (simp add: check_register_def register_envelope_def q wire_id_16 control_bounds not_less)
  note cr = connect_reads [OF assms(3,4)]
  have rej: "snd (snd (agent_connect C (K\<lparr>cq_recv := \<lparr>rs_bytes = frame_of C (rejection_envelope t), rs_end = StreamFinished\<rparr>\<rparr>) q))
      = Err (AgRejected t)" if "carried C ?mx (rejection_envelope t)" for t
    using cr [OF that order_refl] by (simp add: rejection_envelope_def validate_registration_def)
  have acc: "snd (snd (agent_connect C (K\<lparr>cq_recv := \<lparr>rs_bytes = frame_of C (registration_envelope sid ?mx), rs_end = StreamFinished\<rparr>\<rparr>) q))
      = Ok \<lparr>rl_server_id = sid, rl_max_frame_bytes = ?mx, rl_keepalive_interval_ms = DEFAULT_KEEPALIVE_INTERVAL_MS\<rparr>"
    using cr [OF assms(5) order_refl] assms(2) control_bounds
    by (simp add: registration_envelope_def validate_registration_def wire_id_16 q DEFAULT_KEEPALIVE_INTERVAL_MS_def)
  have empty: "snd (snd (agent_connect C (K\<lparr>cq_recv := \<lparr>rs_bytes = [], rs_end = StreamFinished\<rparr>\<rparr>) q)) = Err (AgIo (IoRead StreamFinished))"
    using assms(3) write_carried [OF assms(4)]
    by (simp add: agent_connect_def link_up_def read_envelope_def read_exact_def LENGTH_PREFIX_BYTES_def)
  show ?thesis
    using assms(3) rej [OF assms(6)] rej [OF assms(7)] acc empty
    by (simp add: overlay_register_def Let_def sent accept_register_def link_up_def rd chk claim_def reject_registration_def
        write_carried [OF assms(5)] write_carried [OF assms(6)] write_carried [OF assms(7)])
qed


lemma carried_table: "e \<in> set es \<Longrightarrow> length es \<le> 256 \<Longrightarrow> maximum \<noteq> 0 \<Longrightarrow> carried (table_codec es) maximum e"
proof -
  assume "e \<in> set es" "length es \<le> 256" "maximum \<noteq> 0"
  moreover from this(3) have "Suc 0 \<le> unat maximum" by (simp add: Suc_le_eq unat_gt_0)
  moreover have "length (cd_encode (table_codec es) e) = 1" by (simp add: table_codec_def)
  ultimately show ?thesis using carries_table by (simp add: carried_def)
qed

definition demo_request :: registration_request where
  "demo_request = \<lparr>rr_server_id = demo_server, rr_agent_build = lit ''b'', rr_max_frame_bytes = AGENT_CONTROL_FRAME_BYTES_MAX\<rparr>"

definition demo_connect :: connect_answers where
  "demo_connect = \<lparr>cq_connect = Ok (), cq_bi = Ok (), cq_write = (\<lambda>f. None), cq_recv = \<lparr>rs_bytes = [], rs_end = StreamFinished\<rparr>\<rparr>"

theorem registration_agrees_witness:
  "\<exists>C. overlay_register C demo_accept demo_connect demo_request (Some demo_server) demo_registry
     = (demo_registry\<lparr>cr_active := [demo_server]\<rparr>,
        Ok \<lparr>ra_server_id = demo_server, ra_max_frame_bytes = AGENT_CONTROL_FRAME_BYTES_MAX, ra_next_request_id = 1\<rparr>,
        Ok \<lparr>rl_server_id = demo_server, rl_max_frame_bytes = AGENT_CONTROL_FRAME_BYTES_MAX, rl_keepalive_interval_ms = 10000\<rparr>)"
proof -
  let ?es = "[register_envelope demo_request, registration_envelope demo_server AGENT_CONTROL_FRAME_BYTES_MAX,
    rejection_envelope (lit ''certificate identity mismatch''), rejection_envelope (lit ''server already connected'')]"
  have mx: "AGENT_CONTROL_FRAME_BYTES_MAX \<noteq> 0" by (simp add: AGENT_CONTROL_FRAME_BYTES_MAX_def)
  have c: "carried (table_codec ?es) AGENT_CONTROL_FRAME_BYTES_MAX e" if "e \<in> set ?es" for e
    using carried_table [OF that _ mx] by simp
  have q: "registration_request_new demo_server (lit ''b'') = Ok demo_request"
    by (simp add: registration_request_new_def demo_request_def AGENT_BUILD_BYTES_MAX_def lit_def len_def len_utf8_def)
  have up: "link_up demo_accept demo_connect" by (simp add: link_up_def demo_accept_def demo_connect_def)
  have l: "length demo_server = 16" by (simp add: demo_server_def)
  from registration_agrees [OF q l up c c c c, of "Some demo_server" demo_registry] show ?thesis
    by (intro exI [of _ "table_codec ?es"]) (simp add: demo_registry_def DEFAULT_KEEPALIVE_INTERVAL_MS_def)
qed

section \<open>Opening a shell through the overlay\<close>

text \<open>What the agent answers to an open request: the manager after it and the reply.\<close>

definition open_outcome ::
  "('vt, 'sk, 'pk) agent_packages \<Rightarrow> agent_answers \<Rightarrow> registered_link \<Rightarrow> agent_open_shell \<Rightarrow> 'vt shell_manager
     \<Rightarrow> ('vt shell_manager \<times> agent_msg \<times> agent_action) option" where
  "open_outcome P X l q m =
     (case validate_open_request (authority P X) (rl_server_id l) q of
        Inl e \<Rightarrow>
          (case map_open_validation_error e of
             (code, txt) \<Rightarrow> Some (m, AgentError (error_code_i32 code) txt False, ActShellRejected code))
      | Inr req \<Rightarrow>
          (case open_shell (gp_avt P) (gp_sha256 P) (gx_world X) req (gx_shell_id X) (gx_token X) (gx_now_ms X) m of
             None \<Rightarrow> None
           | Some (m', Inr opened) \<Rightarrow>
               Some (m', AgentShellOpened (id_to_wire (os_shell_id opened)) (os_reused opened),
                     ActShellOpened (os_shell_id opened) (os_reused opened))
           | Some (m', Inl e) \<Rightarrow>
               (case map_session_error e of
                  (code, txt, retryable) \<Rightarrow>
                    Some (m', AgentError (error_code_i32 code) txt retryable, ActShellRejected code))))"

lemma serve_open_outcome:
  "serve_open P X l rid q m =
     map_option (\<lambda>(m', reply, act). (m', reply_then (gp_codec P) X l (control_envelope l rid reply) act)) (open_outcome P X l q m)"
  by (auto simp: serve_open_def open_outcome_def control_error_def split: sum.split prod.split option.split)

text \<open>The request of the gateway, the turn of the agent on it, and what the gateway makes of the answer.\<close>

definition overlay_open_shell ::
  "('vt, 'sk, 'pk) agent_packages \<Rightarrow> agent_answers \<Rightarrow> registered_link \<Rightarrow> registered_agent \<Rightarrow> agent_shell_request
     \<Rightarrow> 'vt shell_manager \<Rightarrow> ('vt shell_manager \<times> (gateway_error + bytes \<times> bool)) option" where
  "overlay_open_shell P X l ra request m =
     (let C = gp_codec P; up = (\<lambda>f. None);
          sent = fst (snd (gateway_open_shell C \<lparr>lk_write = up, lk_recv = \<lparr>rs_bytes = [], rs_end = StreamFinished\<rparr>\<rparr> request ra)) in
      map_option (\<lambda>(m', r, out, act).
          (m', snd (snd (snd (gateway_open_shell C \<lparr>lk_write = up, lk_recv = \<lparr>rs_bytes = out, rs_end = StreamFinished\<rparr>\<rparr> request ra)))))
        (serve_next P X l \<lparr>rs_bytes = sent, rs_end = StreamFinished\<rparr> m))"

text \<open>What the caller of the gateway should see: the outcome of the session core, or why it was not asked.\<close>

definition open_expected ::
  "('vt, 'sk, 'pk) agent_packages \<Rightarrow> agent_answers \<Rightarrow> bytes \<Rightarrow> agent_open_shell \<Rightarrow> 'vt shell_manager
     \<Rightarrow> ('vt shell_manager \<times> (gateway_error + bytes \<times> bool)) option" where
  "open_expected P X server_id q m =
     (case validate_open_request (authority P X) server_id q of
        Inl e \<Rightarrow> (case map_open_validation_error e of (code, txt) \<Rightarrow> Some (m, Err (GwRemote (error_code_i32 code) txt False)))
      | Inr req \<Rightarrow>
          map_option (\<lambda>(m', r). (m', case r of
              Inr opened \<Rightarrow> Ok (os_shell_id opened, os_reused opened)
            | Inl e \<Rightarrow> (case map_session_error e of
                (code, txt, retryable) \<Rightarrow> Err (GwRemote (error_code_i32 code) txt retryable))))
            (open_shell (gp_avt P) (gp_sha256 P) (gx_world X) req (gx_shell_id X) (gx_token X) (gx_now_ms X) m))"

definition requested_shell :: "registered_agent \<Rightarrow> agent_shell_request \<Rightarrow> agent_open_shell" where
  "requested_shell ra request =
     (case ae_message (open_envelope ra request) of Some (AgentOpenShell q) \<Rightarrow> q | _ \<Rightarrow> undefined)"

lemma open_envelope_message: "ae_message (open_envelope ra request) = Some (AgentOpenShell (requested_shell ra request))"
  by (simp add: requested_shell_def open_envelope_def)

definition ids_wide :: "'vt shell_manager \<Rightarrow> bool" where
  "ids_wide m \<longleftrightarrow> list_all (\<lambda>(sid, e). length sid = 16) (sm_shells m)"

lemma opened_id_wide:
  assumes "sm_inv m" and "ids_wide m" and "length sid = 16"
    and "open_shell A sha256 w req sid token now m = Some (m', Ok opened)"
  shows "length (os_shell_id opened) = 16"
proof (cases "Option.bind (map_of (sm_idempotency m) (rq_user req, rq_idempotency_key req)) (map_of (sm_shells m))")
  case None
  then show ?thesis using assms(3,4)
    by (auto simp: open_shell_def Let_def split: sum.splits if_splits prod.splits option.splits)
next
  case (Some e)
  then obtain k where k: "map_of (sm_shells m) k = Some e" by (auto simp: bind_eq_Some_conv)
  then have "se_id e = k" "length k = 16"
    using sm_inv_entry [OF assms(1) k] assms(2) map_of_SomeD [OF k] by (auto simp: ids_wide_def list_all_iff)
  then show ?thesis using assms(4) Some by (auto simp: open_shell_def Let_def)
qed

text \<open>Two ends of one registered link.\<close>

definition same_link :: "registered_link \<Rightarrow> registered_agent \<Rightarrow> bool" where
  "same_link l ra \<longleftrightarrow>
     rl_server_id l = ra_server_id ra \<and> rl_max_frame_bytes l = ra_max_frame_bytes ra \<and> length (ra_server_id ra) = 16"

lemma gateway_reads_reply:
  assumes "same_link l ra" and "carried C (ra_max_frame_bytes ra) (open_envelope ra request)"
    and "carried C (ra_max_frame_bytes ra) (control_envelope l (ra_next_request_id ra) reply)"
  shows "snd (snd (snd (gateway_open_shell C
      \<lparr>lk_write = (\<lambda>f. None), lk_recv = \<lparr>rs_bytes = frame_of C (control_envelope l (ra_next_request_id ra) reply), rs_end = e\<rparr>\<rparr> request ra)))
    = opened_reply ra (ra_next_request_id ra) (control_envelope l (ra_next_request_id ra) reply)"
  using write_carried [OF assms(2)] read_carried1 [OF assms(3) order_refl]
  by (simp add: gateway_open_shell_def Let_def)



definition demo_shell_request :: agent_shell_request where
  "demo_shell_request = \<lparr>gs_user_id = lit ''u'', gs_connection_grant = as_bytes (lit ''.''), gs_unix_account = None,
     gs_command = None, gs_cols = 80, gs_rows = 24, gs_idempotency_key = replicate 16 3\<rparr>"

definition demo_peer :: registered_agent where
  "demo_peer = \<lparr>ra_server_id = overlay_server, ra_max_frame_bytes = AGENT_CONTROL_FRAME_BYTES_MAX, ra_next_request_id = 1\<rparr>"

definition demo_reply :: agent_envelope where
  "demo_reply = control_envelope overlay_link 1 (AgentShellOpened (id_to_wire overlay_shell) False)"



section \<open>Streaming output\<close>

text \<open>What the agent writes for a sequence of events, and what the gateway reads, event by event.\<close>

fun emit_events ::
  "agent_codec \<Rightarrow> agent_answers \<Rightarrow> bytes \<Rightarrow> attach_stream \<Rightarrow> attachment_event option list \<Rightarrow> bytes \<times> attach_outcome" where
  "emit_events C X server_id st [] = ([], Serving st)"
| "emit_events C X server_id st (ev # evs) =
     (case attachment_event C X server_id st ev of
        (frame, Serving st') \<Rightarrow> apfst ((@) frame) (emit_events C X server_id st' evs)
      | (frame, Returned r) \<Rightarrow> (frame, Returned r))"

fun read_events ::
  "agent_codec \<Rightarrow> bytes \<Rightarrow> bytes \<Rightarrow> nat \<Rightarrow> recv_stream \<Rightarrow> (gateway_error + agent_attachment_event) list" where
  "read_events C server_id shell_id 0 recv = []"
| "read_events C server_id shell_id (Suc n) recv =
     (case next_event C server_id shell_id recv of
        (r, Inl e) \<Rightarrow> [Err e]
      | (r, Inr ev) \<Rightarrow> Ok ev # read_events C server_id shell_id n r)"

definition exit_envelope :: "bytes \<Rightarrow> bytes \<Rightarrow> exit_summary \<Rightarrow> agent_envelope" where
  "exit_envelope server_id shell_id x =
     attachment_envelope server_id shell_id 0 (AgentExited (sint (exit_code x)) (\<not> success x \<and> exit_code x = 0) [])"

lemma next_event_frame:
  assumes "length server_id = 16" and "length shell_id = 16"
    and "carried C AGENT_ATTACHMENT_FRAME_BYTES_MAX (attachment_envelope server_id shell_id 0 m)"
  shows "next_event C server_id shell_id \<lparr>rs_bytes = frame_of C (attachment_envelope server_id shell_id 0 m) @ rest, rs_end = e\<rparr>
    = (\<lparr>rs_bytes = rest, rs_end = e\<rparr>, event_of server_id shell_id (attachment_envelope server_id shell_id 0 m))"
  using read_carried [OF assms(3) order_refl] by (simp add: next_event_def)

lemma event_of_frame:
  assumes "length server_id = 16" and "length shell_id = 16"
  shows "event_of server_id shell_id (attachment_envelope server_id shell_id 0 (AgentOutput d)) = Ok (EventOutput d)"
    and "event_of server_id shell_id (exit_envelope server_id shell_id x)
      = Ok (EventExited (sint (exit_code x)) (\<not> success x \<and> exit_code x = 0) [])"
  using assms
  by (simp_all add: event_of_def gateway_attachment_scope_def attachment_envelope_def exit_envelope_def wire_id_16)

text \<open>
  Output crosses the overlay unchanged: the chunks a shell produces and its exit, sent by the
  agent on an attachment stream that works, are read by the gateway as the same chunks in the
  same order followed by the same exit, and the agent's task has then returned.
\<close>

theorem overlay_stream_exact:
  assumes "length server_id = 16" and "length (st_shell_id st) = 16" and "gx_write X = (\<lambda>f. None)"
    and "list_all (\<lambda>d. length d \<le> AGENT_TERMINAL_OUTPUT_BYTES_MAX
      \<and> carried C AGENT_ATTACHMENT_FRAME_BYTES_MAX (attachment_envelope server_id (st_shell_id st) 0 (AgentOutput d))) ds"
    and "carried C AGENT_ATTACHMENT_FRAME_BYTES_MAX (exit_envelope server_id (st_shell_id st) x)"
  shows "\<exists>bs. emit_events C X server_id st (map (\<lambda>d. Some (Output d)) ds @ [Some (ExitedEvent x)]) = (bs, Returned (Ok ()))
    \<and> read_events C server_id (st_shell_id st) (Suc (length ds)) \<lparr>rs_bytes = bs @ rest, rs_end = e\<rparr>
      = map (\<lambda>d. Ok (EventOutput d)) ds @ [Ok (EventExited (sint (exit_code x)) (\<not> success x \<and> exit_code x = 0) [])]"
  using assms(4)
proof (induction ds)
  case Nil
  let ?env = "exit_envelope server_id (st_shell_id st) x"
  have "attachment_event C X server_id st (Some (ExitedEvent x)) = (frame_of C ?env, Returned (Ok ()))"
    using write_carried [OF assms(5)] assms(3)
    by (simp add: attachment_event_def refuse_attachment_def send_attachment_def exit_envelope_def Let_def)
  moreover have "next_event C server_id (st_shell_id st) \<lparr>rs_bytes = frame_of C ?env @ rest, rs_end = e\<rparr>
      = (\<lparr>rs_bytes = rest, rs_end = e\<rparr>, Ok (EventExited (sint (exit_code x)) (\<not> success x \<and> exit_code x = 0) []))"
    using next_event_frame [OF assms(1,2)] assms(5) event_of_frame(2) [OF assms(1,2)] by (simp add: exit_envelope_def)
  ultimately show ?case by simp
next
  case (Cons d ds)
  let ?env = "attachment_envelope server_id (st_shell_id st) 0 (AgentOutput d)"
  have c: "carried C AGENT_ATTACHMENT_FRAME_BYTES_MAX ?env" "length d \<le> AGENT_TERMINAL_OUTPUT_BYTES_MAX" using Cons.prems by simp_all
  have ev: "attachment_event C X server_id st (Some (Output d)) = (frame_of C ?env, Serving st)"
    using write_carried [OF c(1)] c(2) assms(3) by (simp add: attachment_event_def send_attachment_def Let_def)
  obtain bs where bs: "emit_events C X server_id st (map (\<lambda>d. Some (Output d)) ds @ [Some (ExitedEvent x)]) = (bs, Returned (Ok ()))"
    "read_events C server_id (st_shell_id st) (Suc (length ds)) \<lparr>rs_bytes = bs @ rest, rs_end = e\<rparr>
      = map (\<lambda>d. Ok (EventOutput d)) ds @ [Ok (EventExited (sint (exit_code x)) (\<not> success x \<and> exit_code x = 0) [])]"
    using Cons by auto
  have "next_event C server_id (st_shell_id st) \<lparr>rs_bytes = (frame_of C ?env @ bs) @ rest, rs_end = e\<rparr>
      = (\<lparr>rs_bytes = bs @ rest, rs_end = e\<rparr>, Ok (EventOutput d))"
    using next_event_frame [OF assms(1,2) c(1), of "bs @ rest" e] event_of_frame(1) [OF assms(1,2)] by simp
  then show ?case using ev bs
    by (intro exI [of _ "frame_of C ?env @ bs"]) (simp del: read_events.simps add: read_events.simps(2) [of _ _ _ "Suc (length ds)"])
qed

definition demo_stream :: attach_stream where
  "demo_stream = \<lparr>st_shell_id = overlay_shell, st_attachment_id = 1, st_user_id = lit ''u'', st_expires_at_ms = 1000\<rparr>"

theorem overlay_stream_exact_witness:
  "\<exists>C bs. emit_events C overlay_answers overlay_server demo_stream [Some (Output [65]), Some (Output [66]), Some (ExitedEvent lost_exit)]
      = (bs, Returned (Ok ()))
    \<and> read_events C overlay_server overlay_shell 3 \<lparr>rs_bytes = bs, rs_end = StreamFinished\<rparr>
      = [Ok (EventOutput [65]), Ok (EventOutput [66]), Ok (EventExited 255 False [])]"
proof -
  let ?env = "\<lambda>d. attachment_envelope overlay_server overlay_shell 0 (AgentOutput d)"
  let ?es = "[?env [65], ?env [66], exit_envelope overlay_server overlay_shell lost_exit]"
  have mx: "AGENT_ATTACHMENT_FRAME_BYTES_MAX \<noteq> 0" by (simp add: AGENT_ATTACHMENT_FRAME_BYTES_MAX_def FRAME_BYTES_DEFAULT_def)
  have c: "carried (table_codec ?es) AGENT_ATTACHMENT_FRAME_BYTES_MAX e" if "e \<in> set ?es" for e
    using carried_table [OF that _ mx] by simp
  have l: "length overlay_server = 16" "length (st_shell_id demo_stream) = 16" "st_shell_id demo_stream = overlay_shell"
    by (simp_all add: overlay_server_def overlay_shell_def demo_stream_def)
  have ds: "list_all (\<lambda>d. length d \<le> AGENT_TERMINAL_OUTPUT_BYTES_MAX
      \<and> carried (table_codec ?es) AGENT_ATTACHMENT_FRAME_BYTES_MAX
          (attachment_envelope overlay_server (st_shell_id demo_stream) 0 (AgentOutput d))) [[65], [66]]"
    using c by (simp add: l(3) AGENT_TERMINAL_OUTPUT_BYTES_MAX_def)
  from overlay_stream_exact [OF l(1,2) _ ds, of overlay_answers lost_exit "[]" StreamFinished] c l(3) show ?thesis
    by (intro exI [of _ "table_codec ?es"]) (auto simp: lost_exit_def numeral_3_eq_3)
qed


section \<open>Reconnecting\<close>

lemma supervisor_run_bounds:
  assumes "policy_validate p = Ok p" and "rp_initial_delay p \<le> delay" and "delay \<le> rp_maximum_delay p"
    and "rp_maximum_delay p \<le> DURATION_MAX"
  shows "list_all (\<lambda>d. rp_initial_delay p \<le> d \<and> d \<le> rp_maximum_delay p) (fst (supervisor_run p rounds delay st))"
  using assms(2,3)
proof (induction rounds arbitrary: delay st)
  case (Cons registered rounds)
  have p: "rp_initial_delay p \<le> rp_maximum_delay p" using assms(1) by (auto simp: policy_validate_def split: if_splits)
  then show ?case using Cons assms(4)
    by (auto simp: supervisor_round_def Let_def saturating_mul2_def split: prod.splits)
qed simp

lemma supervisor_run_append:
  "\<exists>delay' st'. \<forall>ys. fst (supervisor_run p (xs @ ys) delay st)
     = fst (supervisor_run p xs delay st) @ fst (supervisor_run p ys delay' st')"
proof (induction xs arbitrary: delay st)
  case (Cons registered xs)
  obtain o' st1 slept delay1 where r: "supervisor_round p registered delay st = (o', st1, slept, delay1)"
    by (metis prod_cases4)
  then show ?case using Cons.IH [of delay1 st1] by simp
qed auto

lemma min_doubled: "min (min (2 * d) m * 2 ^ k) m = min (d * 2 ^ Suc k) (m :: nat)"
proof (cases "2 * d \<le> m")
  case True
  then show ?thesis by (simp add: mult_ac)
next
  case False
  have "m * 1 \<le> m * 2 ^ k" "2 * d * 1 \<le> 2 * d * 2 ^ k" by (rule mult_le_mono2, simp)+
  then have "m \<le> m * 2 ^ k" "m \<le> 2 * d * 2 ^ k" using False by linarith+
  moreover have "d * 2 ^ Suc k = 2 * d * 2 ^ k" by simp
  ultimately have "m \<le> m * 2 ^ k" "m \<le> d * 2 ^ Suc k" by (simp_all only:)
  then show ?thesis using False by (simp add: min.absorb2 del: power_Suc)
qed

lemma min_saturating_mul2: "m \<le> DURATION_MAX \<Longrightarrow> min (saturating_mul2 d) m = min (2 * d) m"
  by (simp add: saturating_mul2_def)

lemma supervisor_run_failures:
  assumes "rp_maximum_delay p \<le> DURATION_MAX" and "delay \<le> rp_maximum_delay p"
  shows "fst (supervisor_run p (replicate n False) delay st) = map (\<lambda>k. min (delay * 2 ^ k) (rp_maximum_delay p)) [0..<n]"
  using assms(2)
proof (induction n arbitrary: delay st)
  case (Suc n)
  have "map (\<lambda>k. min (delay * 2 ^ k) (rp_maximum_delay p)) [0..<Suc n]
      = delay # map (\<lambda>k. min (delay * 2 ^ Suc k) (rp_maximum_delay p)) [0..<n]"
    using Suc.prems by (simp add: upt_conv_Cons map_Suc_upt [symmetric] comp_def del: upt_Suc power_Suc)
  then show ?case using Suc.IH [of "min (2 * delay) (rp_maximum_delay p)"]
    by (simp add: supervisor_round_def Let_def min_saturating_mul2 [OF assms(1)] min_doubled del: power_Suc upt_Suc)
qed simp

text \<open>
  (C18) The reconnect loop backs off within its policy: for a valid policy every delay lies between the
  initial and the maximum delay whatever the outcomes, consecutive failures double the delay up
  to the maximum, and a successful registration makes the next delay the initial one again.
\<close>

theorem reconnect_backoff:
  assumes "supervisor_new p audience = Ok p" and "rp_maximum_delay p \<le> DURATION_MAX"
  shows "list_all (\<lambda>d. rp_initial_delay p \<le> d \<and> d \<le> rp_maximum_delay p)
           (fst (supervisor_run p rounds (rp_initial_delay p) agent_status_default))
     \<and> fst (supervisor_run p (rounds @ True # replicate n False) (rp_initial_delay p) agent_status_default)
       = fst (supervisor_run p rounds (rp_initial_delay p) agent_status_default)
         @ rp_initial_delay p # map (\<lambda>k. min (rp_initial_delay p * 2 ^ Suc k) (rp_maximum_delay p)) [0..<n]"
proof -
  have v: "policy_validate p = Ok p" using assms(1) by (auto simp: supervisor_new_def split: if_splits)
  then have le: "rp_initial_delay p \<le> rp_maximum_delay p" by (auto simp: policy_validate_def split: if_splits)
  have step: "fst (supervisor_run p (True # replicate n False) delay st)
      = rp_initial_delay p # map (\<lambda>k. min (rp_initial_delay p * 2 ^ Suc k) (rp_maximum_delay p)) [0..<n]" for delay st
    by (simp add: supervisor_round_def Let_def min_saturating_mul2 [OF assms(2)] min_doubled
        supervisor_run_failures [OF assms(2)] del: power_Suc)
  obtain delay st where "\<forall>ys. fst (supervisor_run p (rounds @ ys) (rp_initial_delay p) agent_status_default)
     = fst (supervisor_run p rounds (rp_initial_delay p) agent_status_default) @ fst (supervisor_run p ys delay st)"
    using supervisor_run_append by blast
  then show ?thesis
    using step [of delay st] supervisor_run_bounds [OF v order_refl le assms(2)] by simp
qed

lemma reconnect_backoff_witness:
  "fst (supervisor_run reconnect_policy_default [False, False, True, False, False] (rp_initial_delay reconnect_policy_default) agent_status_default)
   = [250000000, 500000000, 250000000, 500000000, 1000000000]"
  using reconnect_backoff [of reconnect_policy_default "lit ''holdfast''" "[False, False]" "Suc (Suc 0)"]
  by (simp add: supervisor_new_def policy_validate_def reconnect_policy_default_def DURATION_MAX_def
      supervisor_round_def Let_def saturating_mul2_def)

section \<open>A dropped read\<close>

text \<open>
  A frame is read in two parts, so a read dropped between them loses the first: of two frames on a
  stream the reader that gave up after the length of the first takes the payload of the first and
  the length of the second for a length, and refuses it.
\<close>

lemma dropped_read_desynchronises:
  fixes es :: "agent_envelope list"
  defines "r \<equiv> \<lparr>rs_bytes = [0, 0, 0, 1, 1, 0, 0, 0, 1, 0], rs_end = StreamFinished\<rparr>"
  assumes "2 \<le> length es"
  shows "snd (read_envelope (table_codec es) AGENT_ATTACHMENT_FRAME_BYTES_MAX r) = Ok (es ! 1)
     \<and> read_waits (table_codec es) AGENT_ATTACHMENT_FRAME_BYTES_MAX 4 r
     \<and> snd (read_envelope (table_codec es) AGENT_ATTACHMENT_FRAME_BYTES_MAX (lose 4 r))
       = Err (IoFrame (TooLarge (2 ^ 24) AGENT_ATTACHMENT_FRAME_BYTES_MAX))"
  using assms(2)
  by (simp add: r_def read_waits_def lose_def read_envelope_def read_exact_def from_be_bytes_def
      table_codec_def decode_agent_payload_def LENGTH_PREFIX_BYTES_def FRAME_BYTES_DEFAULT_def checked_payload_len_def AGENT_ATTACHMENT_FRAME_BYTES_MAX_def Let_def)

end
