(* ===== verification/Socks.thy ===== *)
theory Socks
  imports Forward
begin

text \<open>
  The loopback SOCKS5 proxy of \<open>crates/native-client/src/socks.rs\<close>: the handshake with a local
  application, the opening of a forward on the daemon and the relay between the two. Texts of IP
  addresses are the record \<open>ip_text\<close>, what \<open>std::net\<close> prints and parses. \<open>Socks_Tunnel\<close> runs the
  relay against the forward of the daemon with the frames between them in flight.
\<close>

section \<open>The handshake\<close>

datatype ip_addr = V4 bytes | V6 bytes

record ip_text =
  it_show :: "ip_addr \<Rightarrow> rstring"
  it_parse :: "rstring \<Rightarrow> ip_addr option"

definition text_is_ip :: "ip_text \<Rightarrow> rstring \<Rightarrow> bool" where
  "text_is_ip I s \<longleftrightarrow> it_parse I s \<noteq> None"

datatype socks_error =
    SkIo
  | SkMsg rstring
  | SkRejected error_code

definition MAX_CONNECTIONS :: nat where "MAX_CONNECTIONS = 16"

text \<open>
  The listener binds to loopback only and serves at most sixteen local connections; more are closed at once. When
  accepting fails it ends, and with it every connection it serves. The state is the number of them.
\<close>

datatype proxy_event = PxAccepted bool | PxAcceptFailed | PxClientEnded

definition proxy_start :: "bool \<Rightarrow> nat option" where
  "proxy_start loopback = (if loopback then Some 0 else None)"

fun proxy_turn :: "proxy_event \<Rightarrow> nat \<Rightarrow> nat option" where
  "proxy_turn (PxAccepted loopback) n = (if \<not> loopback \<or> n \<ge> MAX_CONNECTIONS then Some n else Some (n + 1))"
| "proxy_turn PxAcceptFailed n = None"
| "proxy_turn PxClientEnded n = Some (n - 1)"

lemma proxy_bounded: "n \<le> MAX_CONNECTIONS \<Longrightarrow> proxy_turn ev n = Some n' \<Longrightarrow> n' \<le> MAX_CONNECTIONS"
  by (cases ev) (auto split: if_splits)

definition be16 :: "nat \<Rightarrow> bytes" where
  "be16 n = [of_nat (n div 256), of_nat (n mod 256)]"

definition socks_reply :: "u8 \<Rightarrow> ip_addr \<Rightarrow> nat \<Rightarrow> bytes" where
  "socks_reply code ip port =
     [5, code, 0] @ (case ip of V4 octets \<Rightarrow> 1 # octets | V6 octets \<Rightarrow> 4 # octets) @ be16 port"

definition socks_reject :: "u8 \<Rightarrow> bytes" where
  "socks_reject code = socks_reply code (V4 [0, 0, 0, 0]) 0"

text \<open>
  The bytes the application has sent are read from the front; a read that finds too few fails, by
  the end of the stream or by the deadline of the handshake. \<open>W\<close> says which writes succeed.
\<close>

definition tcp_read :: "nat \<Rightarrow> bytes \<Rightarrow> (bytes \<times> bytes) option" where
  "tcp_read n inp = (if n \<le> length inp then Some (take n inp, drop n inp) else None)"

definition socks_refuse :: "(bytes \<Rightarrow> bool) \<Rightarrow> u8 \<Rightarrow> rstring \<Rightarrow> bytes \<Rightarrow> bytes \<times> (socks_error + 'a)" where
  "socks_refuse W code txt out =
     (if W (socks_reject code) then (out @ socks_reject code, Err (SkMsg txt)) else (out, Err SkIo))"

definition socks_host :: "ip_text \<Rightarrow> u8 \<Rightarrow> bytes \<Rightarrow> (rstring \<times> bytes) option" where
  "socks_host I kind inp =
     (if kind = 1 then map_option (apfst (\<lambda>ip. it_show I (V4 ip))) (tcp_read 4 inp)
      else if kind = 4 then map_option (apfst (\<lambda>ip. it_show I (V6 ip))) (tcp_read 16 inp)
      else
        (case tcp_read 1 inp of
           None \<Rightarrow> None
         | Some (n, inp1) \<Rightarrow>
             map_option (apfst (\<lambda>host. case from_utf8 host of Inl _ \<Rightarrow> [] | Inr s \<Rightarrow> s))
               (tcp_read (unat (hd n)) inp1)))"

text \<open>The bytes written, and the destination with the bytes not yet read.\<close>

definition socks_destination ::
  "ip_text \<Rightarrow> (bytes \<Rightarrow> bool) \<Rightarrow> bytes \<Rightarrow> bytes \<Rightarrow> bytes \<times> (socks_error + (rstring \<times> nat) \<times> bytes)" where
  "socks_destination I W out inp =
     (case tcp_read 4 inp of
        None \<Rightarrow> (out, Err SkIo)
      | Some (header, inp1) \<Rightarrow>
          if header ! 0 \<noteq> 5 \<or> header ! 2 \<noteq> 0 then socks_refuse W 1 (lit ''invalid SOCKS request'') out
          else if header ! 1 \<noteq> 1 then socks_refuse W 7 (lit ''only SOCKS CONNECT is supported'') out
          else if header ! 3 \<noteq> 1 \<and> header ! 3 \<noteq> 4 \<and> header ! 3 \<noteq> 3 then
            socks_refuse W 8 (lit ''unsupported SOCKS address type'') out
          else
            (case socks_host I (header ! 3) inp1 of
               None \<Rightarrow> (out, Err SkIo)
             | Some (host, inp2) \<Rightarrow>
                 (case tcp_read 2 inp2 of
                    None \<Rightarrow> (out, Err SkIo)
                  | Some (p, rest) \<Rightarrow>
                      (let port = unat (p ! 0) * 256 + unat (p ! 1) in
                       if \<not> valid_destination (text_is_ip I) host (of_nat port) then
                         socks_refuse W 8 (lit ''invalid SOCKS destination'') out
                       else (out, Ok ((host, port), rest))))))"

definition socks_request ::
  "ip_text \<Rightarrow> (bytes \<Rightarrow> bool) \<Rightarrow> bytes \<Rightarrow> bytes \<times> (socks_error + (rstring \<times> nat) \<times> bytes)" where
  "socks_request I W inp =
     (case tcp_read 2 inp of
        None \<Rightarrow> ([], Err SkIo)
      | Some (greeting, inp1) \<Rightarrow>
          if \<not> (greeting ! 0 = 5 \<and> greeting ! 1 > 0) then ([], Err (SkMsg (lit ''SOCKS5 required'')))
          else
            (case tcp_read (unat (greeting ! 1)) inp1 of
               None \<Rightarrow> ([], Err SkIo)
             | Some (methods, inp2) \<Rightarrow>
                 (let accepted = (0 \<in> set methods); answer = [5, if accepted then 0 else 255] in
                  if \<not> W answer then ([], Err SkIo)
                  else if \<not> accepted then
                    (answer, Err (SkMsg (lit ''no supported SOCKS authentication method'')))
                  else socks_destination I W answer inp2)))"

section \<open>Opening the forward\<close>

definition plain :: "msg \<Rightarrow> envelope" where
  "plain m = \<lparr>ev_request_id = 0, ev_server_id = [], ev_shell_id = [], ev_message = Some m\<rparr>"

definition forward_request :: "rstring \<Rightarrow> nat \<Rightarrow> envelope" where
  "forward_request host port = (plain (MOpenTcpForward host port))\<lparr>ev_request_id := 1\<rparr>"

definition forward_opened :: "ip_text \<Rightarrow> envelope \<Rightarrow> socks_error + ip_addr \<times> nat" where
  "forward_opened I env =
     (if ev_request_id env \<noteq> 1 then Err (SkMsg (lit ''wrong TCP forwarding response''))
      else
        (case ev_message env of
           Some (MTcpForwardOpened ip port) \<Rightarrow>
             if port > 65535 then Err SkIo
             else if port = 0 then Err (SkMsg (lit ''invalid bound port''))
             else (case it_parse I ip of None \<Rightarrow> Err SkIo | Some a \<Rightarrow> Ok (a, port))
         | Some (MError code _ _) \<Rightarrow> Err (SkRejected code)
         | _ \<Rightarrow> Err (SkMsg (lit ''unexpected TCP forwarding response''))))"

text \<open>
  Everything before the relay. \<open>answer\<close> is what the channel gives back for the request: an error of the
  transport, its timeout, or the first envelope. The bytes for the application and those the
  relay finds unread.
\<close>

definition socks_serve ::
  "ip_text \<Rightarrow> (bytes \<Rightarrow> bool) \<Rightarrow> (envelope \<Rightarrow> envelope option) \<Rightarrow> bytes \<Rightarrow> bytes \<times> (socks_error + bytes)" where
  "socks_serve I W answer inp =
     (case socks_request I W inp of
        (out, Inl e) \<Rightarrow> (out, Err e)
      | (out, Inr ((host, port), rest)) \<Rightarrow>
          (case (case answer (forward_request host port) of None \<Rightarrow> Err SkIo | Some env \<Rightarrow> forward_opened I env) of
             Inl e \<Rightarrow> if W (socks_reject 1) then (out @ socks_reject 1, Err e) else (out, Err SkIo)
           | Inr (ip, bound) \<Rightarrow>
               if W (socks_reply 0 ip bound) then (out @ socks_reply 0 ip bound, Ok rest) else (out, Err SkIo)))"

section \<open>The relay\<close>

text \<open>
  The variables of \<open>relay\<close>, with the frames sent and taken and what the application's socket was
  given as history. A frame is the data of one message, or \<open>None\<close> for the end of file.
\<close>

record socks_relay =
  sr_waiting_ack :: bool
  sr_local_eof :: bool
  sr_remote_eof :: bool
  sr_socket :: bytes
  sr_shutdown :: bool
  sr_sent :: "bytes option list"
  sr_got :: "bytes option list"

definition relay_new :: socks_relay where
  "relay_new = \<lparr>sr_waiting_ack = False, sr_local_eof = False, sr_remote_eof = False,
                sr_socket = [], sr_shutdown = False, sr_sent = [], sr_got = []\<rparr>"

definition relay_finished :: "socks_relay \<Rightarrow> bool" where
  "relay_finished s \<longleftrightarrow> sr_local_eof s \<and> sr_remote_eof s \<and> \<not> sr_waiting_ack s"

definition relay_may_read :: "socks_relay \<Rightarrow> bool" where
  "relay_may_read s \<longleftrightarrow> \<not> sr_local_eof s \<and> \<not> sr_waiting_ack s"

text \<open>The arm that reads the application's socket, up to one message of data: the frame sent.\<close>

definition relay_read :: "bytes \<Rightarrow> socks_relay \<Rightarrow> socks_relay \<times> envelope" where
  "relay_read data s =
     (s\<lparr>sr_local_eof := (data = []), sr_waiting_ack := True,
        sr_sent := sr_sent s @ [if data = [] then None else Some data]\<rparr>,
      plain (if data = [] then MTcpForwardEof else MTcpForwardData data))"

text \<open>The arm that receives an envelope: the frames sent back, or \<open>None\<close> when the relay gives up.\<close>

definition relay_receive :: "envelope \<Rightarrow> socks_relay \<Rightarrow> (socks_relay \<times> envelope list) option" where
  "relay_receive env s =
     (if \<not> (ev_request_id env = 0 \<and> ev_server_id env = [] \<and> ev_shell_id env = []) then None
      else
        (case ev_message env of
           Some MTcpForwardAck \<Rightarrow> if sr_waiting_ack s then Some (s\<lparr>sr_waiting_ack := False\<rparr>, []) else None
         | Some (MTcpForwardData data) \<Rightarrow>
             if \<not> sr_remote_eof s \<and> data \<noteq> [] \<and> length data \<le> FORWARD_DATA_BYTES_MAX then
               Some (s\<lparr>sr_socket := sr_socket s @ data, sr_got := sr_got s @ [Some data]\<rparr>, [plain MTcpForwardAck])
             else None
         | Some MTcpForwardEof \<Rightarrow>
             if \<not> sr_remote_eof s then
               Some (s\<lparr>sr_remote_eof := True, sr_shutdown := True, sr_got := sr_got s @ [None]\<rparr>, [plain MTcpForwardAck])
             else None
         | _ \<Rightarrow> None))"

section \<open>What a request is\<close>

datatype socks_addr = AddrIp ip_addr | AddrName bytes

fun addr_wire :: "socks_addr \<Rightarrow> bytes" where
  "addr_wire (AddrIp (V4 octets)) = 1 # octets"
| "addr_wire (AddrIp (V6 octets)) = 4 # octets"
| "addr_wire (AddrName host) = 3 # of_nat (length host) # host"

fun addr_wf :: "socks_addr \<Rightarrow> bool" where
  "addr_wf (AddrIp (V4 octets)) = (length octets = 4)"
| "addr_wf (AddrIp (V6 octets)) = (length octets = 16)"
| "addr_wf (AddrName host) = (length host < 256)"

fun addr_text :: "ip_text \<Rightarrow> socks_addr \<Rightarrow> rstring" where
  "addr_text I (AddrIp ip) = it_show I ip"
| "addr_text I (AddrName host) = (case from_utf8 host of Inl _ \<Rightarrow> [] | Inr s \<Rightarrow> s)"

lemma tcp_read_Some: "tcp_read n inp = Some (a, rest) \<longleftrightarrow> inp = a @ rest \<and> length a = n"
  by (auto simp: tcp_read_def min_def split: if_splits)

lemma length_2: "length xs = 2 \<longleftrightarrow> (\<exists>a b. xs = [a, b])"
  by (auto simp: numeral_2_eq_2 length_Suc_conv)

lemma length_4: "length xs = 4 \<longleftrightarrow> (\<exists>a b c d. xs = [a, b, c, d])"
  by (auto simp: eval_nat_numeral length_Suc_conv)

lemma be16_value: "unat (a :: u8) * 256 + unat (b :: u8) < 65536"
  using u8_unat_less [of a] u8_unat_less [of b] by linarith

lemma be16_bytes: "n < 65536 \<Longrightarrow> \<exists>a b. be16 n = [a, b] \<and> unat a * 256 + unat b = n"
  by (simp add: be16_def unat_of_nat less_mult_imp_div_less)

lemma be16_iff: "be16 (unat a * 256 + unat b) = [a, b]"
proof -
  have "(unat a * 256 + unat b) div 256 = unat a" "(unat a * 256 + unat b) mod 256 = unat b"
    using u8_unat_less [of b] by simp_all
  then show ?thesis by (simp add: be16_def)
qed

lemma socks_host_Some:
  assumes "kind = 1 \<or> kind = 4 \<or> kind = 3"
  shows "socks_host I kind inp = Some (host, rest) \<longleftrightarrow>
     (\<exists>addr. kind # inp = addr_wire addr @ rest \<and> addr_wf addr \<and> host = addr_text I addr)"
    (is "?l \<longleftrightarrow> (\<exists>addr. ?r addr)")
proof
  assume l: ?l
  from assms consider (v4) "kind = 1" | (v6) "kind = 4" | (name) "kind = 3" by blast
  then show "\<exists>addr. ?r addr"
  proof cases
    case v4
    then obtain ip where "inp = ip @ rest" "length ip = 4" "host = it_show I (V4 ip)"
      using l by (auto simp: socks_host_def tcp_read_Some)
    then show ?thesis using v4 by (intro exI [of _ "AddrIp (V4 ip)"]) simp
  next
    case v6
    then obtain ip where "inp = ip @ rest" "length ip = 16" "host = it_show I (V6 ip)"
      using l by (auto simp: socks_host_def tcp_read_Some)
    then show ?thesis using v6 by (intro exI [of _ "AddrIp (V6 ip)"]) simp
  next
    case name
    then obtain n h where h: "inp = n # h @ rest" "length h = unat n"
        "host = (case from_utf8 h of Inl _ \<Rightarrow> [] | Inr s \<Rightarrow> s)"
      using l by (auto simp: socks_host_def tcp_read_Some length_Suc_conv split: option.splits)
    then show ?thesis using name u8_unat_less [of n]
      by (intro exI [of _ "AddrName h"]) simp
  qed
next
  assume "\<exists>addr. ?r addr"
  then obtain addr where r: "?r addr" ..
  show ?l
  proof (cases addr)
    case (AddrIp ip)
    then show ?thesis using r by (cases ip) (auto simp: socks_host_def tcp_read_def)
  next
    case (AddrName h)
    then have "inp = of_nat (length h) # h @ rest" "kind = 3" "length h < 256" using r by auto
    then show ?thesis using r AddrName by (simp add: socks_host_def tcp_read_def unat_of_nat)
  qed
qed

lemma socks_refuse_fails [simp]: "socks_refuse W code txt out \<noteq> (out', Ok x)"
  by (simp add: socks_refuse_def)

lemma socks_destination_Ok:
  "socks_destination I W out inp = (out', Ok ((host, port), rest)) \<longleftrightarrow>
     out' = out \<and> port < 65536 \<and> valid_destination (text_is_ip I) host (of_nat port)
     \<and> (\<exists>addr. inp = [5, 1, 0] @ addr_wire addr @ be16 port @ rest \<and> addr_wf addr \<and> host = addr_text I addr)"
    (is "?l \<longleftrightarrow> ?r")
proof
  assume l: ?l
  obtain kind inp1 inp2 p q where h: "inp = [5, 1, 0, kind] @ inp1" "kind = 1 \<or> kind = 4 \<or> kind = 3"
    "socks_host I kind inp1 = Some (host, inp2)" "inp2 = [p, q] @ rest" "port = unat p * 256 + unat q"
    "valid_destination (text_is_ip I) host (of_nat port)" "out' = out"
    using l by (auto simp: socks_destination_def tcp_read_Some length_2 length_4 Let_def
        split: option.splits if_splits)
  then obtain addr where "kind # inp1 = addr_wire addr @ inp2" "addr_wf addr" "host = addr_text I addr"
    by (auto simp: socks_host_Some)
  then show ?r using h be16_value [of p q] be16_iff [of p q] by auto
next
  assume r: ?r
  then obtain addr where a: "inp = [5, 1, 0] @ addr_wire addr @ be16 port @ rest" "addr_wf addr" "host = addr_text I addr"
    by auto
  obtain p q where p: "be16 port = [p, q]" "unat p * 256 + unat q = port" using r be16_bytes by blast
  obtain kind inp1 where k: "addr_wire addr = kind # inp1" "kind = 1 \<or> kind = 4 \<or> kind = 3"
    by (cases addr rule: addr_wire.cases) auto
  then have "kind # inp1 @ [p, q] @ rest = addr_wire addr @ [p, q] @ rest" by simp
  then have "socks_host I kind (inp1 @ [p, q] @ rest) = Some (host, [p, q] @ rest)"
    using a(2,3) by (subst socks_host_Some [OF k(2)]) blast
  then show ?l using r a(1) p k by (simp add: socks_destination_def tcp_read_def Let_def) auto
qed

text \<open>
  (C24) The proxy accepts a handshake exactly when it is a SOCKS5 greeting that offers no
  authentication, followed by a CONNECT request for a valid destination; it then returns that destination and port,
  has answered the greeting and nothing else, and has read nothing beyond the request.
\<close>

theorem socks_request_exact:
  "socks_request I W inp = (out, Ok ((host, port), rest)) \<longleftrightarrow>
     (\<exists>methods addr.
        inp = [5, of_nat (length methods)] @ methods @ [5, 1, 0] @ addr_wire addr @ be16 port @ rest
        \<and> length methods < 256 \<and> 0 \<in> set methods \<and> addr_wf addr \<and> host = addr_text I addr
        \<and> port < 65536 \<and> valid_destination (text_is_ip I) host (of_nat port)
        \<and> W [5, 0] \<and> out = [5, 0])"
    (is "?l \<longleftrightarrow> (\<exists>methods addr. ?r methods addr)")
proof
  assume l: ?l
  obtain n methods inp2 where g: "inp = [5, n] @ methods @ inp2" "length methods = unat n" "0 \<in> set methods"
    "W [5, 0]" "socks_destination I W [5, 0] inp2 = (out, Ok ((host, port), rest))"
    using l by (auto simp: socks_request_def tcp_read_Some length_2 Let_def split: option.splits if_splits)
  moreover have "of_nat (length methods) = n" using g(2) by simp
  moreover obtain addr where "inp2 = [5, 1, 0] @ addr_wire addr @ be16 port @ rest" "addr_wf addr"
      "host = addr_text I addr" "port < 65536" "valid_destination (text_is_ip I) host (of_nat port)" "out = [5, 0]"
    using g(5) by (auto simp: socks_destination_Ok)
  ultimately have "?r methods addr" using u8_unat_less [of n] by simp
  then show "\<exists>methods addr. ?r methods addr" by blast
next
  assume "\<exists>methods addr. ?r methods addr"
  then obtain methods addr where r: "?r methods addr" by blast
  have n: "unat (of_nat (length methods) :: u8) = length methods" using r by (simp add: unat_of_nat)
  then have "(of_nat (length methods) :: u8) > 0" using r by (auto simp: word_less_nat_alt)
  moreover have "socks_destination I W [5, 0] ([5, 1, 0] @ addr_wire addr @ be16 port @ rest) = (out, Ok ((host, port), rest))"
    using r by (subst socks_destination_Ok) auto
  ultimately show ?l using r n by (simp add: socks_request_def tcp_read_def Let_def)
qed

end
