(* ===== verification/Socks_Tunnel.thy ===== *)
theory Socks_Tunnel
  imports Socks
begin

text \<open>
  The proxy's relay against the daemon's forward: the frames between them travel in order and
  arrive at any time, either side may fail at any time. What the two ends promise together: every
  byte arrives once and in order, neither side ever refuses a frame of the other, and a relay that
  ends well has delivered everything.
\<close>

section \<open>Frames\<close>

definition frame_of :: "envelope \<Rightarrow> bytes option option" where
  "frame_of env =
     (case ev_message env of Some (MTcpForwardData data) \<Rightarrow> Some (Some data) | Some MTcpForwardEof \<Rightarrow> Some None | _ \<Rightarrow> None)"

definition frames :: "envelope list \<Rightarrow> bytes option list" where
  "frames es = List.map_filter frame_of es"

definition is_ack :: "envelope \<Rightarrow> bool" where
  "is_ack env \<longleftrightarrow> ev_message env = Some MTcpForwardAck"

definition acks :: "envelope list \<Rightarrow> nat" where
  "acks es = length (filter is_ack es)"

fun frame_wf :: "bytes option \<Rightarrow> bool" where
  "frame_wf None = True"
| "frame_wf (Some data) = (data \<noteq> [] \<and> length data \<le> FORWARD_DATA_BYTES_MAX)"

definition tunnel_frame :: "bytes option \<Rightarrow> envelope" where
  "tunnel_frame x = plain (case x of None \<Rightarrow> MTcpForwardEof | Some data \<Rightarrow> MTcpForwardData data)"

lemma plain_respond: "respond 0 m = plain m"
  by (simp add: respond_def plain_def)

lemma frames_simps [simp]:
  "frames [] = []" "frames (es @ fs) = frames es @ frames fs"
  "frames (env # es) = (case frame_of env of None \<Rightarrow> frames es | Some x \<Rightarrow> x # frames es)"
  by (simp_all add: frames_def map_filter_def split: option.split)

lemma acks_simps [simp]:
  "acks [] = 0" "acks (es @ fs) = acks es + acks fs" "acks (env # es) = of_bool (is_ack env) + acks es"
  by (simp_all add: acks_def)

lemma kind_simps [simp]:
  "frame_of (tunnel_frame x) = Some x" "\<not> is_ack (tunnel_frame x)"
  "frame_of (plain MTcpForwardAck) = None" "is_ack (plain MTcpForwardAck)"
  "frame_of (respond r (MTcpForwardOpened ip port)) = None" "\<not> is_ack (respond r (MTcpForwardOpened ip port))"
  "frame_of (respond r (MError code txt b)) = None" "\<not> is_ack (respond r (MError code txt b))"
  by (simp_all add: frame_of_def is_ack_def tunnel_frame_def plain_def respond_def split: option.split)

lemma tunnel_frame_simps: "plain MTcpForwardEof = tunnel_frame None" "plain (MTcpForwardData data) = tunnel_frame (Some data)"
  by (simp_all add: tunnel_frame_def)

section \<open>What a forward puts out\<close>

text \<open>
  The first envelope of the task is the opening or the report of a failure; every other one is a
  frame, an acknowledgement or that report.
\<close>

definition failure_report :: "nat \<Rightarrow> envelope" where
  "failure_report r = respond r (MError ErrServerUnavailable (lit ''TCP forwarding failed or timed out'') False)"

definition plain_out :: "envelope \<Rightarrow> bool" where
  "plain_out env \<longleftrightarrow> env = plain MTcpForwardAck \<or> (\<exists>x. env = tunnel_frame x)"

definition out_inv :: "forward_state \<Rightarrow> bool" where
  "out_inv f \<longleftrightarrow>
     list_all (\<lambda>env. plain_out env \<or> env = failure_report (fw_request_id f)) (tl (fw_out f))
     \<and> (fw_task f = TaskConnecting \<or> (\<exists>ip port. fw_task f = TaskOpening ip port) \<longrightarrow> fw_out f = [])
     \<and> (relaying f \<longrightarrow> fw_out f \<noteq> [] \<and> list_all plain_out (tl (fw_out f)))
     \<and> list_all frame_wf (frames (fw_out f))
     \<and> None \<notin> set (butlast (frames (fw_out f)))
     \<and> (None \<in> set (frames (fw_out f)) \<longleftrightarrow> fw_down f = DnAwait True \<or> fw_down f = DnDone)
     \<and> acks (fw_out f) + (case fw_up f of UpAck _ \<Rightarrow> 1 | _ \<Rightarrow> 0) = length (fw_delivered f)
     \<and> (case fw_down f of DnSend data \<Rightarrow> length data \<le> FORWARD_DATA_BYTES_MAX | _ \<Rightarrow> True)
     \<and> (fw_shutdown f \<longleftrightarrow> None \<in> set (fw_delivered f))"

lemma failure_report_simps [simp]: "frame_of (failure_report r) = None" "\<not> is_ack (failure_report r)"
  by (simp_all add: failure_report_def)

lemma forward_fail_report: "forward_fail f = forward_end TaskFailed (f\<lparr>fw_out := fw_out f @ [failure_report (fw_request_id f)]\<rparr>)"
  by (simp add: forward_fail_def forward_send_def failure_report_def)

lemma out_inv_spawn: "out_inv (forward_spawn r)"
  by (simp add: out_inv_def forward_spawn_def relaying_def)

lemma tl_snoc: "tl (xs @ [x]) = (if xs = [] then [] else tl xs @ [x])"
  by (cases xs) auto

lemma butlast_snoc_notin: "None \<notin> set xs \<Longrightarrow> None \<notin> set (butlast (xs @ [x]))"
  by simp

lemma out_inv_end:
  assumes "out_inv f" and "relaying f" and "p = TaskDone \<or> p = TaskFailed"
  shows "out_inv (forward_end p f)"
  using assms by (auto simp: out_inv_def forward_end_def relaying_def)

lemma out_inv_fail: "out_inv f \<Longrightarrow> out_inv (forward_fail f)"
  by (auto simp: out_inv_def forward_fail_report forward_end_def tl_snoc relaying_def)

lemma out_inv_abort: "out_inv f \<Longrightarrow> out_inv (forward_abort f)"
  by (auto simp: out_inv_def forward_abort_def forward_end_def relaying_def)

lemma message_keeps_out:
  assumes "forward_message env f = (f', b)"
  shows "fw_out f' = fw_out f \<and> fw_up f' = fw_up f \<and> fw_down f' = fw_down f \<and> fw_task f' = fw_task f
    \<and> fw_delivered f' = fw_delivered f \<and> fw_request_id f' = fw_request_id f \<and> fw_shutdown f' = fw_shutdown f"
proof -
  consider "forward_message env f = (f, False)" | x where "offer_input x f = (f', b)" | "offer_ack f = (f', b)"
    using forward_message_cases [of env f] assms by metis
  then show ?thesis
    by cases (use assms in \<open>auto simp: offer_input_def offer_ack_def Let_def split: if_splits\<close>)
qed

lemma out_inv_message: "forward_message env f = (f', b) \<Longrightarrow> out_inv f \<Longrightarrow> out_inv f'"
  using message_keeps_out [of env f f' b] by (simp add: out_inv_def relaying_def)

lemma out_inv_task:
  assumes "forward_task f f'" and "forward_inv f" and "out_inv f"
  shows "out_inv f'"
  using assms(1)
proof cases
  case (sent data)
  then have "None \<notin> set (frames (fw_out f))" "length data \<le> FORWARD_DATA_BYTES_MAX" "fw_out f \<noteq> []"
    using assms(3) by (auto simp: out_inv_def relaying_def)
  moreover obtain x where x: "f' = f\<lparr>fw_out := fw_out f @ [tunnel_frame x], fw_down := DnAwait (x = None)\<rparr>"
      "x = (if data = [] then None else Some data)"
    using sent(1) by (simp add: forward_send_def plain_respond tunnel_frame_simps)
  ultimately have "frame_wf x" "None \<notin> set (frames (fw_out f))" "fw_out f \<noteq> []" by auto
  then show ?thesis using sent(2,3) assms(3) x(1)
    by (auto simp: out_inv_def tl_snoc plain_out_def relaying_def)
next
  case data_after_eof
  have "up_inv f" using data_after_eof assms(2) by (simp add: forward_inv_running running_def relaying_def)
  then show ?thesis using input_phase [of f] data_after_eof by auto
next
  case joined
  then show ?thesis using out_inv_end assms(3) by auto
qed (use assms(3) out_inv_fail in \<open>auto simp: out_inv_def forward_send_def plain_respond tl_snoc plain_out_def relaying_def\<close>)

section \<open>Both ends\<close>

datatype tunnel_phase = PhOpening | PhRelaying | PhEnded bool

record tunnel =
  tn_phase :: tunnel_phase
  tn_relay :: socks_relay
  tn_up :: "envelope list"
  tn_forward :: forward_state
  tn_taken :: nat

definition tunnel_new :: tunnel where
  "tunnel_new = \<lparr>tn_phase = PhOpening, tn_relay = relay_new, tn_up = [], tn_forward = forward_spawn 1, tn_taken = 0\<rparr>"

text \<open>
  The steps: of the daemon's task; a frame of the proxy arriving, welcome or not; the answer to
  the request; the arms of the relay; the ends of the relay, of which \<open>breaks\<close> is an error of a
  socket or a timeout; and the channel closing after it, with what was still on the way lost.
\<close>

inductive tunnel_step :: "ip_text \<Rightarrow> tunnel \<Rightarrow> tunnel \<Rightarrow> bool" for I where
  task: "forward_task (tn_forward t) f' \<Longrightarrow> tunnel_step I t (t\<lparr>tn_forward := f'\<rparr>)"
| arrives: "tn_up t = env # rest \<Longrightarrow> forward_message env (tn_forward t) = (f', True) \<Longrightarrow>
    tunnel_step I t (t\<lparr>tn_up := rest, tn_forward := f'\<rparr>)"
| refused: "tn_up t = env # rest \<Longrightarrow> forward_message env (tn_forward t) = (f', False) \<Longrightarrow>
    tunnel_step I t (t\<lparr>tn_up := rest, tn_forward := forward_abort f'\<rparr>)"
| opened: "tn_phase t = PhOpening \<Longrightarrow> tn_taken t < length (fw_out (tn_forward t)) \<Longrightarrow>
    forward_opened I (fw_out (tn_forward t) ! tn_taken t) = Ok bound \<Longrightarrow>
    tunnel_step I t (t\<lparr>tn_phase := PhRelaying, tn_taken := Suc (tn_taken t)\<rparr>)"
| not_opened: "tn_phase t = PhOpening \<Longrightarrow> tn_taken t < length (fw_out (tn_forward t)) \<Longrightarrow>
    forward_opened I (fw_out (tn_forward t) ! tn_taken t) = Err e \<Longrightarrow>
    tunnel_step I t (t\<lparr>tn_phase := PhEnded False\<rparr>)"
| reads: "tn_phase t = PhRelaying \<Longrightarrow> \<not> relay_finished (tn_relay t) \<Longrightarrow> relay_may_read (tn_relay t) \<Longrightarrow>
    length data \<le> FORWARD_DATA_BYTES_MAX \<Longrightarrow> relay_read data (tn_relay t) = (s', env) \<Longrightarrow>
    tunnel_step I t (t\<lparr>tn_relay := s', tn_up := tn_up t @ [env]\<rparr>)"
| receives: "tn_phase t = PhRelaying \<Longrightarrow> \<not> relay_finished (tn_relay t) \<Longrightarrow>
    tn_taken t < length (fw_out (tn_forward t)) \<Longrightarrow>
    relay_receive (fw_out (tn_forward t) ! tn_taken t) (tn_relay t) = Some (s', es) \<Longrightarrow>
    tunnel_step I t (t\<lparr>tn_relay := s', tn_up := tn_up t @ es, tn_taken := Suc (tn_taken t)\<rparr>)"
| gives_up: "tn_phase t = PhRelaying \<Longrightarrow> \<not> relay_finished (tn_relay t) \<Longrightarrow>
    tn_taken t < length (fw_out (tn_forward t)) \<Longrightarrow>
    relay_receive (fw_out (tn_forward t) ! tn_taken t) (tn_relay t) = None \<Longrightarrow>
    tunnel_step I t (t\<lparr>tn_phase := PhEnded False\<rparr>)"
| completes: "tn_phase t = PhRelaying \<Longrightarrow> relay_finished (tn_relay t) \<Longrightarrow> tunnel_step I t (t\<lparr>tn_phase := PhEnded True\<rparr>)"
| breaks: "tn_phase t = PhOpening \<or> tn_phase t = PhRelaying \<Longrightarrow> tunnel_step I t (t\<lparr>tn_phase := PhEnded False\<rparr>)"
| closes: "tn_phase t = PhEnded b \<Longrightarrow> tunnel_step I t (t\<lparr>tn_up := [], tn_forward := forward_abort (tn_forward t)\<rparr>)"

inductive tunnel_reach :: "ip_text \<Rightarrow> tunnel \<Rightarrow> bool" for I where
  start: "tunnel_reach I tunnel_new"
| step: "tunnel_reach I t \<Longrightarrow> tunnel_step I t t' \<Longrightarrow> tunnel_reach I t'"

section \<open>Invariant\<close>

text \<open>What the relay knows of itself and of what it took; \<open>es\<close> are the envelopes taken.\<close>

definition relay_inv :: "envelope list \<Rightarrow> socks_relay \<Rightarrow> bool" where
  "relay_inv es s \<longleftrightarrow>
     sr_got s = frames es \<and> sr_socket s = relay_bytes (sr_got s)
     \<and> (sr_remote_eof s \<longleftrightarrow> None \<in> set (sr_got s)) \<and> (sr_shutdown s \<longleftrightarrow> sr_remote_eof s)
     \<and> None \<notin> set (butlast (sr_sent s)) \<and> (sr_local_eof s \<longleftrightarrow> None \<in> set (sr_sent s))
     \<and> length (sr_sent s) = acks es + of_bool (sr_waiting_ack s)"

text \<open>While the task runs, nothing between the two ends is lost or doubled.\<close>

definition awaits :: "forward_state \<Rightarrow> nat" where
  "awaits f = (case fw_down f of DnAwait _ \<Rightarrow> 1 | _ \<Rightarrow> 0)"

definition expected_ack :: "forward_state \<Rightarrow> bool" where
  "expected_ack f = (case fw_down f of DnSend _ \<Rightarrow> True | DnAwait _ \<Rightarrow> fw_acks f = 0 | _ \<Rightarrow> False)"

definition link_inv :: "envelope list \<Rightarrow> bytes option list \<Rightarrow> envelope list \<Rightarrow> forward_state \<Rightarrow> bool" where
  "link_inv up sent down f \<longleftrightarrow>
     sent = fw_accepted f @ frames up \<and> list_all plain_out up
     \<and> awaits f = length (frames down) + acks up + fw_acks f
     \<and> fw_ack_expected f = expected_ack f"

definition tunnel_inv :: "tunnel \<Rightarrow> bool" where
  "tunnel_inv t \<longleftrightarrow>
     (let f = tn_forward t; s = tn_relay t; n = tn_taken t in
      forward_inv f \<and> out_inv f \<and> fw_request_id f = 1
      \<and> n \<le> length (fw_out f) \<and> (tn_phase t = PhOpening \<longrightarrow> n = 0) \<and> (tn_phase t = PhRelaying \<longrightarrow> n > 0)
      \<and> (n = 0 \<longrightarrow> s = relay_new \<and> tn_up t = []) \<and> (tn_phase t = PhEnded True \<longrightarrow> relay_finished s)
      \<and> relay_inv (take n (fw_out f)) s \<and> list_all frame_wf (sr_sent s)
      \<and> prefix (fw_accepted f) (sr_sent s)
      \<and> (running f \<longrightarrow> link_inv (tn_up t) (sr_sent s) (drop n (fw_out f)) f))"

lemma tunnel_inv_new: "tunnel_inv tunnel_new"
  using forward_init_inv [of 1] out_inv_spawn [of 1]
  by (simp add: tunnel_inv_def Let_def tunnel_new_def relay_inv_def relay_new_def link_inv_def
      awaits_def expected_ack_def forward_spawn_def)

text \<open>The task puts out more and accepts nothing by itself; while it runs the link stays balanced.\<close>

lemma task_out:
  assumes "forward_task f f'"
  shows "(\<exists>es. fw_out f' = fw_out f @ es) \<and> fw_accepted f' = fw_accepted f \<and> fw_request_id f' = fw_request_id f"
  using assms by cases (auto simp: forward_defs)

lemma task_link:
  assumes "forward_task f f'" and "running f'" and "n \<le> length (fw_out f)" and "link_inv up sent (drop n (fw_out f)) f"
  shows "link_inv up sent (drop n (fw_out f')) f'"
  using assms(1)
proof cases
  case (sent data)
  have "f' = f\<lparr>fw_out := fw_out f @ [tunnel_frame (if data = [] then None else Some data)], fw_down := DnAwait (data = [])\<rparr>"
    using sent(1) by (simp add: forward_send_def plain_respond tunnel_frame_simps)
  then show ?thesis using sent(3) assms(3,4) by (auto simp: link_inv_def awaits_def expected_ack_def)
qed (use assms(2-4) in \<open>auto simp: link_inv_def awaits_def expected_ack_def forward_defs plain_respond
      split: if_splits cong: down_phase.case_cong\<close>)

lemma tunnel_inv_task:
  assumes "tunnel_inv t" and "forward_task (tn_forward t) f'"
  shows "tunnel_inv (t\<lparr>tn_forward := f'\<rparr>)"
proof -
  have "running (tn_forward t)" by (rule task_from_running [OF assms(2)])
  then show ?thesis
    using assms(1) forward_task_inv [OF _ assms(2)] out_inv_task [OF assms(2)] task_out [OF assms(2)]
      task_link [OF assms(2)]
    by (auto simp: tunnel_inv_def Let_def)
qed

text \<open>Whatever the proxy has on the way is welcome at the daemon.\<close>

lemma frame_welcome:
  assumes "tunnel_inv t" and "running (tn_forward t)" and "tn_up t = env # rest" and "frame_of env = Some x"
  shows "pending (tn_forward t) = [] \<and> None \<notin> set (fw_accepted (tn_forward t)) \<and> fw_task (tn_forward t) \<noteq> TaskConnecting \<and> frame_wf x"
proof -
  let ?f = "tn_forward t" and ?s = "tn_relay t"
  have i: "forward_inv ?f" "out_inv ?f" "relay_inv (take (tn_taken t) (fw_out ?f)) ?s" "list_all frame_wf (sr_sent ?s)"
    "link_inv (tn_up t) (sr_sent ?s) (drop (tn_taken t) (fw_out ?f)) ?f" "tn_taken t \<noteq> 0" "tn_taken t \<le> length (fw_out ?f)"
    using assms(1-3) by (auto simp: tunnel_inv_def Let_def)
  have sent: "sr_sent ?s = fw_accepted ?f @ x # frames rest" using i(5) assms(3,4) by (simp add: link_inv_def)
  have u: "up_inv ?f" using i(1) assms(2) by (simp add: forward_inv_running)
  have "acks (fw_out ?f) = acks (take (tn_taken t) (fw_out ?f)) + acks (drop (tn_taken t) (fw_out ?f))"
    by (metis acks_simps(2) append_take_drop_id)
  moreover have "acks (fw_out ?f) \<le> length (fw_delivered ?f)" using i(2) by (auto simp: out_inv_def)
  moreover have "length (sr_sent ?s) \<le> Suc (acks (take (tn_taken t) (fw_out ?f)))"
    using i(3) by (simp add: relay_inv_def)
  ultimately have "length (fw_accepted ?f) \<le> length (fw_delivered ?f)" using sent by simp
  then have "pending ?f = []" using u by (simp add: up_inv_def)
  moreover have "None \<notin> set (fw_accepted ?f)" using i(3) sent by (auto simp: relay_inv_def butlast_append split: if_splits)
  moreover have "fw_task ?f \<noteq> TaskConnecting" using i(2,6,7) by (auto simp: out_inv_def)
  ultimately show ?thesis using i(4) sent by simp
qed

lemma link_welcome:
  assumes "tunnel_inv t" and "running (tn_forward t)" and "tn_up t = env # rest"
    and "forward_message env (tn_forward t) = (f', b)"
  shows "b \<and> prefix (fw_accepted f') (sr_sent (tn_relay t))
    \<and> link_inv rest (sr_sent (tn_relay t)) (drop (tn_taken t) (fw_out f')) f'"
proof -
  let ?f = "tn_forward t" and ?s = "tn_relay t"
  have i: "forward_inv ?f" "link_inv (tn_up t) (sr_sent ?s) (drop (tn_taken t) (fw_out ?f)) ?f"
      "prefix (fw_accepted ?f) (sr_sent ?s)"
    using assms(1,2) by (auto simp: tunnel_inv_def Let_def)
  have u: "up_inv ?f" "down_inv ?f" using i(1) assms(2) by (simp_all add: forward_inv_running)
  have "plain_out env" using i(2) assms(3) by (simp add: link_inv_def)
  then consider "env = plain MTcpForwardAck" | x where "env = tunnel_frame x" by (auto simp: plain_out_def)
  then show ?thesis
  proof cases
    case 1
    then have a: "awaits ?f = 1" "fw_acks ?f = 0" "fw_ack_expected ?f" "fw_acks_open ?f"
      using i(2) assms(3) u(2)
      by (auto simp: link_inv_def awaits_def expected_ack_def down_inv_def split: down_phase.splits)
    then have "f' = ?f\<lparr>fw_ack_expected := False, fw_acks := 1\<rparr>" "b"
      using assms(4) 1 by (auto simp: forward_message_def offer_ack_def plain_def)
    then show ?thesis using i(2,3) assms(3) 1 a
      by (auto simp: link_inv_def awaits_def expected_ack_def split: down_phase.splits)
  next
    case (2 x)
    then have w: "pending ?f = []" "None \<notin> set (fw_accepted ?f)" "fw_task ?f \<noteq> TaskConnecting" "frame_wf x"
      using frame_welcome [OF assms(1-3), of x] by simp_all
    then have r: "fw_input_ready ?f" "fw_input ?f = []" "fw_input_open ?f"
      using u(1) ready_room [OF u(1)] by (auto simp: up_inv_def)
    have "forward_message env ?f = offer_input x ?f"
      using 2 w(4) by (cases x) (auto simp: forward_message_def tunnel_frame_def plain_def)
    then have f': "f' = ?f\<lparr>fw_input_ready := False, fw_input := [x], fw_accepted := fw_accepted ?f @ [x]\<rparr>" "b"
      using assms(4) r by (auto simp: offer_input_def)
    then show ?thesis using i(2) assms(3) 2
      by (auto simp: link_inv_def awaits_def expected_ack_def cong: down_phase.case_cong)
  qed
qed

lemma message_stopped:
  assumes "forward_inv f" and "\<not> running f" and "forward_message env f = (f', b)"
  shows "fw_accepted f' = fw_accepted f \<and> \<not> running f' \<and> \<not> b"
proof -
  consider "forward_message env f = (f, False)" | x where "offer_input x f = (f', b)" | "offer_ack f = (f', b)"
    using forward_message_cases [of env f] assms(3) by metis
  then show ?thesis
    by cases (use assms offers_stopped [OF assms(2,1)] in \<open>auto simp: running_def\<close>)
qed

lemma abort_simps:
  "fw_out (forward_abort f) = fw_out f" "fw_accepted (forward_abort f) = fw_accepted f"
  "fw_request_id (forward_abort f) = fw_request_id f" "\<not> running (forward_abort f)"
  by (simp_all add: forward_abort_def forward_end_def running_def)

lemma tunnel_inv_arrives:
  assumes "tunnel_inv t" and "tn_up t = env # rest" and "forward_message env (tn_forward t) = (f', b)"
  shows "tunnel_inv (t\<lparr>tn_up := rest, tn_forward := (if b then f' else forward_abort f')\<rparr>)"
proof -
  have i: "forward_inv (tn_forward t)" "out_inv (tn_forward t)" using assms(1) by (auto simp: tunnel_inv_def Let_def)
  have f': "forward_inv f'" "out_inv f'" using forward_message_inv [OF i(1) assms(3)] out_inv_message [OF assms(3) i(2)] by auto
  note k = message_keeps_out [OF assms(3)]
  show ?thesis
  proof (cases "running (tn_forward t)")
    case True
    then show ?thesis using link_welcome [OF assms(1) True assms(2,3)] assms(1,2) f' k
      by (auto simp: tunnel_inv_def Let_def running_def)
  next
    case False
    then show ?thesis using message_stopped [OF i(1) False assms(3)] assms(1,2) f' k
      by (auto simp: tunnel_inv_def Let_def abort_simps forward_abort_inv out_inv_abort)
  qed
qed

text \<open>The steps of the proxy.\<close>

lemma take_taken: "n < length xs \<Longrightarrow> take (Suc n) xs = take n xs @ [xs ! n]"
  "n < length xs \<Longrightarrow> drop n xs = xs ! n # drop (Suc n) xs"
  by (simp_all add: take_Suc_conv_app_nth Cons_nth_drop_Suc)

lemma next_out:
  assumes "out_inv f" and "0 < n" and "n < length (fw_out f)"
  shows "plain_out (fw_out f ! n) \<or> fw_out f ! n = failure_report (fw_request_id f)"
proof -
  obtain m where m: "n = Suc m" using assms(2) by (cases n) auto
  then have "fw_out f ! n = tl (fw_out f) ! m" "m < length (tl (fw_out f))" using assms(3) by (auto simp: nth_tl)
  then have "fw_out f ! n \<in> set (tl (fw_out f))" by simp
  then show ?thesis using assms(1) by (auto simp: out_inv_def list_all_iff)
qed

lemma relay_receive_cases:
  "relay_receive (plain MTcpForwardAck) s = (if sr_waiting_ack s then Some (s\<lparr>sr_waiting_ack := False\<rparr>, []) else None)"
  "relay_receive (tunnel_frame x) s =
     (if \<not> sr_remote_eof s \<and> frame_wf x then
        Some (s\<lparr>sr_remote_eof := (x = None) \<or> sr_remote_eof s, sr_shutdown := (x = None) \<or> sr_shutdown s,
                sr_socket := sr_socket s @ (case x of None \<Rightarrow> [] | Some data \<Rightarrow> data), sr_got := sr_got s @ [x]\<rparr>,
              [plain MTcpForwardAck])
      else None)"
  "r \<noteq> 0 \<Longrightarrow> relay_receive (failure_report r) s = None"
  by (auto simp: relay_receive_def plain_def tunnel_frame_def failure_report_def respond_def split: option.split)

lemma relay_inv_receive:
  assumes "relay_inv es s" and "relay_receive env s = Some (s', back)" and "plain_out env"
  shows "relay_inv (es @ [env]) s' \<and> sr_sent s' = sr_sent s
    \<and> back = (if is_ack env then [] else [plain MTcpForwardAck])"
proof -
  consider "env = plain MTcpForwardAck" | x where "env = tunnel_frame x" using assms(3) by (auto simp: plain_out_def)
  then show ?thesis
  proof cases
    case 1
    then show ?thesis using assms(1,2) by (auto simp: relay_inv_def relay_receive_cases split: if_splits)
  next
    case (2 x)
    then show ?thesis using assms(1,2)
      by (cases x) (auto simp: relay_inv_def relay_receive_cases split: if_splits)
  qed
qed

lemma tunnel_inv_receives:
  assumes "tunnel_inv t" and "tn_phase t = PhRelaying" and "tn_taken t < length (fw_out (tn_forward t))"
    and "relay_receive (fw_out (tn_forward t) ! tn_taken t) (tn_relay t) = Some (s', back)"
  shows "tunnel_inv (t\<lparr>tn_relay := s', tn_up := tn_up t @ back, tn_taken := Suc (tn_taken t)\<rparr>)"
proof -
  let ?f = "tn_forward t" and ?n = "tn_taken t"
  let ?e = "fw_out ?f ! ?n"
  have i: "out_inv ?f" "0 < ?n" "fw_request_id ?f = 1" "relay_inv (take ?n (fw_out ?f)) (tn_relay t)"
    using assms(1,2) by (auto simp: tunnel_inv_def Let_def)
  have e: "plain_out ?e" using next_out [OF i(1,2) assms(3)] assms(4) i(3) by (auto simp: relay_receive_cases)
  note r = relay_inv_receive [OF i(4) assms(4) e]
  have "link_inv (tn_up t @ back) (sr_sent s') (drop (Suc ?n) (fw_out ?f)) ?f"
    if "link_inv (tn_up t) (sr_sent (tn_relay t)) (drop ?n (fw_out ?f)) ?f"
    using that e r take_taken(2) [OF assms(3)] by (auto simp: link_inv_def plain_out_def)
  then show ?thesis using assms r take_taken(1) [OF assms(3)] by (auto simp: tunnel_inv_def Let_def)
qed

lemma tunnel_inv_reads:
  assumes "tunnel_inv t" and "tn_phase t = PhRelaying" and "relay_may_read (tn_relay t)"
    and "length data \<le> FORWARD_DATA_BYTES_MAX" and "relay_read data (tn_relay t) = (s', env)"
  shows "tunnel_inv (t\<lparr>tn_relay := s', tn_up := tn_up t @ [env]\<rparr>)"
proof -
  let ?x = "if data = [] then None else Some data"
  have s': "s' = (tn_relay t)\<lparr>sr_local_eof := (?x = None), sr_waiting_ack := True, sr_sent := sr_sent (tn_relay t) @ [?x]\<rparr>"
    "env = tunnel_frame ?x" "frame_wf ?x"
    using assms(4,5) by (auto simp: relay_read_def tunnel_frame_simps)
  have i: "tn_taken t \<noteq> 0" "relay_inv es s' = relay_inv es s'" "None \<notin> set (sr_sent (tn_relay t))"
    using assms(1-3) by (auto simp: tunnel_inv_def Let_def relay_inv_def relay_may_read_def)
  have "relay_inv es s'" if "relay_inv es (tn_relay t)" for es
    using that i(3) assms(3) by (auto simp: relay_inv_def s'(1) relay_may_read_def)
  moreover have "link_inv (tn_up t @ [env]) (sr_sent s') down f" if "link_inv (tn_up t) (sr_sent (tn_relay t)) down f" for down f
    using that by (auto simp: link_inv_def s' plain_out_def)
  ultimately show ?thesis using assms(1,2) i(1) s'
    by (auto simp: tunnel_inv_def Let_def prefix_def)
qed

lemma forward_opened_kind: "forward_opened I env = Ok b \<Longrightarrow> frame_of env = None \<and> \<not> is_ack env"
  by (auto simp: forward_opened_def frame_of_def is_ack_def split: if_splits option.splits msg.splits)

lemma tunnel_inv_opened:
  assumes "tunnel_inv t" and "tn_phase t = PhOpening" and "tn_taken t < length (fw_out (tn_forward t))"
    and "forward_opened I (fw_out (tn_forward t) ! tn_taken t) = Ok b"
  shows "tunnel_inv (t\<lparr>tn_phase := PhRelaying, tn_taken := Suc (tn_taken t)\<rparr>)"
proof -
  have n: "tn_taken t = 0" using assms(1,2) by (simp add: tunnel_inv_def Let_def)
  then obtain e es where e: "fw_out (tn_forward t) = e # es" using assms(3) by (cases "fw_out (tn_forward t)") auto
  then have "frame_of e = None" "\<not> is_ack e" using forward_opened_kind [OF assms(4)] n by auto
  then show ?thesis using assms(1,2) e n by (auto simp: tunnel_inv_def Let_def relay_inv_def link_inv_def relay_new_def)
qed

lemma tunnel_step_inv:
  assumes "tunnel_step I t t'" and "tunnel_inv t"
  shows "tunnel_inv t'"
  using assms(1)
proof cases
  case (arrives env rest f')
  then show ?thesis using tunnel_inv_arrives [OF assms(2), of env rest f' True] by simp
next
  case (refused env rest f')
  then show ?thesis using tunnel_inv_arrives [OF assms(2), of env rest f' False] by simp
next
  case closes
  then show ?thesis using assms(2)
    by (auto simp: tunnel_inv_def Let_def abort_simps forward_abort_inv out_inv_abort)
qed (use assms(2) in \<open>auto simp: tunnel_inv_task tunnel_inv_opened tunnel_inv_reads tunnel_inv_receives\<close>;
     auto simp: tunnel_inv_def Let_def)+

lemma tunnel_reach_inv: "tunnel_reach I t \<Longrightarrow> tunnel_inv t"
  by (induction rule: tunnel_reach.induct) (auto simp: tunnel_inv_new dest: tunnel_step_inv)

text \<open>The relay takes everything but the report of a failure.\<close>

lemma relay_welcome:
  assumes "tunnel_inv t" and "tn_phase t = PhRelaying" and "tn_taken t < length (fw_out (tn_forward t))"
  shows "relay_receive (fw_out (tn_forward t) ! tn_taken t) (tn_relay t) = None
     \<longleftrightarrow> fw_out (tn_forward t) ! tn_taken t = failure_report 1"
proof -
  let ?f = "tn_forward t" and ?s = "tn_relay t" and ?n = "tn_taken t"
  let ?e = "fw_out ?f ! ?n"
  have i: "forward_inv ?f" "out_inv ?f" "relay_inv (take ?n (fw_out ?f)) ?s" "prefix (fw_accepted ?f) (sr_sent ?s)"
      "fw_request_id ?f = 1" "0 < ?n"
    using assms(1,2) by (auto simp: tunnel_inv_def Let_def)
  have out: "fw_out ?f = take ?n (fw_out ?f) @ ?e # drop (Suc ?n) (fw_out ?f)"
    using assms(3) by (simp add: id_take_nth_drop)
  from next_out [OF i(2,6) assms(3)] consider "?e = failure_report 1" | "?e = plain MTcpForwardAck"
    | x where "?e = tunnel_frame x" using i(5) by (auto simp: plain_out_def)
  then show ?thesis
  proof cases
    case 1
    then show ?thesis by (simp add: relay_receive_cases)
  next
    case 2
    have "acks (fw_out ?f) \<ge> Suc (acks (take ?n (fw_out ?f)))" using 2 by (subst out) simp
    moreover have "acks (fw_out ?f) \<le> length (fw_delivered ?f)" using i(2) by (auto simp: out_inv_def)
    moreover have "prefix (fw_delivered ?f) (sr_sent ?s)"
      using i(1,4) prefix_order.trans unfolding forward_inv_def by blast
    then have "length (fw_delivered ?f) \<le> length (sr_sent ?s)" by (rule prefix_length_le)
    ultimately have "sr_waiting_ack ?s" using i(3) by (cases "sr_waiting_ack ?s") (auto simp: relay_inv_def)
    then show ?thesis using 2 by (simp add: relay_receive_cases) (simp add: failure_report_def plain_def respond_def)
  next
    case (3 x)
    have fs: "frames (fw_out ?f) = sr_got ?s @ x # frames (drop (Suc ?n) (fw_out ?f))"
      using 3 i(3) by (subst out) (simp add: relay_inv_def)
    then have "None \<notin> set (sr_got ?s)" "frame_wf x"
      using i(2) by (auto simp: out_inv_def butlast_append split: if_splits)
    then show ?thesis using 3 i(3)
      by (simp add: relay_receive_cases relay_inv_def) (simp add: tunnel_frame_def failure_report_def plain_def respond_def)
  qed
qed

section \<open>Progress\<close>

lemma drain_up:
  assumes "tunnel_inv t" and "running (tn_forward t)"
  shows "\<exists>t'. (tunnel_step I)\<^sup>*\<^sup>* t t' \<and> tunnel_inv t' \<and> tn_up t' = [] \<and> tn_relay t' = tn_relay t \<and> tn_phase t' = tn_phase t
    \<and> tn_taken t' = tn_taken t \<and> fw_out (tn_forward t') = fw_out (tn_forward t) \<and> running (tn_forward t')"
  using assms
proof (induction "tn_up t" arbitrary: t)
  case Nil
  then show ?case by (intro exI [of _ t]) simp
next
  case (Cons env rest)
  obtain f' b where m: "forward_message env (tn_forward t) = (f', b)" by fastforce
  let ?t = "t\<lparr>tn_up := rest, tn_forward := f'\<rparr>"
  have b: "b" using link_welcome [OF Cons.prems Cons.hyps(2) [symmetric] m] by simp
  have step: "tunnel_step I t ?t" using tunnel_step.arrives [OF Cons.hyps(2) [symmetric]] m b by simp
  have inv: "tunnel_inv ?t" using tunnel_inv_arrives [OF Cons.prems(1) Cons.hyps(2) [symmetric] m] b by simp
  have k: "fw_out f' = fw_out (tn_forward t)" "running f'"
    using message_keeps_out [OF m] Cons.prems(2) by (simp_all add: running_def)
  obtain t' where t': "(tunnel_step I)\<^sup>*\<^sup>* ?t t'" "tunnel_inv t'" "tn_up t' = []" "tn_relay t' = tn_relay t" "tn_phase t' = tn_phase t"
      "tn_taken t' = tn_taken t" "fw_out (tn_forward t') = fw_out f'" "running (tn_forward t')"
    using Cons.hyps(1) [of ?t] inv k(2) by auto
  then show ?case using step k by (intro exI [of _ t']) (simp add: converse_rtranclp_into_rtranclp)
qed

text \<open>The task alone writes what it accepted and acknowledges it.\<close>

definition settled :: "forward_state \<Rightarrow> bool" where
  "settled f \<longleftrightarrow> pending f = [] \<and> (\<forall>eof. fw_up f \<noteq> UpAck eof)"

lemma settle_ack:
  assumes "relaying f" and "up_inv f" and "fw_up f = UpAck eof"
  shows "\<exists>f'. forward_task f f' \<and> relaying f' \<and> (fw_up f' = UpRecv \<or> fw_up f' = UpDone)
     \<and> fw_input f' = fw_input f \<and> fw_accepted f' = fw_accepted f"
proof (cases eof)
  case True
  then have "fw_input f = []" using assms(2,3) input_phase [OF assms(2)] by auto
  then show ?thesis using forward_task.acked_eof [OF assms(1)] assms(1,3) True
    by (intro exI [of _ "(forward_send 0 MTcpForwardAck f)\<lparr>fw_up := UpDone, fw_input_open := False\<rparr>"])
      (simp add: forward_send_def relaying_def)
next
  case False
  then show ?thesis using forward_task.acked [OF assms(1)] assms(1,3)
    by (intro exI [of _ "(forward_send 0 MTcpForwardAck f)\<lparr>fw_up := UpRecv\<rparr>"]) (simp add: forward_send_def relaying_def)
qed

definition unsettled :: "forward_state \<Rightarrow> nat" where
  "unsettled f = 3 * length (fw_input f) + (case fw_up f of UpWrite _ \<Rightarrow> 2 | UpAck _ \<Rightarrow> 1 | _ \<Rightarrow> 0)"

lemma settle_step:
  assumes "relaying f" and "up_inv f" and "\<not> settled f"
  shows "\<exists>f'. forward_task f f' \<and> relaying f' \<and> fw_accepted f' = fw_accepted f \<and> unsettled f' < unsettled f"
proof -
  consider x where "fw_up f = UpWrite x" | eof where "fw_up f = UpAck eof" | "fw_up f = UpRecv" "fw_input f \<noteq> []"
    using assms(2,3) input_phase [OF assms(2)] by (cases "fw_up f") (auto simp: settled_def pending_def)
  then show ?thesis
  proof cases
    case (1 x)
    then show ?thesis using forward_task.written [OF assms(1)] forward_task.shut_down [OF assms(1)] assms(1)
      by (cases x) (force simp: relaying_def unsettled_def)+
  next
    case (2 eof)
    then show ?thesis using settle_ack [OF assms(1,2)] by (force simp: unsettled_def)
  next
    case 3
    then obtain x q where "fw_input f = x # q" by (cases "fw_input f") auto
    then show ?thesis using forward_task.take_input [OF assms(1) 3(1)] assms(1) 3(1)
      by (force simp: relaying_def unsettled_def)
  qed
qed

lemma settle:
  assumes "relaying f" and "forward_inv f"
  shows "\<exists>f'. forward_task\<^sup>*\<^sup>* f f' \<and> relaying f' \<and> forward_inv f' \<and> settled f' \<and> fw_accepted f' = fw_accepted f"
  using assms
proof (induction "unsettled f" arbitrary: f rule: less_induct)
  case less
  show ?case
  proof (cases "settled f")
    case False
    have "up_inv f" using less.prems by (simp add: forward_inv_running running_def relaying_def)
    then obtain f1 where f1: "forward_task f f1" "relaying f1" "fw_accepted f1 = fw_accepted f" "unsettled f1 < unsettled f"
      using settle_step less.prems(1) False by blast
    then have "forward_inv f1" using forward_task_inv less.prems(2) by blast
    then obtain f' where "forward_task\<^sup>*\<^sup>* f1 f'" "relaying f'" "forward_inv f'" "settled f'" "fw_accepted f' = fw_accepted f1"
      using less.hyps [OF f1(4)] f1(2) by blast
    then show ?thesis using f1 by (metis converse_rtranclp_into_rtranclp)
  qed (use less.prems in blast)
qed

lemma tunnel_tasks:
  assumes "forward_task\<^sup>*\<^sup>* f f'" and "tn_forward t = f" and "tunnel_inv t"
  shows "(tunnel_step I)\<^sup>*\<^sup>* t (t\<lparr>tn_forward := f'\<rparr>) \<and> tunnel_inv (t\<lparr>tn_forward := f'\<rparr>)"
  using assms
proof (induction rule: rtranclp_induct)
  case base
  then have same: "t\<lparr>tn_forward := f\<rparr> = t" by (cases t) simp
  show ?case unfolding same using base(2) by simp
next
  case (step f1 f2)
  let ?t = "t\<lparr>tn_forward := f1\<rparr>"
  have "tunnel_step I ?t (t\<lparr>tn_forward := f2\<rparr>)" using tunnel_step.task [of ?t f2 I] step.hyps(2) by simp
  moreover have "tunnel_inv (t\<lparr>tn_forward := f2\<rparr>)" using tunnel_inv_task [of ?t f2] step by simp
  ultimately show ?case using step by (meson rtranclp.rtrancl_into_rtrancl)
qed

text \<open>Once everything is settled the acknowledgement is among what the relay has not yet taken.\<close>

lemma take_ack:
  assumes "tunnel_inv t" and "tn_phase t = PhRelaying" and "relaying (tn_forward t)"
    and "settled (tn_forward t)" and "fw_accepted (tn_forward t) = sr_sent (tn_relay t)"
  shows "\<exists>t'. (tunnel_step I)\<^sup>*\<^sup>* t t' \<and> tn_phase t' = PhRelaying \<and> \<not> sr_waiting_ack (tn_relay t')
    \<and> sr_sent (tn_relay t') = sr_sent (tn_relay t) \<and> tn_forward t' = tn_forward t"
  using assms
proof (induction "length (fw_out (tn_forward t)) - tn_taken t" arbitrary: t rule: less_induct)
  case less
  let ?f = "tn_forward t" and ?s = "tn_relay t" and ?n = "tn_taken t"
  show ?case
  proof (cases "sr_waiting_ack ?s")
    case True
    have i: "forward_inv ?f" "out_inv ?f" "relay_inv (take ?n (fw_out ?f)) ?s" "0 < ?n"
      using less.prems(1,2) by (auto simp: tunnel_inv_def Let_def)
    have "up_inv ?f" using i(1) less.prems(3) by (simp add: forward_inv_running running_def relaying_def)
    then have "acks (fw_out ?f) = length (sr_sent ?s)"
      using i(2) less.prems(4,5) by (auto simp: out_inv_def settled_def up_inv_def split: up_phase.splits)
    then have n: "?n < length (fw_out ?f)" using i(3) True by (cases "?n < length (fw_out ?f)") (auto simp: relay_inv_def)
    have "list_all plain_out (tl (fw_out ?f))" using i(2) less.prems(3) by (simp add: out_inv_def)
    moreover have "fw_out ?f ! ?n \<in> set (tl (fw_out ?f))" using i(4) n
      by (metis Suc_diff_1 length_tl less_diff_conv nth_mem nth_tl Suc_eq_plus1)
    ultimately have "fw_out ?f ! ?n \<noteq> failure_report 1"
      by (auto simp: list_all_iff plain_out_def failure_report_def plain_def respond_def tunnel_frame_def)
    then obtain s' es where r: "relay_receive (fw_out ?f ! ?n) ?s = Some (s', es)"
      using relay_welcome [OF less.prems(1,2) n] by auto
    let ?t = "t\<lparr>tn_relay := s', tn_up := tn_up t @ es, tn_taken := Suc ?n\<rparr>"
    have step: "tunnel_step I t ?t"
      using tunnel_step.receives [OF less.prems(2) _ n r] True by (simp add: relay_finished_def)
    have inv: "tunnel_inv ?t" by (rule tunnel_inv_receives [OF less.prems(1,2) n r])
    have "sr_sent s' = sr_sent ?s"
      using r by (auto simp: relay_receive_def split: if_splits option.splits msg.splits)
    moreover have "length (fw_out ?f) - Suc ?n < length (fw_out ?f) - ?n" using n by simp
    ultimately obtain t' where "(tunnel_step I)\<^sup>*\<^sup>* ?t t'" "tn_phase t' = PhRelaying" "\<not> sr_waiting_ack (tn_relay t')"
        "sr_sent (tn_relay t') = sr_sent ?s" "tn_forward t' = ?f"
      using less.hyps [of ?t] inv less.prems by auto
    then show ?thesis using step by (intro exI [of _ t']) (simp add: converse_rtranclp_into_rtranclp)
  qed (use less.prems in blast)
qed

section \<open>Properties\<close>

lemma relay_bytes_append: "relay_bytes (xs @ ys) = relay_bytes xs @ relay_bytes ys"
  by (simp add: relay_bytes_def map_filter_def)

lemma relay_bytes_prefix: "prefix xs ys \<Longrightarrow> prefix (relay_bytes xs) (relay_bytes ys)"
  by (auto simp: prefix_def relay_bytes_append)

text \<open>An end of file that was taken is the last frame there is.\<close>

lemma ended_all: "None \<in> set xs \<Longrightarrow> None \<notin> set (butlast (xs @ ys)) \<Longrightarrow> ys = []"
  by (auto simp: butlast_append split: if_splits)

lemma completed_delivered:
  assumes "tunnel_inv t" and "relay_finished (tn_relay t)"
  shows "fw_delivered (tn_forward t) = sr_sent (tn_relay t) \<and> None \<in> set (sr_sent (tn_relay t))
     \<and> sr_got (tn_relay t) = frames (fw_out (tn_forward t)) \<and> None \<in> set (sr_got (tn_relay t))"
proof -
  let ?f = "tn_forward t" and ?s = "tn_relay t" and ?n = "tn_taken t"
  have i: "forward_inv ?f" "out_inv ?f" "relay_inv (take ?n (fw_out ?f)) ?s" "prefix (fw_accepted ?f) (sr_sent ?s)"
    using assms(1) by (auto simp: tunnel_inv_def Let_def)
  have split: "fw_out ?f = take ?n (fw_out ?f) @ drop ?n (fw_out ?f)" by simp
  have "length (sr_sent ?s) = acks (take ?n (fw_out ?f))"
    using i(3) assms(2) by (simp add: relay_inv_def relay_finished_def)
  moreover have "acks (take ?n (fw_out ?f)) \<le> acks (fw_out ?f)" by (subst (2) split) (simp only: acks_simps le_add1)
  moreover have "acks (fw_out ?f) \<le> length (fw_delivered ?f)" using i(2) by (auto simp: out_inv_def)
  ultimately have "length (sr_sent ?s) \<le> length (fw_delivered ?f)" by linarith
  moreover have "prefix (fw_delivered ?f) (sr_sent ?s)"
    using i(1,4) by (auto simp: forward_inv_def intro: prefix_order.trans)
  ultimately have d: "fw_delivered ?f = sr_sent ?s" by (metis prefix_length_prefix prefix_order.antisym prefix_order.refl)
  have "frames (fw_out ?f) = sr_got ?s @ frames (drop ?n (fw_out ?f))"
    using i(3) by (subst split) (simp only: frames_simps relay_inv_def)
  moreover have "None \<in> set (sr_got ?s)" "None \<in> set (sr_sent ?s)"
    using i(3) assms(2) by (simp_all add: relay_inv_def relay_finished_def)
  moreover have "None \<notin> set (butlast (frames (fw_out ?f)))" using i(2) by (simp add: out_inv_def)
  ultimately show ?thesis using d ended_all [of "sr_got ?s"] by auto
qed

text \<open>
  (C22) A tunnel carries its bytes exactly: under every interleaving of the proxy's relay, the daemon's
  forward, the frames between them and failures of either side, the destination has received a
  prefix of what the application wrote and the application a prefix of what the daemon put out,
  in order and nothing twice; and when the relay ends well both are complete and both sockets were shut down.
  Neither side ever refuses a frame of the other: whatever is on its way is welcome at a
  running forward, and the relay gives up on nothing but the daemon's report of a failure.
\<close>

theorem tunnel_exact:
  assumes "tunnel_reach I t"
  shows "prefix (fw_socket (tn_forward t)) (relay_bytes (sr_sent (tn_relay t)))
     \<and> prefix (sr_socket (tn_relay t)) (relay_bytes (frames (fw_out (tn_forward t))))
     \<and> (if tn_phase t = PhEnded True
        then fw_socket (tn_forward t) = relay_bytes (sr_sent (tn_relay t)) \<and> fw_shutdown (tn_forward t)
             \<and> sr_socket (tn_relay t) = relay_bytes (frames (fw_out (tn_forward t))) \<and> sr_shutdown (tn_relay t)
        else True)
     \<and> (case tn_up t of env # _ \<Rightarrow> snd (forward_message env (tn_forward t)) = running (tn_forward t) | [] \<Rightarrow> True)
     \<and> (if tn_phase t = PhRelaying \<and> tn_taken t < length (fw_out (tn_forward t))
        then relay_receive (fw_out (tn_forward t) ! tn_taken t) (tn_relay t) = None
             \<longleftrightarrow> fw_out (tn_forward t) ! tn_taken t = failure_report 1
        else True)"
proof -
  let ?f = "tn_forward t" and ?s = "tn_relay t" and ?n = "tn_taken t"
  have inv: "tunnel_inv t" by (rule tunnel_reach_inv [OF assms])
  then have i: "forward_inv ?f" "out_inv ?f" "relay_inv (take ?n (fw_out ?f)) ?s" "prefix (fw_accepted ?f) (sr_sent ?s)"
      "fw_request_id ?f = 1" "tn_phase t = PhRelaying \<Longrightarrow> 0 < ?n" "tn_phase t = PhEnded True \<Longrightarrow> relay_finished ?s"
    by (auto simp: tunnel_inv_def Let_def)
  have "frames (fw_out ?f) = frames (take ?n (fw_out ?f)) @ frames (drop ?n (fw_out ?f))"
    by (metis append_take_drop_id frames_simps(2))
  then have up: "prefix (fw_delivered ?f) (sr_sent ?s)" and down: "prefix (sr_got ?s) (frames (fw_out ?f))"
    using i(1,3,4) by (auto simp: forward_inv_def relay_inv_def intro: prefix_order.trans)
  have sockets: "fw_socket ?f = relay_bytes (fw_delivered ?f)" "sr_socket ?s = relay_bytes (sr_got ?s)"
    "fw_shutdown ?f \<longleftrightarrow> None \<in> set (fw_delivered ?f)" "sr_shutdown ?s \<longleftrightarrow> None \<in> set (sr_got ?s)"
    using i(1-3) by (auto simp: forward_inv_def relay_inv_def out_inv_def)
  have arrival: "snd (forward_message env ?f) = running ?f" if "tn_up t = env # rest" for env rest
  proof -
    obtain f' b where m: "forward_message env ?f = (f', b)" by fastforce
    show ?thesis using link_welcome [OF inv _ that m] message_stopped [OF i(1) _ m] m by auto
  qed
  have next_env: "relay_receive (fw_out ?f ! ?n) ?s = None \<longleftrightarrow> fw_out ?f ! ?n = failure_report 1"
    if "tn_phase t = PhRelaying" "?n < length (fw_out ?f)"
    using relay_welcome [OF inv that] .
  show ?thesis
    using relay_bytes_prefix [OF up] relay_bytes_prefix [OF down] sockets completed_delivered [OF inv i(7)] arrival next_env
    by (auto split: list.split)
qed


definition demo_ip :: ip_text where
  "demo_ip = \<lparr>it_show = (\<lambda>_. [49]), it_parse = (\<lambda>_. Some (V4 [127, 0, 0, 1]))\<rparr>"

definition demo_open :: forward_state where
  "demo_open = (forward_spawn 1)\<lparr>fw_input_ready := True, fw_task := TaskRelaying, fw_out := [respond 1 (MTcpForwardOpened [49] 80)]\<rparr>"

definition demo_tunnel :: tunnel where
  "demo_tunnel = \<lparr>tn_phase = PhRelaying, tn_relay = fst (relay_read [1, 2] relay_new), tn_up = [plain (MTcpForwardData [1, 2])],
                  tn_forward = demo_open, tn_taken = 1\<rparr>"

lemma demo_tunnel_reach: "tunnel_reach demo_ip demo_tunnel"
proof -
  let ?f1 = "(forward_spawn 1)\<lparr>fw_input_ready := True, fw_task := TaskOpening [49] 80\<rparr>"
  let ?t2 = "tunnel_new\<lparr>tn_forward := demo_open\<rparr>"
  have 1: "forward_task (forward_spawn 1) ?f1" by (rule forward_task.connected) (simp add: forward_spawn_def)
  have "forward_task ?f1 ((forward_send (fw_request_id ?f1) (MTcpForwardOpened [49] 80) ?f1)\<lparr>fw_task := TaskRelaying\<rparr>)"
    by (rule forward_task.opened) simp
  then have 2: "forward_task ?f1 demo_open" by (simp add: demo_open_def forward_send_def forward_spawn_def)
  have "tunnel_reach demo_ip (tunnel_new\<lparr>tn_forward := ?f1\<rparr>)"
    using tunnel_reach.step [OF tunnel_reach.start tunnel_step.task] 1 by (simp add: tunnel_new_def)
  from tunnel_reach.step [OF this tunnel_step.task] 2 have "tunnel_reach demo_ip ?t2" by simp
  moreover have "tunnel_step demo_ip ?t2 (?t2\<lparr>tn_phase := PhRelaying, tn_taken := Suc (tn_taken ?t2)\<rparr>)"
    by (rule tunnel_step.opened) (simp_all add: tunnel_new_def demo_open_def forward_opened_def respond_def demo_ip_def)
  ultimately have r: "tunnel_reach demo_ip (?t2\<lparr>tn_phase := PhRelaying, tn_taken := 1\<rparr>)"
    using tunnel_reach.step by (fastforce simp: tunnel_new_def)
  have "tunnel_step demo_ip (?t2\<lparr>tn_phase := PhRelaying, tn_taken := 1\<rparr>) demo_tunnel"
    using tunnel_step.reads [of "?t2\<lparr>tn_phase := PhRelaying, tn_taken := 1\<rparr>" "[1, 2]"]
    by (simp add: tunnel_new_def demo_tunnel_def relay_finished_def relay_may_read_def relay_new_def relay_read_def
        FORWARD_DATA_BYTES_MAX_def)
  with r show ?thesis by (rule tunnel_reach.step)
qed

theorem tunnel_exact_witness:
  "snd (forward_message (plain (MTcpForwardData [1, 2])) demo_open)"
  using tunnel_exact [OF demo_tunnel_reach] by (simp add: demo_tunnel_def demo_open_def running_def)


end
