(* ===== verification/Native_Client.thy ===== *)
theory Native_Client
  imports Socks Ids Grant Ssh_Auth Upload_Service
begin

text \<open>
  The native client library of \<open>crates/native-client/src/lib.rs\<close>: server addresses, the channel to
  the daemon, authentication, the shell operations, attachments and file uploads. A channel is
  what its stream will still deliver before it ends or stays silent too long, and how many more
  sends succeed. The OpenSSH key file and the local file system are records of answers.
\<close>

section \<open>Server addresses\<close>

datatype url_error =
    UrlScheme
  | UrlForm
  | UrlUnterminated
  | UrlEmptyHost
  | UrlPort
  | UrlEmptyPort
  | UrlSuffix
  | UrlBrackets
  | UrlEmptyPart

definition trim_slashes :: "rstring \<Rightarrow> rstring" where
  "trim_slashes s = rev (dropWhile (\<lambda>c. c = 47) (rev s))"

definition rsplit_once :: "rchar \<Rightarrow> rstring \<Rightarrow> (rstring \<times> rstring) option" where
  "rsplit_once c s = map_option (\<lambda>(a, b). (rev b, rev a)) (split_once c (rev s))"

definition with_port :: "rstring \<Rightarrow> rstring \<Rightarrow> url_error + rstring \<times> nat" where
  "with_port host port =
     (case parse_unsigned 65535 port of None \<Rightarrow> Err UrlPort | Some n \<Rightarrow> Ok (host, n))"

definition bracketed_host :: "rstring \<Rightarrow> nat \<Rightarrow> url_error + rstring \<times> nat" where
  "bracketed_host rest default_port =
     (case split_once 93 rest of
        None \<Rightarrow> Err UrlUnterminated
      | Some (host, tail) \<Rightarrow>
          if host = [] then Err UrlEmptyHost
          else
            (case strip_prefix [58] tail of
               Some port \<Rightarrow> if port \<noteq> [] then with_port host port else Err UrlEmptyPort
             | None \<Rightarrow> if tail = [] then Ok (host, default_port) else Err UrlSuffix))"

definition host_and_port :: "rstring \<Rightarrow> rstring \<Rightarrow> nat \<Rightarrow> url_error + rstring \<times> nat" where
  "host_and_port base scheme default_port =
     (case strip_prefix scheme base of
        None \<Rightarrow> Err UrlScheme
      | Some rest0 \<Rightarrow>
          (let authority = trim_slashes rest0 in
           if authority = [] \<or> 47 \<in> set authority \<or> 64 \<in> set authority \<or> 63 \<in> set authority \<or> 35 \<in> set authority
           then Err UrlForm
           else
             (case strip_prefix [91] authority of
                Some rest \<Rightarrow> bracketed_host rest default_port
              | None \<Rightarrow>
                  if length (filter (\<lambda>c. c = 58) authority) > 1 then Err UrlBrackets
                  else
                    (case rsplit_once 58 authority of
                       Some (host, port) \<Rightarrow>
                         if host \<noteq> [] \<and> port \<noteq> [] then with_port host port else Err UrlEmptyPart
                     | None \<Rightarrow> Ok (authority, default_port)))))"

text \<open>\<open>endpoint_url\<close> of \<open>transport.rs\<close>.\<close>

definition endpoint_url :: "rstring \<Rightarrow> nat \<Rightarrow> rstring" where
  "endpoint_url host port =
     (if 58 \<in> set host then lit ''https://['' @ host @ lit '']:'' @ show_nat port @ lit ''/''
      else lit ''https://'' @ host @ lit '':'' @ show_nat port @ lit ''/'')"

section \<open>Channels\<close>

datatype client_error =
    CeTransport
  | CeText rstring
  | CeAuthRejected rstring
  | CeSshFailed rstring

record client_chan =
  cc_fits :: "envelope \<Rightarrow> bool"
  cc_room :: nat
  cc_inbox :: "envelope list"
  cc_sent :: "envelope list"

definition send_env :: "envelope \<Rightarrow> client_chan \<Rightarrow> client_chan \<times> (client_error + unit)" where
  "send_env env c =
     (if \<not> cc_fits c env \<or> cc_room c = 0 then (c, Err CeTransport)
      else (c\<lparr>cc_room := cc_room c - 1, cc_sent := cc_sent c @ [env]\<rparr>, Ok ()))"

definition recv_env :: "client_chan \<Rightarrow> client_chan \<times> (client_error + envelope)" where
  "recv_env c =
     (case cc_inbox c of [] \<Rightarrow> (c, Err CeTransport) | env # rest \<Rightarrow> (c\<lparr>cc_inbox := rest\<rparr>, Ok env))"

fun recv_from :: "(envelope \<Rightarrow> 'r option) \<Rightarrow> envelope list \<Rightarrow> envelope list \<times> (client_error + 'r)" where
  "recv_from pred [] = ([], Err CeTransport)"
| "recv_from pred (env # rest) = (case pred env of Some r \<Rightarrow> (rest, Ok r) | None \<Rightarrow> recv_from pred rest)"

definition recv_until :: "(envelope \<Rightarrow> 'r option) \<Rightarrow> client_chan \<Rightarrow> client_chan \<times> (client_error + 'r)" where
  "recv_until pred c = (case recv_from pred (cc_inbox c) of (rest, r) \<Rightarrow> (c\<lparr>cc_inbox := rest\<rparr>, r))"

text \<open>Send one envelope and wait for the answer to it.\<close>

definition ask :: "envelope \<Rightarrow> (envelope \<Rightarrow> 'r option) \<Rightarrow> client_chan \<Rightarrow> client_chan \<times> (client_error + 'r)" where
  "ask env pred c =
     (case send_env env c of
        (c1, Inl e) \<Rightarrow> (c1, Err e)
      | (c1, Inr _) \<Rightarrow> recv_until pred c1)"

section \<open>Authentication\<close>

datatype client_auth =
    AuthDev
  | AuthGrant bytes
  | AuthSshKey rstring
  | AuthPassword rstring rstring

text \<open>
  The key file of \<open>AuthSshKey\<close>: what reading and parsing it, its public line and signing give. For a security
  key \<open>kf_sign\<close> is \<open>ssh-keygen\<close>.
\<close>

record key_file =
  kf_size :: nat
  kf_bytes :: "bytes option"
  kf_parses :: bool
  kf_security_key :: bool
  kf_encrypted :: bool
  kf_public_line :: "bytes option"
  kf_sign :: "bytes \<Rightarrow> bytes option"

definition SSH_PRIVATE_KEY_MAX_BYTES :: nat where "SSH_PRIVATE_KEY_MAX_BYTES = 64 * 1024"

definition read_private_key :: "key_file \<Rightarrow> rstring + unit" where
  "read_private_key k =
     (if kf_size k > SSH_PRIVATE_KEY_MAX_BYTES then Err (lit ''private key too large'')
      else
        (case kf_bytes k of
           None \<Rightarrow> Err (lit ''open private key'')
         | Some bs \<Rightarrow>
             if length (take (SSH_PRIVATE_KEY_MAX_BYTES + 1) bs) > SSH_PRIVATE_KEY_MAX_BYTES
             then Err (lit ''private key too large'')
             else if \<not> kf_parses k then Err (lit ''parse private key'') else Ok ()))"

definition send_auth :: "auth_request \<Rightarrow> client_chan \<Rightarrow> client_chan \<times> (client_error + authentication_result)" where
  "send_auth q =
     ask (plain (MAuthenticate (Some q)))
       (\<lambda>env. case ev_message env of Some (MAuthenticationResult r) \<Rightarrow> Some r | _ \<Rightarrow> None)"

definition ensure_ok :: "authentication_result \<Rightarrow> client_error + unit" where
  "ensure_ok r = (if ar_ok r then Ok () else Err (CeAuthRejected (ar_error_message r)))"

definition ssh_auth_failed :: "client_error \<Rightarrow> client_error" where
  "ssh_auth_failed e = CeSshFailed (case e of CeText t \<Rightarrow> t | CeAuthRejected t \<Rightarrow> t | CeSshFailed t \<Rightarrow> t | CeTransport \<Rightarrow> [])"

text \<open>The challenge of an offered key, its signature bound to the certificate of the connection, the proof.\<close>

definition ssh_prove :: "key_file \<Rightarrow> bytes \<Rightarrow> bytes \<Rightarrow> client_chan \<Rightarrow> client_chan \<times> (client_error + bytes)" where
  "ssh_prove k channel_binding challenge c =
     (case kf_sign k (channel_bound_message channel_binding challenge) of
        None \<Rightarrow> (c, Err (CeSshFailed (lit ''sign challenge'')))
      | Some pem \<Rightarrow>
          (case send_auth (SshChallengeResponse challenge pem) c of
             (c1, Inl e) \<Rightarrow> (c1, Err e)
           | (c1, Inr r) \<Rightarrow>
               (case ensure_ok r of Inl e \<Rightarrow> (c1, Err (ssh_auth_failed e)) | Inr _ \<Rightarrow> (c1, Ok (ar_challenge r)))))"

definition ssh_authenticate ::
  "key_file \<Rightarrow> rstring \<Rightarrow> bytes \<Rightarrow> client_chan \<Rightarrow> client_chan \<times> (client_error + bytes)" where
  "ssh_authenticate k username channel_binding c =
     (case read_private_key k of
        Inl e \<Rightarrow> (c, Err (CeSshFailed e))
      | Inr _ \<Rightarrow>
          if kf_encrypted k \<and> \<not> kf_security_key k then
            (c, Err (CeSshFailed (lit ''passphrase-protected keys are not yet supported; use an unencrypted key'')))
          else
            (case kf_public_line k of
               None \<Rightarrow> (c, Err (CeSshFailed (lit ''serialize public key'')))
             | Some public_line \<Rightarrow>
                 (case send_auth (SshChallengeRequest username public_line) c of
                    (c1, Inl e) \<Rightarrow> (c1, Err e)
                  | (c1, Inr r) \<Rightarrow>
                      if ar_challenge r = [] then
                        (c1, Err (CeSshFailed (lit ''authentication failed (key not authorized)'')))
                      else ssh_prove k channel_binding (ar_challenge r) c1)))"

definition client_authenticate ::
  "key_file \<Rightarrow> client_auth \<Rightarrow> bytes \<Rightarrow> client_chan \<Rightarrow> client_chan \<times> (client_error + bytes)" where
  "client_authenticate k auth channel_binding c =
     (case auth of
        AuthDev \<Rightarrow>
          (case send_auth (ConnectionGrantBytes []) c of
             (c1, Inl e) \<Rightarrow> (c1, Err e)
           | (c1, Inr r) \<Rightarrow> (case ensure_ok r of Inl e \<Rightarrow> (c1, Err e) | Inr _ \<Rightarrow> (c1, Ok (ar_challenge r))))
      | AuthGrant grant \<Rightarrow>
          (case send_auth (ConnectionGrantBytes grant) c of
             (c1, Inl e) \<Rightarrow> (c1, Err e)
           | (c1, Inr r) \<Rightarrow>
               (case ensure_ok r of
                  Inl e \<Rightarrow> (c1, Err e)
                | Inr _ \<Rightarrow> (c1, Ok (if ar_challenge r = [] then grant else ar_challenge r))))
      | AuthSshKey username \<Rightarrow> ssh_authenticate k username channel_binding c
      | AuthPassword username password \<Rightarrow>
          (case send_auth (PasswordRequest username password) c of
             (c1, Inl e) \<Rightarrow> (c1, Err e)
           | (c1, Inr r) \<Rightarrow>
               (case ensure_ok r of
                  Inl e \<Rightarrow> (c1, Err e)
                | Inr _ \<Rightarrow>
                    if ar_challenge r = [] then
                      (c1, Err (CeText (lit ''authentication succeeded but no grant was issued'')))
                    else (c1, Ok (ar_challenge r)))))"

section \<open>Connecting\<close>

record server_conn =
  sv_control :: client_chan
  sv_grant :: bytes
  sv_hello :: server_hello
  sv_next_request :: nat

text \<open>
  Where to connect: an \<open>https\<close> address directly, any other through the daemon's info document, of
  which the port and the certificate hash are read; \<open>info\<close> is what fetching and parsing it gave.
\<close>

datatype target_error = TgUrl url_error | TgInfo rstring

record webtransport_info =
  wi_port :: "nat option"
  wi_cert_hash :: "bytes option"

definition connect_target ::
  "rstring \<Rightarrow> (rstring + webtransport_info) \<Rightarrow> target_error + rstring \<times> nat \<times> bytes option" where
  "connect_target http_base info =
     (if prefix (lit ''https://'') http_base then
        (case host_and_port http_base (lit ''https://'') 443 of
           Inl e \<Rightarrow> Err (TgUrl e) | Inr (host, port) \<Rightarrow> Ok (host, port, None))
      else
        (case host_and_port http_base (lit ''http://'') 80 of
           Inl e \<Rightarrow> Err (TgUrl e)
         | Inr (host, _) \<Rightarrow>
             (case info of
                Inl e \<Rightarrow> Err (TgInfo e)
              | Inr i \<Rightarrow>
                  (case wi_port i of
                     None \<Rightarrow> Err (TgInfo (lit ''info missing port''))
                   | Some port \<Rightarrow>
                       (case wi_cert_hash i of
                          None \<Rightarrow> Err (TgInfo (lit ''info missing certHashBase64''))
                        | Some h \<Rightarrow>
                            if length h \<noteq> 32 then Err (TgInfo (lit ''cert hash must be 32 bytes''))
                            else Ok (host, as_u16 port, Some h))))))"

definition ClientKind_NativeQuic :: int where "ClientKind_NativeQuic = 3"

definition native_hello :: "rstring \<Rightarrow> client_hello" where
  "native_hello build =
     \<lparr>ch_protocol_major = PROTOCOL_MAJOR, ch_protocol_minor = PROTOCOL_MINOR, ch_client_kind = ClientKind_NativeQuic,
      ch_client_build = build, ch_capabilities = [capability_i32 FileTransfer, capability_i32 TcpForward],
      ch_max_frame_bytes = FRAME_BYTES_DEFAULT, ch_max_datagram_bytes = 1200, ch_encodings = [Encoding_Utf8]\<rparr>"

definition client_handshake ::
  "rstring \<Rightarrow> key_file \<Rightarrow> client_auth \<Rightarrow> bytes \<Rightarrow> client_chan \<Rightarrow> client_error + server_conn" where
  "client_handshake build k auth cert_hash c =
     (case ask (plain (MClientHello (native_hello build)))
             (\<lambda>env. case ev_message env of Some (MServerHello h) \<Rightarrow> Some h | _ \<Rightarrow> None) c of
        (_, Inl e) \<Rightarrow> Err e
      | (c1, Inr hello) \<Rightarrow>
          (case client_authenticate k auth cert_hash c1 of
             (_, Inl e) \<Rightarrow> Err e
           | (c2, Inr grant) \<Rightarrow> Ok \<lparr>sv_control = c2, sv_grant = grant, sv_hello = hello, sv_next_request = 1\<rparr>))"

section \<open>Shell operations\<close>

text \<open>One request on the control channel under a fresh identifier.\<close>

definition control_ask ::
  "envelope \<Rightarrow> (nat \<Rightarrow> envelope \<Rightarrow> 'r option) \<Rightarrow> server_conn \<Rightarrow> server_conn \<times> (client_error + 'r)" where
  "control_ask env pred s =
     (let i = sv_next_request s; s1 = s\<lparr>sv_next_request := i + 1\<rparr> in
      case ask (env\<lparr>ev_request_id := i\<rparr>) (pred i) (sv_control s1) of
        (c, r) \<Rightarrow> (s1\<lparr>sv_control := c\<rparr>, r))"

definition flatten :: "client_error + (client_error + 'r) \<Rightarrow> client_error + 'r" where
  "flatten r = (case r of Inl e \<Rightarrow> Err e | Inr x \<Rightarrow> x)"

definition client_list_shells :: "server_conn \<Rightarrow> server_conn \<times> (client_error + pb_shell_info list)" where
  "client_list_shells =
     control_ask (plain MListShells)
       (\<lambda>i env. case ev_message env of
          Some (MShellList shells) \<Rightarrow> if ev_request_id env = i then Some shells else None
        | _ \<Rightarrow> None)"

definition client_open_shell ::
  "rstring option \<Rightarrow> nat \<Rightarrow> nat \<Rightarrow> bytes \<Rightarrow> server_conn \<Rightarrow> server_conn \<times> (client_error + bytes \<times> bytes)" where
  "client_open_shell command cols rows idempotency_key s =
     apsnd flatten
       (control_ask
          (plain (MOpenShell \<lparr>om_unix_account = [], om_command = (case command of None \<Rightarrow> [] | Some x \<Rightarrow> x),
                              om_initial_cols = cols, om_initial_rows = rows, om_idempotency_key = idempotency_key\<rparr>))
          (\<lambda>i env. case ev_message env of
             Some (MShellOpened token _) \<Rightarrow> if ev_request_id env = i then Some (Ok (ev_shell_id env, token)) else None
           | Some (MError _ txt _) \<Rightarrow> if ev_request_id env = i then Some (Err (CeText txt)) else None
           | _ \<Rightarrow> None) s)"

definition client_terminate :: "bytes \<Rightarrow> server_conn \<Rightarrow> server_conn \<times> (client_error + int)" where
  "client_terminate shell_id s =
     apsnd flatten
       (control_ask ((plain MTerminateShell)\<lparr>ev_shell_id := shell_id\<rparr>)
          (\<lambda>i env. case ev_message env of
             Some (MShellExited code _ _) \<Rightarrow> if ev_request_id env = i then Some (Ok code) else None
           | Some (MError _ txt _) \<Rightarrow> if ev_request_id env = i then Some (Err (CeText txt)) else None
           | _ \<Rightarrow> None) s)"

definition keepalive_interval :: "server_conn \<Rightarrow> nat option" where
  "keepalive_interval s =
     (if unat (sh_keepalive_interval_ms (sv_hello s)) > 0 then Some (unat (sh_keepalive_interval_ms (sv_hello s))) else None)"

section \<open>Attachments\<close>

datatype attach_error = AeTransport | AeRejected error_code bool rstring

record attached_shell =
  as_chan :: client_chan
  as_shell_id :: bytes
  as_snapshot :: bytes
  as_rotated_token :: bytes
  as_oldest_history_line_id :: nat
  as_newest_history_line_id :: nat

definition attach_envelope_of :: "bytes \<Rightarrow> bytes \<Rightarrow> nat \<Rightarrow> nat \<Rightarrow> envelope" where
  "attach_envelope_of shell_id token cols rows =
     (plain (MAttachShell \<lparr>am_resume_token = token, am_cols = cols, am_rows = rows,
                           am_last_seen_revision = 0, am_last_history_line_id = 0\<rparr>))\<lparr>ev_shell_id := shell_id\<rparr>"

text \<open>\<open>chan\<close> is the new stream, or \<open>None\<close> when it cannot be opened.\<close>

definition attach_shell :: "client_chan option \<Rightarrow> bytes \<Rightarrow> bytes \<Rightarrow> nat \<Rightarrow> nat \<Rightarrow> attach_error + attached_shell" where
  "attach_shell chan shell_id token cols rows =
     (case chan of
        None \<Rightarrow> Err AeTransport
      | Some c \<Rightarrow>
          (case ask (attach_envelope_of shell_id token cols rows)
                  (\<lambda>env. case ev_message env of
                     Some (MShellAttached a) \<Rightarrow> Some (Ok a)
                   | Some (MError code txt retryable) \<Rightarrow> Some (Err (AeRejected code retryable txt))
                   | _ \<Rightarrow> None) c of
             (_, Inl _) \<Rightarrow> Err AeTransport
           | (_, Inr (Inl e)) \<Rightarrow> Err e
           | (c1, Inr (Inr a)) \<Rightarrow>
               Ok \<lparr>as_chan = c1, as_shell_id = shell_id, as_snapshot = sa_screen_snapshot a,
                   as_rotated_token = sa_rotated_resume_token a,
                   as_oldest_history_line_id = sa_oldest_history_line_id a,
                   as_newest_history_line_id = sa_newest_history_line_id a\<rparr>))"

datatype failure_action = Retry | RecoverViaIdempotency | ForgetAndExit | ExitKeepToken

fun attach_failure_action :: "attach_error \<Rightarrow> bool \<Rightarrow> failure_action" where
  "attach_failure_action AeTransport have_key = Retry"
| "attach_failure_action (AeRejected code retryable txt) have_key =
     (if code = ErrTokenExpired \<or> code = ErrTokenReplayed then
        (if have_key then RecoverViaIdempotency else ForgetAndExit)
      else if code = ErrNotFound then ForgetAndExit
      else if retryable then Retry else ExitKeepToken)"

datatype shell_event = EvOutput bytes | EvExited int | EvPing nat

definition shell_input :: "bytes \<Rightarrow> client_chan \<Rightarrow> client_chan \<times> (client_error + unit)" where
  "shell_input data = send_env (plain (MTerminalInput data))"

definition shell_resize :: "nat \<Rightarrow> nat \<Rightarrow> client_chan \<Rightarrow> client_chan \<times> (client_error + unit)" where
  "shell_resize cols rows = send_env (plain (MTerminalResize cols rows))"

definition shell_pong :: "nat \<Rightarrow> client_chan \<Rightarrow> client_chan \<times> (client_error + unit)" where
  "shell_pong nonce = send_env (plain (MPong nonce))"

definition shell_detach :: "client_chan \<Rightarrow> client_chan \<times> (client_error + unit)" where
  "shell_detach = send_env (plain MDetachShell)"

definition request_history :: "nat \<Rightarrow> nat \<Rightarrow> client_chan \<Rightarrow> client_chan \<times> (client_error + unit)" where
  "request_history before_line_id maximum_lines =
     send_env (plain (MRequestHistory before_line_id maximum_lines (128 * 1024)))"

definition shell_history :: "nat \<Rightarrow> nat \<Rightarrow> client_chan \<Rightarrow> client_chan \<times> (client_error + rstring list)" where
  "shell_history before_line_id maximum_lines =
     ask (plain (MRequestHistory before_line_id maximum_lines (128 * 1024)))
       (\<lambda>env. case ev_message env of Some (MHistoryChunk _ lines _) \<Rightarrow> Some lines | _ \<Rightarrow> None)"

definition event_in :: "envelope \<Rightarrow> shell_event option" where
  "event_in env =
     (case ev_message env of
        Some (MTerminalOutput data) \<Rightarrow> Some (EvOutput data)
      | Some (MShellExited code _ _) \<Rightarrow> Some (EvExited code)
      | Some (MPing nonce) \<Rightarrow> Some (EvPing nonce)
      | _ \<Rightarrow> None)"

definition shell_next_event :: "client_chan \<Rightarrow> client_chan \<times> (client_error + shell_event)" where
  "shell_next_event = recv_until event_in"

section \<open>File uploads\<close>

text \<open>
  The selected file: what inspecting, opening and rewinding it give, and the answers of its reads
  in each of the two passes, after which comes the end of the file. Each read races with the cancellation, and so does
  each send: the flag beside a read says that the cancellation won against sending its chunk.
\<close>

datatype file_read = FrData bytes | FrFailed | FrCancelled

record upload_source =
  up_path :: "(bool \<times> bool) option"
  up_opens :: bool
  up_file :: "(bool \<times> u64) option"
  up_name :: "rstring option"
  up_first :: "file_read list"
  up_rewinds :: bool
  up_second :: "(file_read \<times> bool) list"

record upload_link =
  ul_chan :: "client_chan option"
  ul_cancel_begin :: bool
  ul_cancel_finish :: bool
  ul_cancel_reply :: bool

record upload_result =
  ul_remote_path :: rstring
  ul_bytes_written :: u64
  ul_sha256 :: bytes

definition cancelled :: client_error where "cancelled = CeText (lit ''upload cancelled'')"

definition upload_checks :: "upload_source \<Rightarrow> client_error + rstring \<times> u64" where
  "upload_checks src =
     (case up_path src of
        None \<Rightarrow> Err (CeText (lit ''inspect selected upload source''))
      | Some (is_symlink, is_file) \<Rightarrow>
          if is_symlink \<or> \<not> is_file then Err (CeText (lit ''upload source must be a non-symlink regular file''))
          else if \<not> up_opens src then Err (CeText (lit ''open selected upload source''))
          else
            (case up_file src of
               None \<Rightarrow> Err (CeText (lit ''inspect upload source''))
             | Some (is_file', declared) \<Rightarrow>
                 if \<not> is_file' then Err (CeText (lit ''upload source must be a regular file''))
                 else if declared > UPLOAD_FILE_BYTES_HARD_MAX then Err (CeText (lit ''hard maximum''))
                 else
                   (case up_name src of
                      None \<Rightarrow> Err (CeText (lit ''upload source filename must be non-empty UTF-8''))
                    | Some name \<Rightarrow>
                        if name = [] then Err (CeText (lit ''upload source filename must be non-empty UTF-8''))
                        else Ok (name, declared))))"

fun hash_pass :: "'h sha2 \<Rightarrow> file_read list \<Rightarrow> nat \<Rightarrow> 'h \<Rightarrow> client_error + nat \<times> 'h" where
  "hash_pass S [] n h = Ok (n, h)"
| "hash_pass S (FrCancelled # rest) n h = Err cancelled"
| "hash_pass S (FrFailed # rest) n h = Err (CeText (lit ''read upload source''))"
| "hash_pass S (FrData data # rest) n h =
     (if data = [] then Ok (n, h)
      else if n + length data \<ge> 2 ^ 64 then Err (CeText (lit ''upload source length overflow''))
      else hash_pass S rest (n + length data) (sha_update S h data))"

definition upload_begin_message :: "'h sha2 \<Rightarrow> upload_source \<Rightarrow> client_error + begin_upload" where
  "upload_begin_message S src =
     (case upload_checks src of
        Inl e \<Rightarrow> Err e
      | Inr (name, declared) \<Rightarrow>
          (case hash_pass S (up_first src) 0 (sha_new S) of
             Inl e \<Rightarrow> Err e
           | Inr (hashed, h) \<Rightarrow>
               if hashed \<noteq> unat declared then Err (CeText (lit ''upload source changed while it was being hashed''))
               else if \<not> up_rewinds src then Err (CeText (lit ''rewind upload source''))
               else
                 (let b = \<lparr>bu_original_name = name, bu_total_bytes = declared, bu_sha256 = sha_finalize S h\<rparr> in
                  case validate_begin b UPLOAD_FILE_BYTES_HARD_MAX of
                    Inl _ \<Rightarrow> Err (CeText (lit ''invalid upload''))
                  | Inr _ \<Rightarrow> Ok b)))"

definition abort_upload :: "bytes \<Rightarrow> client_chan \<Rightarrow> client_chan" where
  "abort_upload upload_id c = fst (send_env (plain (MAbortUpload upload_id (lit ''client cancellation''))) c)"

text \<open>The loop over the chunks; a read is cut to what the buffer and the declared length leave.\<close>

fun send_chunks ::
  "bytes \<Rightarrow> nat \<Rightarrow> nat \<Rightarrow> (file_read \<times> bool) list \<Rightarrow> nat \<Rightarrow> client_chan \<Rightarrow> client_chan \<times> (client_error + unit)" where
  "send_chunks upload_id limit declared [] offset c =
     (if offset \<ge> declared then (c, Ok ())
      else (abort_upload upload_id c, Err (CeText (lit ''upload source became shorter while sending''))))"
| "send_chunks upload_id limit declared ((read, cancel) # rest) offset c =
     (if offset \<ge> declared then (c, Ok ())
      else
        (case read of
           FrCancelled \<Rightarrow> (abort_upload upload_id c, Err cancelled)
         | FrFailed \<Rightarrow> (c, Err (CeText (lit ''read upload source'')))
         | FrData available \<Rightarrow>
             (let data = take (min (declared - offset) limit) available in
              if data = [] then (abort_upload upload_id c, Err (CeText (lit ''upload source became shorter while sending'')))
              else if cancel then (abort_upload upload_id c, Err cancelled)
              else
                (case send_env (plain (MUploadChunk
                         \<lparr>uc_upload_id = upload_id, uc_offset = of_nat offset, uc_data = data\<rparr>)) c of
                   (c1, Inl e) \<Rightarrow> (c1, Err e)
                 | (c1, Inr _) \<Rightarrow> send_chunks upload_id limit declared rest (offset + length data) c1))))"

definition upload_accepted_in :: "envelope \<Rightarrow> (client_error + bytes \<times> u32) option" where
  "upload_accepted_in env =
     (case ev_message env of
        Some (MUploadAccepted upload_id maximum_chunk_bytes) \<Rightarrow> Some (Ok (upload_id, maximum_chunk_bytes))
      | Some (MError _ txt _) \<Rightarrow> Some (Err (CeText txt))
      | _ \<Rightarrow> None)"

definition upload_finished_in :: "envelope \<Rightarrow> (client_error + bytes \<times> rstring \<times> u64 \<times> bytes) option" where
  "upload_finished_in env =
     (case ev_message env of
        Some (MUploadFinished upload_id path n digest) \<Rightarrow> Some (Ok (upload_id, path, n, digest))
      | Some (MError _ txt _) \<Rightarrow> Some (Err (CeText txt))
      | _ \<Rightarrow> None)"

definition finish_upload ::
  "upload_link \<Rightarrow> begin_upload \<Rightarrow> bytes \<Rightarrow> client_chan \<Rightarrow> client_chan \<times> (client_error + upload_result)" where
  "finish_upload k b upload_id c =
     (if ul_cancel_finish k then (abort_upload upload_id c, Err cancelled)
      else
        (case send_env (plain (MFinishUpload upload_id)) c of
           (c1, Inl e) \<Rightarrow> (c1, Err e)
         | (c1, Inr _) \<Rightarrow>
             if ul_cancel_reply k then (abort_upload upload_id c1, Err cancelled)
             else
               (case apsnd flatten (recv_until upload_finished_in c1) of
                  (c2, Inl e) \<Rightarrow> (c2, Err e)
                | (c2, Inr (i, path, n, digest)) \<Rightarrow>
                    if i \<noteq> upload_id \<or> n \<noteq> bu_total_bytes b \<or> digest \<noteq> bu_sha256 b
                    then (c2, Err (CeText (lit ''server returned inconsistent upload result'')))
                    else (c2, Ok \<lparr>ul_remote_path = path, ul_bytes_written = n, ul_sha256 = digest\<rparr>))))"

definition upload_transfer ::
  "upload_source \<Rightarrow> upload_link \<Rightarrow> bytes \<Rightarrow> begin_upload \<Rightarrow> client_chan \<Rightarrow> client_chan \<times> (client_error + upload_result)" where
  "upload_transfer src k shell_id b c =
     (case send_env ((plain (MBeginUpload b))\<lparr>ev_request_id := 1, ev_shell_id := shell_id\<rparr>) c of
        (c1, Inl e) \<Rightarrow> (c1, Err e)
      | (c1, Inr _) \<Rightarrow>
          if ul_cancel_begin k then (c1, Err cancelled)
          else
            (case apsnd flatten (recv_until upload_accepted_in c1) of
               (c2, Inl e) \<Rightarrow> (c2, Err e)
             | (c2, Inr (upload_id, maximum_chunk_bytes)) \<Rightarrow>
                 if length upload_id \<noteq> UPLOAD_ID_BYTES \<or> maximum_chunk_bytes = 0
                    \<or> unat maximum_chunk_bytes > UPLOAD_CHUNK_BYTES_MAX
                 then (c2, Err (CeText (lit ''server selected invalid upload bounds'')))
                 else
                   (case send_chunks upload_id (unat maximum_chunk_bytes) (unat (bu_total_bytes b)) (up_second src) 0 c2 of
                      (c3, Inl e) \<Rightarrow> (c3, Err e)
                    | (c3, Inr _) \<Rightarrow> finish_upload k b upload_id c3)))"

definition upload_file ::
  "'h sha2 \<Rightarrow> upload_source \<Rightarrow> upload_link \<Rightarrow> bytes \<Rightarrow> client_chan option \<times> (client_error + upload_result)" where
  "upload_file S src k shell_id =
     (case upload_begin_message S src of
        Inl e \<Rightarrow> (None, Err e)
      | Inr b \<Rightarrow>
          (case ul_chan k of
             None \<Rightarrow> (None, Err CeTransport)
           | Some c \<Rightarrow> apfst Some (upload_transfer src k shell_id b c)))"

end
