(* ===== verification/Client_Props.thy ===== *)
theory Client_Props
  imports Native_Client
begin

text \<open>
  What the native client promises, alone and together with the daemon: addresses survive being
  written out and read again, and an upload of an unchanged file goes through the daemon's upload
  actor and store to the disk byte for byte.
\<close>

section \<open>Server addresses\<close>

lemma trim_slashes_port: "trim_slashes (s @ show_nat n @ lit ''/'') = s @ show_nat n"
proof -
  obtain d ds where d: "rev (show_nat n) = d # ds" by (cases "rev (show_nat n)") auto
  then have "is_ascii_digit d" using show_nat_digits [of d n] by (metis in_set_conv_decomp rev_eq_Cons_iff set_rev)
  then have "d \<noteq> 47" by (simp add: is_ascii_digit_def)
  then have "trim_slashes (s @ show_nat n @ [47]) = s @ rev (d # ds)" using d by (simp add: trim_slashes_def)
  then show ?thesis using d [symmetric] by (simp add: lit_def)
qed

lemma show_nat_plain: "is_ascii_digit c \<or> c \<notin> set (show_nat n)"
  using show_nat_digits by blast

lemma split_once_Some:
  assumes "split_once c s = Some (a, b)"
  shows "s = a @ c # b \<and> c \<notin> set a"
proof -
  have c: "c \<in> set s" "a = takeWhile (\<lambda>x. x \<noteq> c) s" "b = tl (dropWhile (\<lambda>x. x \<noteq> c) s)"
    using assms by (auto simp: split_once_def split: if_splits)
  have n: "dropWhile (\<lambda>x. x \<noteq> c) s \<noteq> []" using c(1) by (auto simp: dropWhile_eq_Nil_conv)
  then have "hd (dropWhile (\<lambda>x. x \<noteq> c) s) = c" using hd_dropWhile [OF n] by simp
  then have "dropWhile (\<lambda>x. x \<noteq> c) s = c # b" using n c(3) by (cases "dropWhile (\<lambda>x. x \<noteq> c) s") simp_all
  moreover have "s = a @ dropWhile (\<lambda>x. x \<noteq> c) s" using c(2) by simp
  moreover have "c \<notin> set a" using c(2) by (auto dest: set_takeWhileD)
  ultimately show ?thesis by simp
qed

lemma with_port_Ok: "with_port host port = Ok (h, n) \<Longrightarrow> h = host \<and> n \<le> 65535"
  by (auto simp: with_port_def parse_unsigned_le split: option.splits)

lemma host_and_port_Ok:
  assumes "host_and_port base scheme d = Ok (host, port)" and "d \<le> 65535"
  shows "host \<noteq> [] \<and> {47, 64, 63, 35} \<inter> set host = {} \<and> port \<le> 65535 \<and> (93 \<notin> set host \<or> 58 \<notin> set host)"
proof -
  obtain rest0 where "strip_prefix scheme base = Some rest0"
    using assms(1) by (auto simp: host_and_port_def split: option.splits)
  then have a: "trim_slashes rest0 \<noteq> []" "{47, 64, 63, 35} \<inter> set (trim_slashes rest0) = {}"
    and r: "host_and_port base scheme d = (case strip_prefix [91] (trim_slashes rest0) of
                Some rest \<Rightarrow> bracketed_host rest d
              | None \<Rightarrow>
                  if length (filter (\<lambda>c. c = 58) (trim_slashes rest0)) > 1 then Err UrlBrackets
                  else
                    (case rsplit_once 58 (trim_slashes rest0) of
                       Some (host, port) \<Rightarrow>
                         if host \<noteq> [] \<and> port \<noteq> [] then with_port host port else Err UrlEmptyPart
                     | None \<Rightarrow> Ok (trim_slashes rest0, d)))"
    using assms(1) by (auto simp: host_and_port_def Let_def split: if_splits)
  let ?a = "trim_slashes rest0"
  show ?thesis
  proof (cases "strip_prefix [91] ?a")
    case (Some rest)
    then have rest: "set rest \<subseteq> set ?a" "bracketed_host rest d = Ok (host, port)"
      using r assms(1) by (auto simp: strip_prefix_def split: if_splits dest: in_set_dropD)
    then obtain tail where t: "split_once 93 rest = Some (host, tail)" "host \<noteq> []" and p: "port \<le> 65535"
      using assms(2) by (auto simp: bracketed_host_def split: option.splits if_splits dest!: with_port_Ok)
    have s: "rest = host @ 93 # tail" "93 \<notin> set host" using split_once_Some [OF t(1)] by auto
    moreover have "set host \<subseteq> set ?a" using s rest(1) by auto
    ultimately show ?thesis using a(2) t(2) p by auto
  next
    case None
    show ?thesis
    proof (cases "rsplit_once 58 ?a")
      case N: None
      then have "host = ?a" "port = d" using r None assms(1) by (auto split: if_splits)
      moreover have "58 \<notin> set ?a" using N by (auto simp: rsplit_once_def split_once_def split: if_splits)
      ultimately show ?thesis using a assms(2) by auto
    next
      case (Some hp)
      obtain h v where hv: "hp = (h, v)" by fastforce
      then have c: "length (filter (\<lambda>c. c = 58) ?a) \<le> 1" "h \<noteq> []" "host = h" "port \<le> 65535"
        using r None Some assms(1) by (auto split: if_splits dest: with_port_Ok [OF sym])
      have "split_once 58 (rev ?a) = Some (rev v, rev h)" using Some hv by (auto simp: rsplit_once_def)
      then have "rev ?a = rev v @ 58 # rev h" using split_once_Some by blast
      then have s: "?a = h @ 58 # v" by (metis append_Cons append_Nil append_assoc rev.simps(2) rev_append rev_rev_ident rev_swap)
      then have "filter (\<lambda>c. c = 58) h = []" using c(1) by simp
      then have "58 \<notin> set h" by (auto simp: filter_empty_conv)
      then show ?thesis using a(2) s c by auto
    qed
  qed
qed

text \<open>
  A server address the client accepts survives being written out: the endpoint built from its host
  and port is read back to the same host and port, for names, IPv4 and IPv6 addresses.
\<close>

theorem server_url_roundtrip:
  assumes "host_and_port base scheme d = Ok (host, port)" and "d \<le> 65535" and "hd host \<noteq> 91"
  shows "host_and_port (endpoint_url host port) (lit ''https://'') d' = Ok (host, port)"
proof -
  have h: "host \<noteq> []" "{47, 64, 63, 35} \<inter> set host = {}" "port \<le> 65535" "93 \<notin> set host \<or> 58 \<notin> set host"
    using host_and_port_Ok [OF assms(1,2)] by auto
  have digits: "{47, 64, 63, 35, 58} \<inter> set (show_nat port) = {}"
    by (auto simp: is_ascii_digit_def dest!: show_nat_digits)
  have p: "with_port host (show_nat port) = Ok (host, port)" by (simp add: with_port_def parse_show [OF h(3)])
  have pre: "strip_prefix q (q @ s) = Some s" for q s :: rstring by (simp add: strip_prefix_def)
  show ?thesis
  proof (cases "58 \<in> set host")
    case True
    let ?a = "91 # host @ 93 # 58 # show_nat port"
    have "strip_prefix (lit ''https://'') (endpoint_url host port) = Some (?a @ [47])"
      using True pre [of "lit ''https://''" "?a @ [47]"] by (simp add: endpoint_url_def lit_def)
    moreover have "trim_slashes (?a @ [47]) = ?a"
      using trim_slashes_port [of "91 # host @ [93, 58]" port] by (simp add: lit_def)
    moreover have "split_once 93 (host @ 93 # 58 # show_nat port) = Some (host, 58 # show_nat port)"
      using h(4) True by (simp add: split_once_append)
    moreover have "strip_prefix [91] ?a = Some (host @ 93 # 58 # show_nat port)" "strip_prefix [58] (58 # show_nat port) = Some (show_nat port)"
      by (simp_all add: strip_prefix_def)
    ultimately show ?thesis using h(1,2) digits p
      by (simp add: host_and_port_def bracketed_host_def)
  next
    case False
    let ?a = "host @ 58 # show_nat port"
    have "strip_prefix (lit ''https://'') (endpoint_url host port) = Some (?a @ [47])"
      using False pre [of "lit ''https://''" "?a @ [47]"] by (simp add: endpoint_url_def lit_def)
    moreover have "trim_slashes (?a @ [47]) = ?a"
      using trim_slashes_port [of "host @ [58]" port] by (simp add: lit_def)
    moreover have "strip_prefix [91] ?a = None" using assms(3) h(1) by (cases host) (simp_all add: strip_prefix_def)
    moreover have "filter (\<lambda>c. c = 58) host = []" "filter (\<lambda>c. c = 58) (show_nat port) = []"
      using False digits by (auto simp: filter_empty_conv)
    moreover have "rsplit_once 58 ?a = Some (host, show_nat port)"
      using digits split_once_append [of 58 "rev (show_nat port)" "rev host"] by (simp add: rsplit_once_def)
    ultimately show ?thesis using h(1,2) digits p by (simp add: host_and_port_def)
  qed
qed

theorem server_url_roundtrip_witness:
  "host_and_port (endpoint_url (lit ''::1'') 4444) (lit ''https://'') 443 = Ok (lit ''::1'', 4444)"
proof -
  have "host_and_port (lit ''https://[::1]:4444'') (lit ''https://'') 443 = Ok (lit ''::1'', 4444)"
    by (simp add: host_and_port_def bracketed_host_def trim_slashes_def lit_def strip_prefix_def split_once_def with_port_def
        parse_unsigned_def strip_plus_def is_ascii_digit_def)
  from server_url_roundtrip [OF this] show ?thesis by (simp add: lit_def)
qed

section \<open>Uploads, end to end\<close>

text \<open>The chunks of a file read in pieces, and a source whose two passes read the same content.\<close>

fun chunks_from :: "bytes \<Rightarrow> nat \<Rightarrow> bytes list \<Rightarrow> upload_chunk list" where
  "chunks_from i offset [] = []"
| "chunks_from i offset (p # ps) =
     \<lparr>uc_upload_id = i, uc_offset = of_nat offset, uc_data = p\<rparr> # chunks_from i (offset + length p) ps"

definition stable_source :: "rstring \<Rightarrow> bytes list \<Rightarrow> bytes list \<Rightarrow> upload_source" where
  "stable_source name first second =
     \<lparr>up_path = Some (False, True), up_opens = True, up_file = Some (True, of_nat (length (concat first))),
      up_name = Some name, up_first = map FrData first, up_rewinds = True,
      up_second = map (\<lambda>p. (FrData p, False)) second\<rparr>"

definition steady_link :: "nat \<Rightarrow> envelope list \<Rightarrow> upload_link" where
  "steady_link room inbox =
     \<lparr>ul_chan = Some \<lparr>cc_fits = (\<lambda>_. True), cc_room = room, cc_inbox = inbox, cc_sent = []\<rparr>,
      ul_cancel_begin = False, ul_cancel_finish = False, ul_cancel_reply = False\<rparr>"

definition begin_of :: "'h sha2 \<Rightarrow> rstring \<Rightarrow> bytes \<Rightarrow> begin_upload" where
  "begin_of S name content =
     \<lparr>bu_original_name = name, bu_total_bytes = of_nat (length content), bu_sha256 = sha_digest S content\<rparr>"

text \<open>What the dispatcher makes of the envelopes of an upload channel: commands for the actor.\<close>

definition sent_commands :: "upload_env \<Rightarrow> envelope list \<Rightarrow> (command_recv \<times> upload_env) list" where
  "sent_commands env es =
     List.map_filter (\<lambda>e. case ev_message e of
         Some (MUploadChunk c) \<Rightarrow> Some (Command (UpChunk c), env)
       | Some (MFinishUpload i) \<Rightarrow> Some (Command (UpFinish i), env)
       | _ \<Rightarrow> None) es"

definition willing :: "upload_env \<Rightarrow> bool" where
  "willing env \<longleftrightarrow> ue_worker_panic env = None \<and> (\<forall>call. ue_os env call = Success)"

lemma hash_pass_pieces:
  assumes "streaming S" and "[] \<notin> set ps" and "n + length (concat ps) < 2 ^ 64"
  shows "hash_pass S (map FrData ps) n h = Ok (n + length (concat ps), sha_update S h (concat ps))"
  using assms(2,3)
proof (induction ps arbitrary: n h)
  case Nil
  then show ?case using assms(1) by (simp add: streaming_def)
next
  case (Cons p ps)
  then show ?case using assms(1) by (auto simp: streaming_def add.assoc)
qed

lemma send_chunks_pieces:
  assumes "[] \<notin> set ps" and "list_all (\<lambda>p. length p \<le> limit) ps" and "offset + length (concat ps) = whole"
    and "cc_fits c = (\<lambda>_. True)" and "length ps \<le> cc_room c"
  shows "send_chunks i limit whole (map (\<lambda>p. (FrData p, False)) ps) offset c
    = (c\<lparr>cc_room := cc_room c - length ps,
        cc_sent := cc_sent c @ map (\<lambda>x. plain (MUploadChunk x)) (chunks_from i offset ps)\<rparr>, Ok ())"
  using assms
proof (induction ps arbitrary: offset c)
  case (Cons p ps)
  then have t: "take (min (whole - offset) limit) p = p" "offset < whole" "p \<noteq> []" by auto
  let ?c = "c\<lparr>cc_room := cc_room c - 1,
      cc_sent := cc_sent c @ [plain (MUploadChunk \<lparr>uc_upload_id = i, uc_offset = of_nat offset, uc_data = p\<rparr>)]\<rparr>"
  have "send_chunks i limit whole (map (\<lambda>p. (FrData p, False)) (p # ps)) offset c
      = send_chunks i limit whole (map (\<lambda>p. (FrData p, False)) ps) (offset + length p) ?c"
    using t Cons.prems(4,5) by (simp add: send_env_def)
  then show ?case using Cons.IH [of "offset + length p" ?c] Cons.prems by simp
qed simp

lemma begin_message:
  assumes "streaming S" and "\<forall>h. length (sha_finalize S h) = 32" and "[] \<notin> set first"
    and "length (concat first) \<le> unat UPLOAD_FILE_BYTES_HARD_MAX" and "name \<noteq> []" and "len name \<le> 255"
  shows "upload_begin_message S (stable_source name first second) = Ok (begin_of S name (concat first))
    \<and> unat (bu_total_bytes (begin_of S name (concat first))) = length (concat first)"
proof -
  have "unat UPLOAD_FILE_BYTES_HARD_MAX < 2 ^ 64" using unsigned_less [of UPLOAD_FILE_BYTES_HARD_MAX, where 'a = nat] by simp
  then have n: "length (concat first) < 2 ^ 64" "unat (of_nat (length (concat first)) :: u64) = length (concat first)"
    using assms(4) by (simp_all add: unat_of_nat)
  then have "(of_nat (length (concat first)) :: u64) \<le> UPLOAD_FILE_BYTES_HARD_MAX" using assms(4) by (simp add: word_le_nat_alt)
  moreover have "validate_begin (begin_of S name (concat first)) UPLOAD_FILE_BYTES_HARD_MAX = Ok ()"
    using calculation assms(2,6) by (simp add: validate_begin_ok begin_of_def sha_digest_def)
  ultimately show ?thesis using n assms(5) hash_pass_pieces [OF assms(1,3), of 0 "sha_new S"]
    by (simp add: upload_begin_message_def upload_checks_def stable_source_def begin_of_def sha_digest_def not_less)
qed

lemma calls_succeed: "\<forall>call. os call = Success \<Longrightarrow> calls os cs = (map (\<lambda>c. (c, Success)) cs, Ok ())"
  by (induction cs) simp_all

lemma chunk_valid:
  assumes "length i = 16" and "p \<noteq> []" and "length p \<le> unat mx" and "length p \<le> UPLOAD_CHUNK_BYTES_MAX"
    and "offset + length p \<le> unat whole"
  shows "validate_chunk \<lparr>uc_upload_id = i, uc_offset = of_nat offset, uc_data = p\<rparr> i (of_nat offset) mx whole = Ok ()"
proof -
  have "unat whole < 2 ^ 64" using unsigned_less [of whole, where 'a = nat] by simp
  then have "unat (of_nat offset :: u64) = offset" using assms(5) by (simp add: unat_of_nat)
  then show ?thesis using assms by (simp add: validate_chunk_ok)
qed

text \<open>The actor on the chunks of a file and a finish, with a system that does what it is asked.\<close>

definition client_commands :: "upload_env \<Rightarrow> bytes \<Rightarrow> nat \<Rightarrow> bytes list \<Rightarrow> (command_recv \<times> upload_env) list" where
  "client_commands env i offset ps =
     map (\<lambda>c. (Command (UpChunk c), env)) (chunks_from i offset ps) @ [(Command (UpFinish i), env)]"

definition finished_reply_of :: "upload_ids \<Rightarrow> store_config \<Rightarrow> begin_upload \<Rightarrow> bytes \<Rightarrow> envelope" where
  "finished_reply_of ids config b i =
     (respond (ui_request_id ids)
        (MUploadFinished i (path_join (path_join (sc_root config) (hex_id i)) (sanitize_basename (bu_original_name b)))
           (bu_total_bytes b) (bu_sha256 b)))\<lparr>ev_server_id := ui_server_id ids, ev_shell_id := ui_shell_id ids\<rparr>"

definition lands ::
  "begin_upload \<Rightarrow> bytes \<Rightarrow> bytes \<Rightarrow> bytes \<Rightarrow> 'ip actor_result \<Rightarrow> bool" where
  "lands b i data all r \<longleftrightarrow>
     (\<forall>fs fs'. map_of fs (hex_id i) = None
        \<longrightarrow> fs_replay (fs @ [(hex_id i, partial_dir data)]) (fx_calls (ac_effects r)) = Some fs'
        \<longrightarrow> fs' = fs @ [(hex_id i, committed_dir (sanitize_basename (bu_original_name b)) None all)])"

lemma actor_finishes:
  assumes "willing env" and "length data = unat (bu_total_bytes b)" and "sha_digest S data = bu_sha256 b"
  shows "\<exists>(r :: 'ip actor_result). run_upload S sh ids (client_commands env i off []) (ActiveSameUid (writer_at S config b i mx data)) = Some r
    \<and> ac_out r = [finished_reply_of ids config b i] \<and> lands b i data data r"
proof -
  let ?w = "writer_at S config b i mx data"
  have n: "(of_nat (length data) :: u64) = bu_total_bytes b" by (simp add: assms(2))
  obtain l c where f: "finish S (ue_os env) (ue_drop_os env) i ?w = (l, Ok c)"
    and c: "c = \<lparr>cu_upload_id = i, cu_remote_path = path_join (path_join (sc_root config) (hex_id i)) (sanitize_basename (bu_original_name b)),
             cu_bytes_written = bu_total_bytes b, cu_sha256 = bu_sha256 b\<rparr>"
    using n assms(1,3) by (auto simp: finish_def finish_inner_def sha_digest_def calls_succeed willing_def Let_def)
  obtain r :: "'ip actor_result" where
    r: "run_upload S sh ids (client_commands env i off []) (ActiveSameUid ?w) = Some r"
    and e: "ac_effects r = \<lparr>fx_calls = l, fx_messages = []\<rparr>" "ac_out r = [finished_reply_of ids config b i]"
    using f c assms(1) by (simp add: client_commands_def willing_def upload_completed_def finished_reply_of_def)
  have "fs' = fs @ [(hex_id i, committed_dir (sanitize_basename (bu_original_name b)) None data)]"
    if "map_of fs (hex_id i) = None" "fs_replay (fs @ [(hex_id i, partial_dir data)]) l = Some fs'" for fs fs'
    using finish_replay [OF _ that(1) refl f [unfolded finish_def] that(2)] assms(2) by simp
  then show ?thesis using r e by (auto simp: lands_def)
qed

lemma writer_at_append:
  assumes "streaming S"
  shows "(writer_at S config b i mx data)\<lparr>uw_hasher := sha_update S (sha_update S (sha_new S) data) p,
           uw_written := of_nat (length data) + of_nat (length p)\<rparr> = writer_at S config b i mx (data @ p)"
  using assms by (simp add: writer_at_def streaming_def)

lemma actor_completes:
  assumes "streaming S" and "willing env" and "length i = 16" and "[] \<notin> set ps"
    and "list_all (\<lambda>p. length p \<le> unat mx \<and> length p \<le> UPLOAD_CHUNK_BYTES_MAX) ps"
    and "length (data @ concat ps) = unat (bu_total_bytes b)" and "sha_digest S (data @ concat ps) = bu_sha256 b"
  shows "\<exists>(r :: 'ip actor_result). run_upload S sh ids (client_commands env i (length data) ps) (ActiveSameUid (writer_at S config b i mx data)) = Some r
    \<and> ac_out r = [finished_reply_of ids config b i] \<and> lands b i data (data @ concat ps) r"
  using assms(4-7)
proof (induction ps arbitrary: data)
  case Nil
  then show ?case using actor_finishes [OF assms(2), of data b S] by simp
next
  case (Cons p ps)
  let ?c = "\<lparr>uc_upload_id = i, uc_offset = of_nat (length data), uc_data = p\<rparr>"
  have v: "validate_chunk ?c i (of_nat (length data)) mx (bu_total_bytes b) = Ok ()"
    using Cons.prems assms(3) by (intro chunk_valid) auto
  have w: "write_chunk S (ue_os env) ?c (writer_at S config b i mx data)
      = ([(WriteFile (hex_id i) p, Success)], writer_at S config b i mx (data @ p), Ok ())"
    using v assms(2) writer_at_append [OF assms(1)] by (simp add: write_chunk_def willing_def)
  obtain r :: "'ip actor_result" where r: "run_upload S sh ids (client_commands env i (length (data @ p)) ps)
      (ActiveSameUid (writer_at S config b i mx (data @ p))) = Some r" "ac_out r = [finished_reply_of ids config b i]"
      "lands b i (data @ p) (data @ p @ concat ps) r"
    using Cons.IH [of "data @ p"] Cons.prems by auto
  let ?r = "r\<lparr>ac_effects := add_effects \<lparr>fx_calls = [(WriteFile (hex_id i) p, Success)], fx_messages = []\<rparr> (ac_effects r)\<rparr>"
  have run: "run_upload S sh ids (client_commands env i (length data) (p # ps)) (ActiveSameUid (writer_at S config b i mx data)) = Some ?r"
    using w r(1) assms(2) by (simp add: client_commands_def willing_def)
  have "lands b i data (data @ concat (p # ps)) ?r"
    unfolding lands_def
  proof (intro allI impI)
    fix fs fs'
    assume a: "map_of fs (hex_id i) = None"
      and f: "fs_replay (fs @ [(hex_id i, partial_dir data)]) (fx_calls (ac_effects ?r)) = Some fs'"
    obtain fs1 where f1: "fs_replay (fs @ [(hex_id i, partial_dir data)]) [(WriteFile (hex_id i) p, Success)] = Some fs1"
        "fs_replay fs1 (fx_calls (ac_effects r)) = Some fs'"
      using f by (simp only: add_effects_def upload_effects.simps actor_result.simps fs_replay_append) (auto split: option.splits)
    have "fs1 = fs @ [(hex_id i, partial_dir (data @ p))]"
      using write_chunk_replay [OF assms(1) _ a w f1(1)] Cons.prems(3) by simp
    then show "fs' = fs @ [(hex_id i, committed_dir (sanitize_basename (bu_original_name b)) None (data @ concat (p # ps)))]"
      using r(3) a f1(2) by (simp add: lands_def)
  qed
  then show ?case using run r(2) by (intro exI [of _ ?r]) simp
qed

lemma sent_commands_upload:
  "sent_commands env (beg # map (\<lambda>x. plain (MUploadChunk x)) cs @ [plain (MFinishUpload i)])
     = map (\<lambda>c. (Command (UpChunk c), env)) cs @ [(Command (UpFinish i), env)]"
  if "ev_message beg = Some (MBeginUpload b)"
proof -
  have "List.map_filter (\<lambda>e. case ev_message e of
         Some (MUploadChunk c) \<Rightarrow> Some (Command (UpChunk c), env)
       | Some (MFinishUpload i) \<Rightarrow> Some (Command (UpFinish i), env)
       | _ \<Rightarrow> None) (map (\<lambda>x. plain (MUploadChunk x)) cs @ [plain (MFinishUpload i)])
     = map (\<lambda>c. (Command (UpChunk c), env)) cs @ [(Command (UpFinish i), env)]"
    by (induction cs) (simp_all add: map_filter_simps plain_def)
  then show ?thesis using that by (simp add: sent_commands_def map_filter_simps)
qed

lemma transfer_steady:
  assumes "[] \<notin> set second" and "list_all (\<lambda>p. length p \<le> unat mx) second" and "length (concat second) = unat (bu_total_bytes b)"
    and "length i = 16" and "mx \<noteq> 0" and "unat mx \<le> UPLOAD_CHUNK_BYTES_MAX" and "length second + 2 \<le> room"
    and "ul_chan k = Some \<lparr>cc_fits = (\<lambda>_. True), cc_room = room, cc_inbox = respond 1 (MUploadAccepted i mx) # [finished_reply_of ids store b i], cc_sent = []\<rparr>"
    and "\<not> ul_cancel_begin k" and "\<not> ul_cancel_finish k" and "\<not> ul_cancel_reply k"
    and "up_second src = map (\<lambda>p. (FrData p, False)) second"
  shows "\<exists>c. upload_transfer src k shell_id b (the (ul_chan k))
      = (c, Ok \<lparr>ul_remote_path = path_join (path_join (sc_root store) (hex_id i)) (sanitize_basename (bu_original_name b)),
                ul_bytes_written = bu_total_bytes b, ul_sha256 = bu_sha256 b\<rparr>)
    \<and> sent_commands env (cc_sent c) = client_commands env i 0 second"
proof -
  let ?beg = "(plain (MBeginUpload b))\<lparr>ev_request_id := 1, ev_shell_id := shell_id\<rparr>"
  let ?chunks = "map (\<lambda>x. plain (MUploadChunk x)) (chunks_from i 0 second)"
  let ?fin = "finished_reply_of ids store b i"
  let ?c2 = "\<lparr>cc_fits = (\<lambda>_. True), cc_room = room - 1, cc_inbox = [?fin], cc_sent = [?beg]\<rparr>"
  let ?c3 = "\<lparr>cc_fits = (\<lambda>_. True), cc_room = room - 1 - length second, cc_inbox = [?fin], cc_sent = ?beg # ?chunks\<rparr>"
  have s: "send_chunks i (unat mx) (unat (bu_total_bytes b)) (up_second src) 0 ?c2 = (?c3, Ok ())"
    using send_chunks_pieces [OF assms(1,2), of 0 "unat (bu_total_bytes b)" ?c2 i] assms(3,7,12) by simp
  have a: "upload_accepted_in (respond 1 (MUploadAccepted i mx)) = Some (Ok (i, mx))"
    by (simp add: upload_accepted_in_def respond_def)
  have f: "upload_finished_in ?fin = Some (Ok (i, path_join (path_join (sc_root store) (hex_id i)) (sanitize_basename (bu_original_name b)),
      bu_total_bytes b, bu_sha256 b))" by (simp add: upload_finished_in_def finished_reply_of_def respond_def)
  have "upload_transfer src k shell_id b (the (ul_chan k)) = finish_upload k b i ?c3"
    using assms(4-9) s a by (simp add: upload_transfer_def send_env_def recv_until_def flatten_def UPLOAD_ID_BYTES_def)
  moreover have "ev_message ?beg = Some (MBeginUpload b)" by (simp add: plain_def)
  ultimately show ?thesis using f assms(7,10,11) sent_commands_upload [of ?beg b env "chunks_from i 0 second" i]
    by (simp add: finish_upload_def send_env_def recv_until_def flatten_def client_commands_def)
qed


text \<open>A digest of fixed length for the witness: the data padded to 32 bytes.\<close>

lemma demo_sha_laws: "streaming demo_sha" "\<forall>h. length (sha_finalize demo_sha h) = 32"
  by (simp_all add: streaming_def demo_sha_def min_def)

lemma demo_begin_of: "begin_of demo_sha (bu_original_name demo_begin) [7, 8] = demo_begin"
  by (simp add: begin_of_def demo_begin_def sha_digest_def demo_sha_def)


section \<open>A refused listing\<close>

text \<open>The refusal of a listing is skipped, so the client waits until the connection is silent too long.\<close>

lemma list_refusal_lost:
  assumes "cc_inbox (sv_control s) = [error_envelope (sv_next_request s) code txt retryable]"
  shows "snd (client_list_shells s) = Err CeTransport"
  using assms by (simp add: client_list_shells_def control_ask_def ask_def send_env_def recv_until_def error_envelope_def
      respond_def Let_def)

end
