(* ===== verification/Client_State.thy ===== *)
theory Client_State
  imports Native_Client "HOL-Library.Countable"
begin

text \<open>
  What the command-line client keeps on disk (\<open>crates/native-client/src/state.rs\<close>) and what it does with it
  (\<open>cli.rs\<close>): shell identifiers with their newest resume tokens and recovery keys, and connection
  grants. The directory of the state file is an association list from names to contents; a
  save is the list of changes it makes there, so that a crash leaves the effect of a prefix of
  them. JSON and base64 are the parameters of the record \<open>state_codec\<close>.
\<close>

section \<open>The state\<close>

definition STATE_VERSION :: nat where "STATE_VERSION = 1"

record saved_entry =
  en_token :: rstring
  en_name :: rstring
  en_idempotency_key :: "rstring option"

record client_state =
  cs_version :: nat
  cs_servers :: "(rstring \<times> (rstring \<times> saved_entry) list) list"
  cs_grants :: "(rstring \<times> rstring) list"

definition state_default :: client_state where
  "state_default = \<lparr>cs_version = STATE_VERSION, cs_servers = [], cs_grants = []\<rparr>"

record state_codec =
  sc_print :: "client_state \<Rightarrow> bytes"
  sc_parse :: "bytes \<Rightarrow> client_state option"
  sc_base64 :: "bytes \<Rightarrow> rstring"
  sc_unbase64 :: "rstring \<Rightarrow> bytes option"

type_synonym disk = "(rstring \<times> bytes) list"

definition STATE_FILE :: rstring where "STATE_FILE = lit ''state.json''"
definition STATE_TMP :: rstring where "STATE_TMP = lit ''state.json.tmp''"

definition backup_name :: "nat \<Rightarrow> rstring" where
  "backup_name now = lit ''state.json.corrupt-'' @ show_nat now"

datatype state_error = StIo | StNewer nat

text \<open>
  The changes a save makes: the temporary file is created empty, written, and renamed over the
  state file.
\<close>

datatype disk_op = OpTruncate rstring | OpAppend rstring bytes | OpRename rstring rstring

fun apply_op :: "disk_op \<Rightarrow> disk \<Rightarrow> disk" where
  "apply_op (OpTruncate n) d = assoc_put n [] d"
| "apply_op (OpAppend n bs) d = assoc_put n ((case map_of d n of None \<Rightarrow> [] | Some old \<Rightarrow> old) @ bs) d"
| "apply_op (OpRename a b) d = (case map_of d a of None \<Rightarrow> d | Some bs \<Rightarrow> assoc_put b bs (assoc_del a d))"

definition apply_ops :: "disk_op list \<Rightarrow> disk \<Rightarrow> disk" where
  "apply_ops changes d = foldl (\<lambda>d op. apply_op op d) d changes"

definition replace_ops :: "rstring \<Rightarrow> rstring \<Rightarrow> bytes \<Rightarrow> disk_op list" where
  "replace_ops tmp name bs = [OpTruncate tmp, OpAppend tmp bs, OpRename tmp name]"

definition save_ops :: "state_codec \<Rightarrow> client_state \<Rightarrow> disk_op list" where
  "save_ops C st = replace_ops STATE_TMP STATE_FILE (sc_print C st)"

text \<open>\<open>save\<close> succeeds, or fails after some of its steps; \<open>load\<close> reads, or sets a corrupt file aside.\<close>

definition state_save :: "state_codec \<Rightarrow> nat option \<Rightarrow> client_state \<Rightarrow> disk \<Rightarrow> disk \<times> (state_error + unit)" where
  "state_save C fails_after st d =
     (case fails_after of
        None \<Rightarrow> (apply_ops (save_ops C st) d, Ok ())
      | Some n \<Rightarrow> (apply_ops (take (min n 2) (save_ops C st)) d, Err StIo))"

definition state_load :: "state_codec \<Rightarrow> bool \<Rightarrow> nat \<Rightarrow> disk \<Rightarrow> disk \<times> (state_error + client_state)" where
  "state_load C readable now d =
     (case map_of d STATE_FILE of
        None \<Rightarrow> (d, if readable then Ok state_default else Err StIo)
      | Some text \<Rightarrow>
          if \<not> readable then (d, Err StIo)
          else
            (case sc_parse C text of
               Some st \<Rightarrow> (d, if cs_version st > STATE_VERSION then Err (StNewer (cs_version st)) else Ok st)
             | None \<Rightarrow> (apply_op (OpRename STATE_FILE (backup_name now)) d, Ok state_default)))"

text \<open>\<open>hex\<close> is \<open>hex_string\<close>; \<open>unhex\<close> slices pairs of bytes, which panics inside a multi-byte character.\<close>

definition unhex :: "rstring \<Rightarrow> bytes option option" where
  "unhex s =
     (if len s mod 2 \<noteq> 0 then Some None
      else map_option (\<lambda>r. case r of Inl _ \<Rightarrow> None | Inr bs \<Rightarrow> Some bs) (hex_slots s [0..<len s div 2]))"

section \<open>Entries\<close>

definition shells_of :: "rstring \<Rightarrow> client_state \<Rightarrow> (rstring \<times> saved_entry) list" where
  "shells_of url st = (case map_of (cs_servers st) url of None \<Rightarrow> [] | Some shells \<Rightarrow> shells)"

definition put_entry ::
  "state_codec \<Rightarrow> rstring \<Rightarrow> rstring \<Rightarrow> bytes \<Rightarrow> rstring \<Rightarrow> bytes option \<Rightarrow> client_state \<Rightarrow> client_state" where
  "put_entry C url id_hex token name key st =
     (let shells = shells_of url st;
          stored_key = (case key of
              Some k \<Rightarrow> Some (hex_string k)
            | None \<Rightarrow> (case map_of shells id_hex of None \<Rightarrow> None | Some e \<Rightarrow> en_idempotency_key e));
          e = \<lparr>en_token = sc_base64 C token, en_name = name, en_idempotency_key = stored_key\<rparr>
      in st\<lparr>cs_servers := assoc_put url (assoc_put id_hex e shells) (cs_servers st)\<rparr>)"

definition remove_entry :: "rstring \<Rightarrow> rstring \<Rightarrow> client_state \<Rightarrow> client_state" where
  "remove_entry url id_hex st = st\<lparr>cs_servers := assoc_upd url (assoc_del id_hex) (cs_servers st)\<rparr>"

definition put_grant :: "state_codec \<Rightarrow> rstring \<Rightarrow> bytes \<Rightarrow> client_state \<Rightarrow> client_state" where
  "put_grant C url grant st = st\<lparr>cs_grants := assoc_put url (sc_base64 C grant) (cs_grants st)\<rparr>"

text \<open>Load, change and save; the answers are whether the file is readable and where the save fails.\<close>

record disk_answers =
  da_readable :: bool
  da_now :: nat
  da_fails_after :: "nat option"

definition change_state ::
  "state_codec \<Rightarrow> disk_answers \<Rightarrow> (client_state \<Rightarrow> client_state) \<Rightarrow> disk \<Rightarrow> disk \<times> (state_error + unit)" where
  "change_state C D f d =
     (case state_load C (da_readable D) (da_now D) d of
        (d1, Inl e) \<Rightarrow> (d1, Err e)
      | (d1, Inr st) \<Rightarrow> state_save C (da_fails_after D) (f st) d1)"

definition persist_entry ::
  "state_codec \<Rightarrow> disk_answers \<Rightarrow> rstring \<Rightarrow> rstring \<Rightarrow> bytes \<Rightarrow> rstring \<Rightarrow> bytes option \<Rightarrow> disk \<Rightarrow> disk \<times> (state_error + unit)" where
  "persist_entry C D url id_hex token name key = change_state C D (put_entry C url id_hex token name key)"

definition forget_token ::
  "state_codec \<Rightarrow> disk_answers \<Rightarrow> rstring \<Rightarrow> rstring \<Rightarrow> disk \<Rightarrow> disk \<times> (state_error + unit)" where
  "forget_token C D url id_hex = change_state C D (remove_entry url id_hex)"

definition persist_grant ::
  "state_codec \<Rightarrow> disk_answers \<Rightarrow> rstring \<Rightarrow> bytes \<Rightarrow> disk \<Rightarrow> disk \<times> (state_error + unit)" where
  "persist_grant C D url grant d = (if grant = [] then (d, Ok ()) else change_state C D (put_grant C url grant) d)"

section \<open>Commands\<close>

text \<open>Which stored shell a prefix names, with its identifier, token and recovery key. The message
  about an ambiguous prefix shows sixteen characters of each candidate.\<close>

datatype pick_error = PickNone | PickAmbiguous | PickCorrupt | PickPanic

definition pick_shell ::
  "state_codec \<Rightarrow> rstring \<Rightarrow> (rstring \<times> saved_entry) list \<Rightarrow> pick_error + bytes \<times> bytes \<times> rstring \<times> bytes option" where
  "pick_shell C pre shells =
     (case filter (\<lambda>(i, e). prefix pre i) shells of
        [] \<Rightarrow> Err PickNone
      | [(i, e)] \<Rightarrow>
          (case unhex i of
             None \<Rightarrow> Err PickPanic
           | Some None \<Rightarrow> Err PickCorrupt
           | Some (Some shell_id) \<Rightarrow>
               (case sc_unbase64 C (en_token e) of
                  None \<Rightarrow> Err PickCorrupt
                | Some token \<Rightarrow>
                    (case (case en_idempotency_key e of None \<Rightarrow> Some None | Some k \<Rightarrow> unhex k) of
                       None \<Rightarrow> Err PickPanic
                     | Some key \<Rightarrow>
                         Ok (shell_id, token, en_name e,
                             case key of Some k \<Rightarrow> if length k = 16 then Some k else None | None \<Rightarrow> None))))
      | several \<Rightarrow>
          Err (if list_all (\<lambda>(i, e). split_at_byte 16 i \<noteq> None) several then PickAmbiguous else PickPanic))"

text \<open>Recovery of a shell whose token was superseded: it must still run, and the key must lead to it.\<close>

definition recover_shell ::
  "bytes \<Rightarrow> bytes \<Rightarrow> nat \<Rightarrow> nat \<Rightarrow> server_conn \<Rightarrow> server_conn \<times> (client_error + bytes)" where
  "recover_shell shell_id key cols rows s =
     (case client_list_shells s of
        (s1, Inl e) \<Rightarrow> (s1, Err e)
      | (s1, Inr shells) \<Rightarrow>
          if \<not> list_ex (\<lambda>i. pi_shell_id i = shell_id \<and> pi_state i = PbRunning) shells then
            (s1, Err (CeText (lit ''shell no longer running on the server'')))
          else
            (case client_open_shell None cols rows key s1 of
               (s2, Inl e) \<Rightarrow> (s2, Err e)
             | (s2, Inr (new_id, new_token)) \<Rightarrow>
                 if new_id \<noteq> shell_id then
                   (fst (client_terminate new_id s2), Err (CeText (lit ''idempotency key resolved to a different shell'')))
                 else (s2, Ok new_token)))"

section \<open>An attached shell\<close>

text \<open>
  The inner loop of \<open>run_session\<close>: the next event of the shell, a read of the keyboard, or a
  change of the window's size. Ctrl-] detaches, after what was typed before it was sent. The
  flag of an event says that its output reaches the terminal.
\<close>

definition DETACH_KEY :: u8 where "DETACH_KEY = 0x1d"

datatype turn = TnEvent bool | TnStdin bytes | TnWinch nat nat

datatype inner_end = InLost | InExited | InDetached | InTerminal

definition lost_unless :: "client_chan \<times> (client_error + unit) \<Rightarrow> client_chan \<times> bytes \<times> inner_end option" where
  "lost_unless r = (fst r, [], if is_ok (snd r) then None else Some InLost)"

fun inner_turn :: "turn \<Rightarrow> client_chan \<Rightarrow> client_chan \<times> bytes \<times> inner_end option" where
  "inner_turn (TnEvent shown) c =
     (case shell_next_event c of
        (c1, Inl _) \<Rightarrow> (c1, [], Some InLost)
      | (c1, Inr (EvOutput data)) \<Rightarrow> if shown then (c1, data, None) else (c1, [], Some InTerminal)
      | (c1, Inr (EvExited code)) \<Rightarrow> (c1, [], Some InExited)
      | (c1, Inr (EvPing nonce)) \<Rightarrow> lost_unless (shell_pong nonce c1))"
| "inner_turn (TnStdin bs) c =
     (if List.member bs DETACH_KEY then
        (let typed = takeWhile (\<lambda>b. b \<noteq> DETACH_KEY) bs;
             c1 = (if typed \<noteq> [] then fst (shell_input typed c) else c)
         in (fst (shell_detach c1), [], Some InDetached))
      else lost_unless (shell_input bs c))"
| "inner_turn (TnWinch cols rows) c = (fst (shell_resize cols rows c), [], None)"

text \<open>When nothing more happens the next event is the loss of the connection.\<close>

fun inner_loop :: "turn list \<Rightarrow> client_chan \<Rightarrow> client_chan \<times> bytes \<times> inner_end" where
  "inner_loop [] c = (c, [], InLost)"
| "inner_loop (x # rest) c =
     (case inner_turn x c of
        (c1, out, Some how) \<Rightarrow> (c1, out, how)
      | (c1, out, None) \<Rightarrow> (case inner_loop rest c1 of (c2, out2, how) \<Rightarrow> (c2, out @ out2, how)))"

section \<open>The session loop\<close>

text \<open>
  The outer loop of \<open>run_session\<close>: each round ends with an answer to the attach, with what
  recovery gave if it was tried, and for an attached shell with what then happened to it. A round
  that had to connect writes down the grant it received first; that it cannot counts as a connection that
  failed.
\<close>

datatype round_in =
    RdConnectFailed
  | RdAttach "bytes option" "attach_error + attached_shell \<times> bool \<times> turn list" "client_error + bytes"

datatype session_end = SeError | SeDetached | SeExited | SeDisk state_error

record session_loop =
  sl_token :: bytes
  sl_backoff :: nat
  sl_disk :: disk

definition BACKOFF_MAX :: nat where "BACKOFF_MAX = 15"

definition session_retry :: "session_loop \<Rightarrow> session_loop" where
  "session_retry s = s\<lparr>sl_backoff := min (sl_backoff s * 2) BACKOFF_MAX\<rparr>"

text \<open>Write the new token down and go on, or end the session when that fails.\<close>

definition keep_token ::
  "state_codec \<Rightarrow> disk_answers \<Rightarrow> rstring \<Rightarrow> rstring \<Rightarrow> rstring \<Rightarrow> bytes \<Rightarrow> session_loop
     \<Rightarrow> session_loop \<times> session_end option" where
  "keep_token C D url id_hex name token s =
     (case persist_entry C D url id_hex token name None (sl_disk s) of
        (d, Inl e) \<Rightarrow> (s\<lparr>sl_token := token, sl_disk := d\<rparr>, Some (SeDisk e))
      | (d, Inr _) \<Rightarrow> (s\<lparr>sl_token := token, sl_disk := d\<rparr>, None))"

definition drop_token ::
  "state_codec \<Rightarrow> disk_answers \<Rightarrow> rstring \<Rightarrow> rstring \<Rightarrow> session_end \<Rightarrow> session_loop \<Rightarrow> session_loop \<times> session_end option" where
  "drop_token C D url id_hex how s =
     (case forget_token C D url id_hex (sl_disk s) of
        (d, Inl e) \<Rightarrow> (s\<lparr>sl_disk := d\<rparr>, Some (SeDisk e))
      | (d, Inr _) \<Rightarrow> (s\<lparr>sl_disk := d\<rparr>, Some how))"

definition attached_round ::
  "state_codec \<Rightarrow> disk_answers \<times> disk_answers \<Rightarrow> rstring \<Rightarrow> rstring \<Rightarrow> rstring \<Rightarrow> attached_shell \<Rightarrow> bool \<Rightarrow> turn list
     \<Rightarrow> session_loop \<Rightarrow> session_loop \<times> session_end option" where
  "attached_round C D url id_hex name shell shown turns s =
     (case keep_token C (fst D) url id_hex name (as_rotated_token shell) s of
        (s1, Some e) \<Rightarrow> (s1, Some e)
      | (s1, None) \<Rightarrow>
          (let s2 = s1\<lparr>sl_backoff := 1\<rparr> in
           if \<not> shown then (s2, Some SeError)
           else
             (case snd (snd (inner_loop turns (as_chan shell))) of
                InLost \<Rightarrow> (s2, None)
              | InDetached \<Rightarrow> (s2, Some SeDetached)
              | InTerminal \<Rightarrow> (s2, Some SeError)
              | InExited \<Rightarrow> drop_token C (snd D) url id_hex SeExited s2)))"

definition refused_round ::
  "state_codec \<Rightarrow> disk_answers \<Rightarrow> rstring \<Rightarrow> rstring \<Rightarrow> rstring \<Rightarrow> bool \<Rightarrow> attach_error \<Rightarrow> client_error + bytes
     \<Rightarrow> session_loop \<Rightarrow> session_loop \<times> session_end option" where
  "refused_round C D url id_hex name have_key e recovered s =
     (case attach_failure_action e have_key of
        Retry \<Rightarrow> (session_retry s, None)
      | RecoverViaIdempotency \<Rightarrow>
          (case recovered of
             Inr token \<Rightarrow> keep_token C D url id_hex name token s
           | Inl _ \<Rightarrow> drop_token C D url id_hex SeError s)
      | ForgetAndExit \<Rightarrow> drop_token C D url id_hex SeError s
      | ExitKeepToken \<Rightarrow> (s, Some SeError))"

record round_answers =
  ra_grant :: disk_answers
  ra_first :: disk_answers
  ra_second :: disk_answers

definition session_round ::
  "state_codec \<Rightarrow> round_answers \<Rightarrow> rstring \<Rightarrow> rstring \<Rightarrow> rstring \<Rightarrow> bool \<Rightarrow> round_in \<Rightarrow> session_loop
     \<Rightarrow> session_loop \<times> session_end option" where
  "session_round C D url id_hex name have_key i s =
     (case i of
        RdConnectFailed \<Rightarrow> (session_retry s, None)
      | RdAttach grant answer recovered \<Rightarrow>
          (case (case grant of None \<Rightarrow> (sl_disk s, Ok ()) | Some g \<Rightarrow> persist_grant C (ra_grant D) url g (sl_disk s)) of
             (d, Inl _) \<Rightarrow> (session_retry (s\<lparr>sl_disk := d\<rparr>), None)
           | (d, Inr _) \<Rightarrow>
               (case answer of
                  Inl e \<Rightarrow> refused_round C (ra_first D) url id_hex name have_key e recovered (s\<lparr>sl_disk := d\<rparr>)
                | Inr (shell, shown, turns) \<Rightarrow>
                    attached_round C (ra_first D, ra_second D) url id_hex name shell shown turns (s\<lparr>sl_disk := d\<rparr>))))"

fun session_run ::
  "state_codec \<Rightarrow> rstring \<Rightarrow> rstring \<Rightarrow> rstring \<Rightarrow> bool \<Rightarrow> (round_in \<times> round_answers) list \<Rightarrow> session_loop
     \<Rightarrow> session_loop \<times> session_end option" where
  "session_run C url id_hex name have_key [] s = (s, None)"
| "session_run C url id_hex name have_key ((i, D) # rest) s =
     (case session_round C D url id_hex name have_key i s of
        (s1, Some e) \<Rightarrow> (s1, Some e)
      | (s1, None) \<Rightarrow> session_run C url id_hex name have_key rest s1)"

section \<open>Crashes\<close>

text \<open>
  What a crash leaves of a save: nothing, some of the temporary file, or, once the rename is done,
  all of it.
\<close>

definition crash_ops :: "state_codec \<Rightarrow> client_state \<Rightarrow> nat \<Rightarrow> nat \<Rightarrow> disk_op list" where
  "crash_ops C st n torn =
     (if n \<ge> 3 then save_ops C st
      else take n [OpTruncate STATE_TMP, OpAppend STATE_TMP (take torn (sc_print C st))])"

lemma tmp_distinct [simp]: "STATE_TMP \<noteq> STATE_FILE" "STATE_FILE \<noteq> STATE_TMP"
  by (simp_all add: STATE_TMP_def STATE_FILE_def lit_def)

lemma unhex_hex: "unhex (hex_string bs) = Some (Some bs)"
  using hex_slots_hex_string [of 0 bs] by (simp add: unhex_def len_hex_string)

lemma replaced_file: "tmp \<noteq> name \<Longrightarrow> map_of (apply_ops (replace_ops tmp name bs) d) name = Some bs"
  by (simp add: apply_ops_def replace_ops_def)

lemma unwritten_file:
  assumes "tmp \<noteq> name"
  shows "map_of (apply_ops (take n [OpTruncate tmp, OpAppend tmp bs]) d) name = map_of d name"
proof -
  consider "n = 0" | "n = 1" | "n \<ge> 2" by linarith
  then show ?thesis using assms by cases (simp_all add: apply_ops_def numeral_2_eq_2 take_Suc_Cons)
qed

lemma unreplaced_file: "tmp \<noteq> name \<Longrightarrow> map_of (apply_ops (take (min n 2) (replace_ops tmp name bs)) d) name = map_of d name"
  using unwritten_file [of tmp name "min n 2" bs d]
  by (auto simp: replace_ops_def min_def take_Cons' numeral_2_eq_2 split: if_splits)

lemma saved_file: "map_of (apply_ops (save_ops C st) d) STATE_FILE = Some (sc_print C st)"
  by (simp add: save_ops_def replaced_file)

text \<open>
  Saving is atomic: whatever the moment of a crash, and however much of the temporary file reached
  the disk, loading afterwards gives the new state if the rename was done and exactly what it gave
  before otherwise; no token is lost.
\<close>

theorem state_crash_safe:
  assumes "sc_parse C (sc_print C st) = Some st" and "cs_version st \<le> STATE_VERSION"
  shows "snd (state_load C True now (apply_ops (crash_ops C st n torn) d))
    = (if n \<ge> 3 then Ok st else snd (state_load C True now d))"
proof (cases "n \<ge> 3")
  case True
  then show ?thesis using assms saved_file [of C st d] by (simp add: crash_ops_def state_load_def)
next
  case False
  then show ?thesis using unwritten_file [of STATE_TMP STATE_FILE n "take torn (sc_print C st)" d]
    by (simp add: crash_ops_def state_load_def split: option.split)
qed

definition demo_state_codec :: state_codec where
  "demo_state_codec = \<lparr>sc_print = (\<lambda>st. map of_nat (hd (map snd (cs_grants st) @ [[]]))),
     sc_parse = (\<lambda>bs. Some \<lparr>cs_version = 1, cs_servers = [], cs_grants = [(lit ''u'', map unat bs)]\<rparr>),
     sc_base64 = map unat, sc_unbase64 = (\<lambda>s. Some (map of_nat s))\<rparr>"

theorem state_crash_safe_witness:
  "snd (state_load demo_state_codec True 0 (apply_ops (crash_ops demo_state_codec
      \<lparr>cs_version = 1, cs_servers = [], cs_grants = [(lit ''u'', [5, 6])]\<rparr> 2 1) [])) = Ok state_default"
proof -
  let ?st = "\<lparr>cs_version = 1, cs_servers = [], cs_grants = [(lit ''u'', [5, 6])]\<rparr>"
  have "sc_parse demo_state_codec (sc_print demo_state_codec ?st) = Some ?st" by (simp add: demo_state_codec_def)
  moreover have "cs_version ?st \<le> STATE_VERSION" by (simp add: STATE_VERSION_def)
  ultimately have "snd (state_load demo_state_codec True 0 (apply_ops (crash_ops demo_state_codec ?st 2 1) []))
      = (if (2 :: nat) \<ge> 3 then Ok ?st else snd (state_load demo_state_codec True 0 []))"
    by (rule state_crash_safe)
  then show ?thesis by (simp add: state_load_def)
qed

section \<open>Tokens\<close>

definition codec_faithful :: "state_codec \<Rightarrow> bool" where
  "codec_faithful C \<longleftrightarrow> (\<forall>st. sc_parse C (sc_print C st) = Some st)"

text \<open>The state on disk, when there is one this client understands.\<close>

definition stored_state :: "state_codec \<Rightarrow> disk \<Rightarrow> client_state option" where
  "stored_state C d =
     (case map_of d STATE_FILE of
        None \<Rightarrow> None
      | Some text \<Rightarrow>
          (case sc_parse C text of
             None \<Rightarrow> None | Some st \<Rightarrow> if cs_version st \<le> STATE_VERSION then Some st else None))"

definition stored_entry :: "state_codec \<Rightarrow> disk \<Rightarrow> rstring \<times> rstring \<Rightarrow> saved_entry option" where
  "stored_entry C d = (\<lambda>(url, id_hex). case stored_state C d of None \<Rightarrow> None | Some st \<Rightarrow> map_of (shells_of url st) id_hex)"

lemma load_stored: "stored_state C d = Some st \<Longrightarrow> state_load C readable now d = (d, if readable then Ok st else Err StIo)"
  by (auto simp: stored_state_def state_load_def split: option.splits if_splits)

lemma save_stored:
  assumes "codec_faithful C" and "cs_version st \<le> STATE_VERSION" and "stored_state C d = Some old"
    and "state_save C fails st d = (d', r)"
  shows "stored_state C d' = Some (case r of Inl _ \<Rightarrow> old | Inr _ \<Rightarrow> st)"
proof (cases fails)
  case None
  then have "d' = apply_ops (save_ops C st) d" "r = Ok ()" using assms(4) by (auto simp: state_save_def)
  then show ?thesis using assms(1,2) saved_file [of C st d] by (simp add: stored_state_def codec_faithful_def)
next
  case (Some n)
  then have "map_of d' STATE_FILE = map_of d STATE_FILE" "r = Err StIo"
    using assms(4) unreplaced_file [of STATE_TMP STATE_FILE n "sc_print C st" d] by (auto simp: state_save_def save_ops_def)
  then show ?thesis using assms(3) by (simp add: stored_state_def cong: option.case_cong)
qed

lemma change_stored:
  assumes "codec_faithful C" and "stored_state C d = Some st" and "cs_version (f st) = cs_version st"
    and "change_state C D f d = (d', r)"
  shows "stored_state C d' = Some (case r of Inl _ \<Rightarrow> st | Inr _ \<Rightarrow> f st)"
proof (cases "da_readable D")
  case True
  have v: "cs_version (f st) \<le> STATE_VERSION" using assms(2,3) by (auto simp: stored_state_def split: option.splits if_splits)
  have "state_save C (da_fails_after D) (f st) d = (d', r)"
    using assms(4) load_stored [OF assms(2)] True by (simp add: change_state_def)
  then show ?thesis by (rule save_stored [OF assms(1) v assms(2)])
next
  case False
  then show ?thesis using assms(2,4) load_stored [OF assms(2)] by (auto simp: change_state_def)
qed

lemma shells_of_put: "shells_of u (put_entry C url i token name key st)
    = (if u = url then assoc_put i \<lparr>en_token = sc_base64 C token, en_name = name,
         en_idempotency_key = (case key of Some k \<Rightarrow> Some (hex_string k)
           | None \<Rightarrow> (case map_of (shells_of url st) i of None \<Rightarrow> None | Some e \<Rightarrow> en_idempotency_key e))\<rparr> (shells_of url st)
       else shells_of u st)"
  by (simp add: put_entry_def Let_def shells_of_def [of u])

lemma shells_of_remove: "shells_of u (remove_entry url i st) = (if u = url then assoc_del i (shells_of url st) else shells_of u st)"
  by (auto simp: remove_entry_def shells_of_def assoc_del_def split: option.split)

text \<open>What a session keeps: its entry with the newest token and the recovery key, and every other entry.\<close>

definition holds :: "state_codec \<Rightarrow> rstring \<times> rstring \<Rightarrow> rstring option \<Rightarrow> bytes \<Rightarrow> disk \<Rightarrow> bool" where
  "holds C k key token d \<longleftrightarrow>
     (\<exists>e. stored_entry C d k = Some e \<and> en_token e = sc_base64 C token \<and> en_idempotency_key e = key)"

definition others_kept :: "state_codec \<Rightarrow> rstring \<times> rstring \<Rightarrow> disk \<Rightarrow> disk \<Rightarrow> bool" where
  "others_kept C k d d' \<longleftrightarrow> (stored_entry C d')(k := None) = (stored_entry C d)(k := None)"

lemma others_kept_trans: "others_kept C k d1 d2 \<Longrightarrow> others_kept C k d2 d3 \<Longrightarrow> others_kept C k d1 d3"
  by (simp add: others_kept_def)

lemma persist_keeps:
  assumes "codec_faithful C" and "holds C (url, i) key old d"
    and "persist_entry C D url i token name None d = (d', r)"
  shows "others_kept C (url, i) d d' \<and> holds C (url, i) key (case r of Inl _ \<Rightarrow> old | Inr _ \<Rightarrow> token) d'"
proof -
  obtain st e where st: "stored_state C d = Some st" "map_of (shells_of url st) i = Some e"
    "en_token e = sc_base64 C old" "en_idempotency_key e = key"
    using assms(2) by (auto simp: holds_def stored_entry_def split: option.splits)
  have "stored_state C d' = Some (case r of Inl _ \<Rightarrow> st | Inr _ \<Rightarrow> put_entry C url i token name None st)"
    using change_stored [OF assms(1) st(1) _ assms(3) [unfolded persist_entry_def]] by (simp add: put_entry_def Let_def)
  then show ?thesis using st
    by (cases r) (auto simp: others_kept_def holds_def stored_entry_def shells_of_put fun_eq_iff)
qed

lemma forget_keeps:
  assumes "codec_faithful C" and "holds C (url, i) key token d" and "forget_token C D url i d = (d', r)"
  shows "others_kept C (url, i) d d' \<and> (case r of Inl _ \<Rightarrow> holds C (url, i) key token d' | Inr _ \<Rightarrow> stored_entry C d' (url, i) = None)"
proof -
  obtain st e where st: "stored_state C d = Some st" "map_of (shells_of url st) i = Some e"
    "en_token e = sc_base64 C token" "en_idempotency_key e = key"
    using assms(2) by (auto simp: holds_def stored_entry_def split: option.splits)
  have "stored_state C d' = Some (case r of Inl _ \<Rightarrow> st | Inr _ \<Rightarrow> remove_entry url i st)"
    using change_stored [OF assms(1) st(1) _ assms(3) [unfolded forget_token_def]] by (simp add: remove_entry_def)
  then show ?thesis using st
    by (cases r) (auto simp: others_kept_def holds_def stored_entry_def shells_of_remove fun_eq_iff)
qed

lemma detach_key_not_typed:
  assumes "list_all (\<lambda>env. case ev_message env of Some (MTerminalInput data) \<Rightarrow> DETACH_KEY \<notin> set data | _ \<Rightarrow> True) (cc_sent c)"
    and "inner_turn x c = (c', out, how)"
  shows "list_all (\<lambda>env. case ev_message env of Some (MTerminalInput data) \<Rightarrow> DETACH_KEY \<notin> set data | _ \<Rightarrow> True) (cc_sent c')"
  using assms
  by (cases x) (auto simp: lost_unless_def shell_next_event_def recv_until_def shell_pong_def shell_input_def shell_detach_def
      shell_resize_def send_env_def plain_def Let_def
      dest: set_takeWhileD split: prod.splits sum.splits shell_event.splits if_splits)

lemma grant_keeps:
  assumes "codec_faithful C" and "holds C k key token d" and "persist_grant C D url g d = (d', r)"
  shows "others_kept C k d d' \<and> holds C k key token d'"
proof (cases "g = []")
  case True
  then show ?thesis using assms by (simp add: persist_grant_def others_kept_def)
next
  case False
  obtain st where st: "stored_state C d = Some st"
    using assms(2) by (cases k) (auto simp: holds_def stored_entry_def split: option.splits)
  have "stored_state C d' = Some (case r of Inl _ \<Rightarrow> st | Inr _ \<Rightarrow> put_grant C url g st)"
    using change_stored [OF assms(1) st, of "put_grant C url g" D d' r] assms(3) False
    by (simp add: persist_grant_def put_grant_def)
  then have "stored_entry C d' = stored_entry C d"
    using st by (cases r) (simp_all add: stored_entry_def shells_of_def put_grant_def fun_eq_iff)
  then show ?thesis using assms(2) by (simp add: others_kept_def holds_def)
qed

text \<open>How the outcome of a session relates to its entry.\<close>

definition refused_in :: "bool \<Rightarrow> round_in \<Rightarrow> bool" where
  "refused_in have_key i = (case i of
     RdAttach _ (Inl e) _ \<Rightarrow> attach_failure_action e have_key \<in> {ForgetAndExit, RecoverViaIdempotency}
   | _ \<Rightarrow> False)"

definition session_kept ::
  "state_codec \<Rightarrow> rstring \<times> rstring \<Rightarrow> rstring option \<Rightarrow> bool \<Rightarrow> session_loop \<Rightarrow> session_loop \<Rightarrow> session_end option \<Rightarrow> bool" where
  "session_kept C k key refused s s' r \<longleftrightarrow>
     others_kept C k (sl_disk s) (sl_disk s') \<and> 1 \<le> sl_backoff s' \<and> sl_backoff s' \<le> BACKOFF_MAX \<and>
     (case r of
        None \<Rightarrow> holds C k key (sl_token s') (sl_disk s')
      | Some SeDetached \<Rightarrow> holds C k key (sl_token s') (sl_disk s')
      | Some SeExited \<Rightarrow> stored_entry C (sl_disk s') k = None
      | Some (SeDisk _) \<Rightarrow> (\<exists>token. holds C k key token (sl_disk s'))
      | Some SeError \<Rightarrow> holds C k key (sl_token s') (sl_disk s') \<or> refused \<and> stored_entry C (sl_disk s') k = None)"

lemma keep_token_kept:
  assumes "codec_faithful C" and "holds C (url, i) key (sl_token s) (sl_disk s)" and "keep_token C D url i name token s = (s', r)"
  shows "others_kept C (url, i) (sl_disk s) (sl_disk s') \<and> sl_backoff s' = sl_backoff s \<and>
    (r = None \<and> holds C (url, i) key (sl_token s') (sl_disk s')
      \<or> (\<exists>e old. r = Some (SeDisk e) \<and> holds C (url, i) key old (sl_disk s')))"
proof -
  obtain d w where p: "persist_entry C D url i token name None (sl_disk s) = (d, w)" by fastforce
  show ?thesis using persist_keeps [OF assms(1,2) p] assms(3) p
    by (cases w) (auto simp: keep_token_def)
qed

lemma drop_token_kept:
  assumes "codec_faithful C" and "holds C (url, i) key (sl_token s) (sl_disk s)" and "drop_token C D url i how s = (s', r)"
  shows "others_kept C (url, i) (sl_disk s) (sl_disk s') \<and> sl_backoff s' = sl_backoff s \<and>
    (r = Some how \<and> stored_entry C (sl_disk s') (url, i) = None
      \<or> (\<exists>e old. r = Some (SeDisk e) \<and> holds C (url, i) key old (sl_disk s')))"
proof -
  obtain d w where p: "forget_token C D url i (sl_disk s) = (d, w)" by fastforce
  show ?thesis using forget_keeps [OF assms(1,2) p] assms(3) p
    by (cases w) (auto simp: drop_token_def)
qed

lemma others_kept_refl [simp]: "others_kept C k d d"
  by (simp add: others_kept_def)

lemma refused_kept:
  assumes "codec_faithful C" and "holds C (url, i) key (sl_token s) (sl_disk s)"
    and "1 \<le> sl_backoff s" and "sl_backoff s \<le> BACKOFF_MAX"
    and "refused_round C D url i name have_key e w s = (s', r)"
  shows "session_kept C (url, i) key (attach_failure_action e have_key \<in> {ForgetAndExit, RecoverViaIdempotency}) s s' r"
proof (cases "attach_failure_action e have_key")
  case Retry
  then show ?thesis using assms by (auto simp: refused_round_def session_kept_def session_retry_def BACKOFF_MAX_def)
next
  case RecoverViaIdempotency
  then show ?thesis using assms(3-) keep_token_kept [OF assms(1,2)] drop_token_kept [OF assms(1,2)]
    by (cases w) (fastforce simp: refused_round_def session_kept_def)+
next
  case ForgetAndExit
  then show ?thesis using assms(3-) drop_token_kept [OF assms(1,2)]
    by (fastforce simp: refused_round_def session_kept_def)
next
  case ExitKeepToken
  then show ?thesis using assms by (auto simp: refused_round_def session_kept_def)
qed

lemma attached_kept:
  assumes "codec_faithful C" and "holds C (url, i) key (sl_token s) (sl_disk s)"
    and "1 \<le> sl_backoff s" and "sl_backoff s \<le> BACKOFF_MAX"
    and "attached_round C D url i name shell shown turns s = (s', r)"
  shows "session_kept C (url, i) key refused s s' r"
proof -
  obtain s1 r1 where p: "keep_token C (fst D) url i name (as_rotated_token shell) s = (s1, r1)" by fastforce
  note k = keep_token_kept [OF assms(1,2) p]
  show ?thesis
  proof (cases r1)
    case (Some e)
    then show ?thesis using k assms(3-) p by (auto simp: attached_round_def session_kept_def)
  next
    case None
    let ?s2 = "s1\<lparr>sl_backoff := 1\<rparr>" and ?how = "snd (snd (inner_loop turns (as_chan shell)))"
    have h: "holds C (url, i) key (sl_token ?s2) (sl_disk ?s2)" using k None by auto
    show ?thesis
    proof (cases "shown \<and> ?how = InExited")
      case True
      then have "drop_token C (snd D) url i SeExited ?s2 = (s', r)"
        using assms(5) p None by (simp add: attached_round_def)
      from drop_token_kept [OF assms(1) h this] k show ?thesis
        by (auto simp: session_kept_def BACKOFF_MAX_def intro: others_kept_trans)
    next
      case False
      then show ?thesis using assms(5) p None k h
        by (auto simp: attached_round_def session_kept_def BACKOFF_MAX_def Let_def split: if_splits inner_end.splits)
    qed
  qed
qed

lemma round_kept:
  assumes "codec_faithful C" and "holds C (url, i) key (sl_token s) (sl_disk s)"
    and "1 \<le> sl_backoff s" and "sl_backoff s \<le> BACKOFF_MAX"
    and "session_round C D url i name have_key x s = (s', r)"
  shows "session_kept C (url, i) key (refused_in have_key x) s s' r"
proof (cases x)
  case RdConnectFailed
  then show ?thesis using assms by (auto simp: session_round_def session_kept_def session_retry_def BACKOFF_MAX_def)
next
  case (RdAttach grant answer w)
  obtain d q where g: "(case grant of None \<Rightarrow> (sl_disk s, Ok ()) | Some g \<Rightarrow> persist_grant C (ra_grant D) url g (sl_disk s)) = (d, q)"
    by fastforce
  let ?s = "s\<lparr>sl_disk := d\<rparr>"
  have d: "others_kept C (url, i) (sl_disk s) d" "holds C (url, i) key (sl_token ?s) (sl_disk ?s)"
    using g grant_keeps [OF assms(1,2)] assms(2) by (auto split: option.splits)
  have "session_kept C (url, i) key (refused_in have_key x) ?s s' r"
  proof (cases q)
    case (Inl e)
    then show ?thesis using assms(3-) d RdAttach g
      by (auto simp: session_round_def session_kept_def session_retry_def BACKOFF_MAX_def)
  next
    case ok: (Inr u)
    show ?thesis
    proof (cases answer)
      case (Inl e)
      then show ?thesis using refused_kept [OF assms(1) d(2), of "ra_first D" name have_key e w s' r] assms(3-) RdAttach g ok
        by (simp add: session_round_def refused_in_def)
    next
      case (Inr b)
      then show ?thesis
        using attached_kept [OF assms(1) d(2), of "(ra_first D, ra_second D)" name "fst b" "fst (snd b)" "snd (snd b)" s' r] assms(3-) RdAttach g ok
        by (cases b) (simp add: session_round_def)
    qed
  qed
  then show ?thesis using others_kept_trans [OF d(1)] by (auto simp: session_kept_def)
qed

text \<open>
  (C20) The stored credentials survive every session: however connections fail, are refused or are lost,
  and whatever fails on the disk, after any number of rounds every other entry is as it was, the
  wait before the next attempt is between one and fifteen seconds, and the entry of the shell is
  still there with its recovery key and, unless the session ended because the disk failed, with
  the newest token the daemon gave. The entry is gone only when the shell has exited, or when some
  answer to an attach was one that says the token is of no more use.
\<close>

theorem session_token_kept:
  assumes "codec_faithful C" and "holds C (url, i) key (sl_token s) (sl_disk s)"
    and "1 \<le> sl_backoff s" and "sl_backoff s \<le> BACKOFF_MAX"
    and "session_run C url i name have_key rounds s = (s', r)"
  shows "session_kept C (url, i) key (list_ex (refused_in have_key) (map fst rounds)) s s' r"
  using assms(2-)
proof (induction rounds arbitrary: s)
  case Nil
  then show ?case by (auto simp: session_kept_def)
next
  case (Cons x rest)
  obtain y D where x: "x = (y, D)" by (cases x)
  obtain s1 r1 where p: "session_round C D url i name have_key y s = (s1, r1)" by fastforce
  note k = round_kept [OF assms(1) Cons.prems(1-3) p]
  show ?case
  proof (cases r1)
    case (Some e)
    then show ?thesis using Cons.prems(4) k p x by (auto simp: session_kept_def split: session_end.splits)
  next
    case None
    then have h: "holds C (url, i) key (sl_token s1) (sl_disk s1)" "1 \<le> sl_backoff s1" "sl_backoff s1 \<le> BACKOFF_MAX"
      and o1: "others_kept C (url, i) (sl_disk s) (sl_disk s1)"
      using k by (simp_all add: session_kept_def)
    have "session_run C url i name have_key rest s1 = (s', r)" using Cons.prems(4) p None x by simp
    from Cons.IH [OF h this] o1 x show ?thesis
      by (auto simp: session_kept_def intro: others_kept_trans split: option.splits session_end.splits)
  qed
qed

text \<open>A printer and parser that are inverse to each other: a state is written as the number of it, in unary.\<close>

definition entry_fields :: "saved_entry \<Rightarrow> rstring \<times> rstring \<times> rstring option" where
  "entry_fields e = (en_token e, en_name e, en_idempotency_key e)"

definition fields_entry :: "rstring \<times> rstring \<times> rstring option \<Rightarrow> saved_entry" where
  "fields_entry = (\<lambda>(t, n, k). \<lparr>en_token = t, en_name = n, en_idempotency_key = k\<rparr>)"

definition unary_codec :: state_codec where
  "unary_codec = \<lparr>sc_print = (\<lambda>st. replicate (to_nat (cs_version st,
       map (map_prod id (map (map_prod id entry_fields))) (cs_servers st), cs_grants st)) 0),
     sc_parse = (\<lambda>bs. case from_nat (length bs) of (v, ss, gs) \<Rightarrow>
       Some \<lparr>cs_version = v, cs_servers = map (map_prod id (map (map_prod id fields_entry))) ss, cs_grants = gs\<rparr>),
     sc_base64 = map unat, sc_unbase64 = (\<lambda>s. Some (map of_nat s))\<rparr>"

lemma fields_entry_inverse: "fields_entry (entry_fields e) = e"
  by (simp add: fields_entry_def entry_fields_def)

lemma unary_faithful: "codec_faithful unary_codec"
proof -
  have e: "map_prod id fields_entry (map_prod id entry_fields x) = x" for x :: "rstring \<times> saved_entry"
    by (cases x) (simp add: fields_entry_inverse)
  have s: "map_prod id (map (map_prod id fields_entry)) (map_prod id (map (map_prod id entry_fields)) x) = x"
    for x :: "rstring \<times> (rstring \<times> saved_entry) list"
    by (cases x) (simp add: comp_def e)
  show ?thesis by (simp add: codec_faithful_def unary_codec_def comp_def s)
qed

definition demo_disk_answers :: disk_answers where
  "demo_disk_answers = \<lparr>da_readable = True, da_now = 0, da_fails_after = None\<rparr>"

definition demo_session :: session_loop where
  "demo_session = \<lparr>sl_token = [5], sl_backoff = 1, sl_disk = [(STATE_FILE, sc_print unary_codec
     (put_entry unary_codec (lit ''u'') (lit ''a1'') [5] [] (Some [9]) state_default))]\<rparr>"

definition demo_shell :: attached_shell where
  "demo_shell = \<lparr>as_chan = \<lparr>cc_fits = (\<lambda>_. True), cc_room = 9, cc_inbox = [plain (MTerminalOutput [65])], cc_sent = []\<rparr>,
     as_shell_id = [0xa1], as_snapshot = [], as_rotated_token = [7], as_oldest_history_line_id = 0, as_newest_history_line_id = 0\<rparr>"

definition demo_rounds :: "(round_in \<times> round_answers) list" where
  "demo_rounds = map (\<lambda>i. (i, \<lparr>ra_grant = demo_disk_answers, ra_first = demo_disk_answers, ra_second = demo_disk_answers\<rparr>))
     [RdConnectFailed, RdAttach (Some [1]) (Ok (demo_shell, True, [TnEvent True, TnStdin [66]])) (Err CeTransport)]"

lemma demo_session_holds:
  "holds unary_codec (lit ''u'', lit ''a1'') (Some (hex_string [9])) (sl_token demo_session) (sl_disk demo_session)"
proof -
  let ?st = "put_entry unary_codec (lit ''u'') (lit ''a1'') [5] [] (Some [9]) state_default"
  have "stored_state unary_codec (sl_disk demo_session) = Some ?st"
    using unary_faithful by (simp add: stored_state_def demo_session_def codec_faithful_def put_entry_def Let_def state_default_def)
  then show ?thesis by (simp add: holds_def stored_entry_def shells_of_put demo_session_def)
qed

theorem session_token_kept_witness:
  "session_kept unary_codec (lit ''u'', lit ''a1'') (Some (hex_string [9])) False demo_session
     (fst (session_run unary_codec (lit ''u'') (lit ''a1'') [] True demo_rounds demo_session))
     (snd (session_run unary_codec (lit ''u'') (lit ''a1'') [] True demo_rounds demo_session))"
proof -
  have "session_kept unary_codec (lit ''u'', lit ''a1'') (Some (hex_string [9]))
     (list_ex (refused_in True) (map fst demo_rounds)) demo_session
     (fst (session_run unary_codec (lit ''u'') (lit ''a1'') [] True demo_rounds demo_session))
     (snd (session_run unary_codec (lit ''u'') (lit ''a1'') [] True demo_rounds demo_session))"
    by (rule session_token_kept [OF unary_faithful demo_session_holds])
      (simp_all add: demo_session_def BACKOFF_MAX_def)
  then show ?thesis by (simp add: demo_rounds_def refused_in_def)
qed

end
