(* ===== verification/Client_Cli.thy ===== *)
theory Client_Cli
  imports Client_State
begin

text \<open>
  The commands of the terminal client (\<open>crates/native-client/src/cli.rs\<close>): its arguments, the choice
  of how to authenticate, and \<open>list\<close>, \<open>open\<close>, \<open>attach\<close> and \<open>terminate\<close> up to the point where the interactive
  session of \<open>Client_State\<close> takes over. \<open>net\<close> is what connecting with a given method gives.
\<close>

section \<open>Arguments\<close>

record cli_opts =
  op_url :: rstring
  op_user :: "rstring option"
  op_key :: "rstring option"

datatype cli_command = CmdList | CmdOpen "rstring option" | CmdAttach rstring | CmdTerminate rstring

datatype cli_error = ClNeedsValue rstring | ClNeedsPrefix rstring | ClUnknown rstring

definition opts_default :: cli_opts where
  "opts_default = \<lparr>op_url = lit ''http://127.0.0.1:8080'', op_user = None, op_key = None\<rparr>"

fun cli_flags :: "rstring list \<Rightarrow> cli_opts \<Rightarrow> cli_error + cli_opts \<times> rstring list" where
  "cli_flags [] opts = Ok (opts, [])"
| "cli_flags [flag] opts =
     (if flag = lit ''--url'' \<or> flag = lit ''--user'' \<or> flag = lit ''--key'' then Err (ClNeedsValue flag) else Ok (opts, [flag]))"
| "cli_flags (flag # v # rest) opts =
     (if flag = lit ''--url'' then cli_flags rest (opts\<lparr>op_url := v\<rparr>)
      else if flag = lit ''--user'' then cli_flags rest (opts\<lparr>op_user := Some v\<rparr>)
      else if flag = lit ''--key'' then cli_flags rest (opts\<lparr>op_key := Some v\<rparr>)
      else Ok (opts, flag # v # rest))"

definition cli_parse :: "rstring list \<Rightarrow> cli_error + cli_opts \<times> cli_command" where
  "cli_parse argv =
     (case cli_flags argv opts_default of
        Inl e \<Rightarrow> Err e
      | Inr (opts, rest) \<Rightarrow>
          (let command = (case rest of [] \<Rightarrow> lit ''list'' | c # _ \<Rightarrow> c);
               arg = (case rest of c # a # _ \<Rightarrow> Some a | _ \<Rightarrow> None)
           in
           if command = lit ''list'' then Ok (opts, CmdList)
           else if command = lit ''open'' then Ok (opts, CmdOpen arg)
           else if command = lit ''attach'' then
             (case arg of None \<Rightarrow> Err (ClNeedsPrefix command) | Some p \<Rightarrow> Ok (opts, CmdAttach p))
           else if command = lit ''terminate'' then
             (case arg of None \<Rightarrow> Err (ClNeedsPrefix command) | Some p \<Rightarrow> Ok (opts, CmdTerminate p))
           else Err (ClUnknown command)))"

section \<open>Connecting\<close>

text \<open>A stored grant first; when it does not work, the configured key, or development mode.\<close>

datatype cmd_error = CmState state_error | CmClient client_error | CmPick pick_error | CmNoShells

definition opts_method :: "cli_opts \<Rightarrow> client_auth" where
  "opts_method opts = (case (op_user opts, op_key opts) of (Some user, Some key) \<Rightarrow> AuthSshKey user | _ \<Rightarrow> AuthDev)"

definition opts_persist ::
  "state_codec \<Rightarrow> disk_answers \<Rightarrow> cli_opts \<Rightarrow> server_conn \<Rightarrow> disk \<Rightarrow> disk \<times> (cmd_error + server_conn)" where
  "opts_persist C D opts conn d =
     (case persist_grant C D (op_url opts) (sv_grant conn) d of
        (d1, Inl e) \<Rightarrow> (d1, Err (CmState e))
      | (d1, Inr _) \<Rightarrow> (d1, Ok conn))"

definition opts_connect ::
  "state_codec \<Rightarrow> disk_answers \<Rightarrow> cli_opts \<Rightarrow> (client_auth \<Rightarrow> client_error + server_conn) \<Rightarrow> disk
     \<Rightarrow> disk \<times> (cmd_error + server_conn)" where
  "opts_connect C D opts net d =
     (case state_load C (da_readable D) (da_now D) d of
        (d1, Inl e) \<Rightarrow> (d1, Err (CmState e))
      | (d1, Inr st) \<Rightarrow>
          (case Option.bind (map_of (cs_grants st) (op_url opts))
                  (\<lambda>g. Option.bind (sc_unbase64 C g)
                     (\<lambda>bs. case net (AuthGrant bs) of Inl _ \<Rightarrow> None | Inr conn \<Rightarrow> Some conn)) of
             Some conn \<Rightarrow> opts_persist C D opts conn d1
           | None \<Rightarrow>
               (case net (opts_method opts) of
                  Inl e \<Rightarrow> (d1, Err (CmClient e))
                | Inr conn \<Rightarrow> opts_persist C D opts conn d1)))"

section \<open>Commands\<close>

text \<open>
  A command fails, prints, or hands a shell over to the interactive session; slicing the text of an
  identifier of less than eight bytes is a panic.
\<close>

datatype cmd_result =
    CmFailed cmd_error
  | CmRows "(rstring \<times> pb_shell_state \<times> bool \<times> rstring) list"
  | CmTerminated int
  | CmAmbiguous
  | CmNoMatch
  | CmPanic
  | CmRun server_conn bytes bytes rstring "bytes option"

definition list_row :: "(rstring \<times> saved_entry) list \<Rightarrow> pb_shell_info \<Rightarrow> rstring \<times> pb_shell_state \<times> bool \<times> rstring" where
  "list_row known i =
     (let id_hex = hex_string (pi_shell_id i); e = map_of known id_hex
      in (take 32 id_hex, pi_state i, e \<noteq> None, case e of None \<Rightarrow> lit ''-'' | Some x \<Rightarrow> en_name x))"

definition cmd_list ::
  "state_codec \<Rightarrow> disk_answers \<times> disk_answers \<Rightarrow> cli_opts \<Rightarrow> (client_auth \<Rightarrow> client_error + server_conn) \<Rightarrow> disk
     \<Rightarrow> disk \<times> cmd_result" where
  "cmd_list C D opts net d =
     (case opts_connect C (fst D) opts net d of
        (d1, Inl e) \<Rightarrow> (d1, CmFailed e)
      | (d1, Inr conn) \<Rightarrow>
          (case state_load C (da_readable (snd D)) (da_now (snd D)) d1 of
             (d2, Inl e) \<Rightarrow> (d2, CmFailed (CmState e))
           | (d2, Inr st) \<Rightarrow>
               (case snd (client_list_shells conn) of
                  Inl e \<Rightarrow> (d2, CmFailed (CmClient e))
                | Inr shells \<Rightarrow> (d2, CmRows (map (list_row (shells_of (op_url opts) st)) shells)))))"

definition cmd_open ::
  "state_codec \<Rightarrow> disk_answers \<times> disk_answers \<Rightarrow> cli_opts \<Rightarrow> (client_auth \<Rightarrow> client_error + server_conn)
     \<Rightarrow> nat \<Rightarrow> nat \<Rightarrow> bytes \<Rightarrow> rstring option \<Rightarrow> disk \<Rightarrow> disk \<times> cmd_result" where
  "cmd_open C D opts net cols rows key command d =
     (case opts_connect C (fst D) opts net d of
        (d1, Inl e) \<Rightarrow> (d1, CmFailed e)
      | (d1, Inr conn) \<Rightarrow>
          (case client_open_shell command cols rows key conn of
             (_, Inl e) \<Rightarrow> (d1, CmFailed (CmClient e))
           | (conn1, Inr (shell_id, token)) \<Rightarrow>
               (let id_hex = hex_string shell_id; name = (case command of None \<Rightarrow> lit ''shell'' | Some x \<Rightarrow> x) in
                case persist_entry C (snd D) (op_url opts) id_hex token name (Some key) d1 of
                  (d2, Inl e) \<Rightarrow> (d2, CmFailed (CmState e))
                | (d2, Inr _) \<Rightarrow>
                    if length id_hex < 16 then (d2, CmPanic) else (d2, CmRun conn1 shell_id token name (Some key)))))"

definition cmd_attach ::
  "state_codec \<Rightarrow> disk_answers \<times> disk_answers \<Rightarrow> cli_opts \<Rightarrow> (client_auth \<Rightarrow> client_error + server_conn)
     \<Rightarrow> rstring \<Rightarrow> disk \<Rightarrow> disk \<times> cmd_result" where
  "cmd_attach C D opts net pre d =
     (case state_load C (da_readable (fst D)) (da_now (fst D)) d of
        (d1, Inl e) \<Rightarrow> (d1, CmFailed (CmState e))
      | (d1, Inr st) \<Rightarrow>
          (case map_of (cs_servers st) (op_url opts) of
             None \<Rightarrow> (d1, CmFailed CmNoShells)
           | Some shells \<Rightarrow>
               (case pick_shell C pre shells of
                  Inl PickPanic \<Rightarrow> (d1, CmPanic)
                | Inl e \<Rightarrow> (d1, CmFailed (CmPick e))
                | Inr (shell_id, token, name, key) \<Rightarrow>
                    (case opts_connect C (snd D) opts net d1 of
                       (d2, Inl e) \<Rightarrow> (d2, CmFailed e)
                     | (d2, Inr conn) \<Rightarrow> (d2, CmRun conn shell_id token name key)))))"

definition cmd_terminate ::
  "state_codec \<Rightarrow> disk_answers \<times> disk_answers \<Rightarrow> cli_opts \<Rightarrow> (client_auth \<Rightarrow> client_error + server_conn)
     \<Rightarrow> rstring \<Rightarrow> disk \<Rightarrow> disk \<times> cmd_result" where
  "cmd_terminate C D opts net pre d =
     (case opts_connect C (fst D) opts net d of
        (d1, Inl e) \<Rightarrow> (d1, CmFailed e)
      | (d1, Inr conn) \<Rightarrow>
          (case client_list_shells conn of
             (_, Inl e) \<Rightarrow> (d1, CmFailed (CmClient e))
           | (conn1, Inr shells) \<Rightarrow>
               (case filter (\<lambda>i. prefix pre (hex_string i)) (map pi_shell_id shells) of
                  [] \<Rightarrow> (d1, CmNoMatch)
                | [i] \<Rightarrow>
                    (case snd (client_terminate i conn1) of
                       Inl e \<Rightarrow> (d1, CmFailed (CmClient e))
                     | Inr code \<Rightarrow>
                         (case forget_token C (snd D) (op_url opts) (hex_string i) d1 of
                            (d2, Inl e) \<Rightarrow> (d2, CmFailed (CmState e))
                          | (d2, Inr _) \<Rightarrow> (d2, CmTerminated code)))
                | _ \<Rightarrow> (d1, CmAmbiguous))))"

section \<open>What is opened can be attached to\<close>

lemma state_load_version: "state_load C readable now d = (d', Inr st) \<Longrightarrow> cs_version st \<le> STATE_VERSION"
  by (auto simp: state_load_def state_default_def split: option.splits if_splits)

lemma change_state_ok:
  assumes "codec_faithful C" and "\<And>st. cs_version (f st) = cs_version st" and "change_state C D f d = (d', Inr u)"
  shows "\<exists>st. stored_state C d' = Some (f st)"
proof -
  obtain d1 st where l: "state_load C (da_readable D) (da_now D) d = (d1, Inr st)" and s: "state_save C (da_fails_after D) (f st) d1 = (d', Inr u)"
    using assms(3) by (auto simp: change_state_def split: prod.splits sum.splits)
  have "cs_version (f st) \<le> STATE_VERSION" using state_load_version [OF l] assms(2) by simp
  moreover have "map_of d' STATE_FILE = Some (sc_print C (f st))"
    using s saved_file [of C "f st" d1] by (auto simp: state_save_def split: option.splits)
  ultimately show ?thesis using assms(1) by (auto simp: stored_state_def codec_faithful_def)
qed

lemma put_entry_servers:
  "map_of (cs_servers (put_entry C url i token name key st)) url = Some (shells_of url (put_entry C url i token name key st))"
proof -
  have "map_of (cs_servers (put_entry C url i token name key st)) url \<noteq> None" by (simp add: put_entry_def Let_def)
  then show ?thesis by (auto simp: shells_of_def)
qed

text \<open>How many stored shells of a server a prefix names.\<close>

definition named_by :: "state_codec \<Rightarrow> rstring \<Rightarrow> rstring \<Rightarrow> disk \<Rightarrow> nat" where
  "named_by C url pre d =
     (case stored_state C d of None \<Rightarrow> 0 | Some st \<Rightarrow> length (filter (\<lambda>(i, e). prefix pre i) (shells_of url st)))"

lemma pick_only:
  assumes "map_of shells (hex_string sid) = Some e" and "length (filter (\<lambda>(i, e). prefix (hex_string sid) i) shells) = 1"
    and "sc_unbase64 C (en_token e) = Some token" and "en_idempotency_key e = Some (hex_string key)" and "length key = 16"
  shows "pick_shell C (hex_string sid) shells = Ok (sid, token, en_name e, Some key)"
proof -
  have "(hex_string sid, e) \<in> set (filter (\<lambda>(i, e). prefix (hex_string sid) i) shells)"
    using assms(1) by (auto dest: map_of_SomeD)
  then have "filter (\<lambda>(i, e). prefix (hex_string sid) i) shells = [(hex_string sid, e)]"
    using assms(2) by (cases "filter (\<lambda>(i, e). prefix (hex_string sid) i) shells") auto
  then show ?thesis using assms(3-) by (simp add: pick_shell_def unhex_hex)
qed

lemma cmd_open_ran:
  assumes "cmd_open C D opts net cols rows key command d = (d1, CmRun conn sid token name k)"
  shows "\<exists>d0 u. persist_entry C (snd D) (op_url opts) (hex_string sid) token name (Some key) d0 = (d1, Inr u)"
proof -
  obtain d0 r where c: "opts_connect C (fst D) opts net d = (d0, r)" by fastforce
  obtain conn0 where r: "r = Inr conn0" using assms c by (cases r) (simp_all add: cmd_open_def)
  obtain conn1 q where o: "client_open_shell command cols rows key conn0 = (conn1, q)" by fastforce
  obtain sid0 token0 where q: "q = Inr (sid0, token0)" using assms c r o by (cases q) (auto simp: cmd_open_def)
  let ?name = "case command of None \<Rightarrow> lit ''shell'' | Some x \<Rightarrow> x"
  obtain d2 w where p: "persist_entry C (snd D) (op_url opts) (hex_string sid0) token0 ?name (Some key) d0 = (d2, w)" by fastforce
  then show ?thesis using assms c r o q by (cases w) (auto simp: cmd_open_def Let_def split: if_splits)
qed

text \<open>
  What \<open>open\<close> wrote down is what \<open>attach\<close> reads: once a shell was opened, and whatever the disk held
  before, attaching to its identifier, as soon as no other stored identifier starts with it, hands
  the session the same shell with the same token, name and recovery key, unless the client cannot
  connect.
\<close>

theorem open_then_attach:
  assumes "codec_faithful C" and "\<And>bs. sc_unbase64 C (sc_base64 C bs) = Some bs" and "length key = 16"
    and "cmd_open C D opts net cols rows key command d = (d1, CmRun conn sid token name k)"
    and "named_by C (op_url opts) (hex_string sid) d1 = 1" and "da_readable (fst D')"
  shows "snd (cmd_attach C D' opts net' (hex_string sid) d1)
    = (case snd (opts_connect C (snd D') opts net' d1) of
         Inl e \<Rightarrow> CmFailed e
       | Inr conn' \<Rightarrow> CmRun conn' sid token name (Some key))"
proof -
  let ?url = "op_url opts" and ?i = "hex_string sid"
  obtain d0 u where p: "persist_entry C (snd D) ?url ?i token name (Some key) d0 = (d1, Inr u)"
    using cmd_open_ran [OF assms(4)] by blast
  have v: "cs_version (put_entry C ?url ?i token name (Some key) st) = cs_version st" for st
    by (simp add: put_entry_def Let_def)
  obtain st where st: "stored_state C d1 = Some (put_entry C ?url ?i token name (Some key) st)"
    using change_state_ok [OF assms(1) v p [unfolded persist_entry_def]] by blast
  let ?st = "put_entry C ?url ?i token name (Some key) st"
  have shells: "map_of (cs_servers ?st) ?url = Some (shells_of ?url ?st)"
    by (rule put_entry_servers)
  have "map_of (shells_of ?url ?st) ?i
      = Some \<lparr>en_token = sc_base64 C token, en_name = name, en_idempotency_key = Some (hex_string key)\<rparr>"
    by (simp add: shells_of_put)
  then have pick: "pick_shell C ?i (shells_of ?url ?st) = Ok (sid, token, name, Some key)"
    using pick_only [of "shells_of ?url ?st" sid _ C token key] assms(2,3,5) st by (simp add: named_by_def)
  have "state_load C (da_readable (fst D')) (da_now (fst D')) d1 = (d1, Ok ?st)"
    using load_stored [OF st] assms(6) by simp
  then show ?thesis using shells pick by (simp add: cmd_attach_def split: prod.splits sum.splits)
qed

text \<open>A server that opens one shell, for a client with an empty disk.\<close>

definition demo_conn :: "envelope list \<Rightarrow> server_conn" where
  "demo_conn inbox = \<lparr>sv_control = \<lparr>cc_fits = (\<lambda>_. True), cc_room = 9, cc_inbox = inbox, cc_sent = []\<rparr>, sv_grant = [],
     sv_hello = \<lparr>sh_protocol_major = 1, sh_protocol_minor = 0, sh_capabilities = [], sh_max_frame_bytes = 0,
       sh_max_datagram_bytes = 0, sh_keepalive_interval_ms = 0\<rparr>, sv_next_request = 1\<rparr>"

definition demo_net :: "client_auth \<Rightarrow> client_error + server_conn" where
  "demo_net _ = Ok (demo_conn [(respond 1 (MShellOpened [5] 0))\<lparr>ev_shell_id := replicate 8 3\<rparr>])"

lemma demo_connect:
  "opts_connect unary_codec demo_disk_answers opts_default demo_net []
    = ([], Ok (demo_conn [(respond 1 (MShellOpened [5] 0))\<lparr>ev_shell_id := replicate 8 3\<rparr>]))"
  by (simp add: opts_connect_def state_load_def demo_disk_answers_def state_default_def demo_net_def opts_persist_def
      persist_grant_def demo_conn_def)

lemma demo_persist:
  "persist_entry unary_codec demo_disk_answers url i token name key []
    = (apply_ops (save_ops unary_codec (put_entry unary_codec url i token name key state_default)) [], Ok ())"
  by (simp add: persist_entry_def change_state_def state_load_def demo_disk_answers_def state_save_def)

lemma shells_of_default: "shells_of url state_default = []"
  by (simp add: shells_of_def state_default_def)

lemma demo_cmd_open:
  "\<exists>conn. cmd_open unary_codec (demo_disk_answers, demo_disk_answers) opts_default demo_net 80 24 (replicate 16 1) None []
    = (apply_ops (save_ops unary_codec (put_entry unary_codec (op_url opts_default) (hex_string (replicate 8 3)) [5]
         (lit ''shell'') (Some (replicate 16 1)) state_default)) [],
       CmRun conn (replicate 8 3) [5] (lit ''shell'') (Some (replicate 16 1)))"
proof -
  have n: "length (hex_string (replicate 8 3)) = 16" using len_hex_string [of "replicate 8 3"] len_ascii ascii_hex_string by simp
  show ?thesis
    by (simp add: cmd_open_def demo_connect client_open_shell_def control_ask_def ask_def send_env_def recv_until_def
        respond_def demo_conn_def flatten_def demo_persist n Let_def)
qed

theorem open_then_attach_witness:
  "\<exists>d1 conn. cmd_open unary_codec (demo_disk_answers, demo_disk_answers) opts_default demo_net 80 24 (replicate 16 1) None []
      = (d1, CmRun conn (replicate 8 3) [5] (lit ''shell'') (Some (replicate 16 1)))
    \<and> snd (cmd_attach unary_codec (demo_disk_answers, demo_disk_answers) opts_default (\<lambda>_. Err CeTransport) (hex_string (replicate 8 3)) d1)
      = (case snd (opts_connect unary_codec demo_disk_answers opts_default (\<lambda>_. Err CeTransport) d1) of
           Inl e \<Rightarrow> CmFailed e
         | Inr conn' \<Rightarrow> CmRun conn' (replicate 8 3) [5] (lit ''shell'') (Some (replicate 16 1)))"
proof -
  let ?st = "put_entry unary_codec (op_url opts_default) (hex_string (replicate 8 3)) [5] (lit ''shell'') (Some (replicate 16 1)) state_default"
  obtain conn where o: "cmd_open unary_codec (demo_disk_answers, demo_disk_answers) opts_default demo_net 80 24 (replicate 16 1) None []
      = (apply_ops (save_ops unary_codec ?st) [], CmRun conn (replicate 8 3) [5] (lit ''shell'') (Some (replicate 16 1)))"
    using demo_cmd_open by blast
  have b: "sc_unbase64 unary_codec (sc_base64 unary_codec bs) = Some bs" for bs
    by (simp add: unary_codec_def comp_def)
  have "stored_state unary_codec (apply_ops (save_ops unary_codec ?st) []) = Some ?st"
    using saved_file [of unary_codec ?st "[]"] unary_faithful
    by (simp add: stored_state_def codec_faithful_def put_entry_def state_default_def Let_def)
  then have n: "named_by unary_codec (op_url opts_default) (hex_string (replicate 8 3)) (apply_ops (save_ops unary_codec ?st) []) = 1"
    using shells_of_default by (simp add: named_by_def shells_of_put assoc_put_def)
  have r: "da_readable (fst (demo_disk_answers, demo_disk_answers))" by (simp add: demo_disk_answers_def)
  show ?thesis
    using open_then_attach [OF unary_faithful b _ o n r, of "\<lambda>_. Err CeTransport"] o by (intro exI) auto
qed

end
