(* ===== verification/Client_Attach.thy ===== *)
theory Client_Attach
  imports Client_State Conn_Isolation
begin

text \<open>
  The client and the daemon together: what the client of \<open>crates/native-client\<close> concludes from the
  daemon's answer to an attach (\<open>crates/daemon/src/connection.rs\<close>), and why the resume token it then
  holds is the one the daemon expects.
\<close>

section \<open>Both sides of an attach\<close>

text \<open>The envelopes a dispatch added for one channel, in order.\<close>

definition answers_on ::
  "nat \<Rightarrow> ('vt, 'pub, 'sk, 'pk, 'ip, 'h) conn \<Rightarrow> ('vt, 'pub, 'sk, 'pk, 'ip, 'h) conn \<Rightarrow> envelope list" where
  "answers_on ch c c' = map snd (filter (\<lambda>x. fst x = ch) (drop (length (cn_out c)) (cn_out c')))"

definition token_current :: "(bytes \<Rightarrow> bytes) \<Rightarrow> 'vt shell_manager \<Rightarrow> rstring \<Rightarrow> bytes \<Rightarrow> bytes \<Rightarrow> bool" where
  "token_current sha256 m user sid token \<longleftrightarrow>
     (\<exists>e. map_of (sm_shells m) sid = Some e \<and> se_owner e = user \<and> rt_state (se_runtime e) = Running
       \<and> rt_token_hash (se_runtime e) = token_hash_of sha256 token)"

definition token_superseded :: "(bytes \<Rightarrow> bytes) \<Rightarrow> 'vt shell_manager \<Rightarrow> rstring \<Rightarrow> bytes \<Rightarrow> bytes \<Rightarrow> bool" where
  "token_superseded sha256 m user sid token \<longleftrightarrow>
     (\<exists>e. map_of (sm_shells m) sid = Some e \<and> se_owner e = user \<and> rt_state (se_runtime e) = Running
       \<and> token_hash_of sha256 token \<in> set (rt_superseded (se_runtime e)))"

lemma attach_runtime_running:
  assumes "rt_state rt = Running"
  shows "rt_state (fst (attach_runtime A sha256 c sid cols rows fresh now res rt)) = Running"
  using assms by (simp add: attach_runtime_def Let_def rotate_token_def push_superseded_def split: prod.split)

lemma attach_runtime_transient:
  assumes "rt_state rt = Running"
  shows "case snd (attach_runtime A sha256 c sid cols rows fresh now res rt) of
      Inr att \<Rightarrow> at_rotated_resume_token att = fresh
    | Inl e \<Rightarrow> (\<exists>w. e = LimitExceeded w) \<or> (\<exists>w. e = Pty w)"
  using assms by (auto simp: attach_runtime_def Let_def split: prod.split)

lemma attach_current:
  assumes "sm_inv m" and "token_current sha256 m user sid token"
    and "attach A sha256 user sid token cols rows fresh now res m = (m', r)"
  shows "case r of
      Inl e \<Rightarrow> m' = m \<and> snd (session_error_code e)
    | Inr att \<Rightarrow> at_rotated_resume_token att = fresh \<and> token_current sha256 m' user sid fresh
        \<and> token_superseded sha256 m' user sid token"
proof -
  obtain e where e: "map_of (sm_shells m) sid = Some e" "se_owner e = user" "rt_state (se_runtime e) = Running"
    "rt_token_hash (se_runtime e) = token_hash_of sha256 token"
    using assms(2) by (auto simp: token_current_def)
  let ?a = "attach_runtime A sha256 (sm_config m) sid cols rows fresh now res (se_runtime e)"
  have m': "m' = set_runtime sid (\<lambda>_. fst ?a) m" and r: "r = snd ?a"
    using assms(3) e by (auto simp: attach_def Let_def split: prod.splits)
  have kind: "case r of Inr att \<Rightarrow> at_rotated_resume_token att = fresh
      | Inl x \<Rightarrow> (\<exists>w. x = LimitExceeded w) \<or> (\<exists>w. x = Pty w)"
    unfolding r by (rule attach_runtime_transient [OF e(3)])
  have running: "rt_state (fst ?a) = Running" by (rule attach_runtime_running [OF e(3)])
  show ?thesis
  proof (cases r)
    case (Inl x)
    then show ?thesis using attach_Err_unchanged [OF assms(1) assms(3) [unfolded Inl]] kind by auto
  next
    case (Inr att)
    have inv: "rt_inv (sm_config m) (se_runtime e)" using sm_inv_entry [OF assms(1) e(1)] by simp
    have "?a = (fst ?a, Ok att)" using Inr r by (metis prod.collapse)
    note ok = attach_success(3,4) [OF this inv]
    show ?thesis
      using Inr kind e running ok by (simp add: m' lookup_set_runtime token_current_def token_superseded_def)
  qed
qed

text \<open>The next attach with a superseded token is the one that leads the client to recovery.\<close>

lemma attach_superseded:
  assumes "token_superseded sha256 m user sid token" and "\<not> token_current sha256 m user sid token"
  shows "attach A sha256 user sid token cols rows fresh now res m = (m, Err TokenReplayed)"
  using assms by (auto simp: token_superseded_def token_current_def attach_def Let_def)

text \<open>A shell whose termination failed is one the client forgets.\<close>

lemma terminating_forgotten:
  assumes "map_of (sm_shells m) sid = Some e" and "se_owner e = user" and "rt_state (se_runtime e) = Terminating"
    and "rt_token_hash (se_runtime e) = token_hash_of sha256 token"
  shows "snd (attach A sha256 user sid token cols rows fresh now res m) = Err NotRunning"
    and "session_error_code NotRunning = (code, retryable) \<Longrightarrow>
      attach_failure_action (AeRejected code retryable txt) have_key = ForgetAndExit"
  using assms by (auto simp: attach_def attach_runtime_def Let_def)

lemma client_attach_reply:
  assumes "cc_inbox chan = []"
  shows "attach_shell (Some chan) shell_id token cols rows = Err AeTransport"
  using assms by (simp add: attach_shell_def ask_def send_env_def recv_until_def)

lemma client_attach_error:
  assumes "cc_inbox chan = [error_envelope q code txt retryable]"
  shows "attach_shell (Some chan) shell_id token cols rows \<in> {Err AeTransport, Err (AeRejected code retryable txt)}"
  using assms by (simp add: attach_shell_def ask_def send_env_def recv_until_def error_envelope_def)

text \<open>What the daemon answers, and in which state it is then.\<close>

definition attach_answered ::
  "(bytes \<Rightarrow> bytes) \<Rightarrow> rstring \<Rightarrow> bytes \<Rightarrow> bytes \<Rightarrow> bytes \<Rightarrow> 'vt shell_manager \<Rightarrow> envelope \<Rightarrow> bool" where
  "attach_answered sha256 user sid token fresh m env \<longleftrightarrow>
     (case ev_message env of
        Some (MShellAttached a) \<Rightarrow> sa_rotated_resume_token a = fresh \<and> token_current sha256 m user sid fresh
          \<and> token_superseded sha256 m user sid token
      | Some (MError code txt retryable) \<Rightarrow> code \<notin> {ErrTokenExpired, ErrTokenReplayed, ErrNotFound}
          \<and> token_current sha256 m user sid token
      | _ \<Rightarrow> False)"

lemma attach_on_answers:
  assumes "sm_inv (manager c)" and "length sid = 16" and "length token = 32"
    and "token_current (pk_sha256 P) (manager c) (cn_user_id c) sid token"
    and "attach_on P A ch (attach_envelope_of sid token cols rows) am c = Some (c', stay)"
    and "am_resume_token am = token"
  shows "(answers_on ch c c' = []
       \<and> (token_current (pk_sha256 P) (manager c') (cn_user_id c) sid token
          \<or> token_superseded (pk_sha256 P) (manager c') (cn_user_id c) sid token))
    \<or> (\<exists>env. answers_on ch c c' = [env]
       \<and> attach_answered (pk_sha256 P) (cn_user_id c) sid token (an_token A) (manager c') env)"
proof -
  obtain m r where a: "attach (pk_avt P) (pk_sha256 P) (cn_user_id c) sid token (as_u16 (am_cols am)) (as_u16 (am_rows am))
      (an_token A) (an_shell_ms A) (an_resize A) (manager c) = (m, r)" by fastforce
  note k = attach_current [OF assms(1,4) a]
  have w: "id_from_wire sid = Ok sid" "token_from_wire token = Some token"
    using assms(2,3) by (simp_all add: id_from_wire_def token_from_wire_def)
  show ?thesis
  proof (cases "conn_permits c (lit ''attach'') \<and> ch \<notin> set (keys (cn_attachments c))")
    case False
    then show ?thesis using assms(4,5)
      by (auto simp: attach_on_def attach_envelope_of_def Let_def send_nth_def answers_on_def audit_def
          attach_answered_def error_envelope_def respond_def split: if_splits)
  next
    case True
    show ?thesis
    proof (cases r)
      case (Inl e)
      then show ?thesis using True assms(4,5,6) k a w
        by (cases e) (auto simp: attach_on_def attach_envelope_of_def Let_def send_nth_def answers_on_def audit_def set_manager_def
          session_error_envelope_def attach_answered_def error_envelope_def respond_def split: if_splits)
    next
      case (Inr att)
      then show ?thesis using True assms(4,5,6) k a w
        by (auto simp: attach_on_def attach_envelope_of_def Let_def send_nth_def answers_on_def audit_def set_manager_def start_forwarder_def
          attached_reply_def attach_answered_def token_to_wire_def respond_def split: if_splits)
    qed
  qed
qed

text \<open>
  (C19) The token the client writes down is the one the daemon expects. When a client attaches with the
  current token of its own running shell, then whatever becomes of the daemon's answer and whatever
  the daemon answers: if the client sees the attach succeed, the rotated token it received is the
  current one; if not, it never concludes that the token is of no use, and the token it keeps is
  still the current one, or it is the one just superseded by an attach whose answer was lost, which
  the daemon remembers as superseded.
\<close>

theorem client_token_current:
  assumes "sm_inv (manager c)" and "length sid = 16" and "length token = 32"
    and "token_current (pk_sha256 P) (manager c) (cn_user_id c) sid token"
    and "attach_on P A ch (attach_envelope_of sid token cols rows) am c = Some (c', stay)"
    and "am_resume_token am = token" and "cc_inbox chan = take n (answers_on ch c c')"
  shows "case attach_shell (Some chan) sid token cols rows of
      Inr a \<Rightarrow> as_rotated_token a = an_token A \<and> token_current (pk_sha256 P) (manager c') (cn_user_id c) sid (as_rotated_token a)
    | Inl e \<Rightarrow> attach_failure_action e have_key \<in> {Retry, ExitKeepToken}
        \<and> (token_current (pk_sha256 P) (manager c') (cn_user_id c) sid token
           \<or> e = AeTransport \<and> token_superseded (pk_sha256 P) (manager c') (cn_user_id c) sid token)"
proof -
  from attach_on_answers [OF assms(1-6)] consider
      (lost) "answers_on ch c c' = []" "token_current (pk_sha256 P) (manager c') (cn_user_id c) sid token
          \<or> token_superseded (pk_sha256 P) (manager c') (cn_user_id c) sid token"
    | (answered) env where "answers_on ch c c' = [env]"
        "attach_answered (pk_sha256 P) (cn_user_id c) sid token (an_token A) (manager c') env"
    by blast
  then show ?thesis
  proof cases
    case lost
    then show ?thesis using assms(7) by (auto simp: client_attach_reply)
  next
    case (answered env)
    then have "cc_inbox chan = [] \<or> cc_inbox chan = [env]" using assms(7) by (cases n) auto
    then show ?thesis using answered(2)
      by (auto simp: attach_answered_def attach_shell_def ask_def send_env_def recv_until_def
          split: option.splits msg.splits)
  qed
qed

text \<open>The sample user attaches to a shell with identifiers of full width, and the answer arrives.\<close>

definition wide_entry :: "unit shell_entry" where
  "wide_entry = new_entry null_avt id session_core_config_default sample_request None
     \<lparr>pty_cols = 80, pty_rows = 24, pty_written = []\<rparr> 80 24 (replicate 16 2) (replicate 32 4) 5"

definition wide_manager :: "unit shell_manager" where
  "wide_manager = (manager_new session_core_config_default)\<lparr>
     sm_shells := [(replicate 16 2, wide_entry)], sm_idempotency := [((lit ''u'', [9]), replicate 16 2)]\<rparr>"

definition wide_user :: "(unit, nat, u8, u8, nat, bytes) conn" where
  "wide_user = set_manager wide_manager ((conn_new demo_app 7 False [])\<lparr>cn_user_id := lit ''u''\<rparr>)"

definition wide_message :: attach_shell_msg where
  "wide_message = \<lparr>am_resume_token = replicate 32 4, am_cols = 0, am_rows = 0, am_last_seen_revision = 0, am_last_history_line_id = 0\<rparr>"

lemma wide_open:
  "open_shell null_avt id sample_world sample_request (replicate 16 2) (replicate 32 4) 5 (manager_new session_core_config_default)
     = Some (wide_manager, Ok \<lparr>os_shell_id = replicate 16 2, os_resume_token = replicate 32 4, os_reused = False\<rparr>)"
  by (simp add: open_shell_def wide_manager_def manager_new_def manager_with_policy_def sample_request_def
      wide_entry_def allow_all_def requested_def live_shells_def session_core_config_default_def clamp_dims_def
      MIN_COLS_def MIN_ROWS_def launch_pty_def spawner_target_def build_launch_def prlimit_wrap_def
      shell_resource_limits_default_def sample_world_def sample_host_def assoc_put_def Let_def)

lemma wide_inv: "sm_inv wide_manager"
proof -
  have m: "sm_inv (manager_new session_core_config_default :: unit shell_manager)"
    unfolding manager_new_def by (rule manager_inv)
  show ?thesis
    using open_shell_inv [OF m, of "replicate 16 2" null_avt id sample_world sample_request "replicate 32 4" 5] wide_open
    by (simp add: manager_new_def manager_with_policy_def)
qed

lemma wide_current: "token_current id wide_manager (lit ''u'') (replicate 16 2) (replicate 32 4)"
  by (simp add: token_current_def wide_manager_def wide_entry_def new_entry_def sample_request_def token_hash_of_def)

lemma wide_attach:
  "\<exists>c' stay. attach_on demo_packages demo_answers 3 (attach_envelope_of (replicate 16 2) (replicate 32 4) 80 24) wide_message wide_user
     = Some (c', stay)"
proof -
  have "sm_inv (manager wide_user)" "an_thread demo_answers"
    using wide_inv by (simp_all add: wide_user_def set_manager_def demo_answers_def)
  then show ?thesis
    using attach_on_sound [of wide_user demo_answers demo_packages 3 "attach_envelope_of (replicate 16 2) (replicate 32 4) 80 24" wide_message]
    by auto
qed

theorem client_token_current_witness:
  "\<exists>c' stay. attach_on demo_packages demo_answers 3 (attach_envelope_of (replicate 16 2) (replicate 32 4) 80 24) wide_message wide_user
       = Some (c', stay)
     \<and> (case attach_shell (Some \<lparr>cc_fits = (\<lambda>_. True), cc_room = 1, cc_inbox = answers_on 3 wide_user c', cc_sent = []\<rparr>)
                (replicate 16 2) (replicate 32 4) 80 24 of
          Inr a \<Rightarrow> token_current id (manager c') (lit ''u'') (replicate 16 2) (as_rotated_token a)
        | Inl e \<Rightarrow> attach_failure_action e True \<in> {Retry, ExitKeepToken})"
proof -
  obtain c' stay where d: "attach_on demo_packages demo_answers 3 (attach_envelope_of (replicate 16 2) (replicate 32 4) 80 24)
      wide_message wide_user = Some (c', stay)"
    using wide_attach by blast
  have u: "manager wide_user = wide_manager" "cn_user_id wide_user = lit ''u''" "pk_sha256 demo_packages = id"
    by (simp_all add: wide_user_def set_manager_def demo_packages_def)
  have "sm_inv (manager wide_user)" using wide_inv u by simp
  moreover have "token_current (pk_sha256 demo_packages) (manager wide_user) (cn_user_id wide_user) (replicate 16 2) (replicate 32 4)"
    using wide_current u by simp
  ultimately show ?thesis
    using client_token_current [OF _ _ _ _ d, of "\<lparr>cc_fits = (\<lambda>_. True), cc_room = 1, cc_inbox = answers_on 3 wide_user c', cc_sent = []\<rparr>"
      "length (answers_on 3 wide_user c')" True] d u
    by (auto simp: wide_message_def split: sum.split)
qed

end
