(* ===== verification/Core_Store.thy ===== *)
theory Core_Store
  imports Client_State
begin

text \<open>
  The desktop client's store (\<open>crates/client-core/src/store.rs\<close>): servers with their login preferences, grants,
  shells and journalled opens. Every mutation works on a copy, saves the copy and then replaces
  the data in memory. JSON and base64 are the record \<open>store_codec\<close>; the encryption of the
  Windows build is not modelled.
\<close>

section \<open>Data\<close>

definition STORE_VERSION :: nat where "STORE_VERSION = 3"
definition MAX_STATE_BYTES :: nat where "MAX_STATE_BYTES = 8 * 1024 * 1024"

record shell_record =
  hr_token :: rstring
  hr_idempotency_key :: "rstring option"
  hr_name :: rstring
  hr_last_attached_at_ms :: int

record pending_open =
  po_idempotency_key :: rstring
  po_name :: rstring

record server_record =
  rc_url :: rstring
  rc_display_name :: rstring
  rc_username :: "rstring option"
  rc_ssh_key_path :: "rstring option"
  rc_remember_login :: bool
  rc_grant :: "rstring option"
  rc_shells :: "(rstring \<times> shell_record) list"
  rc_pending_opens :: "pending_open list"

record store_data =
  sd_version :: nat
  sd_servers :: "(rstring \<times> server_record) list"

definition store_data_default :: store_data where
  "store_data_default = \<lparr>sd_version = STORE_VERSION, sd_servers = []\<rparr>"

record store_codec =
  tc_print :: "store_data \<Rightarrow> bytes"
  tc_parse :: "bytes \<Rightarrow> store_data option"
  tc_parse_v1 :: "bytes \<Rightarrow> client_state option"
  tc_base64 :: "bytes \<Rightarrow> rstring"
  tc_unbase64 :: "rstring \<Rightarrow> bytes option"

datatype desktop_store_error = SrIo | SrTooLarge | SrInvalid | SrNewer nat | SrUnknownServer

definition DESKTOP_FILE :: rstring where "DESKTOP_FILE = lit ''desktop.json''"
definition DESKTOP_TMP :: rstring where "DESKTOP_TMP = lit ''desktop.json.tmp''"

record store =
  to_data :: store_data
  to_disk :: disk

section \<open>Reading and writing\<close>

text \<open>A file that is missing is not an error.\<close>

definition read_bounded :: "bool \<Rightarrow> rstring \<Rightarrow> disk \<Rightarrow> desktop_store_error + bytes option" where
  "read_bounded readable name d =
     (case map_of d name of
        None \<Rightarrow> if readable then Ok None else Err SrIo
      | Some bs \<Rightarrow>
          if \<not> readable then Err SrIo else if length bs > MAX_STATE_BYTES then Err SrTooLarge else Ok (Some bs))"

definition forget_grant :: "server_record \<Rightarrow> server_record" where
  "forget_grant r = (if rc_remember_login r then r else r\<lparr>rc_grant := None\<rparr>)"

definition persisted :: "store_data \<Rightarrow> store_data" where
  "persisted data = data\<lparr>sd_servers := map (map_prod id forget_grant) (sd_servers data)\<rparr>"

definition store_save :: "store_codec \<Rightarrow> nat option \<Rightarrow> store_data \<Rightarrow> disk \<Rightarrow> disk \<times> (desktop_store_error + unit)" where
  "store_save C fails_after data d =
     (let bs = tc_print C (persisted data); changes = replace_ops DESKTOP_TMP DESKTOP_FILE bs in
      if length bs > MAX_STATE_BYTES then (d, Err SrTooLarge)
      else
        (case fails_after of
           None \<Rightarrow> (apply_ops changes d, Ok ())
         | Some n \<Rightarrow> (apply_ops (take (min n 2) changes) d, Err SrIo)))"

text \<open>
  Loading: what older versions stored was stored without consent to keep the login, so it is cleared, and the
  file is replaced before the store is used. The flag is the warning about that.
\<close>

definition adopt_record :: "bool \<Rightarrow> server_record \<Rightarrow> server_record" where
  "adopt_record migrated r = forget_grant (if migrated then r\<lparr>rc_remember_login := False\<rparr> else r)"

definition store_load ::
  "store_codec \<Rightarrow> bool \<Rightarrow> nat option \<Rightarrow> disk \<Rightarrow> disk \<times> (desktop_store_error + store \<times> bool)" where
  "store_load C readable fails_after d =
     (case read_bounded readable DESKTOP_FILE d of
        Inl e \<Rightarrow> (d, Err e)
      | Inr None \<Rightarrow> (d, Ok (\<lparr>to_data = store_data_default, to_disk = d\<rparr>, False))
      | Inr (Some bs) \<Rightarrow>
          (case tc_parse C bs of
             None \<Rightarrow> (d, Err SrInvalid)
           | Some data0 \<Rightarrow>
               if sd_version data0 > STORE_VERSION then (d, Err (SrNewer (sd_version data0)))
               else
                 (let migrated = sd_version data0 < STORE_VERSION;
                      data = \<lparr>sd_version = STORE_VERSION,
                              sd_servers = map (map_prod id (adopt_record migrated)) (sd_servers data0)\<rparr>
                  in
                  if migrated then
                    (case store_save C fails_after data d of
                       (d1, Inl e) \<Rightarrow> (d1, Err e)
                     | (d1, Inr _) \<Rightarrow> (d1, Ok (\<lparr>to_data = data, to_disk = d1\<rparr>, True)))
                  else (d, Ok (\<lparr>to_data = data, to_disk = d\<rparr>, False)))))"

section \<open>Mutations\<close>

definition store_commit :: "store_codec \<Rightarrow> nat option \<Rightarrow> store_data \<Rightarrow> store \<Rightarrow> store \<times> (desktop_store_error + unit)" where
  "store_commit C fails_after next_data st =
     (case store_save C fails_after next_data (to_disk st) of
        (d, Inl e) \<Rightarrow> (st\<lparr>to_disk := d\<rparr>, Err e)
      | (d, Inr _) \<Rightarrow> (\<lparr>to_data = next_data, to_disk = d\<rparr>, Ok ()))"

definition mutate_server ::
  "store_codec \<Rightarrow> nat option \<Rightarrow> rstring \<Rightarrow> (server_record \<Rightarrow> server_record) \<Rightarrow> store \<Rightarrow> store \<times> (desktop_store_error + unit)" where
  "mutate_server C fails_after key f st =
     (case map_of (sd_servers (to_data st)) key of
        None \<Rightarrow> (st, Err SrUnknownServer)
      | Some r \<Rightarrow>
          store_commit C fails_after ((to_data st)\<lparr>sd_servers := assoc_put key (f r) (sd_servers (to_data st))\<rparr>) st)"

definition add_server ::
  "store_codec \<Rightarrow> nat option \<Rightarrow> rstring \<Rightarrow> server_record \<Rightarrow> store \<Rightarrow> store \<times> (desktop_store_error + rstring)" where
  "add_server C fails_after fresh record st =
     (case store_commit C fails_after ((to_data st)\<lparr>sd_servers := assoc_put fresh record (sd_servers (to_data st))\<rparr>) st of
        (st1, Inl e) \<Rightarrow> (st1, Err e) | (st1, Inr _) \<Rightarrow> (st1, Ok fresh))"

definition remove_server :: "store_codec \<Rightarrow> nat option \<Rightarrow> rstring \<Rightarrow> store \<Rightarrow> store \<times> (desktop_store_error + unit)" where
  "remove_server C fails_after key st =
     store_commit C fails_after ((to_data st)\<lparr>sd_servers := assoc_del key (sd_servers (to_data st))\<rparr>) st"

definition set_remember_login :: "store_codec \<Rightarrow> nat option \<Rightarrow> rstring \<Rightarrow> bool \<Rightarrow> store \<Rightarrow> store \<times> (desktop_store_error + unit)" where
  "set_remember_login C fails_after key remember = mutate_server C fails_after key (\<lambda>r. r\<lparr>rc_remember_login := remember\<rparr>)"

definition set_grant :: "store_codec \<Rightarrow> nat option \<Rightarrow> rstring \<Rightarrow> bytes \<Rightarrow> store \<Rightarrow> store \<times> (desktop_store_error + unit)" where
  "set_grant C fails_after key grant =
     mutate_server C fails_after key (\<lambda>r. if grant = [] then r else r\<lparr>rc_grant := Some (tc_base64 C grant)\<rparr>)"

definition push_pending_open ::
  "store_codec \<Rightarrow> nat option \<Rightarrow> rstring \<Rightarrow> rstring \<Rightarrow> rstring \<Rightarrow> store \<Rightarrow> store \<times> (desktop_store_error + unit)" where
  "push_pending_open C fails_after key idem name =
     mutate_server C fails_after key
       (\<lambda>r. r\<lparr>rc_pending_opens := rc_pending_opens r @ [\<lparr>po_idempotency_key = idem, po_name = name\<rparr>]\<rparr>)"

definition without_pending :: "rstring \<Rightarrow> server_record \<Rightarrow> server_record" where
  "without_pending idem r = r\<lparr>rc_pending_opens := filter (\<lambda>p. po_idempotency_key p \<noteq> idem) (rc_pending_opens r)\<rparr>"

definition resolve_pending_open ::
  "store_codec \<Rightarrow> nat option \<Rightarrow> rstring \<Rightarrow> rstring \<Rightarrow> rstring \<Rightarrow> bytes \<Rightarrow> int \<Rightarrow> store \<Rightarrow> store \<times> (desktop_store_error + unit)" where
  "resolve_pending_open C fails_after key idem shell_hex token now_ms =
     mutate_server C fails_after key
       (\<lambda>r. let name = (case find (\<lambda>p. po_idempotency_key p = idem) (rc_pending_opens r) of
                          Some p \<Rightarrow> po_name p | None \<Rightarrow> lit ''shell'')
            in (without_pending idem r)\<lparr>rc_shells := assoc_put shell_hex
                 \<lparr>hr_token = tc_base64 C token, hr_idempotency_key = Some idem, hr_name = name, hr_last_attached_at_ms = now_ms\<rparr>
                 (rc_shells r)\<rparr>)"

definition drop_pending_open :: "store_codec \<Rightarrow> nat option \<Rightarrow> rstring \<Rightarrow> rstring \<Rightarrow> store \<Rightarrow> store \<times> (desktop_store_error + unit)" where
  "drop_pending_open C fails_after key idem = mutate_server C fails_after key (without_pending idem)"

definition update_token ::
  "store_codec \<Rightarrow> nat option \<Rightarrow> rstring \<Rightarrow> rstring \<Rightarrow> bytes \<Rightarrow> int \<Rightarrow> store \<Rightarrow> store \<times> (desktop_store_error + unit)" where
  "update_token C fails_after key shell_hex token now_ms =
     mutate_server C fails_after key
       (\<lambda>r. r\<lparr>rc_shells := assoc_upd shell_hex
               (\<lambda>h. h\<lparr>hr_token := tc_base64 C token, hr_last_attached_at_ms := now_ms\<rparr>) (rc_shells r)\<rparr>)"

definition remove_shell :: "store_codec \<Rightarrow> nat option \<Rightarrow> rstring \<Rightarrow> rstring \<Rightarrow> store \<Rightarrow> store \<times> (desktop_store_error + unit)" where
  "remove_shell C fails_after key shell_hex =
     mutate_server C fails_after key (\<lambda>r. r\<lparr>rc_shells := assoc_del shell_hex (rc_shells r)\<rparr>)"

definition rename_shell ::
  "store_codec \<Rightarrow> nat option \<Rightarrow> rstring \<Rightarrow> rstring \<Rightarrow> rstring \<Rightarrow> store \<Rightarrow> store \<times> (desktop_store_error + unit)" where
  "rename_shell C fails_after key shell_hex name =
     mutate_server C fails_after key
       (\<lambda>r. r\<lparr>rc_shells := assoc_upd shell_hex (\<lambda>h. h\<lparr>hr_name := name\<rparr>) (rc_shells r)\<rparr>)"

definition store_server :: "rstring \<Rightarrow> store \<Rightarrow> server_record option" where
  "store_server key st = map_of (sd_servers (to_data st)) key"

definition store_shell :: "rstring \<Rightarrow> rstring \<Rightarrow> store \<Rightarrow> shell_record option" where
  "store_shell key shell_hex st = Option.bind (store_server key st) (\<lambda>r. map_of (rc_shells r) shell_hex)"

text \<open>
  The import of the command-line client's file, into an empty store only: one record per address, under the
  fresh keys given in turn, with its shells and without its grant.
\<close>

definition imported_record :: "client_state \<Rightarrow> rstring \<Rightarrow> server_record" where
  "imported_record v1 url =
     \<lparr>rc_url = url, rc_display_name = url, rc_username = None, rc_ssh_key_path = None, rc_remember_login = False,
      rc_grant = None,
      rc_shells = map (map_prod id (\<lambda>e. \<lparr>hr_token = en_token e, hr_idempotency_key = en_idempotency_key e,
                                          hr_name = en_name e, hr_last_attached_at_ms = 0\<rparr>)) (shells_of url v1),
      rc_pending_opens = []\<rparr>"

definition import_v1 ::
  "store_codec \<Rightarrow> bool \<Rightarrow> nat option \<Rightarrow> rstring list \<Rightarrow> rstring \<Rightarrow> store \<Rightarrow> store \<times> (desktop_store_error + nat)" where
  "import_v1 C readable fails_after fresh v1_path st =
     (case read_bounded readable v1_path (to_disk st) of
        Inl e \<Rightarrow> (st, Err e)
      | Inr None \<Rightarrow> (st, Ok 0)
      | Inr (Some bs) \<Rightarrow>
          (case tc_parse_v1 C bs of
             None \<Rightarrow> (st, Ok 0)
           | Some v1 \<Rightarrow>
               if sd_servers (to_data st) \<noteq> [] then (st, Ok 0)
               else
                 (let urls = remdups (keys (cs_servers v1) @ keys (cs_grants v1));
                      records = foldl (\<lambda>servers (key, url). assoc_put key (imported_record v1 url) servers) [] (zip fresh urls)
                  in
                  if urls = [] then (st, Ok 0)
                  else
                    (case store_commit C fails_after ((to_data st)\<lparr>sd_servers := records\<rparr>) st of
                       (st1, Inl e) \<Rightarrow> (st1, Err e) | (st1, Inr _) \<Rightarrow> (st1, Ok (length urls))))))"

section \<open>Runs\<close>

text \<open>
  What can happen to the store: its operations, each with the point where its save fails, a restart of the client,
  and changes to the other files of the directory, torn temporary files included.
\<close>

datatype store_ev =
    EvAddServer "nat option" rstring server_record
  | EvRemoveServer "nat option" rstring
  | EvSetRemember "nat option" rstring bool
  | EvSetGrant "nat option" rstring bytes
  | EvPushPending "nat option" rstring rstring rstring
  | EvResolvePending "nat option" rstring rstring rstring bytes int
  | EvDropPending "nat option" rstring rstring
  | EvUpdateToken "nat option" rstring rstring bytes int
  | EvRemoveShell "nat option" rstring rstring
  | EvRenameShell "nat option" rstring rstring rstring
  | EvImport bool "nat option" "rstring list" rstring
  | EvRestart bool "nat option"
  | EvOtherFiles disk

fun store_step :: "store_codec \<Rightarrow> store \<Rightarrow> store_ev \<Rightarrow> store" where
  "store_step C st (EvAddServer f key r) = fst (add_server C f key r st)"
| "store_step C st (EvRemoveServer f key) = fst (remove_server C f key st)"
| "store_step C st (EvSetRemember f key b) = fst (set_remember_login C f key b st)"
| "store_step C st (EvSetGrant f key g) = fst (set_grant C f key g st)"
| "store_step C st (EvPushPending f key i n) = fst (push_pending_open C f key i n st)"
| "store_step C st (EvResolvePending f key i sh token now) = fst (resolve_pending_open C f key i sh token now st)"
| "store_step C st (EvDropPending f key i) = fst (drop_pending_open C f key i st)"
| "store_step C st (EvUpdateToken f key sh token now) = fst (update_token C f key sh token now st)"
| "store_step C st (EvRemoveShell f key sh) = fst (remove_shell C f key sh st)"
| "store_step C st (EvRenameShell f key sh n) = fst (rename_shell C f key sh n st)"
| "store_step C st (EvImport readable f fresh path) = fst (import_v1 C readable f fresh path st)"
| "store_step C st (EvRestart readable f) =
     (case store_load C readable f (to_disk st) of (d, Inl _) \<Rightarrow> st\<lparr>to_disk := d\<rparr> | (_, Inr (st1, _)) \<Rightarrow> st1)"
| "store_step C st (EvOtherFiles d) =
     st\<lparr>to_disk := (case map_of (to_disk st) DESKTOP_FILE of
          None \<Rightarrow> assoc_del DESKTOP_FILE d | Some bs \<Rightarrow> assoc_put DESKTOP_FILE bs d)\<rparr>"

definition store_faithful :: "store_codec \<Rightarrow> bool" where
  "store_faithful C \<longleftrightarrow> (\<forall>data. tc_parse C (tc_print C data) = Some data)"

text \<open>The disk holds what memory holds, less the grants there is no consent for.\<close>

fun disk_agrees :: "store_codec \<Rightarrow> store_data \<Rightarrow> bytes option \<Rightarrow> bool" where
  "disk_agrees C data None \<longleftrightarrow> data = store_data_default"
| "disk_agrees C data (Some bs) \<longleftrightarrow> length bs \<le> MAX_STATE_BYTES \<and> tc_parse C bs = Some (persisted data)"

definition store_inv :: "store_codec \<Rightarrow> store \<Rightarrow> bool" where
  "store_inv C st \<longleftrightarrow> sd_version (to_data st) = STORE_VERSION
     \<and> disk_agrees C (to_data st) (map_of (to_disk st) DESKTOP_FILE)"

lemma desktop_distinct [simp]: "DESKTOP_TMP \<noteq> DESKTOP_FILE" "DESKTOP_FILE \<noteq> DESKTOP_TMP"
  by (simp_all add: DESKTOP_TMP_def DESKTOP_FILE_def lit_def)

lemma forget_grant_idem [simp]: "forget_grant (forget_grant r) = forget_grant r"
  by (simp add: forget_grant_def)

lemma persisted_idem [simp]: "persisted (persisted data) = persisted data"
  by (simp add: persisted_def comp_def map_prod_def case_prod_unfold)

lemma persisted_version [simp]: "sd_version (persisted data) = sd_version data"
  by (simp add: persisted_def)

lemma persisted_default: "persisted store_data_default = store_data_default"
  by (simp add: persisted_def store_data_default_def)

lemma save_inv:
  assumes "store_faithful C" and "store_inv C st" and "sd_version next_data = STORE_VERSION"
    and "store_save C f next_data (to_disk st) = (d, r)"
  shows "store_inv C \<lparr>to_data = (case r of Inl _ \<Rightarrow> to_data st | Inr _ \<Rightarrow> next_data), to_disk = d\<rparr>"
proof (cases "length (tc_print C (persisted next_data)) > MAX_STATE_BYTES")
  case True
  then show ?thesis using assms by (auto simp: store_save_def store_inv_def Let_def)
next
  case False
  show ?thesis
  proof (cases f)
    case None
    then have "d = apply_ops (replace_ops DESKTOP_TMP DESKTOP_FILE (tc_print C (persisted next_data))) (to_disk st)" "r = Ok ()"
      using assms(4) False by (auto simp: store_save_def Let_def)
    then show ?thesis using assms(1,3) False replaced_file [OF desktop_distinct(1)]
      by (simp add: store_inv_def store_faithful_def)
  next
    case (Some n)
    then have "map_of d DESKTOP_FILE = map_of (to_disk st) DESKTOP_FILE" "r = Err SrIo"
      using assms(4) False unreplaced_file [OF desktop_distinct(1)] by (auto simp: store_save_def Let_def)
    then show ?thesis using assms(2) by (simp add: store_inv_def)
  qed
qed

lemma commit_inv:
  assumes "store_faithful C" and "store_inv C st" and "sd_version next_data = STORE_VERSION"
  shows "store_inv C (fst (store_commit C f next_data st))"
  using save_inv [OF assms, of f] by (cases "store_save C f next_data (to_disk st)") (fastforce simp: store_commit_def store_inv_def split: sum.splits)

lemma mutate_inv:
  assumes "store_faithful C" and "store_inv C st"
  shows "store_inv C (fst (mutate_server C f key g st))"
  using assms(2) commit_inv [OF assms]
  by (auto simp: mutate_server_def store_inv_def split: option.splits)

text \<open>Loading a file that a store wrote, or none.\<close>

lemma load_inv:
  assumes "store_inv C st"
  shows "store_load C True f (to_disk st)
    = (to_disk st, Ok (\<lparr>to_data = persisted (to_data st), to_disk = to_disk st\<rparr>, False))"
  using assms
  by (auto simp: store_inv_def store_load_def read_bounded_def Let_def adopt_record_def persisted_def store_data_default_def
      comp_def map_prod_def case_prod_unfold split: option.splits)

lemma restart_inv:
  assumes "store_inv C st"
  shows "store_inv C (store_step C st (EvRestart readable f))"
proof (cases readable)
  case True
  have "disk_agrees C (persisted (to_data st)) (map_of (to_disk st) DESKTOP_FILE)"
    using assms persisted_default by (cases "map_of (to_disk st) DESKTOP_FILE") (auto simp: store_inv_def)
  then show ?thesis using True load_inv [OF assms, of f] assms by (simp add: store_inv_def)
next
  case False
  then show ?thesis using assms by (auto simp: store_load_def read_bounded_def store_inv_def split: option.split)
qed

lemma import_inv:
  assumes "store_faithful C" and "store_inv C st"
  shows "store_inv C (fst (import_v1 C readable f fresh path st))"
proof -
  have c: "store_inv C (fst (store_commit C f ((to_data st)\<lparr>sd_servers := records\<rparr>) st))" for records
    using assms(2) by (intro commit_inv [OF assms]) (simp add: store_inv_def)
  show ?thesis using assms(2) c
    by (auto simp: import_v1_def Let_def split: sum.split option.split prod.split) (metis fst_conv)+
qed

lemma add_inv:
  assumes "store_faithful C" and "store_inv C st"
  shows "store_inv C (fst (add_server C f key r st))"
  using commit_inv [OF assms, of "(to_data st)\<lparr>sd_servers := assoc_put key r (sd_servers (to_data st))\<rparr>" f] assms(2)
  by (auto simp: add_server_def store_inv_def split: prod.split sum.split)

interpretation desktop: invariant_machine "store_step C" "\<lambda>st. store_faithful C \<and> store_inv C st" for C
proof unfold_locales
  fix st ev
  assume a: "store_faithful C \<and> store_inv C st"
  have "store_inv C (store_step C st ev)"
  proof (cases ev)
    case (EvRemoveServer f key)
    then show ?thesis using a commit_inv [of C st] by (simp add: remove_server_def store_inv_def)
  next
    case (EvOtherFiles d)
    then show ?thesis using a by (cases "map_of (to_disk st) DESKTOP_FILE") (auto simp: store_inv_def)
  qed (use a in \<open>auto simp del: store_step.simps(12) simp: restart_inv import_inv add_inv mutate_inv set_remember_login_def
        set_grant_def push_pending_open_def resolve_pending_open_def drop_pending_open_def update_token_def remove_shell_def
        rename_shell_def\<close>)
  then show "store_faithful C \<and> store_inv C (store_step C st ev)" using a by simp
qed

text \<open>A file to start with: one an older version wrote, or one without a grant there is no consent for.\<close>

definition disk_clean :: "store_codec \<Rightarrow> disk \<Rightarrow> bool" where
  "disk_clean C d =
     (case Option.bind (map_of d DESKTOP_FILE) (tc_parse C) of
        None \<Rightarrow> True | Some data \<Rightarrow> sd_version data < STORE_VERSION \<or> persisted data = data)"

lemma start_inv:
  assumes "store_faithful C" and "disk_clean C d0" and "store_load C readable f d0 = (d, Ok (st, w))"
  shows "store_inv C st"
proof (cases "map_of d0 DESKTOP_FILE")
  case None
  then show ?thesis using assms(3)
    by (auto simp: store_load_def read_bounded_def store_inv_def store_data_default_def split: if_splits)
next
  case (Some bs)
  obtain data where p: "tc_parse C bs = Some data" "length bs \<le> MAX_STATE_BYTES" "sd_version data \<le> STORE_VERSION"
    using assms(3) Some by (auto simp: store_load_def read_bounded_def split: if_splits option.splits)
  let ?m = "sd_version data < STORE_VERSION"
  let ?data = "\<lparr>sd_version = STORE_VERSION, sd_servers = map (map_prod id (adopt_record ?m)) (sd_servers data)\<rparr>"
  have l: "store_load C readable f d0 = (if ?m then (case store_save C f ?data d0 of
        (d1, Inl e) \<Rightarrow> (d1, Err e) | (d1, Inr _) \<Rightarrow> (d1, Ok (\<lparr>to_data = ?data, to_disk = d1\<rparr>, True)))
      else (d0, Ok (\<lparr>to_data = ?data, to_disk = d0\<rparr>, False)))"
    using assms(3) Some p by (auto simp: store_load_def read_bounded_def Let_def split: if_splits)
  show ?thesis
  proof (cases ?m)
    case True
    then obtain d1 u where "store_save C f ?data d0 = (d1, Inr u)" and st: "st = \<lparr>to_data = ?data, to_disk = d1\<rparr>"
      using assms(3) l by (auto split: prod.splits sum.splits)
    then have "d1 = apply_ops (replace_ops DESKTOP_TMP DESKTOP_FILE (tc_print C (persisted ?data))) d0"
      "length (tc_print C (persisted ?data)) \<le> MAX_STATE_BYTES"
      by (auto simp: store_save_def Let_def split: if_splits option.splits)
    then show ?thesis using st assms(1) replaced_file [OF desktop_distinct(1)] by (simp add: store_inv_def store_faithful_def)
  next
    case False
    then have v: "sd_version data = STORE_VERSION" using p by simp
    have "adopt_record False = forget_grant" by (simp add: fun_eq_iff adopt_record_def)
    moreover have "map (map_prod id forget_grant) (sd_servers data) = sd_servers data"
      using assms(2) Some p v by (cases data) (simp add: disk_clean_def persisted_def)
    ultimately have "?data = data" using v by (cases data) simp
    then show ?thesis using False l assms(2,3) Some p by (simp add: store_inv_def disk_clean_def)
  qed
qed


text \<open>A printer and parser for all store contents; as for the command-line client, in unary.\<close>

definition record_fields ::
  "server_record \<Rightarrow> (rstring \<times> rstring) \<times> (rstring option \<times> rstring option) \<times> (bool \<times> rstring option)
     \<times> (rstring \<times> rstring \<times> rstring option \<times> rstring \<times> int) list \<times> (rstring \<times> rstring) list" where
  "record_fields r = ((rc_url r, rc_display_name r), (rc_username r, rc_ssh_key_path r), (rc_remember_login r, rc_grant r),
     map (\<lambda>(k, h). (k, hr_token h, hr_idempotency_key h, hr_name h, hr_last_attached_at_ms h)) (rc_shells r),
     map (\<lambda>p. (po_idempotency_key p, po_name p)) (rc_pending_opens r))"

definition fields_record ::
  "(rstring \<times> rstring) \<times> (rstring option \<times> rstring option) \<times> (bool \<times> rstring option)
     \<times> (rstring \<times> rstring \<times> rstring option \<times> rstring \<times> int) list \<times> (rstring \<times> rstring) list \<Rightarrow> server_record" where
  "fields_record = (\<lambda>((u, n), (user, path), (remember, grant), shells, pending).
     \<lparr>rc_url = u, rc_display_name = n, rc_username = user, rc_ssh_key_path = path, rc_remember_login = remember, rc_grant = grant,
      rc_shells = map (\<lambda>(k, t, i, m, a). (k, \<lparr>hr_token = t, hr_idempotency_key = i, hr_name = m, hr_last_attached_at_ms = a\<rparr>)) shells,
      rc_pending_opens = map (\<lambda>(i, m). \<lparr>po_idempotency_key = i, po_name = m\<rparr>) pending\<rparr>)"

lemma fields_record_inverse: "fields_record (record_fields r) = r"
proof -
  have "map (\<lambda>(k, t, i, m, a). (k, \<lparr>hr_token = t, hr_idempotency_key = i, hr_name = m, hr_last_attached_at_ms = a\<rparr>))
      (map (\<lambda>(k, h). (k, hr_token h, hr_idempotency_key h, hr_name h, hr_last_attached_at_ms h)) xs) = xs" for xs :: "(rstring \<times> shell_record) list"
    by (induction xs) auto
  moreover have "map (\<lambda>(i, m). \<lparr>po_idempotency_key = i, po_name = m\<rparr>) (map (\<lambda>p. (po_idempotency_key p, po_name p)) ps) = ps" for ps
    by (induction ps) auto
  ultimately show ?thesis by (simp add: fields_record_def record_fields_def)
qed

definition unary_store_codec :: store_codec where
  "unary_store_codec = \<lparr>
     tc_print = (\<lambda>data. replicate (to_nat (sd_version data, map (map_prod id record_fields) (sd_servers data))) 0),
     tc_parse = (\<lambda>bs. case from_nat (length bs) of (v, ss) \<Rightarrow>
       Some \<lparr>sd_version = v, sd_servers = map (map_prod id fields_record) ss\<rparr>),
     tc_parse_v1 = (\<lambda>_. None), tc_base64 = map unat, tc_unbase64 = (\<lambda>s. Some (map of_nat s))\<rparr>"

lemma unary_store_faithful: "store_faithful unary_store_codec"
proof -
  have "map_prod id fields_record (map_prod id record_fields x) = x" for x :: "rstring \<times> server_record"
    by (cases x) (simp add: fields_record_inverse)
  then show ?thesis by (simp add: store_faithful_def unary_store_codec_def comp_def)
qed

definition demo_store :: store where
  "demo_store = \<lparr>to_data = store_data_default, to_disk = []\<rparr>"

definition desktop_demo_server :: server_record where
  "desktop_demo_server = \<lparr>rc_url = lit ''u'', rc_display_name = lit ''u'', rc_username = None, rc_ssh_key_path = None,
     rc_remember_login = False, rc_grant = None, rc_shells = [], rc_pending_opens = []\<rparr>"

definition demo_store_events :: "store_ev list" where
  "demo_store_events = [EvAddServer None (lit ''k'') desktop_demo_server, EvSetGrant None (lit ''k'') [7],
     EvPushPending (Some 1) (lit ''k'') (lit ''00'') []]"


end
