(* ===== verification/Core_Control.thy ===== *)
theory Core_Control
  imports Core_Store "HOL-Library.Multiset"
begin

text \<open>
  The desktop client's tasks around one connection (\<open>crates/client-core/src/server.rs\<close> and \<open>shell.rs\<close>): the
  actor that owns the control channel and pairs requests with replies, and the two pumps of an
  attached shell. A oneshot reply is a slot; what was sent to it is in the log of replies.
\<close>

section \<open>The control actor\<close>

definition MAX_INFLIGHT_CONTROL :: nat where "MAX_INFLIGHT_CONTROL = 32"
definition MAX_MISSED_PONGS :: nat where "MAX_MISSED_PONGS = 3"

record control_actor =
  ca_pending :: "(nat \<times> nat) list"
  ca_outstanding :: nat
  ca_nonce :: nat
  ca_replies :: "(nat \<times> (client_error + envelope)) list"
  ca_sent :: "envelope list"
  ca_done :: bool

text \<open>What wakes the actor: a request with its slot, or the end of its callers; a frame or the end of the stream; the ticker. A flag says that a send succeeds.\<close>

datatype control_in =
    CiRequest nat envelope bool
  | CiCallersGone
  | CiFrame envelope bool
  | CiStreamEnded
  | CiTick bool

definition control_new :: control_actor where
  "control_new = \<lparr>ca_pending = [], ca_outstanding = 0, ca_nonce = 0, ca_replies = [], ca_sent = [], ca_done = False\<rparr>"

definition control_closed :: client_error where "control_closed = CeText (lit ''control channel closed'')"

text \<open>Dropping the senders that wait fails their requests.\<close>

definition control_end :: "control_actor \<Rightarrow> control_actor" where
  "control_end s = s\<lparr>ca_done := True, ca_pending := [],
     ca_replies := ca_replies s @ map (\<lambda>(i, slot). (slot, Err control_closed)) (ca_pending s)\<rparr>"

definition control_reply :: "nat \<Rightarrow> client_error + envelope \<Rightarrow> control_actor \<Rightarrow> control_actor" where
  "control_reply slot r s = s\<lparr>ca_replies := ca_replies s @ [(slot, r)]\<rparr>"

definition control_send :: "envelope \<Rightarrow> control_actor \<Rightarrow> control_actor" where
  "control_send env s = s\<lparr>ca_sent := ca_sent s @ [env]\<rparr>"

fun control_request :: "nat \<Rightarrow> envelope \<Rightarrow> bool \<Rightarrow> control_actor \<Rightarrow> control_actor" where
  "control_request slot env sent s =
     (if length (ca_pending s) \<ge> MAX_INFLIGHT_CONTROL then
        control_reply slot (Err (CeText (lit ''too many in-flight control requests''))) s
      else if \<not> sent then control_end (control_reply slot (Err CeTransport) s)
      else
        (let s1 = control_send env s; i = ev_request_id env;
             s2 = (case map_of (ca_pending s) i of None \<Rightarrow> s1 | Some old \<Rightarrow> control_reply old (Err control_closed) s1)
         in s2\<lparr>ca_pending := assoc_del i (ca_pending s) @ [(i, slot)]\<rparr>))"

definition control_answer :: "envelope \<Rightarrow> control_actor \<Rightarrow> control_actor" where
  "control_answer env s =
     (case map_of (ca_pending s) (ev_request_id env) of
        None \<Rightarrow> s
      | Some slot \<Rightarrow> (control_reply slot (Ok env) s)\<lparr>ca_pending := assoc_del (ev_request_id env) (ca_pending s)\<rparr>)"

fun control_frame :: "envelope \<Rightarrow> bool \<Rightarrow> control_actor \<Rightarrow> control_actor" where
  "control_frame env sent s =
     (case ev_message env of
        Some (MPing nonce) \<Rightarrow> if sent then control_send (plain (MPong nonce)) s else control_end s
      | Some (MPong _) \<Rightarrow> s\<lparr>ca_outstanding := 0\<rparr>
      | _ \<Rightarrow> control_answer env s)"

fun control_tick :: "bool \<Rightarrow> control_actor \<Rightarrow> control_actor" where
  "control_tick sent s =
     (if ca_outstanding s \<ge> MAX_MISSED_PONGS then control_end s
      else
        (let s1 = s\<lparr>ca_nonce := ca_nonce s + 1, ca_outstanding := ca_outstanding s + 1\<rparr>
         in if sent then control_send (plain (MPing (ca_nonce s1))) s1 else control_end s1))"

text \<open>A request to an actor that has ended fails when its queue is dropped.\<close>

definition control_turn :: "control_actor \<Rightarrow> control_in \<Rightarrow> control_actor" where
  "control_turn s i =
     (if ca_done s then (case i of CiRequest slot env sent \<Rightarrow> control_reply slot (Err control_closed) s | _ \<Rightarrow> s)
      else
        (case i of
           CiRequest slot env sent \<Rightarrow> control_request slot env sent s
         | CiCallersGone \<Rightarrow> control_end s
         | CiFrame env sent \<Rightarrow> control_frame env sent s
         | CiStreamEnded \<Rightarrow> control_end s
         | CiTick sent \<Rightarrow> control_tick sent s))"

section \<open>Requests\<close>

text \<open>How a caller reads the reply to each of the three requests.\<close>

definition list_shells_reply :: "envelope \<Rightarrow> client_error + pb_shell_info list" where
  "list_shells_reply env =
     (case ev_message env of
        Some (MShellList shells) \<Rightarrow> Ok shells
      | Some (MError _ txt _) \<Rightarrow> Err (CeText (lit ''list failed: '' @ txt))
      | _ \<Rightarrow> Err (CeText (lit ''unexpected reply to ListShells'')))"

definition open_shell_reply :: "envelope \<Rightarrow> client_error + bytes \<times> bytes" where
  "open_shell_reply env =
     (case ev_message env of
        Some (MShellOpened token _) \<Rightarrow> Ok (ev_shell_id env, token)
      | Some (MError _ txt _) \<Rightarrow> Err (CeText (lit ''open failed: '' @ txt))
      | _ \<Rightarrow> Err (CeText (lit ''unexpected reply to OpenShell'')))"

definition terminate_reply :: "envelope \<Rightarrow> client_error + int" where
  "terminate_reply env =
     (case ev_message env of
        Some (MShellExited code _ _) \<Rightarrow> Ok code
      | Some (MError _ txt _) \<Rightarrow> Err (CeText (lit ''terminate failed: '' @ txt))
      | _ \<Rightarrow> Err (CeText (lit ''unexpected reply to TerminateShell'')))"

section \<open>The pumps of an attachment\<close>

definition MAX_PENDING_HISTORY :: nat where "MAX_PENDING_HISTORY = 4"

datatype writer_cmd = WrInput bytes | WrResize nat nat | WrHistory nat nat nat | WrDetach

record history_page =
  hp_lines :: "rstring list"
  hp_first_line_id :: nat
  hp_truncated_by_eviction :: bool

datatype shell_state_event = ShAttached | ShDetached | ShOrphaned | ShExited

record pumps =
  pm_writing :: bool
  pm_reading :: bool
  pm_history :: "nat list"
  pm_pongs :: "nat list"
  pm_replies :: "(nat \<times> (client_error + history_page)) list"
  pm_sent :: "envelope list"
  pm_output :: "bytes list"
  pm_events :: "(shell_state_event \<times> int option) list"
  pm_store :: store

definition pump_send :: "envelope \<Rightarrow> bool \<Rightarrow> pumps \<Rightarrow> pumps" where
  "pump_send env sent p = (if sent then p\<lparr>pm_sent := pm_sent p @ [env]\<rparr> else p\<lparr>pm_writing := False\<rparr>)"

fun writer_turn :: "writer_cmd \<Rightarrow> bool \<Rightarrow> pumps \<Rightarrow> pumps" where
  "writer_turn (WrInput bs) sent p = pump_send (plain (MTerminalInput bs)) sent p"
| "writer_turn (WrResize cols rows) sent p = pump_send (plain (MTerminalResize cols rows)) sent p"
| "writer_turn (WrHistory before_line_id max_lines slot) sent p =
     (if length (pm_history p) \<ge> MAX_PENDING_HISTORY then
        p\<lparr>pm_replies := pm_replies p @ [(slot, Err (CeText (lit ''too many pending history requests'')))]\<rparr>
      else
        pump_send (plain (MRequestHistory before_line_id max_lines (128 * 1024))) sent
          (p\<lparr>pm_history := pm_history p @ [slot]\<rparr>))"
| "writer_turn WrDetach sent p =
     (pump_send (plain MDetachShell) sent p)\<lparr>pm_writing := False\<rparr>"

definition answer_history :: "history_page \<Rightarrow> pumps \<Rightarrow> pumps" where
  "answer_history page p =
     (case pm_history p of
        [] \<Rightarrow> p
      | slot # rest \<Rightarrow> p\<lparr>pm_history := rest, pm_replies := pm_replies p @ [(slot, Ok page)]\<rparr>)"

text \<open>The reader; \<open>open_ends\<close> says that the output sink, or the queue of pongs, still has its other end.\<close>

definition reader_turn :: "store_codec \<Rightarrow> nat option \<Rightarrow> rstring \<Rightarrow> rstring \<Rightarrow> envelope option \<Rightarrow> bool \<Rightarrow> pumps \<Rightarrow> pumps" where
  "reader_turn C f server_key shell_hex env open_ends p =
     (case env of
        None \<Rightarrow> p\<lparr>pm_reading := False, pm_events := pm_events p @ [(ShDetached, None)]\<rparr>
      | Some e \<Rightarrow>
          (case ev_message e of
             Some (MTerminalOutput data) \<Rightarrow>
               if open_ends then p\<lparr>pm_output := pm_output p @ [data]\<rparr> else p\<lparr>pm_reading := False\<rparr>
           | Some (MPing nonce) \<Rightarrow>
               if open_ends then p\<lparr>pm_pongs := pm_pongs p @ [nonce]\<rparr> else p\<lparr>pm_reading := False\<rparr>
           | Some (MHistoryChunk first lines truncated) \<Rightarrow>
               answer_history \<lparr>hp_lines = lines, hp_first_line_id = first, hp_truncated_by_eviction = truncated\<rparr> p
           | Some (MHistoryEnd _) \<Rightarrow>
               answer_history \<lparr>hp_lines = [], hp_first_line_id = 0, hp_truncated_by_eviction = False\<rparr> p
           | Some (MShellExited code _ _) \<Rightarrow>
               p\<lparr>pm_reading := False, pm_store := fst (remove_shell C f server_key shell_hex (pm_store p)),
                 pm_events := pm_events p @ [(ShExited, Some code)]\<rparr>
           | Some (MError code _ _) \<Rightarrow>
               if code = ErrTooSlow then p\<lparr>pm_reading := False, pm_events := pm_events p @ [(ShDetached, None)]\<rparr> else p
           | _ \<Rightarrow> p))"

text \<open>The writer's other arm answers a ping the reader passed on.\<close>

definition pong_turn :: "bool \<Rightarrow> pumps \<Rightarrow> pumps" where
  "pong_turn sent p =
     (case pm_pongs p of
        [] \<Rightarrow> p
      | nonce # rest \<Rightarrow> pump_send (plain (MPong nonce)) sent (p\<lparr>pm_pongs := rest\<rparr>))"

text \<open>
  The daemon answers one history request with a chunk and an end, and the reader takes a waiting request off the
  queue for each of them: of two requests in flight the second is answered with an empty page.
\<close>

lemma history_replies_skewed:
  assumes "pm_history p = [a, b]"
    and "ev_message e1 = Some (MHistoryChunk first lines truncated)" and "ev_message e2 = Some (MHistoryEnd oldest)"
  shows "pm_replies (reader_turn C f k sh (Some e2) x (reader_turn C f k sh (Some e1) y p))
    = pm_replies p @ [(a, Ok \<lparr>hp_lines = lines, hp_first_line_id = first, hp_truncated_by_eviction = truncated\<rparr>),
                      (b, Ok \<lparr>hp_lines = [], hp_first_line_id = 0, hp_truncated_by_eviction = False\<rparr>)]"
  using assms by (simp add: reader_turn_def answer_history_def)

section \<open>Every request is answered once\<close>

fun slots_of :: "control_in \<Rightarrow> nat list" where
  "slots_of (CiRequest slot env sent) = [slot]"
| "slots_of _ = []"

definition asked :: "control_in list \<Rightarrow> nat \<Rightarrow> nat \<Rightarrow> bool" where
  "asked evs slot i \<longleftrightarrow> (\<exists>env sent. CiRequest slot env sent \<in> set evs \<and> ev_request_id env = i)"

definition silence_step :: "nat \<Rightarrow> control_in \<Rightarrow> nat" where
  "silence_step n i =
     (case i of
        CiTick _ \<Rightarrow> n + 1
      | CiFrame env _ \<Rightarrow> (case ev_message env of Some (MPong _) \<Rightarrow> 0 | _ \<Rightarrow> n)
      | _ \<Rightarrow> n)"

text \<open>How often the ticker fired since the last pong.\<close>

definition silence :: "control_in list \<Rightarrow> nat" where
  "silence evs = foldl silence_step 0 evs"

definition answered_right :: "control_in list \<Rightarrow> nat \<times> (client_error + envelope) \<Rightarrow> bool" where
  "answered_right evs x = (case snd x of Inl _ \<Rightarrow> True | Inr env \<Rightarrow> asked evs (fst x) (ev_request_id env))"

definition control_inv :: "control_in list \<Rightarrow> control_actor \<Rightarrow> bool" where
  "control_inv evs s \<longleftrightarrow>
     mset (map fst (ca_replies s)) + mset (map snd (ca_pending s)) = mset (concat (map slots_of evs))
     \<and> distinct (keys (ca_pending s)) \<and> length (ca_pending s) \<le> MAX_INFLIGHT_CONTROL
     \<and> list_all (answered_right evs) (ca_replies s)
     \<and> list_all (\<lambda>(i, slot). asked evs slot i) (ca_pending s)
     \<and> (if ca_done s then ca_pending s = [] else ca_outstanding s = silence evs \<and> silence evs \<le> MAX_MISSED_PONGS)"

lemma mset_take_key:
  assumes "distinct (keys xs)" and "map_of xs k = Some v"
  shows "mset (map snd xs) = add_mset v (mset (map snd (assoc_del k xs)))"
  using assms
proof (induction xs)
  case (Cons x xs)
  have "assoc_del k xs = xs" if "k \<notin> set (keys xs)"
    using that by (induction xs) (auto simp: assoc_del_def keys_def)
  then show ?case using Cons by (cases "fst x = k") (auto simp: assoc_del_def case_prod_unfold)
qed simp

lemma assoc_del_absent: "map_of xs k = None \<Longrightarrow> assoc_del k xs = xs"
  by (induction xs) (auto simp: assoc_del_def split: if_splits)

lemma asked_mono: "asked evs slot i \<Longrightarrow> asked (evs @ [x]) slot i"
  by (auto simp: asked_def)

lemma answered_mono: "list_all (answered_right evs) rs \<Longrightarrow> list_all (answered_right (evs @ [x])) rs"
  by (auto simp: list_all_iff answered_right_def asked_mono split: sum.splits)

lemma pending_mono: "list_all (\<lambda>(i, slot). asked evs slot i) ps \<Longrightarrow> list_all (\<lambda>(i, slot). asked (evs @ [x]) slot i) ps"
  by (auto simp: list_all_iff asked_mono)

lemma pending_del: "list_all P ps \<Longrightarrow> list_all P (assoc_del k ps)"
  using set_assoc_del [of k ps] by (auto simp: list_all_iff)

text \<open>Ending the actor answers whatever still waits.\<close>

definition control_counts :: "control_in list \<Rightarrow> control_actor \<Rightarrow> bool" where
  "control_counts evs s \<longleftrightarrow>
     mset (map fst (ca_replies s)) + mset (map snd (ca_pending s)) = mset (concat (map slots_of evs))
     \<and> list_all (answered_right evs) (ca_replies s)"

lemma end_inv: "control_counts evs s \<Longrightarrow> control_inv evs (control_end s)"
  by (auto simp: control_counts_def control_inv_def control_end_def comp_def case_prod_unfold answered_right_def list_all_iff)

lemma inv_counts: "control_inv evs s \<Longrightarrow> slots_of x = [] \<Longrightarrow> control_counts (evs @ [x]) s"
  by (simp add: control_inv_def control_counts_def answered_mono)

lemmas control_unfold = control_inv_def control_reply_def control_send_def

lemma silence_snoc: "silence (evs @ [x]) = silence_step (silence evs) x"
  by (simp add: silence_def)

lemma request_inv:
  assumes "control_inv evs s" and "\<not> ca_done s"
  shows "control_inv (evs @ [CiRequest slot env sent]) (control_request slot env sent s)"
proof -
  let ?x = "CiRequest slot env sent" and ?i = "ev_request_id env"
  have new: "asked (evs @ [?x]) slot ?i" by (auto simp: asked_def)
  have quiet: "silence (evs @ [?x]) = silence evs" by (simp add: silence_snoc silence_step_def)
  note mono = answered_mono [of evs "ca_replies s" ?x] pending_mono [of evs "ca_pending s" ?x]
  consider "length (ca_pending s) \<ge> MAX_INFLIGHT_CONTROL" | "length (ca_pending s) < MAX_INFLIGHT_CONTROL" "\<not> sent"
    | "length (ca_pending s) < MAX_INFLIGHT_CONTROL" "sent" by linarith
  then show ?thesis
  proof cases
    case 1
    then show ?thesis using assms mono quiet by (auto simp: control_unfold answered_right_def)
  next
    case 2
    have "control_counts (evs @ [?x]) (control_reply slot (Err CeTransport) s)"
      using assms mono by (auto simp: control_unfold control_counts_def answered_right_def)
    then show ?thesis using 2 end_inv by simp
  next
    case 3
    have "length (assoc_del ?i (ca_pending s)) < MAX_INFLIGHT_CONTROL" using 3 length_assoc_del [of ?i "ca_pending s"] by simp
    moreover have "?i \<notin> set (keys (assoc_del ?i (ca_pending s)))" by (simp add: set_keys_del)
    moreover have "mset (map fst (ca_replies s)) + mset (map snd (ca_pending s)) = mset (concat (map slots_of evs))"
      using assms(1) by (simp add: control_inv_def)
    ultimately show ?thesis
      using assms mono quiet new 3 pending_del [of _ "ca_pending s" ?i] mset_take_key [of "ca_pending s" ?i]
      by (cases "map_of (ca_pending s) ?i") (auto simp: control_unfold answered_right_def Let_def assoc_del_absent)
  qed
qed

lemma frame_other:
  "(\<exists>nonce. ev_message env = Some (MPing nonce)) \<or> (\<exists>nonce. ev_message env = Some (MPong nonce))
   \<or> control_frame env sent s = control_answer env s \<and> silence_step n (CiFrame env sent) = n"
proof (cases "ev_message env")
  case (Some m)
  then show ?thesis by (cases m) (simp_all add: silence_step_def)
qed (simp add: silence_step_def)

lemma frame_inv:
  assumes "control_inv evs s" and "\<not> ca_done s"
  shows "control_inv (evs @ [CiFrame env sent]) (control_frame env sent s)"
proof -
  let ?x = "CiFrame env sent" and ?i = "ev_request_id env"
  note mono = answered_mono [of evs "ca_replies s" ?x] pending_mono [of evs "ca_pending s" ?x]
  consider (ping) nonce where "ev_message env = Some (MPing nonce)" | (pong) nonce where "ev_message env = Some (MPong nonce)"
    | (other) "control_frame env sent s = control_answer env s" "silence (evs @ [?x]) = silence evs"
    using frame_other [of env sent s "silence evs"] by (auto simp: silence_snoc)
  then show ?thesis
  proof cases
    case ping
    then show ?thesis using assms mono end_inv [OF inv_counts [OF assms(1), of ?x]]
      by (auto simp: control_unfold silence_snoc silence_step_def)
  next
    case pong
    then show ?thesis using assms mono by (auto simp: control_unfold silence_snoc silence_step_def)
  next
    case other
    show ?thesis
    proof (cases "map_of (ca_pending s) ?i")
      case None
      then show ?thesis using other assms mono by (auto simp: control_unfold control_answer_def)
    next
      case (Some slot)
      have "asked evs slot ?i" using assms(1) map_of_SomeD [OF Some] by (auto simp: control_inv_def list_all_iff)
      then have "answered_right (evs @ [?x]) (slot, Ok env)" by (simp add: answered_right_def asked_mono)
      then show ?thesis
        using other Some assms mono pending_del [of _ "ca_pending s" ?i] mset_take_key [OF _ Some] length_assoc_del [of ?i "ca_pending s"]
        by (auto simp: control_unfold control_answer_def)
    qed
  qed
qed

lemma tick_inv:
  assumes "control_inv evs s" and "\<not> ca_done s"
  shows "control_inv (evs @ [CiTick sent]) (control_tick sent s)"
proof -
  let ?x = "CiTick sent"
  note mono = answered_mono [of evs "ca_replies s" ?x] pending_mono [of evs "ca_pending s" ?x]
  have c: "control_counts (evs @ [?x]) (s\<lparr>ca_nonce := n, ca_outstanding := m\<rparr>)" for n m
    using inv_counts [OF assms(1), of ?x] by (simp add: control_counts_def)
  consider "ca_outstanding s \<ge> MAX_MISSED_PONGS" | "ca_outstanding s < MAX_MISSED_PONGS" "\<not> sent"
    | "ca_outstanding s < MAX_MISSED_PONGS" "sent" by linarith
  then show ?thesis
  proof cases
    case 1
    then show ?thesis using end_inv [OF inv_counts [OF assms(1), of ?x]] by simp
  next
    case 2
    then show ?thesis using end_inv [OF c [where n = "Suc (ca_nonce s)" and m = "Suc (ca_outstanding s)"]] by (simp add: Let_def)
  next
    case 3
    then show ?thesis using assms mono by (auto simp: control_unfold silence_snoc silence_step_def Let_def)
  qed
qed

lemma turn_inv:
  assumes "control_inv evs s"
  shows "control_inv (evs @ [x]) (control_turn s x)"
proof (cases "ca_done s")
  case True
  then show ?thesis using assms answered_mono [of evs "ca_replies s" x]
    by (cases x) (auto simp: control_turn_def control_unfold answered_right_def)
next
  case False
  show ?thesis
  proof (cases x)
    case (CiRequest slot env sent)
    then show ?thesis using request_inv [OF assms False, of slot env sent] False by (simp add: control_turn_def)
  next
    case (CiFrame env sent)
    then show ?thesis using frame_inv [OF assms False, of env sent] False by (simp add: control_turn_def)
  next
    case (CiTick sent)
    then show ?thesis using tick_inv [OF assms False, of sent] False by (simp add: control_turn_def)
  qed (use end_inv [OF inv_counts [OF assms, of x]] False in \<open>simp_all add: control_turn_def\<close>)
qed

lemma control_run_inv: "control_inv evs (foldl control_turn control_new evs)"
proof (induction evs rule: rev_induct)
  case Nil
  show ?case by (simp add: control_inv_def control_new_def silence_def keys_def)
next
  case (snoc x evs)
  then show ?case using turn_inv by simp
qed

text \<open>
  (C26) The control channel pairs every request with one answer: in every run of the actor, whatever the
  server sends, whatever sends fail and whenever the stream ends, each request is either still waiting or was answered exactly
  once, at most thirty-two wait, and a reply that is handed out carries the identifier the request
  was sent with. Once the actor has ended nothing waits; as long as it runs, the ticker fired at most three
  times since the server last answered a ping.
\<close>

theorem control_exact:
  "let s = foldl control_turn control_new evs in
     mset (map fst (ca_replies s)) + mset (map snd (ca_pending s)) = mset (concat (map slots_of evs))
     \<and> length (ca_pending s) \<le> MAX_INFLIGHT_CONTROL
     \<and> list_all (answered_right evs) (ca_replies s)
     \<and> (if ca_done s then ca_pending s = [] else silence evs \<le> MAX_MISSED_PONGS)"
  using control_run_inv [of evs] by (simp add: control_inv_def Let_def split: if_splits)

end
