(* ===== verification/Core_Supervisor.thy ===== *)
theory Core_Supervisor
  imports Core_Control
begin

text \<open>
  The desktop client's supervisor of one server (\<open>crates/client-core/src/server.rs\<close>) and the functions of \<open>Core\<close>
  around it (\<open>lib.rs\<close>): connecting and authenticating, the journal of opens, attaching with
  recovery, the commands of the GUI, and the loop that reconnects. What the network answers and
  where saves fail is the record \<open>core_answers\<close>.
\<close>

section \<open>Connecting\<close>

definition trim :: "rstring \<Rightarrow> rstring" where
  "trim s = trim_end (dropWhile is_whitespace s)"

definition normalize_url :: "rstring \<Rightarrow> rstring" where
  "normalize_url url0 =
     (let url = trim url0 in
      if url = [] \<or> sublist (lit ''://'') url then url else lit ''https://'' @ url)"

datatype connect_failure = CfRemoved | CfPasswordRequired | CfClient client_error

definition connect_method :: "server_record \<Rightarrow> rstring option \<Rightarrow> client_auth option" where
  "connect_method r password =
     (case (rc_username r, rc_ssh_key_path r) of
        (Some user, Some path) \<Rightarrow> Some (AuthSshKey user)
      | (Some user, None) \<Rightarrow> map_option (AuthPassword user) password
      | _ \<Rightarrow> Some AuthDev)"

definition connect_and_auth ::
  "store_codec \<Rightarrow> (rstring \<Rightarrow> client_auth \<Rightarrow> client_error + server_conn) \<Rightarrow> rstring \<Rightarrow> rstring option \<Rightarrow> store
     \<Rightarrow> connect_failure + server_conn" where
  "connect_and_auth C net key password st =
     (case store_server key st of
        None \<Rightarrow> Err CfRemoved
      | Some r \<Rightarrow>
          (let url = normalize_url (rc_url r) in
           case Option.bind (rc_grant r)
                  (\<lambda>g. Option.bind (tc_unbase64 C g)
                     (\<lambda>bs. case net url (AuthGrant bs) of Inl _ \<Rightarrow> None | Inr conn \<Rightarrow> Some conn)) of
             Some conn \<Rightarrow> Ok conn
           | None \<Rightarrow>
               (case connect_method r password of
                  None \<Rightarrow> Err CfPasswordRequired
                | Some auth \<Rightarrow> (case net url auth of Inl e \<Rightarrow> Err (CfClient e) | Inr conn \<Rightarrow> Ok conn))))"

section \<open>Answers\<close>

text \<open>What the control channel and the attachment streams answer, and where the nth save fails.\<close>

record core_answers =
  cr_list :: "client_error + pb_shell_info list"
  cr_open :: "bytes \<Rightarrow> client_error + bytes \<times> bytes"
  cr_terminate :: "client_error + int"
  cr_attach :: "bool \<Rightarrow> bytes \<Rightarrow> attach_error + attached_shell"
  cr_key :: bytes
  cr_now_ms :: int
  cr_save :: "nat \<Rightarrow> nat option"
  cr_writer :: bool
  cr_socks :: bool

section \<open>The journal of opens\<close>

text \<open>A stored key; slicing a text inside a character is a panic.\<close>

definition stored_key :: "rstring \<Rightarrow> bytes option option" where
  "stored_key txt =
     map_option (\<lambda>r. case r of None \<Rightarrow> None | Some k \<Rightarrow> if length k = 16 then Some k else None) (unhex txt)"

fun resolve_each :: "store_codec \<Rightarrow> core_answers \<Rightarrow> rstring \<Rightarrow> nat \<Rightarrow> pending_open list \<Rightarrow> store \<Rightarrow> store option" where
  "resolve_each C A key n [] st = Some st"
| "resolve_each C A key n (p # rest) st =
     (case stored_key (po_idempotency_key p) of
        None \<Rightarrow> None
      | Some None \<Rightarrow>
          resolve_each C A key (n + 1) rest (fst (drop_pending_open C (cr_save A n) key (po_idempotency_key p) st))
      | Some (Some k) \<Rightarrow>
          (case cr_open A k of
             Inr (shell_id, token) \<Rightarrow>
               resolve_each C A key (n + 1) rest
                 (fst (resolve_pending_open C (cr_save A n) key (po_idempotency_key p) (hex_string shell_id) token (cr_now_ms A) st))
           | Inl _ \<Rightarrow>
               resolve_each C A key (n + 1) rest (fst (drop_pending_open C (cr_save A n) key (po_idempotency_key p) st))))"

definition resolve_pending_opens :: "store_codec \<Rightarrow> core_answers \<Rightarrow> rstring \<Rightarrow> store \<Rightarrow> store option" where
  "resolve_pending_opens C A key st =
     (case store_server key st of None \<Rightarrow> Some st | Some r \<Rightarrow> resolve_each C A key 0 (rc_pending_opens r) st)"

section \<open>Attaching\<close>

text \<open>The error of a recovery that resolved to another shell names that shell, which was asked to terminate first.\<close>

datatype core_error =
    CoText rstring
  | CoOtherShell bytes
  | CoClient client_error
  | CoAttach attach_error
  | CoStore desktop_store_error

definition recover_token ::
  "store_codec \<Rightarrow> core_answers \<Rightarrow> rstring \<Rightarrow> bytes \<Rightarrow> bytes \<Rightarrow> store \<Rightarrow> store \<times> (core_error + bytes)" where
  "recover_token C A key shell_id idem st =
     (case cr_list A of
        Inl e \<Rightarrow> (st, Err (CoClient e))
      | Inr shells \<Rightarrow>
          if \<not> list_ex (\<lambda>i. pi_shell_id i = shell_id \<and> pi_state i = PbRunning) shells then
            (fst (remove_shell C (cr_save A 0) key (hex_string shell_id) st),
             Err (CoText (lit ''shell no longer running on the server'')))
          else
            (case cr_open A idem of
               Inl e \<Rightarrow> (st, Err (CoClient e))
             | Inr (new_id, new_token) \<Rightarrow>
                 if new_id \<noteq> shell_id then (st, Err (CoOtherShell new_id))
                 else (fst (update_token C (cr_save A 0) key (hex_string shell_id) new_token (cr_now_ms A) st), Ok new_token)))"

text \<open>One round of the loop: it goes on with a fresh token, or it ends with the events it emits.\<close>

definition attach_round ::
  "store_codec \<Rightarrow> core_answers \<Rightarrow> rstring \<Rightarrow> rstring \<Rightarrow> bytes \<Rightarrow> bytes option \<Rightarrow> bool \<Rightarrow> bytes \<Rightarrow> store
     \<Rightarrow> store \<times> bytes + store \<times> (core_error + attached_shell) \<times> shell_state_event list" where
  "attach_round C A key shell_hex shell_id idem recovered token st =
     (case cr_attach A recovered token of
        Inr shell \<Rightarrow>
          Inr (fst (update_token C (cr_save A 1) key shell_hex (as_rotated_token shell) (cr_now_ms A) st), Ok shell, [])
      | Inl e \<Rightarrow>
          (case attach_failure_action e (idem \<noteq> None \<and> \<not> recovered) of
             Retry \<Rightarrow> Inr (st, Err (CoAttach e), [])
           | ExitKeepToken \<Rightarrow> Inr (st, Err (CoAttach e), [])
           | ForgetAndExit \<Rightarrow> Inr (fst (remove_shell C (cr_save A 1) key shell_hex st), Err (CoAttach e), [ShExited])
           | RecoverViaIdempotency \<Rightarrow>
               (case recover_token C A key shell_id (the idem) st of
                  (st1, Inr fresh) \<Rightarrow> Inl (st1, fresh)
                | (st1, Inl err) \<Rightarrow> Inr (st1, Err err, [ShOrphaned]))))"

partial_function (option) attach_loop ::
  "store_codec \<Rightarrow> core_answers \<Rightarrow> rstring \<Rightarrow> rstring \<Rightarrow> bytes \<Rightarrow> bytes option \<Rightarrow> bool \<Rightarrow> bytes \<Rightarrow> store
     \<Rightarrow> (store \<times> (core_error + attached_shell) \<times> shell_state_event list) option" where
  "attach_loop C A key shell_hex shell_id idem recovered token st =
     (case attach_round C A key shell_hex shell_id idem recovered token st of
        Inl x \<Rightarrow> attach_loop C A key shell_hex shell_id idem True (snd x) (fst x)
      | Inr res \<Rightarrow> Some res)"

definition attach_with_recovery ::
  "store_codec \<Rightarrow> core_answers \<Rightarrow> rstring \<Rightarrow> rstring \<Rightarrow> store
     \<Rightarrow> (store \<times> (core_error + attached_shell) \<times> shell_state_event list) option" where
  "attach_with_recovery C A key shell_hex st =
     (case store_shell key shell_hex st of
        None \<Rightarrow> Some (st, Err (CoText (lit ''no stored shell'')), [])
      | Some h \<Rightarrow>
          (case unhex shell_hex of
             None \<Rightarrow> None
           | Some None \<Rightarrow> Some (st, Err (CoText (lit ''malformed shell id'')), [])
           | Some (Some shell_id) \<Rightarrow>
               (case tc_unbase64 C (hr_token h) of
                  None \<Rightarrow> Some (st, Err (CoText (lit ''corrupt stored token'')), [])
                | Some token \<Rightarrow>
                    (case (case hr_idempotency_key h of None \<Rightarrow> Some None | Some k \<Rightarrow> stored_key k) of
                       None \<Rightarrow> None
                     | Some idem \<Rightarrow> attach_loop C A key shell_hex shell_id idem False token st))))"

subsection \<open>What attaching does to the store\<close>

lemma mutate_data:
  "to_data (fst (mutate_server C f key g st)) = to_data st
   \<or> (\<exists>r. store_server key st = Some r
       \<and> to_data (fst (mutate_server C f key g st)) = (to_data st)\<lparr>sd_servers := assoc_put key (g r) (sd_servers (to_data st))\<rparr>)"
  by (cases "map_of (sd_servers (to_data st)) key")
    (auto simp: mutate_server_def store_commit_def store_server_def split: prod.split sum.split)

definition other_shells :: "rstring \<Rightarrow> rstring \<Rightarrow> store \<Rightarrow> rstring \<times> rstring \<Rightarrow> shell_record option" where
  "other_shells key shell_hex st = (\<lambda>(k, s). store_shell k s st)((key, shell_hex) := None)"

definition shell_kept :: "rstring \<Rightarrow> rstring \<Rightarrow> bool \<Rightarrow> store \<Rightarrow> store \<Rightarrow> bool" where
  "shell_kept key shell_hex gone st st' \<longleftrightarrow> other_shells key shell_hex st' = other_shells key shell_hex st
     \<and> (case store_shell key shell_hex st' of
          None \<Rightarrow> gone \<or> store_shell key shell_hex st = None
        | Some h' \<Rightarrow> (\<exists>h. store_shell key shell_hex st = Some h
            \<and> hr_idempotency_key h' = hr_idempotency_key h \<and> hr_name h' = hr_name h))"

lemma shell_kept_refl [simp]: "shell_kept key shell_hex gone st st"
  by (simp add: shell_kept_def split: option.split)

lemma shell_kept_trans:
  assumes "shell_kept key shell_hex a st1 st2" and "shell_kept key shell_hex b st2 st3" and "a \<or> b \<Longrightarrow> c"
  shows "shell_kept key shell_hex c st1 st3"
  using assms by (auto simp: shell_kept_def split: option.splits)

lemma shells_changed:
  assumes "\<And>r. \<exists>h. rc_shells (g r) = h (rc_shells r) \<and> (\<forall>s. s \<noteq> shell_hex \<longrightarrow> map_of (h (rc_shells r)) s = map_of (rc_shells r) s)
      \<and> (case map_of (h (rc_shells r)) shell_hex of
           None \<Rightarrow> gone \<or> map_of (rc_shells r) shell_hex = None
         | Some e' \<Rightarrow> (\<exists>e. map_of (rc_shells r) shell_hex = Some e
             \<and> hr_idempotency_key e' = hr_idempotency_key e \<and> hr_name e' = hr_name e))"
  shows "shell_kept key shell_hex gone st (fst (mutate_server C f key g st))"
proof -
  consider "to_data (fst (mutate_server C f key g st)) = to_data st"
    | r where "store_server key st = Some r"
      "to_data (fst (mutate_server C f key g st)) = (to_data st)\<lparr>sd_servers := assoc_put key (g r) (sd_servers (to_data st))\<rparr>"
    using mutate_data by blast
  then show ?thesis
  proof cases
    case 1
    then have "store_shell k s (fst (mutate_server C f key g st)) = store_shell k s st" for k s
      by (simp add: store_shell_def store_server_def)
    then show ?thesis by (auto simp: shell_kept_def other_shells_def split: option.split)
  next
    case (2 r)
    let ?st = "fst (mutate_server C f key g st)"
    have new: "store_shell k s ?st = (if k = key then map_of (rc_shells (g r)) s else store_shell k s st)" for k s
      using 2 by (simp add: store_shell_def store_server_def)
    have old: "store_shell key s st = map_of (rc_shells r) s" for s
      using 2 by (simp add: store_shell_def)
    have "other_shells key shell_hex ?st = other_shells key shell_hex st"
      using assms [of r] new old by (auto simp: other_shells_def fun_eq_iff)
    then show ?thesis using assms [of r] new old by (auto simp: shell_kept_def cong: option.case_cong)
  qed
qed

lemma update_token_kept: "shell_kept key shell_hex gone st (fst (update_token C f key shell_hex token now st))"
  unfolding update_token_def
proof (rule shells_changed)
  fix r :: server_record
  let ?h = "assoc_upd shell_hex (\<lambda>h. h\<lparr>hr_token := tc_base64 C token, hr_last_attached_at_ms := now\<rparr>)"
  show "\<exists>h. rc_shells (r\<lparr>rc_shells := ?h (rc_shells r)\<rparr>) = h (rc_shells r)
      \<and> (\<forall>s. s \<noteq> shell_hex \<longrightarrow> map_of (h (rc_shells r)) s = map_of (rc_shells r) s)
      \<and> (case map_of (h (rc_shells r)) shell_hex of
           None \<Rightarrow> gone \<or> map_of (rc_shells r) shell_hex = None
         | Some e' \<Rightarrow> (\<exists>e. map_of (rc_shells r) shell_hex = Some e
             \<and> hr_idempotency_key e' = hr_idempotency_key e \<and> hr_name e' = hr_name e))"
    by (intro exI [of _ ?h]) (auto split: option.split)
qed

lemma remove_shell_kept: "shell_kept key shell_hex True st (fst (remove_shell C f key shell_hex st))"
  unfolding remove_shell_def
  by (rule shells_changed) (auto intro: exI [of _ "assoc_del shell_hex"])

text \<open>When the client may forget a shell: an attach was answered so, or the listing does not show it running.\<close>

definition told_gone :: "core_answers \<Rightarrow> bytes \<Rightarrow> bool" where
  "told_gone A shell_id \<longleftrightarrow>
     (\<exists>recovered token e. cr_attach A recovered token = Err e \<and> attach_failure_action e False = ForgetAndExit)
     \<or> (\<exists>shells. cr_list A = Ok shells \<and> \<not> list_ex (\<lambda>i. pi_shell_id i = shell_id \<and> pi_state i = PbRunning) shells)"

lemma forget_without_key: "attach_failure_action e have_key = ForgetAndExit \<Longrightarrow> attach_failure_action e False = ForgetAndExit"
  by (cases e) (auto split: if_splits)

lemma no_recovery_without_key: "attach_failure_action e False \<noteq> RecoverViaIdempotency"
  by (cases e) auto

lemma recover_token_kept:
  assumes "recover_token C A key sid idem st = (st', r)"
  shows "shell_kept key (hex_string sid) (told_gone A sid) st st'"
proof (cases "cr_list A")
  case (Inl e)
  then show ?thesis using assms by (simp add: recover_token_def)
next
  case (Inr shells)
  show ?thesis
  proof (cases "list_ex (\<lambda>i. pi_shell_id i = sid \<and> pi_state i = PbRunning) shells")
    case True
    then show ?thesis using assms Inr update_token_kept
      by (auto simp: recover_token_def split: sum.splits if_splits)
  next
    case False
    then have "told_gone A sid" using Inr by (auto simp: told_gone_def)
    then show ?thesis using assms Inr False remove_shell_kept by (auto simp: recover_token_def)
  qed
qed

lemma attach_round_kept:
  "case attach_round C A key (hex_string sid) sid idem recovered token st of
     Inl (st', fresh) \<Rightarrow> \<not> recovered \<and> shell_kept key (hex_string sid) (told_gone A sid) st st'
   | Inr (st', r, evs) \<Rightarrow> shell_kept key (hex_string sid) (told_gone A sid) st st'"
proof (cases "cr_attach A recovered token")
  case (Inr shell)
  then show ?thesis using update_token_kept by (simp add: attach_round_def)
next
  case (Inl e)
  show ?thesis
  proof (cases "attach_failure_action e (idem \<noteq> None \<and> \<not> recovered)")
    case ForgetAndExit
    then have "attach_failure_action e False = ForgetAndExit" by (rule forget_without_key)
    then have "told_gone A sid" using Inl unfolding told_gone_def by blast
    then show ?thesis using Inl ForgetAndExit remove_shell_kept by (simp add: attach_round_def)
  next
    case RecoverViaIdempotency
    then have n: "\<not> recovered" using no_recovery_without_key [of e] by (cases recovered) auto
    show ?thesis using Inl RecoverViaIdempotency n recover_token_kept [of C A key sid "the idem" st]
      by (auto simp: attach_round_def split: prod.split sum.split)
  qed (use Inl in \<open>simp_all add: attach_round_def\<close>)
qed

lemma attach_loop_recovered:
  "\<exists>st' r evs. attach_loop C A key (hex_string sid) sid idem True token st = Some (st', r, evs)
    \<and> shell_kept key (hex_string sid) (told_gone A sid) st st'"
  using attach_round_kept [where C = C and A = A and key = key and sid = sid and idem = idem and recovered = True and token = token and st = st]
  by (subst attach_loop.simps) (auto split: sum.splits prod.splits)

lemma attach_loop_returns:
  "\<exists>st' r evs. attach_loop C A key (hex_string sid) sid idem recovered token st = Some (st', r, evs)
    \<and> shell_kept key (hex_string sid) (told_gone A sid) st st'"
proof (cases "attach_round C A key (hex_string sid) sid idem recovered token st")
  case (Inl x)
  then have k: "shell_kept key (hex_string sid) (told_gone A sid) st (fst x)"
    using attach_round_kept [where C = C and A = A and key = key and sid = sid and idem = idem and recovered = recovered and token = token and st = st] by (simp add: case_prod_unfold)
  obtain st' r evs where "attach_loop C A key (hex_string sid) sid idem True (snd x) (fst x) = Some (st', r, evs)"
    "shell_kept key (hex_string sid) (told_gone A sid) (fst x) st'"
    using attach_loop_recovered by blast
  then show ?thesis using Inl shell_kept_trans [OF k] by (subst attach_loop.simps) auto
next
  case (Inr x)
  then show ?thesis using attach_round_kept [where C = C and A = A and key = key and sid = sid and idem = idem and recovered = recovered and token = token and st = st]
    by (subst attach_loop.simps) (cases x, auto)
qed


text \<open>The shell the stored server lists, with a server that does not know it any more.\<close>

definition demo_core_answers :: core_answers where
  "demo_core_answers = \<lparr>cr_list = Ok [], cr_open = (\<lambda>_. Err CeTransport), cr_terminate = Err CeTransport,
     cr_attach = (\<lambda>_ _. Err (AeRejected ErrTokenReplayed False [])), cr_key = [], cr_now_ms = 0, cr_save = (\<lambda>_. None),
     cr_writer = True, cr_socks = True\<rparr>"

definition demo_shells :: store where
  "demo_shells = \<lparr>to_data = \<lparr>sd_version = STORE_VERSION, sd_servers = [(lit ''k'', desktop_demo_server\<lparr>rc_shells :=
     [(hex_string [1], \<lparr>hr_token = [5], hr_idempotency_key = Some (hex_string (replicate 16 2)), hr_name = [], hr_last_attached_at_ms = 0\<rparr>)]\<rparr>)]\<rparr>,
     to_disk = []\<rparr>"


end
