(* ===== verification/Core_Loop.thy ===== *)
theory Core_Loop
  imports Core_Supervisor
begin

text \<open>
  The commands a GUI sends to a server's supervisor and the supervisor's loop (\<open>run_supervisor\<close> and \<open>handle_cmd\<close> of
  \<open>crates/client-core/src/server.rs\<close>).
\<close>

section \<open>Commands\<close>

datatype socks_action = SxStatus | SxStart nat | SxStop

datatype server_cmd =
    ScSocks socks_action bool
  | ScOpen rstring nat nat
  | ScAttach rstring nat nat
  | ScInput rstring bytes
  | ScResize rstring nat nat
  | ScDetach rstring
  | ScTerminate rstring
  | ScHistory rstring nat nat
  | ScLogin rstring
  | ScUpload rstring
  | ScCancelUpload rstring

datatype cmd_reply =
    RyNone
  | RyErr core_error
  | RyShell rstring
  | RyAttached attached_shell
  | RyExit int
  | RyPassed
  | RyUpload bytes
  | RySocks bool "nat option"

type_synonym shell_event_out = "rstring \<times> shell_state_event \<times> int option"

text \<open>What the loop keeps while it is connected: attached shells, uploads with their cancellation, the proxy's port.\<close>

record serving =
  sg_live :: "rstring list"
  sg_uploads :: "(rstring \<times> bool) list"
  sg_file_uploads :: bool
  sg_tcp_forward :: bool
  sg_socks :: "nat option"

definition cmd_forward :: "core_answers \<Rightarrow> rstring \<Rightarrow> serving \<Rightarrow> serving" where
  "cmd_forward A shell_hex g =
     (if List.member (sg_live g) shell_hex \<and> \<not> cr_writer A then g\<lparr>sg_live := removeAll shell_hex (sg_live g)\<rparr> else g)"

definition cancel_active_uploads :: "serving \<Rightarrow> serving" where
  "cancel_active_uploads g = g\<lparr>sg_uploads := map (map_prod id (\<lambda>_. True)) (sg_uploads g)\<rparr>"

definition socks_command :: "core_answers \<Rightarrow> socks_action \<Rightarrow> serving \<Rightarrow> serving \<times> cmd_reply" where
  "socks_command A action g =
     (case action of
        SxStart port \<Rightarrow>
          if \<not> sg_tcp_forward g then (g, RyErr (CoText (lit ''TCP forwarding is not enabled on this server'')))
          else if port = 0 then (g, RyErr (CoText (lit ''choose a SOCKS port between 1 and 65535'')))
          else if sg_socks g \<noteq> None then (g, RyErr (CoText (lit ''SOCKS is already running for this server'')))
          else if \<not> cr_socks A then (g, RyErr (CoText (lit ''bind'')))
          else (g\<lparr>sg_socks := Some port\<rparr>, RySocks (sg_tcp_forward g) (Some port))
      | SxStop \<Rightarrow> (g\<lparr>sg_socks := None\<rparr>, RySocks (sg_tcp_forward g) None)
      | SxStatus \<Rightarrow> (g, RySocks (sg_tcp_forward g) (sg_socks g)))"

text \<open>The key is journalled before the request leaves; the journal entry becomes the shell's, or is dropped.\<close>

definition cmd_open_shell :: "store_codec \<Rightarrow> core_answers \<Rightarrow> rstring \<Rightarrow> rstring \<Rightarrow> store \<Rightarrow> store \<times> cmd_reply" where
  "cmd_open_shell C A key name st =
     (let key_hex = hex_string (cr_key A) in
      case push_pending_open C (cr_save A 0) key key_hex name st of
        (st1, Inl e) \<Rightarrow> (st1, RyErr (CoStore e))
      | (st1, Inr _) \<Rightarrow>
          (case cr_open A (cr_key A) of
             Inr (shell_id, token) \<Rightarrow>
               (case resolve_pending_open C (cr_save A 1) key key_hex (hex_string shell_id) token (cr_now_ms A) st1 of
                  (st2, Inl e) \<Rightarrow> (st2, RyErr (CoStore e))
                | (st2, Inr _) \<Rightarrow> (st2, RyShell (hex_string shell_id)))
           | Inl e \<Rightarrow> (fst (drop_pending_open C (cr_save A 1) key key_hex st1), RyErr (CoClient e))))"

definition cmd_terminate_shell ::
  "store_codec \<Rightarrow> core_answers \<Rightarrow> rstring \<Rightarrow> rstring \<Rightarrow> serving \<Rightarrow> store
     \<Rightarrow> (serving \<times> store \<times> cmd_reply \<times> shell_event_out list) option" where
  "cmd_terminate_shell C A key shell_hex g st =
     (case unhex shell_hex of
        None \<Rightarrow> None
      | Some None \<Rightarrow> Some (g, st, RyErr (CoText (lit ''malformed shell id'')), [])
      | Some (Some shell_id) \<Rightarrow>
          (let g1 = g\<lparr>sg_live := removeAll shell_hex (sg_live g)\<rparr> in
           case cr_terminate A of
             Inl e \<Rightarrow> Some (g1, st, RyErr (CoClient e), [])
           | Inr code \<Rightarrow>
               Some (g1, fst (remove_shell C (cr_save A 0) key shell_hex st), RyExit code, [(shell_hex, ShExited, Some code)])))"

definition cmd_upload ::
  "rstring \<Rightarrow> rstring \<Rightarrow> serving \<Rightarrow> store \<Rightarrow> (serving \<times> store \<times> cmd_reply \<times> shell_event_out list) option" where
  "cmd_upload key shell_hex g st =
     (if \<not> sg_file_uploads g then Some (g, st, RyErr (CoText (lit ''this server does not enable file uploads'')), [])
      else if store_shell key shell_hex st = None then Some (g, st, RyErr (CoText (lit ''unknown shell'')), [])
      else
        (case unhex shell_hex of
           None \<Rightarrow> None
         | Some None \<Rightarrow> Some (g, st, RyErr (CoText (lit ''malformed shell id'')), [])
         | Some (Some shell_id) \<Rightarrow>
             if shell_hex \<in> set (keys (sg_uploads g)) then
               Some (g, st, RyErr (CoText (lit ''an upload is already active for this shell'')), [])
             else Some (g\<lparr>sg_uploads := assoc_put shell_hex False (sg_uploads g)\<rparr>, st, RyUpload shell_id, [])))"

definition handle_cmd ::
  "store_codec \<Rightarrow> core_answers \<Rightarrow> rstring \<Rightarrow> server_cmd \<Rightarrow> serving \<Rightarrow> store
     \<Rightarrow> (serving \<times> store \<times> cmd_reply \<times> shell_event_out list) option" where
  "handle_cmd C A key cmd g st =
     (case cmd of
        ScSocks _ _ \<Rightarrow> Some (g, st, RyErr (CoText (lit ''SOCKS command requires supervisor'')), [])
      | ScOpen name cols rows \<Rightarrow> (case cmd_open_shell C A key name st of (st1, r) \<Rightarrow> Some (g, st1, r, []))
      | ScAttach shell_hex cols rows \<Rightarrow>
          (case attach_with_recovery C A key shell_hex st of
             None \<Rightarrow> None
           | Some (st1, Inr shell, evs) \<Rightarrow>
               Some (g\<lparr>sg_live := List.insert shell_hex (sg_live g)\<rparr>, st1, RyAttached shell,
                     map (\<lambda>e. (shell_hex, e, None)) evs @ [(shell_hex, ShAttached, None)])
           | Some (st1, Inl e, evs) \<Rightarrow> Some (g, st1, RyErr e, map (\<lambda>x. (shell_hex, x, None)) evs))
      | ScInput shell_hex bs \<Rightarrow> Some (cmd_forward A shell_hex g, st, RyNone, [])
      | ScResize shell_hex cols rows \<Rightarrow> Some (cmd_forward A shell_hex g, st, RyNone, [])
      | ScDetach shell_hex \<Rightarrow>
          Some (g\<lparr>sg_live := removeAll shell_hex (sg_live g)\<rparr>, st, RyNone, [(shell_hex, ShDetached, None)])
      | ScTerminate shell_hex \<Rightarrow> cmd_terminate_shell C A key shell_hex g st
      | ScLogin _ \<Rightarrow> Some (g, st, RyNone, [])
      | ScHistory shell_hex before max_lines \<Rightarrow>
          Some (g, st, if \<not> List.member (sg_live g) shell_hex then RyErr (CoText (lit ''shell is not attached''))
                       else if cr_writer A then RyPassed else RyErr (CoText (lit ''attachment closed'')), [])
      | ScUpload shell_hex \<Rightarrow> cmd_upload key shell_hex g st
      | ScCancelUpload shell_hex \<Rightarrow> Some (g\<lparr>sg_uploads := assoc_upd shell_hex (\<lambda>_. True) (sg_uploads g)\<rparr>, st, RyNone, []))"

text \<open>Commands that want an answer get a refusal while a login is awaited; the others are dropped.\<close>

definition refuse_unauthenticated :: "server_cmd \<Rightarrow> cmd_reply" where
  "refuse_unauthenticated cmd =
     (case cmd of
        ScInput _ _ \<Rightarrow> RyNone | ScResize _ _ _ \<Rightarrow> RyNone | ScDetach _ \<Rightarrow> RyNone | ScLogin _ \<Rightarrow> RyNone | ScCancelUpload _ \<Rightarrow> RyNone
      | _ \<Rightarrow> RyErr (CoText (lit ''authentication required: log in to this server first'')))"

section \<open>The loop\<close>

definition BACKOFF_START :: nat where "BACKOFF_START = 1"
definition BACKOFF_CAP :: nat where "BACKOFF_CAP = 15"

text \<open>What the GUI shows of a listing: the shells of the server, with what the store knows of each.\<close>

record shell_row =
  sr_shell :: rstring
  sr_name :: "rstring option"
  sr_has_token :: bool
  sr_state :: rstring

fun shell_state_text :: "pb_shell_state \<Rightarrow> rstring" where
  "shell_state_text PbRunning = lit ''running''"
| "shell_state_text PbExited = lit ''exited''"
| "shell_state_text PbTerminating = lit ''terminating''"
| "shell_state_text PbUnspecified = lit ''unknown''"

definition emit_shells :: "rstring \<Rightarrow> store \<Rightarrow> pb_shell_info list \<Rightarrow> shell_row list" where
  "emit_shells key st shells =
     map (\<lambda>i. let shell_hex = hex_string (pi_shell_id i); known = store_shell key shell_hex st in
            \<lparr>sr_shell = shell_hex, sr_name = map_option hr_name known, sr_has_token = (known \<noteq> None),
             sr_state = shell_state_text (pi_state i)\<rparr>) shells"

datatype server_status = Connecting | Connected | Reconnecting | AuthRequired

datatype sup_phase = SpConnecting | SpKeyWait | SpPasswordWait | SpServing | SpStopped | SpPanicked

record supervisor =
  su_store :: store
  su_backoff :: nat
  su_first :: bool
  su_password :: "rstring option"
  su_phase :: sup_phase
  su_serving :: serving
  su_status :: "server_status list"
  su_capability :: "bool option"
  su_events :: "shell_event_out list"
  su_replies :: "cmd_reply list"
  su_rows :: "shell_row list"
  su_refused :: nat
  su_logins :: nat

datatype sup_in =
    SvConnect "rstring \<Rightarrow> client_auth \<Rightarrow> client_error + server_conn" core_answers bool
  | SvCommand server_cmd core_answers
  | SvUploadEnded rstring
  | SvDead
  | SvDropped

definition serving_new :: "server_hello \<Rightarrow> serving \<Rightarrow> serving" where
  "serving_new hello g =
     \<lparr>sg_live = [], sg_uploads = sg_uploads g, sg_file_uploads = List.member (sh_capabilities hello) (capability_i32 FileTransfer),
      sg_tcp_forward = List.member (sh_capabilities hello) (capability_i32 TcpForward), sg_socks = None\<rparr>"

definition sup_status :: "server_status \<Rightarrow> supervisor \<Rightarrow> supervisor" where
  "sup_status x s = s\<lparr>su_status := su_status s @ [x]\<rparr>"

definition core_supervisor_new :: "store \<Rightarrow> serving \<Rightarrow> supervisor" where
  "core_supervisor_new st g =
     \<lparr>su_store = st, su_backoff = BACKOFF_START, su_first = True, su_password = None, su_phase = SpConnecting, su_serving = g,
      su_status = [], su_capability = None, su_events = [], su_replies = [], su_rows = [], su_refused = 0, su_logins = 0\<rparr>"

text \<open>An attempt that failed: waiting for the user, or for the delay, unless the client has dropped the server.\<close>

definition sup_failed :: "connect_failure \<Rightarrow> bool \<Rightarrow> bool \<Rightarrow> supervisor \<Rightarrow> supervisor" where
  "sup_failed e attempted_password dropped s =
     (if (case e of CfClient (CeSshFailed _) \<Rightarrow> True | _ \<Rightarrow> False) then
        (sup_status AuthRequired s)\<lparr>su_phase := SpKeyWait, su_refused := su_refused s + 1\<rparr>
      else if attempted_password \<or> e = CfPasswordRequired then (sup_status AuthRequired s)\<lparr>su_phase := SpPasswordWait\<rparr>
      else if dropped then (sup_status Reconnecting s)\<lparr>su_phase := SpStopped\<rparr>
      else (sup_status Reconnecting s)\<lparr>su_backoff := min (su_backoff s * 2) BACKOFF_CAP\<rparr>)"

definition sup_connected :: "store_codec \<Rightarrow> rstring \<Rightarrow> core_answers \<Rightarrow> server_conn \<Rightarrow> supervisor \<Rightarrow> supervisor" where
  "sup_connected C key A conn s =
     (let s1 = s\<lparr>su_backoff := BACKOFF_START, su_store := fst (set_grant C (cr_save A 0) key (sv_grant conn) (su_store s))\<rparr> in
      case resolve_pending_opens C A key (su_store s1) of
        None \<Rightarrow> s1\<lparr>su_phase := SpPanicked\<rparr>
      | Some st \<Rightarrow>
          (let s2 = s1\<lparr>su_store := st\<rparr> in
           case cr_list A of
             Inl _ \<Rightarrow> s2
           | Inr shells \<Rightarrow>
               (let g = serving_new (sv_hello conn) (su_serving s2)
                in (sup_status Connected s2)\<lparr>su_phase := SpServing, su_serving := g, su_capability := Some (sg_file_uploads g),
                      su_rows := emit_shells key st shells\<rparr>)))"

definition sup_connect ::
  "store_codec \<Rightarrow> rstring \<Rightarrow> (rstring \<Rightarrow> client_auth \<Rightarrow> client_error + server_conn) \<Rightarrow> core_answers \<Rightarrow> bool \<Rightarrow> supervisor
     \<Rightarrow> supervisor" where
  "sup_connect C key net A dropped s =
     (let s1 = (sup_status (if su_first s then Connecting else Reconnecting) s)
                 \<lparr>su_first := False, su_capability := Some False, su_password := None\<rparr>
      in case connect_and_auth C net key (su_password s) (su_store s) of
           Inl e \<Rightarrow> sup_failed e (su_password s \<noteq> None) dropped s1
         | Inr conn \<Rightarrow> sup_connected C key A conn s1)"

definition sup_command :: "store_codec \<Rightarrow> rstring \<Rightarrow> server_cmd \<Rightarrow> core_answers \<Rightarrow> supervisor \<Rightarrow> supervisor" where
  "sup_command C key cmd A s =
     (case cmd of
        ScSocks action reply_closed \<Rightarrow>
          if reply_closed then s
          else (case socks_command A action (su_serving s) of (g, r) \<Rightarrow> s\<lparr>su_serving := g, su_replies := su_replies s @ [r]\<rparr>)
      | _ \<Rightarrow>
          (case handle_cmd C A key cmd (su_serving s) (su_store s) of
             None \<Rightarrow> s\<lparr>su_phase := SpPanicked\<rparr>
           | Some (g, st, r, evs) \<Rightarrow>
               s\<lparr>su_serving := g, su_store := st, su_replies := su_replies s @ [r], su_events := su_events s @ evs\<rparr>))"

definition sup_waiting :: "server_cmd \<Rightarrow> supervisor \<Rightarrow> supervisor" where
  "sup_waiting cmd s =
     (case cmd of
        ScLogin password \<Rightarrow>
          s\<lparr>su_phase := SpConnecting, su_logins := su_logins s + 1,
            su_password := (if su_phase s = SpPasswordWait then Some password else None)\<rparr>
      | _ \<Rightarrow> s\<lparr>su_replies := su_replies s @ [refuse_unauthenticated cmd]\<rparr>)"

definition sup_step :: "store_codec \<Rightarrow> rstring \<Rightarrow> supervisor \<Rightarrow> sup_in \<Rightarrow> supervisor" where
  "sup_step C key s i =
     (case (su_phase s, i) of
        (_, SvUploadEnded shell_hex) \<Rightarrow>
          s\<lparr>su_serving := (su_serving s)\<lparr>sg_uploads := assoc_del shell_hex (sg_uploads (su_serving s))\<rparr>\<rparr>
      | (SpConnecting, SvConnect net A dropped) \<Rightarrow> sup_connect C key net A dropped s
      | (SpKeyWait, SvCommand cmd A) \<Rightarrow> sup_waiting cmd s
      | (SpKeyWait, SvDropped) \<Rightarrow> s\<lparr>su_phase := SpStopped\<rparr>
      | (SpPasswordWait, SvCommand cmd A) \<Rightarrow> sup_waiting cmd s
      | (SpPasswordWait, SvDropped) \<Rightarrow> s\<lparr>su_phase := SpStopped\<rparr>
      | (SpServing, SvCommand cmd A) \<Rightarrow> sup_command C key cmd A s
      | (SpServing, SvDead) \<Rightarrow> s\<lparr>su_phase := SpConnecting, su_serving := cancel_active_uploads (su_serving s)\<rparr>
      | (SpServing, SvDropped) \<Rightarrow> s\<lparr>su_phase := SpStopped, su_serving := cancel_active_uploads (su_serving s)\<rparr>
      | _ \<Rightarrow> s)"

section \<open>The supervisor keeps its promises\<close>

lemma attach_round_store:
  assumes "store_faithful C" and "store_inv C st"
  shows "case attach_round C A key shell_hex shell_id idem recovered token st of
      Inl (st', fresh) \<Rightarrow> \<not> recovered \<and> store_inv C st'
    | Inr (st', r, evs) \<Rightarrow> store_inv C st'"
proof -
  have m: "store_inv C (fst (mutate_server C f key g st))" for f g by (rule mutate_inv [OF assms])
  have r: "store_inv C st'" if "recover_token C A key shell_id (the idem) st = (st', x)" for st' x
    using that m assms(2)
    by (auto simp: recover_token_def remove_shell_def update_token_def split: sum.splits if_splits)
  have "\<not> recovered" if "attach_failure_action e (idem \<noteq> None \<and> \<not> recovered) = RecoverViaIdempotency" for e
    using that no_recovery_without_key [of e] by (cases recovered) auto
  then show ?thesis using r m assms(2)
    by (auto simp: attach_round_def remove_shell_def update_token_def split: sum.splits failure_action.splits prod.splits)
qed

lemma attach_loop_store:
  assumes "store_faithful C" and "store_inv C st"
    and "attach_loop C A key shell_hex shell_id idem recovered token st = Some (st', r, evs)"
  shows "store_inv C st'"
proof -
  have last: "store_inv C st'" if "store_inv C s" "attach_loop C A key shell_hex shell_id idem True t s = Some (st', r, evs)" for s t
    using that attach_round_store [OF assms(1) that(1), where A = A and key = key and shell_hex = shell_hex and shell_id = shell_id and idem = idem and recovered = True and token = t]
    by (subst (asm) attach_loop.simps) (auto split: sum.splits)
  show ?thesis
    using assms(3) last attach_round_store [OF assms(1,2), where A = A and key = key and shell_hex = shell_hex and shell_id = shell_id and idem = idem and recovered = recovered and token = token]
    by (subst (asm) attach_loop.simps) (auto split: sum.splits)
qed

lemma resolve_each_store:
  assumes "store_faithful C" and "store_inv C st" and "resolve_each C A key n ps st = Some st'"
  shows "store_inv C st'"
  using assms(2,3)
proof (induction ps arbitrary: n st)
  case (Cons p ps)
  have m: "store_inv C (fst (mutate_server C f key g st))" for f g by (rule mutate_inv [OF assms(1) Cons.prems(1)])
  show ?case using Cons.prems(2) Cons.IH [OF m]
    by (auto simp: drop_pending_open_def resolve_pending_open_def split: option.splits sum.splits)
qed simp

lemma cmd_open_store:
  assumes "store_faithful C" and "store_inv C st"
  shows "store_inv C (fst (cmd_open_shell C A key name st))"
proof -
  obtain st1 r where p: "push_pending_open C (cr_save A 0) key (hex_string (cr_key A)) name st = (st1, r)" by fastforce
  have "store_inv C (fst (push_pending_open C (cr_save A 0) key (hex_string (cr_key A)) name st))"
    unfolding push_pending_open_def by (rule mutate_inv [OF assms])
  then have "store_inv C st1" using p by simp
  then have m: "store_inv C (fst (mutate_server C f key g st1))" for f g by (rule mutate_inv [OF assms(1)])
  then have d: "store_inv C (fst (drop_pending_open C (cr_save A 1) key (hex_string (cr_key A)) st1))"
    and q: "store_inv C (fst (resolve_pending_open C f key i sh token now st1))" for f i sh token now
    by (simp_all add: drop_pending_open_def resolve_pending_open_def)
  show ?thesis using p \<open>store_inv C st1\<close> d q
    by (simp add: cmd_open_shell_def Let_def split: sum.split prod.split) (metis fst_conv)
qed

lemma attach_store:
  assumes "store_faithful C" and "store_inv C st" and "attach_with_recovery C A key shell_hex st = Some (st', r, evs)"
  shows "store_inv C st'"
  using assms(2,3) attach_loop_store [OF assms(1,2)]
  by (auto simp: attach_with_recovery_def split: option.splits)

lemma handle_cmd_store:
  assumes "store_faithful C" and "store_inv C st" and "handle_cmd C A key cmd g st = Some (g', st', r, evs)"
  shows "store_inv C st'"
proof (cases cmd)
  case (ScOpen name cols rows)
  then show ?thesis using assms cmd_open_store [OF assms(1,2), of A key name] by (auto simp: handle_cmd_def split: prod.splits)
next
  case (ScAttach shell_hex cols rows)
  then show ?thesis using assms(3) attach_store [OF assms(1,2)] by (auto simp: handle_cmd_def split: option.splits prod.splits sum.splits)
next
  case (ScTerminate shell_hex)
  then show ?thesis using assms mutate_inv [OF assms(1,2)]
    by (auto simp: handle_cmd_def cmd_terminate_shell_def remove_shell_def Let_def split: option.splits sum.splits)
qed (use assms in \<open>auto simp: handle_cmd_def cmd_upload_def split: if_splits option.splits\<close>)

text \<open>
  The state of a supervisor: the delay is bounded, a password is held only for the next attempt, and
  attempts that a key refused are paid for by logins.
\<close>

definition sup_inv :: "store_codec \<Rightarrow> supervisor \<Rightarrow> bool" where
  "sup_inv C s \<longleftrightarrow> store_inv C (su_store s) \<and> BACKOFF_START \<le> su_backoff s \<and> su_backoff s \<le> BACKOFF_CAP
     \<and> (su_password s = None \<or> su_phase s = SpConnecting)
     \<and> su_refused s \<le> su_logins s + (if su_phase s = SpConnecting \<or> su_phase s = SpServing then 0 else 1)"

lemma failed_inv:
  assumes "sup_inv C s" and "su_phase s = SpConnecting" and "su_password s = None"
  shows "sup_inv C (sup_failed e attempted dropped s)"
  using assms by (auto simp: sup_inv_def sup_failed_def sup_status_def BACKOFF_START_def BACKOFF_CAP_def split: if_splits)

lemma connected_inv:
  assumes "store_faithful C" and "sup_inv C s" and "su_phase s = SpConnecting" and "su_password s = None"
  shows "sup_inv C (sup_connected C key A conn s)"
proof -
  have "store_inv C (fst (set_grant C (cr_save A 0) key (sv_grant conn) (su_store s)))" (is "store_inv C ?st")
    using assms(2) mutate_inv [OF assms(1)] by (simp add: set_grant_def sup_inv_def)
  moreover have "store_inv C st" if "resolve_pending_opens C A key ?st = Some st" for st
    using that calculation resolve_each_store [OF assms(1) calculation]
    by (auto simp: resolve_pending_opens_def split: option.splits)
  ultimately show ?thesis using assms
    by (auto simp: sup_connected_def Let_def sup_inv_def sup_status_def BACKOFF_START_def BACKOFF_CAP_def
        split: option.split sum.split)
qed

lemma connect_inv:
  assumes "store_faithful C" and "sup_inv C s" and "su_phase s = SpConnecting"
  shows "sup_inv C (sup_connect C key net A dropped s)"
proof -
  let ?s = "(sup_status (if su_first s then Connecting else Reconnecting) s)
      \<lparr>su_first := False, su_capability := Some False, su_password := None\<rparr>"
  have i: "sup_inv C ?s" "su_phase ?s = SpConnecting" "su_password ?s = None"
    using assms(2,3) by (auto simp: sup_inv_def sup_status_def)
  show ?thesis using failed_inv [OF i] connected_inv [OF assms(1) i]
    by (auto simp: sup_connect_def Let_def split: sum.split)
qed

lemma command_inv:
  assumes "store_faithful C" and "sup_inv C s" and "su_phase s = SpServing"
  shows "sup_inv C (sup_command C key cmd A s)"
proof -
  have i: "store_inv C (su_store s)" using assms(2) by (simp add: sup_inv_def)
  have "sup_command C key cmd A s = s \<or> (\<exists>g r. sup_command C key cmd A s = s\<lparr>su_serving := g, su_replies := su_replies s @ [r]\<rparr>)
      \<or> sup_command C key cmd A s = s\<lparr>su_phase := SpPanicked\<rparr>
      \<or> (\<exists>g st r evs. handle_cmd C A key cmd (su_serving s) (su_store s) = Some (g, st, r, evs) \<and> sup_command C key cmd A s
         = s\<lparr>su_serving := g, su_store := st, su_replies := su_replies s @ [r], su_events := su_events s @ evs\<rparr>)"
  proof (cases "\<exists>action closed. cmd = ScSocks action closed")
    case True
    then obtain action closed where c: "cmd = ScSocks action closed" by blast
    obtain g r where "socks_command A action (su_serving s) = (g, r)" by fastforce
    then have "sup_command C key cmd A s = (if closed then s else s\<lparr>su_serving := g, su_replies := su_replies s @ [r]\<rparr>)"
      using c by (simp add: sup_command_def)
    then show ?thesis by (cases closed) (simp, metis (full_types))
  next
    case False
    then have "sup_command C key cmd A s = (case handle_cmd C A key cmd (su_serving s) (su_store s) of
        None \<Rightarrow> s\<lparr>su_phase := SpPanicked\<rparr>
      | Some (g, st, r, evs) \<Rightarrow>
          s\<lparr>su_serving := g, su_store := st, su_replies := su_replies s @ [r], su_events := su_events s @ evs\<rparr>)"
      by (cases cmd) (auto simp: sup_command_def)
    then show ?thesis by (cases "handle_cmd C A key cmd (su_serving s) (su_store s)") auto
  qed
  then show ?thesis using assms handle_cmd_store [OF assms(1) i] by (auto simp: sup_inv_def)
qed

interpretation supervision: invariant_machine "sup_step C key" "\<lambda>s. store_faithful C \<and> sup_inv C s" for C key
proof unfold_locales
  fix s i
  assume a: "store_faithful C \<and> sup_inv C s"
  have "sup_inv C (sup_step C key s i)"
  proof (cases i)
    case (SvConnect net A dropped)
    then show ?thesis using a connect_inv by (cases "su_phase s") (auto simp: sup_step_def)
  next
    case (SvCommand cmd A)
    then show ?thesis using a command_inv
      by (cases "su_phase s") (auto simp: sup_step_def sup_waiting_def sup_inv_def split: server_cmd.split)
  qed (use a in \<open>cases "su_phase s"; auto simp: sup_step_def sup_inv_def\<close>)+
  then show "store_faithful C \<and> sup_inv C (sup_step C key s i)" using a by simp
qed

text \<open>
  (C28) Whatever the server answers, the user does and the disk fails at, a supervisor keeps its file and its memory in
  agreement, waits between one and fifteen seconds, holds a password only until the next attempt to
  connect, and asks for the security key once per login: attempts the key was refused in are at
  most one more than the logins the user asked for.
\<close>

theorem supervisor_safe:
  assumes "store_faithful C" and "store_inv C st" and "s = foldl (sup_step C key) (core_supervisor_new st g) evs"
  shows "store_inv C (su_store s) \<and> 1 \<le> su_backoff s \<and> su_backoff s \<le> 15
    \<and> (su_password s = None \<or> su_phase s = SpConnecting) \<and> su_refused s \<le> su_logins s + 1"
proof -
  have "sup_inv C (core_supervisor_new st g)"
    using assms(2) by (simp add: sup_inv_def core_supervisor_new_def BACKOFF_START_def BACKOFF_CAP_def)
  then have "sup_inv C s" using supervision.run_inv [of C "core_supervisor_new st g" key evs] assms(1,3) by simp
  then show ?thesis by (auto simp: sup_inv_def BACKOFF_START_def BACKOFF_CAP_def split: if_splits)
qed

definition demo_serving :: serving where
  "demo_serving = \<lparr>sg_live = [], sg_uploads = [], sg_file_uploads = False, sg_tcp_forward = False, sg_socks = None\<rparr>"

theorem supervisor_safe_witness:
  "su_backoff (foldl (sup_step unary_store_codec (lit ''k'')) (core_supervisor_new demo_store demo_serving)
     (replicate 9 (SvConnect (\<lambda>_ _. Err CeTransport) demo_core_answers False))) \<le> 15"
proof -
  have "store_inv unary_store_codec demo_store" by (simp add: store_inv_def demo_store_def store_data_default_def)
  from supervisor_safe [OF unary_store_faithful this refl] show ?thesis by blast
qed

text \<open>Every failure of an open drops its journal entry, a lost connection included.\<close>

lemma journal_dropped:
  assumes "cr_open A (cr_key A) = Err CeTransport"
    and "push_pending_open C (cr_save A 0) key (hex_string (cr_key A)) name st = (st1, Inr u)"
  shows "cmd_open_shell C A key name st
    = (fst (drop_pending_open C (cr_save A 1) key (hex_string (cr_key A)) st1), RyErr (CoClient CeTransport))"
  using assms by (simp add: cmd_open_shell_def Let_def)

text \<open>A connection whose listing is refused is made again at once: the delay is reset and not waited for.\<close>

lemma refused_listing_reconnects:
  assumes "cr_list A = Err e" and "su_phase s = SpConnecting" and "resolve_pending_opens C A key st = Some st2"
    and "st = fst (set_grant C (cr_save A 0) key (sv_grant conn) (su_store s))"
  shows "su_phase (sup_connected C key A conn s) = SpConnecting \<and> su_backoff (sup_connected C key A conn s) = BACKOFF_START"
  using assms by (simp add: sup_connected_def Let_def)

end
