(* ===== verification/Core_Api.thy ===== *)
theory Core_Api
  imports Core_Loop
begin

text \<open>
  The interface of the desktop client (\<open>Core\<close> of \<open>crates/client-core/src/lib.rs\<close>): starting with one supervisor per
  stored server, the commands a GUI sends to them, and the changes of the store it makes itself.
  A server's handle is the number of free upload slots; \<open>alive\<close> says that the supervisor's queue
  still has its reader.
\<close>

definition UPLOAD_QUEUE :: nat where "UPLOAD_QUEUE = 8"

record core =
  co_store :: store
  co_servers :: "(rstring \<times> nat) list"
  co_statuses :: "(rstring \<times> server_status) list"
  co_capabilities :: "(rstring \<times> bool) list"
  co_sent :: "(rstring \<times> server_cmd) list"

definition start_supervisor :: "rstring \<Rightarrow> core \<Rightarrow> core" where
  "start_supervisor key c = c\<lparr>co_servers := assoc_put key UPLOAD_QUEUE (co_servers c)\<rparr>"

text \<open>The path of the other client's file may be unknown; a failed import is ignored.\<close>

definition core_spawn ::
  "store_codec \<Rightarrow> bool \<Rightarrow> nat option \<Rightarrow> rstring option \<Rightarrow> bool \<Rightarrow> nat option \<Rightarrow> rstring list \<Rightarrow> disk
     \<Rightarrow> disk \<times> (desktop_store_error + core \<times> bool)" where
  "core_spawn C readable f v1_path v1_readable f1 fresh d =
     (case store_load C readable f d of
        (d1, Inl e) \<Rightarrow> (d1, Err e)
      | (d1, Inr (st, warning)) \<Rightarrow>
          (let st1 = (case v1_path of None \<Rightarrow> st | Some p \<Rightarrow> fst (import_v1 C v1_readable f1 fresh p st));
               c = \<lparr>co_store = st1, co_servers = [], co_statuses = [], co_capabilities = [], co_sent = []\<rparr>
           in (to_disk st1, Ok (foldl (\<lambda>c key. start_supervisor key c) c (keys (sd_servers (to_data st1))), warning))))"

section \<open>Queries\<close>

record server_view =
  sw_key :: rstring
  sw_url :: rstring
  sw_display_name :: rstring
  sw_username :: "rstring option"
  sw_uses_ssh_key :: bool
  sw_remember_login :: bool
  sw_shells :: "(rstring \<times> rstring) list"
  sw_status :: "server_status option"
  sw_file_uploads :: bool

definition core_bootstrap :: "core \<Rightarrow> server_view list" where
  "core_bootstrap c =
     map (\<lambda>(key, r). \<lparr>sw_key = key, sw_url = rc_url r, sw_display_name = rc_display_name r, sw_username = rc_username r,
            sw_uses_ssh_key = (rc_ssh_key_path r \<noteq> None), sw_remember_login = rc_remember_login r,
            sw_shells = map (\<lambda>(sh, h). (sh, hr_name h)) (rc_shells r), sw_status = map_of (co_statuses c) key,
            sw_file_uploads = (case map_of (co_capabilities c) key of None \<Rightarrow> False | Some b \<Rightarrow> b)\<rparr>)
       (sd_servers (to_data (co_store c)))"

section \<open>Commands\<close>

definition core_send :: "rstring \<Rightarrow> server_cmd \<Rightarrow> bool \<Rightarrow> core \<Rightarrow> core \<times> (core_error + unit)" where
  "core_send key cmd alive c =
     (if key \<notin> set (keys (co_servers c)) then (c, Err (CoText (lit ''unknown server'')))
      else if \<not> alive then (c, Err (CoText (lit ''server task stopped'')))
      else (c\<lparr>co_sent := co_sent c @ [(key, cmd)]\<rparr>, Ok ()))"

definition core_open_shell :: "rstring \<Rightarrow> rstring \<Rightarrow> nat \<Rightarrow> nat \<Rightarrow> bool \<Rightarrow> core \<Rightarrow> core \<times> (core_error + unit)" where
  "core_open_shell key name cols rows = core_send key (ScOpen name cols rows)"

definition core_attach_shell :: "rstring \<Rightarrow> rstring \<Rightarrow> nat \<Rightarrow> nat \<Rightarrow> bool \<Rightarrow> core \<Rightarrow> core \<times> (core_error + unit)" where
  "core_attach_shell key shell_hex cols rows = core_send key (ScAttach shell_hex cols rows)"

definition core_shell_input :: "rstring \<Rightarrow> rstring \<Rightarrow> bytes \<Rightarrow> bool \<Rightarrow> core \<Rightarrow> core \<times> (core_error + unit)" where
  "core_shell_input key shell_hex bs = core_send key (ScInput shell_hex bs)"

definition core_resize_shell :: "rstring \<Rightarrow> rstring \<Rightarrow> nat \<Rightarrow> nat \<Rightarrow> bool \<Rightarrow> core \<Rightarrow> core \<times> (core_error + unit)" where
  "core_resize_shell key shell_hex cols rows = core_send key (ScResize shell_hex cols rows)"

definition core_detach_shell :: "rstring \<Rightarrow> rstring \<Rightarrow> bool \<Rightarrow> core \<Rightarrow> core \<times> (core_error + unit)" where
  "core_detach_shell key shell_hex = core_send key (ScDetach shell_hex)"

definition core_terminate_shell :: "rstring \<Rightarrow> rstring \<Rightarrow> bool \<Rightarrow> core \<Rightarrow> core \<times> (core_error + unit)" where
  "core_terminate_shell key shell_hex = core_send key (ScTerminate shell_hex)"

definition core_request_history :: "rstring \<Rightarrow> rstring \<Rightarrow> nat \<Rightarrow> nat \<Rightarrow> bool \<Rightarrow> core \<Rightarrow> core \<times> (core_error + unit)" where
  "core_request_history key shell_hex before_line_id max_lines = core_send key (ScHistory shell_hex before_line_id max_lines)"

definition core_cancel_upload :: "rstring \<Rightarrow> rstring \<Rightarrow> bool \<Rightarrow> core \<Rightarrow> core \<times> (core_error + unit)" where
  "core_cancel_upload key shell_hex = core_send key (ScCancelUpload shell_hex)"

definition core_login :: "rstring \<Rightarrow> rstring \<Rightarrow> bool \<Rightarrow> core \<Rightarrow> core \<times> (core_error + unit)" where
  "core_login key password = core_send key (ScLogin password)"

text \<open>An upload takes a slot first; the slot comes back when the command is refused or the upload ends.\<close>

definition core_upload_file :: "rstring \<Rightarrow> rstring \<Rightarrow> bool \<Rightarrow> core \<Rightarrow> core \<times> (core_error + unit)" where
  "core_upload_file key shell_hex alive c =
     (case map_of (co_servers c) key of
        None \<Rightarrow> (c, Err (CoText (lit ''unknown server'')))
      | Some slots \<Rightarrow>
          if slots = 0 then (c, Err (CoText (lit ''too many pending uploads for this server'')))
          else if \<not> alive then (c, Err (CoText (lit ''server task stopped'')))
          else (c\<lparr>co_servers := assoc_put key (slots - 1) (co_servers c), co_sent := co_sent c @ [(key, ScUpload shell_hex)]\<rparr>, Ok ()))"

definition core_socks :: "rstring \<Rightarrow> socks_action \<Rightarrow> bool \<Rightarrow> core \<Rightarrow> core \<times> cmd_reply" where
  "core_socks key action accepted c =
     (if map_of (co_statuses c) key \<noteq> Some Connected then
        (c, case action of
              SxStart _ \<Rightarrow> RyErr (CoText (lit ''connect to the server before starting SOCKS''))
            | _ \<Rightarrow> RySocks False None)
      else if key \<notin> set (keys (co_servers c)) then (c, RyErr (CoText (lit ''unknown server'')))
      else if \<not> accepted then (c, RyErr (CoText (lit ''server is busy or disconnected'')))
      else (c\<lparr>co_sent := co_sent c @ [(key, ScSocks action False)]\<rparr>, RyPassed))"

section \<open>Changes of the store\<close>

definition core_store_result :: "core \<Rightarrow> store \<times> (desktop_store_error + unit) \<Rightarrow> core \<times> (desktop_store_error + unit)" where
  "core_store_result c res = (c\<lparr>co_store := fst res\<rparr>, snd res)"

definition core_add_server :: "store_codec \<Rightarrow> nat option \<Rightarrow> rstring \<Rightarrow> server_record \<Rightarrow> core \<Rightarrow> core \<times> (desktop_store_error + rstring)" where
  "core_add_server C f fresh config c =
     (case add_server C f fresh
             (config\<lparr>rc_url := normalize_url (rc_url config), rc_grant := None, rc_shells := [], rc_pending_opens := []\<rparr>)
             (co_store c) of
        (st, Inl e) \<Rightarrow> (c\<lparr>co_store := st\<rparr>, Err e)
      | (st, Inr key) \<Rightarrow> (start_supervisor key (c\<lparr>co_store := st\<rparr>), Ok key))"

definition core_remove_server :: "store_codec \<Rightarrow> nat option \<Rightarrow> rstring \<Rightarrow> core \<Rightarrow> core \<times> (desktop_store_error + unit)" where
  "core_remove_server C f key c =
     core_store_result
       (c\<lparr>co_servers := assoc_del key (co_servers c), co_statuses := assoc_del key (co_statuses c),
          co_capabilities := assoc_del key (co_capabilities c)\<rparr>)
       (remove_server C f key (co_store c))"

definition core_set_remember_login :: "store_codec \<Rightarrow> nat option \<Rightarrow> rstring \<Rightarrow> bool \<Rightarrow> core \<Rightarrow> core \<times> (desktop_store_error + unit)" where
  "core_set_remember_login C f key remember c = core_store_result c (set_remember_login C f key remember (co_store c))"

definition core_forget_shell :: "store_codec \<Rightarrow> nat option \<Rightarrow> rstring \<Rightarrow> rstring \<Rightarrow> core \<Rightarrow> core \<times> (desktop_store_error + unit)" where
  "core_forget_shell C f key shell_hex c = core_store_result c (remove_shell C f key shell_hex (co_store c))"

definition core_rename_shell :: "store_codec \<Rightarrow> nat option \<Rightarrow> rstring \<Rightarrow> rstring \<Rightarrow> rstring \<Rightarrow> core \<Rightarrow> core \<times> (desktop_store_error + unit)" where
  "core_rename_shell C f key shell_hex name c = core_store_result c (rename_shell C f key shell_hex name (co_store c))"

section \<open>Every supervisor has a stored server\<close>

text \<open>What happens to the interface; supervisors change records of the shared store and give slots back.\<close>

datatype core_ev =
    CvSend rstring server_cmd bool
  | CvUpload rstring rstring bool
  | CvSlotFreed rstring
  | CvSocks rstring socks_action bool
  | CvAdd "nat option" rstring server_record
  | CvRemove "nat option" rstring
  | CvRemember "nat option" rstring bool
  | CvForget "nat option" rstring rstring
  | CvRename "nat option" rstring rstring rstring
  | CvSupervisor "nat option" rstring "server_record \<Rightarrow> server_record"
  | CvStatus rstring server_status

fun core_step :: "store_codec \<Rightarrow> core \<Rightarrow> core_ev \<Rightarrow> core" where
  "core_step C c (CvSend key cmd alive) = fst (core_send key cmd alive c)"
| "core_step C c (CvUpload key sh alive) = fst (core_upload_file key sh alive c)"
| "core_step C c (CvSlotFreed key) = c\<lparr>co_servers := assoc_upd key (\<lambda>n. min UPLOAD_QUEUE (n + 1)) (co_servers c)\<rparr>"
| "core_step C c (CvSocks key action accepted) = fst (core_socks key action accepted c)"
| "core_step C c (CvAdd f fresh r) = fst (core_add_server C f fresh r c)"
| "core_step C c (CvRemove f key) = fst (core_remove_server C f key c)"
| "core_step C c (CvRemember f key b) = fst (core_set_remember_login C f key b c)"
| "core_step C c (CvForget f key sh) = fst (core_forget_shell C f key sh c)"
| "core_step C c (CvRename f key sh n) = fst (core_rename_shell C f key sh n c)"
| "core_step C c (CvSupervisor f key g) = c\<lparr>co_store := fst (mutate_server C f key g (co_store c))\<rparr>"
| "core_step C c (CvStatus key x) = c\<lparr>co_statuses := assoc_put key x (co_statuses c)\<rparr>"

definition stored_keys :: "store \<Rightarrow> rstring set" where
  "stored_keys st = set (keys (sd_servers (to_data st)))"

definition core_inv :: "store_codec \<Rightarrow> core \<Rightarrow> bool" where
  "core_inv C c \<longleftrightarrow> store_inv C (co_store c) \<and> set (keys (co_servers c)) \<subseteq> stored_keys (co_store c)
     \<and> list_all (\<lambda>n. n \<le> UPLOAD_QUEUE) (map snd (co_servers c))"

lemma set_keys_put: "set (keys (assoc_put k v xs)) = insert k (set (keys xs))"
  by (auto simp: assoc_put_def)

lemma commit_keys:
  "stored_keys (fst (store_commit C f data st)) = stored_keys st
   \<or> stored_keys (fst (store_commit C f data st)) = set (keys (sd_servers data)) \<and> snd (store_commit C f data st) = Ok ()"
  by (auto simp: store_commit_def stored_keys_def split: prod.split sum.split)

lemma mutate_keys: "stored_keys (fst (mutate_server C f key g st)) = stored_keys st"
proof (cases "map_of (sd_servers (to_data st)) key")
  case (Some r)
  then have "key \<in> set (keys (sd_servers (to_data st)))" using map_of_None_keys [of "sd_servers (to_data st)" key] by simp
  then show ?thesis
    using Some commit_keys [of C f "(to_data st)\<lparr>sd_servers := assoc_put key (g r) (sd_servers (to_data st))\<rparr>" st]
    by (auto simp: mutate_server_def stored_keys_def set_keys_put insert_absorb)
qed (simp add: mutate_server_def)

lemma all_snd_put:
  "list_all P (map snd xs) \<Longrightarrow> P v \<Longrightarrow> list_all P (map snd (assoc_put k v xs))"
  by (auto simp: list_all_iff assoc_put_def assoc_upd_def split: if_splits)

lemma supervised_start:
  assumes "core_inv C c" and "key \<in> stored_keys (co_store c)"
  shows "core_inv C (start_supervisor key c)"
  using assms by (simp add: core_inv_def start_supervisor_def set_keys_put all_snd_put)

lemma mutate_core_inv:
  assumes "store_faithful C" and "core_inv C c"
  shows "core_inv C (c\<lparr>co_store := fst (mutate_server C f key g (co_store c))\<rparr>)"
  using assms mutate_inv [OF assms(1)] by (simp add: core_inv_def mutate_keys)

lemma add_core_inv:
  assumes "store_faithful C" and "core_inv C c"
  shows "core_inv C (fst (core_add_server C f fresh config c))"
proof -
  let ?r = "config\<lparr>rc_url := normalize_url (rc_url config), rc_grant := None, rc_shells := [], rc_pending_opens := []\<rparr>"
  let ?data = "(to_data (co_store c))\<lparr>sd_servers := assoc_put fresh ?r (sd_servers (to_data (co_store c)))\<rparr>"
  obtain st x where s: "store_commit C f ?data (co_store c) = (st, x)" by fastforce
  have i: "store_inv C st" using commit_inv [OF assms(1), of "co_store c" ?data f] assms(2) s
    by (simp add: core_inv_def store_inv_def)
  have k: "stored_keys st = stored_keys (co_store c) \<or> stored_keys st = insert fresh (stored_keys (co_store c)) \<and> x = Ok ()"
    using commit_keys [of C f ?data "co_store c"] s by (auto simp: set_keys_put stored_keys_def)
  have c: "core_inv C (c\<lparr>co_store := st\<rparr>)" using assms(2) i k by (auto simp: core_inv_def)
  show ?thesis
  proof (cases x)
    case (Inl e)
    then show ?thesis using s c by (simp add: core_add_server_def add_server_def)
  next
    case (Inr u)
    then have "fresh \<in> stored_keys st"
      using s by (auto simp: store_commit_def stored_keys_def set_keys_put split: prod.splits sum.splits)
    then show ?thesis using s c Inr supervised_start [OF c] by (simp add: core_add_server_def add_server_def)
  qed
qed

lemma remove_core_inv:
  assumes "store_faithful C" and "core_inv C c"
  shows "core_inv C (fst (core_remove_server C f key c))"
proof -
  let ?data = "(to_data (co_store c))\<lparr>sd_servers := assoc_del key (sd_servers (to_data (co_store c)))\<rparr>"
  have "store_inv C (fst (store_commit C f ?data (co_store c)))"
    using commit_inv [OF assms(1), of "co_store c" ?data f] assms(2) by (simp add: core_inv_def store_inv_def)
  moreover have "stored_keys (co_store c) - {key} \<subseteq> stored_keys (fst (store_commit C f ?data (co_store c)))"
    using commit_keys [of C f ?data "co_store c"] by (auto simp: set_keys_del stored_keys_def)
  moreover have "list_all (\<lambda>n. n \<le> UPLOAD_QUEUE) (map snd (assoc_del key (co_servers c)))"
    using assms(2) by (auto simp: core_inv_def list_all_iff assoc_del_def)
  ultimately show ?thesis using assms(2)
    by (auto simp: core_remove_server_def core_store_result_def remove_server_def core_inv_def set_keys_del)
qed

interpretation gui: invariant_machine "core_step C" "\<lambda>c. store_faithful C \<and> core_inv C c" for C
proof unfold_locales
  fix c i
  assume a: "store_faithful C \<and> core_inv C c"
  then have f: "store_faithful C" and i: "core_inv C c" by simp_all
  have "core_inv C (core_step C c i)"
  proof (cases i)
    case (CvAdd g fresh r)
    then show ?thesis using add_core_inv [OF f i] by simp
  next
    case (CvRemove g key)
    then show ?thesis using remove_core_inv [OF f i] by simp
  next
    case (CvUpload key sh alive)
    show ?thesis
    proof (cases "map_of (co_servers c) key")
      case (Some n)
      then have "(key, n) \<in> set (co_servers c)" by (rule map_of_SomeD)
      then have "n \<le> UPLOAD_QUEUE" "key \<in> set (keys (co_servers c))"
        using i by (auto simp: core_inv_def list_all_iff keys_def image_iff intro: rev_bexI)
      then show ?thesis using i Some CvUpload by (auto simp: core_upload_file_def core_inv_def set_keys_put intro!: all_snd_put)
    qed (use i CvUpload in \<open>simp add: core_upload_file_def\<close>)
  next
    case (CvSlotFreed key)
    have "list_all (\<lambda>n. n \<le> UPLOAD_QUEUE) (map snd (assoc_upd key (\<lambda>n. min UPLOAD_QUEUE (n + 1)) (co_servers c)))"
      using i by (auto simp: core_inv_def list_all_iff assoc_upd_def)
    then show ?thesis using i CvSlotFreed by (simp add: core_inv_def)
  qed (use i mutate_core_inv [OF f i] in \<open>auto simp: core_send_def core_socks_def core_inv_def core_store_result_def
      core_set_remember_login_def core_forget_shell_def core_rename_shell_def set_remember_login_def remove_shell_def rename_shell_def\<close>)
  then show "store_faithful C \<and> core_inv C (core_step C c i)" using a by simp
qed

text \<open>
  A client starts supervised: after the start, and after any commands, additions and removals, whatever the disk fails
  at, each running supervisor belongs to a stored server and holds at most eight upload slots.
\<close>

lemma spawn_inv:
  assumes "store_faithful C" and "store_load C readable f d = (d1, Inr (st, w))" and "store_inv C st"
    and "core_spawn C readable f v1_path v1_readable f1 fresh d = (d2, Inr (c, w'))"
  shows "core_inv C c \<and> set (keys (co_servers c)) = stored_keys (co_store c)"
proof -
  let ?st = "case v1_path of None \<Rightarrow> st | Some p \<Rightarrow> fst (import_v1 C v1_readable f1 fresh p st)"
  let ?c0 = "\<lparr>co_store = ?st, co_servers = [], co_statuses = [], co_capabilities = [], co_sent = []\<rparr>"
  have s: "store_inv C ?st" using assms(3) import_inv [OF assms(1,3)] by (simp split: option.split)
  have c: "c = foldl (\<lambda>c key. start_supervisor key c) ?c0 (keys (sd_servers (to_data ?st)))"
    using assms(2,4) by (simp add: core_spawn_def Let_def)
  have "core_inv C (foldl (\<lambda>c key. start_supervisor key c) b ks)
      \<and> set (keys (co_servers (foldl (\<lambda>c key. start_supervisor key c) b ks))) = set (keys (co_servers b)) \<union> set ks
      \<and> co_store (foldl (\<lambda>c key. start_supervisor key c) b ks) = co_store b"
    if "core_inv C b" "set ks \<subseteq> stored_keys (co_store b)" for b ks
    using that
    by (induction ks arbitrary: b) (use supervised_start in \<open>auto simp: start_supervisor_def set_keys_put\<close>)
  from this [of ?c0 "keys (sd_servers (to_data ?st))"] show ?thesis
    using s c by (simp add: core_inv_def stored_keys_def)
qed

text \<open>A removal whose save fails leaves the server stored and without a supervisor until the next start.\<close>

lemma removed_unsupervised:
  assumes "key \<in> stored_keys (co_store c)" and "f = Some n"
  shows "key \<in> stored_keys (co_store (fst (core_remove_server C f key c)))
    \<and> key \<notin> set (keys (co_servers (fst (core_remove_server C f key c))))"
  using assms
  by (auto simp: core_remove_server_def core_store_result_def remove_server_def store_commit_def store_save_def
      stored_keys_def set_keys_del Let_def split: prod.split sum.split)

end
