(* ===== verification/Ssh_Adapter.thy ===== *)
theory Ssh_Adapter
  imports Ssh_Auth Socks Native_Client
begin

text \<open>
  The SSH compatibility adapter (\<open>crates/ssh-adapter/src/lib.rs\<close>): its configuration, the files it reads, and one
  connection: the handler that the SSH server told and the task that bridges its one channel to a
  shell. The SSH package is what it answers: whether a send on the channel succeeds, the text of
  an offered key, whether a host key parses and is encrypted.
\<close>

unbundle bit_operations_syntax

section \<open>Configuration\<close>

definition ADAPTER_MAX_CONNECTIONS :: nat where "ADAPTER_MAX_CONNECTIONS = 256"
definition MAX_AUTHORIZED_KEYS_BYTES :: nat where "MAX_AUTHORIZED_KEYS_BYTES = 256 * 1024"
definition MAX_HOST_KEY_BYTES :: nat where "MAX_HOST_KEY_BYTES = 64 * 1024"
definition SSH_PACKET_BYTES :: nat where "SSH_PACKET_BYTES = 32 * 1024"
definition INPUT_MESSAGES :: nat where "INPUT_MESSAGES = 64"
definition MAX_TERMINAL_DIMENSION :: nat where "MAX_TERMINAL_DIMENSION = 4096"
definition MAX_TERM_BYTES :: nat where "MAX_TERM_BYTES = 64"
definition MAX_LOCAL_USER_BYTES :: nat where "MAX_LOCAL_USER_BYTES = 128"

fun is_loopback :: "ip_addr \<Rightarrow> bool" where
  "is_loopback (V4 octets) \<longleftrightarrow> octets \<noteq> [] \<and> hd octets = 127"
| "is_loopback (V6 octets) \<longleftrightarrow> octets = replicate 15 0 @ [1]"

record 'pub adapter_config =
  ac_listen :: ip_addr
  ac_remote_url :: rstring
  ac_remote_auth :: client_auth
  ac_local_user :: rstring
  ac_authorized_keys :: "'pub list"
  ac_password_auth :: "(rstring \<Rightarrow> rstring \<Rightarrow> bool) option"
  ac_max_connections :: nat

datatype config_error = NotLoopback | BadRemoteUrl | BadLocalUser | BadMaxConnections

definition adapter_validate :: "'pub adapter_config \<Rightarrow> config_error + unit" where
  "adapter_validate c =
     (if \<not> is_loopback (ac_listen c) then Err NotLoopback
      else if len (ac_remote_url c) > 2048 \<or> \<not> prefix (lit ''http://'') (ac_remote_url c) then Err BadRemoteUrl
      else if ac_local_user c = [] \<or> len (ac_local_user c) > MAX_LOCAL_USER_BYTES then Err BadLocalUser
      else if ac_max_connections c = 0 \<or> ac_max_connections c > ADAPTER_MAX_CONNECTIONS then Err BadMaxConnections
      else Ok ())"

section \<open>Files\<close>

text \<open>A file as the checks see it: its size and mode when it was opened, and what reading it gives later.\<close>

record opened_file =
  of_size :: "nat option"
  of_mode :: u32
  of_content :: "bytes option"

datatype load_error = LoOpen | LoStat | LoRead | LoTooLarge | LoMode | LoUtf8 | LoKey ssh_error | LoParse | LoEncrypted

definition open_bounded :: "opened_file option \<Rightarrow> nat \<Rightarrow> load_error + opened_file" where
  "open_bounded file maximum =
     (case file of
        None \<Rightarrow> Err LoOpen
      | Some f \<Rightarrow> (case of_size f of None \<Rightarrow> Err LoStat | Some n \<Rightarrow> if n > maximum then Err LoTooLarge else Ok f))"

definition read_opened_bounded :: "opened_file \<Rightarrow> nat \<Rightarrow> load_error + bytes" where
  "read_opened_bounded f maximum =
     (case of_content f of
        None \<Rightarrow> Err LoRead
      | Some content \<Rightarrow>
          (let bs = take (maximum + 1) content in if length bs > maximum then Err LoTooLarge else Ok bs))"

definition load_authorized_keys :: "('pub, 'kd, 'sig) ssh_lib \<Rightarrow> opened_file option \<Rightarrow> load_error + 'pub list" where
  "load_authorized_keys L file =
     (case open_bounded file MAX_AUTHORIZED_KEYS_BYTES of
        Inl e \<Rightarrow> Err e
      | Inr f \<Rightarrow>
          (case read_opened_bounded f MAX_AUTHORIZED_KEYS_BYTES of
             Inl e \<Rightarrow> Err e
           | Inr bs \<Rightarrow>
               (case from_utf8 bs of
                  Inl _ \<Rightarrow> Err LoUtf8
                | Inr txt \<Rightarrow> (case from_authorized_keys L txt of Inl e \<Rightarrow> Err (LoKey e) | Inr authorized \<Rightarrow> Ok authorized))))"

definition load_host_key :: "(bytes \<Rightarrow> 'key option) \<Rightarrow> ('key \<Rightarrow> bool) \<Rightarrow> opened_file option \<Rightarrow> load_error + 'key" where
  "load_host_key parse is_encrypted file =
     (case open_bounded file MAX_HOST_KEY_BYTES of
        Inl e \<Rightarrow> Err e
      | Inr f \<Rightarrow>
          if of_mode f AND 0x3F \<noteq> 0 then Err LoMode
          else
            (case read_opened_bounded f MAX_HOST_KEY_BYTES of
               Inl e \<Rightarrow> Err e
             | Inr bs \<Rightarrow>
                 (case parse bs of
                    None \<Rightarrow> Err LoParse
                  | Some key \<Rightarrow> if is_encrypted key then Err LoEncrypted else Ok key)))"

section \<open>Authentication\<close>

text \<open>\<open>line\<close> is the offered key in the text form, if it has one; \<open>joined\<close> says that the verifier's task did not panic.\<close>

definition adapter_authorized :: "('pub, 'kd, 'sig) ssh_lib \<Rightarrow> 'pub adapter_config \<Rightarrow> rstring \<Rightarrow> rstring option \<Rightarrow> bool" where
  "adapter_authorized L c user line =
     (user = ac_local_user c
      \<and> (case line of None \<Rightarrow> False
         | Some l \<Rightarrow> (case is_authorized L (ac_authorized_keys c) l of Inl _ \<Rightarrow> False | Inr _ \<Rightarrow> True)))"

definition adapter_auth_password :: "'pub adapter_config \<Rightarrow> rstring \<Rightarrow> rstring \<Rightarrow> bool \<Rightarrow> bool" where
  "adapter_auth_password c user password joined =
     (case ac_password_auth c of
        None \<Rightarrow> False
      | Some verify \<Rightarrow>
          if user = ac_local_user c \<and> password \<noteq> [] \<and> len password \<le> MAX_PASSWORD_BYTES
          then joined \<and> verify user password else False)"

section \<open>One connection\<close>

record channel_state =
  cn_id :: nat
  cn_cols :: u16
  cn_rows :: u16
  cn_pty_accepted :: bool
  cn_shell_started :: bool

text \<open>
  What goes to the SSH client and to the daemon. The channel's three senders to the bridge are created together; the
  bridge sees a queue of input, the last size if it has not been applied, and whether it was
  cancelled or its senders dropped.
\<close>

datatype to_client = TcAccept nat | TcSuccess nat | TcFailure nat | TcClose nat | TcData bytes | TcExitStatus nat | TcEof | TcEnd

datatype to_daemon = TdOpened bytes | TdInput bytes | TdResize u16 u16 | TdPong nat | TdTerminate bytes

datatype bridge_phase = BrIdle | BrRunning bytes | BrDone bool

record adapter_conn =
  an_channel :: "channel_state option"
  an_senders :: bool
  an_queue :: "bytes list"
  an_resized :: "(u16 \<times> u16) option"
  an_cancelled :: bool
  an_bridge :: bridge_phase
  an_client :: "to_client list"
  an_daemon :: "to_daemon list"
  an_accepted :: "bytes list"
  an_dropped :: bool

definition adapter_new :: adapter_conn where
  "adapter_new = \<lparr>an_channel = None, an_senders = False, an_queue = [], an_resized = None, an_cancelled = False,
     an_bridge = BrIdle, an_client = [], an_daemon = [], an_accepted = [], an_dropped = False\<rparr>"

definition to_ssh :: "to_client list \<Rightarrow> adapter_conn \<Rightarrow> adapter_conn" where
  "to_ssh xs s = s\<lparr>an_client := an_client s @ xs\<rparr>"

definition to_holdfast :: "to_daemon list \<Rightarrow> adapter_conn \<Rightarrow> adapter_conn" where
  "to_holdfast xs s = s\<lparr>an_daemon := an_daemon s @ xs\<rparr>"

definition the_channel :: "nat \<Rightarrow> adapter_conn \<Rightarrow> channel_state option" where
  "the_channel i s = (case an_channel s of None \<Rightarrow> None | Some c \<Rightarrow> if cn_id c = i then Some c else None)"

definition channel_open_session :: "nat \<Rightarrow> adapter_conn \<Rightarrow> adapter_conn" where
  "channel_open_session i s =
     (if an_channel s \<noteq> None then s
      else to_ssh [TcAccept i] (s\<lparr>an_channel := Some \<lparr>cn_id = i, cn_cols = 80, cn_rows = 24, cn_pty_accepted = False, cn_shell_started = False\<rparr>\<rparr>))"

definition pty_request :: "nat \<Rightarrow> rstring \<Rightarrow> u32 \<Rightarrow> u32 \<Rightarrow> adapter_conn \<Rightarrow> adapter_conn" where
  "pty_request i term_name cols rows s =
     (case the_channel i s of
        None \<Rightarrow> to_ssh [TcFailure i] s
      | Some c \<Rightarrow>
          if cn_shell_started c \<or> len term_name > MAX_TERM_BYTES \<or> unat cols > MAX_TERMINAL_DIMENSION \<or> unat rows > MAX_TERMINAL_DIMENSION
          then to_ssh [TcFailure i] s
          else to_ssh [TcSuccess i]
            (s\<lparr>an_channel := Some (c\<lparr>cn_cols := if cols = 0 then 80 else ucast cols, cn_rows := if rows = 0 then 24 else ucast rows,
                                      cn_pty_accepted := True\<rparr>)\<rparr>))"

text \<open>
  Opening the shell: the answers to the connection, the open and the attach. A shell that cannot be
  attached is terminated.
\<close>

definition open_remote ::
  "client_error + unit \<Rightarrow> client_error + bytes \<times> bytes \<Rightarrow> attach_error + attached_shell
     \<Rightarrow> to_daemon list \<times> (bytes \<times> attached_shell) option" where
  "open_remote connected opened attached =
     (case connected of
        Inl _ \<Rightarrow> ([], None)
      | Inr _ \<Rightarrow>
          (case opened of
             Inl _ \<Rightarrow> ([], None)
           | Inr (shell_id, token) \<Rightarrow>
               (case attached of
                  Inl _ \<Rightarrow> ([TdOpened shell_id, TdTerminate shell_id], None)
                | Inr shell \<Rightarrow> ([TdOpened shell_id], Some (shell_id, shell)))))"

text \<open>The bridge first shows the snapshot; \<open>sent\<close> says that this succeeds.\<close>

definition bridge_start :: "bytes \<Rightarrow> bytes \<Rightarrow> bool \<Rightarrow> adapter_conn \<Rightarrow> adapter_conn" where
  "bridge_start shell_id snapshot sent s =
     (if snapshot = [] then s\<lparr>an_bridge := BrRunning shell_id\<rparr>
      else if sent then to_ssh [TcData snapshot] (s\<lparr>an_bridge := BrRunning shell_id\<rparr>)
      else to_holdfast [TdTerminate shell_id] (s\<lparr>an_bridge := BrDone False\<rparr>))"

definition shell_request ::
  "nat \<Rightarrow> client_error + unit \<Rightarrow> client_error + bytes \<times> bytes \<Rightarrow> attach_error + attached_shell \<Rightarrow> bool \<Rightarrow> adapter_conn \<Rightarrow> adapter_conn" where
  "shell_request i connected opened attached sent s =
     (case the_channel i s of
        None \<Rightarrow> to_ssh [TcFailure i] s
      | Some c \<Rightarrow>
          if \<not> cn_pty_accepted c \<or> cn_shell_started c then to_ssh [TcFailure i] s
          else
            (let s1 = s\<lparr>an_channel := Some (c\<lparr>cn_shell_started := True\<rparr>)\<rparr> in
             case open_remote connected opened attached of
               (told, None) \<Rightarrow> to_ssh [TcFailure i] (to_holdfast told s1)
             | (told, Some (shell_id, shell)) \<Rightarrow>
                 bridge_start shell_id (as_snapshot shell) sent
                   (to_ssh [TcSuccess i] (to_holdfast told (s1\<lparr>an_senders := True\<rparr>)))))"

text \<open>Input waits for a place in the queue; the event stands for the moment it is taken, or for the end of the bridge.\<close>

definition channel_data :: "nat \<Rightarrow> bytes \<Rightarrow> adapter_conn \<Rightarrow> adapter_conn" where
  "channel_data i bs s =
     (case the_channel i s of
        None \<Rightarrow> to_ssh [TcClose i] s
      | Some c \<Rightarrow>
          if \<not> cn_shell_started c \<or> \<not> an_senders s \<or> length bs > SSH_PACKET_BYTES then to_ssh [TcClose i] s
          else
            (case an_bridge s of
               BrRunning _ \<Rightarrow> if length (an_queue s) < INPUT_MESSAGES then s\<lparr>an_queue := an_queue s @ [bs], an_accepted := an_accepted s @ [bs]\<rparr> else s
             | _ \<Rightarrow> to_ssh [TcClose i] s))"

definition window_change_request :: "nat \<Rightarrow> u32 \<Rightarrow> u32 \<Rightarrow> adapter_conn \<Rightarrow> adapter_conn" where
  "window_change_request i cols rows s =
     (let valid = cols > 0 \<and> rows > 0 \<and> unat cols \<le> MAX_TERMINAL_DIMENSION \<and> unat rows \<le> MAX_TERMINAL_DIMENSION in
      case the_channel i s of
        None \<Rightarrow> to_ssh [TcFailure i] s
      | Some c \<Rightarrow>
          if \<not> valid then to_ssh [TcFailure i] s
          else to_ssh [TcSuccess i]
            (s\<lparr>an_channel := Some (c\<lparr>cn_cols := ucast cols, cn_rows := ucast rows\<rparr>),
               an_resized := if an_senders s then Some (ucast cols, ucast rows) else an_resized s\<rparr>))"

definition cancel_channel :: "nat \<Rightarrow> adapter_conn \<Rightarrow> adapter_conn" where
  "cancel_channel i s =
     (case the_channel i s of
        None \<Rightarrow> s
      | Some c \<Rightarrow> if an_senders s then s\<lparr>an_senders := False, an_cancelled := True\<rparr> else s)"

definition handler_drop :: "adapter_conn \<Rightarrow> adapter_conn" where
  "handler_drop s = (if an_senders s then s\<lparr>an_senders := False, an_cancelled := True, an_dropped := True\<rparr> else s\<lparr>an_dropped := True\<rparr>)"

section \<open>The bridge\<close>

definition bridge_end :: "bytes \<Rightarrow> adapter_conn \<Rightarrow> adapter_conn" where
  "bridge_end shell_id s =
     to_ssh [TcExitStatus 255, TcEof, TcEnd] (to_holdfast [TdTerminate shell_id] (s\<lparr>an_bridge := BrDone False\<rparr>))"

definition bridge_event :: "bytes \<Rightarrow> client_error + shell_event \<Rightarrow> bool \<Rightarrow> adapter_conn \<Rightarrow> adapter_conn" where
  "bridge_event shell_id ev sent s =
     (case ev of
        Inr (EvOutput bs) \<Rightarrow> if sent then to_ssh [TcData bs] s else bridge_end shell_id s
      | Inr (EvExited code) \<Rightarrow>
          to_ssh [TcExitStatus (if code < 0 then 255 else nat code), TcEof, TcEnd] (s\<lparr>an_bridge := BrDone True\<rparr>)
      | Inr (EvPing nonce) \<Rightarrow> if sent then to_holdfast [TdPong nonce] s else bridge_end shell_id s
      | Inl _ \<Rightarrow> bridge_end shell_id s)"

text \<open>
  One turn of the loop, whose branches are tried in order: cancellation, input, the size, an event of
  the shell if there is one. \<open>sent\<close> says that the send the turn makes succeeds.
\<close>

definition bridge_turn :: "(client_error + shell_event) option \<Rightarrow> bool \<Rightarrow> adapter_conn \<Rightarrow> adapter_conn" where
  "bridge_turn ev sent s =
     (case an_bridge s of
        BrRunning shell_id \<Rightarrow>
          if an_cancelled s then bridge_end shell_id s
          else
            (case an_queue s of
               bs # rest \<Rightarrow>
                 if sent then to_holdfast [TdInput bs] (s\<lparr>an_queue := rest\<rparr>) else bridge_end shell_id (s\<lparr>an_queue := rest\<rparr>)
             | [] \<Rightarrow>
                 if \<not> an_senders s then bridge_end shell_id s
                 else
                   (case an_resized s of
                      Some (cols, rows) \<Rightarrow>
                        if sent then to_holdfast [TdResize cols rows] (s\<lparr>an_resized := None\<rparr>) else bridge_end shell_id (s\<lparr>an_resized := None\<rparr>)
                    | None \<Rightarrow> (case ev of None \<Rightarrow> s | Some e \<Rightarrow> bridge_event shell_id e sent s)))
      | _ \<Rightarrow> s)"

datatype adapter_ev =
    AvOpen nat
  | AvPty nat rstring u32 u32
  | AvShell nat "client_error + unit" "client_error + bytes \<times> bytes" "attach_error + attached_shell" bool
  | AvData nat bytes
  | AvWindow nat u32 u32
  | AvClose nat
  | AvEof nat
  | AvRefused nat
  | AvDrop
  | AvBridge "(client_error + shell_event) option" bool

text \<open>\<open>AvRefused\<close> is a request for a command, a subsystem, a variable, X11 or an agent.\<close>

fun handler_step :: "adapter_conn \<Rightarrow> adapter_ev \<Rightarrow> adapter_conn" where
  "handler_step s (AvOpen i) = channel_open_session i s"
| "handler_step s (AvPty i t cols rows) = pty_request i t cols rows s"
| "handler_step s (AvShell i c p a sent) = shell_request i c p a sent s"
| "handler_step s (AvData i bs) = channel_data i bs s"
| "handler_step s (AvWindow i cols rows) = window_change_request i cols rows s"
| "handler_step s (AvClose i) = cancel_channel i s"
| "handler_step s (AvEof i) = s"
| "handler_step s (AvRefused i) = to_ssh [TcFailure i] s"
| "handler_step s AvDrop = handler_drop s"
| "handler_step s (AvBridge ev sent) = s"

definition adapter_step :: "adapter_conn \<Rightarrow> adapter_ev \<Rightarrow> adapter_conn" where
  "adapter_step s e =
     (case e of AvBridge ev sent \<Rightarrow> bridge_turn ev sent s | _ \<Rightarrow> if an_dropped s then s else handler_step s e)"

text \<open>The accept loop takes a permit before it accepts.\<close>

datatype listener_ev = LnAccepted | LnEnded

fun listener_turn :: "nat \<Rightarrow> nat \<Rightarrow> listener_ev \<Rightarrow> nat" where
  "listener_turn maximum open_now LnAccepted = (if open_now < maximum then open_now + 1 else open_now)"
| "listener_turn maximum open_now LnEnded = open_now - 1"

section \<open>The shell ends with its channel\<close>

fun ordinary :: "to_daemon \<Rightarrow> bool" where
  "ordinary (TdOpened _) = False" | "ordinary (TdTerminate _) = False" | "ordinary _ = True"

text \<open>
  What the daemon is told: one shell is opened; it is terminated at once when it cannot be attached, and as the last
  thing when the bridge ends without its exit.
\<close>

fun daemon_trace :: "bridge_phase \<Rightarrow> to_daemon list \<Rightarrow> bool" where
  "daemon_trace BrIdle told \<longleftrightarrow> told = [] \<or> length told = 2 \<and> (\<exists>i. told = [TdOpened i, TdTerminate i])"
| "daemon_trace (BrRunning i) told \<longleftrightarrow> told \<noteq> [] \<and> hd told = TdOpened i \<and> list_all ordinary (tl told)"
| "daemon_trace (BrDone clean) told \<longleftrightarrow>
     (\<exists>i mid. told = [TdOpened i] @ mid @ (if clean then [] else [TdTerminate i]) \<and> list_all ordinary mid)"

fun ending :: "to_client \<Rightarrow> bool" where
  "ending (TcExitStatus _) = True" | "ending TcEof = True" | "ending TcEnd = True" | "ending _ = False"

text \<open>What the client is told of the end: nothing, or a status, the end of the stream and the close.\<close>

fun told_end :: "bridge_phase \<Rightarrow> to_client list \<Rightarrow> bool" where
  "told_end (BrDone clean) es \<longleftrightarrow> es = [] \<and> \<not> clean \<or> (\<exists>n. es = [TcExitStatus n, TcEof, TcEnd] \<and> (clean \<or> n = 255))"
| "told_end _ es \<longleftrightarrow> es = []"

fun input_of :: "to_daemon \<Rightarrow> bytes list" where
  "input_of (TdInput bs) = [bs]" | "input_of _ = []"

fun size_ok :: "to_daemon \<Rightarrow> bool" where
  "size_ok (TdResize cols rows) \<longleftrightarrow> 0 < unat cols \<and> unat cols \<le> 4096 \<and> 0 < unat rows \<and> unat rows \<le> 4096"
| "size_ok _ \<longleftrightarrow> True"

definition inputs_taken :: "adapter_conn \<Rightarrow> bytes list" where
  "inputs_taken s = concat (map input_of (an_daemon s))"

definition started :: "adapter_conn \<Rightarrow> bool" where
  "started s = (case an_channel s of None \<Rightarrow> False | Some c \<Rightarrow> cn_shell_started c)"

definition bridge_running :: "adapter_conn \<Rightarrow> bool" where
  "bridge_running s = (case an_bridge s of BrRunning _ \<Rightarrow> True | _ \<Rightarrow> False)"

definition adapter_inv :: "adapter_conn \<Rightarrow> bool" where
  "adapter_inv s \<longleftrightarrow>
     daemon_trace (an_bridge s) (an_daemon s) \<and> told_end (an_bridge s) (filter ending (an_client s))
     \<and> prefix (inputs_taken s) (an_accepted s) \<and> (bridge_running s \<longrightarrow> inputs_taken s @ an_queue s = an_accepted s)
     \<and> length (an_queue s) \<le> INPUT_MESSAGES \<and> list_all size_ok (an_daemon s)
     \<and> (case an_resized s of None \<Rightarrow> True | Some (cols, rows) \<Rightarrow> size_ok (TdResize cols rows))
     \<and> (\<not> started s \<longrightarrow> an_bridge s = BrIdle \<and> an_daemon s = [] \<and> \<not> an_senders s \<and> an_accepted s = [] \<and> an_queue s = [])
     \<and> (an_bridge s = BrIdle \<longrightarrow> an_accepted s = [] \<and> an_queue s = [])
     \<and> (bridge_running s \<longrightarrow> an_senders s \<or> an_cancelled s) \<and> (an_dropped s \<longrightarrow> \<not> an_senders s)"

lemmas adapter_defs = adapter_inv_def inputs_taken_def started_def bridge_running_def to_ssh_def to_holdfast_def

lemma ucast_bounded:
  fixes w :: u32
  assumes "unat w \<le> 4096" and "w \<noteq> 0"
  shows "0 < unat (ucast w :: u16) \<and> unat (ucast w :: u16) \<le> 4096"
proof -
  have "unat (ucast w :: u16) = unat w mod 65536" by (simp add: unsigned_ucast_eq take_bit_eq_mod)
  moreover have "0 < unat w" using assms(2) by (simp add: unat_gt_0)
  ultimately show ?thesis using assms(1) by simp
qed

lemma to_ssh_inv: "adapter_inv s \<Longrightarrow> list_all (\<lambda>x. \<not> ending x) xs \<Longrightarrow> adapter_inv (to_ssh xs s)"
proof -
  assume "adapter_inv s" "list_all (\<lambda>x. \<not> ending x) xs"
  moreover have "filter ending xs = []" using calculation(2) by (simp add: list_all_iff filter_empty_conv)
  ultimately show ?thesis by (simp add: adapter_defs)
qed

lemma channel_inv:
  assumes "adapter_inv s" and "cn_shell_started c = started s"
  shows "adapter_inv (s\<lparr>an_channel := Some c\<rparr>)"
proof -
  have "started (s\<lparr>an_channel := Some c\<rparr>) = started s" using assms(2) by (simp add: started_def)
  then show ?thesis using assms(1) by (simp add: adapter_inv_def inputs_taken_def bridge_running_def)
qed

lemma the_channel_Some:
  assumes "the_channel i s = Some c"
  shows "an_channel s = Some c" "cn_shell_started c = started s"
  using assms by (auto simp: the_channel_def started_def split: option.splits if_splits)

lemma pty_inv:
  assumes "adapter_inv s"
  shows "adapter_inv (pty_request i t cols rows s)"
proof (cases "the_channel i s")
  case (Some c)
  show ?thesis using assms Some the_channel_Some(2) [OF Some]
    by (simp add: pty_request_def to_ssh_inv channel_inv)
qed (use assms in \<open>simp add: pty_request_def to_ssh_inv\<close>)

lemma open_session_inv:
  assumes "adapter_inv s"
  shows "adapter_inv (channel_open_session i s)"
proof (cases "an_channel s")
  case None
  then have "\<not> started s" by (simp add: started_def)
  then show ?thesis using assms None by (simp add: channel_open_session_def to_ssh_inv channel_inv)
qed (use assms in \<open>simp add: channel_open_session_def\<close>)

lemma resized_inv:
  assumes "adapter_inv s" and "case z of None \<Rightarrow> True | Some (cols, rows) \<Rightarrow> size_ok (TdResize cols rows)"
  shows "adapter_inv (s\<lparr>an_resized := z\<rparr>)"
  using assms by (simp add: adapter_inv_def started_def bridge_running_def inputs_taken_def)

lemma window_inv:
  assumes "adapter_inv s"
  shows "adapter_inv (window_change_request i cols rows s)"
proof (cases "the_channel i s = None \<or> cols = 0 \<or> rows = 0 \<or> unat cols > 4096 \<or> unat rows > 4096")
  case True
  then show ?thesis using assms
    by (auto simp: window_change_request_def MAX_TERMINAL_DIMENSION_def to_ssh_inv Let_def word_gt_0 split: option.split)
next
  case False
  then obtain c where c: "the_channel i s = Some c" by (cases "the_channel i s") simp_all
  have "adapter_inv (s\<lparr>an_channel := Some (c\<lparr>cn_cols := ucast cols, cn_rows := ucast rows\<rparr>)\<rparr>)" (is "adapter_inv ?s")
    using assms the_channel_Some(2) [OF c] by (intro channel_inv) simp_all
  moreover have "size_ok (TdResize (ucast cols) (ucast rows))"
    using False ucast_bounded [of cols] ucast_bounded [of rows] by simp
  ultimately have "adapter_inv (?s\<lparr>an_resized := if an_senders s then Some (ucast cols, ucast rows) else an_resized s\<rparr>)"
    using assms by (intro resized_inv) (auto simp: adapter_inv_def)
  then have "adapter_inv (to_ssh [TcSuccess i]
      (?s\<lparr>an_resized := if an_senders s then Some (ucast cols, ucast rows) else an_resized s\<rparr>))"
    by (rule to_ssh_inv) simp
  then show ?thesis using c False
    by (simp add: window_change_request_def MAX_TERMINAL_DIMENSION_def Let_def word_gt_0 linorder_not_less)
qed

lemma data_inv:
  assumes "adapter_inv s"
  shows "adapter_inv (channel_data i bs s)"
proof (cases "the_channel i s")
  case (Some c)
  have "adapter_inv (s\<lparr>an_queue := an_queue s @ [bs], an_accepted := an_accepted s @ [bs]\<rparr>)"
    if "an_bridge s = BrRunning j" "length (an_queue s) < INPUT_MESSAGES" "started s" for j
    using assms that by (simp add: adapter_inv_def inputs_taken_def started_def bridge_running_def)
  then show ?thesis using assms Some the_channel_Some(2) [OF Some]
    by (simp add: channel_data_def to_ssh_inv split: bridge_phase.split)
qed (use assms in \<open>simp add: channel_data_def to_ssh_inv\<close>)

lemma cancel_inv: "adapter_inv s \<Longrightarrow> adapter_inv (cancel_channel i s)"
  by (cases "an_senders s"; cases "the_channel i s"; simp add: cancel_channel_def adapter_defs)

lemma drop_inv: "adapter_inv s \<Longrightarrow> adapter_inv (handler_drop s)"
  by (cases "an_senders s"; simp add: handler_drop_def adapter_defs)

lemma idle_opened_inv:
  assumes "adapter_inv s" and "\<not> started s" and "the_channel i s = Some c" and "\<not> an_dropped s"
  shows "adapter_inv (shell_request i connected opened attached sent s)"
proof -
  have i: "an_bridge s = BrIdle" "an_daemon s = []" "an_accepted s = []" "an_queue s = []" "filter ending (an_client s) = []"
    using assms(1,2) by (auto simp: adapter_inv_def)
  have c: "an_channel s = Some c" "\<not> cn_shell_started c" using the_channel_Some [OF assms(3)] assms(2) by simp_all
  obtain told r where o: "open_remote connected opened attached = (told, r)" by fastforce
  show ?thesis
  proof (cases "cn_pty_accepted c")
    case False
    then show ?thesis using assms(1,3) c by (simp add: shell_request_def to_ssh_inv)
  next
    case pty: True
    show ?thesis
    proof (cases r)
      case None
      then have "told = [] \<or> (\<exists>j. told = [TdOpened j, TdTerminate j])"
        using o by (auto simp: open_remote_def split: sum.splits prod.splits)
      then have "daemon_trace BrIdle told" "list_all size_ok told" "concat (map input_of told) = []" by auto
      then show ?thesis using assms(1,3) pty c i o None
        by (simp add: shell_request_def adapter_defs Let_def)
    next
      case (Some p)
      then obtain j shell where p: "r = Some (j, shell)" by (cases p) simp
      then have "told = [TdOpened j]" using o by (auto simp: open_remote_def split: sum.splits prod.splits)
      then show ?thesis using assms(1,3,4) pty c i o p
        by (simp add: shell_request_def bridge_start_def adapter_defs Let_def)
    qed
  qed
qed

lemma shell_inv:
  assumes "adapter_inv s" and "\<not> an_dropped s"
  shows "adapter_inv (shell_request i connected opened attached sent s)"
proof (cases "the_channel i s = None \<or> started s")
  case True
  then show ?thesis using assms the_channel_Some(2) [of i s]
    by (auto simp: shell_request_def to_ssh_inv split: option.split)
next
  case False
  then obtain c where "the_channel i s = Some c" by (cases "the_channel i s") simp_all
  then show ?thesis using False assms by (intro idle_opened_inv) simp_all
qed

lemma bridge_end_inv:
  assumes "adapter_inv s" and "an_bridge s = BrRunning i"
    and that: "length q \<le> INPUT_MESSAGES" "z = None \<or> z = an_resized s"
  shows "adapter_inv (bridge_end i (s\<lparr>an_queue := q, an_resized := z\<rparr>))"
proof -
  obtain mid where m: "an_daemon s = TdOpened i # mid" "list_all ordinary mid"
    using assms by (cases "an_daemon s") (auto simp: adapter_inv_def)
  have "started s" using assms by (auto simp: adapter_inv_def)
  have z: "case z of None \<Rightarrow> True | Some (cols, rows) \<Rightarrow> size_ok (TdResize cols rows)"
    using that(2) assms(1) by (auto simp: adapter_inv_def)
  show ?thesis using assms m \<open>started s\<close> that(1) z
    by (auto simp: bridge_end_def adapter_defs)
qed

lemma bridge_end_now:
  assumes "adapter_inv s" and "an_bridge s = BrRunning i"
  shows "adapter_inv (bridge_end i s)"
proof -
  have "length (an_queue s) \<le> INPUT_MESSAGES" using assms(1) by (simp add: adapter_inv_def)
  from bridge_end_inv [OF assms this, of "an_resized s"] show ?thesis by simp
qed

lemma told_inv:
  assumes "adapter_inv s" and "an_bridge s = BrRunning i" and "ordinary x" and "size_ok x" and "an_queue s = input_of x @ q"
  shows "adapter_inv (to_holdfast [x] (s\<lparr>an_queue := q\<rparr>))"
proof -
  have "an_daemon s \<noteq> []" "started s" using assms(1,2) by (auto simp: adapter_inv_def)
  moreover have "inputs_taken s @ input_of x @ q = an_accepted s" using assms(1,2,5) by (simp add: adapter_inv_def bridge_running_def)
  moreover from this have "prefix (inputs_taken s @ input_of x) (an_accepted s)" by (metis append.assoc prefixI)
  moreover have "length q \<le> INPUT_MESSAGES" using assms(1,5) by (simp add: adapter_inv_def)
  ultimately show ?thesis using assms(1-4)
    by (simp add: adapter_inv_def bridge_running_def started_def inputs_taken_def to_holdfast_def hd_append)
qed

lemma told_only:
  assumes "adapter_inv s" and "an_bridge s = BrRunning i" and "ordinary x" and "size_ok x" and "input_of x = []"
  shows "adapter_inv (to_holdfast [x] s)"
  using told_inv [OF assms(1-4), of "an_queue s"] assms(5) by simp

lemma event_inv:
  assumes "adapter_inv s" and "an_bridge s = BrRunning i" and "an_queue s = []"
  shows "adapter_inv (bridge_event i ev sent s)"
proof -
  note e = bridge_end_now [OF assms(1,2)]
  have p: "adapter_inv (to_holdfast [TdPong n] s)" for n
    using told_only [OF assms(1,2), of "TdPong n"] by simp
  have x: "adapter_inv (to_ssh [TcExitStatus n, TcEof, TcEnd] (s\<lparr>an_bridge := BrDone True\<rparr>))" for n
  proof -
    obtain mid where "an_daemon s = TdOpened i # mid" "list_all ordinary mid"
      using assms by (cases "an_daemon s") (auto simp: adapter_inv_def)
    moreover have "started s" "filter ending (an_client s) = []" using assms(1,2) by (auto simp: adapter_inv_def)
    ultimately show ?thesis using assms by (simp add: adapter_defs)
  qed
  show ?thesis using e p x assms(1) by (simp add: bridge_event_def to_ssh_inv split: sum.split shell_event.split)
qed

lemma bridge_turn_inv:
  assumes "adapter_inv s"
  shows "adapter_inv (bridge_turn ev sent s)"
proof (cases "an_bridge s")
  case (BrRunning i)
  note e = bridge_end_inv [OF assms BrRunning] bridge_end_now [OF assms BrRunning]
  have q: "length (an_queue s) \<le> INPUT_MESSAGES" using assms by (simp add: adapter_inv_def)
  consider "an_cancelled s" | bs rest where "\<not> an_cancelled s" "an_queue s = bs # rest" | "\<not> an_cancelled s" "an_queue s = []"
    by (cases "an_queue s") auto
  then show ?thesis
  proof cases
    case 1
    then show ?thesis using e BrRunning by (simp add: bridge_turn_def)
  next
    case 2
    then show ?thesis using e(1) [of rest "an_resized s"] q told_inv [OF assms BrRunning, of "TdInput bs" rest] BrRunning
      by (simp add: bridge_turn_def)
  next
    case 3
    show ?thesis
    proof (cases "an_resized s")
      case (Some z)
      then obtain cols rows where z: "an_resized s = Some (cols, rows)" by (cases z) simp
      have sz: "size_ok (TdResize cols rows)" using assms z by (simp add: adapter_inv_def)
      have n: "adapter_inv (s\<lparr>an_resized := None\<rparr>)" by (rule resized_inv [OF assms]) simp
      then have "adapter_inv (to_holdfast [TdResize cols rows] (s\<lparr>an_resized := None\<rparr>))"
        using told_only [of "s\<lparr>an_resized := None\<rparr>" i "TdResize cols rows"] BrRunning sz by simp
      then show ?thesis using bridge_end_now [OF n, of i] e(2) 3 z BrRunning by (simp add: bridge_turn_def)
    qed (use e(2) event_inv [OF assms BrRunning 3(2)] assms BrRunning 3 in \<open>simp add: bridge_turn_def split: option.split\<close>)
  qed
qed (use assms in \<open>simp_all add: bridge_turn_def\<close>)

interpretation adapter: invariant_machine adapter_step adapter_inv
proof unfold_locales
  fix s e
  assume i: "adapter_inv s"
  show "adapter_inv (adapter_step s e)"
    by (cases e) (use i in \<open>simp_all add: adapter_step_def bridge_turn_inv open_session_inv pty_inv shell_inv data_inv window_inv
        cancel_inv drop_inv to_ssh_inv\<close>)
qed


text \<open>No more connections than configured are served.\<close>

lemma listener_bounded: "n \<le> maximum \<Longrightarrow> foldl (listener_turn maximum) n es \<le> maximum"
proof (induction es arbitrary: n)
  case (Cons e es)
  have "listener_turn maximum n e \<le> maximum" using Cons.prems by (cases e) simp_all
  then show ?case using Cons.IH by simp
qed simp

text \<open>What the loaders return was read within their bounds, from a file only its owner can read in the case of a host key.\<close>

lemma host_key_private:
  assumes "load_host_key parse enc (Some f) = Ok k"
  shows "of_mode f AND 0x3F = 0 \<and> (\<exists>bs. parse bs = Some k \<and> length bs \<le> 65536) \<and> \<not> enc k"
  using assms
  by (auto simp: load_host_key_def open_bounded_def read_opened_bounded_def MAX_HOST_KEY_BYTES_def Let_def
      split: sum.splits option.splits if_splits)

end
