(* ===== verification/Front_Door.thy ===== *)
theory Front_Door
  imports Socks "HOL-Library.Multiset"
begin

text \<open>
  The Unix bridge of a shared HTTP/3 front door (\<open>crates/daemon/src/frontdoor_bridge.rs\<close>): its configuration, the header
  each connection of the front door starts with, and the admission of sessions and of the streams
  of a session. A session's queue of streams is known by a serial number, so that a session that
  reuses the identity of an ended one is another session.
\<close>

unbundle bit_operations_syntax

section \<open>Configuration\<close>

definition HOSTNAME_BYTES_MAX :: nat where "HOSTNAME_BYTES_MAX = 253"
definition SESSIONS_MAX :: nat where "SESSIONS_MAX = 4096"
definition STREAMS_PER_SESSION_MAX :: nat where "STREAMS_PER_SESSION_MAX = 64"

definition is_lower_ascii :: "rchar \<Rightarrow> bool" where "is_lower_ascii c \<longleftrightarrow> 97 \<le> c \<and> c \<le> 122"
definition is_upper_ascii :: "rchar \<Rightarrow> bool" where "is_upper_ascii c \<longleftrightarrow> 65 \<le> c \<and> c \<le> 90"

text \<open>
  A decimal IPv4 address as the standard library reads it: four numbers of at most three digits without leading zeros. The
  text of an IPv6 address has a colon, which no label of a host name may have.
\<close>

definition ipv4_octet :: "rstring \<Rightarrow> bool" where
  "ipv4_octet p \<longleftrightarrow> p \<noteq> [] \<and> length p \<le> 3 \<and> list_all is_ascii_digit p \<and> (length p = 1 \<or> hd p \<noteq> 48)
     \<and> (case digits_value 0 p of None \<Rightarrow> False | Some n \<Rightarrow> n \<le> 255)"

definition ipv4_literal :: "rstring \<Rightarrow> bool" where
  "ipv4_literal s \<longleftrightarrow> (let parts = split_on (of_char CHR ''.'') s in length parts = 4 \<and> list_all ipv4_octet parts)"

definition hostname_label :: "rstring \<Rightarrow> bool" where
  "hostname_label l \<longleftrightarrow> l \<noteq> [] \<and> len l \<le> 63 \<and> hd l \<noteq> 45 \<and> last l \<noteq> 45
     \<and> list_all (\<lambda>c. is_lower_ascii c \<or> is_ascii_digit c \<or> c = 45) l"

definition validate_hostname :: "rstring \<Rightarrow> bool" where
  "validate_hostname h \<longleftrightarrow>
     \<not> (h = [] \<or> len h > HOSTNAME_BYTES_MAX \<or> last h = of_char CHR ''.'' \<or> ipv4_literal h \<or> list_ex is_upper_ascii h
        \<or> \<not> list_all hostname_label (split_on (of_char CHR ''.'') h))"

record bridge_config =
  bc_socket_path :: rstring
  bc_frontdoor_uid :: nat
  bc_hostname :: rstring
  bc_public_port :: nat
  bc_maximum_sessions :: nat
  bc_maximum_streams :: nat

text \<open>The components of a path, without empty ones and without the current directory.\<close>

definition path_components :: "rstring \<Rightarrow> rstring list" where
  "path_components p = filter (\<lambda>c. c \<noteq> [] \<and> c \<noteq> lit ''.'') (split_on (of_char CHR ''/'') p)"

definition bridge_validate :: "bridge_config \<Rightarrow> bool" where
  "bridge_validate c \<longleftrightarrow>
     (let p = bc_socket_path c in
      p \<noteq> [] \<and> hd p = of_char CHR ''/'' \<and> path_components p \<noteq> [] \<and> lit ''..'' \<notin> set (path_components p))
     \<and> validate_hostname (bc_hostname c) \<and> bc_frontdoor_uid c \<noteq> 0 \<and> bc_public_port c \<noteq> 0
     \<and> bc_maximum_sessions c \<noteq> 0 \<and> bc_maximum_sessions c \<le> SESSIONS_MAX
     \<and> bc_maximum_streams c \<noteq> 0 \<and> bc_maximum_streams c \<le> STREAMS_PER_SESSION_MAX"

section \<open>The socket\<close>

record file_stat =
  fs_is_dir :: bool
  fs_is_symlink :: bool
  fs_is_socket :: bool
  fs_mode :: u32
  fs_dev :: nat
  fs_ino :: nat

definition validate_socket_parent :: "file_stat option \<Rightarrow> bool" where
  "validate_socket_parent parent =
     (case parent of
        None \<Rightarrow> False
      | Some m \<Rightarrow> fs_is_dir m \<and> \<not> fs_is_symlink m \<and> fs_mode m AND 0x12 = 0)"

definition socket_guard_new :: "file_stat option \<Rightarrow> (nat \<times> nat) option" where
  "socket_guard_new bound =
     (case bound of None \<Rightarrow> None | Some m \<Rightarrow> if fs_is_socket m then Some (fs_dev m, fs_ino m) else None)"

text \<open>Whether the guard removes the path when it is dropped: only the inode it was made for.\<close>

definition socket_guard_removes :: "nat \<times> nat \<Rightarrow> file_stat option \<Rightarrow> bool" where
  "socket_guard_removes guard now =
     (case now of None \<Rightarrow> False | Some m \<Rightarrow> fs_is_socket m \<and> (fs_dev m, fs_ino m) = guard)"

section \<open>The header\<close>

definition HEADER_MAGIC :: bytes where "HEADER_MAGIC = map of_nat (lit ''DWMH3B02'')"
definition HEADER_FIXED_BYTES :: nat where "HEADER_FIXED_BYTES = 105"
definition KIND_SESSION :: u8 where "KIND_SESSION = 1"
definition KIND_STREAM :: u8 where "KIND_STREAM = 2"

record bridge_header =
  bh_kind :: u8
  bh_session_id :: bytes
  bh_stream_id :: nat
  bh_address :: ip_addr
  bh_port :: nat
  bh_hostname :: rstring
  bh_channel_binding :: bytes

datatype bridge_error = BeShort | BeMagic | BeAddress | BeHostnameLength | BeUtf8 | BeInvalid
  | BeUid | BeHostname | BeSessions | BeNoSession | BeMismatch | BeExhausted | BeStreams

definition be_value :: "bytes \<Rightarrow> nat" where
  "be_value bs = foldl (\<lambda>n b. n * 256 + unat b) 0 bs"

definition header_address :: "u8 \<Rightarrow> bytes \<Rightarrow> ip_addr option" where
  "header_address family bs =
     (if family = 4 \<and> drop 4 bs = replicate 12 0 then Some (V4 (take 4 bs))
      else if family = 6 then Some (V6 bs) else None)"

definition header_validate :: "bridge_header \<Rightarrow> bool" where
  "header_validate h \<longleftrightarrow> validate_hostname (bh_hostname h)
     \<and> \<not> (bh_session_id h = replicate 32 0 \<or> bh_channel_binding h = replicate 32 0
          \<or> (bh_kind h = KIND_SESSION \<and> bh_stream_id h \<noteq> 0) \<or> (bh_kind h = KIND_STREAM \<and> bh_stream_id h = 0)
          \<or> \<not> (bh_kind h = KIND_SESSION \<or> bh_kind h = KIND_STREAM) \<or> bh_port h = 0)"

definition header_read :: "bytes \<Rightarrow> bridge_error + bridge_header \<times> bytes" where
  "header_read inp =
     (let fixed = take HEADER_FIXED_BYTES inp; rest = drop HEADER_FIXED_BYTES inp in
      if length fixed < HEADER_FIXED_BYTES then Err BeShort
      else if take 8 fixed \<noteq> HEADER_MAGIC \<or> take 3 (drop 9 fixed) \<noteq> [0, 0, 0] then Err BeMagic
      else
        (case header_address (fixed ! 52) (take 16 (drop 53 fixed)) of
           None \<Rightarrow> Err BeAddress
         | Some address \<Rightarrow>
             (let hostname_length = be_value (take 2 (drop 71 fixed)) in
              if hostname_length = 0 \<or> hostname_length > HOSTNAME_BYTES_MAX then Err BeHostnameLength
              else if length rest < hostname_length then Err BeShort
              else
                (case from_utf8 (take hostname_length rest) of
                   Inl _ \<Rightarrow> Err BeUtf8
                 | Inr hostname \<Rightarrow>
                     (let h = \<lparr>bh_kind = fixed ! 8, bh_session_id = take 32 (drop 12 fixed),
                               bh_stream_id = be_value (take 8 (drop 44 fixed)), bh_address = address,
                               bh_port = be_value (take 2 (drop 69 fixed)), bh_hostname = hostname,
                               bh_channel_binding = take 32 (drop 73 fixed)\<rparr>
                      in if header_validate h then Ok (h, drop hostname_length rest) else Err BeInvalid)))))"

text \<open>The bytes of a header, as the tests of the bridge write them.\<close>

fun be_bytes :: "nat \<Rightarrow> nat \<Rightarrow> bytes" where
  "be_bytes 0 n = []"
| "be_bytes (Suc k) n = be_bytes k (n div 256) @ [of_nat (n mod 256)]"

definition encoded_header :: "bridge_header \<Rightarrow> bytes" where
  "encoded_header h =
     HEADER_MAGIC @ [bh_kind h] @ [0, 0, 0] @ bh_session_id h @ be_bytes 8 (bh_stream_id h)
     @ (case bh_address h of V4 octets \<Rightarrow> 4 # octets @ replicate 12 0 | V6 octets \<Rightarrow> 6 # octets)
     @ be_bytes 2 (bh_port h) @ be_bytes 2 (len (bh_hostname h)) @ bh_channel_binding h @ as_bytes (bh_hostname h)"

text \<open>The widths of the fields in the source's types.\<close>

definition header_wf :: "bridge_header \<Rightarrow> bool" where
  "header_wf h \<longleftrightarrow> length (bh_session_id h) = 32 \<and> bh_stream_id h < 256 ^ 8 \<and> bh_port h < 256 ^ 2
     \<and> length (bh_channel_binding h) = 32 \<and> list_all is_scalar (bh_hostname h)
     \<and> (case bh_address h of V4 octets \<Rightarrow> length octets = 4 | V6 octets \<Rightarrow> length octets = 16)"

section \<open>Admission\<close>

record session_entry =
  sn_header :: bridge_header
  sn_serial :: nat
  sn_next_stream_id :: nat

text \<open>A connection whose acknowledgement is being written; it holds a place in the queue it will be put in.\<close>

datatype handshake = HkSession nat bridge_header | HkStream nat bridge_header bridge_header

record front_door =
  fd_entries :: "(bytes \<times> session_entry) list"
  fd_serials :: nat
  fd_pending :: "handshake list"
  fd_waiting :: nat
  fd_taken :: "(nat \<times> nat) list"
  fd_sessions :: "(nat \<times> bridge_header) list"
  fd_streams :: "(nat \<times> bridge_header \<times> bridge_header) list"

definition front_door_new :: front_door where
  "front_door_new = \<lparr>fd_entries = [], fd_serials = 0, fd_pending = [], fd_waiting = 0, fd_taken = [], fd_sessions = [], fd_streams = []\<rparr>"

definition admit_session :: "bridge_config \<Rightarrow> bridge_header \<Rightarrow> front_door \<Rightarrow> front_door \<times> (bridge_error + unit)" where
  "admit_session c h s =
     (if fd_waiting s \<ge> bc_maximum_sessions c then (s, Err BeSessions)
      else if length (fd_entries s) \<ge> bc_maximum_sessions c \<or> bh_session_id h \<in> set (keys (fd_entries s)) then (s, Err BeSessions)
      else
        (s\<lparr>fd_entries := fd_entries s @ [(bh_session_id h, \<lparr>sn_header = h, sn_serial = fd_serials s, sn_next_stream_id = 1\<rparr>)],
           fd_serials := fd_serials s + 1, fd_pending := fd_pending s @ [HkSession (fd_serials s) h],
           fd_waiting := fd_waiting s + 1, fd_taken := fd_taken s @ [(fd_serials s, 0)]\<rparr>, Ok ()))"

text \<open>\<open>listening\<close> says that the daemon still takes streams of the session.\<close>

definition admit_stream :: "bridge_config \<Rightarrow> bool \<Rightarrow> bridge_header \<Rightarrow> front_door \<Rightarrow> front_door \<times> (bridge_error + unit)" where
  "admit_stream c listening h s =
     (case map_of (fd_entries s) (bh_session_id h) of
        None \<Rightarrow> (s, Err BeNoSession)
      | Some e \<Rightarrow>
          if bh_hostname (sn_header e) \<noteq> bh_hostname h \<or> bh_address (sn_header e) \<noteq> bh_address h
             \<or> bh_port (sn_header e) \<noteq> bh_port h \<or> bh_channel_binding (sn_header e) \<noteq> bh_channel_binding h
             \<or> bh_stream_id h \<noteq> sn_next_stream_id e then (s, Err BeMismatch)
          else if sn_next_stream_id e + 1 \<ge> 256 ^ 8 then (s, Err BeExhausted)
          else
            (let s1 = s\<lparr>fd_entries := assoc_put (bh_session_id h) (e\<lparr>sn_next_stream_id := sn_next_stream_id e + 1\<rparr>) (fd_entries s)\<rparr> in
             case map_of (fd_taken s) (sn_serial e) of
               None \<Rightarrow> (s1, Err BeStreams)
             | Some n \<Rightarrow>
                 if \<not> listening \<or> n \<ge> bc_maximum_streams c then (s1, Err BeStreams)
                 else (s1\<lparr>fd_taken := assoc_put (sn_serial e) (n + 1) (fd_taken s),
                          fd_pending := fd_pending s @ [HkStream (sn_serial e) (sn_header e) h]\<rparr>, Ok ())))"

definition accept_connection :: "bridge_config \<Rightarrow> nat \<Rightarrow> bool \<Rightarrow> bytes \<Rightarrow> front_door \<Rightarrow> front_door \<times> (bridge_error + unit)" where
  "accept_connection c uid listening inp s =
     (if uid \<noteq> bc_frontdoor_uid c then (s, Err BeUid)
      else
        (case header_read inp of
           Inl e \<Rightarrow> (s, Err e)
         | Inr (h, _) \<Rightarrow>
             if bh_hostname h \<noteq> bc_hostname c then (s, Err BeHostname)
             else if bh_kind h = KIND_SESSION then admit_session c h s
             else admit_stream c listening h s))"

text \<open>
  The acknowledgement was written, or it failed, or the handshake ran into its time limit. A session whose
  acknowledgement failed is removed; at the time limit it is not.
\<close>

datatype ack = AckSent | AckFailed | AckTimeout

definition release_stream :: "nat \<Rightarrow> front_door \<Rightarrow> front_door" where
  "release_stream k s = s\<lparr>fd_taken := assoc_upd k (\<lambda>n. n - 1) (fd_taken s)\<rparr>"

fun finish_handshake :: "handshake \<Rightarrow> ack \<Rightarrow> front_door \<Rightarrow> front_door" where
  "finish_handshake (HkSession k h) AckSent s = s\<lparr>fd_sessions := fd_sessions s @ [(k, h)]\<rparr>"
| "finish_handshake (HkSession k h) AckFailed s =
     s\<lparr>fd_waiting := fd_waiting s - 1, fd_entries := assoc_del (bh_session_id h) (fd_entries s)\<rparr>"
| "finish_handshake (HkSession k h) AckTimeout s = s\<lparr>fd_waiting := fd_waiting s - 1\<rparr>"
| "finish_handshake (HkStream k sh h) AckSent s = s\<lparr>fd_streams := fd_streams s @ [(k, sh, h)]\<rparr>"
| "finish_handshake (HkStream k sh h) _ s = release_stream k s"

definition ack_turn :: "nat \<Rightarrow> ack \<Rightarrow> front_door \<Rightarrow> front_door" where
  "ack_turn i a s =
     (if i < length (fd_pending s) then
        finish_handshake (fd_pending s ! i) a (s\<lparr>fd_pending := take i (fd_pending s) @ drop (Suc i) (fd_pending s)\<rparr>)
      else s)"

text \<open>The daemon takes a session, or a stream of a session; the control connection of a session ends.\<close>

datatype front_ev =
    FvConnect nat bool bytes
  | FvAck nat ack
  | FvTakeSession
  | FvTakeStream nat
  | FvControlClosed bytes

fun front_step :: "bridge_config \<Rightarrow> front_door \<Rightarrow> front_ev \<Rightarrow> front_door" where
  "front_step c s (FvConnect uid listening inp) = fst (accept_connection c uid listening inp s)"
| "front_step c s (FvAck i a) = ack_turn i a s"
| "front_step c s FvTakeSession = s\<lparr>fd_waiting := fd_waiting s - 1\<rparr>"
| "front_step c s (FvTakeStream k) = release_stream k s"
| "front_step c s (FvControlClosed i) = s\<lparr>fd_entries := assoc_del i (fd_entries s)\<rparr>"

section \<open>The header round trip\<close>

lemma be_value_snoc: "be_value (bs @ [b]) = be_value bs * 256 + unat b"
  by (simp add: be_value_def)

lemma be_value_bytes: "be_value (be_bytes k n) = n mod 256 ^ k"
proof (induction k arbitrary: n)
  case (Suc k)
  have "unat (of_nat (n mod 256) :: u8) = n mod 256" by (simp add: unat_of_nat)
  then show ?case using Suc [of "n div 256"] by (simp add: be_value_snoc mod_mult2_eq)
qed (simp add: be_value_def)

lemma be_bytes_value: "be_bytes (length bs) (be_value bs) = bs"
proof (induction bs rule: rev_induct)
  case (snoc b bs)
  have "(be_value bs * 256 + unat b) div 256 = be_value bs" "(be_value bs * 256 + unat b) mod 256 = unat b"
    using u8_unat_less [of b] by simp_all
  then show ?case using snoc by (simp add: be_value_snoc)
qed (simp add: be_value_def)

lemma be_value_less: "be_value bs < 256 ^ length bs"
proof (induction bs rule: rev_induct)
  case (snoc b bs)
  have "be_value bs * 256 + unat b < (be_value bs + 1) * 256" using u8_unat_less [of b] by simp
  also have "\<dots> \<le> 256 ^ length bs * 256" using snoc by (simp add: Suc_le_eq)
  finally show ?case by (simp add: be_value_snoc)
qed (simp add: be_value_def)

lemma length_be_bytes [simp]: "length (be_bytes k n) = k"
  by (induction k arbitrary: n) simp_all

lemma length_magic [simp]: "length HEADER_MAGIC = 8"
  by (simp add: HEADER_MAGIC_def lit_def)

definition address_bytes :: "ip_addr \<Rightarrow> bytes" where
  "address_bytes a = (case a of V4 octets \<Rightarrow> 4 # octets @ replicate 12 0 | V6 octets \<Rightarrow> 6 # octets)"

lemma header_address_exact:
  assumes "length bs = 16"
  shows "header_address f bs = Some a \<longleftrightarrow> address_bytes a = f # bs \<and> (case a of V4 o4 \<Rightarrow> length o4 = 4 | V6 o6 \<Rightarrow> length o6 = 16)"
proof (cases a)
  case (V4 o4)
  have "bs = o4 @ replicate 12 0 \<and> length o4 = 4 \<longleftrightarrow> drop 4 bs = replicate 12 0 \<and> take 4 bs = o4"
    using assms by auto (metis append_take_drop_id)
  then show ?thesis using V4 assms by (auto simp: header_address_def address_bytes_def)
next
  case (V6 o6)
  then show ?thesis using assms by (auto simp: header_address_def address_bytes_def)
qed

text \<open>The fixed part as its fields.\<close>

lemma fixed_fields:
  assumes "length xs = 105"
  shows "xs = take 8 xs @ [xs ! 8] @ take 3 (drop 9 xs) @ take 32 (drop 12 xs) @ take 8 (drop 44 xs)
    @ (xs ! 52 # take 16 (drop 53 xs)) @ take 2 (drop 69 xs) @ take 2 (drop 71 xs) @ take 32 (drop 73 xs)"
proof -
  have cut: "drop n xs = take k (drop n xs) @ drop (n + k) xs" for n k
    by (metis add.commute append_take_drop_id drop_drop)
  have one: "drop n xs = xs ! n # drop (Suc n) xs" if "n < 105" for n
    using that assms by (simp add: Cons_nth_drop_Suc)
  have "xs = take 8 xs @ drop 8 xs" by simp
  also have "drop 8 xs = xs ! 8 # drop 9 xs" using one [of 8] by simp
  also have "drop 9 xs = take 3 (drop 9 xs) @ drop 12 xs" using cut [of 9 3] by simp
  also have "drop 12 xs = take 32 (drop 12 xs) @ drop 44 xs" using cut [of 12 32] by simp
  also have "drop 44 xs = take 8 (drop 44 xs) @ drop 52 xs" using cut [of 44 8] by simp
  also have "drop 52 xs = xs ! 52 # drop 53 xs" using one [of 52] by simp
  also have "drop 53 xs = take 16 (drop 53 xs) @ drop 69 xs" using cut [of 53 16] by simp
  also have "drop 69 xs = take 2 (drop 69 xs) @ drop 71 xs" using cut [of 69 2] by simp
  also have "drop 71 xs = take 2 (drop 71 xs) @ drop 73 xs" using cut [of 71 2] by simp
  also have "drop 73 xs = take 32 (drop 73 xs)" using assms by simp
  finally show ?thesis by simp
qed

lemma field_cuts:
  assumes "length a = 8" "length z = 3" "length s = 32" "length i = 8" "length ad = 16" "length p = 2" "length l = 2" "length b = 32"
    and "xs = a @ [k] @ z @ s @ i @ (f # ad) @ p @ l @ b"
  shows "length xs = 105" "take 8 xs = a" "xs ! 8 = k" "take 3 (drop 9 xs) = z" "take 32 (drop 12 xs) = s" "take 8 (drop 44 xs) = i"
    "xs ! 52 = f" "take 16 (drop 53 xs) = ad" "take 2 (drop 69 xs) = p" "take 2 (drop 71 xs) = l" "take 32 (drop 73 xs) = b"
  using assms by (simp_all add: nth_append)

lemma hostname_bounds: "validate_hostname h \<Longrightarrow> 0 < len h \<and> len h \<le> 253"
  using len_utf8_bounds(1) [of "hd h"]
  by (cases h) (auto simp: validate_hostname_def HOSTNAME_BYTES_MAX_def)

lemma header_read_encoded:
  assumes w: "header_wf h" and v: "header_validate h"
  shows "header_read (encoded_header h @ rest) = Ok (h, rest)"
proof -
  obtain f ad where a: "address_bytes (bh_address h) = f # ad" "length ad = 16"
    using w by (cases "bh_address h") (auto simp: address_bytes_def header_wf_def)
  define fixed where "fixed = HEADER_MAGIC @ [bh_kind h] @ [0, 0, 0] @ bh_session_id h @ be_bytes 8 (bh_stream_id h) @ (f # ad)
    @ be_bytes 2 (bh_port h) @ be_bytes 2 (len (bh_hostname h)) @ bh_channel_binding h"
  have e: "encoded_header h @ rest = fixed @ as_bytes (bh_hostname h) @ rest"
    using a by (simp add: encoded_header_def address_bytes_def fixed_def)
  have l: "length (bh_session_id h) = 32" "length (bh_channel_binding h) = 32" using w by (simp_all add: header_wf_def)
  have z: "length [0, 0, 0 :: u8] = 3" by simp
  note c = field_cuts [OF length_magic z l(1) length_be_bytes a(2) length_be_bytes length_be_bytes l(2) fixed_def]
  have n: "0 < len (bh_hostname h)" "len (bh_hostname h) \<le> 253" using v hostname_bounds by (auto simp: header_validate_def)
  have vals: "be_value (be_bytes 8 (bh_stream_id h)) = bh_stream_id h" "be_value (be_bytes 2 (bh_port h)) = bh_port h"
    "be_value (be_bytes 2 (len (bh_hostname h))) = len (bh_hostname h)"
    using w n by (simp_all add: be_value_bytes header_wf_def)
  have adr: "header_address f ad = Some (bh_address h)" using header_address_exact [OF a(2)] a w by (simp add: header_wf_def)
  have u: "from_utf8 (as_bytes (bh_hostname h)) = Ok (bh_hostname h)" using w by (intro from_utf8_encode) (simp add: header_wf_def)
  have t: "take 105 (encoded_header h @ rest) = fixed" "drop 105 (encoded_header h @ rest) = as_bytes (bh_hostname h) @ rest"
    using c(1) e by simp_all
  show ?thesis
    unfolding header_read_def HEADER_FIXED_BYTES_def t Let_def
    using c n vals adr u l(2) v [unfolded header_validate_def]
    by (simp add: HOSTNAME_BYTES_MAX_def length_as_bytes header_validate_def)
qed

lemma header_read_canonical:
  assumes "header_read inp = Ok (h, rest)"
  shows "header_wf h \<and> header_validate h \<and> inp = encoded_header h @ rest"
proof -
  define xs where "xs = take 105 inp"
  define ys where "ys = drop 105 inp"
  define n where "n = be_value (take 2 (drop 71 xs))"
  have "\<not> length xs < 105" and m: "take 8 xs = HEADER_MAGIC" "take 3 (drop 9 xs) = [0, 0, 0]"
    using assms by (auto simp: header_read_def HEADER_FIXED_BYTES_def xs_def [symmetric] Let_def split: if_splits)
  then have l: "length xs = 105" by (simp add: xs_def)
  obtain adr where a: "header_address (xs ! 52) (take 16 (drop 53 xs)) = Some adr"
    using assms by (auto simp: header_read_def HEADER_FIXED_BYTES_def xs_def [symmetric] Let_def split: if_splits option.splits)
  have b: "n \<le> 253" "n \<le> length ys" and "\<exists>host. from_utf8 (take n ys) = Ok host"
    using assms a
    by (auto simp: header_read_def HEADER_FIXED_BYTES_def HOSTNAME_BYTES_MAX_def xs_def [symmetric] ys_def [symmetric]
        n_def [symmetric] Let_def split: if_splits sum.splits)
  then obtain host where u: "from_utf8 (take n ys) = Ok host" by blast
  have h: "h = \<lparr>bh_kind = xs ! 8, bh_session_id = take 32 (drop 12 xs), bh_stream_id = be_value (take 8 (drop 44 xs)),
      bh_address = adr, bh_port = be_value (take 2 (drop 69 xs)), bh_hostname = host, bh_channel_binding = take 32 (drop 73 xs)\<rparr>"
    and r: "rest = drop n ys" and v: "header_validate h"
    using assms a u
    by (auto simp: header_read_def HEADER_FIXED_BYTES_def xs_def [symmetric] ys_def [symmetric] n_def [symmetric] Let_def
        split: if_splits)
  have s: "list_all is_scalar host" "as_bytes host = take n ys" using from_utf8_decode [OF u] by simp_all
  then have "len host = n" using b length_as_bytes [of host] by simp
  have bytes: "be_bytes 8 (be_value (take 8 (drop 44 xs))) = take 8 (drop 44 xs)"
    "be_bytes 2 (be_value (take 2 (drop 69 xs))) = take 2 (drop 69 xs)" "be_bytes 2 n = take 2 (drop 71 xs)"
    using be_bytes_value [of "take 8 (drop 44 xs)"] be_bytes_value [of "take 2 (drop 69 xs)"] be_bytes_value [of "take 2 (drop 71 xs)"] l
    by (simp_all add: n_def)
  have ad: "address_bytes adr = xs ! 52 # take 16 (drop 53 xs)"
    "case adr of V4 o4 \<Rightarrow> length o4 = 4 | V6 o6 \<Rightarrow> length o6 = 16"
    using header_address_exact [of "take 16 (drop 53 xs)"] l a by simp_all
  have "header_wf h"
    using be_value_less [of "take 8 (drop 44 xs)"] be_value_less [of "take 2 (drop 69 xs)"] l s(1) ad(2)
    by (simp add: header_wf_def h)
  moreover have "encoded_header h @ rest = xs @ ys"
  proof -
    have "encoded_header h = (take 8 xs @ [xs ! 8] @ take 3 (drop 9 xs) @ take 32 (drop 12 xs) @ take 8 (drop 44 xs)
      @ (xs ! 52 # take 16 (drop 53 xs)) @ take 2 (drop 69 xs) @ take 2 (drop 71 xs) @ take 32 (drop 73 xs)) @ take n ys"
      using m bytes ad(1) s(2) \<open>len host = n\<close> by (simp add: encoded_header_def address_bytes_def h)
    then show ?thesis using fixed_fields [OF l] r by simp
  qed
  ultimately show ?thesis using v by (simp add: xs_def ys_def)
qed

text \<open>
  (C31) The bridge reads exactly the canonical encoding of valid headers: whatever header a connection starts with, its
  bytes are read back with the rest of the stream, and nothing else is accepted.
\<close>

theorem bridge_header_exact:
  "header_read inp = Ok (h, rest) \<longleftrightarrow> header_wf h \<and> header_validate h \<and> inp = encoded_header h @ rest"
  using header_read_encoded header_read_canonical by blast

section \<open>Streams reach their own session\<close>

fun hk_session :: "handshake \<Rightarrow> (nat \<times> bridge_header) list" where
  "hk_session (HkSession k h) = [(k, h)]" | "hk_session (HkStream _ _ _) = []"

fun hk_stream :: "handshake \<Rightarrow> (nat \<times> bridge_header \<times> bridge_header) list" where
  "hk_stream (HkSession _ _) = []" | "hk_stream (HkStream k sh h) = [(k, sh, h)]"

definition all_streams :: "front_door \<Rightarrow> (nat \<times> bridge_header \<times> bridge_header) list" where
  "all_streams s = fd_streams s @ concat (map hk_stream (fd_pending s))"

definition stream_key :: "nat \<times> bridge_header \<times> bridge_header \<Rightarrow> nat \<times> nat" where
  "stream_key x = (fst x, bh_stream_id (snd (snd x)))"

text \<open>The serial numbers in use, with the header of the session each was given to.\<close>

definition issued :: "front_door \<Rightarrow> (nat \<times> bridge_header) set" where
  "issued s = (\<lambda>(i, e). (sn_serial e, sn_header e)) ` set (fd_entries s) \<union> set (concat (map hk_session (fd_pending s)))
     \<union> set (fd_sessions s) \<union> (\<lambda>(k, sh, h). (k, sh)) ` set (all_streams s)"

definition belongs :: "bridge_header \<Rightarrow> bridge_header \<Rightarrow> bool" where
  "belongs sh h \<longleftrightarrow> bh_kind h = KIND_STREAM \<and> bh_session_id h = bh_session_id sh \<and> bh_hostname h = bh_hostname sh
     \<and> bh_address h = bh_address sh \<and> bh_port h = bh_port sh \<and> bh_channel_binding h = bh_channel_binding sh"

definition entry_ok :: "bridge_config \<Rightarrow> bytes \<times> session_entry \<Rightarrow> bool" where
  "entry_ok c x \<longleftrightarrow> bh_session_id (sn_header (snd x)) = fst x \<and> bh_kind (sn_header (snd x)) = KIND_SESSION
     \<and> bh_hostname (sn_header (snd x)) = bc_hostname c \<and> 1 \<le> sn_next_stream_id (snd x)"

definition front_inv :: "bridge_config \<Rightarrow> front_door \<Rightarrow> bool" where
  "front_inv c s \<longleftrightarrow>
     distinct (keys (fd_entries s)) \<and> length (fd_entries s) \<le> bc_maximum_sessions c \<and> list_all (entry_ok c) (fd_entries s)
     \<and> (\<forall>p \<in> issued s. fst p < fd_serials s \<and> (\<forall>q \<in> issued s. fst q = fst p \<longrightarrow> q = p))
     \<and> list_all (\<lambda>(k, sh, h). belongs sh h \<and> bh_hostname sh = bc_hostname c) (all_streams s)
     \<and> distinct (map stream_key (all_streams s))
     \<and> (\<forall>(i, e) \<in> set (fd_entries s). \<forall>x \<in> set (all_streams s). fst x = sn_serial e \<longrightarrow> snd (stream_key x) < sn_next_stream_id e)
     \<and> fd_waiting s \<le> bc_maximum_sessions c \<and> list_all (\<lambda>n. n \<le> bc_maximum_streams c) (map snd (fd_taken s))"

lemma front_invD:
  assumes "front_inv c s"
  shows "distinct (keys (fd_entries s))" and "length (fd_entries s) \<le> bc_maximum_sessions c"
    and "x \<in> set (fd_entries s) \<Longrightarrow> entry_ok c x" and "p \<in> issued s \<Longrightarrow> fst p < fd_serials s"
    and "p \<in> issued s \<Longrightarrow> q \<in> issued s \<Longrightarrow> fst q = fst p \<Longrightarrow> q = p"
    and "(k, sh, h) \<in> set (all_streams s) \<Longrightarrow> belongs sh h \<and> bh_hostname sh = bc_hostname c"
    and "distinct (map stream_key (all_streams s))"
    and "(i, e) \<in> set (fd_entries s) \<Longrightarrow> y \<in> set (all_streams s) \<Longrightarrow> fst y = sn_serial e \<Longrightarrow> snd (stream_key y) < sn_next_stream_id e"
    and "fd_waiting s \<le> bc_maximum_sessions c" and "list_all (\<lambda>n. n \<le> bc_maximum_streams c) (map snd (fd_taken s))"
  using assms unfolding front_inv_def list_all_iff by blast+

lemma front_invI:
  assumes "distinct (keys (fd_entries s))" and "length (fd_entries s) \<le> bc_maximum_sessions c"
    and "\<And>x. x \<in> set (fd_entries s) \<Longrightarrow> entry_ok c x" and "\<And>p. p \<in> issued s \<Longrightarrow> fst p < fd_serials s"
    and "\<And>p q. p \<in> issued s \<Longrightarrow> q \<in> issued s \<Longrightarrow> fst q = fst p \<Longrightarrow> q = p"
    and "\<And>k sh h. (k, sh, h) \<in> set (all_streams s) \<Longrightarrow> belongs sh h \<and> bh_hostname sh = bc_hostname c"
    and "distinct (map stream_key (all_streams s))"
    and "\<And>i e y. (i, e) \<in> set (fd_entries s) \<Longrightarrow> y \<in> set (all_streams s) \<Longrightarrow> fst y = sn_serial e \<Longrightarrow> snd (stream_key y) < sn_next_stream_id e"
    and "fd_waiting s \<le> bc_maximum_sessions c" and "list_all (\<lambda>n. n \<le> bc_maximum_streams c) (map snd (fd_taken s))"
  shows "front_inv c s"
  using assms unfolding front_inv_def list_all_iff by blast

lemma front_inv_less:
  assumes i: "front_inv c s" and "set (fd_entries s') \<subseteq> set (fd_entries s)" and "distinct (keys (fd_entries s'))"
    and "length (fd_entries s') \<le> length (fd_entries s)" and "fd_serials s' = fd_serials s" and "issued s' \<subseteq> issued s"
    and "set (all_streams s') \<subseteq> set (all_streams s)" and "distinct (map stream_key (all_streams s'))"
    and "fd_waiting s' \<le> fd_waiting s" and "list_all (\<lambda>n. n \<le> bc_maximum_streams c) (map snd (fd_taken s'))"
  shows "front_inv c s'"
proof (rule front_invI)
  show "length (fd_entries s') \<le> bc_maximum_sessions c" "fd_waiting s' \<le> bc_maximum_sessions c"
    using front_invD(2,9) [OF i] assms(4,9) by simp_all
  show "entry_ok c x" if "x \<in> set (fd_entries s')" for x using front_invD(3) [OF i subsetD [OF assms(2) that]] .
  show "fst p < fd_serials s'" if "p \<in> issued s'" for p using front_invD(4) [OF i subsetD [OF assms(6) that]] assms(5) by simp
  show "q = p" if "p \<in> issued s'" "q \<in> issued s'" "fst q = fst p" for p q
    using front_invD(5) [OF i subsetD [OF assms(6) that(1)] subsetD [OF assms(6) that(2)] that(3)] .
  show "belongs sh h \<and> bh_hostname sh = bc_hostname c" if "(k, sh, h) \<in> set (all_streams s')" for k sh h
    using front_invD(6) [OF i subsetD [OF assms(7) that]] .
  show "snd (stream_key y) < sn_next_stream_id e" if "(j, e) \<in> set (fd_entries s')" "y \<in> set (all_streams s')" "fst y = sn_serial e" for j e y
    using front_invD(8) [OF i subsetD [OF assms(2) that(1)] subsetD [OF assms(7) that(2)] that(3)] .
qed (use assms(3,8,10) in simp_all)

lemma taken_upd:
  "list_all (\<lambda>n. n \<le> (m :: nat)) (map snd xs) \<Longrightarrow> list_all (\<lambda>n. n \<le> m) (map snd (assoc_upd k (\<lambda>n. n - Suc 0) xs))"
  by (induction xs) (auto simp: assoc_upd_def)

lemma release_inv:
  assumes "front_inv c s"
  shows "front_inv c (release_stream k s)"
  by (rule front_inv_less [OF assms])
    (use assms in \<open>simp_all add: front_inv_def release_stream_def all_streams_def issued_def taken_upd\<close>)

lemma closed_inv:
  assumes "front_inv c s"
  shows "front_inv c (s\<lparr>fd_entries := assoc_del i (fd_entries s)\<rparr>)"
proof (rule front_inv_less [OF assms])
  show "issued (s\<lparr>fd_entries := assoc_del i (fd_entries s)\<rparr>) \<subseteq> issued s"
    using set_assoc_del [of i "fd_entries s"] by (auto simp: issued_def all_streams_def)
qed (use assms set_assoc_del length_assoc_del in \<open>simp_all add: front_inv_def all_streams_def\<close>)

lemma taken_session_inv:
  assumes "front_inv c s" and "n \<le> fd_waiting s"
  shows "front_inv c (s\<lparr>fd_waiting := n\<rparr>)"
  by (rule front_inv_less [OF assms(1)]) (use assms in \<open>simp_all add: front_inv_def all_streams_def issued_def\<close>)

text \<open>A handshake that ends: its entry leaves the list, and a stream moves to the delivered ones or is forgotten.\<close>

lemma pending_split:
  assumes "fd_pending s = xs @ x # ys"
  shows "all_streams s = fd_streams s @ concat (map hk_stream xs) @ hk_stream x @ concat (map hk_stream ys)"
    and "concat (map hk_session (fd_pending s)) = concat (map hk_session xs) @ hk_session x @ concat (map hk_session ys)"
  using assms by (simp_all add: all_streams_def)

lemma pending_gone:
  assumes "front_inv c s" and "fd_pending s = xs @ x # ys"
  shows "front_inv c (s\<lparr>fd_pending := xs @ ys\<rparr>)"
proof (rule front_inv_less [OF assms(1)])
  let ?s = "s\<lparr>fd_pending := xs @ ys\<rparr>"
  have a: "all_streams ?s = fd_streams s @ concat (map hk_stream xs) @ concat (map hk_stream ys)" by (simp add: all_streams_def)
  have d: "distinct (map stream_key (all_streams s))" using assms(1) by (simp add: front_inv_def)
  show sub: "set (all_streams ?s) \<subseteq> set (all_streams s)" unfolding a pending_split(1) [OF assms(2)] by auto
  have "set (concat (map hk_session (fd_pending ?s))) \<subseteq> set (concat (map hk_session (fd_pending s)))"
    unfolding pending_split(2) [OF assms(2)] by auto
  then show "issued ?s \<subseteq> issued s" unfolding issued_def using sub by (intro Un_mono image_mono) simp_all
  show "distinct (map stream_key (all_streams ?s))" using d unfolding a pending_split(1) [OF assms(2)] by (auto simp del: set_concat)
qed (use assms(1) in \<open>simp_all add: front_inv_def\<close>)

lemma session_sent_inv:
  assumes "front_inv c s" and "fd_pending s = xs @ HkSession k h # ys"
  shows "front_inv c (s\<lparr>fd_pending := xs @ ys, fd_sessions := fd_sessions s @ [(k, h)]\<rparr>)"
proof (rule front_inv_less [OF assms(1)])
  let ?s = "s\<lparr>fd_pending := xs @ ys, fd_sessions := fd_sessions s @ [(k, h)]\<rparr>"
  have a: "all_streams ?s = all_streams s" using assms(2) by (simp add: all_streams_def)
  then show "set (all_streams ?s) \<subseteq> set (all_streams s)" "distinct (map stream_key (all_streams ?s))"
    using assms(1) by (simp_all add: front_inv_def)
  show "issued ?s \<subseteq> issued s" unfolding issued_def pending_split(2) [OF assms(2)] a by (auto simp del: set_concat)
qed (use assms(1) in \<open>simp_all add: front_inv_def\<close>)

lemma stream_sent_inv:
  assumes "front_inv c s" and "fd_pending s = xs @ HkStream k sh h # ys"
  shows "front_inv c (s\<lparr>fd_pending := xs @ ys, fd_streams := fd_streams s @ [(k, sh, h)]\<rparr>)"
proof (rule front_inv_less [OF assms(1)])
  let ?s = "s\<lparr>fd_pending := xs @ ys, fd_streams := fd_streams s @ [(k, sh, h)]\<rparr>"
  have m: "mset (all_streams ?s) = mset (all_streams s)" using assms(2) by (simp add: all_streams_def)
  then show sub: "set (all_streams ?s) \<subseteq> set (all_streams s)" by (metis set_mset_mset order_refl)
  have "mset (map stream_key (all_streams ?s)) = mset (map stream_key (all_streams s))" using m by (simp only: mset_map)
  then show "distinct (map stream_key (all_streams ?s))"
    using front_invD(7) [OF assms(1)] by (metis mset_eq_imp_distinct_iff)
  have "set (concat (map hk_session (fd_pending ?s))) \<subseteq> set (concat (map hk_session (fd_pending s)))"
    unfolding pending_split(2) [OF assms(2)] by auto
  then show "issued ?s \<subseteq> issued s" unfolding issued_def using sub by (intro Un_mono image_mono) simp_all
qed (use front_invD [OF assms(1)] in simp_all)

lemma ack_inv:
  assumes "front_inv c s"
  shows "front_inv c (ack_turn i a s)"
proof (cases "i < length (fd_pending s)")
  case True
  let ?xs = "take i (fd_pending s)" and ?ys = "drop (Suc i) (fd_pending s)"
  have p: "fd_pending s = ?xs @ (fd_pending s ! i) # ?ys" using True by (rule id_take_nth_drop)
  let ?s = "s\<lparr>fd_pending := ?xs @ ?ys\<rparr>"
  note g = pending_gone [OF assms p]
  show ?thesis
  proof (cases "fd_pending s ! i")
    case (HkSession k h)
    show ?thesis
    proof (cases a)
      case AckSent
      then show ?thesis using HkSession True session_sent_inv [OF assms p [unfolded HkSession]] by (simp add: ack_turn_def)
    next
      case AckFailed
      have "front_inv c (?s\<lparr>fd_waiting := fd_waiting s - 1\<rparr>)" using taken_session_inv [OF g] by simp
      from closed_inv [OF this, of "bh_session_id h"] show ?thesis using HkSession True AckFailed by (simp add: ack_turn_def)
    next
      case AckTimeout
      then show ?thesis using HkSession True taken_session_inv [OF g] by (simp add: ack_turn_def)
    qed
  next
    case (HkStream k sh h)
    then show ?thesis using True stream_sent_inv [OF assms p [unfolded HkStream]] release_inv [OF g]
      by (cases a) (simp_all add: ack_turn_def)
  qed
qed (use assms in \<open>simp add: ack_turn_def\<close>)

lemma issued_stream: "(k, sh, h) \<in> set (all_streams s) \<Longrightarrow> (k, sh) \<in> issued s"
  unfolding issued_def by force

lemma issued_entry: "(i, e) \<in> set (fd_entries s) \<Longrightarrow> (sn_serial e, sn_header e) \<in> issued s"
  unfolding issued_def by force

lemma issued_less: "front_inv c s \<Longrightarrow> x \<in> set (all_streams s) \<Longrightarrow> fst x < fd_serials s"
  using front_invD(4) issued_stream by (cases x) fastforce

lemma admit_session_inv:
  assumes "front_inv c s" and "bh_kind h = KIND_SESSION" and "bh_hostname h = bc_hostname c"
  shows "front_inv c (fst (admit_session c h s))"
proof (cases "fd_waiting s < bc_maximum_sessions c \<and> length (fd_entries s) < bc_maximum_sessions c
    \<and> bh_session_id h \<notin> set (keys (fd_entries s))")
  case True
  let ?e = "\<lparr>sn_header = h, sn_serial = fd_serials s, sn_next_stream_id = 1\<rparr>"
  let ?s = "s\<lparr>fd_entries := fd_entries s @ [(bh_session_id h, ?e)], fd_serials := fd_serials s + 1,
      fd_pending := fd_pending s @ [HkSession (fd_serials s) h], fd_waiting := fd_waiting s + 1,
      fd_taken := fd_taken s @ [(fd_serials s, 0)]\<rparr>"
  have a: "all_streams ?s = all_streams s" by (simp add: all_streams_def)
  have i: "issued ?s = insert (fd_serials s, h) (issued s)" unfolding issued_def a by auto
  have ne: "fst x \<noteq> fd_serials s" if "x \<in> set (all_streams s)" for x using issued_less [OF assms(1) that] by simp
  note d = front_invD [OF assms(1)]
  have "front_inv c ?s"
  proof (rule front_invI)
    show "fst p < fd_serials ?s" if "p \<in> issued ?s" for p using that d(4) [of p] unfolding i by auto
    show "q = p" if "p \<in> issued ?s" "q \<in> issued ?s" "fst q = fst p" for p q
      using that d(4) [of p] d(4) [of q] d(5) [of p q] unfolding i by auto
    show "snd (stream_key y) < sn_next_stream_id e" if "(j, e) \<in> set (fd_entries ?s)" "y \<in> set (all_streams ?s)" "fst y = sn_serial e" for j e y
      using that d(8) [of j e y] ne [of y] unfolding a by auto
    show "entry_ok c x" if "x \<in> set (fd_entries ?s)" for x using that d(3) [of x] assms(2,3) by (auto simp: entry_ok_def)
    show "belongs sh g \<and> bh_hostname sh = bc_hostname c" if "(k, sh, g) \<in> set (all_streams ?s)" for k sh g
      using that d(6) unfolding a by blast
    show "distinct (map stream_key (all_streams ?s))" using d(7) unfolding a .
  qed (use d(1,2,9,10) True in simp_all)
  then show ?thesis using True by (simp add: admit_session_def)
next
  case False
  then have "fst (admit_session c h s) = s" by (auto simp: admit_session_def)
  then show ?thesis using assms(1) by simp
qed

lemma entry_unique:
  assumes "front_inv c s" and "(i, e) \<in> set (fd_entries s)" and "(j, f) \<in> set (fd_entries s)" and "sn_serial f = sn_serial e"
  shows "j = i"
proof -
  have "(sn_serial f, sn_header f) = (sn_serial e, sn_header e)"
    using front_invD(5) [OF assms(1) issued_entry [OF assms(2)] issued_entry [OF assms(3)]] assms(4) by simp
  then show ?thesis using front_invD(3) [OF assms(1,2)] front_invD(3) [OF assms(1,3)] by (simp add: entry_ok_def)
qed

text \<open>A stream is admitted under the number that is next; the number is used up even if there is no place for the stream.\<close>

lemma next_stream_inv:
  assumes inv: "front_inv c s" and e: "map_of (fd_entries s) i = Some e"
    and t: "list_all (\<lambda>n. n \<le> bc_maximum_streams c) (map snd taken)"
    and x: "xs = [] \<or> xs = [HkStream (sn_serial e) (sn_header e) h] \<and> belongs (sn_header e) h \<and> bh_stream_id h = sn_next_stream_id e"
  shows "front_inv c (s\<lparr>fd_entries := assoc_put i (e\<lparr>sn_next_stream_id := Suc (sn_next_stream_id e)\<rparr>) (fd_entries s),
      fd_taken := taken, fd_pending := fd_pending s @ xs\<rparr>)" (is "front_inv c ?s")
proof -
  let ?e = "e\<lparr>sn_next_stream_id := Suc (sn_next_stream_id e)\<rparr>"
  note d = front_invD [OF inv]
  have m: "(i, e) \<in> set (fd_entries s)" using e by (rule map_of_SomeD)
  then have "i \<in> set (keys (fd_entries s))" by (force simp: keys_def)
  then have p: "fd_entries ?s = assoc_upd i (\<lambda>_. ?e) (fd_entries s)" by (simp add: assoc_put_def)
  have old: "\<exists>f'. (j, f') \<in> set (fd_entries s) \<and> sn_serial f' = sn_serial f \<and> sn_header f' = sn_header f
      \<and> sn_next_stream_id f = (if j = i then Suc (sn_next_stream_id e) else sn_next_stream_id f')"
    if "(j, f) \<in> set (fd_entries ?s)" for j f
    using that m unfolding p by (cases "j = i") (auto simp: in_assoc_upd)
  have new: "concat (map hk_stream xs) = [] \<or> concat (map hk_stream xs) = [(sn_serial e, sn_header e, h)]" using x by auto
  then have sub: "set (concat (map hk_stream xs)) \<subseteq> {(sn_serial e, sn_header e, h)}" by (elim disjE) (simp_all only: list.set empty_subsetI order_refl)
  have str: "all_streams ?s = all_streams s @ concat (map hk_stream xs)" by (simp add: all_streams_def)
  have pend: "concat (map hk_session (fd_pending ?s)) = concat (map hk_session (fd_pending s))" using x by auto
  have bound: "snd (stream_key y) < sn_next_stream_id e" if "y \<in> set (all_streams s)" "fst y = sn_serial e" for y
    using d(8) [OF m that] .
  have iss: "issued ?s \<subseteq> issued s"
  proof
    fix q
    assume "q \<in> issued ?s"
    then consider j f where "(j, f) \<in> set (fd_entries ?s)" "q = (sn_serial f, sn_header f)"
      | "q \<in> set (concat (map hk_session (fd_pending s)))" | "q \<in> set (fd_sessions s)"
      | k sh g where "(k, sh, g) \<in> set (all_streams s)" "q = (k, sh)" | "q = (sn_serial e, sn_header e)"
      using sub unfolding issued_def str pend set_append by (fastforce simp del: set_concat)
    then show "q \<in> issued s"
    proof cases
      case 1
      then show ?thesis using old [of j f] issued_entry by fastforce
    next
      case 5
      then show ?thesis using issued_entry [OF m] by simp
    qed (use issued_stream in \<open>auto simp: issued_def\<close>)
  qed
  have es: "entry_ok c (i, e)" by (rule d(3) [OF m])
  show ?thesis
  proof (rule front_invI)
    show "fst q < fd_serials ?s" if "q \<in> issued ?s" for q using d(4) [OF subsetD [OF iss that]] by simp
    show "q = r" if "r \<in> issued ?s" "q \<in> issued ?s" "fst q = fst r" for q r using that iss d(5) by (meson subsetD)
    show "distinct (keys (fd_entries ?s))" "length (fd_entries ?s) \<le> bc_maximum_sessions c" using d(1,2) unfolding p by simp_all
    show "entry_ok c y" if y: "y \<in> set (fd_entries ?s)" for y
    proof -
      obtain j f where jf: "y = (j, f)" by fastforce
      from old [OF y [unfolded jf]] obtain f' where f: "(j, f') \<in> set (fd_entries s)" "sn_header f' = sn_header f"
        "sn_next_stream_id f = (if j = i then Suc (sn_next_stream_id e) else sn_next_stream_id f')" by blast
      then show ?thesis using d(3) [OF f(1)] by (auto simp: entry_ok_def jf)
    qed
    show "belongs sh g \<and> bh_hostname sh = bc_hostname c" if "(k, sh, g) \<in> set (all_streams ?s)" for k sh g
      using that d(6) [of k sh g] x es unfolding str by (auto simp: entry_ok_def)
    show "distinct (map stream_key (all_streams ?s))"
      using d(7) bound x unfolding str by (fastforce simp: stream_key_def)
    show "snd (stream_key y) < sn_next_stream_id f" if "(j, f) \<in> set (fd_entries ?s)" "y \<in> set (all_streams ?s)" "fst y = sn_serial f" for j f y
    proof -
      from old [OF that(1)] obtain f' where f: "(j, f') \<in> set (fd_entries s)" "sn_serial f' = sn_serial f"
        "sn_next_stream_id f = (if j = i then Suc (sn_next_stream_id e) else sn_next_stream_id f')" by blast
      note y = that(2)
      have j: "j = i" if "sn_serial f = sn_serial e" using entry_unique [OF inv m f(1)] f(2) that by simp
      have serial: "sn_serial f = sn_serial e" if "j = i" using that f(1,2) m d(1) map_of_in_set [OF d(1)] by (metis option.inject)
      consider "y \<in> set (all_streams s)" | "y = (sn_serial e, sn_header e, h)" "bh_stream_id h = sn_next_stream_id e"
        using y x unfolding str by auto
      then show ?thesis
      proof cases
        case 1
        then show ?thesis using d(8) [OF f(1) 1] that(3) f serial bound [OF 1] by (auto simp: less_Suc_eq)
      next
        case 2
        then show ?thesis using that(3) j f(3) by (simp add: stream_key_def)
      qed
    qed
  qed (use d(9) t in simp_all)
qed

lemma admit_stream_inv:
  assumes inv: "front_inv c s" and k: "bh_kind h = KIND_STREAM"
  shows "front_inv c (fst (admit_stream c listening h s))"
proof (cases "map_of (fd_entries s) (bh_session_id h)")
  case (Some e)
  have "entry_ok c (bh_session_id h, e)" by (rule front_invD(3) [OF inv map_of_SomeD [OF Some]])
  then have b: "belongs (sn_header e) h" if "bh_hostname (sn_header e) = bh_hostname h" "bh_address (sn_header e) = bh_address h"
      "bh_port (sn_header e) = bh_port h" "bh_channel_binding (sn_header e) = bh_channel_binding h"
    using that k by (simp add: belongs_def entry_ok_def)
  have full: "front_inv c (s\<lparr>fd_entries := assoc_put (bh_session_id h) (e\<lparr>sn_next_stream_id := Suc (sn_next_stream_id e)\<rparr>) (fd_entries s)\<rparr>)"
    using next_stream_inv [OF inv Some, of "fd_taken s" "[]"] front_invD(10) [OF inv] by simp
  have put: "list_all (\<lambda>n. n \<le> bc_maximum_streams c) (map snd (assoc_put j (Suc n) (fd_taken s)))" if "n < bc_maximum_streams c" for j n
    using front_invD(10) [OF inv] that by (auto simp: list_all_iff assoc_put_def assoc_upd_def split: if_splits)
  show ?thesis using Some full b next_stream_inv [OF inv Some put, where xs = "[HkStream (sn_serial e) (sn_header e) h]" and h = h] inv
    by (auto simp: admit_stream_def Let_def split: option.split)
qed (use inv in \<open>simp add: admit_stream_def\<close>)

interpretation front_door: invariant_machine "front_step c" "front_inv c" for c
proof unfold_locales
  fix s e
  assume i: "front_inv c s"
  show "front_inv c (front_step c s e)"
  proof (cases e)
    case (FvConnect uid listening inp)
    have "bh_kind h = KIND_STREAM" if "header_read inp = Ok (h, r)" "bh_kind h \<noteq> KIND_SESSION" for h r
      using header_read_canonical [OF that(1)] that(2) by (simp add: header_validate_def)
    then show ?thesis using FvConnect i admit_session_inv [OF i] admit_stream_inv [OF i]
      by (auto simp: accept_connection_def split: sum.split)
  qed (use i ack_inv release_inv closed_inv taken_session_inv in simp_all)
qed


text \<open>A connection of another user changes nothing.\<close>

lemma other_uid_refused: "uid \<noteq> bc_frontdoor_uid c \<Longrightarrow> accept_connection c uid listening inp s = (s, Err BeUid)"
  by (simp add: accept_connection_def)

text \<open>At the time limit of a handshake its session stays admitted although the daemon never gets it.\<close>

lemma timeout_keeps_entry:
  assumes "i < length (fd_pending s)" and "fd_pending s ! i = HkSession k h"
  shows "fd_entries (ack_turn i AckTimeout s) = fd_entries s \<and> fd_sessions (ack_turn i AckTimeout s) = fd_sessions s"
  using assms by (simp add: ack_turn_def)

end
