(* ===== verification/Web_Transport.thy ===== *)
theory Web_Transport
  imports Front_Door Ssh_Adapter Framing
begin

text \<open>
  The HTTP/3 listener (\<open>crates/daemon/src/webtransport.rs\<close>) without the QUIC stack: static serving over HTTP/3 with
  its paths, the origin check of \<open>lib.rs\<close>, the loading of certificate files, and the writer side of a session,
  where every stream has its own bounded queue and its own task.
\<close>

section \<open>Configuration\<close>

definition MAX_STATIC_FILE_BYTES :: nat where "MAX_STATIC_FILE_BYTES = 16 * 1024 * 1024"
definition MAX_REQUEST_PATH_BYTES :: nat where "MAX_REQUEST_PATH_BYTES = 1024"
definition MAX_CERTIFICATES :: nat where "MAX_CERTIFICATES = 8"
definition MAX_CERTIFICATE_CHAIN_BYTES :: nat where "MAX_CERTIFICATE_CHAIN_BYTES = 1024 * 1024"
definition MAX_PRIVATE_KEY_BYTES :: nat where "MAX_PRIVATE_KEY_BYTES = 64 * 1024"

definition origin_allowed :: "rstring list option \<Rightarrow> rstring option \<Rightarrow> bool" where
  "origin_allowed allowed_origins origin =
     (case allowed_origins of
        None \<Rightarrow> True
      | Some origins \<Rightarrow> (case origin of None \<Rightarrow> True | Some o' \<Rightarrow> list_ex (\<lambda>a. a = o') origins))"

definition read_bounded_file :: "bool \<Rightarrow> opened_file option \<Rightarrow> nat \<Rightarrow> load_error + bytes" where
  "read_bounded_file private file maximum =
     (case open_bounded file maximum of
        Inl e \<Rightarrow> Err e
      | Inr f \<Rightarrow> if private \<and> of_mode f AND 0x3F \<noteq> 0 then Err LoMode else read_opened_bounded f maximum)"

text \<open>
  \<open>pem_chain\<close> and \<open>pem_key\<close> are the PEM readers and \<open>server_config\<close> the TLS library; the hash is of the first certificate.
\<close>

definition load_configured_tls ::
  "(bytes \<Rightarrow> bytes list option) \<Rightarrow> (bytes \<Rightarrow> 'key option) \<Rightarrow> (bytes \<Rightarrow> bytes) \<Rightarrow> (bytes list \<Rightarrow> 'key \<Rightarrow> 'config option)
     \<Rightarrow> opened_file option \<Rightarrow> opened_file option \<Rightarrow> load_error + 'config \<times> bytes" where
  "load_configured_tls pem_chain pem_key sha256 server_config certificate key_file =
     (case read_bounded_file False certificate MAX_CERTIFICATE_CHAIN_BYTES of
        Inl e \<Rightarrow> Err e
      | Inr pem \<Rightarrow>
          (case pem_chain pem of
             None \<Rightarrow> Err LoParse
           | Some [] \<Rightarrow> Err LoParse
           | Some (leaf # chain) \<Rightarrow>
               if length (leaf # chain) > MAX_CERTIFICATES then Err LoTooLarge
               else
                 (case read_bounded_file True key_file MAX_PRIVATE_KEY_BYTES of
                    Inl e \<Rightarrow> Err e
                  | Inr key_pem \<Rightarrow>
                      (case pem_key key_pem of
                         None \<Rightarrow> Err LoParse
                       | Some k \<Rightarrow>
                           (case server_config (leaf # chain) k of None \<Rightarrow> Err LoParse | Some cfg \<Rightarrow> Ok (cfg, sha256 leaf))))))"

section \<open>Base64\<close>

definition BASE64_ALPHABET :: rstring where
  "BASE64_ALPHABET = lit ''ABCDEFGHIJKLMNOPQRSTUVWXYZabcdefghijklmnopqrstuvwxyz0123456789+/''"

definition base64_digit :: "u32 \<Rightarrow> rchar" where
  "base64_digit w = BASE64_ALPHABET ! unat (w AND 63)"

definition base64_word :: "u8 \<Rightarrow> u8 \<Rightarrow> u8 \<Rightarrow> u32" where
  "base64_word a b c = push_bit 16 (ucast a) OR push_bit 8 (ucast b) OR ucast c"

fun base64_encode :: "bytes \<Rightarrow> rstring" where
  "base64_encode [] = []"
| "base64_encode [a] = (let n = base64_word a 0 0 in [base64_digit (drop_bit 18 n), base64_digit (drop_bit 12 n), of_char CHR ''='', of_char CHR ''=''])"
| "base64_encode [a, b] =
     (let n = base64_word a b 0 in
      [base64_digit (drop_bit 18 n), base64_digit (drop_bit 12 n), base64_digit (drop_bit 6 n), of_char CHR ''=''])"
| "base64_encode (a # b # c # rest) =
     (let n = base64_word a b c in
      [base64_digit (drop_bit 18 n), base64_digit (drop_bit 12 n), base64_digit (drop_bit 6 n), base64_digit n] @ base64_encode rest)"

section \<open>Static files\<close>

datatype path_component = PcRoot | PcCur | PcParent | PcNormal rstring

text \<open>What \<open>Path::components\<close> yields on Unix.\<close>

definition path_parts :: "rstring \<Rightarrow> path_component list" where
  "path_parts p =
     (if p \<noteq> [] \<and> hd p = of_char CHR ''/'' then [PcRoot]
      else if hd (split_on (of_char CHR ''/'') p) = lit ''.'' then [PcCur] else [])
     @ map (\<lambda>c. if c = lit ''..'' then PcParent else PcNormal c) (path_components p)"

fun is_normal :: "path_component \<Rightarrow> bool" where
  "is_normal (PcNormal _) = True" | "is_normal _ = False"

definition static_join :: "rstring \<Rightarrow> rstring \<Rightarrow> rstring" where
  "static_join root p =
     (if root = [] \<or> last root = of_char CHR ''/'' then root @ p else root @ of_char CHR ''/'' # p)"

definition resolve_static_path :: "rstring \<Rightarrow> rstring \<Rightarrow> rstring option" where
  "resolve_static_path root path =
     (if len path > MAX_REQUEST_PATH_BYTES \<or> of_char CHR ''%'' \<in> set path \<or> 92 \<in> set path then None
      else if path = [] \<or> hd path \<noteq> of_char CHR ''/'' then None
      else
        (let relative = (if tl path = [] then lit ''index.html'' else tl path) in
         if list_all is_normal (path_parts relative) then Some (static_join root relative) else None))"

text \<open>The extension of the file name: what follows its last dot, if something stands before that dot.\<close>

definition path_extension :: "rstring \<Rightarrow> rstring option" where
  "path_extension p =
     (case rev (path_components p) of
        [] \<Rightarrow> None
      | name # _ \<Rightarrow>
          if name = lit ''..'' then None
          else
            (case rsplit_once (of_char CHR ''.'') name of
               None \<Rightarrow> None | Some (stem, ext) \<Rightarrow> if stem = [] then None else Some ext))"

definition content_type_for :: "rstring \<Rightarrow> rstring" where
  "content_type_for p =
     (case path_extension p of
        None \<Rightarrow> lit ''application/octet-stream''
      | Some e \<Rightarrow>
          if e = lit ''html'' then lit ''text/html; charset=utf-8''
          else if e = lit ''js'' then lit ''text/javascript''
          else if e = lit ''css'' then lit ''text/css''
          else if e = lit ''json'' \<or> e = lit ''map'' then lit ''application/json''
          else if e = lit ''wasm'' then lit ''application/wasm''
          else if e = lit ''svg'' then lit ''image/svg+xml''
          else if e = lit ''png'' then lit ''image/png''
          else if e = lit ''ico'' then lit ''image/x-icon''
          else if e = lit ''woff2'' then lit ''font/woff2''
          else if e = lit ''txt'' then lit ''text/plain; charset=utf-8''
          else lit ''application/octet-stream'')"

datatype http_method = HttpGet | HttpHead | HttpOther

record http_response =
  hs_status :: nat
  hs_content_type :: rstring
  hs_content_length :: nat
  hs_body :: bytes

definition send_simple :: "nat \<Rightarrow> rstring \<Rightarrow> bytes \<Rightarrow> http_method \<Rightarrow> http_response" where
  "send_simple status content_type body m =
     \<lparr>hs_status = status, hs_content_type = content_type, hs_content_length = length body,
      hs_body = (if m = HttpGet then body else [])\<rparr>"

datatype certificate_mode = DevelopmentHashPin | WebPki

fun as_wire_name :: "certificate_mode \<Rightarrow> rstring" where
  "as_wire_name DevelopmentHashPin = lit ''hash-pin''"
| "as_wire_name WebPki = lit ''webpki''"

definition webtransport_info_body :: "nat \<times> rstring \<times> certificate_mode \<Rightarrow> bool \<Rightarrow> rstring" where
  "webtransport_info_body info password =
     (case info of (port, hash, mode) \<Rightarrow>
        lit ''{\"port\":'' @ show_nat port @ lit '',\"certHashBase64\":\"'' @ hash @ lit ''\",\"certificateMode\":\"''
        @ as_wire_name mode @ lit ''\",\"passwordAuth\":'' @ (if password then lit ''true'' else lit ''false'') @ lit ''}'')"

record static_file =
  sf_is_file :: bool
  sf_size :: nat
  sf_content :: "bytes option"

definition not_found :: "http_method \<Rightarrow> http_response" where
  "not_found m = send_simple 404 (lit ''text/plain; charset=utf-8'') (as_bytes (lit ''not found'')) m"

text \<open>\<open>None\<close> is the failure to read a file, which ends the request without an answer.\<close>

definition serve_h3_request ::
  "(nat \<times> rstring \<times> certificate_mode) option \<Rightarrow> bool \<Rightarrow> rstring option \<Rightarrow> (rstring \<Rightarrow> static_file option)
     \<Rightarrow> http_method \<Rightarrow> rstring \<Rightarrow> http_response option" where
  "serve_h3_request info password web_root files m path =
     (let plain_text = lit ''text/plain; charset=utf-8'' in
      if m = HttpOther then Some (send_simple 405 plain_text (as_bytes (lit ''method not allowed'')) m)
      else if path = lit ''/webtransport-info'' then
        (case info of
           None \<Rightarrow> Some (send_simple 404 plain_text (as_bytes (lit ''webtransport disabled'')) m)
         | Some i \<Rightarrow> Some (send_simple 200 (lit ''application/json'') (as_bytes (webtransport_info_body i password)) m))
      else
        (case web_root of
           None \<Rightarrow> Some (not_found m)
         | Some root \<Rightarrow>
             (case resolve_static_path root path of
                None \<Rightarrow> Some (not_found m)
              | Some p \<Rightarrow>
                  (case files p of
                     None \<Rightarrow> Some (not_found m)
                   | Some f \<Rightarrow>
                       if \<not> sf_is_file f \<or> sf_size f > MAX_STATIC_FILE_BYTES then Some (not_found m)
                       else map_option (\<lambda>bs. send_simple 200 (content_type_for p) bs m) (sf_content f)))))"

section \<open>The queue of a stream\<close>

definition WT_CHANNEL_QUEUE_MESSAGES :: nat where "WT_CHANNEL_QUEUE_MESSAGES = 128"
definition WT_CHANNEL_QUEUE_BYTES :: nat where "WT_CHANNEL_QUEUE_BYTES = 1024 * 1024"

record wt_queue =
  wq_frames :: "bytes list"
  wq_bytes :: nat
  wq_closing :: bool

definition wt_queue_new :: wt_queue where
  "wt_queue_new = \<lparr>wq_frames = [], wq_bytes = 0, wq_closing = False\<rparr>"

definition queue_push :: "bytes \<Rightarrow> bytes \<Rightarrow> wt_queue \<Rightarrow> wt_queue" where
  "queue_push overload frame q =
     (if wq_closing q then q
      else if length (wq_frames q) \<ge> WT_CHANNEL_QUEUE_MESSAGES \<or> length frame > WT_CHANNEL_QUEUE_BYTES - wq_bytes q
      then \<lparr>wq_frames = [overload], wq_bytes = length overload, wq_closing = True\<rparr>
      else q\<lparr>wq_bytes := wq_bytes q + length frame, wq_frames := wq_frames q @ [frame]\<rparr>)"

definition queue_close :: "wt_queue \<Rightarrow> wt_queue" where
  "queue_close q = q\<lparr>wq_closing := True\<rparr>"

datatype queue_answer = QaFrame bytes | QaEnd | QaWait

definition queue_next :: "wt_queue \<Rightarrow> wt_queue \<times> queue_answer" where
  "queue_next q =
     (case wq_frames q of
        frame # rest \<Rightarrow> (q\<lparr>wq_frames := rest, wq_bytes := wq_bytes q - length frame\<rparr>, QaFrame frame)
      | [] \<Rightarrow> (q, if wq_closing q then QaEnd else QaWait))"

text \<open>
  A stream with its writer: what was written, whether the writer runs, failed or shut the stream down. The log has the
  frames that were offered to the queue, and whether it overflowed.
\<close>

datatype writer_phase = WpRunning | WpFailed | WpFinished

record wt_channel =
  wc_queue :: wt_queue
  wc_written :: "bytes list"
  wc_phase :: writer_phase
  wc_offered :: "bytes list"

definition wt_channel_new :: wt_channel where
  "wt_channel_new = \<lparr>wc_queue = wt_queue_new, wc_written = [], wc_phase = WpRunning, wc_offered = []\<rparr>"

definition run_channel_writer :: "bool \<Rightarrow> wt_channel \<Rightarrow> wt_channel" where
  "run_channel_writer sent c =
     (if wc_phase c \<noteq> WpRunning then c
      else
        (case queue_next (wc_queue c) of
           (q, QaFrame frame) \<Rightarrow>
             if sent then c\<lparr>wc_queue := q, wc_written := wc_written c @ [frame]\<rparr> else c\<lparr>wc_queue := q, wc_phase := WpFailed\<rparr>
         | (q, QaEnd) \<Rightarrow> c\<lparr>wc_phase := WpFinished\<rparr>
         | (q, QaWait) \<Rightarrow> c))"

section \<open>The router\<close>

text \<open>
  The map of the router, and the streams with their writers. Streams are numbered from a counter, so that a number
  is never used twice. \<open>overload\<close> is the encoded error that signals a slow consumer.
\<close>

record wt_router =
  wr_next_channel :: nat
  wr_queues :: "nat list"
  wr_channels :: "(nat \<times> wt_channel) list"
  wr_ended :: bool

definition wt_router_new :: wt_router where
  "wt_router_new = \<lparr>wr_next_channel = 0, wr_queues = [], wr_channels = [], wr_ended = False\<rparr>"

datatype router_ev =
    RvRegister
  | RvFrame nat envelope
  | RvSendersGone
  | RvWriter nat bool

definition still_written :: "wt_router \<Rightarrow> nat \<Rightarrow> bool" where
  "still_written r ch = (case map_of (wr_channels r) ch of None \<Rightarrow> False | Some c \<Rightarrow> wc_phase c = WpRunning)"

definition router_register :: "wt_router \<Rightarrow> wt_router" where
  "router_register r =
     (let ch = wr_next_channel r in
      if ch + 1 \<ge> 2 ^ 64 then r
      else r\<lparr>wr_next_channel := ch + 1,
             wr_queues := List.insert ch (filter (still_written r) (wr_queues r)),
             wr_channels := assoc_put ch wt_channel_new (wr_channels r)\<rparr>)"

definition router_frame :: "(envelope \<Rightarrow> bytes) \<Rightarrow> bytes \<Rightarrow> nat \<Rightarrow> envelope \<Rightarrow> wt_router \<Rightarrow> wt_router" where
  "router_frame enc overload ch env r =
     (if ch \<notin> set (wr_queues r) then r
      else
        (case encode_frame enc env FRAME_BYTES_DEFAULT of
           Inl _ \<Rightarrow> r
         | Inr bs \<Rightarrow>
             r\<lparr>wr_channels := assoc_upd ch (\<lambda>c. c\<lparr>wc_queue := queue_push overload bs (wc_queue c), wc_offered := wc_offered c @ [bs]\<rparr>)
                               (wr_channels r)\<rparr>))"

definition router_end :: "wt_router \<Rightarrow> wt_router" where
  "router_end r =
     r\<lparr>wr_ended := True,
       wr_channels := map (\<lambda>(ch, c). (ch, if ch \<in> set (wr_queues r) then c\<lparr>wc_queue := queue_close (wc_queue c)\<rparr> else c)) (wr_channels r)\<rparr>"

definition router_step :: "(envelope \<Rightarrow> bytes) \<Rightarrow> bytes \<Rightarrow> wt_router \<Rightarrow> router_ev \<Rightarrow> wt_router" where
  "router_step enc overload r ev =
     (case ev of
        RvWriter ch sent \<Rightarrow> r\<lparr>wr_channels := assoc_upd ch (run_channel_writer sent) (wr_channels r)\<rparr>
      | RvRegister \<Rightarrow> if wr_ended r then r else router_register r
      | RvFrame ch env \<Rightarrow> if wr_ended r then r else router_frame enc overload ch env r
      | RvSendersGone \<Rightarrow> if wr_ended r then r else router_end r)"

section \<open>Static serving stays inside the root\<close>

lemma split_on_append_sep: "split_on sep (a @ sep # b) = split_on sep a @ split_on sep b"
proof (induction a)
  case (Cons x a)
  then show ?case by (cases "split_on sep a") auto
qed simp

lemma path_components_sep: "path_components (a @ of_char CHR ''/'' # b) = path_components a @ path_components b"
  by (simp add: path_components_def split_on_append_sep)

lemma path_components_join: "path_components (static_join root p) = path_components root @ path_components p"
proof (cases "root = [] \<or> last root = of_char CHR ''/''")
  case True
  show ?thesis
  proof (cases "root = []")
    case False
    then have r: "root = butlast root @ of_char CHR ''/'' # []" using True append_butlast_last_id by metis
    have "path_components (root @ p) = path_components (butlast root @ of_char CHR ''/'' # p)" by (subst r) simp
    also have "\<dots> = path_components (butlast root) @ path_components p" by (rule path_components_sep)
    also have "path_components (butlast root) = path_components root"
      by (subst (2) r, subst path_components_sep) (simp add: path_components_def)
    finally show ?thesis using True by (simp add: static_join_def)
  qed (simp add: static_join_def path_components_def)
qed (use path_components_sep [of root p] in \<open>simp add: static_join_def\<close>)

lemma normal_parts: "list_all is_normal (path_parts p) \<Longrightarrow> lit ''..'' \<notin> set (path_components p)"
  by (auto simp: path_parts_def list_all_iff split: if_splits)

lemma static_confined:
  assumes "resolve_static_path root path = Some p"
  shows "\<exists>cs. path_components p = path_components root @ cs \<and> lit ''..'' \<notin> set cs"
  using assms normal_parts path_components_join [of root]
  by (auto simp: resolve_static_path_def Let_def split: if_splits)

section \<open>The base64 round trip\<close>

definition base64_value :: "rchar \<Rightarrow> u32 option" where
  "base64_value c = map_of (zip BASE64_ALPHABET (map of_nat [0..<64])) c"

definition base64_triple :: "u32 \<Rightarrow> u32 \<Rightarrow> u32 \<Rightarrow> u32 \<Rightarrow> u8 \<times> u8 \<times> u8" where
  "base64_triple v w x y =
     (let n = push_bit 18 v OR push_bit 12 w OR push_bit 6 x OR y in (ucast (drop_bit 16 n), ucast (drop_bit 8 n), ucast n))"

text \<open>A decoder in the sense of the specification of base64.\<close>

fun base64_decode :: "rstring \<Rightarrow> bytes option" where
  "base64_decode [] = Some []"
| "base64_decode (p # q # r # s # rest) =
     (case (base64_value p, base64_value q, base64_value r, base64_value s) of
        (Some v, Some w, Some x, Some y) \<Rightarrow>
          (case base64_triple v w x y of (a, b, c) \<Rightarrow> map_option (\<lambda>bs. a # b # c # bs) (base64_decode rest))
      | (Some v, Some w, Some x, None) \<Rightarrow>
          if s = of_char CHR ''='' \<and> rest = [] then (case base64_triple v w x 0 of (a, b, _) \<Rightarrow> Some [a, b]) else None
      | (Some v, Some w, None, None) \<Rightarrow>
          if r = of_char CHR ''='' \<and> s = of_char CHR ''='' \<and> rest = [] then (case base64_triple v w 0 0 of (a, _, _) \<Rightarrow> Some [a]) else None
      | _ \<Rightarrow> None)"
| "base64_decode _ = None"

lemma alphabet_distinct: "distinct BASE64_ALPHABET" and alphabet_length: "length BASE64_ALPHABET = 64"
  by (simp_all add: BASE64_ALPHABET_def lit_def)

lemma value_pad: "base64_value (of_char CHR ''='') = None"
proof -
  have "of_char CHR ''='' \<notin> set BASE64_ALPHABET" by (simp add: BASE64_ALPHABET_def lit_def)
  then show ?thesis using map_of_zip_is_None [of BASE64_ALPHABET "map of_nat [0..<64] :: u32 list"]
    by (simp add: base64_value_def alphabet_length)
qed

lemma value_digit: "base64_value (base64_digit w) = Some (w AND 63)"
proof -
  have "unat (w AND 63) \<le> 63" using word_and_le2 [of w 63] word_and_le1 [of w 63] by (simp add: word_le_nat_alt and.commute)
  then have i: "unat (w AND 63) < 64" by simp
  then show ?thesis using map_of_zip_nth [of BASE64_ALPHABET "map of_nat [0..<64] :: u32 list" "unat (w AND 63)"]
    by (simp add: base64_value_def base64_digit_def alphabet_distinct alphabet_length)
qed

lemma and_63: "w AND 63 = take_bit 6 (w :: u32)"
proof -
  have "(63 :: u32) = mask 6" by (simp add: mask_eq_exp_minus_1)
  then show ?thesis by (simp only: take_bit_eq_mask)
qed

lemma bit_base64_word:
  "bit (base64_word a b c) i \<longleftrightarrow> (if i < 8 then bit c i else if i < 16 then bit b (i - 8) else i < 24 \<and> bit a (i - 16))"
  using bit_imp_le_length [of a "i - 16"] bit_imp_le_length [of b "i - 8"] bit_imp_le_length [of c i]
  by (auto simp: base64_word_def bit_simps)

lemma sextets:
  fixes n :: u32
  assumes "\<And>i. bit n i \<Longrightarrow> i < 24"
  shows "push_bit 18 (take_bit 6 (drop_bit 18 n)) OR push_bit 12 (take_bit 6 (drop_bit 12 n))
    OR push_bit 6 (take_bit 6 (drop_bit 6 n)) OR take_bit 6 n = n"
proof (rule bit_word_eqI)
  fix i
  assume "i < LENGTH(32)"
  then show "bit (push_bit 18 (take_bit 6 (drop_bit 18 n)) OR push_bit 12 (take_bit 6 (drop_bit 12 n))
      OR push_bit 6 (take_bit 6 (drop_bit 6 n)) OR take_bit 6 n) i = bit n i"
    using assms [of i]
    by (cases "i < 6"; cases "i < 12"; cases "i < 18")
      (auto simp: bit_or_iff bit_push_bit_iff bit_take_bit_iff bit_drop_bit_eq possible_bit_word not_less)
qed

lemma triple_word:
  "base64_triple (drop_bit 18 (base64_word a b c) AND 63) (drop_bit 12 (base64_word a b c) AND 63)
     (drop_bit 6 (base64_word a b c) AND 63) (base64_word a b c AND 63) = (a, b, c)"
proof -
  let ?n = "base64_word a b c"
  have "i < 24" if "bit ?n i" for i using that by (auto simp: bit_base64_word split: if_splits)
  from sextets [OF this]
  have "base64_triple (drop_bit 18 ?n AND 63) (drop_bit 12 ?n AND 63) (drop_bit 6 ?n AND 63) (?n AND 63)
    = (ucast (drop_bit 16 ?n), ucast (drop_bit 8 ?n), ucast ?n)"
    unfolding base64_triple_def and_63 Let_def by simp
  also have "\<dots> = (a, b, c)"
    by (auto simp: bit_base64_word bit_simps intro!: bit_word_eqI)
  finally show ?thesis .
qed

lemma zero_sextet: "(\<And>i. i < 6 \<Longrightarrow> \<not> bit w i) \<Longrightarrow> w AND 63 = (0 :: u32)"
  unfolding and_63 by (rule bit_word_eqI) (auto simp: bit_take_bit_iff)

lemma base64_roundtrip: "base64_decode (base64_encode bs) = Some bs"
proof (induction bs rule: base64_encode.induct)
  case (2 a)
  have "base64_word a 0 0 AND 63 = 0" "drop_bit 6 (base64_word a 0 0) AND 63 = 0"
    by (rule zero_sextet; simp add: bit_base64_word bit_drop_bit_eq)+
  then show ?case using triple_word [of a 0 0] by (simp add: Let_def value_digit value_pad [simplified])
next
  case (3 a b)
  have "base64_word a b 0 AND 63 = 0"
    by (rule zero_sextet; simp add: bit_base64_word)
  then show ?case using triple_word [of a b 0] by (simp add: Let_def value_digit value_pad [simplified])
next
  case (4 a b c rest)
  then show ?case using triple_word [of a b c] by (simp add: Let_def value_digit)
qed simp

section \<open>What reaches a stream\<close>

text \<open>
  The log of a stream: what was written, continued by what waits (nothing of which is known once the stream failed), is
  what was offered; after an overflow it is a part of what was offered, from the start, and the
  signal of the overflow.
\<close>

definition stream_log :: "bytes \<Rightarrow> bool \<Rightarrow> nat \<Rightarrow> bytes list \<Rightarrow> wt_channel \<Rightarrow> bool" where
  "stream_log overload over n rest c \<longleftrightarrow>
     wc_written c @ rest = take n (wc_offered c) @ (if over then [overload] else [])
     \<and> n \<le> length (wc_offered c) \<and> (if over then wq_closing (wc_queue c) else n = length (wc_offered c))
     \<and> (wc_phase c = WpFailed \<or> rest = wq_frames (wc_queue c))"

definition queue_inv :: "bytes \<Rightarrow> wt_queue \<Rightarrow> bool" where
  "queue_inv overload q \<longleftrightarrow> wq_bytes q = sum_list (map length (wq_frames q))
     \<and> length (wq_frames q) \<le> WT_CHANNEL_QUEUE_MESSAGES \<and> wq_bytes q \<le> max WT_CHANNEL_QUEUE_BYTES (length overload)"

definition channel_inv :: "bytes \<Rightarrow> bool \<Rightarrow> wt_channel \<Rightarrow> bool" where
  "channel_inv overload ended c \<longleftrightarrow> queue_inv overload (wc_queue c)
     \<and> (wc_phase c = WpFinished \<longrightarrow> wq_closing (wc_queue c) \<and> wq_frames (wc_queue c) = [])
     \<and> (\<exists>over n rest. stream_log overload over n rest c \<and> (wq_closing (wc_queue c) \<longrightarrow> over \<or> ended))"

lemma queue_push_inv: "queue_inv overload q \<Longrightarrow> queue_inv overload (queue_push overload frame q)"
  by (auto simp: queue_inv_def queue_push_def WT_CHANNEL_QUEUE_MESSAGES_def)

lemma queue_next_inv: "queue_inv overload q \<Longrightarrow> queue_next q = (q', a) \<Longrightarrow> queue_inv overload q'"
  by (auto simp: queue_inv_def queue_next_def split: list.splits)

lemma offered_inv:
  assumes "channel_inv overload False c"
  shows "channel_inv overload False
    (c\<lparr>wc_queue := queue_push overload bs (wc_queue c), wc_offered := wc_offered c @ [bs]\<rparr>)" (is "channel_inv _ _ ?c")
proof -
  obtain over n rest where l: "stream_log overload over n rest c" "wq_closing (wc_queue c) \<longrightarrow> over"
    using assms by (auto simp: channel_inv_def)
  have q: "queue_inv overload (wc_queue ?c)" using assms queue_push_inv by (simp add: channel_inv_def)
  consider (closed) "wq_closing (wc_queue c)"
    | (full) "\<not> wq_closing (wc_queue c)" "wc_queue ?c = \<lparr>wq_frames = [overload], wq_bytes = length overload, wq_closing = True\<rparr>"
    | (room) "\<not> wq_closing (wc_queue c)" "wq_frames (wc_queue ?c) = wq_frames (wc_queue c) @ [bs]" "\<not> wq_closing (wc_queue ?c)"
  proof (cases "wq_closing (wc_queue c)")
    case False
    then show ?thesis using that(2,3)
      by (cases "length (wq_frames (wc_queue c)) \<ge> WT_CHANNEL_QUEUE_MESSAGES \<or> length bs > WT_CHANNEL_QUEUE_BYTES - wq_bytes (wc_queue c)")
        (simp_all add: queue_push_def)
  qed (use that(1) in simp)
  then show ?thesis
  proof cases
    case closed
    then have "wc_queue ?c = wc_queue c" by (simp add: queue_push_def)
    moreover have "stream_log overload over n rest ?c" using closed l by (simp add: stream_log_def queue_push_def)
    ultimately show ?thesis using assms closed l(2) q unfolding channel_inv_def by auto
  next
    case full
    then have e: "wc_written c @ rest = wc_offered c" using l by (simp add: stream_log_def split: if_splits)
    have "take (length (wc_written c)) (wc_offered c) = wc_written c" "length (wc_written c) \<le> length (wc_offered c)"
      unfolding e [symmetric] by simp_all
    then have "stream_log overload True (length (wc_written c)) [overload] ?c" using full(2) by (simp add: stream_log_def)
    then show ?thesis using assms full q by (auto simp: channel_inv_def)
  next
    case room
    then have "stream_log overload False (length (wc_offered ?c)) (rest @ [bs]) ?c"
      using l by (auto simp: stream_log_def split: if_splits)
    then show ?thesis using assms room q by (auto simp: channel_inv_def)
  qed
qed

lemma writer_inv:
  assumes "channel_inv overload ended c"
  shows "channel_inv overload ended (run_channel_writer sent c)"
proof (cases "wc_phase c = WpRunning")
  case True
  obtain over n rest where l: "stream_log overload over n rest c" "wq_closing (wc_queue c) \<longrightarrow> over \<or> ended"
    using assms by (auto simp: channel_inv_def)
  have r: "rest = wq_frames (wc_queue c)" using l True by (simp add: stream_log_def)
  show ?thesis
  proof (cases "wq_frames (wc_queue c)")
    case Nil
    have "stream_log overload over n rest (c\<lparr>wc_phase := WpFinished\<rparr>)" using l r by (simp add: stream_log_def)
    then show ?thesis using assms True Nil l(2)
      by (auto simp: run_channel_writer_def queue_next_def channel_inv_def)
  next
    case (Cons f fs)
    let ?q = "(wc_queue c)\<lparr>wq_frames := fs, wq_bytes := wq_bytes (wc_queue c) - length f\<rparr>"
    have q: "queue_next (wc_queue c) = (?q, QaFrame f)" using Cons by (simp add: queue_next_def)
    have i: "queue_inv overload ?q" using queue_next_inv [OF _ q] assms by (simp add: channel_inv_def)
    have "stream_log overload over n fs (c\<lparr>wc_queue := ?q, wc_written := wc_written c @ [f]\<rparr>)"
      "stream_log overload over n rest (c\<lparr>wc_queue := ?q, wc_phase := WpFailed\<rparr>)"
      using l r Cons by (simp_all add: stream_log_def)
    then show ?thesis using True q i l(2) by (auto simp: run_channel_writer_def channel_inv_def)
  qed
qed (use assms in \<open>simp add: run_channel_writer_def\<close>)

lemma closed_channel_inv:
  assumes "channel_inv overload False c"
  shows "channel_inv overload True (if b then c\<lparr>wc_queue := queue_close (wc_queue c)\<rparr> else c)"
proof -
  obtain over n rest where l: "stream_log overload over n rest c" using assms by (auto simp: channel_inv_def)
  then have "stream_log overload over n rest (c\<lparr>wc_queue := queue_close (wc_queue c)\<rparr>)"
    by (auto simp: stream_log_def queue_close_def)
  then show ?thesis using assms l by (auto simp: channel_inv_def queue_inv_def queue_close_def)
qed

definition router_inv :: "bytes \<Rightarrow> wt_router \<Rightarrow> bool" where
  "router_inv overload r \<longleftrightarrow> list_all (\<lambda>(ch, c). channel_inv overload (wr_ended r) c) (wr_channels r)"

lemma new_channel_inv: "channel_inv overload ended wt_channel_new"
  by (auto simp: channel_inv_def queue_inv_def stream_log_def wt_channel_new_def wt_queue_new_def)

lemma all_upd: "list_all (\<lambda>(k, c). P c) xs \<Longrightarrow> (\<And>c. P c \<Longrightarrow> P (f c)) \<Longrightarrow> list_all (\<lambda>(k, c). P c) (assoc_upd k f xs)"
  by (auto simp: list_all_iff assoc_upd_def)

lemma all_put: "list_all (\<lambda>(k, c). P c) xs \<Longrightarrow> P v \<Longrightarrow> list_all (\<lambda>(k, c). P c) (assoc_put k v xs)"
  by (auto simp: assoc_put_def all_upd)

lemma offered_all:
  assumes "list_all (\<lambda>(ch, c). channel_inv overload False c) cs"
  shows "list_all (\<lambda>(ch, c). channel_inv overload False c)
    (assoc_upd ch (\<lambda>c. c\<lparr>wc_queue := queue_push overload bs (wc_queue c), wc_offered := wc_offered c @ [bs]\<rparr>) cs)"
  by (rule all_upd [OF assms]) (rule offered_inv)

lemma closed_all:
  assumes "list_all (\<lambda>(ch, c). channel_inv overload False c) cs"
  shows "list_all (\<lambda>(ch, c). channel_inv overload True c)
    (map (\<lambda>(ch, c). (ch, if b ch then c\<lparr>wc_queue := queue_close (wc_queue c)\<rparr> else c)) cs)"
proof -
  have "channel_inv overload True (if b ch then c\<lparr>wc_queue := queue_close (wc_queue c)\<rparr> else c)" if "(ch, c) \<in> set cs" for ch c
    by (rule closed_channel_inv) (use assms that in \<open>auto simp: list_all_iff\<close>)
  then show ?thesis unfolding list_all_iff by auto
qed

interpretation router: invariant_machine "router_step enc overload" "router_inv overload" for enc overload
proof unfold_locales
  fix r ev
  assume i: "router_inv overload r"
  have f: "\<not> wr_ended r \<Longrightarrow> list_all (\<lambda>(ch, c). channel_inv overload False c) (wr_channels r)" using i by (simp add: router_inv_def)
  show "router_inv overload (router_step enc overload r ev)"
  proof (cases ev)
    case RvRegister
    then show ?thesis using i all_put [where P = "channel_inv overload False", OF f new_channel_inv]
      by (cases "wr_ended r") (simp_all add: router_step_def router_register_def router_inv_def Let_def)
  next
    case (RvFrame ch env)
    then show ?thesis using i offered_all [OF f]
      by (cases "wr_ended r") (simp_all add: router_step_def router_frame_def router_inv_def split: sum.split)
  next
    case RvSendersGone
    then show ?thesis using i closed_all [OF f, of "\<lambda>ch. ch \<in> set (wr_queues r)"]
      by (cases "wr_ended r") (simp_all add: router_step_def router_end_def router_inv_def)
  next
    case (RvWriter ch sent)
    then show ?thesis using i all_upd [where P = "channel_inv overload (wr_ended r)", OF _ writer_inv] by (simp add: router_step_def router_inv_def)
  qed
qed

text \<open>
  What a stream may have been sent: a beginning of the frames offered to it, everything if it was shut
  down in order; or a beginning of them and the signal of an overflow, after which nothing follows.
\<close>

definition stream_exact :: "bytes \<Rightarrow> wt_channel \<Rightarrow> bool" where
  "stream_exact overload c \<longleftrightarrow>
     (if wc_phase c = WpFinished then wc_written c = wc_offered c else prefix (wc_written c) (wc_offered c))
     \<or> (\<exists>n. wc_written c = take n (wc_offered c) @ [overload])"

lemma inv_exact:
  assumes "channel_inv overload ended c"
  shows "stream_exact overload c"
proof -
  obtain over n rest where l: "stream_log overload over n rest c" using assms by (auto simp: channel_inv_def)
  have fin: "wc_phase c = WpFinished \<Longrightarrow> rest = []" using l assms by (auto simp: stream_log_def channel_inv_def)
  show ?thesis
  proof (cases over)
    case True
    then have e: "wc_written c @ rest = take n (wc_offered c) @ [overload]" using l by (simp add: stream_log_def)
    show ?thesis
    proof (cases "rest = []")
      case False
      then have "wc_written c @ butlast rest = take n (wc_offered c)" using e by (metis butlast_append butlast_snoc)
      then have "prefix (wc_written c) (wc_offered c)" by (metis prefixI prefix_order.trans take_is_prefix)
      then show ?thesis using fin False by (auto simp: stream_exact_def)
    qed (use e in \<open>auto simp: stream_exact_def\<close>)
  next
    case False
    then have e: "wc_written c @ rest = wc_offered c" using l by (simp add: stream_log_def)
    have "prefix (wc_written c) (wc_offered c)" unfolding e [symmetric] by simp
    then show ?thesis using fin e by (auto simp: stream_exact_def)
  qed
qed

text \<open>
  (C32) Each stream of a session is written exactly: in every run of the router and its writers, whatever writes fail and
  block, the bytes of a stream are a beginning of the frames offered to it, or end with the overflow
  signal; a stream that was shut down in order got all of them; and at most 128 frames and one mebibyte
  (or the one signal) wait.
\<close>

theorem wt_streams_exact:
  "list_all (\<lambda>(ch, c). stream_exact overload c \<and> length (wq_frames (wc_queue c)) \<le> 128
      \<and> sum_list (map length (wq_frames (wc_queue c))) \<le> max 1048576 (length overload))
    (wr_channels (foldl (router_step enc overload) wt_router_new evs))"
proof -
  have "router_inv overload wt_router_new" by (simp add: router_inv_def wt_router_new_def)
  then have r: "router_inv overload (foldl (router_step enc overload) wt_router_new evs)" (is "router_inv _ ?r") by (rule router.run_inv)
  have "stream_exact overload c \<and> length (wq_frames (wc_queue c)) \<le> 128
      \<and> sum_list (map length (wq_frames (wc_queue c))) \<le> max 1048576 (length overload)"
    if "(ch, c) \<in> set (wr_channels ?r)" for ch c
  proof -
    have "channel_inv overload (wr_ended ?r) c" using r that by (auto simp: router_inv_def list_all_iff)
    then show ?thesis using inv_exact
      by (simp add: channel_inv_def queue_inv_def WT_CHANNEL_QUEUE_MESSAGES_def WT_CHANNEL_QUEUE_BYTES_def)
  qed
  then show ?thesis unfolding list_all_iff by blast
qed

text \<open>A frame for one stream, and the writer of one stream, leave every other stream alone.\<close>

lemma streams_independent:
  assumes "ch' \<noteq> ch"
  shows "map_of (wr_channels (router_step enc overload r (RvFrame ch env))) ch' = map_of (wr_channels r) ch'"
    and "map_of (wr_channels (router_step enc overload r (RvWriter ch sent))) ch' = map_of (wr_channels r) ch'"
  using assms by (simp_all add: router_step_def router_frame_def split: sum.split)

end
