(* ===== verification/Spec2Isabelle.thy ===== *)
theory Spec2Isabelle
  imports History Utf8 Modes Terminal_Model Framing Wire Ids Negotiate Transfer_Wire Launch Policy
    Session Session_Safety Session_Props Grant Rate_Limit Observability Upload_Store Permits
    Ssh_Auth Messages Forward Spawner_Client Spawner_Helper Upload_Service Conn Conn_Props Conn_Isolation
    Session_Isolation Overlay Gateway Agent Agent_Props Overlay_Props
    Socks Socks_Tunnel Native_Client Client_Props Client_State Client_Cli Client_Attach
    Core_Store Core_Control Core_Supervisor Core_Loop Core_Api Ssh_Adapter Front_Door Web_Transport
begin

text \<open>
  Verification of Holdfast, a daemon that keeps terminal sessions alive across reconnects.

  \<^bold>\<open>The program.\<close> A client connects over WebSocket or WebTransport, negotiates, authenticates
  with a grant, an SSH key or a password, and opens shells. A shell is a PTY process owned by the
  session core, which keeps a screen model and a bounded scrollback for it, so that a client may
  detach, lose its connection and attach again with a resume token. Beside shells the daemon takes
  file uploads and forwards TCP connections. Shells of other accounts are launched directly with
  \<open>prlimit\<close> and \<open>setpriv\<close> or through a privileged helper, the spawner. The sources are the Rust
  crates under \<open>src/crates\<close>; the messages are in \<open>src/protocol/messages.proto\<close>.

  \<^bold>\<open>Conventions\<close> (\<open>Prelude\<close>, \<open>Rust_Text\<close>). A \<open>Result\<close> is a sum with the error on the left, a
  panic is the value \<open>None\<close> of an option around the result, a \<open>HashMap\<close> is an association list
  with distinct keys, integers that may wrap are words and the others are \<open>nat\<close> or \<open>int\<close> within
  the range the code checks, a \<open>String\<close> is the list of its code points with its byte length
  \<open>len\<close>. Clocks, random bytes and what the operating system answers are arguments. Packages
  outside the repository (the terminal emulator, protobuf, SHA-256, Ed25519, \<open>ssh-key\<close>, JSON,
  sockets) are records or functions passed to the definitions, and a theorem that needs one of
  their documented laws states it as a hypothesis.

  \<^bold>\<open>Protocol\<close> (\<open>crates/protocol\<close>, \<open>crates/daemon/src/wire.rs\<close>). \<open>Framing\<close> models the length
  prefix, the incremental decoder and the receive loop, and shows that the frames decoded do not
  depend on how the bytes were cut, that encoding and decoding are inverse and that an oversized
  frame is refused from its header alone. \<open>Wire\<close> adds the channel varint of WebSocket messages,
  \<open>Ids\<close> the identifiers, \<open>Negotiate\<close> the hello, \<open>Transfer_Wire\<close> the checks of uploads and
  forward destinations (with a grammar the destination check is proved equal to), \<open>Messages\<close> the
  envelope and the reply constructors.

  \<^bold>\<open>Terminal\<close> (\<open>crates/terminal-model\<close>). \<open>History\<close> is the scrollback ring: bounds, stable
  identifiers, exact and complete paging. \<open>Utf8\<close> is the incremental decoder, equal to decoding
  the whole stream. \<open>Modes\<close> is the tracker of terminal modes and the sequence that restores them.
  \<open>Terminal_Model\<close> composes them around the emulator and shows that chunking does not matter and
  that no operation panics or breaks the invariant.

  \<^bold>\<open>Sessions\<close> (\<open>crates/session-core\<close>, \<open>crates/launch\<close>). \<open>Launch\<close> builds the command lines and
  shows that privileges are dropped before the shell starts. \<open>Policy\<close> has the account policies
  behind one interface and the resume tokens. \<open>Session\<close> has the state and every operation of the
  shell manager; \<open>Session_Safety\<close> runs them as events of a machine, with the pump thread, exits
  and receivers interleaved in any order, and proves the invariant; \<open>Session_Props\<close> has what a
  client relies on: attach on every branch, replay detection, the unbroken output stream of an
  attachment, idempotent opening, confinement of accounts, the idle reaper. \<open>Session_Isolation\<close>
  says which operations leave the shells of other users as they were.

  \<^bold>\<open>Authentication\<close> (\<open>crates/auth\<close>, \<open>crates/daemon/src/auth.rs\<close>). \<open>Grant\<close>: signed grants, exact
  verification and round trip. \<open>Ssh_Auth\<close>: authorized keys, the channel-bound challenge and the
  presence check of security keys, and the lookup of verifiers. \<open>Rate_Limit\<close>: failure buckets
  with lockout, sweep and eviction, bounded memory and effective lockout.

  \<^bold>\<open>Uploads\<close> (\<open>crates/upload-store\<close>, \<open>crates/spawner\<close>, \<open>crates/daemon/src/uploads.rs\<close> and the
  actor in \<open>conn.rs\<close>). \<open>Upload_Store\<close> models each operation as the system calls it issues for any
  answers; \<open>fs_replay\<close> states the POSIX effect of such a log, and a whole upload is shown to be
  all or nothing on disk. \<open>Spawner_Client\<close> is the daemon's side of the spawner protocol: remote
  uploads stay in step with the helper's checks, exits are sticky. \<open>Spawner_Helper\<close> is the other
  side, the privileged process, as a trace of its effects: whatever the daemon sends it acts only
  for exposed accounts that are not root, and its uploads are all or nothing. \<open>Upload_Service\<close> joins both
  back ends under the actor that owns an upload, proves that the actor always ends with one audit
  event, and lifts all or nothing to the service. \<open>Permits\<close> holds the concurrency limits.

  \<^bold>\<open>Forwards\<close> (\<open>crates/daemon/src/forward.rs\<close>). \<open>Forward\<close> is the relay task as a step relation
  interleaved with the frames of the client; it refines a one-slot relay and can always deliver
  what it accepted.

  \<^bold>\<open>Connections\<close> (\<open>crates/daemon/src/conn.rs\<close>). \<open>Conn\<close> is the dispatcher that joins all of the
  above for one client: the state of a connection, the four ways to authenticate, one definition
  per arm of \<open>dispatch\<close>, the closing of channels and the thread that forwards an attachment's
  events. What happens during a dispatch outside the daemon (clocks, fresh values, PTYs, stores,
  blocking workers, the outgoing queue) is the record \<open>answers\<close>. \<open>Conn_Props\<close> interleaves dispatches
  with ending upload actors, running forward tasks and the rest of the daemon, proves the
  invariant of every reachable connection and says exactly when an unauthenticated connection
  becomes authenticated. \<open>Conn_Isolation\<close> shows that dispatch never panics and keeps the session
  core's invariant, that no message touches the shells of other users, and that a scoped grant is
  never exceeded.

  \<^bold>\<open>Overlay\<close> (\<open>crates/agent\<close>, \<open>crates/gateway\<close>). A server behind a firewall dials out to a
  gateway, which then opens and attaches shells on it. \<open>Overlay\<close> has the messages, their bounds
  and the streams of framed messages. \<open>Gateway\<close> is the certificate registry, the registration of
  agents and the gateway's requests; in every interleaving an active agent holds the lease of the
  identity its certificate was bound to, at most one link each and within the limits. \<open>Agent\<close> is the
  other end: registration, the reconnect loop, the control stream and one task per attachment
  stream, interleaved in any order with each other and the session core. \<open>Agent_Props\<close> shows that
  whatever the gateway sends, shells are touched only for the user, operation and server of a
  valid grant, that every attachment is released when its stream ends or the link is lost, and
  that no step panics. \<open>Overlay_Props\<close> puts both ends together over the bytes between them.

  \<^bold>\<open>Native client\<close> (\<open>crates/native-client\<close>). \<open>Socks\<close> is the loopback SOCKS5 proxy: its handshake accepts
  exactly the byte strings of a grammar. \<open>Socks_Tunnel\<close> runs its relay against the daemon's forward with
  frames in flight both ways: each side receives a prefix of what the other side sent, whatever
  the order of the steps, and what was sent can always be delivered. \<open>Native_Client\<close> is the library: addresses, authentication, shell
  operations, attachments, uploads; \<open>Client_Props\<close> joins an upload with the daemon's actor and its disk.
  \<open>Client_State\<close> is the state file, with crashes, and the session loop that reconnects; \<open>Client_Cli\<close> has the commands;
  \<open>Client_Attach\<close> joins an attach with the dispatcher: the token the client writes down is the one the
  daemon expects.

  \<^bold>\<open>Desktop client\<close> (\<open>crates/client-core\<close>). \<open>Core_Store\<close> is its store: after any mutations, failed saves and restarts the
  file holds what memory holds, less the grants there is no consent to keep. \<open>Core_Control\<close> has the actor that
  pairs requests with replies, each answered exactly once, and the pumps of an attached shell.
  \<open>Core_Supervisor\<close> connects, replays the journal of opens and attaches with recovery, which always ends and
  forgets a shell only when told that it is gone. \<open>Core_Loop\<close> has the commands and the reconnect loop with its
  invariant, \<open>Core_Api\<close> the interface for a GUI: every supervisor has a stored server.

  \<^bold>\<open>SSH adapter\<close> (\<open>crates/ssh-adapter\<close>). \<open>Ssh_Adapter\<close> is the configuration, the loading of keys, the handler of one SSH
  connection and the task that bridges its channel to a shell: the shell ends with the channel and gets
  the input in order.

  \<^bold>\<open>Front door bridge\<close> (\<open>crates/daemon/src/frontdoor_bridge.rs\<close>). \<open>Front_Door\<close> reads the header of a connection,
  exactly the canonical encodings of valid headers, and admits sessions and streams: every stream reaches the session
  it names, with its peer address and channel binding, and the configured limits hold in every run.

  \<^bold>\<open>HTTP/3 listener\<close> (\<open>crates/daemon/src/webtransport.rs\<close>). \<open>Web_Transport\<close> has static serving, which stays below the web
  root, certificate files, base64 with its round trip, and the writer side of a session: each stream is written a
  beginning of what was offered to it, all of it or the signal of an overflow, and no stream disturbs another.

  \<^bold>\<open>Observability\<close> (\<open>crates/daemon/src/observability.rs\<close>). The audit ring keeps the most recent
  sanitized events and the counters count them.

  \<^bold>\<open>Interfaces.\<close> \<open>invariant_machine\<close> (steps that keep an invariant; interpreted on the session
  machine, the limiter, the desktop client's store, supervisor and interface, the SSH adapter, the front door, the writer router and others), \<open>evicting_log\<close> (bounded logs that forget their oldest
  entries; interpreted on the scrollback ring, the ring of superseded tokens and the audit ring),
  \<open>access_policy\<close> (interpreted on both policies) and \<open>permit_pool\<close> (interpreted on uploads and
  forwards) are locales whose laws are discharged for the definitions of the program.

  \<^bold>\<open>Bounds.\<close> No definition uses fuel: loops are recursions over the data they consume, or have
  a measure (the decoders). Loops that wait (the actor, the forward task, the pump) are recursions
  or relations over the sequence of what they receive.

  \<^bold>\<open>Not modelled.\<close> The daemon's start-up, the QUIC and HTTP/3 stack with the tasks that read its streams, the socket
  loop of WebSocket, the clients' TLS and Windows calls, the SSH adapter's command line,
  the DockerWM hand-off and PAM calls; the vendored emulator and the SSH package are
  parameters. Logging is output only.
\<close>

end
